(* ===== verification/Radare_Prelude.thy ===== *)
theory Radare_Prelude
  imports Main "HOL-Library.Word"
begin

text \<open>
  Shared vocabulary of the development: the machine integer types of \<^verbatim>\<open>src/src/types.h\<close>, the
  collections of rewrite rules the component theories extend, and the generic facts on lists,
  options and words that their proofs use.
\<close>

unbundle bit_operations_syntax

section \<open>Machine integers\<close>

text \<open>\<^verbatim>\<open>types.h\<close>: \<^verbatim>\<open>u8\<close>, \<^verbatim>\<open>ut16\<close>, \<^verbatim>\<open>ut32\<close> and \<^verbatim>\<open>ut64\<close> are the unsigned types of their width.\<close>

type_synonym u8 = "8 word"
type_synonym ut16 = "16 word"
type_synonym ut32 = "32 word"
type_synonym ut64 = "64 word"

text \<open>The value \<^verbatim>\<open>(ut64)-1\<close> that the code uses as its error and ``unset'' marker.\<close>

abbreviation UT64_MAX :: ut64 where
  "UT64_MAX \<equiv> - 1"

lemma unat_ucast32_64 [simp]: "unat (ucast (z :: ut32) :: ut64) = unat z"
proof -
  have "unat z < 2 ^ 32" using unsigned_less [of z, where ?'a = nat] by simp
  then show ?thesis by (simp add: unsigned_ucast_eq take_bit_nat_eq_self)
qed

section \<open>Collections\<close>

named_theorems heap_simps \<open>reads of the link fields after the primitive writes\<close>
named_theorems seg_simps \<open>address sets of ranges, sections and maps\<close>
named_theorems hash_simps \<open>folds that compute checksums\<close>

section \<open>Lists\<close>

lemma last_Cons_append [simp]: "last (a # xs @ y # ys) = last (y # ys)"
  by (induction xs) auto

lemma hd_append_single: "hd (xs @ [y]) = (if xs = [] then y else hd xs)"
  by (cases xs) auto

lemma takeWhile_neq_at [simp]: "s \<notin> set A \<Longrightarrow> takeWhile (\<lambda>y. y \<noteq> s) (A @ s # C) = A"
  by (induction A) auto

lemma dropWhile_neq_at [simp]: "s \<notin> set A \<Longrightarrow> dropWhile (\<lambda>y. y \<noteq> s) (A @ s # C) = s # C"
  by (induction A) auto

lemma find_append:
  "List.find P (xs @ ys) = (case List.find P xs of None \<Rightarrow> List.find P ys | Some x \<Rightarrow> Some x)"
  by (induction xs) auto

lemma find_SomeD: "List.find P xs = Some x \<Longrightarrow> x \<in> set xs \<and> P x"
  by (induction xs) (auto split: if_splits)

lemma fold_invariant_list:
  assumes "I s" and "\<And>x s. x \<in> set xs \<Longrightarrow> I s \<Longrightarrow> I (f x s)"
  shows "I (fold f xs s)"
  using assms by (induction xs arbitrary: s) auto

text \<open>The update of the first list entry with a property, in place, and its removal.\<close>

fun update_first :: "('a \<Rightarrow> bool) \<Rightarrow> ('a \<Rightarrow> 'a) \<Rightarrow> 'a list \<Rightarrow> 'a list" where
  "update_first P f [] = []"
| "update_first P f (x # xs) = (if P x then f x # xs else x # update_first P f xs)"

fun remove_first :: "('a \<Rightarrow> bool) \<Rightarrow> 'a list \<Rightarrow> 'a list" where
  "remove_first P [] = []"
| "remove_first P (x # xs) = (if P x then xs else x # remove_first P xs)"

lemma length_remove_first: "x \<in> set xs \<Longrightarrow> P x \<Longrightarrow> length (remove_first P xs) < length xs"
  by (induction xs) auto

lemma find_update_first_same:
  "List.find P xs = Some x \<Longrightarrow> P (f x) \<Longrightarrow> List.find P (update_first P f xs) = Some (f x)"
  by (induction xs) (auto split: if_splits)

lemma find_update_first_other:
  "(\<And>x. P x \<Longrightarrow> \<not> Q x \<and> \<not> Q (f x)) \<Longrightarrow> List.find Q (update_first P f xs) = List.find Q xs"
  by (induction xs) auto

lemma map_update_first:
  "(\<And>x. x \<in> set xs \<Longrightarrow> P x \<Longrightarrow> g (f x) = g x) \<Longrightarrow> map g (update_first P f xs) = map g xs"
  by (induction xs) auto

lemma set_update_first: "y \<in> set (update_first P f xs) \<Longrightarrow> y \<in> set xs \<or> (\<exists>x \<in> set xs. P x \<and> y = f x)"
  by (induction xs) (auto split: if_splits)

end
