(* ===== verification/List_Head.thy ===== *)
theory List_Head
  imports Radare_Prelude
begin

text \<open>
  The intrusive doubly linked list of \<^verbatim>\<open>src/src/list.h\<close>, on which flags, ranges, sections, undo
  records, io maps and virtual-machine registers are kept. The heap holds the two link fields of
  every node; each operation performs the writes of the C function in its order. The predicate
  \<open>dll h head xs\<close> says that the nodes \<open>xs\<close> hang, in this order, from the list head \<open>head\<close>; every
  operation is shown to refine the operation on \<open>xs\<close>, and the iteration macros to visit \<open>xs\<close>.
\<close>

section \<open>The heap and the operations\<close>

type_synonym ptr = nat

abbreviation (input) NULL :: ptr where
  "NULL \<equiv> 0"

record list_head =
  next_of :: "ptr \<Rightarrow> ptr"
  prev_of :: "ptr \<Rightarrow> ptr"

definition set_next :: "ptr \<Rightarrow> ptr \<Rightarrow> list_head \<Rightarrow> list_head" where
  "set_next p v h = h\<lparr>next_of := (next_of h)(p := v)\<rparr>"

definition set_prev :: "ptr \<Rightarrow> ptr \<Rightarrow> list_head \<Rightarrow> list_head" where
  "set_prev p v h = h\<lparr>prev_of := (prev_of h)(p := v)\<rparr>"

definition INIT_LIST_HEAD :: "ptr \<Rightarrow> list_head \<Rightarrow> list_head" where
  "INIT_LIST_HEAD p h = set_prev p p (set_next p p h)"

text \<open>\<^verbatim>\<open>__list_add(new, prev, next)\<close>: four writes, the one to \<^verbatim>\<open>prev->next\<close> last.\<close>

definition list_add_between :: "ptr \<Rightarrow> ptr \<Rightarrow> ptr \<Rightarrow> list_head \<Rightarrow> list_head" where
  "list_add_between new prev nxt h =
     (let h1 = set_prev nxt new h;
          h2 = set_next new nxt h1;
          h3 = set_prev new prev h2
      in set_next prev new h3)"

definition list_add :: "ptr \<Rightarrow> ptr \<Rightarrow> list_head \<Rightarrow> list_head" where
  "list_add new head h = list_add_between new head (next_of h head) h"

definition list_add_tail :: "ptr \<Rightarrow> ptr \<Rightarrow> list_head \<Rightarrow> list_head" where
  "list_add_tail new head h = list_add_between new (prev_of h head) head h"

text \<open>\<^verbatim>\<open>__list_del(prev, next)\<close> makes two nodes point to each other.\<close>

definition list_del_between :: "ptr \<Rightarrow> ptr \<Rightarrow> list_head \<Rightarrow> list_head" where
  "list_del_between prev nxt h = set_next prev nxt (set_prev nxt prev h)"

definition list_del :: "ptr \<Rightarrow> list_head \<Rightarrow> list_head" where
  "list_del entry h =
     (let h1 = list_del_between (prev_of h entry) (next_of h entry) h
      in set_prev entry NULL (set_next entry NULL h1))"

definition list_del_init :: "ptr \<Rightarrow> list_head \<Rightarrow> list_head" where
  "list_del_init entry h =
     INIT_LIST_HEAD entry (list_del_between (prev_of h entry) (next_of h entry) h)"

definition list_move :: "ptr \<Rightarrow> ptr \<Rightarrow> list_head \<Rightarrow> list_head" where
  "list_move entry head h =
     list_add entry head (list_del_between (prev_of h entry) (next_of h entry) h)"

definition list_move_tail :: "ptr \<Rightarrow> ptr \<Rightarrow> list_head \<Rightarrow> list_head" where
  "list_move_tail entry head h =
     list_add_tail entry head (list_del_between (prev_of h entry) (next_of h entry) h)"

definition list_empty :: "ptr \<Rightarrow> list_head \<Rightarrow> bool" where
  "list_empty head h \<longleftrightarrow> next_of h head = head"

definition list_splice_between :: "ptr \<Rightarrow> ptr \<Rightarrow> list_head \<Rightarrow> list_head" where
  "list_splice_between lst head h =
     (let first = next_of h lst; lastn = prev_of h lst; at = next_of h head;
          h1 = set_prev first head h;
          h2 = set_next head first h1;
          h3 = set_next lastn at h2
      in set_prev at lastn h3)"

definition list_splice :: "ptr \<Rightarrow> ptr \<Rightarrow> list_head \<Rightarrow> list_head" where
  "list_splice lst head h = (if list_empty lst h then h else list_splice_between lst head h)"

definition list_splice_init :: "ptr \<Rightarrow> ptr \<Rightarrow> list_head \<Rightarrow> list_head" where
  "list_splice_init lst head h =
     (if list_empty lst h then h
      else INIT_LIST_HEAD lst (list_splice_between lst head h))"

text \<open>
  The iteration macros. \<^verbatim>\<open>list_for_each\<close> and \<^verbatim>\<open>list_for_each_prev\<close> follow one link field until they
  are back at the head; on a broken list they need not stop, which is the result \<open>None\<close>.
  \<^verbatim>\<open>list_for_each_safe\<close> reads the successor before the body runs, so the body may unlink the
  current node; its body is a heap transformer here.
\<close>

partial_function (option) list_for_each_from :: "list_head \<Rightarrow> ptr \<Rightarrow> ptr \<Rightarrow> ptr list option" where
  "list_for_each_from h head pos =
     (if pos = head then Some []
      else Option.bind (list_for_each_from h head (next_of h pos)) (\<lambda>r. Some (pos # r)))"

declare list_for_each_from.simps [code]

definition list_for_each :: "list_head \<Rightarrow> ptr \<Rightarrow> ptr list option" where
  "list_for_each h head = list_for_each_from h head (next_of h head)"

partial_function (option) list_for_each_prev_from :: "list_head \<Rightarrow> ptr \<Rightarrow> ptr \<Rightarrow> ptr list option" where
  "list_for_each_prev_from h head pos =
     (if pos = head then Some []
      else Option.bind (list_for_each_prev_from h head (prev_of h pos)) (\<lambda>r. Some (pos # r)))"

declare list_for_each_prev_from.simps [code]

definition list_for_each_prev :: "list_head \<Rightarrow> ptr \<Rightarrow> ptr list option" where
  "list_for_each_prev h head = list_for_each_prev_from h head (prev_of h head)"

partial_function (option) list_for_each_safe_from ::
  "(ptr \<Rightarrow> list_head \<Rightarrow> list_head) \<Rightarrow> ptr \<Rightarrow> ptr \<Rightarrow> ptr \<Rightarrow> list_head \<Rightarrow> list_head option" where
  "list_for_each_safe_from body head pos n h =
     (if pos = head then Some h
      else let h' = body pos h in list_for_each_safe_from body head n (next_of h' n) h')"

declare list_for_each_safe_from.simps [code]

definition list_for_each_safe ::
  "(ptr \<Rightarrow> list_head \<Rightarrow> list_head) \<Rightarrow> ptr \<Rightarrow> list_head \<Rightarrow> list_head option" where
  "list_for_each_safe body head h =
     list_for_each_safe_from body head (next_of h head) (next_of h (next_of h head)) h"

section \<open>Linked segments\<close>

lemmas link_writes = set_next_def set_prev_def

lemma next_of_set_next [simp, heap_simps]:
  "next_of (set_next p v h) q = (if q = p then v else next_of h q)"
  by (simp add: set_next_def)

lemma prev_of_set_prev [simp, heap_simps]:
  "prev_of (set_prev p v h) q = (if q = p then v else prev_of h q)"
  by (simp add: set_prev_def)

lemma next_of_set_prev [simp, heap_simps]: "next_of (set_prev p v h) = next_of h"
  by (simp add: set_prev_def)

lemma prev_of_set_next [simp, heap_simps]: "prev_of (set_next p v h) = prev_of h"
  by (simp add: set_next_def)

text \<open>\<open>seg h p xs q\<close>: following \<^verbatim>\<open>next\<close> from \<open>p\<close> visits \<open>xs\<close> and arrives at \<open>q\<close>, and \<^verbatim>\<open>prev\<close> leads back.\<close>

fun seg :: "list_head \<Rightarrow> ptr \<Rightarrow> ptr list \<Rightarrow> ptr \<Rightarrow> bool" where
  "seg h p [] q \<longleftrightarrow> next_of h p = q \<and> prev_of h q = p"
| "seg h p (x # xs) q \<longleftrightarrow> next_of h p = x \<and> prev_of h x = p \<and> seg h x xs q"

definition dll :: "list_head \<Rightarrow> ptr \<Rightarrow> ptr list \<Rightarrow> bool" where
  "dll h head xs \<longleftrightarrow> seg h head xs head \<and> distinct (head # xs) \<and> NULL \<notin> set (head # xs)"

lemma seg_append [simp]: "seg h p (xs @ y # ys) q \<longleftrightarrow> seg h p xs y \<and> seg h y ys q"
  by (induction xs arbitrary: p) auto

lemma seg_ends: "seg h p xs q \<Longrightarrow> next_of h p = hd (xs @ [q]) \<and> prev_of h q = last (p # xs)"
  by (induction xs arbitrary: p) auto

text \<open>A segment depends on the forward links of \<open>p # xs\<close> and the backward links of \<open>xs @ [q]\<close> only.\<close>

lemma seg_frame:
  assumes "\<forall>a \<in> set (p # xs). next_of h' a = next_of h a"
    and "\<forall>a \<in> set (xs @ [q]). prev_of h' a = prev_of h a"
  shows "seg h' p xs q = seg h p xs q"
  using assms by (induction xs arbitrary: p) auto

lemma seg_split:
  assumes "seg h p (xs @ ys) q"
  shows "seg h p xs (hd (ys @ [q])) \<and> seg h (last (p # xs)) ys q"
  using assms
proof (induction xs arbitrary: p)
  case Nil
  then show ?case by (cases ys) auto
next
  case (Cons x xs)
  then show ?case by auto
qed

text \<open>Redirecting the end of a segment, and its start.\<close>

lemma seg_retarget:
  assumes "seg h p xs q"
    and "\<forall>a \<in> set (butlast (p # xs)). next_of h' a = next_of h a"
    and "\<forall>a \<in> set xs. prev_of h' a = prev_of h a"
    and "next_of h' (last (p # xs)) = r" and "prev_of h' r = last (p # xs)"
  shows "seg h' p xs r"
  using assms
proof (induction xs arbitrary: p)
  case (Cons x xs)
  from Cons.prems have "seg h' x xs r" by (intro Cons.IH) auto
  with Cons.prems show ?case by auto
qed auto

lemma seg_restart:
  assumes "seg h p ys q"
    and "\<forall>a \<in> set ys. next_of h' a = next_of h a"
    and "\<forall>a \<in> set (tl (ys @ [q])). prev_of h' a = prev_of h a"
    and "next_of h' r = hd (ys @ [q])" and "prev_of h' (hd (ys @ [q])) = r"
  shows "seg h' r ys q"
proof (cases ys)
  case (Cons y zs)
  with assms have "seg h' y zs q = seg h y zs q" by (intro seg_frame) auto
  with Cons assms show ?thesis by auto
qed (use assms in auto)

lemma seg_join:
  assumes "seg h p xs r" and "seg h s ys q"
    and "\<forall>a \<in> set (butlast (p # xs)) \<union> set ys. next_of h' a = next_of h a"
    and "\<forall>a \<in> set xs \<union> set (tl (ys @ [q])). prev_of h' a = prev_of h a"
    and "next_of h' (last (p # xs)) = hd (ys @ [q])"
    and "prev_of h' (hd (ys @ [q])) = last (p # xs)"
  shows "seg h' p (xs @ ys) q"
proof (cases ys)
  case Nil
  with assms show ?thesis by (auto intro: seg_retarget)
next
  case (Cons y zs)
  have "seg h' p xs (hd (ys @ [q]))"
    by (rule seg_retarget [OF assms(1)]) (use assms(3-6) in blast)+
  moreover from Cons assms have "seg h' y zs q = seg h y zs q" by (intro seg_frame) auto
  ultimately show ?thesis using Cons assms(2) by auto
qed

lemma butlast_disjoint_last: "distinct xs \<Longrightarrow> xs \<noteq> [] \<Longrightarrow> last xs \<notin> set (butlast xs)"
  by (cases xs rule: rev_cases) auto

lemma hd_notin_tl: "distinct xs \<Longrightarrow> xs \<noteq> [] \<Longrightarrow> hd xs \<notin> set (tl xs)"
  by (cases xs) auto

section \<open>The operations refine the operations on sequences\<close>

lemma dll_segs:
  assumes "dll h head (xs @ ys)"
  shows "seg h head xs (hd (ys @ [head]))" and "seg h (last (head # xs)) ys head"
  using assms seg_split [of h head xs ys head] by (auto simp: dll_def)

lemma dll_ends: "dll h head xs \<Longrightarrow> next_of h head = hd (xs @ [head]) \<and> prev_of h head = last (head # xs)"
  by (auto simp: dll_def dest: seg_ends)

lemma dll_INIT_LIST_HEAD: "head \<noteq> NULL \<Longrightarrow> dll (INIT_LIST_HEAD head h) head []"
  by (simp add: dll_def INIT_LIST_HEAD_def)

text \<open>Around a cut \<open>xs @ ys\<close> of the list, the two boundary nodes occur nowhere else on their side.\<close>

lemma cut_facts:
  assumes "distinct (head # xs @ ys)"
  shows "last (head # xs) \<notin> set (butlast (head # xs))" and "hd (ys @ [head]) \<notin> set (tl (ys @ [head]))"
    and "last (head # xs) \<notin> set ys" and "hd (ys @ [head]) \<notin> set xs"
    and "set (butlast (head # xs)) \<subseteq> set (head # xs)" and "set (tl (ys @ [head])) \<subseteq> set (head # ys)"
    and "last (head # xs) \<in> set (head # xs)" and "hd (ys @ [head]) \<in> set (head # ys)"
proof -
  show "last (head # xs) \<notin> set (butlast (head # xs))"
    by (rule butlast_disjoint_last) (use assms in auto)
  show "hd (ys @ [head]) \<notin> set (tl (ys @ [head]))"
    by (rule hd_notin_tl) (use assms in auto)
  show "last (head # xs) \<notin> set ys" using assms by (cases xs rule: rev_cases) auto
  show "hd (ys @ [head]) \<notin> set xs" using assms by (cases ys) auto
  show "set (butlast (head # xs)) \<subseteq> set (head # xs)" by (auto dest: in_set_butlastD split: if_splits)
  show "set (tl (ys @ [head])) \<subseteq> set (head # ys)" by (cases ys) auto
  show "last (head # xs) \<in> set (head # xs)" by (rule last_in_set) simp
  show "hd (ys @ [head]) \<in> set (head # ys)" by (cases ys) auto
qed

lemma dll_add_between:
  assumes l: "dll h head (xs @ ys)" and n: "new \<notin> set (head # xs @ ys)" "new \<noteq> NULL"
  shows "dll (list_add_between new (last (head # xs)) (hd (ys @ [head])) h) head (xs @ new # ys)"
proof -
  define p q where "p = last (head # xs)" and "q = hd (ys @ [head])"
  have "distinct (head # xs @ ys)" using l by (simp add: dll_def)
  note c = cut_facts [OF this, folded p_def q_def]
  let ?h' = "list_add_between new p q h"
  have n': "new \<noteq> p" "new \<noteq> q" "new \<notin> set (butlast (head # xs))" "new \<notin> set (tl (ys @ [head]))"
    using n c by auto
  have "seg ?h' head xs new"
    by (rule seg_retarget [OF dll_segs(1) [OF l]], unfold p_def [symmetric])
       (use n n' c in \<open>auto simp: list_add_between_def Let_def simp del: butlast.simps\<close>)
  moreover have "seg ?h' new ys head"
    by (rule seg_restart [OF dll_segs(2) [OF l]], unfold q_def [symmetric])
       (use n n' c in \<open>auto simp: list_add_between_def Let_def\<close>)
  ultimately show ?thesis using l n by (auto simp: dll_def p_def q_def)
qed

theorem dll_list_add:
  assumes "dll h head xs" and "new \<notin> set (head # xs)" and "new \<noteq> NULL"
  shows "dll (list_add new head h) head (new # xs)"
  using dll_add_between [of h head "[]" xs new] assms dll_ends [OF assms(1)]
  by (simp add: list_add_def)

theorem dll_list_add_tail:
  assumes "dll h head xs" and "new \<notin> set (head # xs)" and "new \<noteq> NULL"
  shows "dll (list_add_tail new head h) head (xs @ [new])"
  using dll_add_between [of h head xs "[]" new] assms dll_ends [OF assms(1)]
  by (simp add: list_add_tail_def)

text \<open>The neighbours of an entry, read from its own links.\<close>

lemma dll_neighbours:
  assumes "dll h head (xs @ y # ys)"
  shows "prev_of h y = last (head # xs)" and "next_of h y = hd (ys @ [head])"
  using dll_segs(1) [OF assms] dll_segs(2) [of h head "xs @ [y]" ys] assms
  by (auto dest!: seg_ends)

lemma dll_del_between:
  assumes l: "dll h head (xs @ y # ys)"
  shows "dll (list_del_between (last (head # xs)) (hd (ys @ [head])) h) head (xs @ ys)"
proof -
  define p q where "p = last (head # xs)" and "q = hd (ys @ [head])"
  have "distinct (head # xs @ ys)" using l by (simp add: dll_def)
  note c = cut_facts [OF this, folded p_def q_def]
  have "seg h (last (head # (xs @ [y]))) ys head" using dll_segs(2) [of h head "xs @ [y]" ys] l by simp
  then have "seg (list_del_between p q h) head (xs @ ys) head"
    by (rule seg_join [OF dll_segs(1) [OF l]], unfold p_def [symmetric] q_def [symmetric])
       (use c in \<open>auto simp: list_del_between_def simp del: butlast.simps\<close>)
  then show ?thesis using l by (auto simp: dll_def p_def q_def)
qed

text \<open>Writes to a node outside the list leave the list alone.\<close>

lemma dll_frame:
  assumes "\<forall>a \<in> set (head # xs). next_of h' a = next_of h a \<and> prev_of h' a = prev_of h a"
  shows "dll h' head xs = dll h head xs"
  using assms seg_frame [of head xs h' h head] by (auto simp: dll_def)

theorem dll_list_del:
  assumes l: "dll h head (xs @ y # ys)"
  shows "dll (list_del y h) head (xs @ ys)"
proof -
  have y: "y \<notin> set (head # xs @ ys)" using l by (auto simp: dll_def)
  have "dll (list_del y h) head (xs @ ys) =
      dll (list_del_between (last (head # xs)) (hd (ys @ [head])) h) head (xs @ ys)"
    unfolding list_del_def Let_def dll_neighbours [OF l] using y by (intro dll_frame) auto
  with dll_del_between [OF l] show ?thesis by simp
qed

theorem dll_list_del_init:
  assumes l: "dll h head (xs @ y # ys)"
  shows "dll (list_del_init y h) head (xs @ ys)" and "dll (list_del_init y h) y []"
proof -
  have y: "y \<notin> set (head # xs @ ys)" using l by (auto simp: dll_def)
  have "dll (list_del_init y h) head (xs @ ys) =
      dll (list_del_between (last (head # xs)) (hd (ys @ [head])) h) head (xs @ ys)"
    unfolding list_del_init_def INIT_LIST_HEAD_def dll_neighbours [OF l] using y
    by (intro dll_frame) auto
  with dll_del_between [OF l] show "dll (list_del_init y h) head (xs @ ys)" by simp
  show "dll (list_del_init y h) y []"
    unfolding list_del_init_def by (rule dll_INIT_LIST_HEAD) (use l in \<open>auto simp: dll_def\<close>)
qed

theorem dll_list_move:
  assumes l: "dll h head (xs @ y # ys)"
  shows "dll (list_move y head h) head (y # xs @ ys)"
proof -
  have "y \<notin> set (head # xs @ ys)" "y \<noteq> NULL" using l by (auto simp: dll_def)
  then show ?thesis unfolding list_move_def dll_neighbours [OF l]
    by (intro dll_list_add dll_del_between [OF l]) auto
qed

theorem dll_list_move_tail:
  assumes l: "dll h head (xs @ y # ys)"
  shows "dll (list_move_tail y head h) head (xs @ ys @ [y])"
proof -
  have "y \<notin> set (head # xs @ ys)" "y \<noteq> NULL" using l by (auto simp: dll_def)
  then show ?thesis unfolding list_move_tail_def dll_neighbours [OF l]
    using dll_list_add_tail [OF dll_del_between [OF l]] by auto
qed

theorem dll_list_empty: "dll h head xs \<Longrightarrow> list_empty head h \<longleftrightarrow> xs = []"
  by (cases xs) (auto simp: dll_def list_empty_def)

text \<open>\<^verbatim>\<open>list_splice(list, head)\<close>: the nodes of one list move, in order, to the front of another.\<close>

theorem dll_list_splice_between:
  assumes l: "dll h lst xs" and hd: "dll h head ys" and ne: "xs \<noteq> []"
    and dis: "set (lst # xs) \<inter> set (head # ys) = {}"
  shows "dll (list_splice_between lst head h) head (xs @ ys)"
proof -
  obtain x xs' where xs: "xs = x # xs'" using ne by (cases xs) auto
  have nx: "next_of h lst = x" "prev_of h lst = last xs" "next_of h head = hd (ys @ [head])"
    using dll_ends [OF l] dll_ends [OF hd] xs by auto
  let ?at = "hd (ys @ [head])"
  let ?h2 = "set_next head x (set_prev x head h)"
  let ?h' = "set_prev ?at (last xs) (set_next (last xs) ?at ?h2)"
  have eq: "list_splice_between lst head h = ?h'"
    by (simp add: list_splice_between_def Let_def nx)
  have dd: "distinct (lst # xs)" "distinct (head # ys)" using l hd by (auto simp: dll_def)
  have at: "?at \<in> set (head # ys)" by (cases ys) auto
  have lx: "last xs \<in> set xs" using ne by (rule last_in_set)
  have "seg h lst xs lst" using l by (simp add: dll_def)
  then have "seg ?h2 head xs lst"
    by (rule seg_restart) (use xs dd dis in auto)
  then have sx: "seg ?h' head xs ?at"
    by (rule seg_retarget)
       (use ne lx at dis butlast_disjoint_last [of xs] dd in \<open>auto dest: in_set_butlastD\<close>)
  have "seg ?h' head (xs @ ys) head"
  proof (cases ys)
    case Nil
    with sx show ?thesis by simp
  next
    case (Cons y zs)
    have "seg h y zs head" using hd Cons by (simp add: dll_def)
    moreover have "seg ?h' y zs head = seg h y zs head"
      by (rule seg_frame) (use Cons xs lx dd dis in auto)
    ultimately show ?thesis using sx Cons by simp
  qed
  with eq l hd dis dd show ?thesis by (auto simp: dll_def)
qed

theorem dll_list_splice:
  assumes "dll h lst xs" and "dll h head ys" and "set (lst # xs) \<inter> set (head # ys) = {}"
  shows "dll (list_splice lst head h) head (xs @ ys)"
  using assms dll_list_splice_between [OF assms(1,2) _ assms(3)] dll_list_empty [OF assms(1)]
  by (cases "xs = []") (auto simp: list_splice_def)

theorem dll_list_splice_init:
  assumes "dll h lst xs" and "dll h head ys" and "set (lst # xs) \<inter> set (head # ys) = {}"
  shows "dll (list_splice_init lst head h) head (xs @ ys)" and "dll (list_splice_init lst head h) lst []"
proof -
  have e: "list_empty lst h \<longleftrightarrow> xs = []" by (rule dll_list_empty [OF assms(1)])
  have "xs \<noteq> [] \<Longrightarrow> dll (INIT_LIST_HEAD lst (list_splice_between lst head h)) head (xs @ ys)"
    using dll_list_splice_between [OF assms(1,2) _ assms(3)] assms
      dll_frame [of head "xs @ ys" "INIT_LIST_HEAD lst (list_splice_between lst head h)"
        "list_splice_between lst head h"]
    by (auto simp: INIT_LIST_HEAD_def dll_def)
  with assms(2) e show "dll (list_splice_init lst head h) head (xs @ ys)"
    by (cases "xs = []") (auto simp: list_splice_init_def)
  from assms(1) e show "dll (list_splice_init lst head h) lst []"
    by (auto simp: list_splice_init_def dll_def INIT_LIST_HEAD_def)
qed

section \<open>Iteration\<close>

lemma list_for_each_from_seg:
  "seg h p xs head \<Longrightarrow> head \<notin> set xs \<Longrightarrow> list_for_each_from h head (next_of h p) = Some xs"
proof (induction xs arbitrary: p)
  case Nil
  then show ?case by (subst list_for_each_from.simps) simp
next
  case (Cons x xs)
  then show ?case by (subst list_for_each_from.simps) auto
qed

theorem list_for_each_dll: "dll h head xs \<Longrightarrow> list_for_each h head = Some xs"
  by (simp add: list_for_each_def dll_def list_for_each_from_seg)

lemma list_for_each_prev_from_seg:
  "seg h head xs q \<Longrightarrow> head \<notin> set xs \<Longrightarrow> list_for_each_prev_from h head (prev_of h q) = Some (rev xs)"
proof (induction xs arbitrary: q rule: rev_induct)
  case Nil
  then show ?case by (subst list_for_each_prev_from.simps) simp
next
  case (snoc x xs)
  then show ?case by (subst list_for_each_prev_from.simps) auto
qed

theorem list_for_each_prev_dll: "dll h head xs \<Longrightarrow> list_for_each_prev h head = Some (rev xs)"
  by (simp add: list_for_each_prev_def dll_def list_for_each_prev_from_seg)

text \<open>Unlinking the nodes that satisfy \<open>P\<close> while iterating safely leaves exactly the others.\<close>

lemma list_for_each_safe_from_del:
  assumes "dll h head (zs @ ys)"
  shows "\<exists>h'. list_for_each_safe_from (\<lambda>p h. if P p then list_del p h else h) head
           (hd (ys @ [head])) (next_of h (hd (ys @ [head]))) h = Some h' \<and>
         dll h' head (zs @ filter (\<lambda>p. \<not> P p) ys)"
  using assms
proof (induction ys arbitrary: zs h)
  case Nil
  then show ?case by (subst list_for_each_safe_from.simps) simp
next
  case (Cons y ys)
  let ?body = "\<lambda>p h. if P p then list_del p h else h"
  have y: "y \<noteq> head" "next_of h y = hd (ys @ [head])"
    using Cons.prems dll_neighbours(2) [OF Cons.prems] by (auto simp: dll_def)
  have "P y \<Longrightarrow> dll (?body y h) head (zs @ ys)" using dll_list_del [OF Cons.prems] by simp
  moreover have "\<not> P y \<Longrightarrow> dll (?body y h) head ((zs @ [y]) @ ys)" using Cons.prems by simp
  ultimately have "\<exists>h'. list_for_each_safe_from ?body head (hd (ys @ [head]))
      (next_of (?body y h) (hd (ys @ [head]))) (?body y h) = Some h' \<and>
      dll h' head (zs @ filter (\<lambda>p. \<not> P p) (y # ys))"
    using Cons.IH [of "?body y h" zs] Cons.IH [of "?body y h" "zs @ [y]"] by (cases "P y") auto
  then show ?case by (subst list_for_each_safe_from.simps) (auto simp: y Let_def)
qed

theorem list_for_each_safe_del:
  assumes "dll h head xs"
  shows "\<exists>h'. list_for_each_safe (\<lambda>p h. if P p then list_del p h else h) head h = Some h' \<and>
         dll h' head (filter (\<lambda>p. \<not> P p) xs)"
  using list_for_each_safe_from_del [of h head "[]" xs P] assms dll_ends [OF assms]
  by (simp add: list_for_each_safe_def)

section \<open>The contract of the list, as an interface\<close>

text \<open>
  What the components rely on: a list hanging from a head is a sequence of distinct valid nodes,
  and each operation changes that sequence as its name says.
\<close>

locale intrusive_list =
  fixes lst :: "'s \<Rightarrow> 'p \<Rightarrow> 'p list \<Rightarrow> bool"
    and valid :: "'p \<Rightarrow> bool"
    and init :: "'p \<Rightarrow> 's \<Rightarrow> 's"
    and add :: "'p \<Rightarrow> 'p \<Rightarrow> 's \<Rightarrow> 's"
    and add_tail :: "'p \<Rightarrow> 'p \<Rightarrow> 's \<Rightarrow> 's"
    and del :: "'p \<Rightarrow> 's \<Rightarrow> 's"
  assumes lst_nodes: "lst s hp xs \<Longrightarrow> distinct (hp # xs) \<and> (\<forall>p \<in> set (hp # xs). valid p)"
    and lst_init: "valid hp \<Longrightarrow> lst (init hp s) hp []"
    and lst_add: "lst s hp xs \<Longrightarrow> p \<notin> set (hp # xs) \<Longrightarrow> valid p \<Longrightarrow> lst (add p hp s) hp (p # xs)"
    and lst_add_tail:
      "lst s hp xs \<Longrightarrow> p \<notin> set (hp # xs) \<Longrightarrow> valid p \<Longrightarrow> lst (add_tail p hp s) hp (xs @ [p])"
    and lst_del: "lst s hp (xs @ p # ys) \<Longrightarrow> lst (del p s) hp (xs @ ys)"
begin

lemma enqueue_all:
  assumes "lst s hp xs" and "distinct (hp # xs @ ps)" and "\<forall>p \<in> set ps. valid p"
  shows "lst (fold (\<lambda>p. add_tail p hp) ps s) hp (xs @ ps)"
  using assms
proof (induction ps arbitrary: s xs)
  case (Cons p ps)
  from Cons.prems have "lst (add_tail p hp s) hp (xs @ [p])" by (intro lst_add_tail) auto
  with Cons.prems have "lst (fold (\<lambda>p. add_tail p hp) ps (add_tail p hp s)) hp ((xs @ [p]) @ ps)"
    by (intro Cons.IH) auto
  then show ?case by simp
qed simp

lemma push_all:
  assumes "lst s hp xs" and "distinct (hp # xs @ ps)" and "\<forall>p \<in> set ps. valid p"
  shows "lst (fold (\<lambda>p. add p hp) ps s) hp (rev ps @ xs)"
  using assms
proof (induction ps arbitrary: s xs)
  case (Cons p ps)
  from Cons.prems have "lst (add p hp s) hp (p # xs)" by (intro lst_add) auto
  with Cons.prems have "lst (fold (\<lambda>p. add p hp) ps (add p hp s)) hp (rev ps @ (p # xs))"
    by (intro Cons.IH) auto
  then show ?case by simp
qed simp

lemma del_member: "lst s hp xs \<Longrightarrow> p \<in> set xs \<Longrightarrow> lst (del p s) hp (remove1 p xs)"
proof -
  assume l: "lst s hp xs" and p: "p \<in> set xs"
  then obtain us vs where uv: "xs = us @ p # vs" by (meson split_list)
  then have "p \<notin> set us" using lst_nodes [OF l] by auto
  then show ?thesis using lst_del [of s hp us p vs] l uv by (simp add: remove1_append)
qed

lemma del_add: "lst s hp xs \<Longrightarrow> p \<notin> set (hp # xs) \<Longrightarrow> valid p \<Longrightarrow> lst (del p (add p hp s)) hp xs"
  using lst_del [of "add p hp s" hp "[]" p xs] lst_add [of s hp xs p] by simp

lemma drain: "lst s hp xs \<Longrightarrow> lst (fold del xs s) hp []"
proof (induction xs arbitrary: s)
  case (Cons x xs)
  then have "lst (del x s) hp xs" using lst_del [of s hp "[]" x xs] by simp
  then show ?case by (simp add: Cons.IH)
qed simp

end

interpretation dl: intrusive_list dll "\<lambda>p. p \<noteq> NULL" INIT_LIST_HEAD list_add list_add_tail list_del
proof unfold_locales
  show "\<And>s hp xs. dll s hp xs \<Longrightarrow> distinct (hp # xs) \<and> (\<forall>p \<in> set (hp # xs). p \<noteq> NULL)"
    by (metis dll_def)
qed (fact dll_INIT_LIST_HEAD dll_list_add dll_list_add_tail dll_list_del)+

section \<open>Properties\<close>

text \<open>
  C26 The list as the components use it: the nodes appended to a fresh head are visited in the order
  of the calls, backwards in reverse order, and a list is empty exactly when nothing was appended;
  iteration returns.
\<close>

theorem list_append_iterate:
  assumes "distinct (head # ps)" and "\<forall>p \<in> set (head # ps). p \<noteq> NULL"
  shows "let h' = fold (\<lambda>p. list_add_tail p head) ps (INIT_LIST_HEAD head h) in
    list_for_each h' head = Some ps \<and> list_for_each_prev h' head = Some (rev ps) \<and>
    (list_empty head h' \<longleftrightarrow> ps = [])"
proof -
  have "dll (INIT_LIST_HEAD head h) head []" using assms(2) by (intro dll_INIT_LIST_HEAD) simp
  from dl.enqueue_all [OF this, of ps] assms
  have "dll (fold (\<lambda>p. list_add_tail p head) ps (INIT_LIST_HEAD head h)) head ps" by simp
  then show ?thesis by (simp add: Let_def list_for_each_dll list_for_each_prev_dll dll_list_empty)
qed

theorem list_append_iterate_witness:
  "list_for_each (fold (\<lambda>p. list_add_tail p 1) [5, 3]
     (INIT_LIST_HEAD 1 \<lparr>next_of = \<lambda>_. 0, prev_of = \<lambda>_. 0\<rparr>)) 1 = Some [5, 3]"
  using list_append_iterate [of 1 "[5, 3]" "\<lparr>next_of = \<lambda>_. 0, prev_of = \<lambda>_. 0\<rparr>"] by (simp add: Let_def)

text \<open>
  C27 Unlinking while iterating with \<^verbatim>\<open>list_for_each_safe\<close> leaves the nodes that were not selected, in their
  order, and splicing moves all nodes of one list in front of another, leaving a usable empty head.
\<close>

theorem list_safe_delete_splice:
  assumes "dll h head xs" and "dll h lst ys" and "set (lst # ys) \<inter> set (head # xs) = {}"
  shows "(\<exists>h'. list_for_each_safe (\<lambda>p h. if P p then list_del p h else h) head h = Some h' \<and>
            list_for_each h' head = Some (filter (\<lambda>p. \<not> P p) xs)) \<and>
         list_for_each (list_splice_init lst head h) head = Some (ys @ xs) \<and>
         list_for_each (list_splice_init lst head h) lst = Some []"
  using list_for_each_safe_del [OF assms(1), of P] dll_list_splice_init [OF assms(2,1,3)]
  by (auto simp: list_for_each_dll)

theorem list_safe_delete_splice_witness:
  "list_for_each (list_splice_init 2 1 (list_add_tail 5 2 (list_add_tail 3 1
     (INIT_LIST_HEAD 2 (INIT_LIST_HEAD 1 \<lparr>next_of = \<lambda>_. 0, prev_of = \<lambda>_. 0\<rparr>))))) 1 = Some [5, 3]"
proof -
  let ?h = "list_add_tail 5 2 (list_add_tail 3 1
     (INIT_LIST_HEAD 2 (INIT_LIST_HEAD 1 \<lparr>next_of = \<lambda>_. 0, prev_of = \<lambda>_. 0\<rparr>)))"
  have "dll ?h 1 [3]" "dll ?h 2 [5]"
    by (simp_all add: dll_def list_add_tail_def list_add_between_def INIT_LIST_HEAD_def set_next_def set_prev_def)
  then show ?thesis using list_safe_delete_splice [of ?h 1 "[3]" 2 "[5]" "\<lambda>_. False"] by simp
qed

end
