(* ===== verification/C_Format.thy ===== *)
theory C_Format
  imports Radare_Prelude
begin

text \<open>
  The pieces of the C standard library the sources use to print and read numbers: the \<^verbatim>\<open>%x\<close>,
  \<^verbatim>\<open>%08llx\<close>, \<^verbatim>\<open>%02x\<close> and \<^verbatim>\<open>%d\<close> conversions of \<^verbatim>\<open>printf\<close>, the \<^verbatim>\<open>%llx\<close> and \<^verbatim>\<open>%lld\<close> conversions of
  \<^verbatim>\<open>sscanf\<close> on their digit sequences, and \<^verbatim>\<open>strchr\<close>, \<^verbatim>\<open>strstr\<close> and \<^verbatim>\<open>strcmp\<close> on C strings. A C string is
  the list of its characters before the terminating NUL.
\<close>

section \<open>Digits\<close>

definition digit_char :: "nat \<Rightarrow> char" where
  "digit_char d = (if d < 10 then char_of (48 + d) else char_of (87 + d))"

definition char_digit :: "char \<Rightarrow> nat option" where
  "char_digit c =
     (let n = of_char c :: nat in
      if 48 \<le> n \<and> n \<le> 57 then Some (n - 48)
      else if 97 \<le> n \<and> n \<le> 102 then Some (n - 87)
      else if 65 \<le> n \<and> n \<le> 70 then Some (n - 55)
      else None)"

lemma of_char_digit_char: "d < 16 \<Longrightarrow> (of_char (digit_char d) :: nat) = (if d < 10 then 48 + d else 87 + d)"
  by (simp add: digit_char_def)

lemma char_digit_digit_char: "d < 16 \<Longrightarrow> char_digit (digit_char d) = Some d"
  by (simp add: char_digit_def of_char_digit_char Let_def)

text \<open>The digits of a number in a base, most significant first; zero has one digit.\<close>

fun digits_base :: "nat \<Rightarrow> nat \<Rightarrow> string" where
  "digits_base b n =
     (if b < 2 \<or> n < b then [digit_char n] else digits_base b (n div b) @ [digit_char (n mod b)])"

declare digits_base.simps [simp del]

text \<open>\<^verbatim>\<open>sscanf\<close> and \<^verbatim>\<open>strtoull\<close> read the longest prefix of digits of the base.\<close>

fun scan_digits :: "nat \<Rightarrow> nat \<Rightarrow> string \<Rightarrow> nat" where
  "scan_digits b acc [] = acc"
| "scan_digits b acc (c # cs) =
     (case char_digit c of
        Some d \<Rightarrow> if d < b then scan_digits b (acc * b + d) cs else acc
      | None \<Rightarrow> acc)"

lemma digits_base_all: "2 \<le> b \<Longrightarrow> b \<le> 16 \<Longrightarrow> \<forall>c \<in> set (digits_base b n). \<exists>d < b. c = digit_char d"
proof (induction b n rule: digits_base.induct)
  case (1 b n)
  show ?case
  proof (cases "n < b")
    case True
    then show ?thesis by (subst digits_base.simps) auto
  next
    case False
    with 1 have "\<forall>c \<in> set (digits_base b (n div b)). \<exists>d < b. c = digit_char d" by simp
    moreover have "\<exists>d < b. digit_char (n mod b) = digit_char d"
      using 1 by (intro exI [of _ "n mod b"]) simp
    ultimately show ?thesis using False 1 by (subst digits_base.simps) auto
  qed
qed

lemma scan_digits_append:
  assumes "\<forall>c \<in> set cs. \<exists>d < b. c = digit_char d" and "b \<le> 16"
  shows "scan_digits b acc (cs @ ds) = scan_digits b (scan_digits b acc cs) ds"
  using assms
proof (induction cs arbitrary: acc)
  case (Cons c cs)
  then obtain d where "d < b" "c = digit_char d" by auto
  with Cons show ?case by (simp add: char_digit_digit_char)
qed simp

lemma scan_digits_digits:
  assumes "2 \<le> b" and "b \<le> 16"
  shows "scan_digits b 0 (digits_base b n) = n"
  using assms
proof (induction b n rule: digits_base.induct)
  case (1 b n)
  show ?case
  proof (cases "n < b")
    case True
    with 1 show ?thesis by (subst digits_base.simps) (simp add: char_digit_digit_char)
  next
    case False
    with 1 have IH: "scan_digits b 0 (digits_base b (n div b)) = n div b" by simp
    have "n mod b < b" "n mod b < 16" using 1 by (auto intro: less_le_trans [of _ b 16])
    with False 1 IH show ?thesis
      by (subst digits_base.simps)
         (simp add: scan_digits_append [OF digits_base_all] char_digit_digit_char)
  qed
qed

lemma digits_length: "2 \<le> b \<Longrightarrow> n < b ^ k \<Longrightarrow> 0 < k \<Longrightarrow> length (digits_base b n) \<le> k"
proof (induction k arbitrary: n)
  case (Suc k)
  show ?case
  proof (cases "n < b")
    case True
    then show ?thesis by (subst digits_base.simps) simp
  next
    case False
    then have k: "0 < k" using Suc.prems by (cases k) auto
    have "n div b < b ^ k" using Suc.prems by (simp add: less_mult_imp_div_less mult.commute)
    from Suc.IH [OF Suc.prems(1) this k] False Suc.prems(1) show ?thesis by (subst digits_base.simps) simp
  qed
qed simp

section \<open>The conversions\<close>

definition fmt_x :: "nat \<Rightarrow> string" where
  "fmt_x n = digits_base 16 n"

definition pad0 :: "nat \<Rightarrow> string \<Rightarrow> string" where
  "pad0 w s = replicate (w - length s) CHR ''0'' @ s"

definition fmt_08llx :: "ut64 \<Rightarrow> string" where
  "fmt_08llx v = pad0 8 (fmt_x (unat v))"

definition upper_hex :: "char \<Rightarrow> char" where
  "upper_hex c = (if (of_char c :: nat) \<ge> 97 then char_of ((of_char c :: nat) - 32) else c)"

definition fmt_llX :: "ut64 \<Rightarrow> string" where
  "fmt_llX v = map upper_hex (fmt_x (unat v))"

definition fmt_X :: "nat \<Rightarrow> nat \<Rightarrow> string" where
  "fmt_X w n = pad0 w (map upper_hex (fmt_x n))"

definition fmt_02x :: "u8 \<Rightarrow> string" where
  "fmt_02x v = pad0 2 (fmt_x (unat v))"

definition fmt_d :: "int \<Rightarrow> string" where
  "fmt_d i = (if i < 0 then CHR ''-'' # digits_base 10 (nat (- i)) else digits_base 10 (nat i))"

definition fmt_02d :: "int \<Rightarrow> string" where
  "fmt_02d i = pad0 2 (fmt_d i)"

text \<open>\<^verbatim>\<open>%s\<close>, which shows a null pointer as \<^verbatim>\<open>(null)\<close>.\<close>

definition fmt_s :: "string option \<Rightarrow> string" where
  "fmt_s s = (case s of None \<Rightarrow> ''(null)'' | Some x \<Rightarrow> x)"

definition hex_0x :: "ut64 \<Rightarrow> string" where
  "hex_0x v = ''0x'' @ fmt_08llx v"

text \<open>\<^verbatim>\<open>sscanf(s, "0x%llx", &v)\<close> on a string that starts with \<^verbatim>\<open>0x\<close>.\<close>

definition scan_0x :: "string \<Rightarrow> ut64" where
  "scan_0x s = word_of_nat (scan_digits 16 0 (drop 2 s))"

text \<open>The conversion \<^verbatim>\<open>%x\<close> of \<^verbatim>\<open>sscanf\<close>; \<open>None\<close> is a matching failure.\<close>

definition is_space :: "char \<Rightarrow> bool" where
  "is_space c = (let n = of_char c :: nat in n = 32 \<or> 9 \<le> n \<and> n \<le> 13)"

definition is_hexdigit :: "char \<Rightarrow> bool" where
  "is_hexdigit c = (case char_digit c of Some d \<Rightarrow> d < 16 | None \<Rightarrow> False)"

definition scan_x :: "string \<Rightarrow> int option" where
  "scan_x s0 =
     (let s = dropWhile is_space s0;
          neg = (s \<noteq> [] \<and> hd s = CHR ''-'');
          s1 = (if s \<noteq> [] \<and> (hd s = CHR ''-'' \<or> hd s = CHR ''+'') then tl s else s);
          s2 = (if take 2 s1 = ''0x'' \<or> take 2 s1 = ''0X'' then drop 2 s1 else s1)
      in if s2 \<noteq> [] \<and> is_hexdigit (hd s2)
         then Some ((if neg then - 1 else 1) * int (scan_digits 16 0 s2)) else None)"

definition scan_or :: "int \<Rightarrow> string \<Rightarrow> int" where
  "scan_or old s = (case scan_x s of Some v \<Rightarrow> v | None \<Rightarrow> old)"

text \<open>\<^verbatim>\<open>atoi\<close>, before the conversion to the type it is assigned to.\<close>

definition atoi :: "string \<Rightarrow> int" where
  "atoi s =
     (let t = dropWhile (\<lambda>c. c \<in> set [CHR '' '', CHR 0x09, CHR 0x0A, CHR 0x0B, CHR 0x0C, CHR 0x0D]) s in
      case t of
        [] \<Rightarrow> 0
      | c # cs \<Rightarrow> if c = CHR ''-'' then - int (scan_digits 10 0 cs)
                  else if c = CHR ''+'' then int (scan_digits 10 0 cs)
                  else int (scan_digits 10 0 t))"

lemma scan_digits_pad0: "1 < b \<Longrightarrow> scan_digits b 0 (pad0 w s) = scan_digits b 0 s"
proof -
  assume "1 < b"
  then have "scan_digits b 0 (replicate k CHR ''0'' @ s) = scan_digits b 0 s" for k
    by (induction k) (auto simp: char_digit_def)
  then show ?thesis by (simp add: pad0_def)
qed

text \<open>Printing an address with \<^verbatim>\<open>0x%08llx\<close> and reading it back gives the address.\<close>

theorem scan_0x_hex_0x: "scan_0x (hex_0x v) = v"
  by (simp add: scan_0x_def hex_0x_def fmt_08llx_def fmt_x_def scan_digits_pad0 scan_digits_digits)

section \<open>What the code emits\<close>

text \<open>
  Console text (\<^verbatim>\<open>cons_printf\<close>, \<^verbatim>\<open>cons_strcat\<close>, \<^verbatim>\<open>printf\<close>), diagnostics on standard error
  (\<^verbatim>\<open>eprintf\<close>), commands handed to the interpreter (\<^verbatim>\<open>radare_cmd\<close>, \<^verbatim>\<open>radare_cmd_raw\<close>) and seeks around
  them (\<^verbatim>\<open>radare_seek\<close>), in order.
\<close>

datatype out_event = ConsOut string | ErrOut string | RadareCmd string | SeekTo ut64

abbreviation nl :: string where
  "nl \<equiv> [CHR 0x0A]"

section \<open>C strings\<close>

text \<open>\<^verbatim>\<open>strchr(s, c)\<close>: the text before the first \<open>c\<close> and the text after it.\<close>

fun strchr_split :: "char \<Rightarrow> string \<Rightarrow> (string \<times> string) option" where
  "strchr_split c [] = None"
| "strchr_split c (x # xs) =
     (if x = c then Some ([], xs)
      else map_option (\<lambda>(a, b). (x # a, b)) (strchr_split c xs))"

lemma strchr_split_None [simp]: "strchr_split c s = None \<longleftrightarrow> c \<notin> set s"
  by (induction s) auto

lemma strchr_split_Some: "strchr_split c s = Some (a, b) \<longleftrightarrow> s = a @ c # b \<and> c \<notin> set a"
proof (induction s arbitrary: a)
  case (Cons x xs)
  show ?case
  proof (cases "x = c")
    case False
    then have "strchr_split c (x # xs) = Some (a, b) \<longleftrightarrow>
        (\<exists>a'. a = x # a' \<and> strchr_split c xs = Some (a', b))" by auto
    with False Cons.IH show ?thesis by (cases a) auto
  qed (cases a; auto)
qed simp

text \<open>\<^verbatim>\<open>strstr(s, t)\<close>: the rest of \<open>s\<close> from the first occurrence of \<open>t\<close>.\<close>

fun strstr :: "string \<Rightarrow> string \<Rightarrow> string option" where
  "strstr s t =
     (if take (length t) s = t then Some s
      else case s of [] \<Rightarrow> None | _ # s' \<Rightarrow> strstr s' t)"

declare strstr.simps [simp del]

lemma strstr_eval:
  "strstr [] t = (if t = [] then Some [] else None)"
  "strstr (c # s) t = (if take (length t) (c # s) = t then Some (c # s) else strstr s t)"
  by (subst strstr.simps, simp)+

lemma strstr_Some: "strstr s t = Some r \<Longrightarrow> \<exists>p q. s = p @ t @ q \<and> r = t @ q"
proof (induction s)
  case Nil
  then show ?case by (subst (asm) strstr.simps) (auto split: if_splits)
next
  case (Cons c s)
  show ?case
  proof (cases "take (length t) (c # s) = t")
    case True
    then have "c # s = t @ drop (length t) (c # s)" by (metis append_take_drop_id)
    moreover from True Cons.prems have "r = c # s" by (subst (asm) strstr.simps) simp
    ultimately show ?thesis by (metis append_Nil)
  next
    case False
    with Cons.prems have "strstr s t = Some r" by (subst (asm) strstr.simps) simp
    from Cons.IH [OF this] obtain p q where "s = p @ t @ q" "r = t @ q" by blast
    then have "c # s = (c # p) @ t @ q \<and> r = t @ q" by simp
    then show ?thesis by blast
  qed
qed

lemma strstr_None: "strstr s t = None \<Longrightarrow> s \<noteq> p @ t @ q"
proof (induction s arbitrary: p)
  case Nil
  then show ?case by (subst (asm) strstr.simps) (auto split: if_splits)
next
  case (Cons c s)
  from Cons.prems have n: "take (length t) (c # s) \<noteq> t" and "strstr s t = None"
    by (subst (asm) strstr.simps; auto split: if_splits)+
  with Cons.IH show ?case by (cases p) auto
qed

section \<open>Lines of a file\<close>

text \<open>The pieces that \<^verbatim>\<open>fgets(buf, 1023, fd)\<close> gives: at most 1022 characters, ending after a newline.\<close>

fun fgets_take :: "nat \<Rightarrow> string \<Rightarrow> string \<times> string" where
  "fgets_take 0 s = ([], s)"
| "fgets_take (Suc n) [] = ([], [])"
| "fgets_take (Suc n) (c # cs) =
     (if c = CHR 0x0A then ([c], cs) else (let (a, b) = fgets_take n cs in (c # a, b)))"

lemma fgets_take_rest: "length (snd (fgets_take n s)) \<le> length s"
  by (induction n s rule: fgets_take.induct) (auto split: prod.splits)

function fgets_all :: "string \<Rightarrow> string list" where
  "fgets_all s = (if s = [] then [] else fst (fgets_take 1022 s) # fgets_all (snd (fgets_take 1022 s)))"
  by pat_completeness auto
termination
proof (relation "measure length")
  fix s :: string assume "s \<noteq> []"
  then obtain c cs where s: "s = c # cs" by (cases s) auto
  have "fgets_take 1022 (c # cs) = (if c = CHR 0x0A then ([c], cs) else (let (a, b) = fgets_take 1021 cs in (c # a, b)))"
    using fgets_take.simps(3) [of 1021 c cs] by simp
  then show "(snd (fgets_take 1022 s), s) \<in> measure length"
    using fgets_take_rest [of 1021 cs] by (auto simp: s split: prod.splits)
qed simp

declare fgets_all.simps [simp del]

end
