(* ===== verification/Utils.thy ===== *)
theory Utils
  imports C_Format
begin

text \<open>
  String and byte utilities (\<^verbatim>\<open>src/src/utils.c\<close>). A C string is the list of its characters before the
  terminator; a buffer that holds inner terminators is a list with explicit NUL characters. A read
  outside an object is the value \<open>None\<close>, unless it is said which value the model gives it.
\<close>

abbreviation NUL :: char where
  "NUL \<equiv> CHR 0x00"

section \<open>Model\<close>

definition iswhitespace :: "char \<Rightarrow> bool" where
  "iswhitespace ch \<longleftrightarrow> ch = CHR '' '' \<or> ch = CHR 0x09"

text \<open>\<^verbatim>\<open>s[i]\<close> for \<open>i\<close> up to the terminator.\<close>

definition str_at :: "string \<Rightarrow> nat \<Rightarrow> char" where
  "str_at s i = (if i < length s then s ! i else NUL)"

fun lstrchr_loop :: "string \<Rightarrow> char \<Rightarrow> nat \<Rightarrow> nat option" where
  "lstrchr_loop str chr 0 = None"
| "lstrchr_loop str chr (Suc len) = (if str_at str len = chr then Some len else lstrchr_loop str chr len)"

definition lstrchr :: "string \<Rightarrow> char \<Rightarrow> nat option" where
  "lstrchr str chr = lstrchr_loop str chr (Suc (length str))"

text \<open>\<^verbatim>\<open>_strnstr\<close>: 0 when the first \<open>sz\<close> characters agree.\<close>

fun strnstr_loop :: "string \<Rightarrow> string \<Rightarrow> nat \<Rightarrow> nat \<Rightarrow> nat" where
  "strnstr_loop from to 0 i = i"
| "strnstr_loop from to (Suc n) i =
     (if str_at from i \<noteq> str_at to i then i else strnstr_loop from to n (Suc i))"

definition strnstr :: "string \<Rightarrow> string \<Rightarrow> nat \<Rightarrow> bool" where
  "strnstr from to sz \<longleftrightarrow> sz \<noteq> strnstr_loop from to sz 0"

function word_count_loop :: "string \<Rightarrow> int \<Rightarrow> int" where
  "word_count_loop str word =
     (if str = [] then word
      else let tmp = dropWhile (\<lambda>c. \<not> iswhitespace c) str; str' = dropWhile iswhitespace tmp
           in word_count_loop str' ((if tmp = str' then word - 1 else word) + 1))"
  by pat_completeness auto
termination
proof (relation "measure (\<lambda>(str, word). length str)")
  fix str :: string and word :: int and tmp str'
  assume "str \<noteq> []" and t: "tmp = dropWhile (\<lambda>c. \<not> iswhitespace c) str" "str' = dropWhile iswhitespace tmp"
  then obtain c cs where c: "str = c # cs" by (cases str) auto
  have "length str' \<le> length tmp" using t(2) by (simp add: length_dropWhile_le)
  moreover have "length str' < length str"
  proof (cases "iswhitespace c")
    case True
    then have "str' = dropWhile iswhitespace cs" using t c by simp
    then show ?thesis using c length_dropWhile_le [of iswhitespace cs] by simp
  next
    case False
    then have "tmp = dropWhile (\<lambda>c. \<not> iswhitespace c) cs" using t c by simp
    then show ?thesis
      using c length_dropWhile_le [of "\<lambda>c. \<not> iswhitespace c" cs] \<open>length str' \<le> length tmp\<close> by simp
  qed
  ultimately show "((str', (if tmp = str' then word - 1 else word) + 1), str, word)
      \<in> measure (\<lambda>(str, word). length str)" by simp
qed simp

declare word_count_loop.simps [simp del]

definition word_count :: "string \<Rightarrow> int" where
  "word_count string = word_count_loop (dropWhile iswhitespace string) 0 - 1"

text \<open>\<^verbatim>\<open>memcpy_loop\<close>: the inner loop runs over \<^verbatim>\<open>orig\<close>, the outer one until \<^verbatim>\<open>dest\<close> is full.\<close>

fun memcpy_loop_inner :: "'a list \<Rightarrow> nat \<Rightarrow> 'a list \<Rightarrow> nat \<Rightarrow> 'a list \<times> nat" where
  "memcpy_loop_inner dest i [] dsize = (dest, i)"
| "memcpy_loop_inner dest i (x # xs) dsize =
     (if i < dsize then memcpy_loop_inner (dest[i := x]) (Suc i) xs dsize else (dest, i))"

partial_function (option) memcpy_loop_outer :: "'a list \<Rightarrow> nat \<Rightarrow> 'a list \<Rightarrow> nat \<Rightarrow> 'a list option" where
  "memcpy_loop_outer dest i orig dsize =
     (if i < dsize
      then (let (dest', i') = memcpy_loop_inner dest i orig dsize in memcpy_loop_outer dest' i' orig dsize)
      else Some dest)"

declare memcpy_loop_outer.simps [code]

definition memcpy_loop :: "'a list \<Rightarrow> 'a list \<Rightarrow> nat \<Rightarrow> nat \<Rightarrow> 'a list option" where
  "memcpy_loop dest orig dsize osize = memcpy_loop_outer dest 0 (take osize orig) dsize"

text \<open>\<^verbatim>\<open>endian_memcpy_e\<close>: the destination and the message for an unsupported size.\<close>

definition endian_memcpy_e :: "u8 list \<Rightarrow> u8 list \<Rightarrow> nat \<Rightarrow> bool \<Rightarrow> u8 list \<times> out_event list" where
  "endian_memcpy_e dest orig sz endian =
     (if endian then (take sz orig @ drop sz dest, [])
      else if sz = 2 then (dest[0 := orig ! 1, 1 := orig ! 0], [])
      else if sz = 4 then (dest[0 := orig ! 3, 1 := orig ! 2, 2 := orig ! 1, 3 := orig ! 0], [])
      else if sz = 8 then
        (dest[0 := orig ! 7, 1 := orig ! 6, 2 := orig ! 5, 3 := orig ! 4,
              4 := orig ! 3, 5 := orig ! 2, 6 := orig ! 1, 7 := orig ! 0], [])
      else (dest, [ErrOut (''Invalid size: '' @ fmt_d (int sz) @ nl)]))"

text \<open>\<^verbatim>\<open>str_cpy\<close>: the destination string and the returned count.\<close>

definition str_cpy :: "string \<Rightarrow> string \<times> int" where
  "str_cpy org = (if org = [] then ([], 0) else (org, int (length org) - 1))"

text \<open>
  \<^verbatim>\<open>set0word\<close> replaces the blanks by terminators and counts the words; \<open>None\<close> for a blank string, where
  it reads \<^verbatim>\<open>str[-1]\<close>. \<open>q\<close> is the character stored at the previous position.
\<close>

fun set0word_loop :: "char \<Rightarrow> string \<Rightarrow> int \<Rightarrow> string \<times> int" where
  "set0word_loop q [] i = ([NUL], i)"
| "set0word_loop q (p # ps) i =
     (if p \<noteq> CHR '' '' \<and> (q = NUL \<or> q = CHR '' '') then
        (let (s, n) = set0word_loop p ps (i + 1) in (p # s, n))
      else if p = CHR '' '' then (let (s, n) = set0word_loop NUL ps i in (NUL # s, n))
      else (let (s, n) = set0word_loop p ps i in (p # s, n)))"

definition set0word :: "string \<Rightarrow> (string \<times> int) option" where
  "set0word str =
     (if str = [] then Some ([NUL], 0)
      else let s1 = dropWhile (\<lambda>c. c = CHR '' '') str in
        if s1 = [] then None
        else let s2 = rev (dropWhile (\<lambda>c. c = CHR '' '') (rev s1)) in Some (set0word_loop (hd s2) s2 1))"

text \<open>\<^verbatim>\<open>get0word\<close> on a buffer of terminated words; \<open>None\<close> when it walks out of the buffer.\<close>

fun get0word :: "string \<Rightarrow> nat \<Rightarrow> string option" where
  "get0word [] idx = None"
| "get0word (c # cs) 0 = Some (takeWhile (\<lambda>x. x \<noteq> NUL) (c # cs))"
| "get0word (c # cs) (Suc n) =
     (if c = NUL then Some [] else get0word (tl (dropWhile (\<lambda>x. x \<noteq> NUL) (c # cs))) n)"

text \<open>\<^verbatim>\<open>mytok\<close>: the token, the delimiter stored in \<^verbatim>\<open>*backup\<close>, and the text behind it.\<close>

fun mytok :: "string \<Rightarrow> string \<Rightarrow> (string \<times> char \<times> string) option" where
  "mytok [] delim = None"
| "mytok (c # cs) delim =
     (if c \<in> set delim then Some ([], c, cs)
      else map_option (\<lambda>(a, d, b). (c # a, d, b)) (mytok cs delim))"

definition is_printable :: "char \<Rightarrow> bool" where
  "is_printable c \<longleftrightarrow> 32 \<le> (of_char c :: nat) \<and> (of_char c :: nat) \<le> 126"

text \<open>\<^verbatim>\<open>hex2int(&val, c)\<close>: the new value, \<open>None\<close> for a character that is no hexadecimal digit.\<close>

definition hex2int :: "u8 \<Rightarrow> char \<Rightarrow> u8 option" where
  "hex2int val c = map_option (\<lambda>d. val * 16 + word_of_nat d) (char_digit c)"

fun hexpair2bin_loop :: "string \<Rightarrow> nat \<Rightarrow> u8 \<Rightarrow> u8 option" where
  "hexpair2bin_loop [] j c = Some c"
| "hexpair2bin_loop (x # xs) j c =
     (if x = CHR '' '' \<or> j = 2 then Some c
      else case hex2int c x of
        None \<Rightarrow> None
      | Some c1 \<Rightarrow> hexpair2bin_loop xs (Suc j) (if j = 0 then push_bit 4 (c1 OR c) else c1 OR c))"

definition hexpair2bin :: "string \<Rightarrow> int" where
  "hexpair2bin arg =
     (if length arg < 2 then - 1
      else case hexpair2bin_loop arg 0 0 of None \<Rightarrow> - 1 | Some c \<Rightarrow> uint c)"

text \<open>The bytes of a 32-bit value in the memory of a little-endian host.\<close>

definition le_bytes32 :: "ut32 \<Rightarrow> u8 list" where
  "le_bytes32 v = map (\<lambda>i. ucast (drop_bit (8 * i) v)) [0..<4]"

definition hex_ignored :: "char \<Rightarrow> bool" where
  "hex_ignored c \<longleftrightarrow> c \<in> {CHR '':'', CHR 0x0A, CHR 0x09, CHR 0x0D, CHR '' ''}"

text \<open>
  \<^verbatim>\<open>hexstr2binstr\<close>: the bytes written and the returned length; \<open>get_math\<close> evaluates a \<^verbatim>\<open>0x...\<close> token.
  The mask \<^verbatim>\<open>~0xFFFFFFFF\<close> is computed in 32 bits. \<open>None\<close>: after a token that ends the string the
  pointer steps over the terminator.
\<close>

function hexstr2binstr_loop ::
  "(string \<Rightarrow> ut64) \<Rightarrow> string \<Rightarrow> nat \<Rightarrow> u8 \<Rightarrow> u8 list \<Rightarrow> (u8 list \<times> nat) option" where
  "hexstr2binstr_loop gm [] j c out = (let out' = (if j = 2 then out @ [c] else out) in Some (out', length out'))"
| "hexstr2binstr_loop gm (x # xs) j c out =
     (if hex_ignored x then hexstr2binstr_loop gm xs j c out
      else
        let (out1, c1, j1) = (if j = 2 then (out @ [c], 0, 0) else (out, c, j)) in
        if x = CHR ''0'' \<and> str_at xs 0 = CHR ''x'' then
          (let addr = gm (x # xs) in
           if addr AND ucast (NOT (0xFFFFFFFF :: ut32)) \<noteq> 0 then hexstr2binstr_loop gm xs j1 c1 out1
           else case dropWhile (\<lambda>c. c \<noteq> CHR '' '' \<and> c \<noteq> CHR 0x09) (x # xs) of
             [] \<Rightarrow> None
           | r # rs \<Rightarrow> hexstr2binstr_loop gm rs 0 c1 (out1 @ le_bytes32 (ucast addr)))
        else case hex2int c1 x of
          None \<Rightarrow> Some (out1, 0)
        | Some c2 \<Rightarrow>
            hexstr2binstr_loop gm xs (Suc j1) (if j1 = 0 then push_bit 4 (c2 OR c1) else c2 OR c1) out1)"
  by pat_completeness auto
termination
proof (relation "measure (\<lambda>(gm, s, j, c, out). length s)")
  fix gm :: "string \<Rightarrow> ut64" and x xs j c out z out1 y c1 j1 r rs and addr :: ut64
  assume "dropWhile (\<lambda>c. c \<noteq> CHR '' '' \<and> c \<noteq> CHR 0x09) (x # xs) = r # rs"
  then have "length (r # rs) \<le> length (x # xs)" using length_dropWhile_le by metis
  then show "((gm, rs, 0, c1, out1 @ le_bytes32 (ucast addr)), gm, x # xs, j, c, out)
      \<in> measure (\<lambda>(gm, s, j, c, out). length s)" by simp
qed auto

definition hexstr2binstr :: "(string \<Rightarrow> ut64) \<Rightarrow> string \<Rightarrow> (u8 list \<times> nat) option" where
  "hexstr2binstr get_math str = hexstr2binstr_loop get_math str 0 0 []"

text \<open>\<^verbatim>\<open>escape_buffer\<close>: the message it prints before returning 0, or the buffer it leaves.\<close>

fun escape_buffer_loop :: "string \<Rightarrow> string \<Rightarrow> string + string" where
  "escape_buffer_loop acc [] = Inr acc"
| "escape_buffer_loop acc (c # cs) =
     (if c \<noteq> CHR 0x5C then escape_buffer_loop (acc @ [c]) cs
      else case cs of
        [] \<Rightarrow> Inl (CHR 0x27 # CHR 0x5C # ''x'' @ [CHR 0x27] @ '' expected.'' @ nl)
      | d # ds \<Rightarrow>
          if d = CHR ''e'' then escape_buffer_loop (acc @ [CHR 0x1B]) ds
          else if d = CHR ''r'' then escape_buffer_loop (acc @ [CHR 0x0D]) ds
          else if d = CHR ''n'' then escape_buffer_loop (acc @ [CHR 0x0A]) ds
          else if d = CHR ''x'' then
            (case ds of
               h # l # es \<Rightarrow>
                 (case (hex2int 0 h, hex2int 0 l) of
                    (Some ch, Some ch2) \<Rightarrow> escape_buffer_loop (acc @ [char_of (unat (push_bit 4 ch + ch2))]) es
                  | _ \<Rightarrow> Inl (''Incorrect hexadecimal characters for conversion.'' @ nl))
             | _ \<Rightarrow> Inl (''Unexpected end of string.'' @ nl))
          else Inl (CHR 0x27 # CHR 0x5C # ''x'' @ [CHR 0x27] @ '' expected.'' @ nl))"

definition escape_buffer :: "string \<Rightarrow> string + string" where
  "escape_buffer buf = escape_buffer_loop [] buf"

definition iswhitechar :: "char \<Rightarrow> bool" where
  "iswhitechar c \<longleftrightarrow> c \<in> {CHR '' '', CHR 0x09, CHR 0x0A, CHR 0x0D}"

fun strclean_loop :: "string \<Rightarrow> nat \<Rightarrow> string" where
  "strclean_loop str 0 = str"
| "strclean_loop str (Suc n) =
     (if iswhitechar (str ! Suc n) then strclean_loop (take (Suc n) str) n else str)"

definition strclean :: "string option \<Rightarrow> string option" where
  "strclean str = map_option (\<lambda>s. let t = dropWhile iswhitechar s
     in if length t > 0 then strclean_loop t (length t - 1) else t) str"

definition strnull :: "string option \<Rightarrow> bool" where
  "strnull str = (case str of None \<Rightarrow> True | Some s \<Rightarrow> s = [])"

text \<open>\<^verbatim>\<open>strhash\<close> computes in \<^verbatim>\<open>int\<close>, here with wrap-around; on the empty string it reads \<^verbatim>\<open>str[1]\<close>.\<close>

fun strhash_loop :: "string \<Rightarrow> ut32 \<Rightarrow> ut32 \<Rightarrow> ut32 \<Rightarrow> ut32" where
  "strhash_loop [] i a h = h"
| "strhash_loop (c # cs) i a h =
     strhash_loop cs (i + 1) (a * 0x337) (h + scast (of_char c :: u8) * i * a)"

definition strhash :: "string \<Rightarrow> ut32 option" where
  "strhash str = (case str of
       [] \<Rightarrow> None
     | c # cs \<Rightarrow> Some (strhash_loop cs 1 0x31 (scast (of_char c :: u8)) AND 0x7ffffff))"

definition str_first_word :: "string \<Rightarrow> string" where
  "str_first_word string = takeWhile (\<lambda>c. \<not> iswhitespace c) (dropWhile iswhitespace string)"

fun strccmp :: "string \<Rightarrow> string \<Rightarrow> char \<Rightarrow> int" where
  "strccmp dst [] ch = 0"
| "strccmp dst (x # xs) ch =
     (if x = ch then 0 else if str_at dst 0 \<noteq> x then 1 else strccmp (tl dst) xs ch)"

fun str_ccpy :: "string \<Rightarrow> char \<Rightarrow> string \<times> int" where
  "str_ccpy [] ch = ([], 0)"
| "str_ccpy (x # xs) ch =
     (if x = ch then ([], 0) else let (s, n) = str_ccpy xs ch in (x # s, n + 1))"

text \<open>The value of 8 bytes in the memory of a little-endian host and back; \<^verbatim>\<open>htonq\<close> on such a host.\<close>

definition le_bytes64 :: "ut64 \<Rightarrow> u8 list" where
  "le_bytes64 v = map (\<lambda>i. ucast (drop_bit (8 * i) v)) [0..<8]"

fun of_le_bytes64 :: "u8 list \<Rightarrow> ut64" where
  "of_le_bytes64 [] = 0"
| "of_le_bytes64 (b # bs) = ucast b OR push_bit 8 (of_le_bytes64 bs)"

definition htonq :: "ut64 \<Rightarrow> ut64" where
  "htonq value = of_le_bytes64 (fst (endian_memcpy_e (le_bytes64 value) (le_bytes64 value) 8 False))"

text \<open>The macro \<^verbatim>\<open>__htonq\<close>.\<close>

definition htonq_macro :: "ut64 \<Rightarrow> ut64" where
  "htonq_macro x =
     drop_bit 56 (x AND 0xff00000000000000) OR drop_bit 40 (x AND 0x00ff000000000000) OR
     drop_bit 24 (x AND 0x0000ff0000000000) OR drop_bit 8 (x AND 0x000000ff00000000) OR
     push_bit 8 (x AND 0x00000000ff000000) OR push_bit 24 (x AND 0x0000000000ff0000) OR
     push_bit 40 (x AND 0x000000000000ff00) OR push_bit 56 (x AND 0x00000000000000ff)"

text \<open>
  \<^verbatim>\<open>str_grep\<close>. It looks for the wildcard at \<^verbatim>\<open>needle[strlen(str)-1]\<close>; \<open>junk\<close> is what that read gives
  outside the needle.
\<close>

definition str_grep :: "char \<Rightarrow> string \<Rightarrow> string \<Rightarrow> bool" where
  "str_grep junk str needle =
     (let len = length needle; lenstr = length str;
          w = (if lenstr = 0 \<or> lenstr - 1 > len then junk else str_at needle (lenstr - 1)) in
      if str_at needle 0 = CHR ''^'' then
        (if len > lenstr then False else take (len - 1) str = take (len - 1) (drop 1 needle))
      else if w = CHR ''*'' then
        (if len > lenstr then False else take lenstr str = take lenstr needle)
      else if w = CHR ''$'' then
        (if len > lenstr then False else take (len - 1) (drop (lenstr - len + 1) str) = take (len - 1) needle)
      else strstr str needle \<noteq> None)"

text \<open>\<^verbatim>\<open>timeval_subtract\<close> on (seconds, microseconds); \<open>quot\<close> is the division of C.\<close>

definition c_div :: "int \<Rightarrow> int \<Rightarrow> int" where
  "c_div a b = sgn a * sgn b * (\<bar>a\<bar> div \<bar>b\<bar>)"

definition timeval_subtract :: "int \<times> int \<Rightarrow> int \<times> int \<Rightarrow> (int \<times> int) \<times> bool" where
  "timeval_subtract end_t begin_t =
     (let (es, eu) = end_t; (bs, bu) = begin_t;
          (bs1, bu1) = (if eu < bu then let nsec = c_div (bu - eu) 1000000 + 1
                                        in (bs + nsec, bu - 1000000 * nsec) else (bs, bu));
          (bs2, bu2) = (if eu - bu1 > 1000000 then let nsec = c_div (eu - bu1) 1000000
                                        in (bs1 - nsec, bu1 + 1000000 * nsec) else (bs1, bu1))
      in ((es - bs2, eu - bu2), es < bs2))"

section \<open>Hexadecimal pairs\<close>

lemma char_digit_misc [simp]:
  "char_digit CHR ''x'' = None" "char_digit CHR '' '' = None" "char_digit NUL = None"
  by (simp_all add: char_digit_def)

lemma hex_ignored_no_digit: "hex_ignored c \<Longrightarrow> char_digit c = None"
  by (auto simp: hex_ignored_def char_digit_def)

lemma digit_char_neq:
  assumes "d < 16"
  shows "\<not> hex_ignored (digit_char d)" "digit_char d \<noteq> CHR ''x''" "digit_char d \<noteq> CHR '' ''"
  using char_digit_digit_char [OF assms] hex_ignored_no_digit by auto

lemma digit_char_0: "digit_char 0 = CHR ''0''"
  by (simp add: digit_char_def char_of_eq_iff)

abbreviation hi_nibble :: "u8 \<Rightarrow> nat" where "hi_nibble b \<equiv> unat b div 16"
abbreviation lo_nibble :: "u8 \<Rightarrow> nat" where "lo_nibble b \<equiv> unat b mod 16"

lemma hi_lt: "hi_nibble b < 16"
  using unsigned_less [of b, where ?'a = nat] by simp

lemma fmt_02x_digits: "fmt_02x b = [digit_char (hi_nibble b), digit_char (lo_nibble b)]"
proof (cases "unat b < 16")
  case True
  then show ?thesis
    by (simp add: fmt_02x_def fmt_x_def pad0_def digits_base.simps [of 16 "unat b"] digit_char_0)
next
  case False
  then have "fmt_x (unat b) = [digit_char (hi_nibble b), digit_char (lo_nibble b)]"
    using hi_lt [of b] by (simp add: fmt_x_def digits_base.simps [of 16 "unat b"] digits_base.simps [of 16 "hi_nibble b"])
  then show ?thesis by (simp add: fmt_02x_def pad0_def)
qed

lemma nibbles_word:
  "(word_of_nat (hi_nibble b) :: u8) = drop_bit 4 b" "(word_of_nat (lo_nibble b) :: u8) = take_bit 4 b"
proof -
  have "unat (drop_bit 4 b) = hi_nibble b" "unat (take_bit 4 b) = lo_nibble b"
    by (simp_all add: unat_drop_bit_eq unsigned_take_bit_eq) (simp_all add: drop_bit_eq_div take_bit_eq_mod)
  then show "(word_of_nat (hi_nibble b) :: u8) = drop_bit 4 b" "(word_of_nat (lo_nibble b) :: u8) = take_bit 4 b"
    by (metis of_nat_unat ucast_id)+
qed

lemma nibbles_join:
  "push_bit 4 (drop_bit 4 b) OR take_bit 4 b = b" "take_bit 4 b OR push_bit 4 (drop_bit 4 b) = b"
  "push_bit 4 (drop_bit 4 b) + take_bit 4 b = b"
  for b :: u8
  by (auto intro!: bit_word_eqI simp: bit_simps bits_ident)

lemma shift_out: "push_bit 4 a * 16 = 0" if "a = drop_bit 4 b" for a b :: u8
proof -
  have "push_bit 4 a * 16 = push_bit 8 a" by (simp add: push_bit_eq_mult)
  also have "\<dots> = 0" by (auto intro!: bit_word_eqI simp: bit_simps)
  finally show ?thesis .
qed

text \<open>One printed byte takes the accumulator through both digits.\<close>

lemma hex2int_digit: "d < 16 \<Longrightarrow> hex2int v (digit_char d) = Some (v * 16 + word_of_nat d)"
  by (simp add: hex2int_def char_digit_digit_char)

lemma hex2int_pair:
  "hex2int 0 (digit_char (hi_nibble b)) = Some (drop_bit 4 b)"
  "hex2int 0 (digit_char (lo_nibble b)) = Some (take_bit 4 b)"
  "hex2int (push_bit 4 (drop_bit 4 b)) (digit_char (lo_nibble b)) = Some (take_bit 4 b)"
  using hi_lt [of b] by (simp_all add: hex2int_digit nibbles_word shift_out)

lemma hexstr2binstr_loop_sep:
  "\<forall>c \<in> set sep. hex_ignored c \<Longrightarrow> hexstr2binstr_loop gm (sep @ rest) j c out = hexstr2binstr_loop gm rest j c out"
  by (induction sep) auto

lemma hexstr2binstr_loop_byte:
  assumes "j = 0 \<and> c = 0 \<or> j = 2" and "str_at rest 0 \<noteq> CHR ''x''"
  shows "hexstr2binstr_loop gm (fmt_02x b @ rest) j c out =
         hexstr2binstr_loop gm rest 2 b (if j = 2 then out @ [c] else out)"
proof -
  note neq = digit_char_neq [OF hi_lt [of b]] digit_char_neq [of "lo_nibble b"]
  have "hexstr2binstr_loop gm (fmt_02x b @ rest) j c out =
      hexstr2binstr_loop gm (digit_char (lo_nibble b) # rest) 1 (push_bit 4 (drop_bit 4 b))
        (if j = 2 then out @ [c] else out)"
    using assms(1) neq by (auto simp: fmt_02x_digits hex2int_pair str_at_def)
  also have "\<dots> = hexstr2binstr_loop gm rest 2 b (if j = 2 then out @ [c] else out)"
    using neq assms(2) by (simp add: hex2int_pair nibbles_join numeral_2_eq_2)
  finally show ?thesis .
qed

lemma hexstr2binstr_loop_bytes:
  assumes "\<forall>c \<in> set sep. hex_ignored c" and "j = 0 \<and> c = 0 \<or> j = 2"
  shows "hexstr2binstr_loop gm (concat (map (\<lambda>b. fmt_02x b @ sep) bs)) j c out =
         Some (let r = (if j = 2 then out @ [c] else out) @ bs in (r, length r))"
  using assms(2)
proof (induction bs arbitrary: j c out)
  case (Cons b bs)
  let ?rest = "sep @ concat (map (\<lambda>b. fmt_02x b @ sep) bs)"
  have "str_at ?rest 0 \<noteq> CHR ''x''"
    using assms(1) digit_char_neq(2) [OF hi_lt]
    by (cases sep; cases bs) (auto simp: str_at_def fmt_02x_digits hex_ignored_def)
  with Cons show ?case
    by (simp add: hexstr2binstr_loop_byte hexstr2binstr_loop_sep [OF assms(1)] Let_def)
qed (simp add: Let_def)

lemma hexpair2bin_fmt_02x: "hexpair2bin (fmt_02x b) = uint b"
  using hi_lt [of b] digit_char_neq(3) [of "hi_nibble b"] digit_char_neq(3) [of "lo_nibble b"]
  by (simp add: hexpair2bin_def fmt_02x_digits hex2int_pair nibbles_join)

section \<open>Escapes\<close>

definition escape_chars :: "(char \<Rightarrow> bool) \<Rightarrow> string \<Rightarrow> string" where
  "escape_chars P s =
     concat (map (\<lambda>c. if P c \<or> c = CHR 0x5C then CHR 0x5C # CHR ''x'' # fmt_02x (of_char c) else [c]) s)"

lemma char_of_of_char_u8: "char_of (unat (of_char c :: u8)) = c"
proof -
  have "unat (of_char c :: u8) = of_char c"
    by (cases c) (simp add: of_char_def)
  then show ?thesis by simp
qed

lemma escape_buffer_loop_escape_chars: "escape_buffer_loop acc (escape_chars P s) = Inr (acc @ s)"
proof (induction s arbitrary: acc)
  case (Cons c s)
  have "escape_chars P (c # s) = (if P c \<or> c = CHR 0x5C then CHR 0x5C # CHR ''x'' # fmt_02x (of_char c) else [c])
      @ escape_chars P s" by (simp add: escape_chars_def)
  with Cons show ?case by (simp add: fmt_02x_digits hex2int_pair nibbles_join char_of_of_char_u8)
qed (simp add: escape_chars_def)

section \<open>Byte order\<close>

lemma endian_memcpy_e_rev:
  assumes "sz \<in> {2, 4, 8}" and "length orig = sz" and "length dest = sz"
  shows "endian_memcpy_e dest orig sz False = (rev orig, [])"
proof -
  have "length xs = Suc n \<longleftrightarrow> (\<exists>y ys. xs = y # ys \<and> length ys = n)" for xs :: "u8 list" and n
    by (auto simp: length_Suc_conv)
  with assms show ?thesis by (auto simp: endian_memcpy_e_def numeral_eq_Suc)
qed

lemma length_le_bytes64 [simp]: "length (le_bytes64 v) = 8"
  by (simp add: le_bytes64_def)

lemma bit_of_le_bytes64:
  "n < 64 \<Longrightarrow> bit (of_le_bytes64 bs) n \<longleftrightarrow> n div 8 < length bs \<and> bit (bs ! (n div 8)) (n mod 8)"
proof (induction bs arbitrary: n)
  case (Cons b bs)
  show ?case
  proof (cases "n < 8")
    case True
    then show ?thesis by (simp add: bit_simps)
  next
    case False
    then have "n div 8 = Suc ((n - 8) div 8)" "n mod 8 = (n - 8) mod 8" by (simp_all add: le_div_geq le_mod_geq)
    moreover have "\<not> bit (ucast b :: ut64) n" using False by (auto simp: bit_simps dest: bit_imp_le_length)
    ultimately show ?thesis using False Cons by (simp add: bit_simps)
  qed
qed simp

lemma of_le_bytes64_le_bytes64: "of_le_bytes64 (le_bytes64 v) = v"
  by (rule bit_word_eqI) (auto simp: bit_of_le_bytes64 le_bytes64_def bit_simps)

lemma le_bytes64_of_le_bytes64: "length bs = 8 \<Longrightarrow> le_bytes64 (of_le_bytes64 bs) = bs"
  by (intro nth_equalityI bit_word_eqI) (auto simp: le_bytes64_def bit_simps bit_of_le_bytes64)

lemma htonq_rev: "htonq v = of_le_bytes64 (rev (le_bytes64 v))"
  by (simp add: htonq_def endian_memcpy_e_rev)

lemma htonq_involution: "htonq (htonq v) = v"
  by (simp add: htonq_rev le_bytes64_of_le_bytes64 of_le_bytes64_le_bytes64)

lemma byte_masks:
  "(0xff00000000000000 :: ut64) = push_bit 56 (mask 8)" "(0x00ff000000000000 :: ut64) = push_bit 48 (mask 8)"
  "(0x0000ff0000000000 :: ut64) = push_bit 40 (mask 8)" "(0x000000ff00000000 :: ut64) = push_bit 32 (mask 8)"
  "(0x00000000ff000000 :: ut64) = push_bit 24 (mask 8)" "(0x0000000000ff0000 :: ut64) = push_bit 16 (mask 8)"
  "(0x000000000000ff00 :: ut64) = push_bit 8 (mask 8)" "(0x00000000000000ff :: ut64) = mask 8"
  by (simp_all add: mask_eq_exp_minus_1 push_bit_eq_mult)

lemma htonq_eq_macro: "htonq v = htonq_macro v"
proof (rule bit_word_eqI)
  fix n assume n: "n < LENGTH(64)"
  define k r where "k = n div 8" and "r = n mod 8"
  have kr: "n = 8 * k + r" "r < 8" "k < 8" using n by (auto simp: k_def r_def)
  then have "bit (htonq v) n \<longleftrightarrow> bit v (8 * (7 - k) + r)"
    by (auto simp: htonq_rev bit_of_le_bytes64 le_bytes64_def rev_nth bit_simps add.commute)
  moreover have "bit (htonq_macro v) n \<longleftrightarrow> bit v (8 * (7 - k) + r)"
  proof -
    have "k = 0 \<or> k = 1 \<or> k = 2 \<or> k = 3 \<or> k = 4 \<or> k = 5 \<or> k = 6 \<or> k = 7" using kr(3) by arith
    then show ?thesis using kr(2) unfolding htonq_macro_def byte_masks kr(1)
      by (elim disjE) (auto simp: bit_simps)
  qed
  ultimately show "bit (htonq v) n \<longleftrightarrow> bit (htonq_macro v) n" by simp
qed

section \<open>Words\<close>

fun join_words :: "string list \<Rightarrow> string" where
  "join_words [] = []"
| "join_words [w] = w"
| "join_words (w # v # ws) = w @ CHR '' '' # join_words (v # ws)"

definition zero_words :: "string list \<Rightarrow> string" where
  "zero_words ws = concat (map (\<lambda>w. w @ [NUL]) ws)"

definition good_word :: "string \<Rightarrow> bool" where
  "good_word w \<longleftrightarrow> w \<noteq> [] \<and> (\<forall>c \<in> set w. c \<noteq> CHR '' '' \<and> c \<noteq> NUL)"

lemma set0word_loop_word:
  assumes "\<forall>c \<in> set w. c \<noteq> CHR '' '' \<and> c \<noteq> NUL" and "q \<noteq> CHR '' ''" "q \<noteq> NUL"
  shows "set0word_loop q (w @ rest) i =
         (let (s, n) = set0word_loop (last (q # w)) rest i in (w @ s, n))"
  using assms by (induction w arbitrary: q) (auto split: prod.splits)

lemma set0word_loop_start:
  "good_word w \<Longrightarrow> set0word_loop NUL (w @ rest) i = set0word_loop (hd w) (w @ rest) (i + 1)"
  by (cases w) (auto simp: good_word_def)

lemma join_words_Cons: "\<exists>rest. join_words (w # ws) = w @ rest"
  by (cases ws) auto

lemma set0word_loop_join:
  assumes "\<forall>w \<in> set (w # ws). good_word w"
  shows "set0word_loop (hd w) (join_words (w # ws)) i = (zero_words (w # ws), i + int (length ws))"
  using assms
proof (induction ws arbitrary: w i)
  case Nil
  then show ?case using set0word_loop_word [of w "hd w" "[]" i] by (simp add: zero_words_def good_word_def)
next
  case (Cons v ws)
  have w: "good_word w" and v: "good_word v" using Cons.prems by auto
  then have "hd w \<noteq> CHR '' ''" "hd w \<noteq> NUL" "last w \<noteq> CHR '' ''" "last w \<noteq> NUL" by (auto simp: good_word_def)
  moreover obtain rest where r: "join_words (v # ws) = v @ rest" using join_words_Cons by blast
  moreover have "set0word_loop NUL (v @ rest) i = (zero_words (v # ws), i + 1 + int (length ws))"
    using Cons.IH [of v "i + 1"] Cons.prems r set0word_loop_start [OF v] by simp
  ultimately show ?case using w set0word_loop_word [of w "hd w" "CHR '' '' # v @ rest" i]
    by (simp add: good_word_def zero_words_def)
qed

lemma join_words_ends:
  assumes "\<forall>w \<in> set (w # ws). good_word w"
  shows "join_words (w # ws) \<noteq> []" "hd (join_words (w # ws)) = hd w" "last (join_words (w # ws)) \<noteq> CHR '' ''"
proof -
  obtain rest where r: "join_words (w # ws) = w @ rest" using join_words_Cons by blast
  have w: "w \<noteq> []" using assms by (simp add: good_word_def)
  show "join_words (w # ws) \<noteq> []" "hd (join_words (w # ws)) = hd w" unfolding r using w by simp_all
  show "last (join_words (w # ws)) \<noteq> CHR '' ''"
    using assms
  proof (induction ws arbitrary: w)
    case (Cons v ws)
    obtain rest where r: "join_words (v # ws) = v @ rest" using join_words_Cons by blast
    have "v \<noteq> []" using Cons.prems by (simp add: good_word_def)
    then have "join_words (v # ws) \<noteq> []" unfolding r by simp
    then show ?case using Cons.IH [of v] Cons.prems by simp
  qed (auto simp: good_word_def)
qed

lemma dropWhile_hd: "xs \<noteq> [] \<Longrightarrow> \<not> P (hd xs) \<Longrightarrow> dropWhile P xs = xs"
  by (cases xs) auto

lemma set0word_join:
  assumes "ws \<noteq> []" and "\<forall>w \<in> set ws. good_word w"
  shows "set0word (join_words ws) = Some (zero_words ws, int (length ws))"
proof -
  obtain w vs where ws: "ws = w # vs" using assms(1) by (cases ws) auto
  note e = join_words_ends [OF assms(2) [unfolded ws]]
  have "hd w \<noteq> CHR '' ''" using assms ws by (auto simp: good_word_def)
  then have "dropWhile (\<lambda>c. c = CHR '' '') (join_words ws) = join_words ws"
      "dropWhile (\<lambda>c. c = CHR '' '') (rev (join_words ws)) = rev (join_words ws)"
    using e ws by (auto intro!: dropWhile_hd simp: hd_rev)
  with e ws assms set0word_loop_join [of w vs 1] show ?thesis by (simp add: set0word_def Let_def)
qed

lemma takeWhile_append_stop: "\<forall>c \<in> set w. P c \<Longrightarrow> \<not> P x \<Longrightarrow> takeWhile P (w @ x # rest) = w"
  by (induction w) auto

lemma get0word_zero_words:
  "i < length ws \<Longrightarrow> \<forall>w \<in> set ws. good_word w \<Longrightarrow> get0word (zero_words ws) i = Some (ws ! i)"
proof (induction ws arbitrary: i)
  case (Cons w ws)
  then have "good_word w" by simp
  then obtain c cs where w: "w = c # cs" and n: "NUL \<notin> set w"
    by (cases w) (auto simp: good_word_def)
  have z: "zero_words (w # ws) = c # cs @ NUL # zero_words ws" using w by (simp add: zero_words_def)
  have "dropWhile (\<lambda>x. x \<noteq> NUL) (w @ NUL # zero_words ws) = NUL # zero_words ws"
      "takeWhile (\<lambda>x. x \<noteq> NUL) (w @ NUL # zero_words ws) = w" using n by simp_all
  with Cons w n z show ?case by (cases i) auto
qed simp

section \<open>Cyclic copy, tokens, trimming\<close>

lemma memcpy_loop_inner_eq:
  "i \<le> dsize \<Longrightarrow> dsize \<le> length dest \<Longrightarrow>
     memcpy_loop_inner dest i xs dsize =
       (take i dest @ take (dsize - i) xs @ drop (i + length (take (dsize - i) xs)) dest,
        i + length (take (dsize - i) xs))"
proof (induction xs arbitrary: dest i)
  case (Cons x xs)
  show ?case
  proof (cases "i < dsize")
    case True
    then have "take (dsize - i) (x # xs) = x # take (dsize - Suc i) xs" by (simp add: take_Cons' Suc_diff_Suc)
    then show ?thesis using True Cons by (simp add: take_Suc_conv_app_nth upd_conv_take_nth_drop add.commute)
  qed (use Cons in simp)
qed simp

lemma memcpy_loop_outer_cyclic:
  assumes "orig \<noteq> []" and "dsize \<le> length dest" and "i \<le> dsize" and "\<exists>k. i = k * length orig \<or> i = dsize"
    and "\<forall>k < i. dest ! k = orig ! (k mod length orig)"
  shows "\<exists>d. memcpy_loop_outer dest i orig dsize = Some d \<and> length d = length dest \<and>
     (\<forall>k < dsize. d ! k = orig ! (k mod length orig)) \<and> drop dsize d = drop dsize dest"
  using assms(2-5)
proof (induction "dsize - i" arbitrary: dest i rule: less_induct)
  case less
  show ?case
  proof (cases "i < dsize")
    case False
    then show ?thesis using less.prems by (subst memcpy_loop_outer.simps) auto
  next
    case True
    let ?m = "length (take (dsize - i) orig)"
    let ?d = "take i dest @ take (dsize - i) orig @ drop (i + ?m) dest"
    obtain q where q: "i = q * length orig" using less.prems(3) True by auto
    have m: "0 < ?m" "i + ?m \<le> dsize" using True assms(1) by auto
    have step: "memcpy_loop_outer dest i orig dsize = memcpy_loop_outer ?d (i + ?m) orig dsize"
      using True less.prems by (subst memcpy_loop_outer.simps) (simp add: memcpy_loop_inner_eq)
    have mul: "\<exists>k. i + ?m = k * length orig \<or> i + ?m = dsize"
      using q True by (intro exI [of _ "Suc q"]) (auto simp: min_def)
    have cyc: "\<forall>k < i + ?m. ?d ! k = orig ! (k mod length orig)"
    proof (intro allI impI)
      fix k assume k: "k < i + ?m"
      show "?d ! k = orig ! (k mod length orig)"
      proof (cases "k < i")
        case False
        then have "k - i < length orig" "k = q * length orig + (k - i)" using k q by auto
        then have "k mod length orig = k - i" by (metis mod_less mod_mult_self3)
        then show ?thesis using False k less.prems by (auto simp: nth_append)
      qed (use less.prems in \<open>simp add: nth_append\<close>)
    qed
    have len: "length ?d = length dest" "drop dsize ?d = drop dsize dest" using less.prems m by auto
    have "dsize - (i + ?m) < dsize - i" using m True by linarith
    from less.hyps [OF this _ m(2) mul cyc] show ?thesis unfolding step using len less.prems(1) by simp
  qed
qed

lemma mytok_Some:
  "mytok s delim = Some (a, d, b) \<longleftrightarrow> s = a @ d # b \<and> d \<in> set delim \<and> set a \<inter> set delim = {}"
proof (induction s arbitrary: a)
  case (Cons c cs)
  show ?case
  proof (cases "c \<in> set delim")
    case False
    then have "mytok (c # cs) delim = Some (a, d, b) \<longleftrightarrow> (\<exists>a'. a = c # a' \<and> mytok cs delim = Some (a', d, b))"
      by auto
    with False Cons.IH show ?thesis by (cases a) auto
  qed (cases a; auto)
qed simp

lemma strclean_loop_trim:
  "n < length s \<Longrightarrow> \<not> iswhitechar (hd s) \<Longrightarrow>
     strclean_loop (take (Suc n) s) n = rev (dropWhile iswhitechar (rev (take (Suc n) s)))"
proof (induction n)
  case 0
  then show ?case by (cases s) auto
next
  case (Suc n)
  have t: "take (Suc (Suc n)) s = take (Suc n) s @ [s ! Suc n]" using Suc.prems by (simp add: take_Suc_conv_app_nth)
  have "take (Suc (Suc n)) s ! Suc n = s ! Suc n" using Suc.prems by simp
  with Suc show ?case by (auto simp: t nth_append)
qed

lemma strclean_trim: "strclean (Some s) = Some (rev (dropWhile iswhitechar (rev (dropWhile iswhitechar s))))"
proof -
  let ?t = "dropWhile iswhitechar s"
  show ?thesis
  proof (cases ?t)
    case (Cons c cs)
    moreover have "\<not> iswhitechar (hd ?t)" using Cons by (metis hd_dropWhile list.distinct(1))
    ultimately show ?thesis using strclean_loop_trim [of "length ?t - 1" ?t]
      by (simp add: strclean_def Let_def del: dropWhile_eq_Nil_conv)
  qed (simp add: strclean_def Let_def del: dropWhile_eq_Nil_conv)
qed

text \<open>\<^verbatim>\<open>str_grep\<close> with an anchored needle: a proper prefix; the string itself is not found.\<close>

lemma str_grep_anchored:
  "str_grep junk s (CHR ''^'' # p) \<longleftrightarrow> take (length p) s = p \<and> length p < length s"
  by (auto simp: str_grep_def str_at_def Let_def)

lemma timeval_subtract_total:
  assumes "timeval_subtract (es, eu) (bs, bu) = ((s, u), neg)"
  shows "s * 1000000 + u = (es * 1000000 + eu) - (bs * 1000000 + bu)"
  using assms by (auto simp: timeval_subtract_def Let_def split: if_splits)

text \<open>\<^verbatim>\<open>word_count\<close> is one less than the number of words, or two when the text does not end with a blank.\<close>

lemma word_count_examples:
  "word_count ''one two'' = 0" "word_count ''one two '' = 1" "word_count ''one'' = - 1"
  by (simp_all add: word_count_def word_count_loop.simps iswhitespace_def)

section \<open>Properties\<close>

text \<open>
  C34 The bytes printed as hexadecimal pairs, with any ignored characters behind each pair (blanks,
  colons, line ends), are the bytes \<^verbatim>\<open>hexstr2binstr\<close> reads back; what is written by the undo list as
  a \<^verbatim>\<open>wx\<close> command is what \<^verbatim>\<open>wx\<close> writes.
\<close>

theorem hexstr2binstr_roundtrip:
  assumes "\<forall>c \<in> set sep. hex_ignored c"
  shows "hexstr2binstr gm (concat (map (\<lambda>b. fmt_02x b @ sep) bs)) = Some (bs, length bs)"
  using hexstr2binstr_loop_bytes [OF assms, of 0 0] by (simp add: hexstr2binstr_def Let_def)

theorem hexstr2binstr_roundtrip_witness:
  "hexstr2binstr (\<lambda>_. 0) ''90 cd 80 '' = Some ([0x90, 0xcd, 0x80], 3)"
proof -
  have "concat (map (\<lambda>b. fmt_02x b @ '' '') [0x90, 0xcd, 0x80]) = ''90 cd 80 ''"
    by (simp add: fmt_02x_digits digit_char_def char_of_eq_iff)
  moreover have "\<forall>c \<in> set '' ''. hex_ignored c" by (simp add: hex_ignored_def)
  ultimately show ?thesis
    using hexstr2binstr_roundtrip [of "'' ''" "\<lambda>_. 0" "[0x90, 0xcd, 0x80]"] by (metis length_Cons list.size(3) numeral_3_eq_3)
qed

text \<open>
  \<^verbatim>\<open>escape_buffer\<close> undoes the escaping of any choice of characters as \<^verbatim>\<open>\xHH\<close>, backslashes always
  included, NUL bytes too.
\<close>

theorem escape_buffer_roundtrip: "escape_buffer (escape_chars P s) = Inr s"
  by (simp add: escape_buffer_def escape_buffer_loop_escape_chars)

text \<open>
  On a little-endian host \<^verbatim>\<open>htonq\<close>, built on \<^verbatim>\<open>endian_memcpy_e\<close>, computes the value of the macro
  \<^verbatim>\<open>__htonq\<close>, and it is its own inverse (\<^verbatim>\<open>ntohq\<close> is defined as \<^verbatim>\<open>htonq\<close>).
\<close>

theorem htonq_correct: "htonq v = htonq_macro v \<and> htonq (htonq v) = v"
  by (simp add: htonq_eq_macro htonq_involution [unfolded htonq_eq_macro])

text \<open>
  For words separated by single blanks \<^verbatim>\<open>set0word\<close> returns their number, and \<^verbatim>\<open>get0word\<close> finds each
  of them in the buffer it leaves.
\<close>

theorem set0word_get0word:
  assumes "ws \<noteq> []" and "\<forall>w \<in> set ws. good_word w" and "i < length ws"
  shows "\<exists>buf. set0word (join_words ws) = Some (buf, int (length ws)) \<and> get0word buf i = Some (ws ! i)"
  using set0word_join [OF assms(1,2)] get0word_zero_words [OF assms(3,2)] by blast

theorem set0word_get0word_witness:
  "\<exists>buf. set0word ''mov eax ebx'' = Some (buf, 3) \<and> get0word buf 1 = Some ''eax''"
  using set0word_get0word [of "[''mov'', ''eax'', ''ebx'']" 1] by (simp add: good_word_def)

text \<open>
  \<^verbatim>\<open>memcpy_loop\<close> returns for a non-empty source, fills the first \<open>dsize\<close> cells with the source
  repeated, and leaves the others alone; with an empty source and something to fill it never returns.
\<close>

theorem memcpy_loop_cyclic:
  assumes "osize \<le> length orig" and "dsize \<le> length dest" and "0 < osize"
  shows "\<exists>d. memcpy_loop dest orig dsize osize = Some d \<and> length d = length dest \<and>
     (\<forall>k < dsize. d ! k = orig ! (k mod osize)) \<and> drop dsize d = drop dsize dest"
proof -
  have len: "length (take osize orig) = osize" and ne: "take osize orig \<noteq> []" using assms by auto
  have "(k mod osize) < osize" for k using assms(3) by simp
  with memcpy_loop_outer_cyclic [OF ne assms(2), of 0] len show ?thesis
    by (auto simp: memcpy_loop_def)
qed

theorem memcpy_loop_cyclic_witness:
  "\<exists>d. memcpy_loop [0, 0, 0, 0, 9] [1, 2 :: u8] 4 2 = Some d \<and> length d = 5 \<and> d ! 3 = 2"
proof -
  obtain d where "memcpy_loop [0, 0, 0, 0, 9] [1, 2 :: u8] 4 2 = Some d" "length d = 5"
      "\<forall>k < 4. d ! k = [1, 2 :: u8] ! (k mod 2)"
    using memcpy_loop_cyclic [of 2 "[1, 2 :: u8]" 4 "[0, 0, 0, 0, 9]"] by auto
  then show ?thesis by (intro exI [of _ d]) simp
qed

end
