(* ===== verification/Store_Spec.thy ===== *)
theory Store_Spec
  imports Radare_Prelude
begin

text \<open>
  The contract of the program's key-value tables. Two keys are the same entry when \<open>same\<close> says so (the
  configuration compares hashes, the flags compare names); \<open>ok s k\<close> says that the table accepts a
  write of the key. The clients' facts are proved once: a sequence of writes leaves the last value
  written under each key, and writes of different keys commute as far as reads can tell.
\<close>

locale kv_store =
  fixes inv :: "'s \<Rightarrow> bool"
    and ok :: "'s \<Rightarrow> 'k \<Rightarrow> bool"
    and same :: "'k \<Rightarrow> 'k \<Rightarrow> bool"
    and get :: "'s \<Rightarrow> 'k \<Rightarrow> 'v option"
    and put :: "'k \<Rightarrow> 'v \<Rightarrow> 's \<Rightarrow> 's"
  assumes inv_put: "inv s \<Longrightarrow> ok s k \<Longrightarrow> inv (put k v s)"
    and ok_put: "inv s \<Longrightarrow> ok s k \<Longrightarrow> ok s k' \<Longrightarrow> ok (put k v s) k'"
    and get_same: "inv s \<Longrightarrow> ok s k \<Longrightarrow> ok s k' \<Longrightarrow> same k k' \<Longrightarrow> get (put k v s) k' = Some v"
    and get_other: "inv s \<Longrightarrow> ok s k \<Longrightarrow> ok s k' \<Longrightarrow> \<not> same k k' \<Longrightarrow> get (put k v s) k' = get s k'"
begin

definition puts :: "('k \<times> 'v) list \<Rightarrow> 's \<Rightarrow> 's" where
  "puts kvs s = fold (\<lambda>(k, v). put k v) kvs s"

lemma puts_simps [simp]: "puts [] s = s" "puts ((k, v) # kvs) s = puts kvs (put k v s)"
  by (simp_all add: puts_def)

lemma puts_keep:
  assumes "inv s" and "ok s k" and "\<forall>(k', v) \<in> set kvs. ok s k'"
  shows "inv (puts kvs s) \<and> ok (puts kvs s) k"
  using assms
proof (induction kvs arbitrary: s)
  case (Cons kv kvs)
  obtain k' v where kv: "kv = (k', v)" by (cases kv)
  have "ok s k'" using Cons.prems kv by simp
  moreover have "\<forall>(j, w) \<in> set kvs. ok (put k' v s) j" using Cons.prems kv by (auto intro: ok_put)
  ultimately show ?case using Cons.IH [of "put k' v s"] Cons.prems kv inv_put ok_put by simp
qed simp

lemma get_puts:
  assumes "inv s" and "ok s k" and "\<forall>(k', v) \<in> set kvs. ok s k'"
  shows "get (puts kvs s) k =
    (case List.find (\<lambda>(k', v). same k' k) (rev kvs) of Some (k', v) \<Rightarrow> Some v | None \<Rightarrow> get s k)"
  using assms
proof (induction kvs arbitrary: s)
  case (Cons kv kvs)
  obtain k' v where kv: "kv = (k', v)" by (cases kv)
  have k': "ok s k'" using Cons.prems kv by simp
  have "\<forall>(j, w) \<in> set kvs. ok (put k' v s) j" using Cons.prems kv by (auto intro: ok_put)
  then have "get (puts kvs (put k' v s)) k =
      (case List.find (\<lambda>(k', v). same k' k) (rev kvs) of Some (k', v) \<Rightarrow> Some v | None \<Rightarrow> get (put k' v s) k)"
    using Cons.IH [of "put k' v s"] Cons.prems k' inv_put ok_put by simp
  moreover have "get (put k' v s) k = (if same k' k then Some v else get s k)"
    using Cons.prems k' get_same get_other by simp
  ultimately show ?case using kv by (auto simp: find_append split: option.splits)
qed simp

lemma put_commute:
  assumes "inv s" and "ok s j" and "ok s k" and "ok s i" and "\<not> (same j i \<and> same k i)"
  shows "get (put j v (put k w s)) i = get (put k w (put j v s)) i"
  using assms inv_put ok_put get_same get_other by (cases "same j i"; cases "same k i") auto

end

end
