(* ===== verification/Config.thy ===== *)
theory Config
  imports Utils Store_Spec
begin

text \<open>
  The configuration variables (\<^verbatim>\<open>src/src/config.c\<close>): the list of nodes, found by the hash of their
  name, and the operations that read, set and list them. The evaluators \<^verbatim>\<open>get_math\<close> and
  \<^verbatim>\<open>get_offset\<close> are arguments. A node holds its callback as a number, and what the functions behind the pointers do is an
  argument too: it takes the number, the node and the table with the node already set, and returns the table as the callback leaves
  it, so a callback may change the node, or set other variables. The run itself is an event of the result.
\<close>

section \<open>Model\<close>

definition CN_BOOL :: ut32 where "CN_BOOL = 0x01"
definition CN_INT :: ut32 where "CN_INT = 0x02"
definition CN_OFFT :: ut32 where "CN_OFFT = 0x04"
definition CN_STR :: ut32 where "CN_STR = 0x08"
definition CN_RO :: ut32 where "CN_RO = 0x10"
definition CN_RW :: ut32 where "CN_RW = 0x20"

record config_node_t =
  nname :: string
  nhash :: "ut32 option"
  nflags :: ut32
  nvalue :: string
  i_value :: ut64
  callback :: "nat option"

record config_new_t =
  lock :: bool
  nodes :: "config_node_t list"
  config_get_notfound :: bool

text \<open>What a call leaves behind: text, or the run of a callback on a node.\<close>

datatype config_event = Text out_event | Callback nat config_node_t

definition has_flag :: "config_node_t \<Rightarrow> ut32 \<Rightarrow> bool" where
  "has_flag node f \<longleftrightarrow> nflags node AND f \<noteq> 0"

definition config_node_new :: "string \<Rightarrow> string option \<Rightarrow> config_node_t" where
  "config_node_new name value =
     \<lparr>nname = name, nhash = strhash name, nflags = CN_RW OR CN_STR,
      nvalue = (case value of Some v \<Rightarrow> v | None \<Rightarrow> []), i_value = 0, callback = None\<rparr>"

definition config_list :: "config_new_t \<Rightarrow> string option \<Rightarrow> out_event list" where
  "config_list st str =
     (let line = (\<lambda>bt. ConsOut (nname bt @ '' = '' @ nvalue bt @ nl)) in
      case str of
        None \<Rightarrow> map line (nodes st)
      | Some s \<Rightarrow>
          let p = dropWhile iswhitechar s
          in map line (filter (\<lambda>bt. take (length p) (nname bt) = p) (nodes st)))"

definition config_node_get :: "config_new_t \<Rightarrow> string \<Rightarrow> config_node_t option" where
  "config_node_get st name = List.find (\<lambda>bt. nhash bt = strhash name) (rev (nodes st))"

text \<open>The pointer \<^verbatim>\<open>config_get\<close> returns: \<^verbatim>\<open>NULL\<close>, the constant 1, or the text of the node.\<close>

datatype config_ptr = PNull | POne | PStr string

definition config_get :: "config_new_t \<Rightarrow> string \<Rightarrow> config_new_t \<times> config_ptr" where
  "config_get st name =
     (case config_node_get st name of
        Some node \<Rightarrow>
          (st\<lparr>config_get_notfound := False\<rparr>,
           if has_flag node CN_BOOL
           then (if nvalue node = ''true'' \<or> nvalue node = ''1'' then POne else PNull)
           else PStr (nvalue node))
      | None \<Rightarrow> (st\<lparr>config_get_notfound := True\<rparr>, PNull))"


text \<open>The update of the node that \<^verbatim>\<open>config_node_get\<close> returns, in place.\<close>

definition node_update :: "string \<Rightarrow> (config_node_t \<Rightarrow> config_node_t) \<Rightarrow> config_new_t \<Rightarrow> config_new_t" where
  "node_update name f st =
     st\<lparr>nodes := rev (update_first (\<lambda>bt. nhash bt = strhash name) f (rev (nodes st)))\<rparr>"

type_synonym config_cb = "nat \<Rightarrow> config_node_t \<Rightarrow> config_new_t \<Rightarrow> config_new_t \<times> config_event list"

definition run_callback :: "config_cb \<Rightarrow> config_node_t \<Rightarrow> config_new_t \<Rightarrow> config_new_t \<times> config_event list" where
  "run_callback cb node st =
     (case callback node of
        None \<Rightarrow> (st, [])
      | Some n \<Rightarrow> (case cb n node st of (st', ev) \<Rightarrow> (st', Callback n node # ev)))"

text \<open>The end of both operations that set a node: its callback, and the node as the callback left it.\<close>

definition after_set :: "config_cb \<Rightarrow> string \<Rightarrow> config_node_t \<Rightarrow> config_new_t \<Rightarrow> config_new_t \<times> config_node_t option \<times> config_event list" where
  "after_set cb name node st =
     (case run_callback cb node st of (st', ev) \<Rightarrow> (st', config_node_get st' name, ev))"

text \<open>The new contents of an existing node; \<open>None\<close> for the comparison of a \<^verbatim>\<open>NULL\<close> value of a boolean.\<close>

definition node_set_value ::
  "(string \<Rightarrow> ut64) \<Rightarrow> (string \<Rightarrow> ut64) \<Rightarrow> string option \<Rightarrow> config_node_t \<Rightarrow> config_node_t option" where
  "node_set_value get_math get_offset value node =
     (if has_flag node CN_BOOL then
        (case value of
           None \<Rightarrow> None
         | Some v \<Rightarrow> let b = (v = ''true'' \<or> v = ''1'')
                    in Some (node\<lparr>i_value := if b then 1 else 0, nvalue := if b then ''true'' else ''false''\<rparr>))
      else case value of
        None \<Rightarrow> Some (node\<lparr>nvalue := [], i_value := 0\<rparr>)
      | Some v \<Rightarrow>
          Some (node\<lparr>nvalue := v,
                     i_value := (if CHR ''%'' \<in> set v then 0
                                 else if CHR ''/'' \<in> set v then get_offset v else get_math v),
                     nflags := nflags node OR CN_INT\<rparr>))"

definition config_set ::
  "config_cb \<Rightarrow> (string \<Rightarrow> ut64) \<Rightarrow> (string \<Rightarrow> ut64) \<Rightarrow> string \<Rightarrow> string option \<Rightarrow> config_new_t
    \<Rightarrow> (config_new_t \<times> config_node_t option \<times> config_event list) option" where
  "config_set cb get_math get_offset name value st =
     (if name = [] then Some (st, None, [])
      else case config_node_get st name of
        Some node \<Rightarrow>
          if has_flag node CN_RO then Some (st, Some node, [Text (ErrOut (''(read only)'' @ nl))])
          else (case node_set_value get_math get_offset value node of
                  None \<Rightarrow> None
                | Some node' \<Rightarrow> Some (after_set cb name node' (node_update name (\<lambda>_. node') st)))
      | None \<Rightarrow>
          if lock st then
            Some (st, None, [Text (ErrOut (''(config-locked: '' @ [CHR 0x27] @ name @ [CHR 0x27]
                     @ '' no new keys can be created)'' @ nl))])
          else let node = config_node_new name value;
                   node' = (case value of
                       Some v \<Rightarrow> if v = ''true'' \<or> v = ''false''
                                then node\<lparr>nflags := nflags node OR CN_BOOL, i_value := if v = ''true'' then 1 else 0\<rparr>
                                else node
                     | None \<Rightarrow> node)
               in Some (after_set cb name node' (st\<lparr>nodes := nodes st @ [node']\<rparr>)))"

definition config_rm :: "config_new_t \<Rightarrow> string \<Rightarrow> out_event list" where
  "config_rm st name =
     (case config_node_get st name of
        Some node \<Rightarrow> [ConsOut (''TODO: remove: not yet implemented'' @ nl)]
      | None \<Rightarrow> [ConsOut (''node not found'' @ nl)])"

text \<open>
  \<^verbatim>\<open>config_set_i\<close> on a read-only node returns \<^verbatim>\<open>NULL\<close> and runs nothing. \<^verbatim>\<open>%lld\<close> prints the signed
  value; a new node prints the low 32 bits with \<^verbatim>\<open>%d\<close>.
\<close>

definition config_set_i :: "config_cb \<Rightarrow> string \<Rightarrow> ut64 \<Rightarrow> config_new_t \<Rightarrow> config_new_t \<times> config_node_t option \<times> config_event list" where
  "config_set_i cb name i st =
     (case config_node_get st name of
        Some node \<Rightarrow>
          if has_flag node CN_RO then (st, None, [])
          else let node' = node\<lparr>nvalue := (if has_flag node CN_BOOL
                                           then (if i \<noteq> 0 then ''true'' else ''false'')
                                           else fmt_d (sint i)),
                                nflags := CN_RW OR CN_INT, i_value := i\<rparr>
               in after_set cb name node' (node_update name (\<lambda>_. node') st)
      | None \<Rightarrow>
          if lock st then (st, None, [Text (ErrOut ''(locked: no new keys can be created)'')])
          else let node = (config_node_new name (Some (fmt_d (sint (ucast i :: ut32)))))
                            \<lparr>nflags := CN_RW OR CN_OFFT, i_value := i\<rparr>
               in after_set cb name node (st\<lparr>nodes := nodes st @ [node]\<rparr>))"

text \<open>The command \<^verbatim>\<open>eval\<close>.\<close>

definition config_eval ::
  "config_cb \<Rightarrow> (string \<Rightarrow> ut64) \<Rightarrow> (string \<Rightarrow> ut64) \<Rightarrow> string option \<Rightarrow> config_new_t
    \<Rightarrow> (config_new_t \<times> config_event list) option" where
  "config_eval cb get_math get_offset arg st =
     (case strclean arg of
        None \<Rightarrow> Some (st, [])
      | Some str \<Rightarrow>
          if str = [] \<or> str = ''help'' then Some (st, map Text (config_list st None))
          else if hd str = CHR ''-'' then Some (st, map Text (config_rm st (tl str)))
          else case strchr_split CHR ''='' str of
            Some (before, after) \<Rightarrow>
              map_option (\<lambda>(st', node, ev). (st', ev))
                (config_set cb get_math get_offset (the (strclean (Some before))) (strclean (Some after)) st)
          | None \<Rightarrow>
              if last str = CHR ''.'' then Some (st, map Text (config_list st (Some str)))
              else let (st', ptr) = config_get st str in
                if config_get_notfound st' then Some (st', map Text (config_list st' (Some str)))
                else Some (st', [Text (ConsOut ((case ptr of
                       POne \<Rightarrow> ''true'' | PNull \<Rightarrow> ''false'' | PStr s \<Rightarrow> s) @ nl))]))"

section \<open>Lookup\<close>

text \<open>The well-formed tables: no two nodes share a hash, so that the node found is the only one.\<close>

definition config_ok :: "config_new_t \<Rightarrow> bool" where
  "config_ok st \<longleftrightarrow> distinct (map nhash (nodes st)) \<and> (\<forall>n \<in> set (nodes st). nhash n = strhash (nname n))"

lemma config_node_get_SomeD:
  "config_node_get st name = Some node \<Longrightarrow> node \<in> set (nodes st) \<and> nhash node = strhash name"
  by (auto simp: config_node_get_def dest: find_SomeD)

lemma config_node_get_None: "config_node_get st name = None \<longleftrightarrow> strhash name \<notin> nhash ` set (nodes st)"
  by (force simp: config_node_get_def find_None_iff)

lemma config_node_get_notfound [simp]: "config_node_get (st\<lparr>config_get_notfound := b\<rparr>) name = config_node_get st name"
  by (simp add: config_node_get_def)

lemma node_update_get:
  assumes "config_node_get st name = Some node" and "nhash node' = strhash name"
  shows "config_node_get (node_update name (\<lambda>_. node') st) name' =
         (if strhash name = strhash name' then Some node' else config_node_get st name')"
  using assms find_update_first_same [of "\<lambda>bt. nhash bt = strhash name" "rev (nodes st)" node "\<lambda>_. node'"]
    find_update_first_other [of "\<lambda>bt. nhash bt = strhash name" "\<lambda>bt. nhash bt = strhash name'" "\<lambda>_. node'"]
  by (auto simp: config_node_get_def node_update_def)


lemma nhash_node_new [simp]: "nhash (config_node_new name v) = strhash name"
  by (simp add: config_node_new_def)

lemma nhash_node_set_value: "node_set_value gm go v node = Some node' \<Longrightarrow> nhash node' = nhash node \<and> nname node' = nname node"
  by (auto simp: node_set_value_def Let_def split: if_splits option.splits)

lemma config_ok_update:
  assumes "config_ok st" and n: "config_node_get st name = Some node"
    and n': "nhash node' = nhash node" "nname node' = nname node"
  shows "config_ok (node_update name (\<lambda>_. node') st)"
proof -
  let ?P = "\<lambda>bt. nhash bt = strhash name"
  note h = config_node_get_SomeD [OF n]
  have "map nhash (update_first ?P (\<lambda>_. node') (rev (nodes st))) = map nhash (rev (nodes st))"
    by (rule map_update_first) (use n' h in auto)
  then have "map nhash (nodes (node_update name (\<lambda>_. node') st)) = map nhash (nodes st)"
    by (simp add: node_update_def rev_map [symmetric])
  moreover have "\<forall>n \<in> set (nodes (node_update name (\<lambda>_. node') st)). nhash n = strhash (nname n)"
    using assms h by (auto simp: node_update_def config_ok_def dest!: set_update_first)
  ultimately show ?thesis using assms(1) by (simp add: config_ok_def)
qed

lemma config_ok_append:
  "config_ok st \<Longrightarrow> config_node_get st name = None \<Longrightarrow> nhash node = strhash name \<Longrightarrow> nname node = name \<Longrightarrow>
     config_ok (st\<lparr>nodes := nodes st @ [node]\<rparr>)"
  by (auto simp: config_ok_def config_node_get_None)

section \<open>Setting\<close>

text \<open>
  A table is quiet when the callbacks of its nodes leave the nodes and the lock alone, as those do that copy the value into a field of
  \<^verbatim>\<open>config\<close> (\<^verbatim>\<open>cfg.verbose\<close>, \<^verbatim>\<open>cfg.debug\<close>, \<^verbatim>\<open>scr.fit\<close>, \<^verbatim>\<open>scr.color\<close>); most nodes have none. The callback of \<^verbatim>\<open>asm.bits\<close>, which corrects its node
  and sets \<^verbatim>\<open>asm.arch\<close>, is not of this kind.
\<close>

definition leaves_table :: "config_cb \<Rightarrow> config_node_t \<Rightarrow> bool" where
  "leaves_table cb bt \<longleftrightarrow> (\<forall>n. callback bt = Some n \<longrightarrow> (\<forall>node s. nodes (fst (cb n node s)) = nodes s \<and> lock (fst (cb n node s)) = lock s))"

definition quiet :: "config_cb \<Rightarrow> config_new_t \<Rightarrow> bool" where
  "quiet cb st \<longleftrightarrow> (\<forall>bt \<in> set (nodes st). leaves_table cb bt)"

lemma leaves_run:
  "leaves_table cb node \<Longrightarrow> nodes (fst (run_callback cb node st)) = nodes st \<and> lock (fst (run_callback cb node st)) = lock st"
proof (cases "callback node")
  case (Some n)
  assume "leaves_table cb node"
  then have "nodes (fst (cb n node st)) = nodes st \<and> lock (fst (cb n node st)) = lock st" using Some by (simp add: leaves_table_def)
  then show ?thesis using Some by (simp add: run_callback_def case_prod_unfold)
qed (simp add: run_callback_def)

lemma leaves_after:
  assumes "leaves_table cb node"
  shows "nodes (fst (after_set cb name node st)) = nodes st" "lock (fst (after_set cb name node st)) = lock st"
    "config_node_get (fst (after_set cb name node st)) k = config_node_get st k"
    "fst (snd (after_set cb name node st)) = config_node_get st name"
    "snd (snd (after_set cb name node st)) = snd (run_callback cb node st)"
  using leaves_run [OF assms, of st] by (auto simp: after_set_def config_node_get_def split: prod.splits)

lemma leaves_node_new [simp]: "leaves_table cb (config_node_new name v)"
  by (simp add: leaves_table_def config_node_new_def)

lemma leaves_set_value: "node_set_value gm go v node = Some node' \<Longrightarrow> leaves_table cb node' = leaves_table cb node"
  by (auto simp: node_set_value_def leaves_table_def Let_def split: if_splits option.splits)

lemma nodes_update: "set (nodes (node_update name (\<lambda>_. node') st)) \<subseteq> insert node' (set (nodes st))"
  by (auto simp: node_update_def dest!: set_update_first)

lemma same_nodes_ok: "nodes s = nodes t \<Longrightarrow> config_ok s = config_ok t" "nodes s = nodes t \<Longrightarrow> quiet cb s = quiet cb t"
  by (simp_all add: config_ok_def quiet_def)

lemma config_set_cases:
  assumes "config_set cb gm go name v st = Some res"
  obtains "fst res = st"
  | node node' where "config_node_get st name = Some node" "\<not> has_flag node CN_RO"
      "node_set_value gm go v node = Some node'" "res = after_set cb name node' (node_update name (\<lambda>_. node') st)"
  | node' where "config_node_get st name = None" "\<not> lock st" "nhash node' = strhash name" "nname node' = name" "callback node' = None"
      "res = after_set cb name node' (st\<lparr>nodes := nodes st @ [node']\<rparr>)"
proof (cases "name = []")
  case True
  with assms that(1) show ?thesis by (auto simp: config_set_def)
next
  case ne: False
  show ?thesis
  proof (cases "config_node_get st name")
    case (Some node)
    with assms ne that(1) that(2) [OF Some] show ?thesis
      by (cases "node_set_value gm go v node") (auto simp: config_set_def split: if_splits)
  next
    case None
    show ?thesis
    proof (cases "lock st")
      case True
      with assms ne None that(1) show ?thesis by (auto simp: config_set_def)
    next
      case False
      with assms ne None obtain node' where "res = after_set cb name node' (st\<lparr>nodes := nodes st @ [node']\<rparr>)"
        "nhash node' = strhash name" "nname node' = name" "callback node' = None"
        by (auto simp: config_set_def Let_def config_node_new_def split: option.splits)
      with None False that(3) show ?thesis by blast
    qed
  qed
qed

lemma set_quiet:
  assumes "config_ok st \<and> quiet cb st" and "config_node_get st name = Some node" and "nhash node' = nhash node" "nname node' = nname node"
    and "leaves_table cb node = leaves_table cb node'"
  shows "let st' = fst (after_set cb name node' (node_update name (\<lambda>_. node') st)) in config_ok st' \<and> quiet cb st'"
proof -
  have l: "leaves_table cb node'" using assms(1,2,5) config_node_get_SomeD [OF assms(2)] by (auto simp: quiet_def)
  let ?s = "node_update name (\<lambda>_. node') st"
  have "config_ok ?s" using config_ok_update assms by blast
  moreover have "quiet cb ?s" using nodes_update [of name node' st] l assms(1) by (auto simp: quiet_def)
  ultimately show ?thesis using same_nodes_ok leaves_after(1) [OF l, of name ?s] by (metis (no_types))
qed

lemma append_quiet:
  assumes "config_ok st \<and> quiet cb st" and "config_node_get st name = None" and "nhash node' = strhash name" "nname node' = name"
    and "leaves_table cb node'"
  shows "let st' = fst (after_set cb name node' (st\<lparr>nodes := nodes st @ [node']\<rparr>)) in config_ok st' \<and> quiet cb st'"
proof -
  let ?s = "st\<lparr>nodes := nodes st @ [node']\<rparr>"
  have "config_ok ?s" using config_ok_append assms by blast
  moreover have "quiet cb ?s" using assms(1,5) by (auto simp: quiet_def)
  ultimately show ?thesis using same_nodes_ok leaves_after(1) [OF assms(5), of name ?s] by (metis (no_types))
qed

lemma no_callback_leaves: "callback node = None \<Longrightarrow> leaves_table cb node"
  by (simp add: leaves_table_def)

lemma config_set_ok:
  assumes "config_ok st \<and> quiet cb st" and "config_set cb gm go name v st = Some res"
  shows "config_ok (fst res) \<and> quiet cb (fst res)"
  using assms(2)
proof (cases rule: config_set_cases)
  case (2 node node')
  then show ?thesis using set_quiet [OF assms(1) 2(1)] nhash_node_set_value leaves_set_value by (metis (no_types))
next
  case (3 node')
  then show ?thesis using append_quiet [OF assms(1) 3(1,3,4)] no_callback_leaves by (metis (no_types))
qed (use assms in simp)






section \<open>Properties\<close>

text \<open>
  After \<^verbatim>\<open>config_set\<close> of an ordinary text on a writable variable in a quiet table, the invariants of the table hold, \<^verbatim>\<open>config_get\<close> returns
  that text (for a boolean variable, the constant 1 or \<^verbatim>\<open>NULL\<close>), every variable with another hash reads as before, and the
  callback of the node ran on the new contents.
\<close>

theorem config_get_after_set:
  assumes "config_ok st \<and> quiet cb st" and "name \<noteq> []" and "config_node_get st name = Some node" and "\<not> has_flag node CN_RO"
  shows "\<exists>st' node'. config_set cb gm go name (Some v) st =
       Some (st', Some node', snd (run_callback cb node' (node_update name (\<lambda>_. node') st))) \<and> config_ok st' \<and> quiet cb st' \<and>
     snd (config_get st' name) =
       (if has_flag node CN_BOOL then (if v = ''true'' \<or> v = ''1'' then POne else PNull) else PStr v) \<and>
     (strhash name' \<noteq> strhash name \<longrightarrow> snd (config_get st' name') = snd (config_get st name'))"
proof -
  obtain node' where n': "node_set_value gm go (Some v) node = Some node'"
    by (cases "has_flag node CN_BOOL") (auto simp: node_set_value_def Let_def)
  have h: "nhash node' = strhash name"
    using nhash_node_set_value [OF n'] config_node_get_SomeD [OF assms(3)] by simp
  have l: "leaves_table cb node'"
    using leaves_set_value [OF n'] assms(1) config_node_get_SomeD [OF assms(3)] by (auto simp: quiet_def)
  have v: "nvalue node' = (if has_flag node CN_BOOL then (if v = ''true'' \<or> v = ''1'' then ''true'' else ''false'') else v)"
    and b: "has_flag node' CN_BOOL = has_flag node CN_BOOL"
    using n' by (auto simp: node_set_value_def Let_def has_flag_def CN_BOOL_def CN_INT_def bit.conj_disj_distrib2
        split: if_splits)
  let ?s = "node_update name (\<lambda>_. node') st"
  have set: "config_set cb gm go name (Some v) st = Some (after_set cb name node' ?s)" using assms n' by (simp add: config_set_def)
  note a = leaves_after [OF l, of name ?s] and u = node_update_get [OF assms(3) h]
  have "after_set cb name node' ?s = (fst (after_set cb name node' ?s), Some node', snd (run_callback cb node' ?s))"
    using a(4,5) u [of name] by (simp add: prod_eq_iff)
  moreover have "snd (config_get (fst (after_set cb name node' ?s)) k) = snd (config_get ?s k)" for k
    using a(3) by (simp add: config_get_def split: option.splits)
  ultimately show ?thesis using set config_set_ok [OF assms(1) set] u v b
    by (intro exI [of _ "fst (after_set cb name node' ?s)"] exI [of _ node']) (auto simp: config_get_def split: option.splits)
qed






text \<open>
  \<^verbatim>\<open>config_set_i\<close> drops the boolean flag of a variable: switched off this way, it reads as the text
  \<^verbatim>\<open>false\<close>, which is not \<^verbatim>\<open>NULL\<close> and counts as true wherever the code tests the pointer.
\<close>

lemma config_set_i_false_reads_true:
  assumes "config_node_get st name = Some node" and "has_flag node CN_BOOL" and "\<not> has_flag node CN_RO" and "leaves_table cb node"
  shows "snd (config_get (fst (config_set_i cb name 0 st)) name) = PStr ''false''"
proof -
  let ?n = "node\<lparr>nvalue := ''false'', nflags := CN_RW OR CN_INT, i_value := 0\<rparr>"
  have h: "nhash ?n = strhash name" using config_node_get_SomeD [OF assms(1)] by simp
  have l: "leaves_table cb ?n" using assms(4) by (simp add: leaves_table_def)
  have "fst (config_set_i cb name 0 st) = fst (after_set cb name ?n (node_update name (\<lambda>_. ?n) st))"
    using assms by (simp add: config_set_i_def Let_def)
  then have "config_node_get (fst (config_set_i cb name 0 st)) name = Some ?n"
    using leaves_after(3) [OF l] node_update_get [OF assms(1) h] by simp
  then show ?thesis by (simp add: config_get_def has_flag_def CN_RW_def CN_INT_def CN_BOOL_def)
qed

end
