(* ===== verification/Ranges.thy ===== *)
theory Ranges
  imports List_Head C_Format "HOL-Library.Multiset"
begin

text \<open>
  Address ranges (\<^verbatim>\<open>src/src/ranges.c\<close>): the list of half-open ranges the analysis keeps, the
  operations that add, subtract, merge and sort them, and the command \<^verbatim>\<open>ar\<close>. A list of ranges
  denotes the set of addresses \<open>addrs\<close>; adding denotes union, merging changes nothing, sorting
  sorts. The list head is the sequence of its entries here (theory \<open>List_Head\<close> relates the two).
\<close>

section \<open>Model\<close>

record range_t =
  rfrom :: ut64
  rto :: ut64
  rdata :: "u8 list option"
  datalen :: int

record ranges_state =
  ranges :: "range_t list"
  ranges_is_init :: bool
  ranges_changed :: bool

definition RANGE_TRACES :: int where "RANGE_TRACES = 1"
definition RANGE_GRAPHS :: int where "RANGE_GRAPHS = 2"
definition RANGE_FUNCTIONS :: int where "RANGE_FUNCTIONS = 4"

definition ranges_init :: "ranges_state \<Rightarrow> ranges_state \<times> int" where
  "ranges_init st = (if ranges_is_init st then (st, 1) else (st\<lparr>ranges := []\<rparr>, 0))"

definition ranges_free :: "ranges_state \<Rightarrow> ranges_state" where
  "ranges_free st = st\<lparr>ranges := []\<rparr>"

text \<open>\<^verbatim>\<open>config_get(key)\<close> is tested against \<^verbatim>\<open>NULL\<close> only; \<open>cfg key\<close> says that it is not \<^verbatim>\<open>NULL\<close>.\<close>

definition ranges_get_flags :: "(string \<Rightarrow> bool) \<Rightarrow> int" where
  "ranges_get_flags cfg =
     or (or (if cfg ''range.traces'' then RANGE_TRACES else 0)
            (if cfg ''range.graphs'' then RANGE_GRAPHS else 0))
        (if cfg ''range.functions'' then RANGE_FUNCTIONS else 0)"

definition ranges_abs :: "ut64 \<Rightarrow> ut64 \<Rightarrow> ut64 \<times> ut64" where
  "ranges_abs f t = (if f > t then (t, f) else (f, t))"

fun ranges_get :: "range_t list \<Rightarrow> ut64 \<Rightarrow> range_t option" where
  "ranges_get [] addr = None"
| "ranges_get (r # rs) addr =
     (if addr \<ge> rfrom r \<and> addr < rto r then Some r else ranges_get rs addr)"

fun ranges_size_loop :: "range_t list \<Rightarrow> ut64 \<Rightarrow> ut64" where
  "ranges_size_loop [] sm = sm"
| "ranges_size_loop (r # rs) sm = ranges_size_loop rs (sm + (rto r - rfrom r))"

definition ranges_size :: "range_t list \<Rightarrow> ut64" where
  "ranges_size rang = ranges_size_loop rang 0"

text \<open>
  The body of the loop of \<^verbatim>\<open>ranges_add\<close>: the entry after the updates, whether \<^verbatim>\<open>ret\<close> is set to it,
  and whether \<^verbatim>\<open>add\<close> is cleared.
\<close>

definition ranges_add_entry :: "ut64 \<Rightarrow> ut64 \<Rightarrow> range_t \<Rightarrow> range_t \<times> bool \<times> bool" where
  "ranges_add_entry from to r =
     (if rfrom r = from \<and> rto r = to then (r, False, True)
      else if rfrom r \<le> from \<and> rfrom r \<le> to \<and> rto r \<ge> from \<and> rto r \<le> to
        then (r\<lparr>rto := to\<rparr>, True, True)
      else if rfrom r \<ge> from \<and> rfrom r \<le> to \<and> rto r \<ge> from \<and> rto r \<ge> to
        then (r\<lparr>rfrom := from\<rparr>, True, True)
      else if rfrom r \<le> from \<and> rfrom r \<le> to \<and> rto r \<ge> from \<and> rto r \<ge> to
        then (r, False, True)
      else if rfrom r \<ge> from \<and> rfrom r \<le> to \<and> rto r \<ge> from \<and> rto r \<le> to
        then (r\<lparr>rfrom := from, rto := to\<rparr>, True, True)
      else (r, False, False))"

text \<open>The loop; the returned pointer is the position of the entry, \<open>None\<close> while \<^verbatim>\<open>ret\<close> is unassigned.\<close>

fun ranges_add_loop ::
  "ut64 \<Rightarrow> ut64 \<Rightarrow> nat \<Rightarrow> range_t list \<Rightarrow> nat option \<Rightarrow> bool \<Rightarrow> range_t list \<times> nat option \<times> bool" where
  "ranges_add_loop from to i [] ret add = ([], ret, add)"
| "ranges_add_loop from to i (r # rs) ret add =
     (let (r', s, m) = ranges_add_entry from to r;
          (rs', ret', add') = ranges_add_loop from to (Suc i) rs (if s then Some i else ret) (add \<and> \<not> m)
      in (r' # rs', ret', add'))"

text \<open>The result: the list, the returned entry, and whether \<^verbatim>\<open>ranges_changed\<close> was set.\<close>

definition ranges_add :: "range_t list \<Rightarrow> ut64 \<Rightarrow> ut64 \<Rightarrow> bool \<Rightarrow> range_t list \<times> nat option \<times> bool" where
  "ranges_add rang from to rw =
     (let (f, t) = ranges_abs from to;
          (rs, ret, add) = ranges_add_loop f t 0 rang None True
      in if rw \<and> add
         then (rs @ [\<lparr>rfrom = f, rto = t, rdata = None, datalen = 0\<rparr>], Some (length rs), True)
         else (rs, ret, False))"

text \<open>
  \<^verbatim>\<open>ranges_new\<close> parses \<^verbatim>\<open>a-b,c,...\<close>. \<open>p\<close> is the text of the current token, \<open>p2\<close> the one before the
  last \<^verbatim>\<open>-\<close>. \<^verbatim>\<open>get_offset\<close> evaluates a token; the last component lists the arguments of the calls of
  \<^verbatim>\<open>ranges_new_callback\<close>.
\<close>

definition ranges_new_add ::
  "(string \<Rightarrow> ut64) \<Rightarrow> string \<Rightarrow> string option \<Rightarrow> range_t list \<Rightarrow> range_t list \<times> nat option" where
  "ranges_new_add get_offset p p2 rgs =
     (let (rs, ret, c) = (case p2 of
            Some q \<Rightarrow> ranges_add rgs (get_offset p) (get_offset q) True
          | None \<Rightarrow> ranges_add rgs (get_offset p) (get_offset p + 1) True)
      in (rs, ret))"

fun ranges_new_loop ::
  "(string \<Rightarrow> ut64) \<Rightarrow> string \<Rightarrow> string \<Rightarrow> string option \<Rightarrow> range_t list \<Rightarrow> nat option list
    \<Rightarrow> range_t list \<times> nat option list" where
  "ranges_new_loop g [] p p2 rgs calls =
     (let (rs, ret) = ranges_new_add g p p2 rgs in (rs, calls @ [ret]))"
| "ranges_new_loop g (c # cs) p p2 rgs calls =
     (if c = CHR ''-'' then ranges_new_loop g cs [] (Some p) rgs calls
      else if c = CHR '','' then
        (let (rs, ret) = ranges_new_add g p p2 rgs
         in ranges_new_loop g cs [] None rs (calls @ [ret]))
      else ranges_new_loop g cs (p @ [c]) p2 rgs calls)"

definition ranges_new :: "(string \<Rightarrow> ut64) \<Rightarrow> string \<Rightarrow> range_t list \<times> nat option list" where
  "ranges_new get_offset string = ranges_new_loop get_offset string [] None [] []"

text \<open>
  \<^verbatim>\<open>ranges_sub\<close> scans the list; deleting or splitting an entry restarts the scan (\<^verbatim>\<open>goto __reloop\<close>).
  One scan ends with the list (\<open>Inl\<close>) or asks for a restart (\<open>Inr\<close>, with the value it gave
  \<^verbatim>\<open>ranges_changed\<close>).
\<close>

definition ranges_sub_update :: "ut64 \<Rightarrow> ut64 \<Rightarrow> range_t \<Rightarrow> range_t" where
  "ranges_sub_update from to r =
     (if rfrom r < from \<and> rfrom r < to \<and> rto r > from \<and> rto r < to then r\<lparr>rto := from\<rparr>
      else if rfrom r > from \<and> rfrom r < to \<and> rto r > from \<and> rto r > to then r\<lparr>rfrom := to\<rparr>
      else r)"

definition sub_deletes :: "ut64 \<Rightarrow> ut64 \<Rightarrow> range_t \<Rightarrow> bool" where
  "sub_deletes from to r \<longleftrightarrow> rfrom r > from \<and> rfrom r < to \<and> rto r > from \<and> rto r < to"

definition sub_splits :: "ut64 \<Rightarrow> ut64 \<Rightarrow> range_t \<Rightarrow> bool" where
  "sub_splits from to r \<longleftrightarrow> rfrom r < from \<and> rfrom r < to \<and> rto r > from \<and> rto r > to"

fun ranges_sub_scan ::
  "ut64 \<Rightarrow> ut64 \<Rightarrow> range_t list \<Rightarrow> range_t list \<Rightarrow> range_t list + (range_t list \<times> bool)" where
  "ranges_sub_scan from to pre [] = Inl pre"
| "ranges_sub_scan from to pre (r # rs) =
     (let r1 = ranges_sub_update from to r in
      if sub_deletes from to r1 then Inr (pre @ rs, True)
      else if sub_splits from to r1 then
        (let r2 = r1\<lparr>rto := from\<rparr>;
             (xs, ret, c) = ranges_add (pre @ r2 # rs) to (rto r2) True
         in Inr (xs, c))
      else ranges_sub_scan from to (pre @ [r1]) rs)"

partial_function (option) ranges_sub_loop ::
  "ut64 \<Rightarrow> ut64 \<Rightarrow> range_t list \<Rightarrow> bool \<Rightarrow> (range_t list \<times> bool) option" where
  "ranges_sub_loop from to xs chg =
     (case ranges_sub_scan from to [] xs of
        Inl ys \<Rightarrow> Some (ys, chg)
      | Inr (ys, c) \<Rightarrow> ranges_sub_loop from to ys (chg \<or> c))"

declare ranges_sub_loop.simps [code]

definition ranges_sub :: "range_t list \<Rightarrow> ut64 \<Rightarrow> ut64 \<Rightarrow> (range_t list \<times> bool) option" where
  "ranges_sub rang from to = (let (f, t) = ranges_abs from to in ranges_sub_loop f t rang False)"

text \<open>
  \<^verbatim>\<open>ranges_merge(rang)\<close> adds every entry of the global list to \<^verbatim>\<open>rang\<close> without ever appending; with
  \<^verbatim>\<open>NULL\<close>, which stands for the global list, it reads the entries it has already updated.
\<close>

fun ranges_merge_self :: "nat \<Rightarrow> nat \<Rightarrow> range_t list \<Rightarrow> range_t list" where
  "ranges_merge_self i 0 xs = xs"
| "ranges_merge_self i (Suc n) xs =
     ranges_merge_self (Suc i) n (fst (ranges_add xs (rfrom (xs ! i)) (rto (xs ! i)) False))"

fun ranges_merge_into :: "range_t list \<Rightarrow> range_t list \<Rightarrow> range_t list" where
  "ranges_merge_into rang [] = rang"
| "ranges_merge_into rang (r # rs) =
     ranges_merge_into (fst (ranges_add rang (rfrom r) (rto r) False)) rs"

definition ranges_merge :: "range_t list option \<Rightarrow> range_t list \<Rightarrow> range_t list" where
  "ranges_merge rang glob =
     (case rang of
        None \<Rightarrow> ranges_merge_self 0 (length glob) glob
      | Some xs \<Rightarrow> ranges_merge_into xs glob)"

fun ranges_is_used :: "range_t list \<Rightarrow> ut64 \<Rightarrow> bool" where
  "ranges_is_used [] addr = False"
| "ranges_is_used (r # rs) addr =
     (if addr \<ge> rfrom r \<and> addr \<le> rto r then True else ranges_is_used rs addr)"

text \<open>
  \<^verbatim>\<open>ranges_sort\<close>: two nested \<^verbatim>\<open>list_for_each_safe\<close> loops over the list that the inner body reorders with
  \<^verbatim>\<open>list_move(pos, pos2)\<close>. The nodes are named by their positions at entry, \<open>None\<close> is the list head,
  \<open>list_next\<close> follows the link, \<open>move_after x p\<close> takes \<open>x\<close> out and puts it behind \<open>p\<close>.
\<close>

definition move_after :: "'a \<Rightarrow> 'a \<Rightarrow> 'a list \<Rightarrow> 'a list" where
  "move_after x p xs =
     (let ys = remove1 x xs in takeWhile (\<lambda>y. y \<noteq> p) ys @ p # x # tl (dropWhile (\<lambda>y. y \<noteq> p) ys))"

fun list_next :: "'a list \<Rightarrow> 'a option \<Rightarrow> 'a option" where
  "list_next xs None = (case xs of [] \<Rightarrow> None | x # _ \<Rightarrow> Some x)"
| "list_next xs (Some a) =
     (case dropWhile (\<lambda>x. x \<noteq> a) xs of _ # b # _ \<Rightarrow> Some b | _ \<Rightarrow> None)"

partial_function (option) ranges_sort_inner ::
  "('a \<Rightarrow> ut64) \<Rightarrow> 'a \<Rightarrow> 'a option \<Rightarrow> 'a option \<Rightarrow> 'a list \<Rightarrow> bool \<Rightarrow> ('a list \<times> bool) option" where
  "ranges_sort_inner key r pos2 n2 xs ch =
     (case pos2 of
        None \<Rightarrow> Some (xs, ch)
      | Some r2 \<Rightarrow>
          (let (xs', ch') = (if r \<noteq> r2 \<and> key r > key r2 then (move_after r r2 xs, True) else (xs, ch))
           in ranges_sort_inner key r n2 (list_next xs' n2) xs' ch'))"

declare ranges_sort_inner.simps [code]

partial_function (option) ranges_sort_outer ::
  "('a \<Rightarrow> ut64) \<Rightarrow> 'a option \<Rightarrow> 'a option \<Rightarrow> 'a list \<Rightarrow> bool \<Rightarrow> ('a list \<times> bool) option" where
  "ranges_sort_outer key pos n xs ch =
     (case pos of
        None \<Rightarrow> Some (xs, ch)
      | Some r \<Rightarrow>
          Option.bind
            (ranges_sort_inner key r (list_next xs None) (list_next xs (list_next xs None)) xs ch)
            (\<lambda>(xs', ch'). ranges_sort_outer key n (list_next xs' n) xs' ch'))"

declare ranges_sort_outer.simps [code]

definition ranges_sort :: "ranges_state \<Rightarrow> (ranges_state \<times> bool) option" where
  "ranges_sort st =
     (if \<not> ranges_changed st then Some (st, False)
      else let rs = ranges st; ns = [0..<length rs] in
        Option.bind
          (ranges_sort_outer (\<lambda>i. rfrom (rs ! i)) (list_next ns None) (list_next ns (list_next ns None)) ns False)
          (\<lambda>(ns', ch). Some (st\<lparr>ranges := map (\<lambda>i. rs ! i) ns', ranges_changed := ch\<rparr>, ch)))"

text \<open>\<^verbatim>\<open>ranges_percent\<close>: the bounds, then 65 columns, each a test of \<^verbatim>\<open>ranges_is_used\<close>.\<close>

fun ranges_bounds :: "range_t list \<Rightarrow> ut64 \<Rightarrow> ut64 \<Rightarrow> ut64 \<times> ut64" where
  "ranges_bounds [] from to = (from, to)"
| "ranges_bounds (r # rs) from to =
     (if from = UT64_MAX then ranges_bounds rs (rfrom r) (rto r)
      else ranges_bounds rs (if from > rfrom r then rfrom r else from)
             (if to < rto r then rto r else to))"

fun percent_columns :: "range_t list \<Rightarrow> nat \<Rightarrow> ut64 \<Rightarrow> ut64 \<Rightarrow> out_event list" where
  "percent_columns rs 0 seek step = []"
| "percent_columns rs (Suc n) seek step =
     (if ranges_is_used rs seek then ConsOut ''#'' else ConsOut ''.'')
       # percent_columns rs n (seek + step) step"

definition ranges_percent :: "range_t list \<Rightarrow> out_event list" where
  "ranges_percent rs =
     (let (from0, to0) = ranges_bounds rs UT64_MAX UT64_MAX;
          w = 65;
          (from, to, step) =
            (if from0 = UT64_MAX then (0, 0, 0)
             else let dif = to0 - from0
                  in (from0, to0, if dif < of_nat w then 1 else dif div of_nat w))
      in [ConsOut (hex_0x from @ '' ['')] @ percent_columns rs w 0 step
           @ [ConsOut (''] '' @ hex_0x to @ nl)])"

fun ranges_list_loop :: "bool \<Rightarrow> range_t list \<Rightarrow> ut64 \<Rightarrow> out_event list \<times> ut64" where
  "ranges_list_loop rad [] tot = ([], tot)"
| "ranges_list_loop rad (r # rs) tot =
     (let line = (if rad then ''ar+ '' @ hex_0x (rfrom r) @ '' '' @ hex_0x (rto r) @ nl
                  else hex_0x (rfrom r) @ '' '' @ hex_0x (rto r) @ '' ; ''
                         @ fmt_d (sint (rto r - rfrom r)) @ nl);
          (out, sm) = ranges_list_loop rad rs (tot + (rto r - rfrom r))
      in (ConsOut line # out, sm))"

definition ranges_list :: "bool \<Rightarrow> ranges_state \<Rightarrow> (ranges_state \<times> out_event list) option" where
  "ranges_list rad st =
     Option.bind (ranges_sort st) (\<lambda>(st', ch).
       let (out, tot) = ranges_list_loop rad (ranges st') 0
       in Some (st', out @ [ErrOut (''Total bytes: '' @ fmt_d (sint tot) @ nl)]))"

text \<open>\<^verbatim>\<open>ranges_get_n\<close> returns 0 and leaves its out parameters alone when there is no such entry.\<close>

fun ranges_get_n_loop :: "int \<Rightarrow> int \<Rightarrow> range_t list \<Rightarrow> (ut64 \<times> ut64) option" where
  "ranges_get_n_loop n cnt [] = None"
| "ranges_get_n_loop n cnt (r # rs) =
     (if cnt = n then Some (rfrom r, rto r) else ranges_get_n_loop n (cnt + 1) rs)"

definition ranges_get_n :: "int \<Rightarrow> ranges_state \<Rightarrow> (ranges_state \<times> (ut64 \<times> ut64) option) option" where
  "ranges_get_n n st =
     Option.bind (ranges_sort st) (\<lambda>(st', ch). Some (st', ranges_get_n_loop n 0 (ranges st')))"

text \<open>\<^verbatim>\<open>ranges_boolean\<close>: the gaps it prints and the lower bound it ends with.\<close>

fun boolean_gaps :: "ut64 \<Rightarrow> ut64 \<Rightarrow> range_t list \<Rightarrow> (ut64 \<times> ut64) list" where
  "boolean_gaps from to [] = (if from < to then [(from, to)] else [])"
| "boolean_gaps from to (r # rs) =
     (if rfrom r > from \<and> rfrom r < to then (from, rfrom r) # boolean_gaps (rto r) to rs
      else boolean_gaps from to rs)"

definition ranges_boolean ::
  "ut64 \<Rightarrow> ut64 \<Rightarrow> int \<Rightarrow> ranges_state \<Rightarrow> (ranges_state \<times> out_event list) option" where
  "ranges_boolean from to flags st =
     Option.bind (ranges_sort st) (\<lambda>(st', ch).
       let gaps = boolean_gaps from to (ranges st');
           tot = sum_list (map (\<lambda>(a, b). b - a) gaps)
       in Some (st',
            [ErrOut (''; ranges from '' @ hex_0x from @ '' to '' @ hex_0x to
                       @ '' (flags='' @ fmt_d flags @ '')'' @ nl)]
            @ map (\<lambda>(a, b). ConsOut (hex_0x a @ '' .. '' @ hex_0x b @ nl)) gaps
            @ [ErrOut (''Total bytes: '' @ fmt_d (sint tot) @ nl)]))"

text \<open>
  The command \<^verbatim>\<open>ar\<close>. \<open>get_math\<close> evaluates an expression, \<open>cfg\<close> and \<open>cfg_i\<close> read the configuration.
\<close>

definition ranges_help :: "string list" where
  "ranges_help =
     [''Usage: ar[b] [args]'',
      ''ar                ; show all ranges'',
      ''ar%               ; show ranges in a visual percentage'',
      ''ar*               ; show ranges in radare commands'',
      ''arm               ; merge ranges (optimize linked list)'',
      ''arb [[from] [to]] ; boolean ranges against'',
      ''arb% [[from] [to]]; boolean ranges against in visual pcent'',
      ''ar+ [from] [to]   ; add new range'',
      ''ar- [from] [to]   ; drop range'',
      ''ar-*              ; reset range tables'',
      '' ; range.from     ; default boolean from address'',
      '' ; range.to       ; default boolean to address'',
      ''ari               ; import ranges from:'',
      '' ; range.traces   ; (true) join trace information (at?)'',
      '' ; range.graphs   ; (true) join graph information (g?)'',
      '' ; range.functions; (true) join functions information (CF)'',
      '' ; e range.       ; show range config vars'']"

definition skip_space :: "string \<Rightarrow> string" where
  "skip_space a = (case a of c # cs \<Rightarrow> if c = CHR '' '' then cs else a | [] \<Rightarrow> a)"

definition ranges_cmd ::
  "(string \<Rightarrow> ut64) \<Rightarrow> (string \<Rightarrow> bool) \<Rightarrow> (string \<Rightarrow> ut64) \<Rightarrow> string \<Rightarrow> ranges_state
    \<Rightarrow> (ranges_state \<times> out_event list) option" where
  "ranges_cmd get_math cfg cfg_i arg st =
     (let c = (case arg of [] \<Rightarrow> CHR 0x00 | x # _ \<Rightarrow> x); a = drop 1 arg in
      if c = CHR ''?'' then Some (st, map (\<lambda>l. ErrOut (l @ nl)) ranges_help)
      else if c = CHR ''i'' then
        (let flags = ranges_get_flags cfg in
         Some (st, (if and flags RANGE_TRACES \<noteq> 0 then [RadareCmd ''.atr*''] else [])
                 @ (if and flags RANGE_GRAPHS \<noteq> 0 then [RadareCmd ''.gr*''] else [])
                 @ (if and flags RANGE_FUNCTIONS \<noteq> 0 then [RadareCmd ''.CF*''] else [])))
      else if c = CHR ''m'' then Some (st\<lparr>ranges := ranges_merge None (ranges st)\<rparr>, [])
      else if c = CHR ''+'' then
        (case strchr_split CHR '' '' (skip_space a) of
           Some (f, t) \<Rightarrow>
             (let (rs, ret, ch) = ranges_add (ranges st) (get_math f) (get_math t) True
              in Some (st\<lparr>ranges := rs, ranges_changed := ranges_changed st \<or> ch\<rparr>, []))
         | None \<Rightarrow> Some (st, [ErrOut (''Usage: ar+ [from] [to]'' @ nl)]))
      else if c = CHR ''%'' then Some (st, ranges_percent (ranges st))
      else if c = CHR ''-'' then
        (if take 1 a = ''*'' then Some (ranges_free st, [])
         else case strchr_split CHR '' '' (skip_space a) of
           Some (f, t) \<Rightarrow>
             Option.bind (ranges_sub (ranges st) (get_math f) (get_math t)) (\<lambda>(rs, ch).
               Some (st\<lparr>ranges := rs, ranges_changed := ranges_changed st \<or> ch\<rparr>, []))
         | None \<Rightarrow> Some (st, [ErrOut (''Usage: ar- [from] [to]'' @ nl)]))
      else if c = CHR ''b'' then
        (let (from, to) =
           (case strchr_split CHR '' '' a of
              Some (f, t) \<Rightarrow> (get_math f, get_math t)
            | None \<Rightarrow> (cfg_i ''range.from'', cfg_i ''range.to''))
         in ranges_boolean from to (ranges_get_flags cfg) st)
      else if c = CHR ''*'' then ranges_list True st
      else ranges_list False st)"

section \<open>Ranges as sets of addresses\<close>

definition rng :: "range_t \<Rightarrow> ut64 set" where
  "rng r = {rfrom r..<rto r}"

definition addrs :: "range_t list \<Rightarrow> ut64 set" where
  "addrs xs = (\<Union>r \<in> set xs. rng r)"

definition wf_ranges :: "range_t list \<Rightarrow> bool" where
  "wf_ranges xs \<longleftrightarrow> (\<forall>r \<in> set xs. rfrom r \<le> rto r)"

abbreviation add_matches :: "ut64 \<Rightarrow> ut64 \<Rightarrow> range_t \<Rightarrow> bool" where
  "add_matches f t r \<equiv> snd (snd (ranges_add_entry f t r))"

abbreviation add_result :: "ut64 \<Rightarrow> ut64 \<Rightarrow> range_t \<Rightarrow> range_t" where
  "add_result f t r \<equiv> fst (ranges_add_entry f t r)"

lemma addrs_simps [simp, seg_simps]:
  "addrs [] = {}" "addrs (r # rs) = rng r \<union> addrs rs" "addrs (xs @ ys) = addrs xs \<union> addrs ys"
  by (auto simp: addrs_def)

lemma ranges_abs_le: "ranges_abs f t = (f', t') \<Longrightarrow> f' \<le> t'"
  by (auto simp: ranges_abs_def split: if_splits)

lemma ranges_abs_minmax: "ranges_abs f t = (min f t, max f t)"
  by (auto simp: ranges_abs_def min_def max_def)

text \<open>The range an entry overlaps or touches is added to it; any other entry is left alone.\<close>

lemma rng_add_result:
  "f \<le> t \<Longrightarrow> add_matches f t r \<Longrightarrow> rng (add_result f t r) = rng r \<union> {f..<t}"
  by (auto simp: ranges_add_entry_def rng_def split: if_splits)

lemma add_result_other: "\<not> add_matches f t r \<Longrightarrow> add_result f t r = r"
  by (auto simp: ranges_add_entry_def split: if_splits)

lemma add_result_wf: "f \<le> t \<Longrightarrow> rfrom r \<le> rto r \<Longrightarrow> rfrom (add_result f t r) \<le> rto (add_result f t r)"
  by (auto simp: ranges_add_entry_def)

lemma add_matches_self: "rfrom r \<le> rto r \<Longrightarrow> add_matches (rfrom r) (rto r) r"
  by (simp add: ranges_add_entry_def)

lemma ranges_add_loop_eq:
  "\<exists>ret'. ranges_add_loop f t i xs ret add =
     (map (add_result f t) xs, ret', add \<and> (\<forall>r \<in> set xs. \<not> add_matches f t r))"
proof (induction xs arbitrary: i ret add)
  case (Cons r xs)
  obtain r' s m where e: "ranges_add_entry f t r = (r', s, m)" by (cases "ranges_add_entry f t r")
  obtain ret' where "ranges_add_loop f t (Suc i) xs (if s then Some i else ret) (add \<and> \<not> m) =
      (map (add_result f t) xs, ret', (add \<and> \<not> m) \<and> (\<forall>r \<in> set xs. \<not> add_matches f t r))"
    using Cons.IH by blast
  with e show ?case by auto
qed simp

lemma ranges_add_eq:
  "\<exists>ret. ranges_add xs a b rw =
     (let f = min a b; t = max a b; ys = map (add_result f t) xs in
      if rw \<and> (\<forall>r \<in> set xs. \<not> add_matches f t r)
      then (ys @ [\<lparr>rfrom = f, rto = t, rdata = None, datalen = 0\<rparr>], Some (length ys), True)
      else (ys, ret, False))"
  using ranges_add_loop_eq [of "min a b" "max a b" 0 xs None True]
  by (auto simp: ranges_add_def ranges_abs_minmax Let_def)

lemma ranges_add_fst:
  "fst (ranges_add xs a b rw) = map (add_result (min a b) (max a b)) xs @
     (if rw \<and> (\<forall>r \<in> set xs. \<not> add_matches (min a b) (max a b) r)
      then [\<lparr>rfrom = min a b, rto = max a b, rdata = None, datalen = 0\<rparr>] else [])"
  using ranges_add_eq [of xs a b rw] by (auto simp: Let_def)

lemma min_le_max: "min a b \<le> max a (b :: ut64)"
  by (auto simp: min_def max_def not_le less_imp_le)

lemma addrs_map_add_result:
  assumes "f \<le> t"
  shows "addrs (map (add_result f t) xs) =
     addrs xs \<union> (if \<exists>r \<in> set xs. add_matches f t r then {f..<t} else {})"
proof (induction xs)
  case (Cons r xs)
  show ?case
    by (cases "add_matches f t r") (use Cons assms in \<open>auto simp: rng_add_result add_result_other\<close>)
qed simp

lemma ranges_add_addrs:
  "addrs (fst (ranges_add xs a b rw)) =
     addrs xs \<union> (if rw \<or> (\<exists>r \<in> set xs. add_matches (min a b) (max a b) r)
                 then {min a b..<max a b} else {})"
  by (auto simp: ranges_add_fst addrs_map_add_result [OF min_le_max] rng_def split: if_splits)

lemma ranges_add_wf: "wf_ranges xs \<Longrightarrow> wf_ranges (fst (ranges_add xs a b rw))"
  by (auto simp: ranges_add_fst wf_ranges_def min_le_max intro!: add_result_wf split: if_splits)

lemma ranges_add_length: "\<not> rw \<Longrightarrow> length (fst (ranges_add xs a b rw)) = length xs"
  by (simp add: ranges_add_fst)

section \<open>Lookup and size\<close>

lemma ranges_get_find: "ranges_get xs a = List.find (\<lambda>r. a \<in> rng r) xs"
  by (induction xs) (auto simp: rng_def)

lemma ranges_get_None: "ranges_get xs a = None \<longleftrightarrow> a \<notin> addrs xs"
  by (auto simp: ranges_get_find find_None_iff addrs_def)

lemma ranges_get_Some: "ranges_get xs a = Some r \<Longrightarrow> r \<in> set xs \<and> a \<in> rng r"
  by (auto simp: ranges_get_find dest: find_SomeD)

lemma ranges_size_loop_eq: "ranges_size_loop xs s = s + sum_list (map (\<lambda>r. rto r - rfrom r) xs)"
  by (induction xs arbitrary: s) (auto simp: add.assoc)

lemma card_rng: "rfrom r \<le> rto r \<Longrightarrow> card (rng r) = unat (rto r - rfrom r)"
proof -
  assume le: "rfrom r \<le> rto r"
  have "rng r = word_of_nat ` {unat (rfrom r)..<unat (rto r)}" (is "_ = ?g ` ?N")
  proof (rule set_eqI)
    fix x
    show "x \<in> rng r \<longleftrightarrow> x \<in> ?g ` ?N"
    proof
      assume "x \<in> rng r"
      then have "unat x \<in> ?N" by (auto simp: rng_def word_le_nat_alt word_less_nat_alt)
      then show "x \<in> ?g ` ?N" by (intro image_eqI [of _ _ "unat x"]) auto
    next
      assume "x \<in> ?g ` ?N"
      then obtain n where n: "x = word_of_nat n" "unat (rfrom r) \<le> n" "n < unat (rto r)" by auto
      have "n < 2 ^ 64" using n(3) unsigned_less [of "rto r", where ?'a = nat] by simp
      then have "unat x = n" using n(1) by (simp add: unat_of_nat take_bit_nat_eq_self)
      with n show "x \<in> rng r" by (simp add: rng_def word_le_nat_alt word_less_nat_alt)
    qed
  qed
  moreover have "inj_on ?g ?N"
  proof (rule inj_onI)
    fix m n assume mn: "m \<in> ?N" "n \<in> ?N" "?g m = ?g n"
    have "m < 2 ^ 64" "n < 2 ^ 64"
      using mn(1,2) unsigned_less [of "rto r", where ?'a = nat] by auto
    moreover have "unat (?g m :: ut64) = unat (?g n :: ut64)" using mn(3) by simp
    ultimately show "m = n" by (simp add: unat_of_nat take_bit_nat_eq_self)
  qed
  ultimately show ?thesis using le by (simp add: card_image unat_sub)
qed

section \<open>Subtraction\<close>

text \<open>
  What the scan does when it reaches the end of the list, and why restarting it ends: every restart
  shortens the list or lowers the number of entries that still are to be split.
\<close>

definition sub_measure :: "ut64 \<Rightarrow> ut64 \<Rightarrow> range_t list \<Rightarrow> nat" where
  "sub_measure f t xs = length xs + length (filter (sub_splits f t) xs)"

lemmas sub_defs = ranges_sub_update_def sub_deletes_def sub_splits_def

lemma sub_splits_update: "f \<le> t \<Longrightarrow> sub_splits f t (ranges_sub_update f t r) \<Longrightarrow> sub_splits f t r"
  by (auto simp: sub_defs split: if_splits)

lemma sub_splits_add_result: "f \<le> t \<Longrightarrow> sub_splits f t (add_result f t r) \<Longrightarrow> sub_splits f t r"
  by (auto simp: sub_defs ranges_add_entry_def split: if_splits)

lemma filter_length_mono:
  "(\<And>x. x \<in> set xs \<Longrightarrow> P (g x) \<Longrightarrow> Q x) \<Longrightarrow> length (filter P (map g xs)) \<le> length (filter Q xs)"
  by (induction xs) auto

lemma ranges_sub_scan_Inl:
  "ranges_sub_scan f t pre xs = Inl ys \<Longrightarrow>
     ys = pre @ map (ranges_sub_update f t) xs \<and>
     (\<forall>r \<in> set xs. \<not> sub_deletes f t (ranges_sub_update f t r) \<and> \<not> sub_splits f t (ranges_sub_update f t r))"
  by (induction f t pre xs rule: ranges_sub_scan.induct) (auto simp: Let_def split: if_splits prod.splits)

text \<open>A restart comes from one entry: it was deleted, or it was cut at \<^verbatim>\<open>from\<close> and \<^verbatim>\<open>ranges_add\<close> ran.\<close>

lemma ranges_sub_scan_Inr:
  "ranges_sub_scan f t pre xs = Inr (ys, c) \<Longrightarrow>
     \<exists>us r vs. xs = us @ r # vs \<and>
       (let p = pre @ map (ranges_sub_update f t) us; r1 = ranges_sub_update f t r in
        (sub_deletes f t r1 \<and> ys = p @ vs) \<or>
        (sub_splits f t r1 \<and> ys = fst (ranges_add (p @ r1\<lparr>rto := f\<rparr> # vs) t f True)))"
proof (induction f t pre xs rule: ranges_sub_scan.induct)
  case (2 f t pre r rs)
  let ?r1 = "ranges_sub_update f t r"
  consider "sub_deletes f t ?r1" | "\<not> sub_deletes f t ?r1" "sub_splits f t ?r1"
    | "\<not> sub_deletes f t ?r1" "\<not> sub_splits f t ?r1" by blast
  then show ?case
  proof cases
    case 3
    with "2.prems" have "ranges_sub_scan f t (pre @ [?r1]) rs = Inr (ys, c)" by (simp add: Let_def)
    from "2.IH" [OF refl 3 this] obtain us r' vs where
      "rs = us @ r' # vs" and *: "let p = (pre @ [?r1]) @ map (ranges_sub_update f t) us;
        r1 = ranges_sub_update f t r' in (sub_deletes f t r1 \<and> ys = p @ vs) \<or>
        (sub_splits f t r1 \<and> ys = fst (ranges_add (p @ r1\<lparr>rto := f\<rparr> # vs) t f True))" by blast
    then show ?thesis by (intro exI [of _ "r # us"] exI [of _ r'] exI [of _ vs]) simp
  qed (use "2.prems" in \<open>intro exI [of _ "[]"] exI [of _ r] exI [of _ rs];
        force simp: Let_def split: prod.splits\<close>)+
qed simp

lemma ranges_sub_scan_split_add:
  assumes "f \<le> t" and "sub_splits f t r"
  shows "fst (ranges_add (p @ r\<lparr>rto := f\<rparr> # vs) t f True) = map (add_result f t) (p @ r\<lparr>rto := f\<rparr> # vs)"
proof -
  have mm: "min t f = f" "max t f = t" using assms(1) by (auto simp: min_def max_def)
  have "add_matches f t (r\<lparr>rto := f\<rparr>)"
    using assms by (auto simp: ranges_add_entry_def sub_splits_def)
  then show ?thesis by (simp add: ranges_add_fst mm)
qed

lemma sub_measure_decreases:
  assumes le: "f \<le> t" and r: "ranges_sub_scan f t [] xs = Inr (ys, c)"
  shows "sub_measure f t ys < sub_measure f t xs"
proof -
  let ?u = "ranges_sub_update f t" and ?s = "sub_splits f t"
  from ranges_sub_scan_Inr [OF r] obtain us x vs where xs: "xs = us @ x # vs"
    and ys: "(sub_deletes f t (?u x) \<and> ys = map ?u us @ vs) \<or>
      (?s (?u x) \<and> ys = fst (ranges_add (map ?u us @ (?u x)\<lparr>rto := f\<rparr> # vs) t f True))"
    by (auto simp: Let_def)
  have us: "length (filter ?s (map ?u us)) \<le> length (filter ?s us)"
    by (rule filter_length_mono) (rule sub_splits_update [OF le])
  from ys show ?thesis
  proof
    assume "sub_deletes f t (?u x) \<and> ys = map ?u us @ vs"
    with xs us show ?thesis by (simp add: sub_measure_def)
  next
    assume sp: "?s (?u x) \<and> ys = fst (ranges_add (map ?u us @ (?u x)\<lparr>rto := f\<rparr> # vs) t f True)"
    let ?zs = "map ?u us @ (?u x)\<lparr>rto := f\<rparr> # vs"
    have "ys = map (add_result f t) ?zs"
      using sp ranges_sub_scan_split_add [OF le, of "?u x" "map ?u us" vs] by simp
    moreover have "length (filter ?s (map (add_result f t) ?zs)) \<le> length (filter ?s ?zs)"
      by (rule filter_length_mono) (rule sub_splits_add_result [OF le])
    moreover have "?s x" using sp sub_splits_update [OF le] by blast
    moreover have "\<not> ?s ((?u x)\<lparr>rto := f\<rparr>)" by (simp add: sub_splits_def)
    ultimately show ?thesis using xs us by (simp add: sub_measure_def)
  qed
qed

lemma ranges_sub_loop_unfold:
  "ranges_sub_scan f t [] xs = Inl ys \<Longrightarrow> ranges_sub_loop f t xs chg = Some (ys, chg)"
  "ranges_sub_scan f t [] xs = Inr (ys, c) \<Longrightarrow> ranges_sub_loop f t xs chg = ranges_sub_loop f t ys (chg \<or> c)"
  by (subst ranges_sub_loop.simps; simp)+

text \<open>
  Induction over the restarts: a property of lists that every restart keeps, and that gives the
  conclusion for a scan that ends, gives the conclusion for the result, which exists.
\<close>

lemma ranges_sub_loop_rule:
  assumes le: "f \<le> t" and I: "I xs"
    and step: "\<And>xs ys c. I xs \<Longrightarrow> ranges_sub_scan f t [] xs = Inr (ys, c) \<Longrightarrow> I ys"
    and post: "\<And>xs ys. I xs \<Longrightarrow> ranges_sub_scan f t [] xs = Inl ys \<Longrightarrow> Q ys"
  shows "\<exists>ys c. ranges_sub_loop f t xs chg = Some (ys, c) \<and> Q ys"
  using I
proof (induction "sub_measure f t xs" arbitrary: xs chg rule: less_induct)
  case less
  show ?case
  proof (cases "ranges_sub_scan f t [] xs")
    case (Inl ys)
    then show ?thesis using post [OF less.prems] by (auto simp: ranges_sub_loop_unfold(1))
  next
    case (Inr p)
    then obtain ys c where p: "ranges_sub_scan f t [] xs = Inr (ys, c)" by (cases p) auto
    with less.hyps [OF sub_measure_decreases [OF le p] step [OF less.prems p]]
    show ?thesis by (auto simp: ranges_sub_loop_unfold(2))
  qed
qed

lemma rng_update_subset: "rng (ranges_sub_update f t r) \<subseteq> rng r"
  by (auto simp: rng_def ranges_sub_update_def)

lemma addrs_map_update: "addrs (map (ranges_sub_update f t) xs) \<subseteq> addrs xs"
  using rng_update_subset by (fastforce simp: addrs_def)

text \<open>\<^verbatim>\<open>ranges_sub\<close> returns, and no address outside the subtracted range appears that was not there.\<close>

lemma ranges_sub_upper_loop:
  assumes le: "f \<le> t"
  shows "\<exists>ys c. ranges_sub_loop f t xs chg = Some (ys, c) \<and> addrs ys \<subseteq> addrs xs \<union> {f..<t}"
proof (rule ranges_sub_loop_rule [where I = "\<lambda>ys. addrs ys \<subseteq> addrs xs \<union> {f..<t}", OF le])
  fix us ys c
  assume I: "addrs us \<subseteq> addrs xs \<union> {f..<t}" and r: "ranges_sub_scan f t [] us = Inr (ys, c)"
  let ?u = "ranges_sub_update f t"
  have mm: "min t f = f" "max t f = t" using le by (auto simp: min_def max_def)
  from ranges_sub_scan_Inr [OF r] obtain as r bs where us: "us = as @ r # bs"
    and ys: "ys = map ?u as @ bs \<or> ys = fst (ranges_add (map ?u as @ (?u r)\<lparr>rto := f\<rparr> # bs) t f True)"
      "ys \<noteq> map ?u as @ bs \<longrightarrow> sub_splits f t (?u r)"
    by (auto simp: Let_def)
  have "addrs (map ?u as) \<union> addrs bs \<subseteq> addrs us" using us addrs_map_update [of f t as] by auto
  moreover have "sub_splits f t (?u r) \<Longrightarrow> rng ((?u r)\<lparr>rto := f\<rparr>) \<subseteq> addrs us"
    using us rng_update_subset [of f t r] by (auto simp: sub_splits_def rng_def)
  ultimately have "addrs ys \<subseteq> addrs us \<union> {f..<t}"
    using ys by (auto simp: ranges_add_addrs mm)
  with I show "addrs ys \<subseteq> addrs xs \<union> {f..<t}" by blast
next
  fix us ys
  assume I: "addrs us \<subseteq> addrs xs \<union> {f..<t}" and r: "ranges_sub_scan f t [] us = Inl ys"
  then show "addrs ys \<subseteq> addrs xs \<union> {f..<t}"
    using ranges_sub_scan_Inl [OF r] addrs_map_update [of f t us] by auto
qed simp

text \<open>
  Entries in general position towards the subtracted range: well formed, not strictly containing
  it, and, where they overlap it, not sharing its start or its end.
\<close>

definition sub_ok :: "ut64 \<Rightarrow> ut64 \<Rightarrow> range_t \<Rightarrow> bool" where
  "sub_ok f t r \<longleftrightarrow> rfrom r \<le> rto r \<and> \<not> sub_splits f t r \<and>
     (rng r \<inter> {f..<t} = {} \<or> rfrom r \<noteq> f \<and> rto r \<noteq> t)"

lemma overlap_iff: "rng r \<inter> {f..<t} = {} \<longleftrightarrow> \<not> (max (rfrom r) f < min (rto r) t)"
  by (auto simp: rng_def disjoint_iff not_less min_def max_def split: if_splits)

lemma sub_ok_update:
  assumes "f \<le> t" and "sub_ok f t r"
  shows "sub_ok f t (ranges_sub_update f t r)"
    and "rng (ranges_sub_update f t r) - {f..<t} = rng r - {f..<t}"
    and "\<not> sub_deletes f t (ranges_sub_update f t r) \<Longrightarrow> rng (ranges_sub_update f t r) \<inter> {f..<t} = {}"
    and "sub_deletes f t (ranges_sub_update f t r) \<Longrightarrow> rng (ranges_sub_update f t r) \<subseteq> {f..<t}"
proof -
  show "sub_ok f t (ranges_sub_update f t r)" using assms
    by (auto simp: sub_ok_def overlap_iff sub_defs min_def max_def split: if_splits)
  show "rng (ranges_sub_update f t r) - {f..<t} = rng r - {f..<t}" using assms
    by (auto simp: rng_def sub_defs split: if_splits)
  show "\<not> sub_deletes f t (ranges_sub_update f t r) \<Longrightarrow> rng (ranges_sub_update f t r) \<inter> {f..<t} = {}"
    using assms by (auto simp: sub_ok_def overlap_iff sub_defs min_def max_def split: if_splits)
  show "sub_deletes f t (ranges_sub_update f t r) \<Longrightarrow> rng (ranges_sub_update f t r) \<subseteq> {f..<t}"
    by (auto simp: rng_def sub_deletes_def)
qed

lemma addrs_update_ok:
  assumes "f \<le> t" and "\<forall>r \<in> set xs. sub_ok f t r"
  shows "addrs (map (ranges_sub_update f t) xs) - {f..<t} = addrs xs - {f..<t}"
  using assms(2) sub_ok_update(2) [OF assms(1)] by (induction xs) (auto simp: Un_Diff)

lemma ranges_sub_exact_loop:
  assumes le: "f \<le> t" and ok: "\<forall>r \<in> set xs. sub_ok f t r"
  shows "\<exists>ys c. ranges_sub_loop f t xs chg = Some (ys, c) \<and> addrs ys = addrs xs - {f..<t}"
proof (rule ranges_sub_loop_rule
    [where I = "\<lambda>ys. (\<forall>r \<in> set ys. sub_ok f t r) \<and> addrs ys - {f..<t} = addrs xs - {f..<t}", OF le])
  fix us ys c
  let ?u = "ranges_sub_update f t"
  assume I: "(\<forall>r \<in> set us. sub_ok f t r) \<and> addrs us - {f..<t} = addrs xs - {f..<t}"
    and r: "ranges_sub_scan f t [] us = Inr (ys, c)"
  from ranges_sub_scan_Inr [OF r] obtain as r bs where us: "us = as @ r # bs"
    and ys: "sub_deletes f t (?u r) \<and> ys = map ?u as @ bs \<or> sub_splits f t (?u r)"
    by (auto simp: Let_def)
  have "sub_ok f t r" and as: "\<forall>r \<in> set as. sub_ok f t r" using I us by auto
  note u = sub_ok_update [OF le this(1)]
  from u(1) ys have d: "sub_deletes f t (?u r)" "ys = map ?u as @ bs" by (auto simp: sub_ok_def)
  have "rng r - {f..<t} = {}" using u(2) u(4) [OF d(1)] by auto
  with d I us sub_ok_update(1) [OF le] addrs_update_ok [OF le as]
  show "(\<forall>r \<in> set ys. sub_ok f t r) \<and> addrs ys - {f..<t} = addrs xs - {f..<t}"
    by (auto simp: Un_Diff)
next
  fix us ys
  let ?u = "ranges_sub_update f t"
  assume I: "(\<forall>r \<in> set us. sub_ok f t r) \<and> addrs us - {f..<t} = addrs xs - {f..<t}"
    and r: "ranges_sub_scan f t [] us = Inl ys"
  from ranges_sub_scan_Inl [OF r] have ys: "ys = map ?u us" and d: "\<forall>r \<in> set us. \<not> sub_deletes f t (?u r)"
    by auto
  have "addrs ys \<inter> {f..<t} = {}" using I d ys sub_ok_update(3) [OF le] by (fastforce simp: addrs_def)
  moreover have "addrs ys - {f..<t} = addrs us - {f..<t}" using addrs_update_ok [OF le] I ys by auto
  ultimately show "addrs ys = addrs xs - {f..<t}" using I by auto
qed (use ok in auto)

text \<open>An entry that strictly contains the subtracted range only loses what lies behind that range.\<close>

lemma ranges_sub_contained:
  assumes "rfrom r < f" and "f \<le> t" and "t < rto r"
  shows "ranges_sub_loop f t [r] False = Some ([r\<lparr>rto := t\<rparr>], False)"
proof -
  have mm: "min t f = f" "max t f = t" using assms by (auto simp: min_def max_def)
  have up: "ranges_sub_update f t r = r" and sp: "sub_splits f t r" and nd: "\<not> sub_deletes f t r"
    using assms by (auto simp: sub_defs)
  have e: "ranges_add_entry f t (r\<lparr>rto := f\<rparr>) = (r\<lparr>rto := t\<rparr>, True, True)"
    using assms by (auto simp: ranges_add_entry_def)
  have a: "ranges_add [r\<lparr>rto := f\<rparr>] t f True = ([r\<lparr>rto := t\<rparr>], Some 0, False)"
    using assms by (simp add: ranges_add_def ranges_abs_minmax mm e)
  have 1: "ranges_sub_scan f t [] [r] = Inr ([r\<lparr>rto := t\<rparr>], False)"
    using a by (simp add: up sp nd Let_def)
  have 2: "ranges_sub_scan f t [] [r\<lparr>rto := t\<rparr>] = Inl [r\<lparr>rto := t\<rparr>]"
    using assms by (auto simp: sub_defs Let_def)
  show ?thesis using ranges_sub_loop_unfold(2) [OF 1] ranges_sub_loop_unfold(1) [OF 2] by simp
qed

section \<open>Merging\<close>

lemma ranges_add_member_addrs:
  assumes "r \<in> set xs" and "rfrom r \<le> rto r"
  shows "addrs (fst (ranges_add xs (rfrom r) (rto r) rw)) = addrs xs"
proof -
  have mm: "min (rfrom r) (rto r) = rfrom r" "max (rfrom r) (rto r) = rto r"
    using assms(2) by (auto simp: min_def max_def)
  have "rng r \<subseteq> addrs xs" using assms(1) by (auto simp: addrs_def)
  then show ?thesis by (auto simp: ranges_add_addrs mm rng_def)
qed

lemma ranges_merge_self_inv:
  "i + n \<le> length xs \<Longrightarrow> wf_ranges xs \<Longrightarrow>
     addrs (ranges_merge_self i n xs) = addrs xs \<and> wf_ranges (ranges_merge_self i n xs) \<and>
     length (ranges_merge_self i n xs) = length xs"
proof (induction i n xs rule: ranges_merge_self.induct)
  case (2 i n xs)
  let ?ys = "fst (ranges_add xs (rfrom (xs ! i)) (rto (xs ! i)) False)"
  have m: "xs ! i \<in> set xs" using "2.prems" by simp
  then have "addrs ?ys = addrs xs" using "2.prems"(2) by (intro ranges_add_member_addrs) (auto simp: wf_ranges_def)
  moreover have "length ?ys = length xs" by (simp add: ranges_add_length)
  ultimately show ?case using 2 ranges_add_wf [OF "2.prems"(2)] by simp
qed simp

section \<open>Size\<close>

definition disjoint_ranges :: "range_t list \<Rightarrow> bool" where
  "disjoint_ranges xs \<longleftrightarrow> sorted_wrt (\<lambda>r s. rng r \<inter> rng s = {}) xs"

lemma sum_sizes_card:
  assumes "wf_ranges xs" and "disjoint_ranges xs"
  shows "sum_list (map (\<lambda>r. rto r - rfrom r) xs) = word_of_nat (card (addrs xs))"
  using assms
proof (induction xs)
  case (Cons r xs)
  have "rng r \<inter> addrs xs = {}" using Cons.prems by (auto simp: disjoint_ranges_def addrs_def)
  moreover have "card (rng r) = unat (rto r - rfrom r)"
    using Cons.prems by (intro card_rng) (simp add: wf_ranges_def)
  ultimately have "card (addrs (r # xs)) = unat (rto r - rfrom r) + card (addrs xs)"
    by (simp add: card_Un_disjoint)
  with Cons show ?case by (simp add: wf_ranges_def disjoint_ranges_def)
qed simp

lemma card_addrs_bound: "card (addrs xs) < 2 ^ 64"
proof -
  have "addrs xs \<subseteq> UNIV - {- 1 :: ut64}"
    using word_order.extremum by (auto simp: addrs_def rng_def leD)
  then have "card (addrs xs) \<le> card (UNIV - {- 1 :: ut64})" by (intro card_mono) auto
  also have "\<dots> < card (UNIV :: ut64 set)" by (intro psubset_card_mono) auto
  finally show ?thesis by (simp add: card_word)
qed

section \<open>Gaps\<close>

definition separated :: "range_t list \<Rightarrow> bool" where
  "separated xs \<longleftrightarrow> sorted_wrt (\<lambda>r s. rto r < rfrom s) xs"

lemma boolean_gaps_addrs:
  assumes "wf_ranges xs" and "separated xs" and "\<forall>r \<in> set xs. a < rfrom r"
  shows "(\<Union>(x, y) \<in> set (boolean_gaps a b xs). {x..<y}) = {a..<b} - addrs xs"
  using assms
proof (induction xs arbitrary: a)
  case (Cons r xs)
  have wf: "wf_ranges xs" "rfrom r \<le> rto r" and sep: "separated xs"
    and after: "\<forall>s \<in> set xs. rto r < rfrom s" and ar: "a < rfrom r"
    using Cons.prems by (auto simp: wf_ranges_def separated_def)
  have out: "x \<notin> addrs xs" if "x \<le> rto r" for x
    using that after by (force simp: addrs_def rng_def)
  show ?case
  proof (cases "rfrom r < b")
    case True
    have "(\<Union>(x, y) \<in> set (boolean_gaps (rto r) b xs). {x..<y}) = {rto r..<b} - addrs xs"
      using Cons.IH [OF wf(1) sep after] .
    moreover have "{a..<rfrom r} \<union> ({rto r..<b} - addrs xs) = {a..<b} - (rng r \<union> addrs xs)"
      using True ar wf(2) out by (auto simp: rng_def)
    ultimately show ?thesis using True ar by simp
  next
    case False
    then have "{a..<b} - (rng r \<union> addrs xs) = {a..<b} - addrs xs" by (auto simp: rng_def)
    moreover have "\<forall>s \<in> set xs. a < rfrom s" using Cons.prems by simp
    ultimately show ?thesis using False Cons.IH [OF wf(1) sep] by simp
  qed
qed simp

section \<open>Sorting\<close>

text \<open>The three list operations around a known node of a list without repetitions.\<close>

lemma list_next_at:
  "distinct (B @ c # C) \<Longrightarrow> list_next (B @ c # C) (Some c) = (case C of [] \<Rightarrow> None | d # _ \<Rightarrow> Some d)"
  by (induction B) (auto split: list.splits)

lemma move_after_at:
  assumes "distinct (B @ s # C)" and "r \<noteq> s"
  shows "move_after r s (B @ s # C) = remove1 r B @ s # r # remove1 r C"
proof -
  have "remove1 r (B @ s # C) = remove1 r B @ s # remove1 r C"
    using assms by (cases "r \<in> set B") (auto simp: remove1_append remove1_idem disjoint_iff)
  moreover have "s \<notin> set (remove1 r B)" using assms(1) notin_set_remove1 by fastforce
  ultimately show ?thesis by (simp add: move_after_def Let_def)
qed

text \<open>\<^verbatim>\<open>list_move(pos, pos2)\<close> on the linked list is \<open>move_after\<close> on the sequence.\<close>

theorem dll_list_move_after:
  assumes l: "dll h head xs" and y: "y \<in> set xs" and p: "p \<in> set xs" and ne: "y \<noteq> p"
  shows "dll (list_move y p h) head (move_after y p xs)"
proof -
  obtain us vs where xs: "xs = us @ y # vs" using y by (meson split_list)
  let ?h1 = "list_del_between (prev_of h y) (next_of h y) h"
  have l1: "dll ?h1 head (us @ vs)"
    using dll_del_between [of h head us y vs] dll_neighbours [of h head us y vs] l xs by simp
  have d: "distinct (head # us @ y # vs)" "y \<noteq> NULL" using l xs by (auto simp: dll_def)
  have "p \<in> set (us @ vs)" using p ne xs by auto
  then obtain as bs where ab: "us @ vs = as @ p # bs" by (meson split_list)
  have ds: "distinct (as @ p # bs)" "y \<notin> set (as @ p # bs)" unfolding ab [symmetric] using d by auto
  have "next_of ?h1 p = hd (bs @ [head])" using dll_neighbours(2) [of ?h1 head as p bs] l1 ab by simp
  moreover have "dll (list_add_between y (last (head # (as @ [p]))) (hd (bs @ [head])) ?h1) head ((as @ [p]) @ y # bs)"
    by (rule dll_add_between) (use l1 ab d ds in auto)
  ultimately have "dll (list_move y p h) head (as @ p # y # bs)"
    by (simp add: list_move_def list_add_def)
  moreover have "y \<notin> set us" using d by simp
  then have "remove1 y xs = as @ p # bs" using xs ab by (simp add: remove1_append)
  moreover have "p \<notin> set as" using ds by simp
  ultimately show ?thesis by (simp add: move_after_def Let_def)
qed

text \<open>
  The inner loop. \<open>B\<close> is the part of the list the cursor has passed, \<open>C\<close> the part from the cursor
  on. Until a node with a smaller key is passed the list is the initial one; afterwards \<open>r\<close> stands
  right behind the last such node.
\<close>

definition placed :: "('a \<Rightarrow> ut64) \<Rightarrow> 'a \<Rightarrow> 'a list \<Rightarrow> 'a list \<Rightarrow> 'a list \<Rightarrow> bool" where
  "placed key r xs B L \<longleftrightarrow>
     remove1 r L = remove1 r xs \<and> distinct L \<and> r \<in> set L \<and>
     (if \<exists>s \<in> set B. key s < key r
      then \<exists>U s W. L = U @ s # r # W \<and> key s < key r \<and> (\<forall>w \<in> set W \<inter> set B. \<not> key w < key r)
      else L = xs)"

lemma placed_pass:
  assumes "placed key r xs B L" and "\<not> (r \<noteq> c \<and> key c < key r)"
  shows "placed key r xs (B @ [c]) L"
  using assms by (auto simp: placed_def split: if_splits)

lemma placed_move:
  assumes "placed key r xs B (B @ c # C)" and "r \<noteq> c" and "key c < key r"
  shows "placed key r xs (remove1 r B @ [c]) (remove1 r B @ c # r # remove1 r C)"
    and "placed key r xs (remove1 r B @ [c, r]) (remove1 r B @ c # r # remove1 r C)"
proof -
  have d: "distinct (B @ c # C)" and eq: "remove1 r (B @ c # C) = remove1 r xs" and r: "r \<in> set (B @ c # C)"
    using assms(1) by (auto simp: placed_def)
  have d': "distinct (remove1 r B @ c # r # remove1 r C)"
    using d assms(2) by (auto simp: distinct_remove1 dest: notin_set_remove1)
  have "r \<notin> set (remove1 r B)" "r \<notin> set (remove1 r C)" using d by auto
  then have eq': "remove1 r (remove1 r B @ c # r # remove1 r C) = remove1 r xs"
    using eq d assms(2) by (cases "r \<in> set B") (auto simp: remove1_append remove1_idem disjoint_iff)
  let ?L = "remove1 r B @ c # r # remove1 r C"
  have "\<forall>w \<in> set (remove1 r C) \<inter> set (remove1 r B @ [c, r]). \<not> key w < key r" using d' by auto
  with assms(3) have ex: "\<exists>U s W. ?L = U @ s # r # W \<and> key s < key r \<and>
      (\<forall>w \<in> set W \<inter> set (remove1 r B @ [c, r]). \<not> key w < key r)" by blast
  then have ex': "\<exists>U s W. ?L = U @ s # r # W \<and> key s < key r \<and>
      (\<forall>w \<in> set W \<inter> set (remove1 r B @ [c]). \<not> key w < key r)" by fastforce
  have rL: "r \<in> set ?L" by simp
  have c: "\<exists>s \<in> set (remove1 r B @ [c]). key s < key r" "\<exists>s \<in> set (remove1 r B @ [c, r]). key s < key r"
    using assms(3) by auto
  show "placed key r xs (remove1 r B @ [c]) ?L"
    unfolding placed_def if_P [OF c(1)] using eq' d' rL ex' by blast
  show "placed key r xs (remove1 r B @ [c, r]) ?L"
    unfolding placed_def if_P [OF c(2)] using eq' d' rL ex by blast
qed

definition cursor :: "'a list \<Rightarrow> 'a option" where
  "cursor C = (case C of [] \<Rightarrow> None | c # _ \<Rightarrow> Some c)"

lemma cursor_simps [simp]: "cursor [] = None" "cursor (c # C) = Some c"
  by (auto simp: cursor_def)

lemma list_next_cursor: "distinct (B @ c # C) \<Longrightarrow> list_next (B @ c # C) (Some c) = cursor C"
  by (subst list_next_at) (auto simp: cursor_def)

lemma list_next_cursor': "distinct (B @ C) \<Longrightarrow> C \<noteq> [] \<Longrightarrow> list_next (B @ C) (cursor C) = cursor (tl C)"
  by (cases C) (auto simp: list_next_cursor simp del: list_next.simps)

lemma ranges_sort_inner_None: "ranges_sort_inner key r None n2 xs ch = Some (xs, ch)"
  by (subst ranges_sort_inner.simps) simp

lemma ranges_sort_inner_Some:
  "ranges_sort_inner key r (Some c) n2 L ch =
     (if r \<noteq> c \<and> key r > key c
      then ranges_sort_inner key r n2 (list_next (move_after r c L) n2) (move_after r c L) True
      else ranges_sort_inner key r n2 (list_next L n2) L ch)"
  by (subst ranges_sort_inner.simps) simp

lemma ranges_sort_inner_placed:
  assumes "placed key r xs B (B @ C)" and "C \<noteq> [] \<Longrightarrow> n2 = cursor (tl C)"
  shows "\<exists>L ch'. ranges_sort_inner key r (cursor C) n2 (B @ C) ch = Some (L, ch') \<and> placed key r xs L L"
  using assms
proof (induction "length C" arbitrary: B C n2 ch rule: less_induct)
  case less
  have d: "distinct (B @ C)" using less.prems(1) by (simp add: placed_def)
  show ?case
  proof (cases C)
    case Nil
    with less.prems show ?thesis by (simp add: ranges_sort_inner_None)
  next
    case (Cons c C')
    have n2: "n2 = cursor C'" using less.prems(2) Cons by simp
    show ?thesis
    proof (cases "r \<noteq> c \<and> key r > key c")
      case False
      have "C' \<noteq> [] \<Longrightarrow> list_next ((B @ [c]) @ C') (cursor C') = cursor (tl C')"
        by (rule list_next_cursor') (use d Cons in auto)
      with less.hyps [of C' "B @ [c]" "list_next (B @ C) n2" ch] placed_pass [OF less.prems(1), of c] False
      show ?thesis by (auto simp: Cons n2 ranges_sort_inner_Some)
    next
      case True
      let ?L = "remove1 r B @ c # r # remove1 r C'"
      have mv: "move_after r c (B @ C) = ?L"
        using move_after_at [of B c C' r] d Cons True by simp
      have pl: "placed key r xs (remove1 r B @ [c]) ?L" "placed key r xs (remove1 r B @ [c, r]) ?L"
        using placed_move [of key r xs B c C'] less.prems(1) Cons True by auto
      have dL: "distinct ?L" using pl(1) by (simp add: placed_def)
      show ?thesis
      proof (cases "\<exists>E. C' = r # E")
        case True
        then obtain E where E: "C' = r # E" by blast
        have "list_next ((remove1 r B @ [c]) @ r # E) (cursor (r # E)) = cursor (tl (r # E))"
          by (rule list_next_cursor') (use dL E in auto)
        moreover have "move_after r c (B @ c # r # E) = remove1 r B @ c # r # E" using mv Cons E by simp
        ultimately show ?thesis
          using less.hyps [of C' "remove1 r B @ [c]" "cursor E" True] pl(1) Cons E \<open>r \<noteq> c \<and> key r > key c\<close>
          by (simp add: n2 ranges_sort_inner_Some [of key r c] del: list_next.simps)
      next
        case False
        let ?C = "remove1 r C'"
        have cur: "cursor C' = cursor ?C" using False by (cases C') auto
        have "?C \<noteq> [] \<Longrightarrow> list_next ((remove1 r B @ [c, r]) @ ?C) (cursor ?C) = cursor (tl ?C)"
          by (rule list_next_cursor') (use dL in auto)
        moreover have "length ?C < length C" using Cons by (auto simp: length_remove1 less_Suc_eq_le)
        ultimately show ?thesis
          using less.hyps [of ?C "remove1 r B @ [c, r]" "list_next ?L n2" True] pl(2) \<open>r \<noteq> c \<and> key r > key c\<close>
          by (simp add: Cons mv [unfolded Cons] n2 cur ranges_sort_inner_Some)
      qed
    qed
  qed
qed

text \<open>Run from the start of the list, the inner loop puts \<open>r\<close> behind the last smaller node.\<close>

lemma ranges_sort_inner_spec:
  assumes "distinct xs" and "r \<in> set xs"
  shows "\<exists>L ch'. ranges_sort_inner key r (list_next xs None) (list_next xs (list_next xs None)) xs ch = Some (L, ch')
    \<and> placed key r xs L L"
proof -
  have n: "list_next xs None = cursor xs" by (simp add: cursor_def)
  have "xs \<noteq> [] \<Longrightarrow> list_next xs (cursor xs) = cursor (tl xs)"
    using list_next_cursor' [of "[]" xs] assms(1) by simp
  moreover have "placed key r xs [] ([] @ xs)" using assms by (simp add: placed_def)
  ultimately show ?thesis unfolding n using ranges_sort_inner_placed [of key r xs "[]" xs] by simp
qed

text \<open>
  The outer loop. \<open>P\<close> is passed: it is sorted and below the rest \<open>R\<close>. A node without a smaller one
  in the rest joins \<open>P\<close>; any other moves behind the last node of minimal key, which thereby comes
  one step closer to the cursor.
\<close>

definition last_min_prefix :: "('a \<Rightarrow> ut64) \<Rightarrow> 'a list \<Rightarrow> nat" where
  "last_min_prefix key R = length (dropWhile (\<lambda>x. key x \<noteq> Min (key ` set R)) (rev R))"

lemma last_min_prefix_move:
  assumes "key s < key r" and "\<forall>y \<in> set Y. \<not> key y < key r"
  shows "last_min_prefix key (X @ s # r # Y) < last_min_prefix key (r # X @ s # Y)"
proof -
  define m where "m = Min (key ` set (r # X @ s # Y))"
  have set_eq: "set (X @ s # r # Y) = set (r # X @ s # Y)" by auto
  have m: "m \<le> key s" unfolding m_def by (rule Min_le) auto
  have "m \<in> key ` set (r # X @ s # Y)" unfolding m_def by (rule Min_in) auto
  then obtain z where z: "z \<in> set (r # X @ s # Y)" "key z = m" by auto
  have r: "key r \<noteq> m" using m assms(1) by auto
  have Y: "\<forall>y \<in> set Y. key y \<noteq> m" using m assms by (metis le_less_trans)
  with z r have zX: "z \<in> set (s # rev X)" by auto
  let ?P = "\<lambda>x. key x \<noteq> m"
  have dY: "dropWhile ?P (rev Y @ Z) = dropWhile ?P Z" for Z
    using Y by (intro dropWhile_append2) auto
  have "dropWhile ?P (rev Y @ (s # rev X) @ [r]) = dropWhile ?P (s # rev X) @ [r]"
    unfolding dY by (rule dropWhile_append1 [OF zX]) (simp add: z(2))
  moreover have "dropWhile ?P (rev Y @ r # s # rev X) = dropWhile ?P (s # rev X)"
    unfolding dY using r by simp
  ultimately show ?thesis unfolding last_min_prefix_def set_eq m_def [symmetric] by simp
qed

abbreviation sorted_key :: "('a \<Rightarrow> ut64) \<Rightarrow> 'a list \<Rightarrow> bool" where
  "sorted_key key xs \<equiv> sorted (map key xs)"

text \<open>One step of the outer loop at the node \<open>r\<close>: the next split of the list.\<close>

lemma placed_step:
  assumes pl: "placed key r (P @ r # R) L L" and dd: "distinct (P @ r # R)"
    and P: "sorted_key key P" and PR: "\<forall>p \<in> set P. \<forall>q \<in> set (r # R). key p \<le> key q"
  shows "(\<exists>P'. L = P' @ R \<and> sorted_key key P' \<and> (\<forall>p \<in> set P'. \<forall>q \<in> set R. key p \<le> key q)) \<or>
         (\<exists>X s Y. R = X @ s # Y \<and> L = P @ X @ s # r # Y \<and> key s < key r \<and> (\<forall>y \<in> set Y. \<not> key y < key r))"
proof (cases "\<exists>s \<in> set L. key s < key r")
  case False
  then have L: "L = P @ r # R" using pl unfolding placed_def by meson
  have "sorted_key key (P @ [r])" using P PR by (auto simp: sorted_append)
  moreover have "\<forall>p \<in> set (P @ [r]). \<forall>q \<in> set R. key p \<le> key q" using PR False L by (auto simp: not_less)
  ultimately show ?thesis using L by (intro disjI1 exI [of _ "P @ [r]"]) auto
next
  case True
  then obtain U s W where L: "L = U @ s # r # W" and s: "key s < key r"
    and W: "\<forall>w \<in> set W. \<not> key w < key r"
    using pl unfolding placed_def by (auto split: if_splits)
  have "remove1 r L = remove1 r (P @ r # R)" "distinct L" using pl by (auto simp: placed_def)
  with L dd have eq: "(U @ [s]) @ W = P @ R" by (auto simp: remove1_append)
  then consider us where "(U @ [s]) @ us = P" "W = us @ R" | us where "U @ [s] = P @ us" "us @ W = R"
    unfolding append_eq_append_conv2 by blast
  then show ?thesis
  proof cases
    case 1
    let ?P = "U @ s # r # us"
    have us: "\<forall>w \<in> set us. key r \<le> key w" and P': "sorted_key key (U @ s # us)" "set (U @ s # us) = set P"
      using W P 1 by (auto simp: not_less simp flip: 1(1))
    have "sorted_key key ?P" using P'(1) us s by (auto simp: sorted_append dest: order.strict_implies_order intro: order.trans)
    moreover have "\<forall>p \<in> set ?P. \<forall>q \<in> set R. key p \<le> key q" using PR P'(2) W 1(2) by (auto simp: not_less)
    ultimately show ?thesis using L 1 by (intro disjI1 exI [of _ ?P]) auto
  next
    case 2
    show ?thesis
    proof (cases us rule: rev_cases)
      case Nil
      then have "P = U @ [s]" "R = W" using 2 by auto
      moreover have "sorted_key key (P @ [r])" using P PR by (auto simp: sorted_append)
      moreover have "\<forall>p \<in> set (P @ [r]). \<forall>q \<in> set R. key p \<le> key q"
        using PR W \<open>R = W\<close> by (auto simp: not_less)
      ultimately show ?thesis using L by (intro disjI1 exI [of _ "P @ [r]"]) auto
    next
      case (snoc X z)
      then have "R = X @ s # W" "L = P @ X @ s # r # W" using 2 L by auto
      with s W show ?thesis by blast
    qed
  qed
qed

lemma ranges_sort_outer_None: "ranges_sort_outer key None n xs ch = Some (xs, ch)"
  by (subst ranges_sort_outer.simps) simp

lemma ranges_sort_outer_Some:
  "ranges_sort_inner key r (list_next xs None) (list_next xs (list_next xs None)) xs ch = Some (L, ch') \<Longrightarrow>
     ranges_sort_outer key (Some r) n xs ch = ranges_sort_outer key n (list_next L n) L ch'"
  by (subst ranges_sort_outer.simps) simp

definition sort_measure :: "('a \<Rightarrow> ut64) \<Rightarrow> 'a list \<Rightarrow> nat" where
  "sort_measure key R = length R * length R + last_min_prefix key R"

lemma sort_measure_tl: "sort_measure key R < sort_measure key (r # R)"
proof -
  have "last_min_prefix key R \<le> length R"
    unfolding last_min_prefix_def by (metis length_dropWhile_le length_rev)
  then show ?thesis by (simp add: sort_measure_def)
qed

lemma ranges_sort_outer_sorts:
  assumes "distinct (P @ R)" and "sorted_key key P"
    and "\<forall>p \<in> set P. \<forall>q \<in> set R. key p \<le> key q" and "R \<noteq> [] \<Longrightarrow> n = cursor (tl R)"
  shows "\<exists>L ch'. ranges_sort_outer key (cursor R) n (P @ R) ch = Some (L, ch') \<and>
           sorted_key key L \<and> mset L = mset (P @ R)"
  using assms
proof (induction "sort_measure key R" arbitrary: P R n ch rule: less_induct)
  case less
  show ?case
  proof (cases R)
    case Nil
    with less.prems show ?thesis by (simp add: ranges_sort_outer_None)
  next
    case (Cons r R')
    have n: "n = cursor R'" using less.prems(4) Cons by simp
    obtain L ch' where inner: "ranges_sort_inner key r (list_next (P @ R) None)
        (list_next (P @ R) (list_next (P @ R) None)) (P @ R) ch = Some (L, ch')"
      and pl: "placed key r (P @ R) L L"
      using ranges_sort_inner_spec [of "P @ R" r key ch] less.prems(1) Cons by auto
    have dL: "distinct L" and mL: "mset L = mset (P @ R)"
      using pl Cons by (auto simp: placed_def) (metis in_set_conv_decomp mset_append mset_remove1
        insert_DiffM mset.simps(2) set_mset_mset union_mset_add_mset_right)
    have next_eq: "list_next (P' @ R'') (cursor R'') = cursor (tl R'')"
      if "L = P' @ R''" "R'' \<noteq> []" for P' R''
      using that dL by (intro list_next_cursor') auto
    have go: "ranges_sort_outer key (cursor R) n (P @ R) ch = ranges_sort_outer key n (list_next L n) L ch'"
      using ranges_sort_outer_Some [OF inner] Cons by simp
    from placed_step [of key r P R' L] pl less.prems(1-3) Cons
    consider P' where "L = P' @ R'" "sorted_key key P'" "\<forall>p \<in> set P'. \<forall>q \<in> set R'. key p \<le> key q"
      | X s Y where "R' = X @ s # Y" "L = P @ X @ s # r # Y" "key s < key r" "\<forall>y \<in> set Y. \<not> key y < key r"
      by auto
    then show ?thesis
    proof cases
      case 1
      have "\<exists>L' c. ranges_sort_outer key (cursor R') (list_next L n) (P' @ R') ch' = Some (L', c) \<and>
          sorted_key key L' \<and> mset L' = mset (P' @ R')"
        by (rule less.hyps) (use 1 dL n next_eq [OF 1(1)] Cons sort_measure_tl [of key R' r] in auto)
      with 1 go n mL show ?thesis by simp
    next
      case 2
      let ?R = "X @ s # r # Y"
      have cur: "cursor R' = cursor ?R" using 2(1) by (cases X) auto
      have len: "sort_measure key ?R < sort_measure key R"
        using last_min_prefix_move [OF 2(3,4), of X] Cons 2(1) by (simp add: sort_measure_def)
      have PR: "\<forall>p \<in> set P. \<forall>q \<in> set ?R. key p \<le> key q" using less.prems(3) Cons 2(1) by auto
      have "\<exists>L' c. ranges_sort_outer key (cursor ?R) (list_next L n) (P @ ?R) ch' = Some (L', c) \<and>
          sorted_key key L' \<and> mset L' = mset (P @ ?R)"
        by (rule less.hyps [OF len]) (use 2 dL n next_eq [of P ?R] cur less.prems(2) PR in auto)
      moreover have "mset (P @ ?R) = mset (P @ R)" using mL 2(2) by simp
      ultimately show ?thesis using 2(2) go n cur by metis
    qed
  qed
qed

text \<open>
  The loops started on the positions of a list return, and give the entries in order of their key.
\<close>

lemma sort_positions:
  fixes rs :: "'b list" and f :: "'b \<Rightarrow> ut64"
  defines "ns \<equiv> [0..<length rs]"
  shows "\<exists>L ch. ranges_sort_outer (\<lambda>i. f (rs ! i)) (list_next ns None) (list_next ns (list_next ns None)) ns False = Some (L, ch) \<and>
     sorted (map f (map (\<lambda>i. rs ! i) L)) \<and> mset (map (\<lambda>i. rs ! i) L) = mset rs"
proof -
  let ?key = "\<lambda>i. f (rs ! i)"
  have "list_next ns None = cursor ns" by (simp add: cursor_def)
  moreover have "ns \<noteq> [] \<Longrightarrow> list_next ns (cursor ns) = cursor (tl ns)"
    using list_next_cursor' [of "[]" ns] by (simp add: ns_def)
  ultimately obtain L ch where L: "ranges_sort_outer ?key (list_next ns None)
      (list_next ns (list_next ns None)) ns False = Some (L, ch)"
    "sorted_key ?key L" "mset L = mset ns"
    using ranges_sort_outer_sorts [of "[]" ns ?key "list_next ns (cursor ns)" False] by (auto simp: ns_def)
  have "mset (map (\<lambda>i. rs ! i) L) = mset (map (\<lambda>i. rs ! i) ns)"
    using L(3) by (metis mset_map)
  then have "mset (map (\<lambda>i. rs ! i) L) = mset rs" by (simp add: ns_def map_nth)
  with L show ?thesis by (auto simp: comp_def)
qed

text \<open>\<^verbatim>\<open>ranges_sort\<close>, when it is asked to work, returns with the same entries in order of their start.\<close>

lemma ranges_sort_sorts:
  assumes "ranges_changed st"
  shows "\<exists>st' ch. ranges_sort st = Some (st', ch) \<and> sorted (map rfrom (ranges st')) \<and>
           mset (ranges st') = mset (ranges st)"
  using sort_positions [of rfrom "ranges st"] assms
  by (auto simp: ranges_sort_def Let_def simp del: list_next.simps)

section \<open>Properties\<close>

text \<open>
  C1 Adding a range, with its bounds in either order, adds exactly its addresses, keeps every entry
  well formed, and makes every one of its addresses found by \<^verbatim>\<open>ranges_get\<close>.
\<close>

theorem ranges_add_union:
  assumes "wf_ranges xs"
  shows "addrs (fst (ranges_add xs a b True)) = addrs xs \<union> {min a b..<max a b} \<and>
         wf_ranges (fst (ranges_add xs a b True)) \<and>
         (ranges_get (fst (ranges_add xs a b True)) x \<noteq> None \<longleftrightarrow>
            ranges_get xs x \<noteq> None \<or> min a b \<le> x \<and> x < max a b)"
  using assms by (auto simp: ranges_add_addrs ranges_add_wf ranges_get_None)

theorem ranges_add_union_witness:
  "let xs = [\<lparr>rfrom = 0x10, rto = 0x20, rdata = None, datalen = 0\<rparr>] in
   wf_ranges xs \<and> addrs (fst (ranges_add xs 0x28 0x18 True)) = addrs xs \<union> {min 0x28 0x18..<max 0x28 0x18} \<and>
   map rto (fst (ranges_add xs 0x28 0x18 True)) = [0x28]"
  using ranges_add_union [of "[\<lparr>rfrom = 0x10, rto = 0x20, rdata = None, datalen = 0\<rparr>]" "0x28" "0x18"]
  by (simp add: wf_ranges_def Let_def) (simp add: ranges_add_def ranges_abs_def ranges_add_entry_def)

text \<open>
  C2 Subtracting a range always returns, brings in no address from outside the subtracted range, and
  removes exactly its addresses when every entry is in general position: no entry strictly contains
  the range, and none that overlaps it shares its start or its end.
\<close>

theorem ranges_sub_difference:
  "\<exists>ys c. ranges_sub xs a b = Some (ys, c) \<and>
     addrs ys \<subseteq> addrs xs \<union> {min a b..<max a b} \<and>
     ((\<forall>r \<in> set xs. sub_ok (min a b) (max a b) r) \<longrightarrow> addrs ys = addrs xs - {min a b..<max a b})"
proof -
  have le: "min a b \<le> max a b" by (auto simp: min_def max_def)
  obtain ys c where ys: "ranges_sub_loop (min a b) (max a b) xs False = Some (ys, c)"
      "addrs ys \<subseteq> addrs xs \<union> {min a b..<max a b}"
    using ranges_sub_upper_loop [OF le, of xs False] by blast
  with ranges_sub_exact_loop [OF le, of xs False] show ?thesis
    by (auto simp: ranges_sub_def ranges_abs_minmax)
qed

theorem ranges_sub_difference_witness:
  "\<exists>ys c. ranges_sub [\<lparr>rfrom = 0x10, rto = 0x20, rdata = None, datalen = 0\<rparr>] 0x18 0x30 = Some (ys, c) \<and>
     0x17 \<in> addrs ys \<and> 0x18 \<notin> addrs ys"
  using ranges_sub_difference [of "[\<lparr>rfrom = 0x10, rto = 0x20, rdata = None, datalen = 0\<rparr>]" "0x18" "0x30"]
  by (auto simp: sub_ok_def sub_splits_def rng_def min_def max_def)

text \<open>
  C3 Sorting returns (both nested loops, over the list they reorder, terminate) and gives the same
  entries ordered by their start; a list not marked as changed is left alone.
\<close>

theorem ranges_sort_correct:
  "\<exists>st' ch. ranges_sort st = Some (st', ch) \<and> mset (ranges st') = mset (ranges st) \<and>
     (if ranges_changed st then sorted (map rfrom (ranges st')) else st' = st)"
  using ranges_sort_sorts [of st] by (cases "ranges_changed st") (auto simp: ranges_sort_def)

text \<open>
  Merging the table into itself (\<^verbatim>\<open>arm\<close>) changes neither the set of addresses nor the number of
  entries, and the size of a table without overlaps is the number of its addresses: the 64-bit sum
  does not wrap.
\<close>

theorem ranges_merge_size:
  assumes "wf_ranges xs"
  shows "addrs (ranges_merge None xs) = addrs xs \<and> wf_ranges (ranges_merge None xs) \<and>
         length (ranges_merge None xs) = length xs \<and>
         (disjoint_ranges xs \<longrightarrow> unat (ranges_size xs) = card (addrs xs))"
proof -
  have "disjoint_ranges xs \<Longrightarrow> unat (ranges_size xs) = card (addrs xs)"
    using sum_sizes_card [OF assms] card_addrs_bound [of xs]
    by (simp add: ranges_size_def ranges_size_loop_eq unat_of_nat)
  with ranges_merge_self_inv [of 0 "length xs" xs] assms show ?thesis by (simp add: ranges_merge_def)
qed

theorem ranges_merge_size_witness:
  "let xs = [\<lparr>rfrom = 0x10, rto = 0x20, rdata = None, datalen = 0\<rparr>,
             \<lparr>rfrom = 0x40, rto = 0x50, rdata = None, datalen = 0\<rparr>] in
   wf_ranges xs \<and> disjoint_ranges xs \<and> card (addrs xs) = 32"
  using ranges_merge_size [of "[\<lparr>rfrom = 0x10, rto = 0x20, rdata = None, datalen = 0\<rparr>,
    \<lparr>rfrom = 0x40, rto = 0x50, rdata = None, datalen = 0\<rparr>]"]
  by (simp add: wf_ranges_def disjoint_ranges_def rng_def ranges_size_def)

text \<open>
  The gaps \<^verbatim>\<open>arb\<close> prints for a sorted table whose entries are separated and start behind the lower
  bound are exactly the part of the interval no entry covers.
\<close>

theorem ranges_boolean_gaps:
  assumes "\<not> ranges_changed st" and "wf_ranges (ranges st)" and "separated (ranges st)"
    and "\<forall>r \<in> set (ranges st). a < rfrom r"
  shows "\<exists>out gaps. ranges_boolean a b flags st = Some (st, out) \<and>
     filter (\<lambda>e. case e of ConsOut _ \<Rightarrow> True | _ \<Rightarrow> False) out =
       map (\<lambda>(x, y). ConsOut (hex_0x x @ '' .. '' @ hex_0x y @ nl)) gaps \<and>
     (\<Union>(x, y) \<in> set gaps. {x..<y}) = {a..<b} - addrs (ranges st)"
proof -
  let ?g = "boolean_gaps a b (ranges st)"
  let ?f = "\<lambda>(x, y). ConsOut (hex_0x x @ '' .. '' @ hex_0x y @ nl)"
  have "filter (\<lambda>e. case e of ConsOut _ \<Rightarrow> True | _ \<Rightarrow> False) (map ?f ?g) = map ?f ?g"
    by (rule filter_True) auto
  then show ?thesis using boolean_gaps_addrs [OF assms(2-4), of b] assms(1)
    by (intro exI [of _ "snd (the (ranges_boolean a b flags st))"] exI [of _ ?g])
      (simp add: ranges_boolean_def ranges_sort_def Let_def)
qed

theorem ranges_boolean_gaps_witness:
  "let st = \<lparr>ranges = [\<lparr>rfrom = 0x10, rto = 0x20, rdata = None, datalen = 0\<rparr>],
             ranges_is_init = True, ranges_changed = False\<rparr> in
   \<exists>out gaps. ranges_boolean 0 0x40 0 st = Some (st, out) \<and>
     (\<Union>(x, y) \<in> set gaps. {x..<y}) = {0..<0x40} - addrs (ranges st)"
  using ranges_boolean_gaps [of "\<lparr>ranges = [\<lparr>rfrom = 0x10, rto = 0x20, rdata = None, datalen = 0\<rparr>],
      ranges_is_init = True, ranges_changed = False\<rparr>" 0 "0x40" 0]
  by (auto simp: wf_ranges_def separated_def Let_def)

end
