(* ===== verification/Radare_State.thy ===== *)
theory Radare_State
  imports C_Format
begin

text \<open>
  The global \<^verbatim>\<open>struct config_t config\<close> of \<^verbatim>\<open>src/src/config.h\<close>: the fields the modelled code reads and
  writes, with the prefix \<^verbatim>\<open>c_\<close>.
\<close>

record config_t =
  c_fd :: int
  c_width :: int
  c_debug :: bool
  c_interrupted :: bool
  c_verbose :: bool
  c_unksize :: bool
  c_block :: "u8 list"
  c_block_size :: int
  c_size :: ut64
  c_vaddr :: ut64
  c_paddr :: ut64
  c_seek :: ut64
  c_limit :: ut64
  c_last_print_format :: int
  c_height :: int
  c_color :: bool
  c_cursor_mode :: bool
  c_cursor :: int
  c_ocursor :: int

text \<open>The contents after the \<^verbatim>\<open>memset\<close> at the start of \<^verbatim>\<open>config_old_init\<close>.\<close>

definition config_zero :: config_t where
  "config_zero = \<lparr>c_fd = 0, c_width = 0, c_debug = False, c_interrupted = False, c_verbose = False,
     c_unksize = False, c_block = [], c_block_size = 0, c_size = 0, c_vaddr = 0, c_paddr = 0,
     c_seek = 0, c_limit = 0, c_last_print_format = 0, c_height = 0, c_color = False,
     c_cursor_mode = False, c_cursor = 0, c_ocursor = 0\<rparr>"

lemma config_zero_simps [simp]:
  "c_interrupted config_zero = False" "c_vaddr config_zero = 0" "c_paddr config_zero = 0"
  "c_seek config_zero = 0" "c_block_size config_zero = 0" "c_size config_zero = 0" "c_fd config_zero = 0"
  "c_block config_zero = []" "c_verbose config_zero = False" "c_debug config_zero = False"
  "c_last_print_format config_zero = 0" "c_width config_zero = 0"
  "c_cursor_mode config_zero = False" "c_height config_zero = 0" "c_color config_zero = False"
  by (simp_all add: config_zero_def)

end
