(* ===== verification/Flags.thy ===== *)
theory Flags
  imports Utils Radare_State Store_Spec
begin

text \<open>
  Flags, the names of addresses (\<^verbatim>\<open>src/src/flags.c\<close>, built with \<^verbatim>\<open>USE_BTREE\<close> off): the list of flags
  in the order of their creation, the flag spaces, and the lookups by name, by address and by
  distance. \<^verbatim>\<open>config.interrupted\<close> is the field of the \<open>config_t\<close> argument; a loop that tests it stops at
  its first iteration. \<^verbatim>\<open>get_math\<close> and the configuration values are arguments.
\<close>

section \<open>Model\<close>

definition FLAG_BSIZE :: nat where "FLAG_BSIZE = 40"
definition FLAG_SPACES :: nat where "FLAG_SPACES = 32"
definition FLAG_MAXCOUNT :: nat where "FLAG_MAXCOUNT = 10"
definition MAX_FLAG_LEN :: nat where "MAX_FLAG_LEN = 20"

record flag_t =
  fname :: string
  namehash :: ut32
  foffset :: ut64
  flength :: ut64
  fformat :: int
  fspace :: int
  fcmd :: "string option"

text \<open>The statics of \<^verbatim>\<open>flag_get_here_filter\<close> and \<^verbatim>\<open>flag_get_here_filter2\<close>.\<close>

record here_cache =
  sec_start :: ut64
  sec_end :: ut64
  sec_str :: string

record flags_state =
  flags :: "flag_t list"
  flag_ptr :: int
  flag_from_i :: ut64
  flag_space_idx :: int
  flag_space_idx2 :: int
  flag_spaces :: "string option list"
  flag_space_inited :: bool
  here1 :: here_cache
  here2 :: here_cache

text \<open>The statics as the program starts.\<close>

definition flags_zero :: flags_state where
  "flags_zero = (let h = \<lparr>sec_start = 0, sec_end = 0, sec_str = []\<rparr> in
     \<lparr>flags = [], flag_ptr = - 1, flag_from_i = 0, flag_space_idx = - 1, flag_space_idx2 = - 1,
      flag_spaces = replicate FLAG_SPACES None, flag_space_inited = False, here1 = h, here2 = h\<rparr>)"

definition flag_from :: "(string \<Rightarrow> ut64) \<Rightarrow> string \<Rightarrow> flags_state \<Rightarrow> flags_state \<times> out_event list" where
  "flag_from get_math str st =
     (if str \<noteq> [] then (st\<lparr>flag_from_i := get_math str\<rparr>, [])
      else (st, [ConsOut (hex_0x (flag_from_i st) @ nl)]))"

definition flag_init :: "flags_state \<Rightarrow> flags_state" where
  "flag_init st = st\<lparr>flags := []\<rparr>"

text \<open>\<open>None\<close>: an index outside the array of 32, or an unused space, whose name is \<^verbatim>\<open>NULL\<close>.\<close>

definition flag_space_get :: "int \<Rightarrow> flags_state \<Rightarrow> string option" where
  "flag_space_get idx st =
     (if idx = - 1 \<or> idx > 255 then Some []
      else if idx < 0 \<or> nat idx \<ge> length (flag_spaces st) then None
      else flag_spaces st ! nat idx)"

text \<open>\<^verbatim>\<open>memcmp(a, name, n)\<close> on strings, for \<open>n\<close> within \<open>a\<close> and its terminator.\<close>

definition memcmp_str :: "string \<Rightarrow> string \<Rightarrow> nat \<Rightarrow> bool" where
  "memcmp_str a b n \<longleftrightarrow> take n (a @ [NUL]) = take n (b @ [NUL])"

text \<open>
  \<^verbatim>\<open>flag_interpolation\<close>: the inner loop compares \<^verbatim>\<open>from\<close> with the outer flag again; \<open>None\<close> when that
  comparison is longer than \<^verbatim>\<open>from\<close> with its terminator.
\<close>

fun interpolation_inner :: "bool \<Rightarrow> flag_t \<Rightarrow> flag_t list \<Rightarrow> ut64 \<Rightarrow> string \<Rightarrow> ut64 \<times> string" where
  "interpolation_inner m flag [] tmp str = (tmp, str)"
| "interpolation_inner m flag (flag2 # fs) tmp str =
     (if m \<and> foffset flag2 > foffset flag \<and> (tmp = 0 \<or> foffset flag2 < tmp)
      then interpolation_inner m flag fs (foffset flag2) (fname flag2)
      else interpolation_inner m flag fs tmp str)"

definition flag_interpolation :: "string \<Rightarrow> string \<Rightarrow> flags_state \<Rightarrow> out_event list option" where
  "flag_interpolation from to st =
     (if length to > Suc (length from) then None
      else Some (concat (map (\<lambda>flag.
        if memcmp_str from (fname flag) (length from) then
          (let (tmp, str) = interpolation_inner (memcmp_str from (fname flag) (length to)) flag (flags st) 0 []
           in if tmp \<noteq> 0 then
                [ConsOut (fname flag @ '' ('' @ hex_0x (foffset flag) @ '') -> '' @ str @ '' ('' @ hex_0x tmp
                   @ '')   ; size = '' @ fmt_d (sint (tmp - foffset flag)) @ nl)]
              else [])
        else []) (flags st))))"

definition flag_get_by_addr :: "config_t \<Rightarrow> flags_state \<Rightarrow> ut64 \<Rightarrow> flag_t option" where
  "flag_get_by_addr cfg st addr =
     (if c_interrupted cfg then None else List.find (\<lambda>flag. foffset flag = addr) (flags st))"

definition flag_rebase :: "(string \<Rightarrow> ut64) \<Rightarrow> config_t \<Rightarrow> string \<Rightarrow> flags_state \<Rightarrow> flags_state" where
  "flag_rebase get_math cfg tx st =
     (if c_interrupted cfg then st
      else st\<lparr>flags := update_first (\<lambda>flag. foffset flag = c_seek cfg)
        (\<lambda>flag. flag\<lparr>foffset := if str_at tx 0 = CHR ''-'' then foffset flag - get_math (drop 1 tx)
                               else foffset flag + get_math tx\<rparr>) (flags st)\<rparr>)"

definition flag_cmd :: "config_t \<Rightarrow> string option \<Rightarrow> flags_state \<Rightarrow> flags_state \<times> out_event list" where
  "flag_cmd cfg tx st =
     (case tx of
        Some t \<Rightarrow>
          if t = [] \<or> hd t = CHR ''?''
          then (st, [ConsOut (''Usage: fc <cmd> @ <offset>'' @ nl), ConsOut (''   > fc pd 20 @ 0x8049104'' @ nl)])
          else (case flag_get_by_addr cfg st (c_seek cfg) of
                  Some flag \<Rightarrow>
                    (st\<lparr>flags := update_first (\<lambda>f. foffset f = c_seek cfg) (\<lambda>f. f\<lparr>fcmd := Some t\<rparr>) (flags st)\<rparr>,
                     [ConsOut (''flag_cmd('' @ fname flag @ '') = '' @ [CHR 0x27] @ t @ [CHR 0x27] @ nl)])
                | None \<Rightarrow> (st, []))
      | None \<Rightarrow> (st, [ConsOut (''Usage: fc <cmd> @ <offset>'' @ nl), ConsOut (''   > fc pd 20 @ 0x8049104'' @ nl)]))"

definition flag_get_i :: "int \<Rightarrow> flags_state \<Rightarrow> flag_t option" where
  "flag_get_i idx st =
     (if 0 \<le> idx \<and> nat idx < length (flags st) then Some (flags st ! nat idx) else None)"

definition flag_show :: "config_t \<Rightarrow> bool \<Rightarrow> flag_t \<Rightarrow> out_event list" where
  "flag_show cfg cmd_flag flag =
     [ConsOut (hex_0x (foffset flag) @ '' '' @ fmt_d (sint (flength flag)) @ '' '' @ fname flag @ nl)]
     @ (case fcmd flag of
          Some c \<Rightarrow> if cmd_flag \<and> c \<noteq> []
                    then [SeekTo (foffset flag), RadareCmd c, SeekTo (c_seek cfg), ConsOut nl] else []
        | None \<Rightarrow> [])"

fun grep_np_loop :: "char \<Rightarrow> string \<Rightarrow> ut64 \<Rightarrow> bool \<Rightarrow> flag_t list \<Rightarrow> ut64 \<Rightarrow> flag_t option \<Rightarrow> flag_t option" where
  "grep_np_loop junk str addr nxt [] newaddr fag = fag"
| "grep_np_loop junk str addr nxt (flag # fs) newaddr fag =
     (if str_grep junk (fname flag) str \<and>
         (if nxt then foffset flag < addr \<and> foffset flag > newaddr
          else foffset flag > addr \<and> foffset flag < newaddr)
      then grep_np_loop junk str addr nxt fs (foffset flag) (Some flag)
      else grep_np_loop junk str addr nxt fs newaddr fag)"

definition flag_grep_np :: "char \<Rightarrow> config_t \<Rightarrow> string \<Rightarrow> ut64 \<Rightarrow> bool \<Rightarrow> flags_state \<Rightarrow> out_event list" where
  "flag_grep_np junk cfg str addr nxt st =
     (case grep_np_loop junk str addr nxt (if c_interrupted cfg then [] else flags st)
             (if nxt then 0 else UT64_MAX) None of
        Some fag \<Rightarrow> [ConsOut (hex_0x (foffset fag) @ '' '' @ fname fag @ nl)]
      | None \<Rightarrow> [])"

definition flag_grep :: "config_t \<Rightarrow> bool \<Rightarrow> string \<Rightarrow> flags_state \<Rightarrow> out_event list" where
  "flag_grep cfg cmd_flag grepstr st =
     (let fs = (if c_interrupted cfg then [] else flags st) in
      case strchr_split CHR ''*'' grepstr of
        Some (grep, rest) \<Rightarrow>
          concat (map (flag_show cfg cmd_flag) (filter (\<lambda>f. strstr (fname f) grep \<noteq> None) fs))
      | None \<Rightarrow> concat (map (flag_show cfg cmd_flag) (filter (\<lambda>f. fname f = grepstr) fs)))"

definition flag_get :: "string option \<Rightarrow> flags_state \<Rightarrow> flag_t option" where
  "flag_get name st =
     (case name of
        None \<Rightarrow> None
      | Some n \<Rightarrow>
          if 48 \<le> (of_char (str_at n 0) :: nat) \<and> (of_char (str_at n 0) :: nat) \<le> 57 then None
          else List.find (\<lambda>flag. n = fname flag) (rev (flags st)))"

definition flag_get_addr :: "string option \<Rightarrow> flags_state \<Rightarrow> ut64" where
  "flag_get_addr name st = (case flag_get name st of Some foo \<Rightarrow> foffset foo | None \<Rightarrow> 0)"

definition flag_delta_between :: "ut64 \<Rightarrow> ut64 \<Rightarrow> flags_state \<Rightarrow> ut64" where
  "flag_delta_between from to st =
     (case List.find (\<lambda>flag. foffset flag > from \<and> foffset flag \<le> to) (flags st) of
        Some flag \<Rightarrow> foffset flag - from | None \<Rightarrow> 0)"

text \<open>\<^verbatim>\<open>flag_get_next\<close>: the nearest flag after (\<open>fwd\<close>) or before an address, found in one pass.\<close>

fun next_loop :: "bool \<Rightarrow> ut64 \<Rightarrow> flag_t list \<Rightarrow> flag_t option \<Rightarrow> flag_t option" where
  "next_loop fwd seek [] nice = nice"
| "next_loop fwd seek (flag # fs) nice =
     (if (if fwd then foffset flag > seek else foffset flag < seek) then
        (case nice of
           Some n \<Rightarrow> if (if fwd then foffset flag < foffset n else foffset flag > foffset n)
                     then next_loop fwd seek fs (Some flag) else next_loop fwd seek fs nice
         | None \<Rightarrow> next_loop fwd seek fs (Some flag))
      else next_loop fwd seek fs nice)"

definition flag_get_next :: "config_t \<Rightarrow> int \<Rightarrow> flags_state \<Rightarrow> flag_t option" where
  "flag_get_next cfg delta st = next_loop (delta = 1) (c_seek cfg) (flags st) None"

definition flag_get_reset :: "config_t \<Rightarrow> flags_state \<Rightarrow> flags_state \<times> flag_t option" where
  "flag_get_reset cfg st = (st\<lparr>flag_ptr := 0\<rparr>, flag_get_next cfg 0 st)"

definition flags_between :: "ut64 \<Rightarrow> ut64 \<Rightarrow> flags_state \<Rightarrow> nat" where
  "flags_between from to st = length (filter (\<lambda>flag. foffset flag \<ge> from \<and> foffset flag \<le> to) (flags st))"

text \<open>
  \<^verbatim>\<open>flag_rename\<close>: the flags and the count; \<open>None\<close> when a name outgrows its 40 bytes or \<^verbatim>\<open>foo\<close> is empty.
  With a leading \<^verbatim>\<open>*\<close> the text from the match on is kept, and nothing is counted.
\<close>

definition rename_one :: "bool \<Rightarrow> bool \<Rightarrow> nat \<Rightarrow> string \<Rightarrow> string \<Rightarrow> flag_t \<Rightarrow> (string \<times> nat)" where
  "rename_one ini glob_end sz foo bar flag =
     (if ini then
        (case strstr (fname flag) (drop 1 foo) of Some s \<Rightarrow> (bar @ s, 0) | None \<Rightarrow> (fname flag, 0))
      else if \<not> strnstr foo (fname flag) sz then
        (if glob_end then (bar @ drop sz (fname flag), 1)
         else if str_at (fname flag) sz = NUL then (bar, 1) else (fname flag, 1))
      else (fname flag, 0))"

fun rename_loop :: "bool \<Rightarrow> bool \<Rightarrow> nat \<Rightarrow> string \<Rightarrow> string \<Rightarrow> flag_t list \<Rightarrow> (flag_t list \<times> nat) option" where
  "rename_loop ini g sz foo bar [] = Some ([], 0)"
| "rename_loop ini g sz foo bar (flag # fs) =
     (let (nm, k) = rename_one ini g sz foo bar flag in
      if nm \<noteq> fname flag \<and> length nm \<ge> FLAG_BSIZE then None
      else map_option (\<lambda>(fs', n). (flag\<lparr>fname := nm\<rparr> # fs', k + n)) (rename_loop ini g sz foo bar fs))"

definition flag_rename :: "string \<Rightarrow> string \<Rightarrow> flags_state \<Rightarrow> (flags_state \<times> nat) option" where
  "flag_rename foo bar st =
     (if foo = [] then None
      else let glob_end = (last foo = CHR ''*''); sz = (if glob_end then length foo - 1 else length foo)
           in map_option (\<lambda>(fs, n). (st\<lparr>flags := fs\<rparr>, n))
                (rename_loop (hd foo = CHR ''*'') glob_end sz foo bar (flags st)))"

definition flag_rename_str :: "string option \<Rightarrow> flags_state \<Rightarrow> (flags_state \<times> nat \<times> out_event list) option" where
  "flag_rename_str tx st =
     (case Option.bind tx (strchr_split CHR '' '') of
        Some (a, b) \<Rightarrow>
          map_option (\<lambda>(st', n). (st', n, [ConsOut (fmt_d (int n) @ '' flags renamed'' @ nl)])) (flag_rename a b st)
      | None \<Rightarrow> Some (st, 0, [ConsOut (''Usage: fr old-name new-name'' @ nl),
                              ConsOut (''> fr hit0_* hit_search'' @ nl)]))"

definition flag_by_offset :: "config_t \<Rightarrow> flags_state \<Rightarrow> ut64 \<Rightarrow> flag_t option" where
  "flag_by_offset cfg st off = flag_get_by_addr cfg st off"

definition flag_name_by_offset :: "config_t \<Rightarrow> flags_state \<Rightarrow> ut64 \<Rightarrow> string" where
  "flag_name_by_offset cfg st off =
     (case flag_get_by_addr cfg st off of Some f \<Rightarrow> fname f | None \<Rightarrow> [])"

text \<open>
  \<^verbatim>\<open>string_flag_offset\<close>. The loop keeps the text, the reference flag, whether a flag of the address was
  found, and their number; an empty \<open>m\<close> stands for no match text. The result: the text and the
  returned value.
\<close>

fun sfo_loop ::
  "string \<Rightarrow> ut64 \<Rightarrow> ut64 \<Rightarrow> int \<Rightarrow> flag_t list \<Rightarrow> string \<times> flag_t option \<times> bool \<times> nat
    \<Rightarrow> string \<times> flag_t option \<times> bool \<times> nat" where
  "sfo_loop m seek vaddr idx [] s = s"
| "sfo_loop m seek vaddr idx (flag # fs) (buf, ref, found, cnt) =
     (if foffset flag = seek \<or> foffset flag = seek + vaddr then
        (if Suc cnt > FLAG_MAXCOUNT then (buf, ref, True, Suc cnt)
         else if idx \<noteq> - 2 \<and> idx < 1 then
           sfo_loop m seek vaddr idx fs
             ((if buf \<noteq> [] then buf @ '','' else buf) @ fname flag, ref, True, Suc cnt)
         else if m \<noteq> [] then
           sfo_loop m seek vaddr idx fs
             (buf, if strstr (fname flag) m \<noteq> None then Some flag else ref, True, Suc cnt)
         else (buf, Some flag, True, Suc cnt))
      else if foffset flag \<le> seek + vaddr \<and> (case ref of None \<Rightarrow> True | Some r \<Rightarrow> foffset flag > foffset r) then
        sfo_loop m seek vaddr idx fs
          (buf, if \<not> found \<and> (m = [] \<or> strstr (fname flag) m \<noteq> None) then Some flag else ref, found, cnt)
      else sfo_loop m seek vaddr idx fs (buf, ref, found, cnt))"

definition string_flag_offset :: "config_t \<Rightarrow> int \<Rightarrow> string \<Rightarrow> ut64 \<Rightarrow> int \<Rightarrow> flags_state \<Rightarrow> string \<times> bool" where
  "string_flag_offset cfg cfg_delta m seek idx st =
     (let (buf, ref, found, cnt) =
        sfo_loop m seek (c_vaddr cfg) idx (if c_interrupted cfg then [] else flags st) ([], None, False, 0) in
      if idx = - 1 then (buf, buf \<noteq> [])
      else if idx = - 2 then
        (let buf' =
           (case ref of
              Some r \<Rightarrow>
                if buf \<noteq> [] then buf
                else if m \<noteq> [] then fname r
                else (let delta = sint (ucast ((seek + c_vaddr cfg) - foffset r) :: ut32)
                      in take 31 (if delta < 0 then fname r @ ''-0x'' @ fmt_x (nat (- delta))
                                  else fname r @ ''+0x'' @ fmt_x (nat delta)))
            | None \<Rightarrow> buf)
         in (buf', buf' \<noteq> []))
      else case ref of
        Some r \<Rightarrow>
          (let ul = seek - foffset r in
           if ul = 0 then (fname r, True)
           else if sint ul > - cfg_delta \<and> sint ul < cfg_delta then (fname r @ ''+0x'' @ fmt_x (unat ul), True)
           else (buf, False))
      | None \<Rightarrow> (buf, False))"

definition print_flag_offset :: "config_t \<Rightarrow> int \<Rightarrow> string \<Rightarrow> ut64 \<Rightarrow> flags_state \<Rightarrow> out_event list" where
  "print_flag_offset cfg cfg_delta m seek st =
     (case string_flag_offset cfg cfg_delta m seek (- 2) st of
        (buf, ret) \<Rightarrow> if ret then [ConsOut buf] else [])"

definition flag_do_empty :: "flag_t \<Rightarrow> flag_t" where
  "flag_do_empty flag = flag\<lparr>fname := []\<rparr>"

definition flag_is_empty :: "flag_t option \<Rightarrow> bool" where
  "flag_is_empty flag = (case flag of None \<Rightarrow> True | Some f \<Rightarrow> fname f = [])"

definition flag_list :: "config_t \<Rightarrow> flags_state \<Rightarrow> out_event list" where
  "flag_list cfg st =
     (if c_interrupted cfg then []
      else concat (map (flag_show cfg False)
        (filter (\<lambda>flag. \<not> (flag_space_idx st \<noteq> - 1 \<and> fspace flag \<noteq> flag_space_idx st)) (flags st))))"

text \<open>\<^verbatim>\<open>flag_clear_by_addr\<close> starts over after every deletion.\<close>

function clear_by_addr_loop :: "ut64 \<Rightarrow> flag_t list \<Rightarrow> flag_t list" where
  "clear_by_addr_loop seek fs =
     (if List.find (\<lambda>flag. foffset flag = seek) fs \<noteq> None
      then clear_by_addr_loop seek (remove_first (\<lambda>flag. foffset flag = seek) fs) else fs)"
  by pat_completeness auto
termination
  by (relation "measure (\<lambda>(seek, fs). length fs)") (auto dest!: find_SomeD intro: length_remove_first)

declare clear_by_addr_loop.simps [simp del]

definition flag_clear_by_addr :: "config_t \<Rightarrow> ut64 \<Rightarrow> flags_state \<Rightarrow> flags_state" where
  "flag_clear_by_addr cfg seek st =
     (if c_interrupted cfg then st else st\<lparr>flags := clear_by_addr_loop seek (flags st)\<rparr>)"

text \<open>\<^verbatim>\<open>flag_space_move\<close>; \<open>None\<close> when no flag has the name.\<close>

definition flag_space_move :: "string option \<Rightarrow> flags_state \<Rightarrow> (flags_state \<times> out_event list) option" where
  "flag_space_move name st =
     (case name of
        Some n \<Rightarrow>
          if n = [] \<or> hd n = CHR ''?''
          then Some (st, [ErrOut (''Usage: fm <flag_name>  - moves the selected flag to the current flagspace'' @ nl)])
          else (case flag_get name st of
                  None \<Rightarrow> None
                | Some f \<Rightarrow>
                    Some (st\<lparr>flags := rev (update_first (\<lambda>f. n = fname f) (\<lambda>f. f\<lparr>fspace := flag_space_idx st\<rparr>)
                                        (rev (flags st)))\<rparr>, []))
      | None \<Rightarrow> Some (st, [ErrOut (''Usage: fm <flag_name>  - moves the selected flag to the current flagspace'' @ nl)]))"

fun index_where :: "('a \<Rightarrow> bool) \<Rightarrow> 'a list \<Rightarrow> nat option" where
  "index_where P [] = None"
| "index_where P (x # xs) = (if P x then Some 0 else map_option Suc (index_where P xs))"

definition flag_space_set :: "string option \<Rightarrow> flags_state \<Rightarrow> flags_state" where
  "flag_space_set name st =
     (case name of
        None \<Rightarrow> st
      | Some n \<Rightarrow>
          (case index_where (\<lambda>s. s = Some n) (flag_spaces st) of
             Some i \<Rightarrow> st\<lparr>flag_space_idx := int i\<rparr>
           | None \<Rightarrow>
               (case index_where (\<lambda>s. s = None) (flag_spaces st) of
                  Some i \<Rightarrow> st\<lparr>flag_spaces := (flag_spaces st)[i := Some n], flag_space_idx := int i\<rparr>
                | None \<Rightarrow> st)))"

definition flag_space_remove :: "config_t \<Rightarrow> string \<Rightarrow> flags_state \<Rightarrow> flags_state" where
  "flag_space_remove cfg name st =
     (case index_where (\<lambda>s. s \<noteq> None \<and> (s = Some name \<or> str_at name 0 = CHR ''*'')) (flag_spaces st) of
        None \<Rightarrow> st
      | Some i \<Rightarrow>
          st\<lparr>flag_spaces := (flag_spaces st)[i := None],
             flag_space_idx := (if int i = flag_space_idx st then - 1 else flag_space_idx st),
             flags := (if c_interrupted cfg then flags st
                       else map (\<lambda>f. if fspace f = int i then f\<lparr>fspace := - 1\<rparr> else f) (flags st))\<rparr>)"

fun space_list_loop :: "int \<Rightarrow> nat \<Rightarrow> nat \<Rightarrow> string option list \<Rightarrow> out_event list" where
  "space_list_loop idx i j [] = []"
| "space_list_loop idx i j (s # ss) =
     (case s of
        Some n \<Rightarrow> ConsOut (fmt_02d (int j) @ '' '' @ [if int i = idx then CHR ''*'' else CHR '' ''] @ '' '' @ n @ nl)
                  # space_list_loop idx (Suc i) (Suc j) ss
      | None \<Rightarrow> space_list_loop idx (Suc i) j ss)"

definition flag_space_list :: "flags_state \<Rightarrow> out_event list" where
  "flag_space_list st = space_list_loop (flag_space_idx st) 0 0 (flag_spaces st)"

definition flag_space_init :: "flags_state \<Rightarrow> flags_state" where
  "flag_space_init st =
     (if flag_space_inited st then st
      else st\<lparr>flag_space_inited := True, flag_spaces := replicate FLAG_SPACES None\<rparr>)"

definition flag_space :: "config_t \<Rightarrow> string \<Rightarrow> flags_state \<Rightarrow> flags_state \<times> out_event list" where
  "flag_space cfg name0 st0 =
     (let st = flag_space_init st0; name = (if str_at name0 0 = CHR '' '' then tl name0 else name0) in
      if name = [] then (st, flag_space_list st)
      else if hd name = CHR ''*'' then (st\<lparr>flag_space_idx := - 1\<rparr>, [])
      else if hd name = CHR ''-'' then (flag_space_remove cfg (tl name) st, [])
      else if hd name = CHR ''?'' then
        (st, [ConsOut (''Usage: fs [name]'' @ nl),
              ConsOut (''  > fs regs     - create/switch to '' @ [CHR 0x27] @ ''regs'' @ [CHR 0x27] @ '' flagspace'' @ nl),
              ConsOut (''  > fs -regs    - remove '' @ [CHR 0x27] @ ''regs'' @ [CHR 0x27] @ '' space'' @ nl),
              ConsOut (''  > fs *        - select all spaces'' @ nl),
              ConsOut (''  > fs          - list all flag spaces'' @ nl)])
      else (flag_space_set (Some name) st, []))"

definition flag_remove_at :: "ut64 \<Rightarrow> flags_state \<Rightarrow> flags_state" where
  "flag_remove_at addr st = st\<lparr>flags := remove_first (\<lambda>flag. foffset flag = addr) (flags st)\<rparr>"

text \<open>\<^verbatim>\<open>flag_remove\<close>: by prefix or by name, and then, unless a name was found, by address.\<close>

definition flag_remove :: "(string \<Rightarrow> ut64) \<Rightarrow> config_t \<Rightarrow> string option \<Rightarrow> flags_state \<Rightarrow> flags_state" where
  "flag_remove get_math cfg name st =
     (case name of
        None \<Rightarrow> st
      | Some n \<Rightarrow>
          if n = [] then st
          else case strchr_split CHR ''*'' n of
            Some (str, rest) \<Rightarrow>
              flag_clear_by_addr cfg (get_math str)
                (if c_interrupted cfg then st
                 else st\<lparr>flags := filter (\<lambda>f. take (length str) (fname f) \<noteq> str) (flags st)\<rparr>)
          | None \<Rightarrow>
              if \<not> c_interrupted cfg \<and> (\<exists>f \<in> set (flags st). fname f = n)
              then st\<lparr>flags := filter (\<lambda>f. fname f \<noteq> n) (flags st)\<rparr>
              else flag_clear_by_addr cfg (get_math n) st)"

definition flag_is_valid_char :: "char \<Rightarrow> bool" where
  "flag_is_valid_char ch \<longleftrightarrow>
     (if ch \<in> set [CHR ''*'', CHR ''/'', CHR ''+'', CHR ''-'', CHR '' '', CHR 0x0A, CHR 0x09, CHR ''@'', CHR 0x60,
         CHR ''='', CHR ''>'', CHR ''<'', CHR ''['', CHR '']'', CHR '';'', CHR ''!'', CHR ''%''] then False
      else if 48 \<le> (of_char ch :: nat) \<and> (of_char ch :: nat) \<le> 57 then True
      else is_printable ch)"

definition flag_is_valid_name :: "string \<Rightarrow> bool" where
  "flag_is_valid_name name \<longleftrightarrow> name \<noteq> [] \<and> (\<forall>c \<in> set name. flag_is_valid_char c)"

text \<open>\<^verbatim>\<open>flag_filter_name\<close>: the characters kept, in the caller's buffer behind its leading blanks.\<close>

fun filter_name_loop :: "nat \<Rightarrow> string \<Rightarrow> string" where
  "filter_name_loop i [] = []"
| "filter_name_loop i (c # cs) =
     (if i > MAX_FLAG_LEN then []
      else if flag_is_valid_char c then c # filter_name_loop (Suc i) cs else filter_name_loop (Suc i) cs)"

definition flag_filter_name :: "string \<Rightarrow> string \<times> bool" where
  "flag_filter_name name =
     (let blanks = takeWhile (\<lambda>c. c = CHR '' '') name;
          oname = filter_name_loop 0 (dropWhile (\<lambda>c. c = CHR '' '') name)
      in (blanks @ oname, flag_is_valid_name oname))"

text \<open>\<^verbatim>\<open>flag_set\<close>: the new state, the returned value, and the output.\<close>

definition new_flag :: "config_t \<Rightarrow> string \<Rightarrow> ut64 \<Rightarrow> flags_state \<Rightarrow> flag_t" where
  "new_flag cfg name addr st =
     \<lparr>fname = take (FLAG_BSIZE - 1) name,
      namehash = (case strhash (take FLAG_BSIZE name) of Some h \<Rightarrow> h | None \<Rightarrow> 0),
      foffset = addr + flag_from_i st, flength = word_of_int (c_block_size cfg),
      fformat = c_last_print_format cfg, fspace = flag_space_idx st, fcmd = None\<rparr>"

definition flag_set_new :: "config_t \<Rightarrow> string \<Rightarrow> ut64 \<Rightarrow> flags_state \<Rightarrow> flags_state \<times> int \<times> out_event list" where
  "flag_set_new cfg name addr st = (st\<lparr>flags := flags st @ [new_flag cfg name addr st]\<rparr>, 0, [])"

definition flag_set ::
  "config_t \<Rightarrow> string \<Rightarrow> ut64 \<Rightarrow> bool \<Rightarrow> flags_state \<Rightarrow> flags_state \<times> int \<times> out_event list" where
  "flag_set cfg name addr dup st =
     (let fs = (if c_interrupted cfg then [] else flags st) in
      if \<not> dup \<and> name = ''*'' then
        (st, 2, map (\<lambda>f. ConsOut (''f '' @ fname f @ '' @ 0x'' @ fmt_llX (foffset f) @ nl)) fs)
      else if \<not> dup \<and> \<not> flag_is_valid_name name then
        (st, 2, [ErrOut (''invalid flag name '' @ [CHR 0x27] @ name @ [CHR 0x27] @ ''.'' @ nl)])
      else if \<not> dup \<and> \<not> (\<forall>c \<in> set (tl name). is_printable c) then
        (st, 2, [ErrOut (''invalid flag name'' @ nl)])
      else if dup then
        (if \<exists>f \<in> set fs. fname f = name \<and> foffset f = addr then (st, 1, [])
         else flag_set_new cfg name addr st)
      else if \<exists>f \<in> set fs. fname f = name then
        (st\<lparr>flags := update_first (\<lambda>f. fname f = name)
              (\<lambda>f. f\<lparr>foffset := addr + flag_from_i st, flength := word_of_int (c_block_size cfg),
                     fformat := c_last_print_format cfg\<rparr>) (flags st)\<rparr>, 1, [])
      else flag_set_new cfg name addr st)"

definition flag_set_undef ::
  "config_t \<Rightarrow> string \<Rightarrow> ut64 \<Rightarrow> bool \<Rightarrow> flags_state \<Rightarrow> flags_state \<times> int \<times> out_event list" where
  "flag_set_undef cfg name addr dup st =
     (case flag_get_by_addr cfg st addr of
        None \<Rightarrow> flag_set cfg name addr dup st
      | Some flag \<Rightarrow> if length (fname flag) < 4 then flag_set cfg name addr dup st else (st, 0, []))"

text \<open>
  \<^verbatim>\<open>flag_get_here_filter\<close> and its two-text variant: \<open>sel\<close> says which flags take part and what their
  names drop. The loop keeps the next address, the flag and its address, and the text dropped.
\<close>

fun here_loop ::
  "(string \<Rightarrow> string option) \<Rightarrow> ut64 \<Rightarrow> flag_t list \<Rightarrow> ut64 \<Rightarrow> (flag_t \<times> string) option \<Rightarrow> ut64
    \<Rightarrow> ut64 \<times> (flag_t \<times> string) option" where
  "here_loop sel at [] nextflag f ret = (nextflag, f)"
| "here_loop sel at (flag # fs) nextflag f ret =
     (case sel (fname flag) of
        None \<Rightarrow> here_loop sel at fs nextflag f ret
      | Some s \<Rightarrow>
          if foffset flag < nextflag \<and> foffset flag > at then here_loop sel at fs (foffset flag) f ret
          else if at \<ge> foffset flag \<and> foffset flag > ret then here_loop sel at fs nextflag (Some (flag, s)) (foffset flag)
          else here_loop sel at fs nextflag f ret)"

definition here_lookup ::
  "(string \<Rightarrow> string option) \<Rightarrow> ut64 \<Rightarrow> flag_t list \<Rightarrow> here_cache \<Rightarrow> here_cache \<times> string" where
  "here_lookup sel at fs h =
     (if at \<ge> sec_start h \<and> at < sec_end h then (h, sec_str h)
      else case here_loop sel at fs UT64_MAX None 0 of
        (nextflag, None) \<Rightarrow> (h\<lparr>sec_str := []\<rparr>, [])
      | (nextflag, Some (f, s)) \<Rightarrow>
          (let name = drop (length s) (fname f)
           in (\<lparr>sec_start = foffset f, sec_end = nextflag, sec_str = name\<rparr>, name)))"

definition here_sel :: "string \<Rightarrow> string \<Rightarrow> string option" where
  "here_sel str name =
     (if (str \<noteq> [] \<and> strstr name str = None) \<or> strstr name ''end'' \<noteq> None then None else Some str)"

definition here_sel2 :: "string \<Rightarrow> string \<Rightarrow> string \<Rightarrow> string option" where
  "here_sel2 str str2 name =
     (if (strstr name str = None \<and> strstr name str2 = None) \<or> strstr name ''_end'' \<noteq> None then None
      else if strstr name str \<noteq> None then Some str else Some str2)"

definition flag_get_here_filter :: "ut64 \<Rightarrow> string \<Rightarrow> flags_state \<Rightarrow> flags_state \<times> string" where
  "flag_get_here_filter at str st =
     (let (h, s) = here_lookup (here_sel str) at (flags st) (here1 st) in (st\<lparr>here1 := h\<rparr>, s))"

definition flag_get_here_filter2 :: "ut64 \<Rightarrow> string \<Rightarrow> string \<Rightarrow> flags_state \<Rightarrow> flags_state \<times> string" where
  "flag_get_here_filter2 at str str2 st =
     (let (h, s) = here_lookup (here_sel2 str str2) at (flags st) (here2 st) in (st\<lparr>here2 := h\<rparr>, s))"

section \<open>Names\<close>

lemma valid_char_printable: "flag_is_valid_char c \<Longrightarrow> is_printable c"
  by (auto simp: flag_is_valid_char_def is_printable_def split: if_splits)

definition digit_start :: "string \<Rightarrow> bool" where
  "digit_start n \<longleftrightarrow> 48 \<le> (of_char (str_at n 0) :: nat) \<and> (of_char (str_at n 0) :: nat) \<le> 57"

text \<open>The names that \<^verbatim>\<open>flag_set\<close> accepts, stores in full, and \<^verbatim>\<open>flag_get\<close> looks up.\<close>

definition flag_key :: "string \<Rightarrow> bool" where
  "flag_key n \<longleftrightarrow> flag_is_valid_name n \<and> length n < FLAG_BSIZE \<and> \<not> digit_start n"

definition flags_ok :: "flags_state \<Rightarrow> bool" where
  "flags_ok st \<longleftrightarrow> distinct (map fname (flags st)) \<and> (\<forall>f \<in> set (flags st). length (fname f) < FLAG_BSIZE)"

definition flag_rel :: "flags_state \<Rightarrow> string \<Rightarrow> ut64 option" where
  "flag_rel st n = map_option (\<lambda>f. foffset f - flag_from_i st) (flag_get (Some n) st)"

lemma flag_get_key: "flag_key n \<Longrightarrow> flag_get (Some n) st = List.find (\<lambda>f. n = fname f) (rev (flags st))"
  by (auto simp: flag_get_def flag_key_def digit_start_def)

lemma find_rev_distinct:
  assumes "distinct (map g xs)"
  shows "List.find (\<lambda>x. n = g x) (rev xs) = List.find (\<lambda>x. g x = n) xs"
  using assms
proof (induction xs)
  case (Cons x xs)
  show ?case
  proof (cases "g x = n")
    case True
    then have "List.find (\<lambda>x. n = g x) (rev xs) = None" using Cons.prems by (auto simp: find_None_iff)
    then show ?thesis using True by (simp add: find_append)
  next
    case False
    then show ?thesis using Cons by (auto simp: find_append split: option.splits)
  qed
qed simp

lemma flag_set_key:
  assumes "flag_key n" and "\<not> c_interrupted cfg"
  shows "fst (flag_set cfg n a False st) =
    (if \<exists>f \<in> set (flags st). fname f = n then
       st\<lparr>flags := update_first (\<lambda>f. fname f = n)
              (\<lambda>f. f\<lparr>foffset := a + flag_from_i st, flength := word_of_int (c_block_size cfg),
                     fformat := c_last_print_format cfg\<rparr>) (flags st)\<rparr>
     else st\<lparr>flags := flags st @ [new_flag cfg n a st]\<rparr>)"
proof -
  have v: "flag_is_valid_name n" using assms(1) by (simp add: flag_key_def)
  then have "n \<noteq> ''*''" by (auto simp: flag_is_valid_name_def flag_is_valid_char_def)
  moreover have "\<forall>c \<in> set (tl n). is_printable c"
    using v by (cases n) (auto simp: flag_is_valid_name_def valid_char_printable)
  ultimately show ?thesis using v assms(2) by (simp add: flag_set_def flag_set_new_def)
qed

lemma fname_new_flag: "flag_key n \<Longrightarrow> fname (new_flag cfg n a st) = n"
  by (simp add: new_flag_def flag_key_def FLAG_BSIZE_def)

lemma map_fname_update [simp]:
  "map fname (update_first P (\<lambda>f. f\<lparr>foffset := a, flength := l, fformat := fm\<rparr>) fs) = map fname fs"
  by (rule map_update_first) simp

lemma flags_ok_set:
  assumes "flags_ok st" and "flag_key n" and "\<not> c_interrupted cfg"
  shows "flags_ok (fst (flag_set cfg n a False st))"
proof -
  have "flags_ok st \<longleftrightarrow> distinct (map fname (flags st)) \<and> (\<forall>n \<in> set (map fname (flags st)). length n < FLAG_BSIZE)"
    for st by (simp add: flags_ok_def)
  with assms show ?thesis
    by (auto simp: flag_set_key fname_new_flag flag_key_def simp del: map_map set_map)
      (auto simp: flags_ok_def)
qed

lemma flag_get_set:
  assumes "flags_ok st" and "flag_key n" and "flag_key k" and "\<not> c_interrupted cfg"
  shows "flag_rel (fst (flag_set cfg n a False st)) k = (if n = k then Some a else flag_rel st k)"
proof -
  let ?st = "fst (flag_set cfg n a False st)"
  have look: "flags_ok s \<Longrightarrow> flag_get (Some k) s = List.find (\<lambda>f. fname f = k) (flags s)" for s
    using flag_get_key [OF assms(3)] find_rev_distinct [of fname "flags s" k] by (simp add: flags_ok_def)
  let ?u = "\<lambda>f. f\<lparr>foffset := a + flag_from_i st, flength := word_of_int (c_block_size cfg),
                     fformat := c_last_print_format cfg\<rparr>"
  have ff: "flag_from_i ?st = flag_from_i st" using assms by (simp add: flag_set_key)
  show ?thesis
  proof (cases "\<exists>f \<in> set (flags st). fname f = n")
    case True
    then obtain f where f: "List.find (\<lambda>f. fname f = n) (flags st) = Some f"
      by (metis (mono_tags, lifting) find_None_iff2 not_None_eq)
    have "List.find (\<lambda>f. fname f = k) (flags ?st) =
        (if n = k then Some (?u f) else List.find (\<lambda>f. fname f = k) (flags st))"
      using True assms find_update_first_same [OF f, of ?u]
        find_update_first_other [of "\<lambda>f. fname f = n" "\<lambda>f. fname f = k" ?u "flags st"]
      by (auto simp: flag_set_key find_SomeD [OF f])
    then show ?thesis using look [OF assms(1)] look [OF flags_ok_set [OF assms(1,2,4)]] ff
      by (simp add: flag_rel_def)
  next
    case False
    then have "List.find (\<lambda>f. fname f = n) (flags st) = None" by (auto simp: find_None_iff)
    then have "List.find (\<lambda>f. fname f = k) (flags ?st) =
        (if n = k then Some (new_flag cfg n a st) else List.find (\<lambda>f. fname f = k) (flags st))"
      using False assms by (auto simp: flag_set_key find_append fname_new_flag split: option.splits)
    then show ?thesis using look [OF assms(1)] look [OF flags_ok_set [OF assms(1,2,4)]] ff
      by (simp add: flag_rel_def new_flag_def)
  qed
qed

text \<open>The flags as a key-value table: the contract \<open>kv_store\<close>, with equality of names.\<close>

interpretation fl: kv_store flags_ok "\<lambda>st n. flag_key n" "(=)" flag_rel
    "\<lambda>n a st. fst (flag_set (cfg\<lparr>c_interrupted := False\<rparr>) n a False st)" for cfg
  by unfold_locales (simp_all add: flags_ok_set flag_get_set)

section \<open>Removal\<close>

lemma filter_remove_first: "filter (\<lambda>x. \<not> P x) (remove_first P xs) = filter (\<lambda>x. \<not> P x) xs"
  by (induction xs) auto

lemma clear_by_addr_filter: "clear_by_addr_loop a fs = filter (\<lambda>f. foffset f \<noteq> a) fs"
proof (induction a fs rule: clear_by_addr_loop.induct)
  case (1 a fs)
  show ?case
  proof (cases "List.find (\<lambda>f. foffset f = a) fs")
    case None
    then have "filter (\<lambda>f. foffset f \<noteq> a) fs = fs" by (auto simp: find_None_iff filter_id_conv)
    then show ?thesis using None by (subst clear_by_addr_loop.simps) simp
  next
    case (Some f)
    then show ?thesis using 1 filter_remove_first [of "\<lambda>f. foffset f = a" fs]
      by (subst clear_by_addr_loop.simps) simp
  qed
qed

section \<open>The nearest flag\<close>

definition closer :: "bool \<Rightarrow> ut64 \<Rightarrow> ut64 \<Rightarrow> bool" where
  "closer fwd a b \<longleftrightarrow> (if fwd then a < b else a > b)"

lemma next_loop_spec:
  assumes "\<forall>n. nice = Some n \<longrightarrow> closer fwd sk (foffset n)"
  shows "case next_loop fwd sk fs nice of
      None \<Rightarrow> nice = None \<and> (\<forall>f \<in> set fs. \<not> closer fwd sk (foffset f))
    | Some g \<Rightarrow> (nice = Some g \<or> g \<in> set fs) \<and> closer fwd sk (foffset g) \<and>
        (\<forall>n. nice = Some n \<longrightarrow> \<not> closer fwd (foffset n) (foffset g)) \<and>
        (\<forall>f \<in> set fs. closer fwd sk (foffset f) \<longrightarrow> \<not> closer fwd (foffset f) (foffset g))"
  using assms
proof (induction fs arbitrary: nice)
  case Nil
  then show ?case by (auto simp: closer_def split: option.splits)
next
  case (Cons f fs)
  have c: "(if fwd then foffset f > sk else foffset f < sk) = closer fwd sk (foffset f)"
    "(if fwd then foffset f < foffset n else foffset f > foffset n) = closer fwd (foffset f) (foffset n)" for n
    by (simp_all add: closer_def)
  have tr: "closer fwd a b \<Longrightarrow> \<not> closer fwd c b \<Longrightarrow> \<not> closer fwd c a" for a b c
    by (auto simp: closer_def split: if_splits)
  show ?case
  proof (cases "closer fwd sk (foffset f) \<and> (\<forall>n. nice = Some n \<longrightarrow> closer fwd (foffset f) (foffset n))")
    case True
    then have e: "next_loop fwd sk (f # fs) nice = next_loop fwd sk fs (Some f)"
      by (cases nice) (simp_all add: c)
    show ?thesis using Cons.IH [of "Some f"] True unfolding e
      by (auto split: option.splits dest: tr simp: closer_def split: if_splits)
  next
    case False
    then have e: "next_loop fwd sk (f # fs) nice = next_loop fwd sk fs nice"
      by (cases nice) (simp_all add: c)
    show ?thesis using Cons.IH [of nice] False Cons.prems unfolding e
      by (auto split: option.splits simp: closer_def split: if_splits)
  qed
qed

section \<open>Filtering names\<close>

lemma filter_name_loop_eq: "filter_name_loop i cs = filter flag_is_valid_char (take (Suc MAX_FLAG_LEN - i) cs)"
proof (induction i cs rule: filter_name_loop.induct)
  case (2 i c cs)
  show ?case
  proof (cases "i > MAX_FLAG_LEN")
    case False
    then have "Suc MAX_FLAG_LEN - i = Suc (Suc MAX_FLAG_LEN - Suc i)" by simp
    then show ?thesis using 2 False by (auto simp del: diff_Suc_Suc)
  qed simp
qed simp

section \<open>The reference flag of an address\<close>

lemma sint_ucast_small: "unat w < 2 ^ 31 \<Longrightarrow> sint (ucast w :: ut32) = int (unat w)" for w :: ut64
proof -
  assume "unat w < 2 ^ 31"
  then have "int (unat w) < int (2 ^ 31)" by (simp only: of_nat_less_iff)
  moreover have "- (2 ^ 31) \<le> int (unat w)" by (rule order_trans [of _ 0]) simp_all
  ultimately have "signed_take_bit 31 (int (unat w)) = int (unat w)"
    by (intro signed_take_bit_int_eq_self) simp_all
  then show ?thesis by (simp add: signed_ucast_eq)
qed

text \<open>The loop of \<^verbatim>\<open>string_flag_offset\<close> with \<^verbatim>\<open>idx == -2\<close>, no match text and no virtual base.\<close>

lemma sfo_loop_nearest:
  assumes "\<forall>r. ref = Some r \<longrightarrow> foffset r < seek"
  shows "\<exists>ref' found cnt. sfo_loop [] seek 0 (- 2) fs ([], ref, False, 0) = ([], ref', found, cnt) \<and>
    (case ref' of
       None \<Rightarrow> ref = None \<and> (\<forall>f \<in> set fs. \<not> foffset f \<le> seek)
     | Some r \<Rightarrow> (ref = Some r \<or> r \<in> set fs) \<and> foffset r \<le> seek \<and>
         (\<forall>q. ref = Some q \<longrightarrow> foffset q \<le> foffset r) \<and>
         (\<forall>f \<in> set fs. foffset f \<le> seek \<longrightarrow> foffset f \<le> foffset r))"
  using assms
proof (induction fs arbitrary: ref)
  case Nil
  then show ?case by (auto split: option.splits)
next
  case (Cons f fs)
  consider "foffset f = seek" | "foffset f < seek" "ref = None \<or> foffset f > foffset (the ref)"
    | "\<not> foffset f \<le> seek \<or> (ref \<noteq> None \<and> foffset f \<le> foffset (the ref))"
    by fastforce
  then show ?case
  proof cases
    case 1
    with Cons.prems show ?thesis by (force simp: FLAG_MAXCOUNT_def)
  next
    case 2
    then have e: "sfo_loop [] seek 0 (- 2) (f # fs) ([], ref, False, 0) =
        sfo_loop [] seek 0 (- 2) fs ([], Some f, False, 0)"
      by (cases ref) auto
    from Cons.IH [of "Some f"] 2 show ?thesis unfolding e
      by (fastforce split: option.splits)
  next
    case 3
    then have e: "sfo_loop [] seek 0 (- 2) (f # fs) ([], ref, False, 0) = sfo_loop [] seek 0 (- 2) fs ([], ref, False, 0)"
      using Cons.prems by (cases ref) auto
    from Cons.IH [of ref] 3 Cons.prems show ?thesis unfolding e
      by (fastforce split: option.splits)
  qed
qed

section \<open>The cache of the section name\<close>

abbreviation selected :: "(string \<Rightarrow> string option) \<Rightarrow> flag_t list \<Rightarrow> flag_t set" where
  "selected sel fs \<equiv> {f \<in> set fs. sel (fname f) \<noteq> None}"

lemma here_loop_cong:
  "(\<And>f. f \<in> selected sel fs \<Longrightarrow> foffset f \<le> at' \<longleftrightarrow> foffset f \<le> at) \<Longrightarrow>
     here_loop sel at' fs nx f ret = here_loop sel at fs nx f ret"
proof (induction fs arbitrary: nx f ret)
  case (Cons g fs)
  have IH: "here_loop sel at' fs nx f ret = here_loop sel at fs nx f ret" for nx f ret
    using Cons by simp
  show ?case
  proof (cases "sel (fname g)")
    case (Some s)
    then have "foffset g \<le> at' \<longleftrightarrow> foffset g \<le> at" using Cons.prems by simp
    with Some IH show ?thesis by (simp add: not_le [symmetric])
  qed (use IH in simp)
qed simp

lemma here_loop_spec:
  assumes "here_loop sel at fs nx fl ret = (nx', fl')"
    and "\<forall>f s. fl = Some (f, s) \<longrightarrow> ret = foffset f" and "fl = None \<longrightarrow> ret = 0"
  shows "nx' \<le> nx \<and> (\<forall>f \<in> selected sel fs. foffset f > at \<longrightarrow> nx' \<le> foffset f) \<and>
    (case fl' of
       None \<Rightarrow> fl = None \<and> (\<forall>f \<in> selected sel fs. foffset f \<le> at \<longrightarrow> foffset f = 0)
     | Some (g, s) \<Rightarrow> ret \<le> foffset g \<and> (fl = fl' \<or> g \<in> selected sel fs \<and> foffset g \<le> at) \<and>
         (\<forall>f \<in> selected sel fs. foffset f \<le> at \<longrightarrow> foffset f \<le> foffset g))"
  using assms
proof (induction fs arbitrary: nx fl ret)
  case Nil
  then show ?case by (auto split: option.splits)
next
  case (Cons f fs)
  show ?case
  proof (cases "sel (fname f)")
    case None
    with Cons.IH [of nx fl ret] Cons.prems show ?thesis by (auto split: option.splits)
  next
    case (Some s)
    consider "foffset f < nx" "foffset f > at" | "\<not> (foffset f < nx \<and> foffset f > at)" "at \<ge> foffset f" "foffset f > ret"
      | "\<not> (foffset f < nx \<and> foffset f > at)" "\<not> (at \<ge> foffset f \<and> foffset f > ret)" by blast
    then show ?thesis
    proof cases
      case 1
      then have "here_loop sel at fs (foffset f) fl ret = (nx', fl')" using Cons.prems(1) Some by simp
      from Cons.IH [OF this Cons.prems(2,3)] 1 show ?thesis by (auto split: option.splits)
    next
      case 2
      then have "\<not> at < foffset f" by simp
      then have "here_loop sel at fs nx (Some (f, s)) (foffset f) = (nx', fl')" using Cons.prems(1) Some 2 by simp
      from Cons.IH [OF this] 2 Some Cons.prems(2,3) show ?thesis by (auto split: option.splits)
    next
      case 3
      then have l: "here_loop sel at fs nx fl ret = (nx', fl')" using Cons.prems(1) Some by (auto split: if_splits)
      show ?thesis using Cons.IH [OF l Cons.prems(2,3)] 3 Cons.prems(2,3)
        by (cases fl') (auto simp: word_gt_0 split: option.splits)
    qed
  qed
qed

text \<open>What a lookup without the cache answers, and when the cache agrees with the flags.\<close>

definition here_answer :: "(string \<Rightarrow> string option) \<Rightarrow> ut64 \<Rightarrow> flag_t list \<Rightarrow> string" where
  "here_answer sel at fs =
     (case snd (here_loop sel at fs UT64_MAX None 0) of None \<Rightarrow> [] | Some (f, s) \<Rightarrow> drop (length s) (fname f))"

definition cache_ok :: "(string \<Rightarrow> string option) \<Rightarrow> flag_t list \<Rightarrow> here_cache \<Rightarrow> bool" where
  "cache_ok sel fs h \<longleftrightarrow> (\<forall>at. sec_start h \<le> at \<and> at < sec_end h \<longrightarrow> here_answer sel at fs = sec_str h)"

lemma here_loop_window:
  assumes "here_loop sel at fs UT64_MAX None 0 = (nx, Some (f, s))" and "foffset f \<le> at'" and "at' < nx"
  shows "here_loop sel at' fs UT64_MAX None 0 = (nx, Some (f, s))"
proof -
  note sp = here_loop_spec [OF assms(1), simplified]
  have "here_loop sel at' fs UT64_MAX None 0 = here_loop sel at fs UT64_MAX None 0"
  proof (rule here_loop_cong)
    fix g assume g: "g \<in> selected sel fs"
    show "foffset g \<le> at' \<longleftrightarrow> foffset g \<le> at"
    proof (cases "foffset g \<le> at")
      case True
      then have "foffset g \<le> foffset f" using sp g by auto
      with True assms(2) show ?thesis by simp
    next
      case False
      then have "nx \<le> foffset g" using sp g by auto
      with False assms(3) show ?thesis by simp
    qed
  qed
  with assms(1) show ?thesis by simp
qed

lemma here_lookup_ok:
  assumes "cache_ok sel fs h"
  shows "snd (here_lookup sel at fs h) = here_answer sel at fs"
    and "sec_start h = sec_end h \<or> sec_start h \<le> at \<and> at < sec_end h \<or>
         snd (here_loop sel at fs UT64_MAX None 0) \<noteq> None \<Longrightarrow> cache_ok sel fs (fst (here_lookup sel at fs h))"
proof -
  obtain nx r where l: "here_loop sel at fs UT64_MAX None 0 = (nx, r)" by fastforce
  show "snd (here_lookup sel at fs h) = here_answer sel at fs"
    using assms l by (auto simp: here_lookup_def here_answer_def cache_ok_def Let_def split: option.splits)
  assume a: "sec_start h = sec_end h \<or> sec_start h \<le> at \<and> at < sec_end h \<or>
         snd (here_loop sel at fs UT64_MAX None 0) \<noteq> None"
  show "cache_ok sel fs (fst (here_lookup sel at fs h))"
  proof (cases "sec_start h \<le> at \<and> at < sec_end h")
    case True
    with assms show ?thesis by (simp add: here_lookup_def)
  next
    case False
    show ?thesis
    proof (cases r)
      case None
      with False a l show ?thesis by (auto simp: here_lookup_def cache_ok_def)
    next
      case (Some fs')
      obtain f s where r: "r = Some (f, s)" using Some by (cases fs') simp
      have "here_answer sel at' fs = drop (length s) (fname f)" if "foffset f \<le> at'" "at' < nx" for at'
        using here_loop_window [OF l [unfolded r] that] by (simp add: here_answer_def)
      with False l r show ?thesis by (auto simp: here_lookup_def cache_ok_def Let_def)
    qed
  qed
qed

text \<open>
  A lookup that finds no flag clears the text but keeps the window: inside the old window the next
  answer is the empty text, whatever the flags say.
\<close>

lemma here_lookup_stale:
  assumes "\<not> (sec_start h \<le> at \<and> at < sec_end h)" and "snd (here_loop sel at fs UT64_MAX None 0) = None"
    and "sec_start h \<le> at'" and "at' < sec_end h"
  shows "snd (here_lookup sel at' fs (fst (here_lookup sel at fs h))) = []"
proof -
  have "fst (here_lookup sel at fs h) = h\<lparr>sec_str := []\<rparr>"
    using assms(1,2) by (auto simp: here_lookup_def split: prod.splits)
  then show ?thesis using assms(3,4) by (simp add: here_lookup_def)
qed

section \<open>Flag spaces\<close>

lemma index_where_Some: "index_where P xs = Some i \<Longrightarrow> i < length xs \<and> P (xs ! i)"
  by (induction xs arbitrary: i) (auto split: if_splits)

lemma index_where_None: "index_where P xs = None \<longleftrightarrow> (\<forall>x \<in> set xs. \<not> P x)"
  by (induction xs) auto

text \<open>The selected space is \<^verbatim>\<open>-1\<close> or the index of a used entry, and no two entries have one name.\<close>

definition spaces_ok :: "flags_state \<Rightarrow> bool" where
  "spaces_ok st \<longleftrightarrow> length (flag_spaces st) = FLAG_SPACES \<and>
     (flag_space_idx st = - 1 \<or>
      0 \<le> flag_space_idx st \<and> nat (flag_space_idx st) < FLAG_SPACES \<and>
      flag_spaces st ! nat (flag_space_idx st) \<noteq> None) \<and>
     (\<forall>i < FLAG_SPACES. \<forall>j < FLAG_SPACES.
        flag_spaces st ! i \<noteq> None \<and> flag_spaces st ! i = flag_spaces st ! j \<longrightarrow> i = j)"

lemma spaces_ok_set: "spaces_ok st \<Longrightarrow> spaces_ok (flag_space_set name st)"
proof (cases name)
  case (Some n)
  assume ok: "spaces_ok st"
  show ?thesis
  proof (cases "index_where (\<lambda>s. s = Some n) (flag_spaces st)")
    case (Some i)
    with ok \<open>name = Some n\<close> index_where_Some [OF Some] show ?thesis by (auto simp: flag_space_set_def spaces_ok_def)
  next
    case None
    then have fresh: "\<forall>s \<in> set (flag_spaces st). s \<noteq> Some n" by (simp add: index_where_None)
    show ?thesis
    proof (cases "index_where (\<lambda>s. s = None) (flag_spaces st)")
      case (Some i)
      from ok fresh have "\<forall>j < FLAG_SPACES. flag_spaces st ! j \<noteq> Some n"
        by (auto simp: spaces_ok_def)
      with ok \<open>name = Some n\<close> None index_where_Some [OF Some] Some show ?thesis
        by (auto simp: flag_space_set_def spaces_ok_def nth_list_update)
    qed (use ok None \<open>name = Some n\<close> in \<open>simp add: flag_space_set_def\<close>)
  qed
qed (simp add: flag_space_set_def)

lemma spaces_ok_remove: "spaces_ok st \<Longrightarrow> spaces_ok (flag_space_remove cfg name st)"
proof (cases "index_where (\<lambda>s. s \<noteq> None \<and> (s = Some name \<or> str_at name 0 = CHR ''*'')) (flag_spaces st)")
  case (Some i)
  assume "spaces_ok st"
  with Some index_where_Some [OF Some] show ?thesis
    by (auto simp: flag_space_remove_def spaces_ok_def nth_list_update)
qed (simp add: flag_space_remove_def)

lemma spaces_ok_none: "spaces_ok st \<Longrightarrow> spaces_ok (st\<lparr>flag_space_idx := - 1\<rparr>)"
  unfolding spaces_ok_def by (elim conjE, intro conjI) simp_all

section \<open>Properties\<close>

text \<open>
  C4 After any sequence of \<^verbatim>\<open>flag_set\<close> (without duplicates) of valid names of fewer than 40 characters
  that do not start with a digit, \<^verbatim>\<open>flag_get_addr\<close> of such a name is the last address it was set to,
  plus the base of \<^verbatim>\<open>ff\<close>; a name never set keeps what it had, and no name occurs twice.
\<close>

theorem flag_set_last_write:
  assumes "flags_ok st" and "flag_key n" and "\<forall>(k, a) \<in> set kas. flag_key k" and "\<not> c_interrupted cfg"
  defines "st' \<equiv> fold (\<lambda>(k, a) s. fst (flag_set cfg k a False s)) kas st"
  shows "flags_ok st' \<and>
    flag_rel st' n = (case List.find (\<lambda>(k, a). k = n) (rev kas) of Some (k, a) \<Rightarrow> Some a | None \<Rightarrow> flag_rel st n)"
proof -
  have c: "cfg\<lparr>c_interrupted := False\<rparr> = cfg" using assms(4) by (cases cfg) simp
  have "fl.puts cfg kas st = st'" using fl.puts_def [of cfg kas st] unfolding st'_def c .
  with fl.get_puts [OF assms(1-3), of cfg] fl.puts_keep [OF assms(1-3), of cfg] show ?thesis by simp
qed

theorem flag_set_last_write_witness:
  "flag_rel (fold (\<lambda>(k, a) s. fst (flag_set config_zero k a False s)) [(''sym.main'', 1), (''sym.main'', 2)]
     flags_zero) ''sym.main'' = Some 2"
proof -
  have "flag_key ''sym.main''"
    by (simp add: flag_key_def flag_is_valid_name_def flag_is_valid_char_def is_printable_def digit_start_def
        FLAG_BSIZE_def str_at_def)
  moreover have "flags_ok flags_zero" by (simp add: flags_ok_def flags_zero_def Let_def)
  ultimately show ?thesis
    using flag_set_last_write [of flags_zero "''sym.main''" "[(''sym.main'', 1), (''sym.main'', 2)]" config_zero]
    by simp
qed

text \<open>A flag at an address, for the examples.\<close>

definition flag_at :: "string \<Rightarrow> ut64 \<Rightarrow> flag_t" where
  "flag_at n a = \<lparr>fname = n, namehash = 0, foffset = a, flength = 1, fformat = 0, fspace = - 1, fcmd = None\<rparr>"

text \<open>
  \<^verbatim>\<open>flag_remove\<close> with a name removes the flags of that name and no other; when there is none it
  removes the flags at the address the text evaluates to. With \<^verbatim>\<open>prefix*\<close> it removes the flags whose
  name starts with the prefix, and also those at the address the prefix evaluates to.
\<close>

theorem flag_remove_effect:
  assumes "\<not> c_interrupted cfg" and "n \<noteq> []"
  shows "flags (flag_remove gm cfg (Some n) st) =
    filter (\<lambda>f. case strchr_split CHR ''*'' n of
        Some (p, r) \<Rightarrow> take (length p) (fname f) \<noteq> p \<and> foffset f \<noteq> gm p
      | None \<Rightarrow> if \<exists>g \<in> set (flags st). fname g = n then fname f \<noteq> n else foffset f \<noteq> gm n) (flags st)"
proof (cases "strchr_split CHR ''*'' n")
  case None
  with assms show ?thesis
    by (simp add: flag_remove_def flag_clear_by_addr_def clear_by_addr_filter del: strchr_split_None)
next
  case (Some pr)
  with assms show ?thesis
    by (cases pr) (simp add: flag_remove_def flag_clear_by_addr_def clear_by_addr_filter conj_commute)
qed

theorem flag_remove_effect_witness:
  "map fname (flags (flag_remove (\<lambda>_. 0) config_zero (Some ''sym.*'')
     (flags_zero\<lparr>flags := [flag_at ''sym.a'' 5, flag_at ''entry'' 0, flag_at ''hit'' 9]\<rparr>))) = [''hit'']"
  by (subst flag_remove_effect) (simp_all add: flag_at_def)

text \<open>
  \<^verbatim>\<open>flag_get_next\<close> finds the nearest flag: with delta 1 the least address above the seek, otherwise
  the greatest below it, and nothing only when there is none.
\<close>

theorem flag_get_next_nearest:
  "case flag_get_next cfg delta st of
     None \<Rightarrow> (\<forall>f \<in> set (flags st). if delta = 1 then foffset f \<le> c_seek cfg else foffset f \<ge> c_seek cfg)
   | Some g \<Rightarrow> g \<in> set (flags st) \<and>
       (if delta = 1
        then foffset g > c_seek cfg \<and> (\<forall>f \<in> set (flags st). foffset f > c_seek cfg \<longrightarrow> foffset g \<le> foffset f)
        else foffset g < c_seek cfg \<and> (\<forall>f \<in> set (flags st). foffset f < c_seek cfg \<longrightarrow> foffset f \<le> foffset g))"
  using next_loop_spec [of None "delta = 1" "c_seek cfg" "flags st"]
  by (auto simp: flag_get_next_def closer_def not_less split: option.splits if_splits)

theorem flag_get_next_nearest_witness:
  "map_option foffset (flag_get_next (config_zero\<lparr>c_seek := 4\<rparr>) 1
     (flags_zero\<lparr>flags := [flag_at ''c'' 9, flag_at ''b'' 7]\<rparr>)) = Some 7"
  using flag_get_next_nearest [where cfg = "config_zero\<lparr>c_seek := 4\<rparr>" and delta = 1
      and st = "flags_zero\<lparr>flags := [flag_at ''c'' 9, flag_at ''b'' 7]\<rparr>"]
  by (auto simp: flag_at_def split: option.splits)

text \<open>
  The text \<^verbatim>\<open>string_flag_offset\<close> gives for an address (\<^verbatim>\<open>idx == -2\<close>, no match text, no virtual base) names
  a flag with the greatest offset not above the address, followed by the distance, cut to 31
  characters; it reports nothing exactly when every flag lies above.
\<close>

theorem string_flag_offset_nearest:
  assumes "\<not> c_interrupted cfg" and "c_vaddr cfg = 0"
  shows "\<exists>buf ret. string_flag_offset cfg d [] sk (- 2) st = (buf, ret) \<and>
    (if \<exists>f \<in> set (flags st). foffset f \<le> sk
     then ret \<and> (\<exists>r \<in> set (flags st). foffset r \<le> sk \<and> (\<forall>f \<in> set (flags st). foffset f \<le> sk \<longrightarrow> foffset f \<le> foffset r) \<and>
            (unat (sk - foffset r) < 2 ^ 31 \<longrightarrow>
               buf = take 31 (fname r @ ''+0x'' @ fmt_x (unat (sk - foffset r)))))
     else \<not> ret)"
proof -
  obtain ref found cnt where l: "sfo_loop [] sk 0 (- 2) (flags st) ([], None, False, 0) = ([], ref, found, cnt)"
    and r: "case ref of None \<Rightarrow> (\<forall>f \<in> set (flags st). \<not> foffset f \<le> sk)
      | Some r \<Rightarrow> r \<in> set (flags st) \<and> foffset r \<le> sk \<and> (\<forall>f \<in> set (flags st). foffset f \<le> sk \<longrightarrow> foffset f \<le> foffset r)"
    using sfo_loop_nearest [of None sk "flags st"] by (fastforce split: option.splits)
  show ?thesis
  proof (cases ref)
    case None
    with r l assms show ?thesis by (auto simp: string_flag_offset_def)
  next
    case (Some q)
    let ?d = "sint (ucast (sk - foffset q) :: ut32)"
    have d: "?d = int (unat (sk - foffset q))" if "unat (sk - foffset q) < 2 ^ 31"
      by (rule sint_ucast_small [OF that])
    let ?B = "take 31 (if ?d < 0 then fname q @ ''-0x'' @ fmt_x (nat (- ?d)) else fname q @ ''+0x'' @ fmt_x (nat ?d))"
    have e: "string_flag_offset cfg d [] sk (- 2) st = (?B, ?B \<noteq> [])"
      using l Some assms by (simp add: string_flag_offset_def Let_def)
    have ne: "?B \<noteq> []" by simp
    have q: "q \<in> set (flags st)" "foffset q \<le> sk" "\<forall>f \<in> set (flags st). foffset f \<le> sk \<longrightarrow> foffset f \<le> foffset q"
      using r Some by auto
    have B: "?B = take 31 (fname q @ ''+0x'' @ fmt_x (unat (sk - foffset q)))" if "unat (sk - foffset q) < 2 ^ 31"
      using d [OF that] by simp
    have "(\<exists>f \<in> set (flags st). foffset f \<le> sk) = True" using q by blast
    with e ne q B show ?thesis
      by (intro exI [of _ ?B] exI [of _ True] conjI) (simp, metis)
  qed
qed

theorem string_flag_offset_nearest_witness:
  "fst (string_flag_offset config_zero 0 [] 0x18 (- 2)
     (flags_zero\<lparr>flags := [flag_at ''main'' 0x10, flag_at ''low'' 0]\<rparr>)) = ''main+0x8''"
proof -
  let ?st = "flags_zero\<lparr>flags := [flag_at ''main'' 0x10, flag_at ''low'' 0]\<rparr>"
  have "fmt_x 8 = ''8''" by (simp add: fmt_x_def digits_base.simps digit_char_def char_of_eq_iff)
  then show ?thesis using string_flag_offset_nearest [of config_zero 0 "0x18" ?st]
    by (auto simp: flag_at_def)
qed

text \<open>With \<^verbatim>\<open>idx == 0\<close> a flag at the address itself is reported as not found.\<close>

lemma string_flag_offset_exact_not_found:
  "snd (string_flag_offset config_zero d [] 0x10 0 (flags_zero\<lparr>flags := [flag_at n 0x10]\<rparr>)) = False"
  by (simp add: string_flag_offset_def flag_at_def FLAG_MAXCOUNT_def)

text \<open>
  The cached lookup of the section name answers what a scan of the flags answers, whenever the
  cache agrees with the flags and the text; the cache of a lookup that found a flag does.
\<close>

theorem flag_get_here_filter_cached:
  assumes "cache_ok (here_sel str) (flags st) (here1 st)"
  shows "snd (flag_get_here_filter at str st) = here_answer (here_sel str) at (flags st) \<and>
     (snd (here_loop (here_sel str) at (flags st) UT64_MAX None 0) \<noteq> None \<longrightarrow>
        cache_ok (here_sel str) (flags st) (here1 (fst (flag_get_here_filter at str st))))"
  using here_lookup_ok [OF assms, of at] by (auto simp: flag_get_here_filter_def split: prod.splits)

theorem flag_get_here_filter_cached_witness:
  "snd (flag_get_here_filter 0x18 ''sec.'' (flags_zero\<lparr>flags := [flag_at ''sec.text'' 0x10, flag_at ''sec.data'' 0x20]\<rparr>))
     = ''text''"
proof -
  let ?st = "flags_zero\<lparr>flags := [flag_at ''sec.text'' 0x10, flag_at ''sec.data'' 0x20]\<rparr>"
  have "cache_ok (here_sel ''sec.'') (flags ?st) (here1 ?st)"
    by (auto simp: cache_ok_def flags_zero_def Let_def)
  moreover have "here_answer (here_sel ''sec.'') 0x18 (flags ?st) = ''text''"
    by (simp add: here_answer_def flag_at_def here_sel_def strstr_eval)
  ultimately show ?thesis using flag_get_here_filter_cached [of "''sec.''" ?st "0x18"] by simp
qed

text \<open>
  \<^verbatim>\<open>flag_filter_name\<close> keeps the valid ones among the first 21 characters behind the leading blanks, so
  its result is a name that \<^verbatim>\<open>flag_set\<close> accepts, or empty; it reports which.
\<close>

theorem flag_filter_name_valid:
  "\<exists>kept. flag_filter_name s = (takeWhile (\<lambda>c. c = CHR '' '') s @ kept, kept \<noteq> []) \<and> length kept \<le> 21 \<and>
     (kept \<noteq> [] \<longrightarrow> flag_is_valid_name kept)"
proof -
  let ?k = "filter_name_loop 0 (dropWhile (\<lambda>c. c = CHR '' '') s)"
  have "length ?k \<le> 21" unfolding filter_name_loop_eq MAX_FLAG_LEN_def
    by (rule order_trans [OF length_filter_le]) simp
  moreover have "\<forall>c \<in> set ?k. flag_is_valid_char c" by (simp add: filter_name_loop_eq)
  ultimately show ?thesis
    by (intro exI [of _ ?k]) (auto simp: flag_filter_name_def Let_def flag_is_valid_name_def)
qed

theorem flag_filter_name_valid_witness: "snd (flag_filter_name ''a b'') = True \<and> flag_is_valid_name ''ab''"
proof -
  have e: "flag_filter_name ''a b'' = (''ab'', True)"
    by (simp add: flag_filter_name_def MAX_FLAG_LEN_def flag_is_valid_name_def flag_is_valid_char_def
        is_printable_def)
  then show ?thesis using flag_filter_name_valid [of "''a b''"] by simp
qed

text \<open>
  The command \<^verbatim>\<open>fs\<close> keeps the table of flag spaces consistent: the selected space is none or a used
  entry, and no name is entered twice; a space that has room for it is selected under its name.
\<close>

theorem flag_space_invariant:
  assumes "spaces_ok st" and "flag_space_inited st"
  shows "spaces_ok (fst (flag_space cfg name st)) \<and>
    (None \<in> set (flag_spaces st) \<longrightarrow>
       flag_space_get (flag_space_idx (flag_space_set (Some n) st)) (flag_space_set (Some n) st) = Some n)"
proof -
  have init: "flag_space_init st = st" using assms(2) by (simp add: flag_space_init_def)
  have "spaces_ok (fst (flag_space cfg name st))"
    using assms(1) spaces_ok_set [OF assms(1)] spaces_ok_remove [OF assms(1)] spaces_ok_none [OF assms(1)]
    by (simp add: flag_space_def init Let_def)
  moreover have "flag_space_get (flag_space_idx (flag_space_set (Some n) st)) (flag_space_set (Some n) st) = Some n"
    if room: "None \<in> set (flag_spaces st)"
  proof (cases "index_where (\<lambda>s. s = Some n) (flag_spaces st)")
    case (Some i)
    with assms(1) index_where_Some [OF Some] show ?thesis
      by (auto simp: flag_space_set_def flag_space_get_def spaces_ok_def FLAG_SPACES_def)
  next
    case None
    from room have "index_where (\<lambda>s. s = None) (flag_spaces st) \<noteq> None" by (auto simp: index_where_None)
    then obtain i where i: "index_where (\<lambda>s. s = None) (flag_spaces st) = Some i" by auto
    with assms(1) index_where_Some [OF i] None show ?thesis
      by (auto simp: flag_space_set_def flag_space_get_def spaces_ok_def FLAG_SPACES_def)
  qed
  ultimately show ?thesis by blast
qed

theorem flag_space_invariant_witness: "spaces_ok (fst (flag_space config_zero ''regs'' (flag_space_init flags_zero)))"
proof -
  have "spaces_ok (flag_space_init flags_zero)" "flag_space_inited (flag_space_init flags_zero)"
    by (simp_all add: flag_space_init_def flags_zero_def Let_def spaces_ok_def)
  from flag_space_invariant [OF this, of config_zero "''regs''" "[]"] show ?thesis by blast
qed

end
