(* ===== verification/Sections.thy ===== *)
theory Sections
  imports Flags
begin

text \<open>
  Sections (\<^verbatim>\<open>src/src/section.c\<close>): the intervals with a virtual base, a physical offset and
  permissions, newest first in the list, numbered from the oldest. The comment is its buffer of 256
  characters; what \<^verbatim>\<open>malloc\<close> left in a new one is the argument \<open>fresh\<close>.
\<close>

section \<open>Model\<close>

record section_t =
  scomment :: "char list"
  sfrom :: ut64
  sto :: ut64
  svaddr :: ut64
  spaddr :: ut64
  srwx :: int

record sections_state =
  sections :: "section_t list"
  last_align :: ut64

definition SECTION_R :: int where "SECTION_R = 4"
definition SECTION_W :: int where "SECTION_W = 2"
definition SECTION_X :: int where "SECTION_X = 1"

definition cstr :: "char list \<Rightarrow> string" where
  "cstr buf = takeWhile (\<lambda>c. c \<noteq> NUL) buf"

definition strncpy :: "nat \<Rightarrow> string \<Rightarrow> char list \<Rightarrow> char list" where
  "strncpy n src dst = map (str_at src) [0..<n] @ drop n dst"

definition section_set_one ::
  "ut64 \<Rightarrow> ut64 \<Rightarrow> ut64 \<Rightarrow> int \<Rightarrow> string option \<Rightarrow> section_t \<Rightarrow> section_t" where
  "section_set_one to vaddr paddr rwx comment s =
     s\<lparr>sto := (if to \<noteq> UT64_MAX then to else sto s),
       svaddr := (if vaddr \<noteq> UT64_MAX then vaddr else svaddr s),
       spaddr := (if paddr \<noteq> UT64_MAX then paddr else spaddr s),
       srwx := (if rwx \<noteq> - 1 then rwx else srwx s),
       scomment := (case comment of Some c \<Rightarrow> strncpy 254 c (scomment s) | None \<Rightarrow> scomment s)\<rparr>"

definition section_set ::
  "ut64 \<Rightarrow> ut64 \<Rightarrow> ut64 \<Rightarrow> ut64 \<Rightarrow> int \<Rightarrow> string option \<Rightarrow> sections_state \<Rightarrow> sections_state" where
  "section_set from to vaddr paddr rwx comment st =
     st\<lparr>sections := map (\<lambda>s. if sfrom s = from then section_set_one to vaddr paddr rwx comment s else s)
                     (sections st)\<rparr>"

definition section_add ::
  "char list \<Rightarrow> ut64 \<Rightarrow> ut64 \<Rightarrow> ut64 \<Rightarrow> ut64 \<Rightarrow> int \<Rightarrow> string option \<Rightarrow> sections_state \<Rightarrow> sections_state" where
  "section_add fresh from to vaddr paddr rwx comment st =
     st\<lparr>sections :=
          \<lparr>scomment = (case comment of Some c \<Rightarrow> strncpy 254 c fresh | None \<Rightarrow> fresh[0 := NUL]),
           sfrom = from + vaddr, sto = to + vaddr, svaddr = vaddr, spaddr = paddr, srwx = rwx\<rparr>
          # sections st\<rparr>"

text \<open>The position in the list of the section with a number, and the section.\<close>

definition section_pos :: "int \<Rightarrow> sections_state \<Rightarrow> nat option" where
  "section_pos idx st =
     (let n = length (sections st) in if 0 \<le> idx \<and> nat idx < n then Some (n - 1 - nat idx) else None)"

definition section_get_i :: "int \<Rightarrow> sections_state \<Rightarrow> section_t option" where
  "section_get_i idx st = map_option (\<lambda>p. sections st ! p) (section_pos idx st)"

definition section_rm :: "int \<Rightarrow> sections_state \<Rightarrow> sections_state \<times> int" where
  "section_rm idx st =
     (case section_pos idx st of
        Some p \<Rightarrow> (st\<lparr>sections := take p (sections st) @ drop (Suc p) (sections st)\<rparr>, 1)
      | None \<Rightarrow> (st, 0))"

definition contains :: "section_t \<Rightarrow> ut64 \<Rightarrow> bool" where
  "contains s addr \<longleftrightarrow> addr \<ge> sfrom s \<and> addr \<le> sto s"

definition section_line :: "nat \<Rightarrow> ut64 \<Rightarrow> section_t \<Rightarrow> string" where
  "section_line i addr s =
     fmt_02d (int i) @ '' '' @ [if contains s addr then CHR ''*'' else CHR ''.''] @ '' '' @ hex_0x (sfrom s) @ '' - ''
     @ hex_0x (sto s) @ '' bs='' @ hex_0x (svaddr s) @ '' sz='' @ hex_0x (sto s - sfrom s)
     @ '' phy='' @ hex_0x (spaddr s) @ '' '' @ cstr (scomment s)"

definition section_list_one ::
  "config_t \<Rightarrow> int \<Rightarrow> flags_state \<Rightarrow> ut64 \<Rightarrow> int \<Rightarrow> nat \<Rightarrow> section_t \<Rightarrow> out_event list" where
  "section_list_one cfg cfg_delta fl addr rad i s =
     (if rad = 2 then (if contains s addr then [ConsOut (section_line i addr s @ nl)] else [])
      else if rad = 1 then
        [ConsOut (''S '' @ hex_0x (sto s - sfrom s) @ '' '' @ hex_0x (svaddr s) @ '' '' @ cstr (scomment s)
                   @ '' @ '' @ hex_0x (sfrom s) @ nl),
         ConsOut (''Sd '' @ hex_0x (spaddr s) @ '' @ '' @ hex_0x (sfrom s) @ nl)]
      else if rad = 0 then
        [ConsOut (section_line i addr s)]
        @ (case string_flag_offset cfg cfg_delta [] (sfrom s) 0 fl of
             (buf, ret) \<Rightarrow> if ret then [ConsOut ('' ; '' @ buf)] else [])
        @ [ConsOut nl]
      else [])"

definition section_list :: "config_t \<Rightarrow> int \<Rightarrow> flags_state \<Rightarrow> ut64 \<Rightarrow> int \<Rightarrow> sections_state \<Rightarrow> out_event list" where
  "section_list cfg cfg_delta fl addr rad st =
     concat (map (\<lambda>(i, s). section_list_one cfg cfg_delta fl addr rad i s)
       (zip [0..<length (sections st)] (rev (sections st))))"

text \<open>\<^verbatim>\<open>section_list_visual\<close>; \<open>None\<close>: the division by a width of 0.\<close>

fun visual_bounds :: "section_t list \<Rightarrow> ut64 \<Rightarrow> ut64 \<Rightarrow> ut64 \<times> ut64" where
  "visual_bounds [] mn mx = (mn, mx)"
| "visual_bounds (s # ss) mn mx =
     visual_bounds ss (if mn = UT64_MAX \<or> sfrom s < mn then sfrom s else mn)
       (if mx = UT64_MAX \<or> sto s > mx then sto s else mx)"

definition visual_bar :: "int \<Rightarrow> ut64 \<Rightarrow> ut64 \<Rightarrow> ut64 \<Rightarrow> ut64 \<Rightarrow> out_event list" where
  "visual_bar width mul mn lo hi =
     map (\<lambda>j. let a = word_of_nat j * mul + mn in if a \<ge> lo \<and> a \<le> hi then ConsOut ''#'' else ConsOut ''-'')
       [0..<nat width]"

definition section_list_visual :: "config_t \<Rightarrow> ut64 \<Rightarrow> ut64 \<Rightarrow> sections_state \<Rightarrow> out_event list option" where
  "section_list_visual cfg seek len st =
     (let width = c_width cfg - 50; (mn, mx) = visual_bounds (sections st) UT64_MAX UT64_MAX in
      if (word_of_int width :: ut64) = 0 then None
      else let mul = (mx - mn) div word_of_int width in
        if mn \<noteq> UT64_MAX \<and> mul \<noteq> 0 then
          Some (concat (map (\<lambda>(i, s).
                  [ConsOut (fmt_02d (int i) @ ''  '' @ hex_0x (sfrom s) @ '' |'')]
                  @ visual_bar width mul mn (sfrom s) (sto s)
                  @ [ConsOut (''| '' @ hex_0x (sto s) @ '' '' @ cstr (scomment s) @ nl)])
                (zip [0..<length (sections st)] (rev (sections st))))
            @ (if sections st \<noteq> [] \<and> len \<noteq> 0 then
                 [ConsOut (''=>  '' @ hex_0x (seek + c_vaddr cfg) @ '' |'')]
                 @ visual_bar width mul mn (seek + c_vaddr cfg) (seek + c_vaddr cfg + len)
                 @ [ConsOut (''| '' @ hex_0x (seek + c_vaddr cfg + len) @ nl)]
               else []))
        else Some [])"

definition section_get :: "ut64 \<Rightarrow> sections_state \<Rightarrow> section_t option" where
  "section_get addr st = List.find (\<lambda>s. contains s addr) (sections st)"

definition section_get_paddr :: "ut64 \<Rightarrow> sections_state \<Rightarrow> ut64" where
  "section_get_paddr addr st = (case section_get addr st of Some s \<Rightarrow> spaddr s | None \<Rightarrow> UT64_MAX)"

definition section_get_vaddr :: "ut64 \<Rightarrow> sections_state \<Rightarrow> ut64" where
  "section_get_vaddr addr st = (case section_get addr st of Some s \<Rightarrow> svaddr s | None \<Rightarrow> UT64_MAX)"

text \<open>\<^verbatim>\<open>section_overlaps\<close> for the section with the number \<open>k\<close>; the list is passed from the oldest on.\<close>

fun overlaps_loop :: "section_t \<Rightarrow> int \<Rightarrow> int \<Rightarrow> section_t list \<Rightarrow> int" where
  "overlaps_loop s k i [] = - 1"
| "overlaps_loop s k i (s2 # ss) =
     (if k \<noteq> i \<and> (if sfrom s \<ge> sfrom s2 then sto s2 < sfrom s else sto s < sfrom s2) then i
      else overlaps_loop s k (i + 1) ss)"

definition section_overlaps :: "int \<Rightarrow> section_t \<Rightarrow> sections_state \<Rightarrow> int" where
  "section_overlaps k s st = overlaps_loop s k 0 (rev (sections st))"

definition section_align :: "ut64 \<Rightarrow> ut64 \<Rightarrow> ut64 \<Rightarrow> sections_state \<Rightarrow> sections_state \<times> ut64" where
  "section_align addr vaddr paddr st =
     (if addr = last_align st then (st, last_align st)
      else case List.find (\<lambda>s. contains s addr) (rev (sections st)) of
        Some s \<Rightarrow> (st, spaddr s + addr - sfrom s)
      | None \<Rightarrow> (st\<lparr>last_align := addr - vaddr + paddr\<rparr>, addr - vaddr + paddr))"

definition section_init :: "sections_state \<Rightarrow> sections_state" where
  "section_init st = st\<lparr>sections := []\<rparr>"

definition sections_zero :: sections_state where
  "sections_zero = \<lparr>sections = [], last_align = 0\<rparr>"

section \<open>Numbers\<close>

lemma section_get_i_rev:
  "section_get_i idx st = (if 0 \<le> idx \<and> nat idx < length (sections st) then Some (rev (sections st) ! nat idx) else None)"
  by (auto simp: section_get_i_def section_pos_def Let_def rev_nth)

lemma rev_remove_pos:
  "p < length xs \<Longrightarrow> rev (take p xs @ drop (Suc p) xs) =
     take (length xs - Suc p) (rev xs) @ drop (length xs - p) (rev xs)"
  by (simp add: rev_take rev_drop)

lemma section_rm_rev:
  assumes "0 \<le> idx" and "nat idx < length (sections st)"
  shows "rev (sections (fst (section_rm idx st))) =
         take (nat idx) (rev (sections st)) @ drop (Suc (nat idx)) (rev (sections st))"
proof -
  let ?n = "length (sections st)"
  have "rev (take (?n - 1 - nat idx) (sections st) @ drop (Suc (?n - 1 - nat idx)) (sections st)) =
      take (?n - Suc (?n - 1 - nat idx)) (rev (sections st)) @ drop (?n - (?n - 1 - nat idx)) (rev (sections st))"
    using assms by (intro rev_remove_pos) simp
  moreover have "?n - Suc (?n - 1 - nat idx) = nat idx" "?n - (?n - 1 - nat idx) = Suc (nat idx)"
    using assms by auto
  ultimately show ?thesis using assms by (simp add: section_rm_def section_pos_def Let_def)
qed

section \<open>Comments\<close>

lemma cstr_strncpy:
  assumes "NUL \<notin> set c" and "length c < n"
  shows "cstr (strncpy n c dst) = c"
proof -
  have "map (str_at c) [0..<n] = c @ replicate (n - length c) NUL"
    using assms(2) by (intro nth_equalityI) (auto simp: str_at_def nth_append)
  then have "strncpy n c dst = c @ NUL # replicate (n - length c - 1) NUL @ drop n dst"
    using assms(2) by (simp add: strncpy_def) (metis Suc_diff_Suc append_Cons replicate_Suc Suc_eq_plus1 diff_diff_left)
  then show ?thesis using assms(1) by (simp add: cstr_def)
qed

section \<open>Overlaps\<close>

abbreviation disjoint_sections :: "section_t \<Rightarrow> section_t \<Rightarrow> bool" where
  "disjoint_sections s t \<equiv> (if sfrom s \<ge> sfrom t then sto t < sfrom s else sto s < sfrom t)"

lemma overlaps_loop_spec:
  "overlaps_loop s k i ss = - 1 \<and> (\<forall>j < length ss. k \<noteq> i + int j \<longrightarrow> \<not> disjoint_sections s (ss ! j)) \<or>
   (\<exists>j < length ss. overlaps_loop s k i ss = i + int j \<and> k \<noteq> i + int j \<and> disjoint_sections s (ss ! j))"
proof (induction ss arbitrary: i)
  case (Cons t ss)
  show ?case
  proof (cases "k \<noteq> i \<and> disjoint_sections s t")
    case True
    then show ?thesis by (intro disjI2 exI [of _ 0]) auto
  next
    case False
    then have e: "overlaps_loop s k i (t # ss) = overlaps_loop s k (i + 1) ss" by auto
    from Cons.IH [of "i + 1"] show ?thesis
    proof
      assume l: "overlaps_loop s k (i + 1) ss = - 1 \<and>
        (\<forall>j < length ss. k \<noteq> i + 1 + int j \<longrightarrow> \<not> disjoint_sections s (ss ! j))"
      have "\<forall>j < length (t # ss). k \<noteq> i + int j \<longrightarrow> \<not> disjoint_sections s ((t # ss) ! j)"
      proof (intro allI impI)
        fix j assume "j < length (t # ss)" "k \<noteq> i + int j"
        then show "\<not> disjoint_sections s ((t # ss) ! j)" using l False by (cases j) (auto simp: add.assoc)
      qed
      with l e show ?thesis by simp
    next
      assume "\<exists>j < length ss. overlaps_loop s k (i + 1) ss = i + 1 + int j \<and> k \<noteq> i + 1 + int j \<and>
        disjoint_sections s (ss ! j)"
      then obtain j where "j < length ss" "overlaps_loop s k (i + 1) ss = i + 1 + int j" "k \<noteq> i + 1 + int j"
        "disjoint_sections s (ss ! j)" by blast
      then show ?thesis using e by (intro disjI2 exI [of _ "Suc j"]) auto
    qed
  qed
qed simp

section \<open>Properties\<close>

text \<open>
  Section numbers are stable: adding a section gives it the next number and keeps those of the
  others, and \<^verbatim>\<open>section_rm\<close> takes away exactly the section with its number, the later ones moving down
  by one; a number without a section changes nothing and is reported by 0.
\<close>

theorem section_numbers:
  "let st' = section_add fresh a b v p rwx c st; n = length (sections st) in
   (\<forall>i < n. section_get_i (int i) st' = section_get_i (int i) st) \<and>
   map_option sfrom (section_get_i (int n) st') = Some (a + v) \<and>
   (\<forall>i < n. snd (section_rm (int i) st) = 1 \<and>
      (\<forall>j. section_get_i (int j) (fst (section_rm (int i) st)) = section_get_i (int (if j < i then j else Suc j)) st)) \<and>
   (\<forall>k. \<not> (0 \<le> k \<and> k < int n) \<longrightarrow> section_rm k st = (st, 0))"
proof -
  let ?n = "length (sections st)" let ?st = "section_add fresh a b v p rwx c st"
  have rev_add: "rev (sections ?st) = rev (sections st) @ [hd (sections ?st)]"
    by (simp add: section_add_def)
  have len: "length (sections ?st) = Suc ?n" by (simp add: section_add_def)
  have add: "\<forall>i < ?n. section_get_i (int i) ?st = section_get_i (int i) st"
    using rev_add len by (simp add: section_get_i_rev nth_append)
  have new: "map_option sfrom (section_get_i (int ?n) ?st) = Some (a + v)"
    using rev_add len by (simp add: section_get_i_rev nth_append section_add_def)
  have rm: "section_get_i (int j) (fst (section_rm (int i) st)) = section_get_i (int (if j < i then j else Suc j)) st"
    if "i < ?n" for i j
  proof -
    have r: "rev (sections (fst (section_rm (int i) st))) = take i (rev (sections st)) @ drop (Suc i) (rev (sections st))"
      using section_rm_rev [of "int i" st] that by simp
    have "length (sections (fst (section_rm (int i) st))) = ?n - 1"
      using that by (simp add: section_rm_def section_pos_def Let_def)
    with r that show ?thesis by (auto simp: section_get_i_rev nth_append min_def)
  qed
  have "snd (section_rm (int i) st) = 1" if "i < ?n" for i
    using that by (simp add: section_rm_def section_pos_def Let_def)
  moreover have "section_rm k st = (st, 0)" if "\<not> (0 \<le> k \<and> k < int ?n)" for k
    using that by (auto simp: section_rm_def section_pos_def Let_def)
  ultimately show ?thesis using add new rm by (simp add: Let_def)
qed

theorem section_numbers_witness:
  "section_get_i 1 (section_add [] 0x10 0x20 0 5 7 None (section_add [] 1 2 0 5 7 None sections_zero)) \<noteq> None"
  using section_numbers [of "[]" "0x10" "0x20" 0 5 7 None "section_add [] 1 2 0 5 7 None sections_zero"]
  by (auto simp: Let_def section_add_def sections_zero_def)

text \<open>
  C40 What a section added to any others, overlapping or not, does to every address. \<^verbatim>\<open>section_get\<close> prefers the newest section: the addresses of
  the closed interval of the new one get its offset and its base, whatever older ones contain them, and no other address changes.
  \<^verbatim>\<open>section_align\<close> prefers the oldest: an address that an older section contains is mapped as before, the other addresses of the new section
  to its offset with distances kept, and those of no section by the global base, which is remembered; the address equal to the remembered
  result is given back as it is.
\<close>

theorem section_lookup:
  "let st' = section_add fresh a b v p rwx c st; new = (a + v \<le> x \<and> x \<le> b + v); old = (\<exists>s \<in> set (sections st). contains s x) in
   section_get_paddr x st' = (if new then p else section_get_paddr x st) \<and>
   section_get_vaddr x st' = (if new then v else section_get_vaddr x st) \<and>
   snd (section_align x gv gp st') =
     (if x = last_align st then x
      else if old then snd (section_align x gv gp st)
      else if new then p + (x - (a + v)) else x - gv + gp) \<and>
   fst (section_align x gv gp st') =
     (if x = last_align st \<or> old \<or> new then st' else st'\<lparr>last_align := x - gv + gp\<rparr>)"
proof -
  have "\<exists>s. List.find (\<lambda>s. contains s x) (rev (sections st)) = Some s" if "\<exists>s \<in> set (sections st). contains s x"
    using that by (cases "List.find (\<lambda>s. contains s x) (rev (sections st))") (auto simp: find_None_iff)
  moreover have "List.find (\<lambda>s. contains s x) (rev (sections st)) = None" if "\<not> (\<exists>s \<in> set (sections st). contains s x)"
    using that by (auto simp: find_None_iff)
  ultimately show ?thesis
    by (cases "\<exists>s \<in> set (sections st). contains s x")
      (auto simp: Let_def section_add_def section_get_paddr_def section_get_vaddr_def section_get_def section_align_def contains_def find_append)
qed

text \<open>Two sections that overlap: the newest gives the offset, the oldest the aligned address.\<close>

theorem section_lookup_witness:
  "let st = section_add [] 0 0x2000 0x8048000 0x200 5 None sections_zero; st' = section_add [] 0x1000 0x3000 0x8048000 0x9000 5 None st in
   section_get_paddr 0x8049010 st' = 0x9000 \<and> snd (section_align 0x8049010 0 0 st') = 0x1210"
  using section_lookup [of "[]" "0x1000" "0x3000" "0x8048000" "0x9000" 5 None "section_add [] 0 0x2000 0x8048000 0x200 5 None sections_zero" "0x8049010" 0 0]
    section_lookup [of "[]" 0 "0x2000" "0x8048000" "0x200" 5 None sections_zero "0x8049010" 0 0]
  by (simp add: Let_def section_add_def sections_zero_def contains_def)

text \<open>
  \<^verbatim>\<open>section_set\<close> changes exactly the sections that start at the address, field by field, an argument
  \<^verbatim>\<open>-1\<close> or \<^verbatim>\<open>NULL\<close> leaving the field alone; a comment shorter than 254 characters reads back.
\<close>

theorem section_set_effect:
  assumes "NUL \<notin> set c" and "length c < 254" and "i < length (sections st)"
  defines "s \<equiv> sections st ! i"
  shows "length (sections (section_set from to vaddr paddr rwx (Some c) st)) = length (sections st) \<and>
    (let s' = sections (section_set from to vaddr paddr rwx (Some c) st) ! i in
     sfrom s' = sfrom s \<and>
     (if sfrom s \<noteq> from then s' = s
      else sto s' = (if to \<noteq> UT64_MAX then to else sto s) \<and>
           svaddr s' = (if vaddr \<noteq> UT64_MAX then vaddr else svaddr s) \<and>
           spaddr s' = (if paddr \<noteq> UT64_MAX then paddr else spaddr s) \<and>
           srwx s' = (if rwx \<noteq> - 1 then rwx else srwx s) \<and> cstr (scomment s') = c))"
  using assms by (auto simp: section_set_def section_set_one_def Let_def cstr_strncpy)

theorem section_set_effect_witness:
  "map (\<lambda>s. cstr (scomment s)) (sections (section_set 0x10 (- 1) (- 1) (- 1) (- 1) (Some ''code'')
     (section_add [] 0x10 0x20 0 5 7 None sections_zero))) = [''code'']"
  using section_set_effect [of "''code''" 0 "section_add [] 0x10 0x20 0 5 7 None sections_zero"
      "0x10" "- 1" "- 1" "- 1" "- 1"]
  by (simp add: Let_def section_add_def sections_zero_def section_set_def)

text \<open>
  \<^verbatim>\<open>section_overlaps\<close> returns the number of a section disjoint from the given one, and -1 when every
  other section meets it.
\<close>

lemma section_overlaps_disjoint:
  "section_overlaps k s st = - 1 \<and>
     (\<forall>j < length (sections st). k \<noteq> int j \<longrightarrow> \<not> disjoint_sections s (rev (sections st) ! j)) \<or>
   (\<exists>j < length (sections st). section_overlaps k s st = int j \<and> k \<noteq> int j \<and>
      disjoint_sections s (rev (sections st) ! j))"
  using overlaps_loop_spec [of s k 0 "rev (sections st)"] by (simp add: section_overlaps_def)

text \<open>The last result of the global translation is returned unchanged when it is asked for next.\<close>

lemma section_align_cached:
  assumes "x \<noteq> last_align st" and "\<forall>s \<in> set (sections st). \<not> contains s x"
  shows "section_align (x - gv + gp) gv gp (fst (section_align x gv gp st)) =
         (fst (section_align x gv gp st), x - gv + gp)"
proof -
  have "List.find (\<lambda>s. contains s x) (rev (sections st)) = None" using assms(2) by (auto simp: find_None_iff)
  then show ?thesis using assms(1) by (simp add: section_align_def)
qed

end
