(* ===== verification/Io.thy ===== *)
theory Io
  imports Sections
begin

text \<open>
  The I/O layer (\<^verbatim>\<open>src/src/io.c\<close>, macros of \<^verbatim>\<open>src/src/plugin.h\<close>): the table of plugins, the choice of the one
  that handles a descriptor or a name, and the maps of other files over the address space. A plugin
  is a record of its functions over the state \<open>'w\<close> of the devices; a missing function is \<open>None\<close>. A
  function of a plugin returns \<open>None\<close> when it accesses memory out of bounds.
\<close>

section \<open>Plugins\<close>

record 'w plugin_t =
  p_name :: string
  p_debug :: bool
  p_open :: "(string \<Rightarrow> int \<Rightarrow> int \<Rightarrow> 'w \<Rightarrow> 'w \<times> int) option"
  p_read :: "(int \<Rightarrow> nat \<Rightarrow> config_t \<Rightarrow> 'w \<Rightarrow> ('w \<times> u8 list \<times> int) option) option"
  p_lseek :: "(int \<Rightarrow> ut64 \<Rightarrow> int \<Rightarrow> config_t \<Rightarrow> 'w \<Rightarrow> 'w \<times> ut64) option"
  p_write :: "(int \<Rightarrow> u8 list \<Rightarrow> config_t \<Rightarrow> 'w \<Rightarrow> ('w \<times> int) option) option"
  p_close :: "(int \<Rightarrow> 'w \<Rightarrow> 'w \<times> int) option"
  p_handle_open :: "string \<Rightarrow> bool"
  p_handle_fd :: "int \<Rightarrow> 'w \<Rightarrow> bool"

definition SEEK_SET :: int where "SEEK_SET = 0"
definition SEEK_CUR :: int where "SEEK_CUR = 1"
definition SEEK_END :: int where "SEEK_END = 2"

text \<open>The macros \<^verbatim>\<open>FIND_FD\<close> and \<^verbatim>\<open>FIND_OPEN\<close>: the first plugin that says yes.\<close>

definition find_fd :: "'w plugin_t list \<Rightarrow> int \<Rightarrow> 'w \<Rightarrow> 'w plugin_t option" where
  "find_fd plugins fd w = (if fd = - 1 then None else List.find (\<lambda>p. p_handle_fd p fd w) plugins)"

definition find_open :: "'w plugin_t list \<Rightarrow> string \<Rightarrow> 'w plugin_t option" where
  "find_open plugins pathname = List.find (\<lambda>p. p_handle_open p pathname) plugins"

definition io_open :: "'w plugin_t list \<Rightarrow> string \<Rightarrow> int \<Rightarrow> int \<Rightarrow> 'w \<Rightarrow> 'w \<times> int" where
  "io_open plugins pathname oflags mode w =
     (case Option.bind (find_open plugins pathname) p_open of
        Some f \<Rightarrow> f pathname oflags mode w
      | None \<Rightarrow> (w, - 1))"

definition io_lseek :: "'w plugin_t list \<Rightarrow> int \<Rightarrow> ut64 \<Rightarrow> int \<Rightarrow> config_t \<Rightarrow> 'w \<Rightarrow> 'w \<times> ut64" where
  "io_lseek plugins fd off whence cfg w =
     (case Option.bind (find_fd plugins fd w) p_lseek of
        Some f \<Rightarrow> f fd off whence cfg w
      | None \<Rightarrow> (w, UT64_MAX))"

text \<open>\<^verbatim>\<open>io_write\<close>: the devices, the returned value, and whether \<^verbatim>\<open>io_write_last\<close> was set to the count.\<close>

definition io_write ::
  "bool \<Rightarrow> 'w plugin_t list \<Rightarrow> int \<Rightarrow> u8 list \<Rightarrow> config_t \<Rightarrow> 'w \<Rightarrow> ('w \<times> int \<times> bool \<times> out_event list) option" where
  "io_write file_write plugins fd buf cfg w =
     (if \<not> file_write then Some (w, - 1, False, [ErrOut (''Not in write mode'' @ nl)])
      else case Option.bind (find_fd plugins fd w) p_write of
        Some f \<Rightarrow> map_option (\<lambda>(w', r). (w', r, True, [])) (f fd buf cfg w)
      | None \<Rightarrow> Some (w, - 1, True, []))"

definition io_close :: "'w plugin_t list \<Rightarrow> int \<Rightarrow> 'w \<Rightarrow> 'w \<times> int" where
  "io_close plugins fd w =
     (case Option.bind (find_fd plugins fd w) p_close of Some f \<Rightarrow> f fd w | None \<Rightarrow> (w, - 1))"

definition io_isdbg :: "'w plugin_t list \<Rightarrow> int \<Rightarrow> 'w \<Rightarrow> int" where
  "io_isdbg plugins fd w =
     (if fd = - 1 then - 1
      else case find_fd plugins fd w of
        Some p \<Rightarrow> if p_open p \<noteq> None \<and> p_debug p then 1 else 0
      | None \<Rightarrow> 0)"

section \<open>Maps\<close>

record io_maps_t =
  im_fd :: int
  im_file :: string
  im_delta :: ut64
  im_from :: ut64
  im_to :: ut64

definition io_map_init :: "io_maps_t list" where
  "io_map_init = []"

definition io_map_rm :: "io_maps_t list \<Rightarrow> string \<Rightarrow> out_event list" where
  "io_map_rm maps file =
     (if \<exists>im \<in> set maps. im_file im = file then [ErrOut (''TODO'' @ nl)] else [ErrOut (''Not found'' @ nl)])"

definition io_map_list :: "io_maps_t list \<Rightarrow> out_event list \<times> int" where
  "io_map_list maps =
     (let ms = filter (\<lambda>im. im_file im \<noteq> []) maps in
      (map (\<lambda>im. ConsOut (hex_0x (im_from im) @ '' '' @ hex_0x (im_to im) @ '' start: 0x''
              @ fmt_x (unat (im_delta im)) @ '' size: 0x'' @ fmt_x (unat (im_to im - im_from im)) @ '' ''
              @ im_file im @ nl)) ms, int (length ms)))"

text \<open>
  \<^verbatim>\<open>io_map\<close>: \<open>opened\<close> is the descriptor and the size of the file that the operating system gives, \<open>None\<close>
  when it cannot be opened.
\<close>

definition io_map ::
  "(string \<Rightarrow> (int \<times> ut64) option) \<Rightarrow> string \<Rightarrow> ut64 \<Rightarrow> ut64 \<Rightarrow> ut64 \<Rightarrow> io_maps_t list \<Rightarrow> io_maps_t list \<times> int" where
  "io_map opened file off delta sz maps =
     (case opened file of
        None \<Rightarrow> (maps, - 1)
      | Some (fd, fsize) \<Rightarrow>
          (\<lparr>im_fd = fd, im_file = take 127 file, im_delta = delta, im_from = off,
            im_to = (if sz \<noteq> 0 then off + sz else off + fsize)\<rparr> # maps, fd))"

text \<open>
  \<^verbatim>\<open>io_map_read_at\<close>: the bytes stored and the returned value; \<open>os_read fd pos n\<close> is the result of
  \<^verbatim>\<open>read\<close> after the \<^verbatim>\<open>lseek\<close> to \<open>pos\<close>.
\<close>

definition io_map_read_at ::
  "(int \<Rightarrow> ut64 \<Rightarrow> ut64 \<Rightarrow> u8 list \<times> int) \<Rightarrow> io_maps_t list \<Rightarrow> ut64 \<Rightarrow> ut64 \<Rightarrow> u8 list \<times> int" where
  "io_map_read_at os_read maps off len =
     (case List.find (\<lambda>im. im_file im \<noteq> [] \<and> off \<ge> im_from im \<and> off < im_to im) maps of
        Some im \<Rightarrow> os_read (im_fd im) (off - im_from im + im_delta im)
                     (if off + len > im_to im then im_to im - off else len)
      | None \<Rightarrow> ([], 0))"

text \<open>\<^verbatim>\<open>io_read\<close>: a map that gives anything but 0 is taken for the whole count.\<close>

definition io_read ::
  "(int \<Rightarrow> ut64 \<Rightarrow> ut64 \<Rightarrow> u8 list \<times> int) \<Rightarrow> io_maps_t list \<Rightarrow> 'w plugin_t list \<Rightarrow> int \<Rightarrow> nat \<Rightarrow> config_t \<Rightarrow> 'w
    \<Rightarrow> ('w \<times> u8 list \<times> int) option" where
  "io_read os_read maps plugins fd cnt cfg w =
     (let (bytes, r) = io_map_read_at os_read maps (c_seek cfg) (word_of_nat cnt) in
      if r \<noteq> 0 then Some (w, bytes, int cnt)
      else case Option.bind (find_fd plugins fd w) p_read of
        Some f \<Rightarrow> f fd cnt cfg w
      | None \<Rightarrow> Some (w, [], - 1))"

lemma find_fd_singleton [simp]:
  "find_fd [p] fd w = (if fd \<noteq> - 1 \<and> p_handle_fd p fd w then Some p else None)"
  by (simp add: find_fd_def)

lemma io_map_read_at_none:
  "\<forall>im \<in> set maps. \<not> (im_from im \<le> off \<and> off < im_to im) \<Longrightarrow> io_map_read_at os maps off len = ([], 0)"
  by (auto simp: io_map_read_at_def find_None_iff split: option.splits dest!: find_SomeD)

text \<open>The newest map that covers an address serves the read, from its own delta, clipped to its end.\<close>

lemma io_map_read_at_new:
  assumes "opened file = Some (fd, fsize)" and "file \<noteq> []" and "sz \<noteq> 0"
    and "off \<le> a" and "a < off + sz" and "a + n \<le> off + sz"
  shows "io_map_read_at os (fst (io_map opened file off delta sz maps)) a n = os fd (a - off + delta) n"
  using assms by (auto simp: io_map_read_at_def io_map_def dest: leD)

section \<open>The contract of a device\<close>

text \<open>
  What the core relies on: after a seek of the descriptor to \<open>p\<close>, with \<^verbatim>\<open>config.seek\<close> equal to \<open>p\<close>, reads
  deliver and writes replace the bytes at \<open>p\<close>, inside the contents; the seek itself changes nothing.
\<close>

locale seek_device =
  fixes pl :: "'w plugin_t"
    and fd :: int
    and contents :: "'w \<Rightarrow> u8 list"
    and valid :: "config_t \<Rightarrow> 'w \<Rightarrow> bool"
  assumes fd_ok: "fd \<noteq> - 1"
    and handles: "valid cfg w \<Longrightarrow> p_handle_fd pl fd w"
    and has_ops: "p_read pl \<noteq> None" "p_write pl \<noteq> None" "p_lseek pl \<noteq> None"
    and small: "valid cfg w \<Longrightarrow> length (contents w) < 2 ^ 64"
    and valid_seek: "valid cfg w \<Longrightarrow> valid (cfg\<lparr>c_seek := s\<rparr>) w"
    and dev_lseek: "valid cfg w \<Longrightarrow> the (p_lseek pl) fd off SEEK_SET cfg w = (w', r) \<Longrightarrow>
      valid cfg w' \<and> contents w' = contents w"
    and dev_read: "valid cfg w \<Longrightarrow> unat (c_seek cfg) + n \<le> length (contents w) \<Longrightarrow>
      \<exists>w' r. the (p_read pl) fd n cfg w = Some (w', take n (drop (unat (c_seek cfg)) (contents w)), r) \<and>
        valid cfg w' \<and> contents w' = contents w"
    and dev_write: "valid cfg w \<Longrightarrow> unat (c_seek cfg) + length bs \<le> length (contents w) \<Longrightarrow>
      \<exists>w' r. the (p_write pl) fd bs cfg w = Some (w', r) \<and> valid cfg w' \<and>
        contents w' = take (unat (c_seek cfg)) (contents w) @ bs @ drop (unat (c_seek cfg) + length bs) (contents w)"

end
