(* ===== verification/Io_Malloc.thy ===== *)
theory Io_Malloc
  imports Io
begin

text \<open>
  The plugin for memory buffers, \<^verbatim>\<open>malloc://size\<close> (\<^verbatim>\<open>src/src/plug/io/malloc.c\<close>). \<open>alloc\<close> says whether the
  allocator can give a number of bytes, \<open>fresh\<close> what a new block holds, and \<open>buf_addr\<close>, \<open>dst\<close> are the
  addresses of the block and of the caller's buffer, which the functions return in place of counts.
\<close>

section \<open>Model\<close>

record malloc_state =
  malloc_fd :: int
  malloc_buf :: "u8 list option"
  malloc_bufsz :: ut32

definition MALLOC_FD :: int where "MALLOC_FD = 98479"

definition malloc_write :: "int \<Rightarrow> int \<Rightarrow> u8 list \<Rightarrow> config_t \<Rightarrow> malloc_state \<Rightarrow> (malloc_state \<times> int) option" where
  "malloc_write buf_addr fd buf cfg w =
     (case malloc_buf w of
        None \<Rightarrow> Some (w, 0)
      | Some b \<Rightarrow>
          let s = unat (c_seek cfg) in
          if s + length buf \<le> length b
          then Some (w\<lparr>malloc_buf := Some (take s b @ buf @ drop (s + length buf) b)\<rparr>, buf_addr + int s)
          else None)"

definition malloc_read ::
  "int \<Rightarrow> int \<Rightarrow> nat \<Rightarrow> config_t \<Rightarrow> malloc_state \<Rightarrow> (malloc_state \<times> u8 list \<times> int) option" where
  "malloc_read dst fd cnt cfg w =
     (case malloc_buf w of
        None \<Rightarrow> Some (w, [], 0)
      | Some b \<Rightarrow>
          if c_seek cfg + word_of_nat cnt > c_size cfg then Some (w, [], 0)
          else let s = unat (c_seek cfg) in
            if s + cnt \<le> length b then Some (w, take cnt (drop s b), dst) else None)"

definition malloc_close :: "(nat \<Rightarrow> u8 list option) \<Rightarrow> int \<Rightarrow> malloc_state \<Rightarrow> malloc_state \<times> int" where
  "malloc_close fresh fd w =
     (case malloc_buf w of
        None \<Rightarrow> (w, - 1)
      | Some b \<Rightarrow> (w\<lparr>malloc_buf := fresh (unat (malloc_bufsz w))\<rparr>, 0))"

definition malloc_lseek :: "int \<Rightarrow> ut64 \<Rightarrow> int \<Rightarrow> config_t \<Rightarrow> malloc_state \<Rightarrow> malloc_state \<times> ut64" where
  "malloc_lseek fildes off whence cfg w =
     (w, if whence = SEEK_SET then off
         else if whence = SEEK_CUR then c_seek cfg + off
         else if whence = SEEK_END then ucast (malloc_bufsz w)
         else off)"

definition malloc_handle_fd :: "int \<Rightarrow> malloc_state \<Rightarrow> bool" where
  "malloc_handle_fd fd w \<longleftrightarrow> fd = malloc_fd w"

definition malloc_handle_open :: "string \<Rightarrow> bool" where
  "malloc_handle_open pathname \<longleftrightarrow> take 9 pathname = ''malloc://''"

text \<open>The message on a failed allocation goes to the standard output and is left out.\<close>

definition malloc_open :: "(nat \<Rightarrow> bool) \<Rightarrow> string \<Rightarrow> int \<Rightarrow> int \<Rightarrow> malloc_state \<Rightarrow> malloc_state \<times> int" where
  "malloc_open alloc pathname oflags mode w =
     (let w' = (if take 9 pathname = ''malloc://'' then
                  (let sz = (word_of_int (atoi (drop 9 pathname)) :: ut32) in
                   if alloc (unat sz)
                   then \<lparr>malloc_fd = MALLOC_FD, malloc_buf = Some (replicate (unat sz) 0), malloc_bufsz = sz\<rparr>
                   else \<lparr>malloc_fd = - 1, malloc_buf = None, malloc_bufsz = 0\<rparr>)
                else w)
      in (w', malloc_fd w'))"

definition malloc_plugin ::
  "int \<Rightarrow> int \<Rightarrow> (nat \<Rightarrow> bool) \<Rightarrow> (nat \<Rightarrow> u8 list option) \<Rightarrow> malloc_state plugin_t" where
  "malloc_plugin buf_addr dst alloc fresh =
     \<lparr>p_name = ''malloc'', p_debug = False,
      p_open = Some (malloc_open alloc),
      p_read = Some (malloc_read dst),
      p_lseek = Some malloc_lseek,
      p_write = Some (malloc_write buf_addr),
      p_close = Some (malloc_close fresh),
      p_handle_open = malloc_handle_open,
      p_handle_fd = malloc_handle_fd\<rparr>"

section \<open>The plugin as a device\<close>

definition malloc_contents :: "malloc_state \<Rightarrow> u8 list" where
  "malloc_contents w = (case malloc_buf w of Some b \<Rightarrow> b | None \<Rightarrow> [])"

text \<open>An opened buffer, whose size is the size of the file, as \<^verbatim>\<open>radare_open\<close> records it.\<close>

definition malloc_valid :: "config_t \<Rightarrow> malloc_state \<Rightarrow> bool" where
  "malloc_valid cfg w \<longleftrightarrow> malloc_fd w = MALLOC_FD \<and>
     (\<exists>b. malloc_buf w = Some b \<and> length b = unat (malloc_bufsz w) \<and> c_size cfg = ucast (malloc_bufsz w))"

lemma malloc_range_check:
  assumes "length b = unat (z :: ut32)" and "unat (s :: ut64) + n \<le> length b"
  shows "\<not> s + word_of_nat n > ucast z"
proof -
  have z: "unat z < 2 ^ 32" using unsigned_less [of z, where ?'a = nat] by simp
  have n: "n < 2 ^ 64" using assms z by simp
  then have un: "unat (word_of_nat n :: ut64) = n" by (simp add: unat_of_nat)
  have "unat s + unat (word_of_nat n :: ut64) < 2 ^ 64" using assms z un by simp
  then have "unat (s + word_of_nat n) = unat s + n" using un by (simp add: unat_word_ariths)
  also have "\<dots> \<le> unat (ucast z :: ut64)" using assms z by simp
  finally show ?thesis by (simp add: word_le_nat_alt not_less)
qed

interpretation malloc_dev:
  seek_device "malloc_plugin buf_addr dst alloc fresh" MALLOC_FD malloc_contents malloc_valid
  for buf_addr dst alloc fresh
proof unfold_locales
  fix cfg w
  assume v: "malloc_valid cfg w"
  show "p_handle_fd (malloc_plugin buf_addr dst alloc fresh) MALLOC_FD w"
    using v by (simp add: malloc_plugin_def malloc_handle_fd_def malloc_valid_def)
  show "length (malloc_contents w) < 2 ^ 64"
  proof -
    have "unat (malloc_bufsz w) < 2 ^ 32" using unsigned_less [of "malloc_bufsz w", where ?'a = nat] by simp
    with v show ?thesis by (auto simp: malloc_valid_def malloc_contents_def)
  qed
  show "malloc_valid (cfg\<lparr>c_seek := s\<rparr>) w" for s using v by (simp add: malloc_valid_def)
  show "malloc_valid cfg w' \<and> malloc_contents w' = malloc_contents w"
    if "the (p_lseek (malloc_plugin buf_addr dst alloc fresh)) MALLOC_FD off SEEK_SET cfg w = (w', r)" for off w' r
    using that v by (simp add: malloc_plugin_def malloc_lseek_def)
  show "\<exists>w' r. the (p_read (malloc_plugin buf_addr dst alloc fresh)) MALLOC_FD n cfg w =
      Some (w', take n (drop (unat (c_seek cfg)) (malloc_contents w)), r) \<and>
      malloc_valid cfg w' \<and> malloc_contents w' = malloc_contents w"
    if "unat (c_seek cfg) + n \<le> length (malloc_contents w)" for n
    using v that malloc_range_check [of "malloc_contents w" "malloc_bufsz w" "c_seek cfg" n]
    by (auto simp: malloc_plugin_def malloc_read_def malloc_valid_def malloc_contents_def Let_def)
  show "\<exists>w' r. the (p_write (malloc_plugin buf_addr dst alloc fresh)) MALLOC_FD bs cfg w = Some (w', r) \<and>
      malloc_valid cfg w' \<and>
      malloc_contents w' = take (unat (c_seek cfg)) (malloc_contents w) @ bs @
        drop (unat (c_seek cfg) + length bs) (malloc_contents w)"
    if "unat (c_seek cfg) + length bs \<le> length (malloc_contents w)" for bs
    using v that by (auto simp: malloc_plugin_def malloc_write_def malloc_valid_def malloc_contents_def Let_def)
qed (simp_all add: MALLOC_FD_def malloc_plugin_def)

section \<open>Properties\<close>

text \<open>
  Opening \<^verbatim>\<open>malloc://n\<close> through the plugin table gives a descriptor whose device holds \<open>n\<close> zero bytes
  and satisfies the device contract, for any size the allocator grants.
\<close>

theorem malloc_open_device:
  assumes "alloc n" and "n < 2 ^ 31" and "c_size cfg = word_of_nat n"
  shows "\<exists>w'. io_open [malloc_plugin buf_addr dst alloc fresh] (''malloc://'' @ digits_base 10 n) oflags mode w
      = (w', MALLOC_FD) \<and> malloc_valid cfg w' \<and> malloc_contents w' = replicate n 0"
proof -
  have "digits_base 10 n \<noteq> []" by (subst digits_base.simps) simp
  then obtain c cs where d: "digits_base 10 n = c # cs" by (cases "digits_base 10 n") auto
  obtain k where k: "k < 10" "c = digit_char k" using digits_base_all [of 10 n] d by auto
  then have cd: "char_digit c = Some k" by (simp add: char_digit_digit_char)
  have "char_digit x = None" if "x \<in> set [CHR '' '', CHR 0x09, CHR 0x0A, CHR 0x0B, CHR 0x0C, CHR 0x0D]
      \<or> x = CHR ''-'' \<or> x = CHR ''+''" for x
    using that by (auto simp: char_digit_def)
  then have "c \<notin> set [CHR '' '', CHR 0x09, CHR 0x0A, CHR 0x0B, CHR 0x0C, CHR 0x0D]" "c \<noteq> CHR ''-''" "c \<noteq> CHR ''+''"
    using cd by force+
  then have a: "atoi (digits_base 10 n) = int n"
    using d scan_digits_digits [of 10 n] by (simp add: atoi_def Let_def)
  have u: "unat (word_of_nat n :: ut32) = n" using assms(2) by (simp add: unat_of_nat)
  have z: "(ucast (word_of_nat n :: ut32) :: ut64) = word_of_nat n"
    using assms(2) by (simp add: word_unat_eq_iff u unat_of_nat)
  let ?w = "\<lparr>malloc_fd = MALLOC_FD, malloc_buf = Some (replicate n 0), malloc_bufsz = word_of_nat n :: ut32\<rparr>"
  have "io_open [malloc_plugin buf_addr dst alloc fresh] (''malloc://'' @ digits_base 10 n) oflags mode w = (?w, MALLOC_FD)"
    using a u assms(1)
    by (simp add: io_open_def find_open_def malloc_plugin_def malloc_handle_open_def malloc_open_def Let_def)
  moreover have "malloc_valid cfg ?w" using assms(3) u z by (simp add: malloc_valid_def)
  ultimately show ?thesis by (intro exI [of _ ?w]) (simp add: malloc_contents_def)
qed

theorem malloc_open_device_witness:
  "\<exists>w'. io_open [malloc_plugin 4096 8192 (\<lambda>n. n < 1000) (\<lambda>_. None)] (''malloc://'' @ digits_base 10 64) 0 0
     \<lparr>malloc_fd = - 1, malloc_buf = None, malloc_bufsz = 0\<rparr> = (w', MALLOC_FD) \<and> malloc_contents w' = replicate 64 0"
  using malloc_open_device [of "\<lambda>n. n < 1000" 64 "config_zero\<lparr>c_size := 64\<rparr>" 4096 8192 "\<lambda>_. None" 0 0
      "\<lparr>malloc_fd = - 1, malloc_buf = None, malloc_bufsz = 0\<rparr>"]
  by auto

end
