(* ===== verification/Rio.thy ===== *)
theory Rio
  imports Io_Malloc
begin

text \<open>
  Reading and writing through the core (\<^verbatim>\<open>src/src/rio.c\<close>): the seek with its translation through the
  sections, reads and writes at an address, the write mask, the block operations, and the recording
  of writes for undo (\<^verbatim>\<open>undo_write_new\<close> of \<^verbatim>\<open>src/src/undo.c\<close>, which rio calls and which calls rio). \<open>None\<close> is
  an access out of bounds, a division by zero or an undefined shift.
\<close>

section \<open>State\<close>

text \<open>
  What the code calls outside the model: the plugin table, \<^verbatim>\<open>read\<close> of the operating system, the
  configuration variables, \<^verbatim>\<open>get_math\<close>, and the byte an uninitialised buffer holds.
\<close>

record 'w io_env =
  plugins :: "'w plugin_t list"
  os_read :: "int \<Rightarrow> ut64 \<Rightarrow> ut64 \<Rightarrow> u8 list \<times> int"
  cfg_get :: "string \<Rightarrow> bool"
  cfg_get_i :: "string \<Rightarrow> ut64"
  env_math :: "string \<Rightarrow> ut64"
  junk :: u8

record undow_t =
  uset :: bool
  uoff :: ut64
  uo :: "u8 list"
  un :: "u8 list"

record 'w core =
  r_cfg :: config_t
  r_sec :: sections_state
  r_dev :: 'w
  r_maps :: "io_maps_t list"
  write_mask :: "u8 list option"
  undo_w_list :: "undow_t list"
  undo_w_init :: bool
  undo_w_lock :: bool
  io_write_last :: int
  r_out :: "out_event list"

section \<open>Model\<close>

definition emit :: "out_event list \<Rightarrow> 'w core \<Rightarrow> 'w core" where
  "emit es st = st\<lparr>r_out := r_out st @ es\<rparr>"

definition radare_seek :: "'w io_env \<Rightarrow> ut64 \<Rightarrow> int \<Rightarrow> 'w core \<Rightarrow> 'w core \<times> ut64" where
  "radare_seek env off0 whence st0 =
     (if off0 = UT64_MAX then (st0, UT64_MAX)
      else if whence = SEEK_END \<and> c_size (r_cfg st0) = UT64_MAX then
        (if c_verbose (r_cfg st0) then emit [ConsOut (''Warning: file size is unknown'' @ nl)] st0 else st0, UT64_MAX)
      else
        let st1 = (if whence = SEEK_END then st0\<lparr>r_cfg := (r_cfg st0)\<lparr>c_seek := c_size (r_cfg st0)\<rparr>\<rparr> else st0);
            cfg = r_cfg st1;
            bip = (c_vaddr cfg \<noteq> 0);
            off1 = (if bip \<and> off0 < c_vaddr cfg then off0 + c_vaddr cfg else off0);
            (sec, off2) = (if bip then section_align off1 (c_vaddr cfg) (c_paddr cfg) (r_sec st1) else (r_sec st1, off1));
            preoffset = (if bip then off1 - c_vaddr cfg else off0);
            seek = (if whence = SEEK_SET then off2 else c_seek cfg + off2);
            (w, r) = io_lseek (plugins env) (c_fd cfg) seek SEEK_SET cfg (r_dev st1);
            seek' = (if bip then (if whence = SEEK_SET then preoffset else c_seek cfg - off2 + preoffset) else seek)
        in (st1\<lparr>r_cfg := cfg\<lparr>c_seek := seek'\<rparr>, r_sec := sec, r_dev := w\<rparr>, seek'))"

definition core_io_read :: "'w io_env \<Rightarrow> nat \<Rightarrow> 'w core \<Rightarrow> ('w core \<times> u8 list \<times> int) option" where
  "core_io_read env cnt st =
     map_option (\<lambda>(w, bytes, r). (st\<lparr>r_dev := w\<rparr>, bytes, r))
       (io_read (os_read env) (r_maps st) (plugins env) (c_fd (r_cfg st)) cnt (r_cfg st) (r_dev st))"

definition core_io_write :: "'w io_env \<Rightarrow> u8 list \<Rightarrow> 'w core \<Rightarrow> ('w core \<times> int) option" where
  "core_io_write env buf st =
     map_option (\<lambda>(w, r, set_last, es).
         (emit es (st\<lparr>r_dev := w, io_write_last := if set_last then int (length buf) else io_write_last st\<rparr>), r))
       (io_write (cfg_get env ''file.write'') (plugins env) (c_fd (r_cfg st)) buf (r_cfg st) (r_dev st))"

definition radare_read_at :: "'w io_env \<Rightarrow> ut64 \<Rightarrow> nat \<Rightarrow> 'w core \<Rightarrow> ('w core \<times> u8 list \<times> int) option" where
  "radare_read_at env off len st =
     (let cur = c_seek (r_cfg st) in
      map_option (\<lambda>(st2, bytes, r). (fst (radare_seek env cur SEEK_SET st2), bytes, r))
        (core_io_read env len (fst (radare_seek env off SEEK_SET st))))"

definition radare_write_mask :: "u8 list option \<Rightarrow> 'w core \<Rightarrow> 'w core \<times> int" where
  "radare_write_mask msk st =
     (case msk of None \<Rightarrow> (st\<lparr>write_mask := None\<rparr>, 0) | Some m \<Rightarrow> (st\<lparr>write_mask := Some m\<rparr>, 1))"

definition radare_write_mask_str :: "'w io_env \<Rightarrow> string \<Rightarrow> 'w core \<Rightarrow> ('w core \<times> int) option" where
  "radare_write_mask_str env str st =
     (if str = [] \<or> hd str = CHR ''?'' then
        Some (emit ([ConsOut (''Usage: wm[-] [hexpair-string]'' @ nl @ '' wm ff00ff  ; set binary mask for write ops'' @ nl
                       @ '' wm-        ; unset current write binmask'' @ nl @ ''Current mask: '')]
                    @ map (\<lambda>b. ConsOut ('' '' @ fmt_02x b)) (case write_mask st of Some m \<Rightarrow> m | None \<Rightarrow> [])
                    @ [ConsOut nl]) st, 0)
      else if hd str = CHR ''-'' then Some (radare_write_mask None st)
      else case hexstr2binstr (env_math env) str of
        None \<Rightarrow> None
      | Some (bytes, len) \<Rightarrow>
          if length bytes > 1024 then None else Some (radare_write_mask (Some (take len bytes)) st))"

text \<open>\<^verbatim>\<open>data[i] & write_mask[i % write_mask_len]\<close>; \<open>None\<close> for a mask of length 0.\<close>

definition apply_mask :: "u8 list option \<Rightarrow> u8 list \<Rightarrow> u8 list option" where
  "apply_mask msk data =
     (case msk of
        None \<Rightarrow> Some data
      | Some m \<Rightarrow>
          if m = [] \<and> data \<noteq> [] then None
          else Some (map (\<lambda>i. data ! i AND m ! (i mod length m)) [0..<length data]))"

definition undo_write_new :: "'w io_env \<Rightarrow> ut64 \<Rightarrow> u8 list \<Rightarrow> 'w core \<Rightarrow> 'w core option" where
  "undo_write_new env off data st0 =
     (if cfg_get_i env ''file.undowrite'' = 0 \<or> undo_w_lock st0 then Some st0
      else
        let st = (if undo_w_init st0 then st0 else st0\<lparr>undo_w_init := True, undo_w_list := []\<rparr>) in
        if \<exists>uw \<in> set (undo_w_list st). uoff uw = off \<and> un uw = data then Some st
        else map_option (\<lambda>(st', bytes, r).
               st'\<lparr>undo_w_list := undo_w_list st' @
                 [\<lparr>uset = True, uoff = off,
                   uo = bytes @ replicate (length data - length bytes) (junk env), un = data\<rparr>]\<rparr>)
             (radare_read_at env off (length data) st))"

text \<open>\<^verbatim>\<open>radare_write_at\<close>; the refusal leaves the seek at the address.\<close>

definition radare_write_at :: "'w io_env \<Rightarrow> ut64 \<Rightarrow> u8 list \<Rightarrow> 'w core \<Rightarrow> ('w core \<times> int) option" where
  "radare_write_at env off data st0 =
     (let cur = c_seek (r_cfg st0);
          st1 = fst (radare_seek env off SEEK_SET st0) in
      if (case section_get off (r_sec st1) of Some s \<Rightarrow> srwx s AND SECTION_W \<noteq> 0 | None \<Rightarrow> False)
      then Some (emit [ErrOut (''Cannot write in this section'' @ nl)] st1, - 1)
      else
        Option.bind (if cfg_get_i env ''file.undowrite'' \<noteq> 0 then undo_write_new env off data st1 else Some st1) (\<lambda>st2.
        Option.bind (case write_mask st2 of
                       None \<Rightarrow> Some st2
                     | Some m \<Rightarrow> map_option fst (radare_read_at env off (length data) st2)) (\<lambda>st3.
        Option.bind (apply_mask (write_mask st2) data) (\<lambda>data'.
        map_option (\<lambda>(st4, len). (fst (radare_seek env cur SEEK_SET st4), len)) (core_io_write env data' st3)))))"

lemma apply_mask_length: "apply_mask msk data = Some data' \<Longrightarrow> length data' = length data"
  by (auto simp: apply_mask_def split: option.splits if_splits)

text \<open>\<^verbatim>\<open>radare_write_op\<close>: the swaps of \<^verbatim>\<open>'2'\<close> and \<^verbatim>\<open>'4'\<close>, and the byte operations with a cyclic key.\<close>

definition swap_cells :: "'a list \<Rightarrow> nat \<Rightarrow> nat \<Rightarrow> 'a list option" where
  "swap_cells xs i j =
     (if i < length xs \<and> j < length xs then Some (xs[i := xs ! j, j := xs ! i]) else None)"

function write_op_swap :: "nat \<Rightarrow> nat \<Rightarrow> u8 list \<Rightarrow> u8 list option" where
  "write_op_swap op i buf =
     (if op = 0 \<or> length buf \<le> i then Some buf
      else case swap_cells buf i (i + 3) of
        None \<Rightarrow> None
      | Some b1 \<Rightarrow>
          (case (if op = 4 then swap_cells b1 (i + 1) (i + 2) else Some b1) of
             None \<Rightarrow> None
           | Some b2 \<Rightarrow> if length b2 = length buf then write_op_swap op (i + op) b2 else None))"
  by pat_completeness auto
termination by (relation "measure (\<lambda>(op, i, buf). length buf - i)") auto

declare write_op_swap.simps [simp del]

definition write_op_byte :: "char \<Rightarrow> u8 \<Rightarrow> u8 \<Rightarrow> u8 option" where
  "write_op_byte op b k =
     (if op = CHR ''x'' then Some (b XOR k)
      else if op = CHR ''a'' then Some (b + k)
      else if op = CHR ''s'' then Some (b - k)
      else if op = CHR ''m'' then Some (b * k)
      else if op = CHR ''d'' then (if k = 0 then None else Some (word_of_int (c_div (uint b) (sint k))))
      else if op = CHR ''r'' then
        (if sint k < 0 \<or> sint k \<ge> 32 then None else Some (drop_bit (nat (sint k)) b))
      else if op = CHR ''l'' then
        (if sint k < 0 \<or> sint k \<ge> 32 then None else Some (push_bit (nat (sint k)) b))
      else if op = CHR ''o'' then Some (b OR k)
      else if op = CHR ''A'' then Some (b AND k)
      else Some b)"

fun write_op_loop :: "char \<Rightarrow> u8 list \<Rightarrow> nat \<Rightarrow> u8 list \<Rightarrow> u8 list option" where
  "write_op_loop op key j [] = Some []"
| "write_op_loop op key j (b # bs) =
     Option.bind (write_op_byte op b (key ! j)) (\<lambda>b'.
       map_option (\<lambda>bs'. b' # bs') (write_op_loop op key (if Suc j \<ge> length key then 0 else Suc j) bs))"

definition radare_write_op :: "'w io_env \<Rightarrow> string \<Rightarrow> char \<Rightarrow> 'w core \<Rightarrow> ('w core \<times> int) option" where
  "radare_write_op env arg op st =
     (let buf = take (nat (c_block_size (r_cfg st))) (c_block (r_cfg st)) in
      Option.bind (hexstr2binstr (env_math env) arg) (\<lambda>(bytes, len).
      Option.bind (if op = CHR ''2'' then write_op_swap 2 0 buf
                   else if op = CHR ''4'' then write_op_swap 4 0 buf
                   else if len = 0 \<and> buf \<noteq> [] then None
                   else write_op_loop op (take len bytes) 0 buf) (\<lambda>buf'.
      radare_write_at env (c_seek (r_cfg st)) buf' st)))"

text \<open>\<^verbatim>\<open>radare_read\<close>: the block, filled with \<^verbatim>\<open>0xff\<close> where the device gave nothing.\<close>

definition radare_read :: "'w io_env \<Rightarrow> bool \<Rightarrow> 'w core \<Rightarrow> ('w core \<times> int) option" where
  "radare_read env nxt st =
     (let cfg = r_cfg st in
      if c_fd cfg = - 1 then Some (st, 0)
      else if c_seek cfg = UT64_MAX then Some (st\<lparr>r_cfg := cfg\<lparr>c_seek := 0\<rparr>\<rparr>, c_block_size cfg)
      else
        let st1 = fst (radare_seek env (if nxt then c_seek cfg + word_of_int (c_block_size cfg) else c_seek cfg) SEEK_SET st);
            bs = nat (c_block_size cfg)
        in map_option (\<lambda>(st2, bytes, r).
              (st2\<lparr>r_cfg := (r_cfg st2)\<lparr>c_block := bytes @ replicate (bs - length bytes) 0xff\<rparr>\<rparr>, r))
             (core_io_read env bs st1))"

section \<open>Sessions on a device\<close>

text \<open>
  A plain session: one plugin that handles the open descriptor, no maps over it, no virtual base, and
  a seek that is an address. \<open>write_mem\<close> is the replacement of bytes in the contents.
\<close>

definition plain_session :: "'w plugin_t \<Rightarrow> int \<Rightarrow> (config_t \<Rightarrow> 'w \<Rightarrow> bool) \<Rightarrow> 'w io_env \<Rightarrow> 'w core \<Rightarrow> bool" where
  "plain_session pl fd valid env st \<longleftrightarrow> plugins env = [pl] \<and> r_maps st = [] \<and> c_fd (r_cfg st) = fd \<and>
     c_vaddr (r_cfg st) = 0 \<and> c_seek (r_cfg st) \<noteq> UT64_MAX \<and> valid (r_cfg st) (r_dev st)"

definition read_mem :: "u8 list \<Rightarrow> ut64 \<Rightarrow> nat \<Rightarrow> u8 list" where
  "read_mem m p n = take n (drop (unat p) m)"

definition write_mem :: "u8 list \<Rightarrow> ut64 \<Rightarrow> u8 list \<Rightarrow> u8 list" where
  "write_mem m p bs = take (unat p) m @ bs @ drop (unat p + length bs) m"

text \<open>The list of recorded writes after one more write, and whether it is initialised.\<close>

definition undo_record :: "'w io_env \<Rightarrow> ut64 \<Rightarrow> u8 list \<Rightarrow> u8 list \<Rightarrow> 'w core \<Rightarrow> bool \<times> undow_t list" where
  "undo_record env off data m st =
     (if cfg_get_i env ''file.undowrite'' = 0 \<or> undo_w_lock st then (undo_w_init st, undo_w_list st)
      else let l = (if undo_w_init st then undo_w_list st else []) in
        (True, if \<exists>uw \<in> set l. uoff uw = off \<and> un uw = data then l
               else l @ [\<lparr>uset = True, uoff = off, uo = read_mem m off (length data), un = data\<rparr>]))"

lemma config_seek_self [simp]: "cfg\<lparr>c_seek := c_seek cfg\<rparr> = (cfg :: config_t)"
  by (cases cfg) simp

lemma core_update_dev_self: "st\<lparr>r_cfg := r_cfg st, r_sec := r_sec st, r_dev := w\<rparr> = (st :: 'w core)\<lparr>r_dev := w\<rparr>"
  by (cases st) simp

lemma io_map_read_at_empty [simp]: "io_map_read_at os [] a n = ([], 0)"
  by (simp add: io_map_read_at_def)

context seek_device
begin

lemma session_seek:
  assumes "plain_session pl fd valid env st" and "off \<noteq> UT64_MAX"
  shows "\<exists>w. radare_seek env off SEEK_SET st = (st\<lparr>r_cfg := (r_cfg st)\<lparr>c_seek := off\<rparr>, r_dev := w\<rparr>, off) \<and>
     contents w = contents (r_dev st) \<and> plain_session pl fd valid env (st\<lparr>r_cfg := (r_cfg st)\<lparr>c_seek := off\<rparr>, r_dev := w\<rparr>)"
proof -
  obtain f where f: "p_lseek pl = Some f" using has_ops by auto
  obtain w r where w: "f fd off SEEK_SET (r_cfg st) (r_dev st) = (w, r)" by fastforce
  have v: "valid (r_cfg st) (r_dev st)" using assms(1) by (simp add: plain_session_def)
  have d: "valid (r_cfg st) w \<and> contents w = contents (r_dev st)" using dev_lseek [OF v, of off w r] f w by simp
  have h: "p_handle_fd pl fd (r_dev st)" by (rule handles [OF v])
  have "io_lseek [pl] fd off SEEK_SET (r_cfg st) (r_dev st) = (w, r)"
    using f w h fd_ok by (simp add: io_lseek_def)
  then have "radare_seek env off SEEK_SET st = (st\<lparr>r_cfg := (r_cfg st)\<lparr>c_seek := off\<rparr>, r_dev := w\<rparr>, off)"
    using assms by (simp add: radare_seek_def plain_session_def SEEK_SET_def SEEK_END_def)
  with d assms show ?thesis by (intro exI [of _ w]) (simp add: plain_session_def valid_seek)
qed

lemma session_read_at:
  assumes "plain_session pl fd valid env st" and "off \<noteq> UT64_MAX"
    and "unat off + n \<le> length (contents (r_dev st))"
  shows "\<exists>w r. radare_read_at env off n st = Some (st\<lparr>r_dev := w\<rparr>, read_mem (contents (r_dev st)) off n, r) \<and>
     contents w = contents (r_dev st) \<and> plain_session pl fd valid env (st\<lparr>r_dev := w\<rparr>)"
proof -
  obtain w1 where 1: "radare_seek env off SEEK_SET st = (st\<lparr>r_cfg := (r_cfg st)\<lparr>c_seek := off\<rparr>, r_dev := w1\<rparr>, off)"
      "contents w1 = contents (r_dev st)"
      "plain_session pl fd valid env (st\<lparr>r_cfg := (r_cfg st)\<lparr>c_seek := off\<rparr>, r_dev := w1\<rparr>)"
    using session_seek [OF assms(1,2)] by blast
  obtain f where f: "p_read pl = Some f" using has_ops by auto
  have v: "valid ((r_cfg st)\<lparr>c_seek := off\<rparr>) w1" using 1(3) by (simp add: plain_session_def)
  obtain w2 r where 2: "f fd n ((r_cfg st)\<lparr>c_seek := off\<rparr>) w1 = Some (w2, read_mem (contents (r_dev st)) off n, r)"
      "valid ((r_cfg st)\<lparr>c_seek := off\<rparr>) w2" "contents w2 = contents (r_dev st)"
    using dev_read [OF v, of n] assms(3) 1(2) f by (auto simp: read_mem_def)
  have "core_io_read env n (st\<lparr>r_cfg := (r_cfg st)\<lparr>c_seek := off\<rparr>, r_dev := w1\<rparr>) =
      Some (st\<lparr>r_cfg := (r_cfg st)\<lparr>c_seek := off\<rparr>, r_dev := w2\<rparr>, read_mem (contents (r_dev st)) off n, r)"
    using assms(1) f 2(1) handles [OF v] fd_ok by (simp add: core_io_read_def io_read_def plain_session_def)
  moreover have "plain_session pl fd valid env (st\<lparr>r_cfg := (r_cfg st)\<lparr>c_seek := off\<rparr>, r_dev := w2\<rparr>)"
    using 1(3) 2(2) by (simp add: plain_session_def)
  moreover have "c_seek (r_cfg st) \<noteq> UT64_MAX" using assms(1) by (simp add: plain_session_def)
  ultimately show ?thesis
    using session_seek [of env "st\<lparr>r_cfg := (r_cfg st)\<lparr>c_seek := off\<rparr>, r_dev := w2\<rparr>" "c_seek (r_cfg st)"] 1(1) 2(3)
    by (auto simp: radare_read_at_def)
qed

lemma session_undo_write_new:
  assumes "plain_session pl fd valid env st" and "off \<noteq> UT64_MAX"
    and "unat off + length data \<le> length (contents (r_dev st))"
  shows "\<exists>w. undo_write_new env off data st =
      Some (st\<lparr>r_dev := w, undo_w_init := fst (undo_record env off data (contents (r_dev st)) st),
               undo_w_list := snd (undo_record env off data (contents (r_dev st)) st)\<rparr>) \<and>
    contents w = contents (r_dev st) \<and> plain_session pl fd valid env (st\<lparr>r_dev := w\<rparr>)"
proof (cases "cfg_get_i env ''file.undowrite'' = 0 \<or> undo_w_lock st")
  case True
  with assms show ?thesis by (auto simp: undo_write_new_def undo_record_def intro!: exI [of _ "r_dev st"])
next
  case False
  let ?st = "if undo_w_init st then st else st\<lparr>undo_w_init := True, undo_w_list := []\<rparr>"
  have s: "plain_session pl fd valid env ?st" "r_dev ?st = r_dev st" using assms(1) by (simp_all add: plain_session_def)
  have i: "undo_w_init ?st" "undo_w_list ?st = (if undo_w_init st then undo_w_list st else [])" by simp_all
  show ?thesis
  proof (cases "\<exists>uw \<in> set (undo_w_list ?st). uoff uw = off \<and> un uw = data")
    case True
    with False assms(1) show ?thesis
      by (intro exI [of _ "r_dev st"]) (auto simp: undo_write_new_def undo_record_def Let_def)
  next
    case fresh: False
    obtain w r where r: "radare_read_at env off (length data) ?st =
        Some (?st\<lparr>r_dev := w\<rparr>, read_mem (contents (r_dev st)) off (length data), r)"
        "contents w = contents (r_dev st)" "plain_session pl fd valid env (?st\<lparr>r_dev := w\<rparr>)"
      using session_read_at [OF s(1) assms(2), of "length data"] s(2) assms(3) by auto
    have "length (read_mem (contents (r_dev st)) off (length data)) = length data"
      using assms(3) by (simp add: read_mem_def)
    with r False fresh show ?thesis
      by (intro exI [of _ w]) (auto simp: undo_write_new_def undo_record_def Let_def plain_session_def)
  qed
qed

text \<open>A write through the core, whose section does not refuse it; the mask is applied to the bytes first.\<close>

lemma session_write_masked:
  assumes "plain_session pl fd valid env st" and "off \<noteq> UT64_MAX"
    and "unat off + length data \<le> length (contents (r_dev st))"
    and "cfg_get env ''file.write''" and "apply_mask (write_mask st) data = Some data'"
    and "\<forall>s. section_get off (r_sec st) = Some s \<longrightarrow> srwx s AND SECTION_W = 0"
  shows "\<exists>w r. radare_write_at env off data st =
      Some (st\<lparr>r_dev := w, undo_w_init := fst (undo_record env off data (contents (r_dev st)) st),
               undo_w_list := snd (undo_record env off data (contents (r_dev st)) st),
               io_write_last := int (length data)\<rparr>, r) \<and>
    contents w = write_mem (contents (r_dev st)) off data' \<and> plain_session pl fd valid env (st\<lparr>r_dev := w\<rparr>)"
proof -
  let ?c = "contents (r_dev st)"
  let ?cfg = "(r_cfg st)\<lparr>c_seek := off\<rparr>"
  obtain w1 where 1: "radare_seek env off SEEK_SET st = (st\<lparr>r_cfg := ?cfg, r_dev := w1\<rparr>, off)"
      "contents w1 = ?c" "plain_session pl fd valid env (st\<lparr>r_cfg := ?cfg, r_dev := w1\<rparr>)"
    using session_seek [OF assms(1,2)] by blast
  let ?s1 = "st\<lparr>r_cfg := ?cfg, r_dev := w1\<rparr>"
  have rec: "undo_record env off data (contents w1) ?s1 = undo_record env off data ?c st"
    using 1(2) by (simp add: undo_record_def)
  obtain w2 where 2: "(if cfg_get_i env ''file.undowrite'' \<noteq> 0 then undo_write_new env off data ?s1 else Some ?s1) =
      Some (?s1\<lparr>r_dev := w2, undo_w_init := fst (undo_record env off data ?c st),
               undo_w_list := snd (undo_record env off data ?c st)\<rparr>)"
      "contents w2 = ?c" "plain_session pl fd valid env (?s1\<lparr>r_dev := w2\<rparr>)"
  proof (cases "cfg_get_i env ''file.undowrite'' = 0")
    case True
    then have "undo_record env off data ?c st = (undo_w_init st, undo_w_list st)" by (simp add: undo_record_def)
    with True 1 that [of w1] show ?thesis by simp
  next
    case False
    with session_undo_write_new [OF 1(3) assms(2), of data] 1(2) assms(3) rec that show ?thesis by auto
  qed
  let ?s2 = "?s1\<lparr>r_dev := w2, undo_w_init := fst (undo_record env off data ?c st),
               undo_w_list := snd (undo_record env off data ?c st)\<rparr>"
  have len: "length data' = length data" using assms(5) by (rule apply_mask_length)
  have ws: "write_mask ?s2 = write_mask st" by simp
  let ?t2 = "st\<lparr>r_cfg := ?cfg, r_dev := w2, undo_w_init := fst (undo_record env off data ?c st),
               undo_w_list := snd (undo_record env off data ?c st)\<rparr>"
  obtain w5 where 5: "(case write_mask st of None \<Rightarrow> Some ?t2 | Some m \<Rightarrow> map_option fst (radare_read_at env off (length data) ?t2)) =
      Some (?s2\<lparr>r_dev := w5\<rparr>)" "contents w5 = ?c" "plain_session pl fd valid env (?s2\<lparr>r_dev := w5\<rparr>)"
  proof (cases "write_mask st")
    case None
    then show ?thesis using 2(2,3) that [of w2] by (simp add: plain_session_def)
  next
    case (Some m)
    have "plain_session pl fd valid env ?s2" using 2(3) by (simp add: plain_session_def)
    from session_read_at [OF this assms(2), of "length data"] obtain w5 r5 where
      "radare_read_at env off (length data) ?s2 = Some (?s2\<lparr>r_dev := w5\<rparr>, read_mem ?c off (length data), r5)"
      "contents w5 = ?c" "plain_session pl fd valid env (?s2\<lparr>r_dev := w5\<rparr>)"
      using assms(3) 2(2) by auto
    with Some that [of w5] show ?thesis by simp
  qed
  obtain f where f: "p_write pl = Some f" using has_ops by auto
  have v: "valid ?cfg w5" using 5(3) by (simp add: plain_session_def)
  obtain w3 r where 3: "f fd data' ?cfg w5 = Some (w3, r)" "valid ?cfg w3" "contents w3 = write_mem ?c off data'"
    using dev_write [OF v, of data'] assms(3) 5(2) f len by (auto simp: write_mem_def)
  let ?s3 = "?s2\<lparr>r_dev := w3, io_write_last := int (length data)\<rparr>"
  have io: "core_io_write env data' (?s2\<lparr>r_dev := w5\<rparr>) = Some (?s3, r)"
    using assms(1,4) f 3(1) handles [OF v] fd_ok len
    by (simp add: core_io_write_def io_write_def plain_session_def emit_def)
  have p3: "plain_session pl fd valid env ?s3" using 2(3) 3(2) by (simp add: plain_session_def)
  have "c_seek (r_cfg st) \<noteq> UT64_MAX" using assms(1) by (simp add: plain_session_def)
  from session_seek [OF p3 this] obtain w4 where
    4: "radare_seek env (c_seek (r_cfg st)) SEEK_SET ?s3 = (?s3\<lparr>r_cfg := r_cfg st, r_dev := w4\<rparr>, c_seek (r_cfg st))"
      "contents w4 = contents w3" "plain_session pl fd valid env (?s3\<lparr>r_cfg := r_cfg st, r_dev := w4\<rparr>)"
    by auto
  have sec: "\<not> (case section_get off (r_sec ?s1) of Some s \<Rightarrow> srwx s AND SECTION_W \<noteq> 0 | None \<Rightarrow> False)"
    using assms(6) by (auto split: option.splits)
  have "radare_write_at env off data st = Some (?s3\<lparr>r_cfg := r_cfg st, r_dev := w4\<rparr>, r)"
    unfolding radare_write_at_def Let_def 1(1) fst_conv using sec 2(1) assms(5) io 4(1) 5(1) ws
    by simp
  moreover have "?s3\<lparr>r_cfg := r_cfg st, r_dev := w4\<rparr> =
      st\<lparr>r_dev := w4, undo_w_init := fst (undo_record env off data ?c st),
         undo_w_list := snd (undo_record env off data ?c st), io_write_last := int (length data)\<rparr>"
    by (cases st) simp
  moreover have "plain_session pl fd valid env (st\<lparr>r_dev := w4\<rparr>)" using 4(3) by (simp add: plain_session_def)
  ultimately show ?thesis using 3(3) 4(2) by (intro exI [of _ w4] exI [of _ r]) simp
qed

lemma session_write_at:
  assumes "plain_session pl fd valid env st" and "off \<noteq> UT64_MAX"
    and "unat off + length data \<le> length (contents (r_dev st))"
    and "cfg_get env ''file.write''" and "write_mask st = None"
    and "\<forall>s. section_get off (r_sec st) = Some s \<longrightarrow> srwx s AND SECTION_W = 0"
  shows "\<exists>w r. radare_write_at env off data st =
      Some (st\<lparr>r_dev := w, undo_w_init := fst (undo_record env off data (contents (r_dev st)) st),
               undo_w_list := snd (undo_record env off data (contents (r_dev st)) st),
               io_write_last := int (length data)\<rparr>, r) \<and>
    contents w = write_mem (contents (r_dev st)) off data \<and> plain_session pl fd valid env (st\<lparr>r_dev := w\<rparr>)"
  using session_write_masked [OF assms(1-4) _ assms(6)] assms(5) by (simp add: apply_mask_def)

end

section \<open>Bytes of the contents\<close>

lemma length_write_mem: "unat p + length bs \<le> length m \<Longrightarrow> length (write_mem m p bs) = length m"
  by (simp add: write_mem_def)

lemma nth_write_mem:
  assumes "unat p + length bs \<le> length m" and "i < length m"
  shows "write_mem m p bs ! i = (if unat p \<le> i \<and> i < unat p + length bs then bs ! (i - unat p) else m ! i)"
  using assms by (auto simp: write_mem_def nth_append)

lemma nth_read_mem: "unat p + n \<le> length m \<Longrightarrow> i < n \<Longrightarrow> read_mem m p n ! i = m ! (unat p + i)"
  by (simp add: read_mem_def)

lemma length_read_mem: "unat p + n \<le> length m \<Longrightarrow> length (read_mem m p n) = n"
  by (simp add: read_mem_def)

lemma read_write_mem: "unat p + length bs \<le> length m \<Longrightarrow> read_mem (write_mem m p bs) p (length bs) = bs"
  by (simp add: read_mem_def write_mem_def)

lemma write_read_mem:
  "unat p + length bs \<le> length m \<Longrightarrow> write_mem (write_mem m p bs) p (read_mem m p (length bs)) = m"
  by (intro nth_equalityI) (auto simp: length_write_mem length_read_mem nth_write_mem nth_read_mem)

section \<open>Block operations\<close>

lemma write_op_swap_2: "buf \<noteq> [] \<Longrightarrow> write_op_swap 2 i buf = None" if "i < length buf"
  using that
proof (induction "length buf - i" arbitrary: i buf rule: less_induct)
  case less
  show ?case
  proof (cases "i + 3 < length buf")
    case True
    let ?b = "buf[i := buf ! (i + 3), i + 3 := buf ! i]"
    have sw: "swap_cells buf i (i + 3) = Some ?b" using True by (simp add: swap_cells_def)
    have "write_op_swap 2 (i + 2) ?b = None" using less.hyps [of ?b "i + 2"] less.prems True by simp
    then show ?thesis using less.prems sw by (subst write_op_swap.simps) simp
  next
    case False
    then show ?thesis using less.prems by (subst write_op_swap.simps) (simp add: swap_cells_def)
  qed
qed

lemma write_op_loop_xor:
  "key \<noteq> [] \<Longrightarrow> j < length key \<Longrightarrow>
     \<exists>bs'. write_op_loop CHR ''x'' key j bs = Some bs' \<and> length bs' = length bs \<and> write_op_loop CHR ''x'' key j bs' = Some bs"
proof (induction bs arbitrary: j)
  case (Cons b bs)
  have "(if Suc j \<ge> length key then 0 else Suc j) < length key" using Cons.prems by auto
  from Cons.IH [OF Cons.prems(1) this] obtain bs' where
    "write_op_loop CHR ''x'' key (if Suc j \<ge> length key then 0 else Suc j) bs = Some bs'" "length bs' = length bs"
    "write_op_loop CHR ''x'' key (if Suc j \<ge> length key then 0 else Suc j) bs' = Some bs" by blast
  then show ?case by (auto simp: write_op_byte_def xor.assoc)
qed simp

text \<open>One step of the 4-byte swap reverses the word at its position.\<close>

lemma swap_word:
  assumes "length pre = i"
  shows "Option.bind (swap_cells (pre @ [a, b, c, d] @ rest) i (i + 3)) (\<lambda>x. swap_cells x (i + 1) (i + 2)) =
         Some (pre @ [d, c, b, a] @ rest)"
  using assms by (simp add: swap_cells_def list_update_append nth_append)

fun swap4 :: "u8 list \<Rightarrow> u8 list" where
  "swap4 (a # b # c # d # xs) = d # c # b # a # swap4 xs"
| "swap4 xs = xs"

lemma write_op_swap_4:
  "length xs mod 4 = 0 \<Longrightarrow> write_op_swap 4 (length pre) (pre @ xs) = Some (pre @ swap4 xs)"
proof (induction xs arbitrary: pre rule: swap4.induct)
  case (1 a b c d xs)
  have m: "length xs mod 4 = 0" using 1(2) by (simp add: mod_Suc split: if_splits)
  obtain b1 where b1: "swap_cells (pre @ [a, b, c, d] @ xs) (length pre) (length pre + 3) = Some b1"
      "swap_cells b1 (length pre + 1) (length pre + 2) = Some (pre @ [d, c, b, a] @ xs)"
    using swap_word [OF refl, of pre a b c d xs] by (auto simp: bind_eq_Some_conv)
  have "write_op_swap 4 (length (pre @ [d, c, b, a])) ((pre @ [d, c, b, a]) @ xs) = Some ((pre @ [d, c, b, a]) @ swap4 xs)"
    by (rule 1(1) [OF m])
  moreover have "length (pre @ [d, c, b, a]) = length pre + 4" by simp
  ultimately have "write_op_swap 4 (length pre + 4) (pre @ [d, c, b, a] @ xs) = Some (pre @ [d, c, b, a] @ swap4 xs)"
    by (metis append.assoc)
  then show ?case using b1 by (subst write_op_swap.simps) simp
qed (subst write_op_swap.simps, simp)+

lemma swap4_swap4: "swap4 (swap4 xs) = xs"
  by (induction xs rule: swap4.induct) auto

lemma length_swap4: "length (swap4 xs) = length xs"
  by (induction xs rule: swap4.induct) auto

section \<open>Properties\<close>

text \<open>
  C5 On a memory buffer \<^verbatim>\<open>radare_write_at\<close> writes the bytes it is given, each ANDed with the byte of the write mask at its
  position modulo the length of the mask when there is one; \<^verbatim>\<open>radare_read_at\<close> reads exactly these back. Every byte outside the
  written interval is unchanged, the buffer keeps its size and the seek is where it was.
\<close>

theorem write_at_read_at:
  assumes "plain_session (malloc_plugin ba dst alloc fresh) MALLOC_FD malloc_valid env st"
    and "off \<noteq> UT64_MAX" and "unat off + length data \<le> length (malloc_contents (r_dev st))"
    and "cfg_get env ''file.write''" and "write_mask st \<noteq> Some []"
    and "\<forall>s. section_get off (r_sec st) = Some s \<longrightarrow> srwx s AND SECTION_W = 0"
  shows "\<exists>st' r st'' r' data'. radare_write_at env off data st = Some (st', r) \<and>
     radare_read_at env off (length data) st' = Some (st'', data', r') \<and> length data' = length data \<and>
     (\<forall>i < length data. data' ! i = (case write_mask st of None \<Rightarrow> data ! i | Some m \<Rightarrow> data ! i AND m ! (i mod length m))) \<and>
     c_seek (r_cfg st') = c_seek (r_cfg st) \<and> c_seek (r_cfg st'') = c_seek (r_cfg st) \<and>
     length (malloc_contents (r_dev st')) = length (malloc_contents (r_dev st)) \<and>
     malloc_contents (r_dev st'') = malloc_contents (r_dev st') \<and>
     (\<forall>i < length (malloc_contents (r_dev st)). \<not> (unat off \<le> i \<and> i < unat off + length data) \<longrightarrow>
        malloc_contents (r_dev st') ! i = malloc_contents (r_dev st) ! i)"
proof -
  let ?pl = "malloc_plugin ba dst alloc fresh" and ?c = "malloc_contents (r_dev st)"
  obtain data' where d: "apply_mask (write_mask st) data = Some data'"
    and nth: "\<forall>i < length data. data' ! i = (case write_mask st of None \<Rightarrow> data ! i | Some m \<Rightarrow> data ! i AND m ! (i mod length m))"
    using assms(5) by (cases "write_mask st") (auto simp: apply_mask_def)
  have len: "length data' = length data" using d by (rule apply_mask_length)
  obtain w r where w: "radare_write_at env off data st =
      Some (st\<lparr>r_dev := w, undo_w_init := fst (undo_record env off data ?c st),
               undo_w_list := snd (undo_record env off data ?c st), io_write_last := int (length data)\<rparr>, r)"
      "malloc_contents w = write_mem ?c off data'" "plain_session ?pl MALLOC_FD malloc_valid env (st\<lparr>r_dev := w\<rparr>)"
    using malloc_dev.session_write_masked [OF assms(1-4) d assms(6)] by blast
  let ?s = "st\<lparr>r_dev := w, undo_w_init := fst (undo_record env off data ?c st),
               undo_w_list := snd (undo_record env off data ?c st), io_write_last := int (length data)\<rparr>"
  have s: "plain_session ?pl MALLOC_FD malloc_valid env ?s" using w(3) by (simp add: plain_session_def)
  have fits: "unat off + length data' \<le> length ?c" using assms(3) len by simp
  have "unat off + length data \<le> length (malloc_contents (r_dev ?s))" using fits w(2) len by (simp add: length_write_mem)
  then obtain w' r' where "radare_read_at env off (length data) ?s = Some (?s\<lparr>r_dev := w'\<rparr>, data', r')" "malloc_contents w' = malloc_contents w"
    using malloc_dev.session_read_at [OF s assms(2)] w(2) read_write_mem [OF fits] len by fastforce
  then show ?thesis using w(1,2) fits len nth
    by (intro exI [of _ ?s] exI [of _ r] exI [of _ "?s\<lparr>r_dev := w'\<rparr>"] exI [of _ r'] exI [of _ data'])
       (simp add: nth_write_mem length_write_mem)
qed

text \<open>A memory buffer of the given bytes, open in a core with writing enabled.\<close>

definition malloc_env :: "ut64 \<Rightarrow> malloc_state io_env" where
  "malloc_env undowrite = \<lparr>plugins = [malloc_plugin 4096 8192 (\<lambda>_. True) (\<lambda>_. None)],
     os_read = (\<lambda>_ _ _. ([], 0)), cfg_get = (\<lambda>_. True), cfg_get_i = (\<lambda>_. undowrite), env_math = (\<lambda>_. 0), junk = 0\<rparr>"

definition malloc_core :: "u8 list \<Rightarrow> malloc_state core" where
  "malloc_core bs = \<lparr>r_cfg = config_zero\<lparr>c_fd := MALLOC_FD, c_size := word_of_nat (length bs)\<rparr>,
     r_sec = sections_zero,
     r_dev = \<lparr>malloc_fd = MALLOC_FD, malloc_buf = Some bs, malloc_bufsz = word_of_nat (length bs)\<rparr>,
     r_maps = [], write_mask = None, undo_w_list = [], undo_w_init = False, undo_w_lock = False,
     io_write_last = 0, r_out = []\<rparr>"

lemma malloc_core_session:
  assumes "length bs < 2 ^ 31"
  shows "plain_session (malloc_plugin 4096 8192 (\<lambda>_. True) (\<lambda>_. None)) MALLOC_FD malloc_valid (malloc_env u) (malloc_core bs)"
proof -
  have u: "unat (word_of_nat (length bs) :: ut32) = length bs" using assms by (simp add: unat_of_nat)
  have "(ucast (word_of_nat (length bs) :: ut32) :: ut64) = word_of_nat (length bs)"
    using assms by (simp add: word_unat_eq_iff u unat_of_nat)
  with u show ?thesis
    by (simp add: plain_session_def malloc_env_def malloc_core_def malloc_valid_def)
qed

lemma malloc_core_simps [simp]:
  "malloc_contents (r_dev (malloc_core bs)) = bs" "write_mask (malloc_core bs) = None"
  "section_get a (r_sec (malloc_core bs)) = None" "cfg_get (malloc_env u) k"
  by (simp_all add: malloc_core_def malloc_contents_def sections_zero_def section_get_def malloc_env_def)

theorem write_at_read_at_witness:
  "\<exists>st' r st'' r'. radare_write_at (malloc_env 0) 1 [7, 8] ((malloc_core [1, 2, 3, 4])\<lparr>write_mask := Some [6]\<rparr>) = Some (st', r) \<and>
     radare_read_at (malloc_env 0) 1 2 st' = Some (st'', [6, 0], r')"
proof -
  let ?st = "(malloc_core [1, 2, 3, 4])\<lparr>write_mask := Some [6]\<rparr>"
  have "plain_session (malloc_plugin 4096 8192 (\<lambda>_. True) (\<lambda>_. None)) MALLOC_FD malloc_valid (malloc_env 0)
      (malloc_core [1, 2, 3, 4])" by (rule malloc_core_session) simp
  then have s: "plain_session (malloc_plugin 4096 8192 (\<lambda>_. True) (\<lambda>_. None)) MALLOC_FD malloc_valid (malloc_env 0) ?st"
    by (simp add: plain_session_def)
  obtain st' r st'' r' d where "radare_write_at (malloc_env 0) 1 [7, 8] ?st = Some (st', r)"
      "radare_read_at (malloc_env 0) 1 (length [7 :: u8, 8]) st' = Some (st'', d, r')" "length d = 2"
      "\<forall>i < 2. d ! i = [7, 8] ! i AND [6 :: u8] ! (i mod 1)"
    using write_at_read_at [OF s, of 1 "[7, 8]"] by auto
  moreover from this(3,4) have "d = [6, 0]" by (auto simp: length_Suc_conv numeral_2_eq_2 All_less_Suc)
  ultimately show ?thesis by (auto simp: numeral_2_eq_2)
qed

text \<open>
  \<^verbatim>\<open>radare_read_at\<close> leaves the seek where it was whenever the seek is below the virtual base or there is
  none, and \<^verbatim>\<open>radare_seek\<close> with a virtual base takes an address and its offset from the base to the same
  place.
\<close>

theorem seek_normal_form:
  "(c_seek (r_cfg st) \<noteq> UT64_MAX \<and> (c_vaddr (r_cfg st) = 0 \<or> c_seek (r_cfg st) < c_vaddr (r_cfg st)) \<and>
      radare_read_at env off n st = Some (st', bs, r) \<longrightarrow> c_seek (r_cfg st') = c_seek (r_cfg st)) \<and>
   (x < c_vaddr (r_cfg st) \<and> unat x + unat (c_vaddr (r_cfg st)) < 2 ^ 64 - 1 \<longrightarrow>
      snd (radare_seek env x SEEK_SET st) = x \<and>
      radare_seek env (x + c_vaddr (r_cfg st)) SEEK_SET st = radare_seek env x SEEK_SET st)"
proof -
  have seek: "c_seek (r_cfg (fst (radare_seek env y SEEK_SET s))) = y \<and> snd (radare_seek env y SEEK_SET s) = y"
    if "y \<noteq> UT64_MAX" "c_vaddr (r_cfg s) = 0 \<or> y < c_vaddr (r_cfg s)" for y s
    using that by (auto simp: radare_seek_def Let_def SEEK_SET_def SEEK_END_def split: prod.splits)
  have keep: "c_vaddr (r_cfg (fst (radare_seek env y SEEK_SET s))) = c_vaddr (r_cfg s)" for y s
    by (auto simp: radare_seek_def Let_def SEEK_SET_def SEEK_END_def split: prod.splits)
  have "c_seek (r_cfg st') = c_seek (r_cfg st)"
    if a: "c_seek (r_cfg st) \<noteq> UT64_MAX" "c_vaddr (r_cfg st) = 0 \<or> c_seek (r_cfg st) < c_vaddr (r_cfg st)"
      and rd: "radare_read_at env off n st = Some (st', bs, r)"
  proof -
    obtain s2 bs2 r2 where 2: "core_io_read env n (fst (radare_seek env off SEEK_SET st)) = Some (s2, bs2, r2)"
        "st' = fst (radare_seek env (c_seek (r_cfg st)) SEEK_SET s2)"
      using rd by (auto simp: radare_read_at_def)
    have "r_cfg s2 = r_cfg (fst (radare_seek env off SEEK_SET st))" using 2(1) by (auto simp: core_io_read_def)
    then have "c_vaddr (r_cfg s2) = c_vaddr (r_cfg st)" using keep by simp
    with seek [of "c_seek (r_cfg st)" s2] a 2(2) show ?thesis by simp
  qed
  moreover have "snd (radare_seek env x SEEK_SET st) = x \<and>
      radare_seek env (x + c_vaddr (r_cfg st)) SEEK_SET st = radare_seek env x SEEK_SET st"
    if lt: "x < c_vaddr (r_cfg st)" and sm: "unat x + unat (c_vaddr (r_cfg st)) < 2 ^ 64 - 1"
  proof -
    let ?v = "c_vaddr (r_cfg st)"
    have u: "unat (x + ?v) = unat x + unat ?v" using sm by (simp add: unat_word_ariths)
    have m: "unat (UT64_MAX :: ut64) = 2 ^ 64 - 1" by (simp add: unsigned_minus_1_eq_mask mask_eq_exp_minus_1)
    have ne: "x + ?v \<noteq> UT64_MAX" "x \<noteq> UT64_MAX" using u sm m by auto
    have ge: "\<not> x + ?v < ?v" using u by (simp add: word_less_nat_alt)
    from seek [of x st] ne lt ge show ?thesis
      by (auto simp: radare_seek_def Let_def SEEK_SET_def SEEK_END_def split: prod.splits)
  qed
  ultimately show ?thesis by blast
qed

theorem seek_normal_form_witness:
  "snd (radare_seek (malloc_env 0) 0x10 SEEK_SET
     ((malloc_core [])\<lparr>r_cfg := config_zero\<lparr>c_vaddr := 0x8048000\<rparr>\<rparr>)) = 0x10"
  using seek_normal_form [where env = "malloc_env 0" and x = "0x10"
      and st = "(malloc_core [])\<lparr>r_cfg := config_zero\<lparr>c_vaddr := 0x8048000\<rparr>\<rparr>"]
  by simp

text \<open>
  The block operations of \<^verbatim>\<open>radare_write_op\<close>: the exclusive or with a key applied twice and the 4-byte
  swap applied twice give back the block, the swap reverses every word of it; the 2-byte swap leaves
  the block on every non-empty block.
\<close>

theorem write_op_blocks:
  assumes "key \<noteq> []" and "length buf mod 4 = 0"
  shows "(\<exists>b. write_op_loop CHR ''x'' key 0 buf = Some b \<and> write_op_loop CHR ''x'' key 0 b = Some buf) \<and>
         write_op_swap 4 0 buf = Some (swap4 buf) \<and> write_op_swap 4 0 (swap4 buf) = Some buf \<and>
         (buf \<noteq> [] \<longrightarrow> write_op_swap 2 0 buf = None)"
proof -
  have "write_op_swap 4 0 buf = Some (swap4 buf)" "write_op_swap 4 0 (swap4 buf) = Some buf"
    using write_op_swap_4 [of buf "[]"] write_op_swap_4 [of "swap4 buf" "[]"] assms(2)
    by (simp_all add: length_swap4 swap4_swap4)
  then show ?thesis using write_op_loop_xor [of key 0 buf] assms write_op_swap_2 [of 0 buf] by auto
qed

theorem write_op_blocks_witness: "write_op_swap 4 0 [1, 2, 3, 4] = Some [4, 3, 2, 1]"
  using write_op_blocks [of "[0xff]" "[1, 2, 3, 4]"] by simp

text \<open>A section that carries the write permission refuses the write; the device and the history are untouched.\<close>

lemma write_at_refused:
  assumes "section_get off (r_sec st) = Some s" and "srwx s AND SECTION_W \<noteq> 0" and "c_vaddr (r_cfg st) = 0"
  shows "\<exists>st'. radare_write_at env off data st = Some (st', - 1) \<and> undo_w_list st' = undo_w_list st \<and>
         (off \<noteq> UT64_MAX \<longrightarrow> c_seek (r_cfg st') = off)"
  using assms by (auto simp: radare_write_at_def radare_seek_def Let_def emit_def SEEK_SET_def SEEK_END_def
      split: prod.splits)

text \<open>A mask that does not parse is stored as a mask of length 0; the next write divides by it.\<close>

lemma empty_mask_crashes:
  "hexstr2binstr gm s = Some (bytes, 0) \<Longrightarrow> data \<noteq> [] \<Longrightarrow> apply_mask (Some (take 0 bytes)) data = None"
  by (simp add: apply_mask_def)

end
