(* ===== verification/Undo.thy ===== *)
theory Undo
  imports Rio
begin

text \<open>
  Undo (\<^verbatim>\<open>src/src/undo.c\<close>): the history of seeks, an array of 64 addresses with an index and a limit, and
  the undo and redo of the recorded writes. \<open>before\<close> is what lies in memory in front of the array, which
  the code reads at index 0.
\<close>

section \<open>Seeks\<close>

definition UNDOS :: nat where "UNDOS = 64"

record undo_seeks =
  undos :: "ut64 list"
  undos_idx :: nat
  undos_lim :: nat

definition undo_get_last_seek :: "config_t \<Rightarrow> undo_seeks \<Rightarrow> ut64 option" where
  "undo_get_last_seek cfg u =
     (if undos_idx u = 0 then Some (c_seek cfg)
      else if undos_idx u = 1 then None
      else Some (undos u ! (undos_idx u - 2)))"

definition undo_seek :: "ut64 \<Rightarrow> config_t \<Rightarrow> undo_seeks \<Rightarrow> config_t \<times> undo_seeks" where
  "undo_seek before cfg u =
     (if undos_idx u = 0 then (cfg, u)
      else let i = undos_idx u - 1
           in (cfg\<lparr>c_seek := if i = 0 then before else undos u ! (i - 1)\<rparr>, u\<lparr>undos_idx := i\<rparr>))"

definition undo_redo :: "ut64 \<Rightarrow> config_t \<Rightarrow> undo_seeks \<Rightarrow> config_t \<times> undo_seeks" where
  "undo_redo before cfg u =
     (if undos_idx u < undos_lim u then undo_seek before cfg (u\<lparr>undos_idx := undos_idx u + 2\<rparr>) else (cfg, u))"

definition undo_push :: "ut64 \<Rightarrow> config_t \<Rightarrow> undo_seeks \<Rightarrow> undo_seeks" where
  "undo_push before cfg u =
     (let i = undos_idx u in
      if (if i = 0 then before else undos u ! (i - 1)) = c_seek cfg then u
      else
        let a = (undos u)[i := c_seek cfg];
            (a', i') = (if i = UNDOS - 1 then (tl a @ [last a], i) else (a, Suc i))
        in u\<lparr>undos := a', undos_idx := i', undos_lim := if undos_lim u < i' then i' else undos_lim u\<rparr>)"

definition undo_reset :: "undo_seeks \<Rightarrow> undo_seeks" where
  "undo_reset u = u\<lparr>undos_idx := 0\<rparr>"

fun undo_list_loop :: "undo_seeks \<Rightarrow> nat \<Rightarrow> out_event list" where
  "undo_list_loop u 0 = []"
| "undo_list_loop u (Suc i) =
     ConsOut (''f undo_'' @ fmt_d (int (undos_idx u) - 1 - int (Suc i)) @ '' @ 0x'' @ fmt_x (unat (undos u ! i)) @ nl)
       # undo_list_loop u i"

definition undo_list :: "undo_seeks \<Rightarrow> out_event list" where
  "undo_list u =
     (if undos_idx u < 1 then [ErrOut (''-no seeks done-'' @ nl)]
      else ConsOut (''f undo_idx @ '' @ fmt_d (int (undos_idx u)) @ nl) # undo_list_loop u (undos_idx u - 1))"

section \<open>Writes\<close>

definition undo_write_clear :: "'w core \<Rightarrow> 'w core" where
  "undo_write_clear st = st\<lparr>undo_w_list := []\<rparr>"

definition undo_write_size :: "'w core \<Rightarrow> nat" where
  "undo_write_size st = (if undo_w_init st then length (undo_w_list st) else 0)"

definition undo_bytes :: "u8 list \<Rightarrow> string" where
  "undo_bytes bs = concat (map (\<lambda>b. fmt_02x b @ '' '') bs)"

definition undo_write_line :: "bool \<Rightarrow> nat \<Rightarrow> undow_t \<Rightarrow> string" where
  "undo_write_line rad i u =
     (if rad then ''wx '' @ undo_bytes (un u) @ ''@ '' @ hex_0x (uoff u) @ nl
      else let len = (if length (un u) > 8 then 8 else length (un u)) in
        fmt_02d (int i) @ '' '' @ [if uset u then CHR ''+'' else CHR ''-''] @ '' '' @ fmt_d (int (length (un u)))
        @ '' '' @ fmt_08llx (uoff u) @ '': '' @ undo_bytes (take len (uo u)) @ (if len = 8 then ''.. '' else [])
        @ ''=> '' @ undo_bytes (take len (un u)) @ (if len = 8 then ''.. '' else []) @ nl)"

definition undo_write_list :: "bool \<Rightarrow> 'w core \<Rightarrow> out_event list" where
  "undo_write_list rad st =
     (if undo_w_init st
      then map (\<lambda>(i, u). ConsOut (undo_write_line rad i u)) (zip [0..<length (undo_w_list st)] (undo_w_list st))
      else [])"

text \<open>\<^verbatim>\<open>undo_write_set_t\<close> on the entry at a position of the list, oldest first.\<close>

definition undo_write_set_t :: "'w io_env \<Rightarrow> nat \<Rightarrow> bool \<Rightarrow> 'w core \<Rightarrow> 'w core option" where
  "undo_write_set_t env k b st =
     (let u = undo_w_list st ! k in
      map_option (\<lambda>(st', r).
          st'\<lparr>undo_w_list := (undo_w_list st')[k := (undo_w_list st' ! k)\<lparr>uset := b\<rparr>], undo_w_lock := False\<rparr>)
        (radare_write_at env (uoff u) (if b then un u else uo u) (st\<lparr>undo_w_lock := True\<rparr>)))"

fun undo_set_all_loop :: "'w io_env \<Rightarrow> bool \<Rightarrow> nat \<Rightarrow> 'w core \<Rightarrow> 'w core option" where
  "undo_set_all_loop env b 0 st = Some st"
| "undo_set_all_loop env b (Suc n) st =
     Option.bind (undo_write_set_t env n b st) (\<lambda>st'.
       undo_set_all_loop env b n
         (emit [ErrOut ((if b then ''redo '' else ''undo '') @ hex_0x (uoff (undo_w_list st' ! n)) @ nl)] st'))"

definition undo_write_set_all :: "'w io_env \<Rightarrow> bool \<Rightarrow> 'w core \<Rightarrow> 'w core option" where
  "undo_write_set_all env b st =
     (if undo_w_init st then undo_set_all_loop env b (length (undo_w_list st)) st else Some st)"

text \<open>\<^verbatim>\<open>undo_write_set\<close> counts from the newest entry.\<close>

definition undo_write_set :: "'w io_env \<Rightarrow> int \<Rightarrow> bool \<Rightarrow> 'w core \<Rightarrow> 'w core option" where
  "undo_write_set env n b st =
     (if undo_w_init st then
        (let l = length (undo_w_list st) in
         if 0 \<le> n \<and> nat n < l then undo_write_set_t env (l - 1 - nat n) b st
         else Some (emit [ErrOut (''invalid undo-write index'' @ nl)] st))
      else Some (emit [ErrOut (''no writes done'' @ nl)] st))"

section \<open>Undoing all writes\<close>

text \<open>Writing back the old bytes, newest entry first.\<close>

definition undo_chain :: "undow_t list \<Rightarrow> u8 list \<Rightarrow> u8 list" where
  "undo_chain es m = foldr (\<lambda>u m. write_mem m (uoff u) (uo u)) es m"

definition entry_ok :: "nat \<Rightarrow> undow_t \<Rightarrow> bool" where
  "entry_ok n u \<longleftrightarrow> uoff u \<noteq> UT64_MAX \<and> unat (uoff u) + length (un u) \<le> n \<and> length (uo u) = length (un u)"

lemma length_undo_chain: "\<forall>u \<in> set es. entry_ok (length m) u \<Longrightarrow> length (undo_chain es m) = length m"
  by (induction es) (auto simp: undo_chain_def entry_ok_def length_write_mem)

text \<open>Bytes inside the range of an entry do not matter to the chain.\<close>

lemma undo_chain_agree:
  assumes "\<forall>u \<in> set es. entry_ok (length m) u" and "length m' = length m"
    and "\<forall>i < length m. \<not> R i \<longrightarrow> m ! i = m' ! i"
  shows "\<forall>i < length m. \<not> R i \<longrightarrow> undo_chain es m ! i = undo_chain es m' ! i"
  using assms
proof (induction es)
  case (Cons u es)
  have l: "length (undo_chain es m) = length m" "length (undo_chain es m') = length m"
    using Cons.prems length_undo_chain by auto
  have IH: "\<forall>i < length m. \<not> R i \<longrightarrow> undo_chain es m ! i = undo_chain es m' ! i" using Cons by simp
  have u: "unat (uoff u) + length (uo u) \<le> length m" using Cons.prems by (auto simp: entry_ok_def)
  show ?case
  proof (intro allI impI)
    fix i assume "i < length m" "\<not> R i"
    then show "undo_chain (u # es) m ! i = undo_chain (u # es) m' ! i"
      using IH u l by (simp add: undo_chain_def nth_write_mem)
  qed
qed (simp add: undo_chain_def)

lemma undo_chain_covered:
  assumes "\<forall>u \<in> set es. entry_ok (length m) u" and "u \<in> set es" and "uoff u = off" and "length (un u) = length bs"
  shows "undo_chain es (write_mem m off bs) = undo_chain es m"
proof -
  obtain es1 es2 where es: "es = es1 @ u # es2" using assms(2) by (meson split_list)
  have u: "unat off + length bs \<le> length m" "unat (uoff u) + length (uo u) \<le> length m" "length (uo u) = length bs"
    using assms by (auto simp: entry_ok_def)
  let ?R = "\<lambda>i. unat off \<le> i \<and> i < unat off + length bs"
  have lw: "length (write_mem m off bs) = length m" using u by (simp add: length_write_mem)
  have "\<forall>i < length m. \<not> ?R i \<longrightarrow> m ! i = write_mem m off bs ! i" using u by (simp add: nth_write_mem)
  then have ag: "\<forall>i < length m. \<not> ?R i \<longrightarrow> undo_chain es2 m ! i = undo_chain es2 (write_mem m off bs) ! i"
    using assms(1) es lw by (intro undo_chain_agree) auto
  have l: "length (undo_chain es2 m) = length m" "length (undo_chain es2 (write_mem m off bs)) = length m"
    using length_undo_chain [of es2 m] length_undo_chain [of es2 "write_mem m off bs"] assms(1) es lw by auto
  have "undo_chain (u # es2) (write_mem m off bs) = undo_chain (u # es2) m"
  proof (rule nth_equalityI)
    fix i assume "i < length (undo_chain (u # es2) (write_mem m off bs))"
    then have "i < length m" using l u by (simp add: undo_chain_def length_write_mem)
    then show "undo_chain (u # es2) (write_mem m off bs) ! i = undo_chain (u # es2) m ! i"
      using ag l u assms(3) by (auto simp: undo_chain_def nth_write_mem)
  qed (use l u in \<open>simp add: undo_chain_def length_write_mem\<close>)
  then show ?thesis by (simp add: es undo_chain_def)
qed

text \<open>A sequence of writes through the core.\<close>

fun write_all :: "'w io_env \<Rightarrow> (ut64 \<times> u8 list) list \<Rightarrow> 'w core \<Rightarrow> 'w core option" where
  "write_all env [] st = Some st"
| "write_all env ((off, data) # ws) st = Option.bind (radare_write_at env off data st) (\<lambda>(st', r). write_all env ws st')"

definition writable_session :: "'w io_env \<Rightarrow> 'w core \<Rightarrow> bool" where
  "writable_session env st \<longleftrightarrow> cfg_get env ''file.write'' \<and> write_mask st = None \<and>
     (\<forall>s \<in> set (sections (r_sec st)). srwx s AND SECTION_W = 0)"

lemma writable_section: "writable_session env st \<Longrightarrow> \<forall>s. section_get off (r_sec st) = Some s \<longrightarrow> srwx s AND SECTION_W = 0"
  by (auto simp: writable_session_def section_get_def dest: find_SomeD)

text \<open>The history is faithful: undoing it would give the original contents.\<close>

definition history_ok :: "u8 list \<Rightarrow> u8 list \<Rightarrow> 'w core \<Rightarrow> bool" where
  "history_ok orig m st \<longleftrightarrow> undo_w_init st \<and> \<not> undo_w_lock st \<and> length m = length orig \<and>
     (\<forall>u \<in> set (undo_w_list st). entry_ok (length orig) u) \<and> undo_chain (undo_w_list st) m = orig"

context seek_device
begin

lemma history_write:
  assumes "plain_session pl fd valid env st" and "writable_session env st"
    and "cfg_get_i env ''file.undowrite'' \<noteq> 0"
    and "undo_w_init st \<Longrightarrow> history_ok orig (contents (r_dev st)) st"
    and "\<not> undo_w_init st \<Longrightarrow> contents (r_dev st) = orig \<and> \<not> undo_w_lock st"
    and "off \<noteq> UT64_MAX" and "unat off + length data \<le> length orig"
  shows "\<exists>st' r. radare_write_at env off data st = Some (st', r) \<and> plain_session pl fd valid env st' \<and>
     writable_session env st' \<and> history_ok orig (contents (r_dev st')) st' \<and> r_sec st' = r_sec st"
proof -
  let ?c = "contents (r_dev st)"
  define l where "l = (if undo_w_init st then undo_w_list st else [])"
  have lk: "\<not> undo_w_lock st" using assms(4,5) by (cases "undo_w_init st") (auto simp: history_ok_def)
  have lc: "length ?c = length orig" using assms(4,5) by (cases "undo_w_init st") (auto simp: history_ok_def)
  have ok: "\<forall>u \<in> set l. entry_ok (length orig) u" and ch: "undo_chain l ?c = orig"
    using assms(4,5) by (auto simp: l_def history_ok_def undo_chain_def split: if_splits)
  let ?e = "\<lparr>uset = True, uoff = off, uo = read_mem ?c off (length data), un = data\<rparr>"
  let ?l = "if \<exists>uw \<in> set l. uoff uw = off \<and> un uw = data then l else l @ [?e]"
  have rec: "undo_record env off data ?c st = (True, ?l)"
    using lk assms(3) by (auto simp: undo_record_def l_def Let_def)
  obtain w r where w: "radare_write_at env off data st =
      Some (st\<lparr>r_dev := w, undo_w_init := True, undo_w_list := ?l, io_write_last := int (length data)\<rparr>, r)"
      "contents w = write_mem ?c off data" "plain_session pl fd valid env (st\<lparr>r_dev := w\<rparr>)"
    using session_write_at [OF assms(1,6) _ _ _ writable_section [OF assms(2)], of data] assms(2,7) lc rec
    by (auto simp: writable_session_def)
  let ?st = "st\<lparr>r_dev := w, undo_w_init := True, undo_w_list := ?l, io_write_last := int (length data)\<rparr>"
  have bound: "unat off + length data \<le> length ?c" using assms(7) lc by simp
  have "history_ok orig (contents w) ?st"
  proof (cases "\<exists>uw \<in> set l. uoff uw = off \<and> un uw = data")
    case True
    then obtain uw where "uw \<in> set l" "uoff uw = off" "length (un uw) = length data" by auto
    with undo_chain_covered [of l ?c uw off data] ok ch lc w(2) bound True lk show ?thesis
      by (auto simp: history_ok_def length_write_mem)
  next
    case False
    have "undo_chain (l @ [?e]) (write_mem ?c off data) = undo_chain l ?c"
      using write_read_mem [OF bound] by (simp add: undo_chain_def)
    moreover have "entry_ok (length orig) ?e"
      using assms(6,7) length_read_mem [OF bound] by (simp add: entry_ok_def)
    ultimately show ?thesis using False ok ch lc w(2) bound lk by (auto simp: history_ok_def length_write_mem)
  qed
  moreover have "plain_session pl fd valid env ?st" using w(3) by (simp add: plain_session_def)
  moreover have "writable_session env ?st" using assms(2) by (simp add: writable_session_def)
  ultimately show ?thesis using w(1) by (intro exI [of _ ?st] exI [of _ r]) simp
qed

lemma history_write_all:
  assumes "plain_session pl fd valid env st" and "writable_session env st"
    and "cfg_get_i env ''file.undowrite'' \<noteq> 0"
    and "history_ok orig (contents (r_dev st)) st"
    and "\<forall>(off, data) \<in> set ws. off \<noteq> UT64_MAX \<and> unat off + length data \<le> length orig"
  shows "\<exists>st'. write_all env ws st = Some st' \<and> plain_session pl fd valid env st' \<and>
     writable_session env st' \<and> history_ok orig (contents (r_dev st')) st'"
  using assms(1,2,4,5)
proof (induction ws arbitrary: st)
  case (Cons wd ws)
  obtain off data where wd: "wd = (off, data)" by (cases wd)
  have "undo_w_init st" using Cons.prems(3) by (simp add: history_ok_def)
  then obtain st1 r where "radare_write_at env off data st = Some (st1, r)" "plain_session pl fd valid env st1"
      "writable_session env st1" "history_ok orig (contents (r_dev st1)) st1"
    using history_write [OF Cons.prems(1,2) assms(3), of orig off data] Cons.prems(3,4) wd by auto
  with Cons.IH [of st1] Cons.prems(4) wd show ?case by simp
qed simp

lemma undo_set_all_restores:
  assumes "plain_session pl fd valid env st" and "writable_session env st"
    and "\<not> undo_w_lock st" and "n \<le> length (undo_w_list st)"
    and "\<forall>u \<in> set (undo_w_list st). entry_ok (length (contents (r_dev st))) u"
  shows "\<exists>st'. undo_set_all_loop env False n st = Some st' \<and>
     contents (r_dev st') = undo_chain (take n (undo_w_list st)) (contents (r_dev st)) \<and>
     plain_session pl fd valid env st'"
  using assms
proof (induction n arbitrary: st)
  case (Suc n)
  let ?u = "undo_w_list st ! n" and ?c = "contents (r_dev st)"
  have u: "entry_ok (length ?c) ?u" using Suc.prems(4,5) by simp
  let ?st = "st\<lparr>undo_w_lock := True\<rparr>"
  have p: "plain_session pl fd valid env ?st" using Suc.prems(1) by (simp add: plain_session_def)
  have wr: "writable_session env ?st" using Suc.prems(2) by (simp add: writable_session_def)
  have rec: "undo_record env (uoff ?u) (uo ?u) ?c ?st = (undo_w_init st, undo_w_list st)" by (simp add: undo_record_def)
  obtain w r where w: "radare_write_at env (uoff ?u) (uo ?u) ?st =
      Some (?st\<lparr>r_dev := w, io_write_last := int (length (uo ?u))\<rparr>, r)"
      "contents w = write_mem ?c (uoff ?u) (uo ?u)" "plain_session pl fd valid env (?st\<lparr>r_dev := w\<rparr>)"
    using session_write_at [OF p _ _ _ _ writable_section [OF wr], of "uoff ?u" "uo ?u"] u wr rec
    by (auto simp: entry_ok_def writable_session_def)
  let ?s1 = "?st\<lparr>r_dev := w, io_write_last := int (length (uo ?u)),
      undo_w_list := (undo_w_list st)[n := ?u\<lparr>uset := False\<rparr>], undo_w_lock := False\<rparr>"
  have s1: "undo_write_set_t env n False st = Some ?s1" using w(1) by (simp add: undo_write_set_t_def Let_def)
  let ?s2 = "emit [ErrOut (''undo '' @ hex_0x (uoff (undo_w_list ?s1 ! n)) @ nl)] ?s1"
  have lw: "length (contents w) = length ?c" using w(2) u by (simp add: length_write_mem entry_ok_def)
  have "plain_session pl fd valid env ?s2" using w(3) by (simp add: plain_session_def emit_def)
  moreover have "writable_session env ?s2" using wr by (simp add: writable_session_def emit_def)
  moreover have "\<forall>u \<in> set (undo_w_list ?s2). entry_ok (length (contents (r_dev ?s2))) u"
  proof
    fix v assume "v \<in> set (undo_w_list ?s2)"
    then have "v \<in> insert (?u\<lparr>uset := False\<rparr>) (set (undo_w_list st))"
      using set_update_subset_insert by (fastforce simp: emit_def)
    then show "entry_ok (length (contents (r_dev ?s2))) v" using Suc.prems(5) u lw by (auto simp: entry_ok_def emit_def)
  qed
  ultimately obtain st' where "undo_set_all_loop env False n ?s2 = Some st'" "plain_session pl fd valid env st'"
      "contents (r_dev st') = undo_chain (take n (undo_w_list ?s2)) (contents (r_dev ?s2))"
    using Suc.IH [of ?s2] Suc.prems(4) by (auto simp: emit_def)
  moreover have "take n (undo_w_list ?s2) = take n (undo_w_list st)" by (simp add: emit_def)
  moreover have "undo_chain (take (Suc n) (undo_w_list st)) ?c = undo_chain (take n (undo_w_list st)) (contents w)"
    using Suc.prems(4) w(2) by (simp add: take_Suc_conv_app_nth undo_chain_def)
  ultimately show ?case using s1 by (simp add: emit_def)
qed (simp add: undo_chain_def)

end

section \<open>Properties\<close>

text \<open>
  C6 Undoing all writes restores the contents: after any sequence of writes to a memory buffer, also
  overlapping or repeated ones (which are recorded once), \<^verbatim>\<open>undo_write_set_all(0)\<close> returns and gives back
  every byte.
\<close>

theorem undo_all_restores:
  assumes "plain_session (malloc_plugin ba dst alloc fresh) MALLOC_FD malloc_valid env st" and "writable_session env st"
    and "cfg_get_i env ''file.undowrite'' \<noteq> 0" and "\<not> undo_w_lock st" and "\<not> undo_w_init st"
    and "\<forall>(off, data) \<in> set ws. off \<noteq> UT64_MAX \<and> unat off + length data \<le> length (malloc_contents (r_dev st))"
  shows "\<exists>st1 st2. write_all env ws st = Some st1 \<and> undo_write_set_all env False st1 = Some st2 \<and>
     malloc_contents (r_dev st2) = malloc_contents (r_dev st)"
proof (cases ws)
  case Nil
  with assms(5) show ?thesis by (simp add: undo_write_set_all_def)
next
  case (Cons wd ws')
  let ?orig = "malloc_contents (r_dev st)"
  obtain off data where wd: "wd = (off, data)" by (cases wd)
  obtain s1 r where s1: "radare_write_at env off data st = Some (s1, r)"
      "plain_session (malloc_plugin ba dst alloc fresh) MALLOC_FD malloc_valid env s1" "writable_session env s1"
      "history_ok ?orig (malloc_contents (r_dev s1)) s1"
    using malloc_dev.history_write [OF assms(1,2,3), of ?orig off data] assms(4-6) Cons wd by auto
  obtain s2 where s2: "write_all env ws' s1 = Some s2"
      "plain_session (malloc_plugin ba dst alloc fresh) MALLOC_FD malloc_valid env s2" "writable_session env s2"
      "history_ok ?orig (malloc_contents (r_dev s2)) s2"
    using malloc_dev.history_write_all [OF s1(2,3) assms(3) s1(4), of ws'] assms(6) Cons by auto
  have h: "undo_w_init s2" "\<not> undo_w_lock s2" "\<forall>u \<in> set (undo_w_list s2). entry_ok (length (malloc_contents (r_dev s2))) u"
      "undo_chain (undo_w_list s2) (malloc_contents (r_dev s2)) = ?orig"
    using s2(4) by (auto simp: history_ok_def)
  from malloc_dev.undo_set_all_restores [OF s2(2,3) h(2) order_refl h(3)] h(1,4) s1(1) s2(1) Cons wd
  show ?thesis by (auto simp: undo_write_set_all_def)
qed

theorem undo_all_restores_witness:
  "\<exists>st1 st2. write_all (malloc_env 1) [(0, [7, 8]), (1, [9]), (0, [7, 8])] (malloc_core [1, 2, 3]) = Some st1 \<and>
     undo_write_set_all (malloc_env 1) False st1 = Some st2 \<and> malloc_contents (r_dev st2) = [1, 2, 3]"
proof -
  have "plain_session (malloc_plugin 4096 8192 (\<lambda>_. True) (\<lambda>_. None)) MALLOC_FD malloc_valid (malloc_env 1)
      (malloc_core [1, 2, 3])" by (rule malloc_core_session) simp
  moreover have "writable_session (malloc_env 1) (malloc_core [1, 2, 3])"
    by (simp add: writable_session_def malloc_core_def malloc_env_def sections_zero_def)
  moreover have "\<not> undo_w_lock (malloc_core [1, 2, 3])" "\<not> undo_w_init (malloc_core [1, 2, 3])"
      "cfg_get_i (malloc_env 1) ''file.undowrite'' \<noteq> 0" by (simp_all add: malloc_core_def malloc_env_def)
  ultimately show ?thesis
    using undo_all_restores [of 4096 8192 "\<lambda>_. True" "\<lambda>_. None" "malloc_env 1" "malloc_core [1, 2, 3]"
        "[(0, [7, 8]), (1, [9]), (0, [7, 8])]"] by simp
qed

text \<open>The invariant of the history of seeks.\<close>

definition seeks_ok :: "undo_seeks \<Rightarrow> bool" where
  "seeks_ok u \<longleftrightarrow> length (undos u) = UNDOS \<and> undos_idx u \<le> undos_lim u \<and> undos_lim u < UNDOS"

lemma undo_push_history:
  assumes "seeks_ok u" and "(if undos_idx u = 0 then before else undos u ! (undos_idx u - 1)) \<noteq> c_seek cfg"
  shows "seeks_ok (undo_push before cfg u) \<and>
    take (undos_idx (undo_push before cfg u)) (undos (undo_push before cfg u)) =
      (if undos_idx u = UNDOS - 1 then tl (take (UNDOS - 1) (undos u)) else take (undos_idx u) (undos u)) @ [c_seek cfg]"
proof (cases "undos_idx u = UNDOS - 1")
  case True
  obtain ys y where xs: "undos u = ys @ [y]" "length ys = 63"
    using assms(1) by (cases "undos u" rule: rev_cases) (auto simp: seeks_ok_def UNDOS_def)
  then obtain z zs where zs: "ys = z # zs" by (cases ys) auto
  have upd: "(zs @ [y])[62 := c_seek cfg] = zs @ [c_seek cfg]"
    using xs zs list_update_length [of zs y "[]" "c_seek cfg"] by simp
  have "undo_push before cfg u = u\<lparr>undos := zs @ [c_seek cfg, c_seek cfg], undos_idx := 63, undos_lim :=
      if undos_lim u < 63 then 63 else undos_lim u\<rparr>"
    using upd assms(2) True xs zs by (simp add: undo_push_def Let_def UNDOS_def)
  with assms(1) True xs zs show ?thesis by (auto simp: seeks_ok_def UNDOS_def)
next
  case False
  then have i: "undos_idx u < 63" using assms(1) by (auto simp: seeks_ok_def UNDOS_def)
  have "undo_push before cfg u = u\<lparr>undos := (undos u)[undos_idx u := c_seek cfg], undos_idx := Suc (undos_idx u),
      undos_lim := if undos_lim u < Suc (undos_idx u) then Suc (undos_idx u) else undos_lim u\<rparr>"
    using assms(2) i by (simp add: undo_push_def Let_def UNDOS_def)
  with assms(1) i show ?thesis by (auto simp: seeks_ok_def UNDOS_def take_Suc_conv_app_nth)
qed

text \<open>
  The history of seeks: a push of a new seek appends it, dropping the oldest of 62 when the array is
  full, and keeps the indices in the array; an undo goes back to the entry before the last, and the
  redo after it returns to the last and restores the history.
\<close>

theorem undo_seek_redo:
  assumes "seeks_ok u" and "2 \<le> undos_idx u"
  shows "(undos u ! (undos_idx u - 1) \<noteq> c_seek cfg \<longrightarrow>
      seeks_ok (undo_push before cfg u) \<and>
      take (undos_idx (undo_push before cfg u)) (undos (undo_push before cfg u)) =
        (if undos_idx u = UNDOS - 1 then tl (take (UNDOS - 1) (undos u)) else take (undos_idx u) (undos u)) @ [c_seek cfg]) \<and>
    c_seek (fst (undo_seek before cfg u)) = undos u ! (undos_idx u - 2) \<and>
    seeks_ok (snd (undo_seek before cfg u)) \<and>
    undo_redo before (fst (undo_seek before cfg u)) (snd (undo_seek before cfg u)) =
      (cfg\<lparr>c_seek := undos u ! (undos_idx u - 1)\<rparr>, u)"
proof -
  have "undos u ! (undos_idx u - 1) \<noteq> c_seek cfg \<longrightarrow>
      seeks_ok (undo_push before cfg u) \<and>
      take (undos_idx (undo_push before cfg u)) (undos (undo_push before cfg u)) =
        (if undos_idx u = UNDOS - 1 then tl (take (UNDOS - 1) (undos u)) else take (undos_idx u) (undos u)) @ [c_seek cfg]"
    using undo_push_history [OF assms(1), of before cfg] assms(2) by simp
  moreover obtain k where k: "undos_idx u = Suc (Suc k)" using assms(2) by (metis Suc_le_D numeral_2_eq_2 Suc_le_mono)
  then have "u\<lparr>undos_idx := Suc (Suc k)\<rparr> = u" by (cases u) simp
  ultimately show ?thesis using assms k by (auto simp: undo_seek_def undo_redo_def seeks_ok_def Let_def)
qed

theorem undo_seek_redo_witness:
  "c_seek (fst (undo_seek 0 (config_zero\<lparr>c_seek := 9\<rparr>)
     \<lparr>undos = [5, 7] @ replicate 62 0, undos_idx = 2, undos_lim = 2\<rparr>)) = 5"
  using undo_seek_redo [of "\<lparr>undos = [5, 7] @ replicate 62 0, undos_idx = 2, undos_lim = 2\<rparr>" "config_zero\<lparr>c_seek := 9\<rparr>" 0]
  by (simp add: seeks_ok_def UNDOS_def)

text \<open>
  The recorded writes are listed as \<^verbatim>\<open>wx\<close> commands whose bytes \<^verbatim>\<open>hexstr2binstr\<close> reads back.
\<close>

lemma undo_bytes_read_back: "hexstr2binstr gm (undo_bytes bs) = Some (bs, length bs)"
  using hexstr2binstr_loop_bytes [of "'' ''" 0 0 gm bs "[]"]
  by (simp add: undo_bytes_def hexstr2binstr_def Let_def hex_ignored_def)

text \<open>Undo at the first entry takes the seek from in front of the array.\<close>

lemma undo_seek_underflow: "undos_idx u = 1 \<Longrightarrow> c_seek (fst (undo_seek before cfg u)) = before"
  by (simp add: undo_seek_def)

text \<open>Redoing all goes through the writes from the newest to the oldest: of two writes to one byte the older stays.\<close>

lemma redo_all_order:
  "map_option (\<lambda>st. malloc_contents (r_dev st))
     (Option.bind (write_all (malloc_env 1) [(0, [7]), (0, [9])] (malloc_core [1])) (\<lambda>st.
      Option.bind (undo_write_set_all (malloc_env 1) False st) (undo_write_set_all (malloc_env 1) True))) = Some [7]"
  by code_simp

end
