(* ===== verification/Crc.thy ===== *)
theory Crc
  imports Radare_Prelude
begin

text \<open>
  Cyclic redundancy checks: the table-driven CRC-16 (\<^verbatim>\<open>src/src/rahash/crc16.c\<close>) and CRC-32
  (\<^verbatim>\<open>src/src/rahash/crc32.c\<close>, which computes its table on first use), and the bitwise engine with its
  presets (\<^verbatim>\<open>src/src/rahash/crca.c\<close>). A table-driven step is eight steps of the bitwise register, which
  the locale \<open>crc_table\<close> derives from the contents of the table alone.
\<close>

section \<open>Model\<close>

definition crc16_table :: "ut16 list" where
  "crc16_table =
    [0x0000, 0xC0C1, 0xC181, 0x0140, 0xC301, 0x03C0, 0x0280, 0xC241, 0xC601, 0x06C0, 0x0780, 0xC741,
     0x0500, 0xC5C1, 0xC481, 0x0440, 0xCC01, 0x0CC0, 0x0D80, 0xCD41, 0x0F00, 0xCFC1, 0xCE81, 0x0E40,
     0x0A00, 0xCAC1, 0xCB81, 0x0B40, 0xC901, 0x09C0, 0x0880, 0xC841, 0xD801, 0x18C0, 0x1980, 0xD941,
     0x1B00, 0xDBC1, 0xDA81, 0x1A40, 0x1E00, 0xDEC1, 0xDF81, 0x1F40, 0xDD01, 0x1DC0, 0x1C80, 0xDC41,
     0x1400, 0xD4C1, 0xD581, 0x1540, 0xD701, 0x17C0, 0x1680, 0xD641, 0xD201, 0x12C0, 0x1380, 0xD341,
     0x1100, 0xD1C1, 0xD081, 0x1040, 0xF001, 0x30C0, 0x3180, 0xF141, 0x3300, 0xF3C1, 0xF281, 0x3240,
     0x3600, 0xF6C1, 0xF781, 0x3740, 0xF501, 0x35C0, 0x3480, 0xF441, 0x3C00, 0xFCC1, 0xFD81, 0x3D40,
     0xFF01, 0x3FC0, 0x3E80, 0xFE41, 0xFA01, 0x3AC0, 0x3B80, 0xFB41, 0x3900, 0xF9C1, 0xF881, 0x3840,
     0x2800, 0xE8C1, 0xE981, 0x2940, 0xEB01, 0x2BC0, 0x2A80, 0xEA41, 0xEE01, 0x2EC0, 0x2F80, 0xEF41,
     0x2D00, 0xEDC1, 0xEC81, 0x2C40, 0xE401, 0x24C0, 0x2580, 0xE541, 0x2700, 0xE7C1, 0xE681, 0x2640,
     0x2200, 0xE2C1, 0xE381, 0x2340, 0xE101, 0x21C0, 0x2080, 0xE041, 0xA001, 0x60C0, 0x6180, 0xA141,
     0x6300, 0xA3C1, 0xA281, 0x6240, 0x6600, 0xA6C1, 0xA781, 0x6740, 0xA501, 0x65C0, 0x6480, 0xA441,
     0x6C00, 0xACC1, 0xAD81, 0x6D40, 0xAF01, 0x6FC0, 0x6E80, 0xAE41, 0xAA01, 0x6AC0, 0x6B80, 0xAB41,
     0x6900, 0xA9C1, 0xA881, 0x6840, 0x7800, 0xB8C1, 0xB981, 0x7940, 0xBB01, 0x7BC0, 0x7A80, 0xBA41,
     0xBE01, 0x7EC0, 0x7F80, 0xBF41, 0x7D00, 0xBDC1, 0xBC81, 0x7C40, 0xB401, 0x74C0, 0x7580, 0xB541,
     0x7700, 0xB7C1, 0xB681, 0x7640, 0x7200, 0xB2C1, 0xB381, 0x7340, 0xB101, 0x71C0, 0x7080, 0xB041,
     0x5000, 0x90C1, 0x9181, 0x5140, 0x9301, 0x53C0, 0x5280, 0x9241, 0x9601, 0x56C0, 0x5780, 0x9741,
     0x5500, 0x95C1, 0x9481, 0x5440, 0x9C01, 0x5CC0, 0x5D80, 0x9D41, 0x5F00, 0x9FC1, 0x9E81, 0x5E40,
     0x5A00, 0x9AC1, 0x9B81, 0x5B40, 0x9901, 0x59C0, 0x5880, 0x9841, 0x8801, 0x48C0, 0x4980, 0x8941,
     0x4B00, 0x8BC1, 0x8A81, 0x4A40, 0x4E00, 0x8EC1, 0x8F81, 0x4F40, 0x8D01, 0x4DC0, 0x4C80, 0x8C41,
     0x4400, 0x84C1, 0x8581, 0x4540, 0x8701, 0x47C0, 0x4680, 0x8641, 0x8201, 0x42C0, 0x4380, 0x8341,
     0x4100, 0x81C1, 0x8081, 0x4040]"

definition crc16_byte :: "ut16 \<Rightarrow> u8 \<Rightarrow> ut16" where
  "crc16_byte crc data = drop_bit 8 crc XOR crc16_table ! unat ((crc XOR ucast data) AND 0xff)"

fun crc16 :: "ut16 \<Rightarrow> u8 list \<Rightarrow> ut16" where
  "crc16 crc [] = crc"
| "crc16 crc (b # bs) = crc16 (crc16_byte crc b) bs"

text \<open>
  \<^verbatim>\<open>crc32\<close>: the loops \<^verbatim>\<open>for (i = 128; i; i >>= 1)\<close> and \<^verbatim>\<open>for (j = 0; j < 256; j += 2*i)\<close> over the table, of
  which entry 0 is set to 0 before.
\<close>

function crc32_table_inner :: "nat \<Rightarrow> ut32 \<Rightarrow> nat \<Rightarrow> ut32 list \<Rightarrow> ut32 list" where
  "crc32_table_inner i h j tab =
     (if i = 0 \<or> 256 \<le> j then tab
      else crc32_table_inner i h (j + 2 * i) (tab[i + j := tab ! j XOR h]))"
  by pat_completeness auto
termination by (relation "measure (\<lambda>(i, h, j, tab). 256 - j)") auto

function crc32_table_outer :: "nat \<Rightarrow> ut32 \<Rightarrow> ut32 list \<Rightarrow> ut32 list" where
  "crc32_table_outer i h tab =
     (if i = 0 then tab
      else let h' = drop_bit 1 h XOR (if h AND 1 \<noteq> 0 then 0xedb88320 else 0)
           in crc32_table_outer (i div 2) h' (crc32_table_inner i h' 0 tab))"
  by pat_completeness auto
termination by (relation "measure (\<lambda>(i, h, tab). i)") auto

definition crc32_table :: "ut32 list" where
  "crc32_table = crc32_table_outer 128 1 (replicate 256 0)"

definition crc32_byte :: "ut32 \<Rightarrow> u8 \<Rightarrow> ut32" where
  "crc32_byte crc b = drop_bit 8 crc XOR crc32_table ! unat ((crc XOR scast b) AND 0xff)"

definition crc32 :: "u8 list \<Rightarrow> ut32" where
  "crc32 buf = foldl crc32_byte (0 XOR 0xffffffff) buf XOR 0xffffffff"

text \<open>The bitwise engine.\<close>

record t_crc_ctx =
  ctx_crc :: ut32
  ctx_size :: nat
  ctx_reflect :: bool
  ctx_poly :: ut32
  ctx_xout :: ut32

definition crc_init :: "ut32 \<Rightarrow> nat \<Rightarrow> bool \<Rightarrow> ut32 \<Rightarrow> ut32 \<Rightarrow> t_crc_ctx" where
  "crc_init crc sz reflect poly xout =
     \<lparr>ctx_crc = crc, ctx_size = sz, ctx_reflect = reflect, ctx_poly = poly, ctx_xout = xout\<rparr>"

text \<open>The swap of the bits \<open>i\<close> and \<open>k\<close> when they differ, and the loops that reflect with it.\<close>

definition swap_bits :: "nat \<Rightarrow> nat \<Rightarrow> ut32 \<Rightarrow> ut32" where
  "swap_bits i k d =
     (if (drop_bit i d XOR drop_bit k d) AND 1 \<noteq> 0 then d XOR (push_bit i 1 XOR push_bit k 1) else d)"

fun reflect_loop :: "nat \<Rightarrow> nat \<Rightarrow> ut32 \<Rightarrow> ut32" where
  "reflect_loop sz 0 d = d"
| "reflect_loop sz (Suc n) d = (let d' = reflect_loop sz n d in swap_bits n (sz - 1 - n) d')"

definition crc_shift :: "t_crc_ctx \<Rightarrow> ut32 \<Rightarrow> ut32" where
  "crc_shift ctx crc =
     (if drop_bit (ctx_size ctx - 1) crc AND 1 \<noteq> 0 then ctx_poly ctx else 0) XOR push_bit 1 crc"

definition crc_update_byte :: "t_crc_ctx \<Rightarrow> ut32 \<Rightarrow> u8 \<Rightarrow> ut32" where
  "crc_update_byte ctx crc b =
     (let d0 = ucast b; d = (if ctx_reflect ctx then reflect_loop 8 4 d0 else d0)
      in (crc_shift ctx ^^ 8) (crc XOR push_bit (ctx_size ctx - 8) d))"

definition crc_update :: "u8 list \<Rightarrow> t_crc_ctx \<Rightarrow> t_crc_ctx" where
  "crc_update data ctx = ctx\<lparr>ctx_crc := foldl (crc_update_byte ctx) (ctx_crc ctx) data\<rparr>"

definition crc_final :: "t_crc_ctx \<Rightarrow> ut32" where
  "crc_final ctx =
     (let crc = ctx_crc ctx AND (push_bit 1 (push_bit (ctx_size ctx - 1) 1 - 1) OR 1);
          crc' = (if ctx_reflect ctx then reflect_loop (ctx_size ctx) (ctx_size ctx div 2) crc else crc)
      in crc' XOR ctx_xout ctx)"

datatype crc_presets_enum = CRC_32 | CRC_16 | CRC_32_ECMA_267 | CRC_32C | CRC_24 | CRC_16_CITT | CRC_16_USB
  | CRC_16_HDLC | CRC_15_CAN | CRC_8_SMBUS

fun crc_init_preset :: "crc_presets_enum \<Rightarrow> t_crc_ctx" where
  "crc_init_preset CRC_32 = crc_init 0xFFFFFFFF 32 True 0x04C11DB7 0xFFFFFFFF"
| "crc_init_preset CRC_16 = crc_init 0x0000 16 True 0x8005 0x0000"
| "crc_init_preset CRC_32_ECMA_267 = crc_init 0x00000000 32 False 0x80000011 0x00000000"
| "crc_init_preset CRC_32C = crc_init 0xFFFFFFFF 32 True 0x1EDC6F41 0xFFFFFFFF"
| "crc_init_preset CRC_24 = crc_init 0xB704CE 24 False 0x864CFB 0x000000"
| "crc_init_preset CRC_16_CITT = crc_init 0xFFFF 16 False 0x1021 0x0000"
| "crc_init_preset CRC_16_USB = crc_init 0xFFFF 16 True 0x8005 0xFFFF"
| "crc_init_preset CRC_16_HDLC = crc_init 0xFFFF 16 True 0x1021 0xFFFF"
| "crc_init_preset CRC_15_CAN = crc_init 0x0000 15 False 0x4599 0x0000"
| "crc_init_preset CRC_8_SMBUS = crc_init 0x00 8 False 0x07 0x00"

section \<open>Table-driven steps\<close>

text \<open>One step of the reflected bitwise register.\<close>

definition crc_bit :: "'w::len word \<Rightarrow> 'w word \<Rightarrow> 'w word" where
  "crc_bit poly x = drop_bit 1 x XOR (if bit x 0 then poly else 0)"

lemma crc_bit_xor: "crc_bit p (x XOR y) = crc_bit p x XOR crc_bit p y"
  by (auto simp: crc_bit_def bit_xor_iff drop_bit_xor ac_simps)

lemma crc_bits_xor: "(crc_bit p ^^ n) (x XOR y) = (crc_bit p ^^ n) x XOR (crc_bit p ^^ n) y"
  by (induction n) (simp_all add: crc_bit_xor)

lemma crc_bits_high: "n \<le> k \<Longrightarrow> take_bit k z = 0 \<Longrightarrow> (crc_bit p ^^ n) z = drop_bit n z"
proof (induction n)
  case (Suc n)
  then have "\<not> bit z n" by (metis Suc_le_lessD bit_0_eq bit_take_bit_iff bot_apply bot_bool_def)
  with Suc show ?case by (simp add: crc_bit_def bit_simps drop_bit_drop_bit)
qed simp

locale crc_table =
  fixes poly :: "'w::len word" and table :: "'w word list"
  assumes wide: "8 \<le> LENGTH('w)"
    and table_ok: "i < 256 \<Longrightarrow> table ! i = (crc_bit poly ^^ 8) (word_of_nat i)"
begin

lemma table_step: "drop_bit 8 x XOR table ! unat (x AND 0xff) = (crc_bit poly ^^ 8) x"
proof -
  have m: "x AND 0xff = take_bit 8 x" by (simp add: take_bit_eq_mask mask_eq_exp_minus_1)
  let ?hi = "x XOR take_bit 8 x"
  have "unat (take_bit 8 x) < 256"
    using take_bit_nat_less_exp [of 8 "unat x"] by (simp add: unsigned_take_bit_eq)
  then have "table ! unat (take_bit 8 x) = (crc_bit poly ^^ 8) (take_bit 8 x)"
    using table_ok [of "unat (take_bit 8 x)"] by simp
  moreover have "take_bit 8 ?hi = 0" by (simp add: take_bit_xor)
  then have "(crc_bit poly ^^ 8) ?hi = drop_bit 8 ?hi" by (rule crc_bits_high [of 8 8, OF order_refl])
  moreover have "drop_bit 8 ?hi = drop_bit 8 x" by (rule bit_word_eqI) (auto simp: bit_simps)
  ultimately have "drop_bit 8 x XOR table ! unat (x AND 0xff) =
      (crc_bit poly ^^ 8) ?hi XOR (crc_bit poly ^^ 8) (take_bit 8 x)" by (simp add: m)
  also have "\<dots> = (crc_bit poly ^^ 8) (?hi XOR take_bit 8 x)" by (rule crc_bits_xor [symmetric])
  also have "?hi XOR take_bit 8 x = x" by (simp add: xor.assoc)
  finally show ?thesis .
qed

text \<open>The whole buffer: the table-driven register is the bitwise one.\<close>

lemma table_byte:
  "drop_bit 8 crc XOR table ! unat ((crc XOR ucast b) AND 0xff) = (crc_bit poly ^^ 8) (crc XOR ucast (b :: u8))"
proof -
  have "drop_bit 8 (ucast b :: 'w word) = 0"
    by (rule bit_word_eqI) (auto simp: bit_simps dest: bit_imp_le_length)
  then show ?thesis using table_step [of "crc XOR ucast b"] by (simp add: drop_bit_xor)
qed

end

text \<open>The bitwise reference: a byte enters the low end of the register, which then makes eight steps.\<close>

definition crc_reference :: "'w::len word \<Rightarrow> 'w word \<Rightarrow> u8 list \<Rightarrow> 'w word" where
  "crc_reference poly = foldl (\<lambda>crc b. (crc_bit poly ^^ 8) (crc XOR ucast b))"

lemma scast_low: "(crc XOR (scast (b :: u8) :: ut32)) AND 0xff = (crc XOR ucast b) AND 0xff"
proof -
  have m: "(0xff :: ut32) = mask 8" by (simp add: mask_eq_exp_minus_1)
  show ?thesis unfolding m
    by (rule bit_word_eqI) (auto simp: bit_simps)
qed

text \<open>A table of a linear function is determined by its values at the powers of two.\<close>

lemma word_of_nat_add_xor:
  assumes "\<not> bit (j::nat) k"
  shows "(word_of_nat (2 ^ k + j) :: 'w::len word) = word_of_nat (2 ^ k) XOR word_of_nat j"
proof -
  have "2 ^ k AND j = 0" using assms by (auto simp: bit_eq_iff [of "2 ^ k AND j"] bit_and_iff bit_exp_iff)
  then have "2 ^ k + j = 2 ^ k XOR j" by (rule disjunctive_add_eq_xor)
  then show ?thesis by (simp only: of_nat_xor_eq)
qed

fun span_table :: "'w::len word list \<Rightarrow> 'w word list" where
  "span_table [] = [0]"
| "span_table (b # bs) = (let t = span_table bs in t @ map (\<lambda>x. b XOR x) t)"

lemma span_table_length [simp]: "length (span_table bs) = 2 ^ length bs"
  by (induction bs) (simp_all add: Let_def)

lemma span_table_nth:
  assumes "\<And>x y. f (x XOR y) = f x XOR f y" "i < 2 ^ n"
  shows "span_table (map (\<lambda>k. f (word_of_nat (2 ^ k))) (rev [0..<n])) ! i = f (word_of_nat i)"
  using assms(2)
proof (induction n arbitrary: i)
  case 0
  have "f 0 = 0" using assms(1) [of 0 0] by simp
  with 0 show ?case by simp
next
  case (Suc n)
  show ?case
  proof (cases "i < 2 ^ n")
    case True with Suc.IH show ?thesis by (simp add: Let_def nth_append)
  next
    case False
    define j where "j = i - 2 ^ n"
    have j: "i = 2 ^ n + j" "j < 2 ^ n" using False Suc.prems by (simp_all add: j_def)
    then have "\<not> bit j n" by (simp add: bit_iff_odd)
    then have "f (word_of_nat i) = f (word_of_nat (2 ^ n)) XOR f (word_of_nat j)"
      unfolding j(1) assms(1) [symmetric] by (rule arg_cong [OF word_of_nat_add_xor])
    then show ?thesis using Suc.IH [OF j(2)] j by (simp add: Let_def nth_append)
  qed
qed

lemma funpow_8: "(f ^^ 8) x = f (f (f (f (f (f (f (f x)))))))"
  by (simp add: numeral_eq_Suc)

lemma crc16_table_span:
  "crc16_table = span_table [0xA001, 0xF001, 0xD801, 0xCC01, 0xC601, 0xC301, 0xC181, 0xC0C1]"
  by (simp add: crc16_table_def)

lemma crc16_basis:
  "map (\<lambda>k. (crc_bit (0xA001 :: ut16) ^^ 8) (word_of_nat (2 ^ k))) (rev [0..<8]) =
   [0xA001, 0xF001, 0xD801, 0xCC01, 0xC601, 0xC301, 0xC181, 0xC0C1]"
proof -
  have "rev [0..<8] = [7, 6, 5, 4, 3, 2, 1, 0 :: nat]" by code_simp
  then show ?thesis by (simp add: funpow_8 crc_bit_def)
qed

text \<open>The generation of the table of \<^verbatim>\<open>crc32\<close>.\<close>

declare crc32_table_inner.simps [simp del] crc32_table_outer.simps [simp del]

lemma crc32_inner_length [simp]: "length (crc32_table_inner i h j tab) = length tab"
  by (induction i h j tab rule: crc32_table_inner.induct)
    (subst crc32_table_inner.simps, simp)

lemma mod_class_far:
  fixes i j m :: nat
  assumes "0 < i" "2 * i dvd j" "j \<le> m" "m mod (2 * i) = i" "m \<noteq> i + j"
  shows "j + 2 * i \<le> m \<and> m - i \<noteq> i + j"
proof -
  obtain b where b: "j = 2 * i * b" using assms(2) by (auto simp: dvd_def)
  have m: "m = 2 * i * (m div (2 * i)) + i" using assms(4) by (metis mult_div_mod_eq)
  have "b < m div (2 * i)"
  proof (rule ccontr)
    assume "\<not> ?thesis"
    then have "2 * i * (m div (2 * i)) \<le> j" by (simp add: b)
    then have "m div (2 * i) \<noteq> b" using m b assms(5) by auto
    with \<open>\<not> ?thesis\<close> have "Suc (m div (2 * i)) \<le> b" by simp
    then have "2 * i * Suc (m div (2 * i)) \<le> j" unfolding b by (rule mult_le_mono2)
    with m assms(1,3) show False by simp
  qed
  then have "2 * i * Suc b \<le> 2 * i * (m div (2 * i))" by (intro mult_le_mono2) simp
  with m b assms(1) have "j + 3 * i \<le> m" by simp
  moreover have "m \<noteq> j + 2 * i" using assms(1,2,4) by (auto simp: dvd_def)
  ultimately show ?thesis using assms(1) by auto
qed

lemma crc32_inner_nth:
  assumes "0 < i" "2 * i dvd 256" "2 * i dvd j" "length tab = 256" "m < 256"
  shows "crc32_table_inner i h j tab ! m =
    (if j \<le> m \<and> m mod (2 * i) = i then tab ! (m - i) XOR h else tab ! m)"
  using assms
proof (induction i h j tab rule: crc32_table_inner.induct)
  case (1 i h j tab)
  show ?case
  proof (cases "256 \<le> j")
    case True with 1 show ?thesis by (subst crc32_table_inner.simps) auto
  next
    case False
    have "j + i < 256"
    proof -
      obtain a b where "256 = 2 * i * a" "j = 2 * i * b" using "1.prems" by (auto simp: dvd_def)
      with False have "b < a" by (metis linorder_not_less mult_le_mono2)
      then have "Suc b \<le> a" by simp
      then have "2 * i * Suc b \<le> 2 * i * a" by (rule mult_le_mono2)
      then have "2 * i * Suc b \<le> 256" using \<open>256 = _\<close> by metis
      then have "2 * i + j \<le> 256" using \<open>j = _\<close> by simp
      then show ?thesis using \<open>0 < i\<close> by simp
    qed
    let ?tab = "tab[i + j := tab ! j XOR h]"
    have IH: "crc32_table_inner i h (j + 2 * i) ?tab ! m =
        (if j + 2 * i \<le> m \<and> m mod (2 * i) = i then ?tab ! (m - i) XOR h else ?tab ! m)"
      using 1 False by (intro "1.IH") auto
    have jm: "(i + j) mod (2 * i) = i" using \<open>2 * i dvd j\<close> \<open>0 < i\<close> by (auto simp: dvd_def)
    have far: "j + 2 * i \<le> m \<and> m - i \<noteq> i + j" if "j \<le> m" "m mod (2 * i) = i" "m \<noteq> i + j"
      using mod_class_far [OF \<open>0 < i\<close> \<open>2 * i dvd j\<close> that] .
    have "crc32_table_inner i h j tab ! m = crc32_table_inner i h (j + 2 * i) ?tab ! m"
      using False \<open>0 < i\<close> by (subst crc32_table_inner.simps) simp
    then show ?thesis using IH jm far \<open>j + i < 256\<close> "1.prems" by (cases "m = i + j") auto
  qed
qed

lemma and_one_bit: "(x :: ut32) AND 1 \<noteq> 0 \<longleftrightarrow> bit x 0"
  by (simp add: and_one_eq bit_0 odd_iff_mod_2_eq_one)

lemma crc32_step: "drop_bit 1 h XOR (if h AND 1 \<noteq> 0 then 0xedb88320 else 0) = crc_bit (0xedb88320 :: ut32) h"
  by (simp only: crc_bit_def and_one_bit)

abbreviation crc32_entry :: "ut32 \<Rightarrow> ut32" where
  "crc32_entry \<equiv> crc_bit 0xedb88320 ^^ 8"

definition table_upto :: "nat \<Rightarrow> ut32 list \<Rightarrow> bool" where
  "table_upto k tab \<longleftrightarrow>
     length tab = 256 \<and> (\<forall>m<256. 2 ^ k dvd m \<longrightarrow> tab ! m = crc32_entry (word_of_nat m))"

lemma crc32_entry_half:
  assumes "k < 8"
  shows "crc_bit 0xedb88320 (crc32_entry (word_of_nat (2 ^ Suc k))) = crc32_entry (word_of_nat (2 ^ k))"
proof -
  have "crc_bit 0xedb88320 (word_of_nat (2 ^ Suc k)) = (word_of_nat (2 ^ k) :: ut32)"
    using assms by (auto simp: crc_bit_def bit_simps intro!: bit_word_eqI)
  then show ?thesis by (metis funpow_swap1)
qed

lemma crc32_inner_upto:
  assumes "table_upto (Suc k) tab" "k < 8" "h = crc32_entry (word_of_nat (2 ^ k))"
  shows "table_upto k (crc32_table_inner (2 ^ k) h 0 tab)"
  unfolding table_upto_def
proof (intro conjI allI impI)
  show "length (crc32_table_inner (2 ^ k) h 0 tab) = 256" using assms(1) by (simp add: table_upto_def)
  fix m :: nat assume m: "m < 256" "2 ^ k dvd m"
  have "2 * (2 ^ k) dvd (256 :: nat)"
    using le_imp_power_dvd [of "Suc k" 8 "2 :: nat"] assms(2) by simp
  then have n: "crc32_table_inner (2 ^ k) h 0 tab ! m =
      (if m mod (2 * 2 ^ k) = 2 ^ k then tab ! (m - 2 ^ k) XOR h else tab ! m)"
    using assms(1) m by (simp add: crc32_inner_nth table_upto_def)
  show "crc32_table_inner (2 ^ k) h 0 tab ! m = crc32_entry (word_of_nat m)"
  proof (cases "2 ^ Suc k dvd m")
    case True
    then show ?thesis using n assms(1) m by (simp add: table_upto_def)
  next
    case False
    from m(2) obtain c where c: "m = 2 ^ k * c" by (auto simp: dvd_def)
    with False have "odd c" by (auto elim!: evenE)
    then obtain d where d: "m = 2 ^ k + 2 ^ Suc k * d" using c by (auto elim!: oddE simp: algebra_simps)
    let ?j = "2 ^ Suc k * d"
    have "\<not> bit ?j k" by (simp add: bit_iff_odd)
    then have "crc32_entry (word_of_nat m) = crc32_entry (word_of_nat (2 ^ k)) XOR crc32_entry (word_of_nat ?j)"
      unfolding d crc_bits_xor [symmetric] by (rule arg_cong [OF word_of_nat_add_xor])
    moreover have "tab ! ?j = crc32_entry (word_of_nat ?j)"
    proof -
      have "?j \<le> m" unfolding d by (rule le_add2)
      then have "?j < 256" using m(1) by (rule le_less_trans)
      moreover have "2 ^ Suc k dvd ?j" by (rule dvd_triv_left)
      ultimately show ?thesis using assms(1) unfolding table_upto_def by blast
    qed
    ultimately show ?thesis using n d assms(3) by (simp add: xor.commute)
  qed
qed

lemma crc32_outer_step:
  "crc32_table_outer i h tab =
     (if i = 0 then tab
      else crc32_table_outer (i div 2) (crc_bit 0xedb88320 h) (crc32_table_inner i (crc_bit 0xedb88320 h) 0 tab))"
  by (subst crc32_table_outer.simps) (simp only: crc32_step Let_def)

lemma crc32_outer_upto:
  assumes "table_upto (Suc k) tab" "k < 8" "h = crc32_entry (word_of_nat (2 ^ Suc k))"
  shows "table_upto 0 (crc32_table_outer (2 ^ k) h tab)"
  using assms
proof (induction k arbitrary: h tab)
  case 0
  have "crc_bit 0xedb88320 h = crc32_entry (word_of_nat (2 ^ 0))"
    using crc32_entry_half [of 0] 0 by simp
  from crc32_inner_upto [OF 0(1,2) this] show ?case
    by (simp add: crc32_outer_step [of "Suc 0"] crc32_outer_step [of 0])
next
  case (Suc k)
  have h: "crc_bit 0xedb88320 h = crc32_entry (word_of_nat (2 ^ Suc k))"
    using crc32_entry_half [of "Suc k"] Suc by simp
  from Suc.IH [OF crc32_inner_upto [OF Suc.prems(1,2) h] _ h] Suc.prems(2) show ?case
    by (simp add: crc32_outer_step [of "2 * 2 ^ k"])
qed

lemma crc32_table_entries: "table_upto 0 crc32_table"
proof -
  have "table_upto 8 (replicate 256 0)"
  proof -
    have "m = 0" if "m < 256" "2 ^ 8 dvd m" for m :: nat using that by (auto dest: dvd_imp_le)
    moreover have "crc32_entry (word_of_nat 0) = 0" by (simp add: funpow_8 crc_bit_def)
    ultimately show ?thesis unfolding table_upto_def by (metis length_replicate nth_replicate)
  qed
  moreover have "1 = crc32_entry (word_of_nat (2 ^ 8))" by (simp add: funpow_8 crc_bit_def)
  ultimately show ?thesis using crc32_outer_upto [of 7 _ 1] by (simp add: crc32_table_def)
qed

interpretation t16: crc_table "0xA001 :: ut16" crc16_table
proof
  fix i :: nat assume "i < 256"
  then have "i < 2 ^ 8" by simp
  then show "crc16_table ! i = (crc_bit 0xA001 ^^ 8) (word_of_nat i)"
    unfolding crc16_table_span crc16_basis [symmetric] by (rule span_table_nth [OF crc_bits_xor])
qed simp

interpretation t32: crc_table "0xedb88320 :: ut32" crc32_table
  using crc32_table_entries by unfold_locales (simp_all add: table_upto_def)

lemma crc16_reference: "crc16 crc bs = crc_reference 0xA001 crc bs"
  by (induction crc bs rule: crc16.induct) (simp_all add: crc_reference_def crc16_byte_def t16.table_byte)

lemma crc32_byte_reference: "crc32_byte crc b = (crc_bit 0xedb88320 ^^ 8) (crc XOR ucast b)"
  by (simp add: crc32_byte_def scast_low t32.table_byte)

lemma crc32_reference: "crc32 bs = crc_reference 0xedb88320 0xffffffff bs XOR 0xffffffff"
  by (simp add: crc32_def crc_reference_def crc32_byte_reference [abs_def])

section \<open>The bitwise engine\<close>

lemma swap_bits_bit:
  assumes "i < 32" "k < 32"
  shows "bit (swap_bits i k d) j = bit d (if j = i then k else if j = k then i else j)"
proof -
  have "(drop_bit i d XOR drop_bit k d) AND 1 \<noteq> 0 \<longleftrightarrow> bit d i \<noteq> bit d k"
    by (simp add: and_one_bit bit_simps del: bit_0)
  then show ?thesis using assms by (auto simp: swap_bits_def bit_simps)
qed

lemma reflect_loop_partial:
  assumes "n \<le> sz div 2" "sz \<le> 32"
  shows "bit (reflect_loop sz n d) j = bit d (if j < n \<or> sz - n \<le> j \<and> j < sz then sz - 1 - j else j)"
  using assms(1)
proof (induction n arbitrary: j)
  case (Suc n)
  then have "n < 32" "sz - 1 - n < 32" "n < sz - 1 - n" using assms(2) by simp_all
  with Suc show ?case by (auto simp: Let_def swap_bits_bit)
qed auto

lemma reflect_loop_bit:
  assumes "sz \<le> 32"
  shows "bit (reflect_loop sz (sz div 2) d) j = bit d (if j < sz then sz - 1 - j else j)"
proof -
  have "(if j < sz div 2 \<or> sz - sz div 2 \<le> j \<and> j < sz then sz - 1 - j else j) =
      (if j < sz then sz - 1 - j else j)" by auto
  then show ?thesis unfolding reflect_loop_partial [OF order_refl assms] by (rule arg_cong)
qed

text \<open>
  The engine shifts left the mirror image of the register that the table-driven routines shift right;
  bits above the width of the register are garbage that \<^verbatim>\<open>crc_final\<close> masks away.
\<close>

definition reflected :: "'w::len word \<Rightarrow> ut32 \<Rightarrow> bool" where
  "reflected a b \<longleftrightarrow> (\<forall>i<LENGTH('w). bit a i = bit b (LENGTH('w) - 1 - i))"

lemma reflected_shift:
  fixes a p :: "'w::len word"
  assumes "LENGTH('w) \<le> 32" "ctx_size ctx = LENGTH('w)" "reflected p (ctx_poly ctx)" "reflected a b"
  shows "reflected (crc_bit p a) (crc_shift ctx b)"
  unfolding reflected_def
proof (intro allI impI)
  fix i assume i: "i < LENGTH('w)"
  have t: "drop_bit (LENGTH('w) - 1) b AND 1 \<noteq> 0 \<longleftrightarrow> bit a 0"
    using assms(4) by (simp add: and_one_bit bit_simps reflected_def del: bit_0)
  have s: "bit (drop_bit 1 a) i = bit (push_bit 1 b) (LENGTH('w) - 1 - i)"
  proof (cases "Suc i < LENGTH('w)")
    case True
    then have "LENGTH('w) - 1 - i - 1 = LENGTH('w) - 1 - Suc i" "1 \<le> LENGTH('w) - 1 - i" by simp_all
    then show ?thesis using True assms(1,4) i
      unfolding bit_push_bit_iff bit_drop_bit_eq reflected_def by auto
  next
    case False
    then have "LENGTH('w) - 1 - i = 0" using i by simp
    then show ?thesis using False i
      unfolding bit_push_bit_iff bit_drop_bit_eq by (auto dest: bit_imp_le_length)
  qed
  show "bit (crc_bit p a) i = bit (crc_shift ctx b) (LENGTH('w) - 1 - i)"
    using assms(2,3) s t i by (auto simp: crc_bit_def crc_shift_def bit_xor_iff reflected_def)
qed

lemma reflected_shifts:
  fixes a p :: "'w::len word"
  assumes "LENGTH('w) \<le> 32" "ctx_size ctx = LENGTH('w)" "reflected p (ctx_poly ctx)" "reflected a b"
  shows "reflected ((crc_bit p ^^ n) a) ((crc_shift ctx ^^ n) b)"
  using assms(4) by (induction n) (simp_all add: reflected_shift assms(1-3))

lemma reflected_input:
  fixes a :: "'w::len word"
  assumes "8 \<le> LENGTH('w)" "LENGTH('w) \<le> 32" "reflected a b"
  shows "reflected (a XOR ucast c) (b XOR push_bit (LENGTH('w) - 8) (reflect_loop 8 4 (ucast (c::u8))))"
proof -
  have "bit (ucast c :: 'w word) i = bit (push_bit (LENGTH('w) - 8) (reflect_loop 8 4 (ucast c))) (LENGTH('w) - 1 - i)"
    if "i < LENGTH('w)" for i
  proof (cases "i < 8")
    case True
    then have "LENGTH('w) - 1 - i - (LENGTH('w) - 8) = 7 - i" "LENGTH('w) - 8 \<le> LENGTH('w) - 1 - i" "7 - (7 - i) = i"
      using assms(1) by simp_all
    then show ?thesis
      using True that assms(1,2) reflect_loop_bit [of 8 "ucast c" "7 - i"]
      by (auto simp: bit_push_bit_iff bit_ucast_iff)
  next
    case False
    then show ?thesis using that by (auto simp: bit_simps dest: bit_imp_le_length)
  qed
  then show ?thesis using assms(3) by (auto simp: reflected_def bit_xor_iff)
qed

lemma reflected_update:
  fixes a p :: "'w::len word"
  assumes "8 \<le> LENGTH('w)" "LENGTH('w) \<le> 32" "ctx_size ctx = LENGTH('w)" "ctx_reflect ctx"
    "reflected p (ctx_poly ctx)" "reflected a (ctx_crc ctx)"
  shows "reflected (crc_reference p a bs) (ctx_crc (crc_update bs ctx))"
proof -
  have "reflected (crc_reference p a bs) (foldl (crc_update_byte ctx) b bs)" if "reflected a b" for a b
    using that
  proof (induction bs arbitrary: a b)
    case (Cons c bs)
    have "reflected ((crc_bit p ^^ 8) (a XOR ucast c)) (crc_update_byte ctx b c)"
      unfolding crc_update_byte_def Let_def
      using reflected_shifts [OF assms(2,3,5) reflected_input [OF assms(1,2) Cons.prems]] assms(3,4) by simp
    from Cons.IH [OF this] show ?case by (simp add: crc_reference_def)
  qed (simp add: crc_reference_def)
  then show ?thesis using assms(6) by (simp add: crc_update_def)
qed

lemma final_mask_bit:
  assumes "0 < n" "n \<le> 32"
  shows "(push_bit 1 (push_bit (n - 1) 1 - 1) OR 1 :: ut32) = mask n"
proof -
  have "push_bit (n - 1) 1 - 1 = (mask (n - 1) :: ut32)" by (simp add: mask_eq_exp_minus_1)
  moreover have "push_bit 1 (mask (n - 1)) OR 1 = (mask n :: ut32)"
    by (rule bit_word_eqI, unfold bit_or_iff bit_push_bit_iff bit_mask_iff bit_1_iff) (use assms in auto)
  ultimately show ?thesis by simp
qed

lemma reflected_final:
  fixes a :: "'w::len word"
  assumes "LENGTH('w) \<le> 32" "ctx_size ctx = LENGTH('w)" "ctx_reflect ctx" "reflected a (ctx_crc ctx)"
  shows "crc_final ctx = ucast a XOR ctx_xout ctx"
proof -
  let ?n = "LENGTH('w)"
  have "reflect_loop ?n (?n div 2) (ctx_crc ctx AND mask ?n) = ucast a"
    by (rule bit_word_eqI)
      (use assms(1,4) in \<open>auto simp: reflect_loop_bit bit_and_iff bit_mask_iff bit_ucast_iff reflected_def
        dest: bit_imp_le_length\<close>)
  then show ?thesis using assms(1-3) by (simp add: crc_final_def final_mask_bit [symmetric])
qed

section \<open>Properties\<close>

text \<open>
  The table-driven CRC-16 (literal table) and CRC-32 (table computed on first use) are the bitwise
  polynomial registers 0xA001 and 0xedb88320: a table look-up per byte is eight shifts of the register.
  Both process a buffer piecewise: CRC-16 continues from the value of the first part.
\<close>
theorem crc_tables_correct:
  "crc16 crc bs = crc_reference 0xA001 crc bs \<and>
   crc16 crc (bs @ cs) = crc16 (crc16 crc bs) cs \<and>
   crc32 bs = crc_reference 0xedb88320 0xffffffff bs XOR 0xffffffff \<and>
   crc32 (bs @ cs) = crc_reference 0xedb88320 (crc32 bs XOR 0xffffffff) cs XOR 0xffffffff"
  by (simp add: crc16_reference crc32_reference) (simp add: crc_reference_def xor.assoc)

text \<open>
  C7 The bitwise engine with the presets \<^verbatim>\<open>CRC_32\<close> and \<^verbatim>\<open>CRC_16\<close> computes, for every buffer, the same
  value as the table-driven \<^verbatim>\<open>crc32\<close> and \<^verbatim>\<open>crc16\<close>, although it shifts the mirror image of their registers.
\<close>
theorem crc_engines_agree:
  "crc_final (crc_update bs (crc_init_preset CRC_32)) = crc32 bs \<and>
   crc_final (crc_update bs (crc_init_preset CRC_16)) = ucast (crc16 0 bs)"
proof
  let ?c = "crc_init_preset CRC_32"
  have "reflected (0xedb88320 :: ut32) (0x04C11DB7)" by code_simp
  moreover have "reflected (0xffffffff :: ut32) (0xffffffff)" by code_simp
  ultimately have "reflected (crc_reference (0xedb88320 :: ut32) 0xffffffff bs) (ctx_crc (crc_update bs ?c))"
    by (intro reflected_update) (simp_all add: crc_init_def)
  from reflected_final [OF _ _ _ this]
  show "crc_final (crc_update bs ?c) = crc32 bs"
    by (simp add: crc_update_def crc_init_def crc32_reference)
next
  let ?c = "crc_init_preset CRC_16"
  have "reflected (0xA001 :: ut16) 0x8005" by code_simp
  moreover have "reflected (0 :: ut16) 0" by (simp add: reflected_def)
  ultimately have "reflected (crc_reference (0xA001 :: ut16) 0 bs) (ctx_crc (crc_update bs ?c))"
    by (intro reflected_update) (simp_all add: crc_init_def)
  from reflected_final [OF _ _ _ this]
  show "crc_final (crc_update bs ?c) = ucast (crc16 0 bs)"
    by (simp add: crc_update_def crc_init_def crc16_reference)
qed

end
