(* ===== verification/Base64.thy ===== *)
theory Base64
  imports Radare_Prelude
begin

text \<open>
  Base64 blocks (\<^verbatim>\<open>src/src/b64.c\<close>): three bytes to four characters and back, with both translation tables.
  The shifts of the code are on \<^verbatim>\<open>int\<close> and truncated when stored into an \<^verbatim>\<open>unsigned char\<close>, which is the
  8-bit shift.
\<close>

section \<open>Model\<close>

definition cb64 :: "u8 list" where
  "cb64 = map of_char (''ABCDEFGHIJKLMNOPQRSTUVWXYZabcdefghijklmnopqrstuvwxyz0123456789+/'')"

definition base64_encodeblock :: "u8 \<Rightarrow> u8 \<Rightarrow> u8 \<Rightarrow> int \<Rightarrow> u8 list" where
  "base64_encodeblock in0 in1 in2 len =
     [cb64 ! unat (drop_bit 2 in0),
      cb64 ! unat (push_bit 4 (in0 AND 0x03) OR drop_bit 4 (in1 AND 0xf0)),
      if len > 1 then cb64 ! unat (push_bit 2 (in1 AND 0x0f) OR drop_bit 6 (in2 AND 0xc0)) else of_char CHR ''='',
      if len > 2 then cb64 ! unat (in2 AND 0x3f) else of_char CHR ''='']"

definition cd64 :: "u8 list" where
  "cd64 = map of_char (''|$$$}rstuvwxyz{$$$$$$$>?@ABCDEFGHIJKLMNOPQRSTUVW$$$$$$XYZ['' @ [CHR 0x5C] @ '']^_'' @ [CHR 0x60]
     @ ''abcdefghijklmnopq'')"

text \<open>
  The loop of \<^verbatim>\<open>base64_decodeblock\<close> from position \<open>i\<close>: \<open>None\<close> is the return of -1; otherwise the array \<^verbatim>\<open>v\<close>,
  of which the entries after a break keep what they held, and the length, an \<^verbatim>\<open>unsigned char\<close>.
\<close>

fun decode_loop :: "u8 list \<Rightarrow> nat \<Rightarrow> u8 list \<Rightarrow> (u8 list \<times> u8) option" where
  "decode_loop [] i v = Some (v, 3)"
| "decode_loop (c # cs) i v =
     (if c < 43 \<or> c > 122 then None
      else let x = cd64 ! unat (c - 43)
           in if x \<noteq> of_char CHR ''$'' then decode_loop cs (Suc i) (v[i := x - 62])
              else Some (v[i := x], word_of_nat i - 1))"

text \<open>The result: the bytes stored into \<^verbatim>\<open>out\<close> (nothing when it fails) and the value returned.\<close>

definition base64_decodeblock :: "u8 list \<Rightarrow> u8 list \<Rightarrow> u8 list option \<times> int" where
  "base64_decodeblock junk inp =
     (case decode_loop (take 4 inp) 0 junk of
        None \<Rightarrow> (None, - 1)
      | Some (v, len) \<Rightarrow>
          (Some [push_bit 2 (v ! 0) OR drop_bit 4 (v ! 1),
                 push_bit 4 (v ! 1) OR drop_bit 2 (v ! 2),
                 (push_bit 6 (v ! 2) AND 0xc0) OR v ! 3], uint len))"

section \<open>The two tables\<close>

lemma length_cd64: "length cd64 = 80"
  by (simp add: cd64_def)

lemma cb64_codes: "cb64 =
   [65, 66, 67, 68, 69, 70, 71, 72, 73, 74, 75, 76, 77, 78, 79, 80, 81, 82, 83, 84, 85, 86, 87, 88, 89,
    90, 97, 98, 99, 100, 101, 102, 103, 104, 105, 106, 107, 108, 109, 110, 111, 112, 113, 114, 115, 116,
    117, 118, 119, 120, 121, 122, 48, 49, 50, 51, 52, 53, 54, 55, 56, 57, 43, 47]"
  by (simp add: cb64_def)

lemma cd64_codes: "cd64 =
   [124, 36, 36, 36, 125, 114, 115, 116, 117, 118, 119, 120, 121, 122, 123, 36, 36, 36, 36, 36, 36, 36,
    62, 63, 64, 65, 66, 67, 68, 69, 70, 71, 72, 73, 74, 75, 76, 77, 78, 79, 80, 81, 82, 83, 84, 85, 86,
    87, 36, 36, 36, 36, 36, 36, 88, 89, 90, 91, 92, 93, 94, 95, 96, 97, 98, 99, 100, 101, 102, 103, 104,
    105, 106, 107, 108, 109, 110, 111, 112, 113]"
  by (simp add: cd64_def)

definition table_entry :: "u8 \<Rightarrow> u8 \<Rightarrow> bool" where
  "table_entry c k \<longleftrightarrow> \<not> c < 43 \<and> \<not> 122 < c \<and> cd64 ! unat (c - 43) \<noteq> of_char CHR ''$'' \<and>
     cd64 ! unat (c - 43) - 62 = k"

lemma sextets: "map word_of_nat [0..<64] =
   ([0, 1, 2, 3, 4, 5, 6, 7, 8, 9, 10, 11, 12, 13, 14, 15, 16, 17, 18, 19, 20, 21, 22, 23, 24, 25, 26,
    27, 28, 29, 30, 31, 32, 33, 34, 35, 36, 37, 38, 39, 40, 41, 42, 43, 44, 45, 46, 47, 48, 49, 50, 51,
    52, 53, 54, 55, 56, 57, 58, 59, 60, 61, 62, 63] :: u8 list)"
  by (simp add: upt_conv_Cons)

lemma table_entries: "list_all2 table_entry cb64 (map word_of_nat [0..<64])"
  unfolding sextets cb64_codes by (simp add: table_entry_def cd64_codes)

lemma table_inverse: "unat k < 64 \<Longrightarrow> table_entry (cb64 ! unat k) k"
  using list_all2_nthD2 [OF table_entries, of "unat k"] by simp

lemma decode_loop_char:
  assumes "unat k < 64"
  shows "decode_loop (cb64 ! unat k # cs) i v = decode_loop cs (Suc i) (v[i := k])"
  using table_inverse [OF assms] by (simp add: table_entry_def Let_def)

lemma decode_loop_pad: "decode_loop (61 # cs) i v = Some (v[i := 36], word_of_nat i - 1)"
  by (simp add: Let_def cd64_codes)

section \<open>The four 6-bit values\<close>

lemma mask_codes:
  "(0x03 :: u8) = mask 2" "(0xf0 :: u8) = push_bit 4 (mask 4)" "(0x0f :: u8) = mask 4"
  "(0xc0 :: u8) = push_bit 6 (mask 2)" "(0x3f :: u8) = mask 6"
  by (simp_all add: mask_eq_exp_minus_1 push_bit_eq_mult)

lemma six_bits:
  assumes "\<And>n. bit w n \<Longrightarrow> n < 6"
  shows "unat (w :: u8) < 64"
proof -
  have "take_bit 6 w = w" by (rule bit_word_eqI) (auto simp: bit_take_bit_iff dest: assms)
  then have "unat w = take_bit 6 (unat w)" by (metis unsigned_take_bit_eq)
  then show ?thesis using take_bit_nat_less_exp [of 6 "unat w"] by simp
qed

lemma sextet_bounds:
  fixes a b :: u8
  shows "unat (drop_bit 2 a) < 64" "unat (push_bit 4 (a AND 0x03) OR drop_bit 4 (b AND 0xf0)) < 64"
    "unat (push_bit 2 (a AND 0x0f) OR drop_bit 6 (b AND 0xc0)) < 64" "unat (a AND 0x3f) < 64"
  unfolding mask_codes
  by (rule six_bits, auto simp: bit_simps dest: bit_imp_le_length)+

lemma u8_eqI:
  fixes a b :: u8
  assumes "bit a 0 = bit b 0" "bit a 1 = bit b 1" "bit a 2 = bit b 2" "bit a 3 = bit b 3"
    "bit a 4 = bit b 4" "bit a 5 = bit b 5" "bit a 6 = bit b 6" "bit a 7 = bit b 7"
  shows "a = b"
proof (rule bit_word_eqI)
  fix n assume "n < LENGTH(8)"
  then have "n = 0 \<or> n = 1 \<or> n = 2 \<or> n = 3 \<or> n = 4 \<or> n = 5 \<or> n = 6 \<or> n = 7" by auto
  then show "bit a n = bit b n" using assms by metis
qed

lemmas bit_unfold = bit_or_iff bit_and_iff bit_push_bit_iff bit_drop_bit_eq comp_apply bit_mask_iff

lemma sextets_join:
  fixes a b c :: u8
  shows "push_bit 2 (drop_bit 2 a) OR drop_bit 4 (push_bit 4 (a AND 0x03) OR drop_bit 4 (b AND 0xf0)) = a"
    "push_bit 4 (push_bit 4 (a AND 0x03) OR drop_bit 4 (b AND 0xf0)) OR
       drop_bit 2 (push_bit 2 (b AND 0x0f) OR drop_bit 6 (c AND 0xc0)) = b"
    "(push_bit 6 (push_bit 2 (b AND 0x0f) OR drop_bit 6 (c AND 0xc0)) AND 0xc0) OR (c AND 0x3f) = c"
  unfolding mask_codes
  by (rule u8_eqI; unfold bit_unfold; auto dest: bit_imp_le_length simp del: bit_0)+

section \<open>Properties\<close>

text \<open>
  Base64 round trip: of a block of one, two or three bytes, the decoder returns the number of bytes and
  the bytes, whatever the unused input bytes and the uninitialised array hold; the encoder emits four
  characters.
\<close>
theorem base64_roundtrip:
  assumes "1 \<le> len" "len \<le> 3" "length junk = 4"
  shows "\<exists>out. base64_decodeblock junk (base64_encodeblock a b c len) = (Some out, len) \<and>
     take (nat len) out = take (nat len) [a, b, c] \<and> length (base64_encodeblock a b c len) = 4"
proof -
  obtain j0 j1 j2 j3 where j: "junk = [j0, j1, j2, j3]"
    using assms(3) by (auto simp: numeral_eq_Suc length_Suc_conv)
  define p q r s where "p = drop_bit 2 a" and "q = push_bit 4 (a AND 0x03) OR drop_bit 4 (b AND 0xf0)"
    and "r = push_bit 2 (b AND 0x0f) OR drop_bit 6 (c AND 0xc0)" and "s = c AND 0x3f"
  note defs = this
  have bounds: "unat p < 64" "unat q < 64" "unat r < 64" "unat s < 64"
    unfolding defs by (rule sextet_bounds)+
  have join: "push_bit 2 p OR drop_bit 4 q = a" "push_bit 4 q OR drop_bit 2 r = b" "(push_bit 6 r AND 0xc0) OR s = c"
    unfolding defs by (rule sextets_join)+
  have enc: "base64_encodeblock a b c l =
      [cb64 ! unat p, cb64 ! unat q, if l > 1 then cb64 ! unat r else 61, if l > 2 then cb64 ! unat s else 61]" for l
    unfolding base64_encodeblock_def defs by simp
  consider "len = 1" | "len = 2" | "len = 3" using assms(1,2) by linarith
  then show ?thesis
    by cases (simp_all add: enc base64_decodeblock_def bounds decode_loop_char decode_loop_pad j join del: decode_loop.simps(2))
qed

theorem base64_roundtrip_witness:
  "\<exists>out. base64_decodeblock [1, 2, 3, 4] (base64_encodeblock 0x68 0x65 0xff 2) = (Some out, 2) \<and>
     take 2 out = [0x68, 0x65]"
  using base64_roundtrip [of 2 "[1, 2, 3, 4]" "0x68" "0x65" "0xff"] by auto

text \<open>A block that starts with padding is decoded to 255 bytes.\<close>

lemma base64_pad_first:
  "snd (base64_decodeblock junk (of_char CHR ''='' # cs)) = 255"
  by (simp add: base64_decodeblock_def decode_loop_pad unsigned_minus_1_eq_mask mask_eq_exp_minus_1 del: decode_loop.simps(2))

end
