(* ===== verification/Digest_Spec.thy ===== *)
theory Digest_Spec
  imports Radare_Prelude
begin

text \<open>
  What the digests under \<^verbatim>\<open>src/src/rahash\<close> share: the loop over the whole blocks of some bytes, copies into a buffer, the
  padding of a message, and the contract of a digest that receives its message in pieces.
\<close>

section \<open>Blocks and buffers\<close>

text \<open>The loop over whole blocks of \<open>n\<close> bytes: the state after them and the bytes left over.\<close>

function absorb :: "nat \<Rightarrow> ('c \<Rightarrow> u8 list \<Rightarrow> 'c) \<Rightarrow> 'c \<Rightarrow> u8 list \<Rightarrow> 'c \<times> u8 list" where
  "absorb n f c xs = (if n = 0 \<or> length xs < n then (c, xs) else absorb n f (f c (take n xs)) (drop n xs))"
  by pat_completeness auto
termination by (relation "measure (\<lambda>(n, f, c, xs). length xs)") auto

declare absorb.simps [simp del]

lemma absorb_short [simp]: "length xs < n \<Longrightarrow> absorb n f c xs = (c, xs)"
  by (subst absorb.simps) simp

lemma absorb_block:
  assumes "length b = n" and "n > 0"
  shows "absorb n f c (b @ xs) = absorb n f (f c b) xs"
  using assms by (subst absorb.simps) simp

lemma absorb_rest:
  assumes "n > 0"
  shows "length (snd (absorb n f c xs)) = length xs mod n"
  using assms
proof (induction n f c xs rule: absorb.induct)
  case (1 n f c xs)
  show ?case
  proof (cases "length xs < n")
    case False
    then have "length (snd (absorb n f c xs)) = length (drop n xs) mod n"
      using 1 by (subst absorb.simps) simp
    then show ?thesis using False by (simp add: le_mod_geq [of n])
  qed simp
qed

lemma absorb_append:
  assumes "n > 0"
  shows "absorb n f c (xs @ ys) = absorb n f (fst (absorb n f c xs)) (snd (absorb n f c xs) @ ys)"
  using assms
proof (induction n f c xs rule: absorb.induct)
  case (1 n f c xs)
  show ?case
  proof (cases "length xs < n")
    case False
    then have "absorb n f c (xs @ ys) = absorb n f (f c (take n xs)) (drop n xs @ ys)"
      using 1(2) by (subst absorb.simps) simp
    moreover have "absorb n f c xs = absorb n f (f c (take n xs)) (drop n xs)"
      using False 1(2) by (subst absorb.simps) simp
    ultimately show ?thesis using 1 False by simp
  qed simp
qed

text \<open>More bytes fill the block that is left over, or stay in it.\<close>

lemma absorb_fill:
  assumes "absorb n f c m = (s, r)" and "n > 0" and "length r \<le> n" and "n \<le> length r + length xs"
  shows "absorb n f c (m @ xs) = absorb n f (f s (r @ take (n - length r) xs)) (drop (n - length r) xs)"
proof -
  have "r @ xs = (r @ take (n - length r) xs) @ drop (n - length r) xs" by simp
  moreover have "length (r @ take (n - length r) xs) = n" using assms(3,4) by simp
  ultimately show ?thesis using absorb_append [OF assms(2), of f c m xs] assms(1,2) absorb_block by (metis fst_conv snd_conv)
qed

lemma absorb_keep:
  assumes "absorb n f c m = (s, r)" and "n > 0" and "length r + length xs < n"
  shows "absorb n f c (m @ xs) = (s, r @ xs)"
  using absorb_append [OF assms(2), of f c m xs] assms by simp

lemma absorb_pair: "n > 0 \<Longrightarrow> absorb n f c m = (fst (absorb n f c m), snd (absorb n f c m)) \<and> length (snd (absorb n f c m)) = length m mod n"
  by (simp add: absorb_rest)

text \<open>\<^verbatim>\<open>memcpy\<close> of bytes into a buffer at an index.\<close>

definition put_at :: "'a list \<Rightarrow> nat \<Rightarrow> 'a list \<Rightarrow> 'a list" where
  "put_at buf i xs = take i buf @ xs @ drop (i + length xs) buf"

lemma length_put_at [simp]: "i + length xs \<le> length buf \<Longrightarrow> length (put_at buf i xs) = length buf"
  by (simp add: put_at_def)

lemma put_at_append: "length p = i \<Longrightarrow> put_at (p @ z) i xs = p @ xs @ drop (length xs) z"
  by (auto simp: put_at_def)

lemma take_put_at: "i + length xs \<le> length buf \<Longrightarrow> take (i + length xs) (put_at buf i xs) = take i buf @ xs"
  by (simp add: put_at_def)

text \<open>A state and a buffer that have received a message: the whole blocks are in the state, the rest is at the start of the buffer.\<close>

definition buffered :: "nat \<Rightarrow> ('c \<Rightarrow> u8 list \<Rightarrow> 'c) \<Rightarrow> 'c \<Rightarrow> 'c \<Rightarrow> u8 list \<Rightarrow> u8 list \<Rightarrow> bool" where
  "buffered n f iv st buf m \<longleftrightarrow> st = fst (absorb n f iv m) \<and> length buf = n \<and> take (length m mod n) buf = snd (absorb n f iv m)"

lemma buffered_absorb:
  assumes "buffered n f iv st buf m"
  shows "absorb n f iv m = (st, take (length m mod n) buf)"
  using assms by (simp add: buffered_def prod_eq_iff)

lemma buffered_init: "length buf = n \<Longrightarrow> 0 < n \<Longrightarrow> buffered n f iv iv buf []"
  by (simp add: buffered_def)

lemma buffered_keep:
  assumes "buffered n f iv st buf m" and "0 < n" and "length m mod n + length xs < n"
  shows "buffered n f iv st (put_at buf (length m mod n) xs) (m @ xs)"
proof -
  have len: "length buf = n" using assms(1) by (simp add: buffered_def)
  have "absorb n f iv (m @ xs) = (st, take (length m mod n) buf @ xs)"
    using absorb_keep [OF buffered_absorb [OF assms(1)] assms(2)] assms(2,3) len by simp
  moreover have "length (m @ xs) mod n = length m mod n + length xs"
    using assms(3) by (metis length_append mod_add_left_eq mod_less)
  ultimately show ?thesis using len assms(3) by (simp add: buffered_def take_put_at)
qed

lemma buffered_fill:
  assumes "buffered n f iv st buf m" and "0 < n" and "part = n - length m mod n" and "part \<le> length xs"
    and "b = put_at buf (length m mod n) (take part xs)" and "absorb n f (f st b) (drop part xs) = (st', rest)"
  shows "buffered n f iv st' (put_at b 0 rest) (m @ xs)"
proof -
  have len: "length buf = n" using assms(1) by (simp add: buffered_def)
  have r: "length m mod n < n" using assms(2) by simp
  have b: "b = take (length m mod n) buf @ take part xs"
    using assms(3,4,5) len r by (simp add: put_at_def)
  have "absorb n f iv (m @ xs) = (st', rest)"
    using absorb_fill [OF buffered_absorb [OF assms(1)] assms(2), of xs] assms(3,4,6) len r by (simp add: b min_def)
  moreover have "length b = n" using assms(3,4) len r by (simp add: b)
  moreover have "length rest = length (m @ xs) mod n"
    using absorb_rest [OF assms(2), of f iv "m @ xs"] calculation(1) by simp
  moreover have "length (m @ xs) mod n < n" using assms(2) by simp
  ultimately show ?thesis by (simp add: buffered_def put_at_def)
qed

lemma buffered_block:
  assumes "buffered n f iv st buf m" and "0 < n" and "length m mod n + length xs = n" and "length buf' = n"
  shows "buffered n f iv (f st (take (length m mod n) buf @ xs)) buf' (m @ xs)"
proof -
  have len: "length buf = n" "length m mod n < n" using assms(1,2) by (simp_all add: buffered_def)
  have "absorb n f iv (m @ xs) = (f st (take (length m mod n) buf @ xs), [])"
    using absorb_fill [OF buffered_absorb [OF assms(1)] assms(2), of xs] assms(2,3) len by (simp add: min_def)
  moreover from this have "length (m @ xs) mod n = 0" using absorb_rest [OF assms(2), of f iv "m @ xs"] by simp
  ultimately show ?thesis using assms(4) unfolding buffered_def by simp
qed

lemma absorb_inv:
  assumes "P c" and "\<And>c b. P (f c b)"
  shows "P (fst (absorb n f c m))"
  using assms
proof (induction n f c m rule: absorb.induct)
  case (1 n f c m)
  show ?case
  proof (cases "n = 0 \<or> length m < n")
    case False
    then show ?thesis using 1 absorb.simps [of n f c m] by simp
  qed (use 1 absorb.simps [of n f c m] in simp)
qed

lemma absorb_cong:
  assumes "\<And>c b. P c \<Longrightarrow> length b = n \<Longrightarrow> f c b = g c b \<and> P (f c b)" and "P c"
  shows "absorb n f c xs = absorb n g c xs"
  using assms
proof (induction n f c xs rule: absorb.induct)
  case (1 n f c xs)
  show ?case
  proof (cases "n = 0 \<or> length xs < n")
    case False
    then have "absorb n f (f c (take n xs)) (drop n xs) = absorb n g (f c (take n xs)) (drop n xs)"
      using False 1(2) [OF 1(3), of "take n xs"] by (intro 1(1) 1(2)) auto
    moreover have "f c (take n xs) = g c (take n xs)" using 1(2,3) False by simp
    ultimately show ?thesis using absorb.simps [of n f c xs] absorb.simps [of n g c xs] False by simp
  next
    case True
    then show ?thesis using absorb.simps [of n f c xs] absorb.simps [of n g c xs] by simp
  qed
qed

text \<open>The low bytes of a word, the least or the most significant first.\<close>

definition bytes_le :: "nat \<Rightarrow> 'l::len word \<Rightarrow> u8 list" where
  "bytes_le k w = map (\<lambda>i. ucast (drop_bit (8 * i) w)) [0..<k]"

definition bytes_be :: "nat \<Rightarrow> 'l::len word \<Rightarrow> u8 list" where
  "bytes_be k w = rev (bytes_le k w)"

lemma length_bytes [simp]: "length (bytes_le k w) = k" "length (bytes_be k w) = k"
  by (simp_all add: bytes_le_def bytes_be_def)

lemma ucast_byte: "(ucast (drop_bit i (w :: 'l::len word) AND 0xff) :: u8) = ucast (drop_bit i w)"
proof -
  have "drop_bit i w AND 0xff = take_bit 8 (drop_bit i w)" by (simp only: take_bit_eq_mask) (simp add: mask_eq_exp_minus_1)
  then show ?thesis by (simp only:) (rule bit_word_eqI, auto simp: bit_simps dest: bit_imp_le_length)
qed

lemma byte_of_nat: "8 + i \<le> LENGTH('l) \<Longrightarrow> (ucast (drop_bit i (word_of_nat k :: 'l::len word)) :: u8) = word_of_nat (drop_bit i k)"
  by (rule bit_word_eqI) (auto simp: bit_simps)

text \<open>The 16 words of a block of 64 bytes, the least significant byte first.\<close>

definition le_words :: "u8 list \<Rightarrow> ut32 list" where
  "le_words b = map (\<lambda>i. ucast (b ! (4 * i)) OR push_bit 8 (ucast (b ! (4 * i + 1))) OR
     push_bit 16 (ucast (b ! (4 * i + 2))) OR push_bit 24 (ucast (b ! (4 * i + 3)))) [0..<16]"

text \<open>Two shifts are a rotation.\<close>

lemma rotl_index:
  assumes "(k::nat) < N" and "n < N"
  shows "(k + N - n) mod N = (if n \<le> k then k - n else k + N - n)"
proof (cases "n \<le> k")
  case True
  then have "k + N - n = (k - n) + N" by linarith
  then have "(k + N - n) mod N = (k - n) mod N" by (metis mod_add_self2)
  moreover have "k - n < N" using assms(1) by linarith
  ultimately show ?thesis using True by (simp only: mod_less if_True)
next
  case False
  then have "k + N - n < N" using assms by linarith
  then show ?thesis using False by (simp only: mod_less if_False)
qed

lemma rotl_shifts:
  fixes x :: "'l::len word"
  assumes "n < LENGTH('l)"
  shows "push_bit n x OR drop_bit (LENGTH('l) - n) x = word_rotl n x"
proof (rule bit_word_eqI)
  fix k assume k: "k < LENGTH('l)"
  have "bit (word_rotl n x) k = bit x ((k + LENGTH('l) - n) mod LENGTH('l))"
    using k assms by (simp add: bit_word_rotl_iff)
  moreover have "bit (push_bit n x OR drop_bit (LENGTH('l) - n) x) k = (if n \<le> k then bit x (k - n) else bit x (k + LENGTH('l) - n))"
  proof (cases "n \<le> k")
    case True
    then have "\<not> bit x (LENGTH('l) - n + k)" using bit_imp_le_length [of x "LENGTH('l) - n + k"] assms by auto
    then show ?thesis using True k by (auto simp: bit_simps)
  next
    case False
    then show ?thesis using k assms by (simp add: bit_simps add.commute)
  qed
  ultimately show "bit (push_bit n x OR drop_bit (LENGTH('l) - n) x) k = bit (word_rotl n x) k"
    using rotl_index [of k "LENGTH('l)" n] k assms by simp
qed

text \<open>
  The padded message: the byte \<^verbatim>\<open>0x80\<close>, zeros, and \<open>lb\<close> bytes with the number of bits, up to a multiple of the block.
\<close>

definition pad_zeros :: "nat \<Rightarrow> nat \<Rightarrow> nat \<Rightarrow> nat" where
  "pad_zeros n lb len = (2 * n - 1 - lb - len mod n) mod n"

definition padded :: "nat \<Rightarrow> nat \<Rightarrow> (nat \<Rightarrow> u8 list) \<Rightarrow> u8 list \<Rightarrow> u8 list" where
  "padded n lb lenf m = m @ 0x80 # replicate (pad_zeros n lb (length m)) 0 @ lenf (8 * length m)"

text \<open>The padding of blocks of 64 bytes with a length of 8, as the code computes it.\<close>

lemma pad_64:
  fixes r :: nat
  assumes "r < 64"
  shows "(if r < 56 then 56 - r else 120 - r) = Suc ((119 - r) mod 64)" "(if r < 56 then 56 - r else 120 - r) \<le> 64"
proof -
  have "r < 56 \<Longrightarrow> (119 - r) mod 64 = 55 - r" by (subst le_mod_geq) simp_all
  moreover have "\<not> r < 56 \<Longrightarrow> (119 - r) mod 64 = 119 - r" using assms by (intro mod_less) linarith
  ultimately show "(if r < 56 then 56 - r else 120 - r) = Suc ((119 - r) mod 64)" using assms by (cases "r < 56") auto
  show "(if r < 56 then 56 - r else 120 - r) \<le> 64" by (cases "r < 56") auto
qed

text \<open>The number of bits in eight bytes, the least or the most significant first.\<close>

definition le_length :: "nat \<Rightarrow> u8 list" where
  "le_length k = bytes_le 8 (word_of_nat k :: ut64)"

definition be_length :: "nat \<Rightarrow> u8 list" where
  "be_length k = bytes_be 8 (word_of_nat k :: ut64)"

lemma length_le_length [simp]: "length (le_length k) = 8" "length (be_length k) = 8"
  by (simp_all add: le_length_def be_length_def)

text \<open>The reference of a digest: all blocks of the padded message, from the initial value.\<close>

definition digest_ref ::
  "nat \<Rightarrow> nat \<Rightarrow> (nat \<Rightarrow> u8 list) \<Rightarrow> ('c \<Rightarrow> u8 list \<Rightarrow> 'c) \<Rightarrow> 'c \<Rightarrow> ('c \<Rightarrow> u8 list) \<Rightarrow> u8 list \<Rightarrow> u8 list" where
  "digest_ref n lb lenf f iv out m = out (fst (absorb n f iv (padded n lb lenf m)))"

text \<open>The last blocks of a padded message: one when the length fits behind the rest, else two.\<close>

lemma absorb_one: "length b = n \<Longrightarrow> 0 < n \<Longrightarrow> fst (absorb n f st b) = f st b"
  using absorb_block [of b n f st "[]"] by simp

lemma absorb_two:
  assumes "length b = n" and "length c = n" and "0 < n"
  shows "fst (absorb n f st (b @ c)) = f (f st b) c"
  using absorb_block [OF assms(1,3), of f st c] absorb_one [OF assms(2,3), of f "f st b"] by simp

lemma padded_blocks:
  assumes "absorb n f iv m = (st, r)" and "lb < n" and "length (lenf (8 * length m)) = lb"
  shows "length r + 1 + lb \<le> n \<Longrightarrow> fst (absorb n f iv (padded n lb lenf m)) =
      f st (r @ 0x80 # replicate (n - lb - (length r + 1)) 0 @ lenf (8 * length m))"
    and "n < length r + 1 + lb \<Longrightarrow> fst (absorb n f iv (padded n lb lenf m)) =
      f (f st (r @ 0x80 # replicate (n - (length r + 1)) 0)) (replicate (n - lb) 0 @ lenf (8 * length m))"
proof -
  have n: "0 < n" using assms(2) by simp
  have r: "length r = length m mod n" using absorb_rest [OF n, of f iv m] assms(1) by simp
  then have lt: "length r < n" using n by simp
  have p: "fst (absorb n f iv (padded n lb lenf m)) = fst (absorb n f st (r @ 0x80 # replicate (pad_zeros n lb (length m)) 0 @ lenf (8 * length m)))"
    using absorb_append [OF n, of f iv m] assms(1) by (simp add: padded_def)
  {
    assume le: "length r + 1 + lb \<le> n"
    then have "2 * n - 1 - lb - length r = n + (n - lb - (length r + 1))" "n - lb - (length r + 1) < n" using n by linarith+
    then have z: "pad_zeros n lb (length m) = n - lb - (length r + 1)" by (simp only: pad_zeros_def r [symmetric] mod_add_self1 mod_less)
    show "fst (absorb n f iv (padded n lb lenf m)) = f st (r @ 0x80 # replicate (n - lb - (length r + 1)) 0 @ lenf (8 * length m))"
      unfolding p z using le assms(3) n by (intro absorb_one) simp_all
  }
  {
    assume gt: "n < length r + 1 + lb"
    then have "2 * n - 1 - lb - length r = (n - (length r + 1)) + (n - lb)" "2 * n - 1 - lb - length r < n" using lt assms(2) by linarith+
    then have z: "pad_zeros n lb (length m) = (n - (length r + 1)) + (n - lb)" by (simp only: pad_zeros_def r [symmetric] mod_less)
    show "fst (absorb n f iv (padded n lb lenf m)) = f (f st (r @ 0x80 # replicate (n - (length r + 1)) 0)) (replicate (n - lb) 0 @ lenf (8 * length m))"
      using absorb_two [of "r @ 0x80 # replicate (n - (length r + 1)) 0" n "replicate (n - lb) 0 @ lenf (8 * length m)" f st] lt n assms(2,3)
      unfolding p z replicate_add by simp
  }
qed

text \<open>Adding two numbers whose low and high words are kept apart: the comparison after the addition of the low words is the carry.\<close>

lemma add_mod_less:
  assumes "0 < (N :: nat)"
  shows "(a + b) mod N < b mod N \<longleftrightarrow> N \<le> a mod N + b mod N"
proof -
  have l: "a mod N < N" "b mod N < N" using assms by simp_all
  have e: "(a + b) mod N = (a mod N + b mod N) mod N" by (rule mod_add_eq [symmetric])
  show ?thesis
  proof (cases "N \<le> a mod N + b mod N")
    case True
    then have "(a mod N + b mod N) mod N = a mod N + b mod N - N"
      using l by (subst le_mod_geq) (simp_all only: mod_less less_diff_conv2 add_strict_mono)
    then show ?thesis using True l e by linarith
  next
    case False
    then show ?thesis using e by simp
  qed
qed

lemma word_of_nat_carry:
  "(word_of_nat (a + b) < (word_of_nat b :: 'l::len word)) \<longleftrightarrow> 2 ^ LENGTH('l) \<le> a mod 2 ^ LENGTH('l) + b mod 2 ^ LENGTH('l)"
  by (simp only: word_less_nat_alt unsigned_of_nat take_bit_eq_mod of_nat_id) (rule add_mod_less, simp)

lemma div_add_carry:
  assumes "0 < (N :: nat)"
  shows "(a + b) div N = a div N + b div N + (if N \<le> a mod N + b mod N then 1 else 0)"
proof -
  have "a mod N + b mod N < 2 * N" using assms mod_less_divisor [of N a] mod_less_divisor [of N b] by linarith
  then have "(a mod N + b mod N) div N = (if N \<le> a mod N + b mod N then 1 else 0)"
    using assms by (auto simp: div_if)
  then show ?thesis by (simp add: div_add1_eq [of a b N])
qed

section \<open>Four registers in turn\<close>

text \<open>
  MD4 and MD5 write the register \<^verbatim>\<open>a\<close>, \<^verbatim>\<open>d\<close>, \<^verbatim>\<open>c\<close>, \<^verbatim>\<open>b\<close> in turn; their descriptions always write the first and rotate. \<open>quad_regs i\<close> are
  the numbers of the registers that play \<^verbatim>\<open>a\<close> to \<^verbatim>\<open>d\<close> in step \<open>i\<close>.
\<close>

definition quad_regs :: "nat \<Rightarrow> nat \<times> nat \<times> nat \<times> nat" where
  "quad_regs i = (if i mod 4 = 0 then (0, 1, 2, 3) else if i mod 4 = 1 then (3, 0, 1, 2) else if i mod 4 = 2 then (2, 3, 0, 1) else (1, 2, 3, 0))"

definition quad_rel :: "nat \<Rightarrow> ut32 list \<Rightarrow> ut32 \<times> ut32 \<times> ut32 \<times> ut32 \<Rightarrow> bool" where
  "quad_rel i reg st \<longleftrightarrow> length reg = 4 \<and> (case quad_regs i of (a, b, c, d) \<Rightarrow> st = (reg ! a, reg ! b, reg ! c, reg ! d))"

lemma quad_rel_init: "length st = 4 \<Longrightarrow> quad_rel 0 st (st ! 0, st ! 1, st ! 2, st ! 3)"
  by (simp add: quad_rel_def quad_regs_def)

lemma quad_rel_nth:
  assumes "quad_rel i reg (p, q, r, t)" and "quad_regs i = (a, b, c, d)"
  shows "reg ! a = p" "reg ! b = q" "reg ! c = r" "reg ! d = t"
  using assms by (simp_all add: quad_rel_def)

lemma quad_rel_step:
  assumes "quad_rel i reg (p, q, r, t)" and "quad_regs i = (a, b, c, d)"
  shows "quad_rel (Suc i) (reg[a := v]) (t, v, q, r)"
proof -
  have "i mod 4 = 0 \<or> i mod 4 = 1 \<or> i mod 4 = 2 \<or> i mod 4 = 3" by arith
  then show ?thesis using assms by (elim disjE) (auto simp: quad_rel_def quad_regs_def mod_Suc)
qed

lemma quad_rel_end:
  assumes "quad_rel i reg st" and "i mod 4 = 0" and "length iv = 4"
  shows "map2 (+) iv reg = (case st of (a, b, c, d) \<Rightarrow> [iv ! 0 + a, iv ! 1 + b, iv ! 2 + c, iv ! 3 + d])"
proof -
  obtain a b c d where "reg = [a, b, c, d]" using assms(1) by (auto simp: quad_rel_def length_Suc_conv numeral_eq_Suc)
  moreover obtain p q r t where "iv = [p, q, r, t]" using assms(3) by (auto simp: length_Suc_conv numeral_eq_Suc)
  ultimately show ?thesis using assms(1,2) by (simp add: quad_rel_def quad_regs_def)
qed

section \<open>The contract of a digest in pieces\<close>

text \<open>\<open>rep s m\<close>: the context \<open>s\<close> has received the message \<open>m\<close>; \<open>ok\<close> bounds the pieces, \<open>fits\<close> the whole message.\<close>

locale stream_digest =
  fixes init :: 's
    and update :: "u8 list \<Rightarrow> 's \<Rightarrow> 's"
    and final :: "'s \<Rightarrow> 'd"
    and reference :: "u8 list \<Rightarrow> 'd"
    and rep :: "'s \<Rightarrow> u8 list \<Rightarrow> bool"
    and ok :: "u8 list \<Rightarrow> bool"
  assumes rep_init: "rep init []"
    and rep_update: "rep s m \<Longrightarrow> ok xs \<Longrightarrow> rep (update xs s) (m @ xs)"
    and rep_final: "rep s m \<Longrightarrow> final s = reference m"
begin

lemma rep_updates: "rep s m \<Longrightarrow> \<forall>xs \<in> set chunks. ok xs \<Longrightarrow> rep (fold update chunks s) (m @ concat chunks)"
proof (induction chunks arbitrary: s m)
  case (Cons xs chunks)
  then show ?case using rep_update [of s m xs] Cons.IH [of "update xs s" "m @ xs"] by simp
qed simp

theorem pieces: "\<forall>xs \<in> set chunks. ok xs \<Longrightarrow> final (fold update chunks init) = reference (concat chunks)"
  using rep_updates [OF rep_init] rep_final by fastforce

end

end
