(* ===== verification/Md4.thy ===== *)
theory Md4
  imports Digest_Spec
begin

text \<open>
  MD4 (\<^verbatim>\<open>src/src/rahash/md4.c\<close>): one call over the whole message. \<^verbatim>\<open>n * 8\<close> is computed as an \<^verbatim>\<open>int\<close>, so a message is shorter than
  \<open>2 ^ 28\<close> bytes.
\<close>

section \<open>Model\<close>

definition md4_F :: "ut32 \<Rightarrow> ut32 \<Rightarrow> ut32 \<Rightarrow> ut32" where
  "md4_F X Y Z = (X AND Y) OR (NOT X AND Z)"

definition md4_G :: "ut32 \<Rightarrow> ut32 \<Rightarrow> ut32 \<Rightarrow> ut32" where
  "md4_G X Y Z = (X AND Y) OR (X AND Z) OR (Y AND Z)"

definition md4_H :: "ut32 \<Rightarrow> ut32 \<Rightarrow> ut32 \<Rightarrow> ut32" where
  "md4_H X Y Z = X XOR Y XOR Z"

definition lshift :: "ut32 \<Rightarrow> nat \<Rightarrow> ut32" where
  "lshift x s = (let x = x AND 0xFFFFFFFF in (push_bit s x AND 0xFFFFFFFF) OR drop_bit (32 - s) x)"

text \<open>
  A macro \<^verbatim>\<open>ROUND1\<close> to \<^verbatim>\<open>ROUND3\<close>, with the function and the constant of the round, applied to the registers with the given numbers, 0 for \<^verbatim>\<open>A\<close> to 3
  for \<^verbatim>\<open>D\<close>; and the applications in the order of the code.
\<close>

type_synonym md4_row = "(nat \<times> nat \<times> nat \<times> nat) \<times> nat \<times> nat"

definition md4_round :: "(ut32 \<Rightarrow> ut32 \<Rightarrow> ut32 \<Rightarrow> ut32) \<Rightarrow> ut32 \<Rightarrow> ut32 list \<Rightarrow> md4_row \<Rightarrow> ut32 list \<Rightarrow> ut32 list" where
  "md4_round f ac X row reg =
     (case row of ((a, b, c, d), k, s) \<Rightarrow> reg[a := lshift (reg ! a + f (reg ! b) (reg ! c) (reg ! d) + X ! k + ac) s])"

definition md4_rows1 :: "md4_row list" where
  "md4_rows1 =
   [((0, 1, 2, 3), 0, 3), ((3, 0, 1, 2), 1, 7), ((2, 3, 0, 1), 2, 11), ((1, 2, 3, 0), 3, 19),
    ((0, 1, 2, 3), 4, 3), ((3, 0, 1, 2), 5, 7), ((2, 3, 0, 1), 6, 11), ((1, 2, 3, 0), 7, 19),
    ((0, 1, 2, 3), 8, 3), ((3, 0, 1, 2), 9, 7), ((2, 3, 0, 1), 10, 11), ((1, 2, 3, 0), 11, 19),
    ((0, 1, 2, 3), 12, 3), ((3, 0, 1, 2), 13, 7), ((2, 3, 0, 1), 14, 11), ((1, 2, 3, 0), 15, 19)]"

definition md4_rows2 :: "md4_row list" where
  "md4_rows2 =
   [((0, 1, 2, 3), 0, 3), ((3, 0, 1, 2), 4, 5), ((2, 3, 0, 1), 8, 9), ((1, 2, 3, 0), 12, 13),
    ((0, 1, 2, 3), 1, 3), ((3, 0, 1, 2), 5, 5), ((2, 3, 0, 1), 9, 9), ((1, 2, 3, 0), 13, 13),
    ((0, 1, 2, 3), 2, 3), ((3, 0, 1, 2), 6, 5), ((2, 3, 0, 1), 10, 9), ((1, 2, 3, 0), 14, 13),
    ((0, 1, 2, 3), 3, 3), ((3, 0, 1, 2), 7, 5), ((2, 3, 0, 1), 11, 9), ((1, 2, 3, 0), 15, 13)]"

definition md4_rows3 :: "md4_row list" where
  "md4_rows3 =
   [((0, 1, 2, 3), 0, 3), ((3, 0, 1, 2), 8, 9), ((2, 3, 0, 1), 4, 11), ((1, 2, 3, 0), 12, 15),
    ((0, 1, 2, 3), 2, 3), ((3, 0, 1, 2), 10, 9), ((2, 3, 0, 1), 6, 11), ((1, 2, 3, 0), 14, 15),
    ((0, 1, 2, 3), 1, 3), ((3, 0, 1, 2), 9, 9), ((2, 3, 0, 1), 5, 11), ((1, 2, 3, 0), 13, 15),
    ((0, 1, 2, 3), 3, 3), ((3, 0, 1, 2), 11, 9), ((2, 3, 0, 1), 7, 11), ((1, 2, 3, 0), 15, 15)]"

definition mdfour64 :: "ut32 list \<Rightarrow> ut32 list \<Rightarrow> ut32 list" where
  "mdfour64 M st =
     (let r1 = fold (md4_round md4_F 0 M) md4_rows1 st;
          r2 = fold (md4_round md4_G 0x5A827999 M) md4_rows2 r1;
          r3 = fold (md4_round md4_H 0x6ED9EBA1 M) md4_rows3 r2
      in map2 (\<lambda>r s. (r + s) AND 0xFFFFFFFF) r3 st)"

definition copy64 :: "u8 list \<Rightarrow> ut32 list" where
  "copy64 input = map (\<lambda>i. push_bit 24 (ucast (input ! (i * 4 + 3))) OR push_bit 16 (ucast (input ! (i * 4 + 2))) OR
     push_bit 8 (ucast (input ! (i * 4 + 1))) OR ucast (input ! (i * 4 + 0))) [0..<16]"

definition copy4 :: "ut32 \<Rightarrow> u8 list" where
  "copy4 x = [ucast (x AND 0xFF), ucast (drop_bit 8 x AND 0xFF), ucast (drop_bit 16 x AND 0xFF), ucast (drop_bit 24 x AND 0xFF)]"

function mdfour_loop :: "ut32 list \<Rightarrow> u8 list \<Rightarrow> ut32 list \<times> u8 list" where
  "mdfour_loop st input = (if length input > 64 then mdfour_loop (mdfour64 (copy64 input) st) (drop 64 input) else (st, input))"
  by pat_completeness auto
termination by (relation "measure (length \<circ> snd)") auto

definition md4_iv :: "ut32 list" where
  "md4_iv = [0x67452301, 0xefcdab89, 0x98badcfe, 0x10325476]"

definition mdfour :: "u8 list \<Rightarrow> u8 list" where
  "mdfour input =
     (let b = word_of_nat (length input * 8) :: ut32;
          (st, rest) = mdfour_loop md4_iv input;
          n = length rest;
          buf = (put_at (replicate 128 0) 0 rest)[n := 0x80];
          st' = (if n \<le> 55 then mdfour64 (copy64 (put_at buf 56 (copy4 b))) st
                 else (let buf' = put_at buf 120 (copy4 b) in mdfour64 (copy64 (drop 64 buf')) (mdfour64 (copy64 buf') st)))
      in concat (map copy4 st'))"

section \<open>The compression function\<close>

text \<open>The description of RFC 1320.\<close>

definition md4_k :: "nat \<Rightarrow> nat" where
  "md4_k i = (if i < 16 then i else if i < 32 then 4 * (i mod 4) + i mod 16 div 4
     else [0, 8, 4, 12, 2, 10, 6, 14, 1, 9, 5, 13, 3, 11, 7, 15] ! (i - 32))"

definition md4_s :: "nat \<Rightarrow> nat" where
  "md4_s i = [[3, 7, 11, 19], [3, 5, 9, 13], [3, 9, 11, 15]] ! (i div 16) ! (i mod 4)"

definition md4_fn :: "nat \<Rightarrow> ut32 \<Rightarrow> ut32 \<Rightarrow> ut32 \<Rightarrow> ut32" where
  "md4_fn i = (if i < 16 then md4_F else if i < 32 then md4_G else md4_H)"

definition md4_ac :: "nat \<Rightarrow> ut32" where
  "md4_ac i = (if i < 16 then 0 else if i < 32 then 0x5A827999 else 0x6ED9EBA1)"

definition md4_step :: "ut32 list \<Rightarrow> nat \<Rightarrow> ut32 \<times> ut32 \<times> ut32 \<times> ut32 \<Rightarrow> ut32 \<times> ut32 \<times> ut32 \<times> ut32" where
  "md4_step x i st = (case st of (a, b, c, d) \<Rightarrow> (d, word_rotl (md4_s i) (a + md4_fn i b c d + x ! md4_k i + md4_ac i), b, c))"

definition md4_compress :: "ut32 list \<Rightarrow> u8 list \<Rightarrow> ut32 list" where
  "md4_compress st block =
     (case fold (md4_step (le_words block)) [0..<48] (st ! 0, st ! 1, st ! 2, st ! 3) of
        (a, b, c, d) \<Rightarrow> [st ! 0 + a, st ! 1 + b, st ! 2 + c, st ! 3 + d])"

definition md4_rows :: "nat \<Rightarrow> nat \<Rightarrow> md4_row list" where
  "md4_rows lo hi = map (\<lambda>i. (quad_regs i, md4_k i, md4_s i)) [lo..<hi]"

lemma md4_rounds: "md4_rows1 = md4_rows 0 16" "md4_rows2 = md4_rows 16 32" "md4_rows3 = md4_rows 32 48"
  by (simp_all add: md4_rows1_def md4_rows2_def md4_rows3_def md4_rows_def md4_k_def md4_s_def quad_regs_def upt_conv_Cons)

lemma and_all_ones: "x AND 0xFFFFFFFF = (x :: ut32)"
proof -
  have "(0xFFFFFFFF :: ut32) = - 1" by simp
  then show ?thesis by (simp only: and.right_neutral)
qed

lemma lshift_rotl: "s < 32 \<Longrightarrow> lshift x s = word_rotl s x"
  using rotl_shifts [of s x] by (simp add: lshift_def and_all_ones)

lemma md4_s_bound: "i < 48 \<Longrightarrow> md4_s i < 32"
proof -
  assume "i < 48"
  moreover have "\<forall>i \<in> set [0..<48]. md4_s i < 32" by (simp add: md4_s_def upt_conv_Cons)
  ultimately show ?thesis by simp
qed

lemma md4_round_step:
  assumes "quad_rel i reg st" and "i < 48"
  shows "quad_rel (Suc i) (md4_round (md4_fn i) (md4_ac i) x (quad_regs i, md4_k i, md4_s i) reg) (md4_step x i st)"
proof -
  obtain p q r t a b c d where st: "st = (p, q, r, t)" and regs: "quad_regs i = (a, b, c, d)" by (metis surj_pair)
  note n = quad_rel_nth [OF assms(1) [unfolded st] regs]
  show ?thesis unfolding st using quad_rel_step [OF assms(1) [unfolded st] regs] assms(2)
    by (simp add: md4_round_def md4_step_def regs n lshift_rotl md4_s_bound)
qed

lemma md4_fold_step:
  assumes "quad_rel lo reg st" and "lo \<le> hi" and "hi \<le> 48" and "\<And>i. lo \<le> i \<Longrightarrow> i < hi \<Longrightarrow> f = md4_fn i \<and> ac = md4_ac i"
  shows "quad_rel hi (fold (md4_round f ac x) (md4_rows lo hi) reg) (fold (md4_step x) [lo..<hi] st)"
  using assms(2,3,4)
proof (induction hi rule: dec_induct)
  case base
  then show ?case using assms(1) by (simp add: md4_rows_def)
next
  case (step hi)
  then have "quad_rel hi (fold (md4_round f ac x) (md4_rows lo hi) reg) (fold (md4_step x) [lo..<hi] st)" by simp
  then have "quad_rel (Suc hi) (md4_round (md4_fn hi) (md4_ac hi) x (quad_regs hi, md4_k hi, md4_s hi)
      (fold (md4_round f ac x) (md4_rows lo hi) reg)) (md4_step x hi (fold (md4_step x) [lo..<hi] st))"
    using step by (intro md4_round_step) auto
  moreover have "f = md4_fn hi" "ac = md4_ac hi" using step by simp_all
  ultimately show ?case using step by (simp add: md4_rows_def)
qed

lemma md4_upt: "[0..<48] = [0..<16] @ [16..<32] @ [32..<48]"
  using upt_add_eq_append [of 0 16 32] upt_add_eq_append [of 16 32 16] by simp

lemma copy64_le_words: "copy64 b = le_words b"
  unfolding copy64_def le_words_def by (rule map_cong [OF refl]) (simp add: ac_simps)

lemma mdfour64_compress:
  assumes "length st = 4"
  shows "mdfour64 (copy64 block) st = md4_compress st block"
proof -
  let ?x = "le_words block" let ?st = "(st ! 0, st ! 1, st ! 2, st ! 3)"
  have "quad_rel 0 st ?st" by (rule quad_rel_init [OF assms])
  then have "quad_rel 16 (fold (md4_round md4_F 0 ?x) md4_rows1 st) (fold (md4_step ?x) [0..<16] ?st)"
    unfolding md4_rounds by (rule md4_fold_step) (simp_all add: md4_fn_def md4_ac_def)
  then have "quad_rel 32 (fold (md4_round md4_G 0x5A827999 ?x) md4_rows2 (fold (md4_round md4_F 0 ?x) md4_rows1 st))
      (fold (md4_step ?x) [16..<32] (fold (md4_step ?x) [0..<16] ?st))"
    unfolding md4_rounds by (rule md4_fold_step) (simp_all add: md4_fn_def md4_ac_def)
  then have "quad_rel 48 (fold (md4_round md4_H 0x6ED9EBA1 ?x) md4_rows3 (fold (md4_round md4_G 0x5A827999 ?x) md4_rows2
        (fold (md4_round md4_F 0 ?x) md4_rows1 st)))
      (fold (md4_step ?x) [32..<48] (fold (md4_step ?x) [16..<32] (fold (md4_step ?x) [0..<16] ?st)))"
    unfolding md4_rounds by (rule md4_fold_step) (simp_all add: md4_fn_def md4_ac_def)
  from quad_rel_end [OF this _ assms]
  have "map2 (+) st (fold (md4_round md4_H 0x6ED9EBA1 ?x) md4_rows3 (fold (md4_round md4_G 0x5A827999 ?x) md4_rows2
      (fold (md4_round md4_F 0 ?x) md4_rows1 st))) = md4_compress st block"
    by (simp only: md4_compress_def md4_upt fold_append comp_apply) simp
  moreover have "map2 (\<lambda>r s. (r + s) AND 0xFFFFFFFF) xs st = map2 (+) st xs" for xs
    by (simp add: and_all_ones add.commute zip_commute [of xs st] split_beta)
  ultimately show ?thesis by (simp add: mdfour64_def Let_def copy64_le_words)
qed

lemma length_md4_compress [simp]: "length (md4_compress st block) = 4"
  by (simp add: md4_compress_def split: prod.split)

section \<open>The digest\<close>

declare mdfour_loop.simps [simp del]

text \<open>The loop keeps the last 64 bytes for the padding, where the description of blocks would have absorbed them.\<close>

lemma copy64_take: "copy64 (take 64 xs) = copy64 xs"
  by (auto simp: copy64_def)

lemma copy64_append: "length b = 64 \<Longrightarrow> copy64 (b @ xs) = copy64 b"
  using copy64_take [of "b @ xs"] by simp

lemma mdfour_loop_spec:
  assumes "length st = 4" and "mdfour_loop st m = (st', rest)"
  shows "length st' = 4 \<and> length rest \<le> 64 \<and> length rest mod 64 = length m mod 64 \<and>
    (\<forall>ys. absorb 64 md4_compress st (m @ ys) = absorb 64 md4_compress st' (rest @ ys))"
  using assms
proof (induction st m rule: mdfour_loop.induct)
  case (1 st m)
  show ?case
  proof (cases "64 < length m")
    case False
    then show ?thesis using 1(2,3) by (simp add: mdfour_loop.simps [of st m])
  next
    case True
    have c: "mdfour64 (copy64 m) st = md4_compress st (take 64 m)"
      using mdfour64_compress [OF 1(2), of "take 64 m"] by (simp add: copy64_take)
    have "length st' = 4 \<and> length rest \<le> 64 \<and> length rest mod 64 = length (drop 64 m) mod 64 \<and>
      (\<forall>ys. absorb 64 md4_compress (md4_compress st (take 64 m)) (drop 64 m @ ys) = absorb 64 md4_compress st' (rest @ ys))"
      using 1(1) [OF True] 1(3) True by (simp add: mdfour_loop.simps [of st m] c)
    moreover have "length (drop 64 m) mod 64 = length m mod 64" using True by (simp add: le_mod_geq [of 64])
    moreover have "absorb 64 md4_compress st (m @ ys) = absorb 64 md4_compress (md4_compress st (take 64 m)) (drop 64 m @ ys)" for ys
      using absorb_block [of "take 64 m" 64 md4_compress st "drop 64 m @ ys"] True by (simp flip: append_assoc)
    ultimately show ?thesis by simp
  qed
qed

lemma copy4_length:
  assumes "k < 2 ^ 32"
  shows "le_length k = copy4 (word_of_nat k) @ replicate 4 0"
proof -
  have "drop_bit (32 + i) k = 0" for i using assms by (simp add: drop_bit_eq_div power_add div_mult2_eq)
  then have z: "drop_bit 32 k = 0" "drop_bit 40 k = 0" "drop_bit 48 k = 0" "drop_bit 56 k = 0"
    by (metis add_0_right numeral_plus_numeral add_num_simps)+
  have u: "[0..<8] = [0, 1, 2, 3, 4, 5, 6, 7]" by (simp add: upt_conv_Cons)
  have r: "replicate 4 0 = [0, 0, 0, 0 :: u8]" by (simp add: numeral_eq_Suc)
  show ?thesis unfolding le_length_def bytes_le_def u r copy4_def
    using ucast_byte [of 0 "word_of_nat k :: ut32"] byte_of_nat [of 0 k, where 'l = 32] byte_of_nat [of 0 k, where 'l = 64]
    by (simp add: ucast_byte byte_of_nat z)
qed

definition md4_out :: "ut32 list \<Rightarrow> u8 list" where
  "md4_out st = concat (map (bytes_le 4) st)"

lemma copy4_bytes: "copy4 x = bytes_le 4 x"
  using ucast_byte [of 0 x] by (simp add: copy4_def bytes_le_def ucast_byte upt_conv_Cons)

text \<open>The buffer with the padding, in one block or in two.\<close>

lemma md4_buffer:
  fixes rest :: "u8 list"
  assumes "n = length rest" and "n + 1 \<le> q" and "q + 4 \<le> 128"
  shows "put_at ((put_at (replicate 128 0) 0 rest)[n := 0x80]) q l4 = (rest @ 0x80 # replicate (q - n - 1) 0) @ l4 @ replicate (128 - q - length l4) 0"
proof -
  have "(put_at (replicate 128 0) 0 rest)[n := 0x80] = rest @ 0x80 # replicate (127 - n) 0"
  proof -
    have "128 - n = Suc (127 - n)" using assms by linarith
    then have "replicate (128 - n) (0 :: u8) = 0 # replicate (127 - n) 0" by (simp only: replicate_Suc)
    then show ?thesis using assms by (simp add: put_at_def list_update_append drop_replicate)
  qed
  moreover have "127 - n = (q - n - 1) + (128 - q)" using assms by linarith
  ultimately have "(put_at (replicate 128 0) 0 rest)[n := 0x80] = (rest @ 0x80 # replicate (q - n - 1) 0) @ replicate (128 - q) 0"
    by (simp add: replicate_add)
  then show ?thesis using assms put_at_append [of "rest @ 0x80 # replicate (q - n - 1) 0" q "replicate (128 - q) 0" l4] by simp
qed

lemma mdfour_reference:
  assumes "length m < 2 ^ 28"
  shows "mdfour m = digest_ref 64 8 le_length md4_compress md4_iv md4_out m"
proof -
  obtain st rest where l: "mdfour_loop md4_iv m = (st, rest)" by fastforce
  let ?n = "length rest" let ?l = "copy4 (word_of_nat (length m * 8))"
  have st: "length st = 4" and n: "?n \<le> 64" "?n mod 64 = length m mod 64"
    and a: "absorb 64 md4_compress md4_iv (m @ ys) = absorb 64 md4_compress st (rest @ ys)" for ys
    using mdfour_loop_spec [OF _ l] by (simp_all add: md4_iv_def)
  have len: "le_length (8 * length m) = ?l @ replicate 4 0" "length ?l = 4"
    using copy4_length [of "8 * length m"] assms by (simp_all add: mult.commute copy4_def)
  have p: "fst (absorb 64 md4_compress md4_iv (padded 64 8 le_length m)) =
      fst (absorb 64 md4_compress st (rest @ 0x80 # replicate (pad_zeros 64 8 ?n) 0 @ ?l @ replicate 4 0))"
    using a [of "0x80 # replicate (pad_zeros 64 8 (length m)) 0 @ le_length (8 * length m)"] len n(2)
    by (simp add: padded_def pad_zeros_def)
  have out: "concat (map copy4 xs) = md4_out xs" for xs by (simp add: md4_out_def copy4_bytes [abs_def])
  show ?thesis
  proof (cases "?n \<le> 55")
    case True
    define b where "b = rest @ 0x80 # replicate (55 - ?n) 0 @ ?l @ replicate 4 0"
    have "put_at ((put_at (replicate 128 0) 0 rest)[?n := 0x80]) 56 ?l = b @ replicate 64 0"
      using md4_buffer [OF refl, of rest 56 ?l] True len(2) by (simp add: b_def flip: replicate_add)
    moreover have "length b = 64" using True len(2) by (simp add: b_def)
    ultimately have "mdfour m = md4_out (md4_compress st b)"
      using True mdfour64_compress [OF st, of b] copy64_append [of b "replicate 64 0"]
      by (simp only: mdfour_def l out Let_def prod.case if_True)
    moreover have "pad_zeros 64 8 ?n = 55 - ?n"
      using True by (simp add: pad_zeros_def le_mod_geq [of 64])
    moreover have "fst (absorb 64 md4_compress st b) = md4_compress st b"
      using absorb_block [OF \<open>length b = 64\<close>, of md4_compress st "[]"] by simp
    ultimately show ?thesis unfolding digest_ref_def p by (simp only: b_def)
  next
    case False
    define b where "b = rest @ 0x80 # replicate (119 - ?n) 0 @ ?l @ replicate 4 0"
    have b: "put_at ((put_at (replicate 128 0) 0 rest)[?n := 0x80]) 120 ?l = b"
      using md4_buffer [OF refl, of rest 120 ?l] n(1) len(2) by (simp add: b_def)
    have lb: "length b = 128" using n(1) len(2) by (simp add: b_def)
    have "mdfour m = md4_out (md4_compress (md4_compress st (take 64 b)) (drop 64 b))"
      using False mdfour64_compress [OF st, of "take 64 b"] mdfour64_compress [of "md4_compress st (take 64 b)" "drop 64 b"] copy64_take [of b]
      by (simp only: mdfour_def l out b Let_def prod.case if_False) simp
    moreover have "pad_zeros 64 8 ?n = 119 - ?n"
    proof (cases "?n = 64")
      case False
      then have "?n < 64" using n(1) by simp
      then show ?thesis using \<open>\<not> ?n \<le> 55\<close> by (simp add: pad_zeros_def)
    qed (simp add: pad_zeros_def)
    moreover have "fst (absorb 64 md4_compress st b) = md4_compress (md4_compress st (take 64 b)) (drop 64 b)"
      using absorb_two [of "take 64 b" 64 "drop 64 b" md4_compress st] lb by simp
    ultimately show ?thesis unfolding digest_ref_def p by (simp only: b_def)
  qed
qed

text \<open>
  C32 \<^verbatim>\<open>mdfour\<close>, which keeps the last 64 bytes of a message for a buffer of two blocks, computes the digest that RFC 1320 describes, for every
  message whose number of bits is an \<^verbatim>\<open>int\<close>.
\<close>

theorem mdfour_digest:
  assumes "length m < 2 ^ 28"
  shows "mdfour m = digest_ref 64 8 le_length md4_compress md4_iv md4_out m"
  by (rule mdfour_reference [OF assms])

theorem mdfour_digest_witness:
  "mdfour [0x61, 0x62, 0x63] = digest_ref 64 8 le_length md4_compress md4_iv md4_out [0x61, 0x62, 0x63] \<and>
   mdfour (replicate 64 0x61) = digest_ref 64 8 le_length md4_compress md4_iv md4_out (replicate 64 0x61)"
  using mdfour_digest [of "[0x61, 0x62, 0x63]"] mdfour_digest [of "replicate 64 0x61"] by simp

lemma mdfour_abc: "mdfour [0x61, 0x62, 0x63] =
  [0xa4, 0x48, 0x01, 0x7a, 0xaf, 0x21, 0xd8, 0x52, 0x5f, 0xc1, 0x0a, 0xe8, 0x7a, 0xa6, 0x72, 0x9d]"
  by code_simp

end
