(* ===== verification/Md5.thy ===== *)
theory Md5
  imports Digest_Spec
begin

text \<open>
  MD5 (\<^verbatim>\<open>src/src/rahash/md5c.c\<close>, \<^verbatim>\<open>md5.h\<close>). \<^verbatim>\<open>UINT4\<close> is an \<^verbatim>\<open>unsigned long\<close>, whose width depends on the platform; the model has
  it as a parameter, the length \<open>'l\<close> of the words. An input is the list of its \<^verbatim>\<open>inputLen\<close> bytes, fewer than \<open>2 ^ 32\<close>. \<open>None\<close> is a block
  read past the end of the input, which happens when \<^verbatim>\<open>i + 63\<close> wraps.
\<close>

section \<open>Model\<close>

record 'u MD5_CTX =
  md5_state :: "'u list"
  md5_count0 :: 'u
  md5_count1 :: 'u
  md5_buffer :: "u8 list"

definition MD5_PADDING :: "u8 list" where
  "MD5_PADDING = 0x80 # replicate 63 0"

definition md5_F :: "'l::len word \<Rightarrow> 'l word \<Rightarrow> 'l word \<Rightarrow> 'l word" where
  "md5_F x y z = (x AND y) OR (NOT x AND z)"

definition md5_G :: "'l::len word \<Rightarrow> 'l word \<Rightarrow> 'l word \<Rightarrow> 'l word" where
  "md5_G x y z = (x AND z) OR (y AND NOT z)"

definition md5_H :: "'l::len word \<Rightarrow> 'l word \<Rightarrow> 'l word \<Rightarrow> 'l word" where
  "md5_H x y z = x XOR y XOR z"

definition md5_I :: "'l::len word \<Rightarrow> 'l word \<Rightarrow> 'l word \<Rightarrow> 'l word" where
  "md5_I x y z = y XOR (x OR NOT z)"

definition ROTATE_LEFT :: "'l::len word \<Rightarrow> nat \<Rightarrow> 'l word" where
  "ROTATE_LEFT x n = push_bit n x OR drop_bit (32 - n) x"

text \<open>
  One of the macros \<^verbatim>\<open>FF\<close>, \<^verbatim>\<open>GG\<close>, \<^verbatim>\<open>HH\<close>, \<^verbatim>\<open>II\<close> applied to the registers with the given numbers, 0 for \<^verbatim>\<open>a\<close> to 3 for \<^verbatim>\<open>d\<close>,
  the word \<open>x[k]\<close>, the shift and the constant; and the 64 applications in the order of \<^verbatim>\<open>MD5Transform\<close>.
\<close>

type_synonym 'l md5_row = "(nat \<times> nat \<times> nat \<times> nat) \<times> nat \<times> nat \<times> 'l word"

definition md5_apply ::
  "('l word \<Rightarrow> 'l word \<Rightarrow> 'l word \<Rightarrow> 'l word) \<Rightarrow> 'l word list \<Rightarrow> ('l::len) md5_row \<Rightarrow> 'l word list \<Rightarrow> 'l word list" where
  "md5_apply f x row reg =
     (case row of ((a, b, c, d), k, s, ac) \<Rightarrow>
        reg[a := ROTATE_LEFT (reg ! a + (f (reg ! b) (reg ! c) (reg ! d) + x ! k + ac)) s + reg ! b])"

definition md5_round1 :: "('l::len) md5_row list" where
  "md5_round1 =
   [((0, 1, 2, 3), 0, 7, 0xd76aa478), ((3, 0, 1, 2), 1, 12, 0xe8c7b756), ((2, 3, 0, 1), 2, 17, 0x242070db), ((1, 2, 3, 0), 3, 22, 0xc1bdceee),
    ((0, 1, 2, 3), 4, 7, 0xf57c0faf), ((3, 0, 1, 2), 5, 12, 0x4787c62a), ((2, 3, 0, 1), 6, 17, 0xa8304613), ((1, 2, 3, 0), 7, 22, 0xfd469501),
    ((0, 1, 2, 3), 8, 7, 0x698098d8), ((3, 0, 1, 2), 9, 12, 0x8b44f7af), ((2, 3, 0, 1), 10, 17, 0xffff5bb1), ((1, 2, 3, 0), 11, 22, 0x895cd7be),
    ((0, 1, 2, 3), 12, 7, 0x6b901122), ((3, 0, 1, 2), 13, 12, 0xfd987193), ((2, 3, 0, 1), 14, 17, 0xa679438e), ((1, 2, 3, 0), 15, 22, 0x49b40821)]"

definition md5_round2 :: "('l::len) md5_row list" where
  "md5_round2 =
   [((0, 1, 2, 3), 1, 5, 0xf61e2562), ((3, 0, 1, 2), 6, 9, 0xc040b340), ((2, 3, 0, 1), 11, 14, 0x265e5a51), ((1, 2, 3, 0), 0, 20, 0xe9b6c7aa),
    ((0, 1, 2, 3), 5, 5, 0xd62f105d), ((3, 0, 1, 2), 10, 9, 0x2441453), ((2, 3, 0, 1), 15, 14, 0xd8a1e681), ((1, 2, 3, 0), 4, 20, 0xe7d3fbc8),
    ((0, 1, 2, 3), 9, 5, 0x21e1cde6), ((3, 0, 1, 2), 14, 9, 0xc33707d6), ((2, 3, 0, 1), 3, 14, 0xf4d50d87), ((1, 2, 3, 0), 8, 20, 0x455a14ed),
    ((0, 1, 2, 3), 13, 5, 0xa9e3e905), ((3, 0, 1, 2), 2, 9, 0xfcefa3f8), ((2, 3, 0, 1), 7, 14, 0x676f02d9), ((1, 2, 3, 0), 12, 20, 0x8d2a4c8a)]"

definition md5_round3 :: "('l::len) md5_row list" where
  "md5_round3 =
   [((0, 1, 2, 3), 5, 4, 0xfffa3942), ((3, 0, 1, 2), 8, 11, 0x8771f681), ((2, 3, 0, 1), 11, 16, 0x6d9d6122), ((1, 2, 3, 0), 14, 23, 0xfde5380c),
    ((0, 1, 2, 3), 1, 4, 0xa4beea44), ((3, 0, 1, 2), 4, 11, 0x4bdecfa9), ((2, 3, 0, 1), 7, 16, 0xf6bb4b60), ((1, 2, 3, 0), 10, 23, 0xbebfbc70),
    ((0, 1, 2, 3), 13, 4, 0x289b7ec6), ((3, 0, 1, 2), 0, 11, 0xeaa127fa), ((2, 3, 0, 1), 3, 16, 0xd4ef3085), ((1, 2, 3, 0), 6, 23, 0x4881d05),
    ((0, 1, 2, 3), 9, 4, 0xd9d4d039), ((3, 0, 1, 2), 12, 11, 0xe6db99e5), ((2, 3, 0, 1), 15, 16, 0x1fa27cf8), ((1, 2, 3, 0), 2, 23, 0xc4ac5665)]"

definition md5_round4 :: "('l::len) md5_row list" where
  "md5_round4 =
   [((0, 1, 2, 3), 0, 6, 0xf4292244), ((3, 0, 1, 2), 7, 10, 0x432aff97), ((2, 3, 0, 1), 14, 15, 0xab9423a7), ((1, 2, 3, 0), 5, 21, 0xfc93a039),
    ((0, 1, 2, 3), 12, 6, 0x655b59c3), ((3, 0, 1, 2), 3, 10, 0x8f0ccc92), ((2, 3, 0, 1), 10, 15, 0xffeff47d), ((1, 2, 3, 0), 1, 21, 0x85845dd1),
    ((0, 1, 2, 3), 8, 6, 0x6fa87e4f), ((3, 0, 1, 2), 15, 10, 0xfe2ce6e0), ((2, 3, 0, 1), 6, 15, 0xa3014314), ((1, 2, 3, 0), 13, 21, 0x4e0811a1),
    ((0, 1, 2, 3), 4, 6, 0xf7537e82), ((3, 0, 1, 2), 11, 10, 0xbd3af235), ((2, 3, 0, 1), 2, 15, 0x2ad7d2bb), ((1, 2, 3, 0), 9, 21, 0xeb86d391)]"

definition md5_Decode :: "u8 list \<Rightarrow> ('l::len) word list" where
  "md5_Decode input = map (\<lambda>i. ucast (input ! (4 * i)) OR push_bit 8 (ucast (input ! (4 * i + 1))) OR
     push_bit 16 (ucast (input ! (4 * i + 2))) OR push_bit 24 (ucast (input ! (4 * i + 3)))) [0..<length input div 4]"

definition md5_Encode :: "('l::len) word list \<Rightarrow> u8 list" where
  "md5_Encode input = concat (map (\<lambda>w. [ucast (w AND 0xff), ucast (drop_bit 8 w AND 0xff), ucast (drop_bit 16 w AND 0xff),
     ucast (drop_bit 24 w AND 0xff)]) input)"

definition MD5Transform :: "('l::len) word list \<Rightarrow> u8 list \<Rightarrow> 'l word list" where
  "MD5Transform st block =
     (let x = md5_Decode block;
          r1 = fold (md5_apply md5_F x) md5_round1 st;
          r2 = fold (md5_apply md5_G x) md5_round2 r1;
          r3 = fold (md5_apply md5_H x) md5_round3 r2;
          r4 = fold (md5_apply md5_I x) md5_round4 r3
      in map2 (+) st r4)"

definition MD5Init :: "u8 list \<Rightarrow> ('l::len) word MD5_CTX" where
  "MD5Init junk = \<lparr>md5_state = [0x67452301, 0xefcdab89, 0x98badcfe, 0x10325476], md5_count0 = 0, md5_count1 = 0, md5_buffer = junk\<rparr>"

definition md5_index :: "('l::len) word \<Rightarrow> nat" where
  "md5_index count0 = unat (drop_bit 3 count0 AND 0x3f)"

text \<open>The loop of \<^verbatim>\<open>MD5Update\<close> over the whole blocks of the input, with the \<^verbatim>\<open>unsigned int\<close> test, and the index behind it.\<close>

function md5_blocks :: "u8 list \<Rightarrow> nat \<Rightarrow> ('l::len) word list \<Rightarrow> ('l word list \<times> nat) option" where
  "md5_blocks input i st =
     (if (word_of_nat i + 63 :: ut32) < word_of_nat (length input) then
        (if i + 64 \<le> length input then md5_blocks input (i + 64) (MD5Transform st (take 64 (drop i input))) else None)
      else Some (st, i))"
  by pat_completeness auto
termination by (relation "measure (\<lambda>(input, i, st). length input - i)") auto

declare md5_blocks.simps [simp del]

definition MD5Update :: "u8 list \<Rightarrow> ('l::len) word MD5_CTX \<Rightarrow> 'l word MD5_CTX option" where
  "MD5Update input ctx =
     (let inputLen = word_of_nat (length input) :: 'l word;
          index = md5_index (md5_count0 ctx);
          c0 = md5_count0 ctx + push_bit 3 inputLen;
          c1 = (if c0 < push_bit 3 inputLen then md5_count1 ctx + 1 else md5_count1 ctx) + drop_bit 29 inputLen;
          ctx1 = ctx\<lparr>md5_count0 := c0, md5_count1 := c1\<rparr>;
          partLen = 64 - index
      in if length input \<ge> partLen then
           (let buf = put_at (md5_buffer ctx) index (take partLen input) in
            case md5_blocks input partLen (MD5Transform (md5_state ctx) buf) of
              None \<Rightarrow> None
            | Some (st, i) \<Rightarrow> Some (ctx1\<lparr>md5_state := st, md5_buffer := put_at buf 0 (drop i input)\<rparr>))
         else Some (ctx1\<lparr>md5_buffer := put_at (md5_buffer ctx) index input\<rparr>))"

definition md5_cleared :: "('l::len) word MD5_CTX" where
  "md5_cleared = \<lparr>md5_state = replicate 4 0, md5_count0 = 0, md5_count1 = 0, md5_buffer = replicate 64 0\<rparr>"

definition MD5Final :: "('l::len) word MD5_CTX \<Rightarrow> (u8 list \<times> 'l word MD5_CTX) option" where
  "MD5Final ctx =
     (let bits = md5_Encode [md5_count0 ctx, md5_count1 ctx];
          index = md5_index (md5_count0 ctx);
          padLen = (if index < 56 then 56 - index else 120 - index)
      in case Option.bind (MD5Update (take padLen MD5_PADDING) ctx) (MD5Update bits) of
           None \<Rightarrow> None
         | Some ctx1 \<Rightarrow> Some (md5_Encode (md5_state ctx1), md5_cleared))"

section \<open>The compression function\<close>

text \<open>
  The description of RFC 1321, apart from the model: its four functions of three words, its table \<open>T\<close>, whose entry \<open>i\<close> is the integer part of
  4294967296 times the absolute value of the sine of \<open>i + 1\<close>, its initial words, and 64 steps on four registers that are rotated.
\<close>

definition rfc1321_F :: "ut32 \<Rightarrow> ut32 \<Rightarrow> ut32 \<Rightarrow> ut32" where
  "rfc1321_F x y z = (x AND y) OR (NOT x AND z)"

definition rfc1321_G :: "ut32 \<Rightarrow> ut32 \<Rightarrow> ut32 \<Rightarrow> ut32" where
  "rfc1321_G x y z = (x AND z) OR (y AND NOT z)"

definition rfc1321_H :: "ut32 \<Rightarrow> ut32 \<Rightarrow> ut32 \<Rightarrow> ut32" where
  "rfc1321_H x y z = x XOR y XOR z"

definition rfc1321_I :: "ut32 \<Rightarrow> ut32 \<Rightarrow> ut32 \<Rightarrow> ut32" where
  "rfc1321_I x y z = y XOR (x OR NOT z)"

lemmas rfc1321_functions = rfc1321_F_def rfc1321_G_def rfc1321_H_def rfc1321_I_def

lemma rfc1321_bits:
  assumes "n < 32"
  shows "bit (rfc1321_F x y z) n = (if bit x n then bit y n else bit z n)"
    "bit (rfc1321_G x y z) n = (if bit z n then bit x n else bit y n)"
    "bit (rfc1321_H x y z) n = (bit x n \<noteq> (bit y n \<noteq> bit z n))"
    "bit (rfc1321_I x y z) n = (bit y n \<noteq> (bit x n \<or> \<not> bit z n))"
  using assms by (auto simp: rfc1321_functions bit_simps)

definition rfc1321_T :: "ut32 list" where
  "rfc1321_T =
   [0xd76aa478, 0xe8c7b756, 0x242070db, 0xc1bdceee, 0xf57c0faf, 0x4787c62a, 0xa8304613, 0xfd469501,
    0x698098d8, 0x8b44f7af, 0xffff5bb1, 0x895cd7be, 0x6b901122, 0xfd987193, 0xa679438e, 0x49b40821,
    0xf61e2562, 0xc040b340, 0x265e5a51, 0xe9b6c7aa, 0xd62f105d, 0x02441453, 0xd8a1e681, 0xe7d3fbc8,
    0x21e1cde6, 0xc33707d6, 0xf4d50d87, 0x455a14ed, 0xa9e3e905, 0xfcefa3f8, 0x676f02d9, 0x8d2a4c8a,
    0xfffa3942, 0x8771f681, 0x6d9d6122, 0xfde5380c, 0xa4beea44, 0x4bdecfa9, 0xf6bb4b60, 0xbebfbc70,
    0x289b7ec6, 0xeaa127fa, 0xd4ef3085, 0x04881d05, 0xd9d4d039, 0xe6db99e5, 0x1fa27cf8, 0xc4ac5665,
    0xf4292244, 0x432aff97, 0xab9423a7, 0xfc93a039, 0x655b59c3, 0x8f0ccc92, 0xffeff47d, 0x85845dd1,
    0x6fa87e4f, 0xfe2ce6e0, 0xa3014314, 0x4e0811a1, 0xf7537e82, 0xbd3af235, 0x2ad7d2bb, 0xeb86d391]"

definition rfc1321_iv :: "ut32 list" where
  "rfc1321_iv = [0x67452301, 0xefcdab89, 0x98badcfe, 0x10325476]"

definition rfc1321_out :: "ut32 list \<Rightarrow> u8 list" where
  "rfc1321_out st = concat (map (bytes_le 4) st)"

definition md5_k :: "nat \<Rightarrow> nat" where
  "md5_k i = (if i < 16 then i else if i < 32 then (5 * i + 1) mod 16 else if i < 48 then (3 * i + 5) mod 16 else (7 * i) mod 16)"

definition md5_s :: "nat \<Rightarrow> nat" where
  "md5_s i = [[7, 12, 17, 22], [5, 9, 14, 20], [4, 11, 16, 23], [6, 10, 15, 21]] ! (i div 16) ! (i mod 4)"

definition md5_fn :: "nat \<Rightarrow> ut32 \<Rightarrow> ut32 \<Rightarrow> ut32 \<Rightarrow> ut32" where
  "md5_fn i = (if i < 16 then rfc1321_F else if i < 32 then rfc1321_G else if i < 48 then rfc1321_H else rfc1321_I)"

definition md5_step :: "ut32 list \<Rightarrow> nat \<Rightarrow> ut32 \<times> ut32 \<times> ut32 \<times> ut32 \<Rightarrow> ut32 \<times> ut32 \<times> ut32 \<times> ut32" where
  "md5_step x i st = (case st of (a, b, c, d) \<Rightarrow>
     (d, b + word_rotl (md5_s i) (a + md5_fn i b c d + x ! md5_k i + rfc1321_T ! i), b, c))"

definition md5_compress :: "ut32 list \<Rightarrow> u8 list \<Rightarrow> ut32 list" where
  "md5_compress st block =
     (case fold (md5_step (le_words block)) [0..<64] (st ! 0, st ! 1, st ! 2, st ! 3) of
        (a, b, c, d) \<Rightarrow> [st ! 0 + a, st ! 1 + b, st ! 2 + c, st ! 3 + d])"

definition md5_rows :: "nat \<Rightarrow> nat \<Rightarrow> 32 md5_row list" where
  "md5_rows lo hi = map (\<lambda>i. (quad_regs i, md5_k i, md5_s i, rfc1321_T ! i)) [lo..<hi]"

lemma md5_functions: "md5_F = rfc1321_F" "md5_G = rfc1321_G" "md5_H = rfc1321_H" "md5_I = rfc1321_I"
  by (simp_all add: fun_eq_iff rfc1321_functions md5_F_def md5_G_def md5_H_def md5_I_def)

lemma md5_Decode_words: "length b = 64 \<Longrightarrow> md5_Decode b = le_words b"
  by (simp add: md5_Decode_def le_words_def)

lemmas md5_tables = md5_round1_def md5_round2_def md5_round3_def md5_round4_def

lemma md5_rounds:
  "md5_round1 = md5_rows 0 16" "md5_round2 = md5_rows 16 32" "md5_round3 = md5_rows 32 48" "md5_round4 = md5_rows 48 64"
  by (simp_all add: md5_tables md5_rows_def rfc1321_T_def md5_k_def md5_s_def quad_regs_def upt_conv_Cons)

lemma ROTATE_LEFT_rotl: "n < 32 \<Longrightarrow> ROTATE_LEFT (x :: ut32) n = word_rotl n x"
  using rotl_shifts [of n x] by (simp add: ROTATE_LEFT_def)

lemma md5_s_bound: "i < 64 \<Longrightarrow> md5_s i < 32"
proof -
  assume "i < 64"
  moreover have "\<forall>i \<in> set [0..<64]. md5_s i < 32" by (simp add: md5_s_def upt_conv_Cons)
  ultimately show ?thesis by simp
qed

lemma md5_apply_step:
  assumes "quad_rel i reg st" and "i < 64"
  shows "quad_rel (Suc i) (md5_apply (md5_fn i) x (quad_regs i, md5_k i, md5_s i, rfc1321_T ! i) reg) (md5_step x i st)"
proof -
  obtain p q r t a b c d where st: "st = (p, q, r, t)" and regs: "quad_regs i = (a, b, c, d)" by (metis surj_pair)
  note n = quad_rel_nth [OF assms(1) [unfolded st] regs]
  show ?thesis unfolding st using quad_rel_step [OF assms(1) [unfolded st] regs] assms(2)
    by (simp add: md5_apply_def md5_step_def regs n ROTATE_LEFT_rotl md5_s_bound ac_simps)
qed

lemma md5_fold_step:
  assumes "quad_rel lo reg st" and "lo \<le> hi" and "hi \<le> 64" and "\<And>i. lo \<le> i \<Longrightarrow> i < hi \<Longrightarrow> f = md5_fn i"
  shows "quad_rel hi (fold (md5_apply f x) (md5_rows lo hi) reg) (fold (md5_step x) [lo..<hi] st)"
  using assms(2,3,4)
proof (induction hi rule: dec_induct)
  case base
  then show ?case using assms(1) by (simp add: md5_rows_def)
next
  case (step hi)
  then have "quad_rel hi (fold (md5_apply f x) (md5_rows lo hi) reg) (fold (md5_step x) [lo..<hi] st)" by simp
  then have "quad_rel (Suc hi) (md5_apply (md5_fn hi) x (quad_regs hi, md5_k hi, md5_s hi, rfc1321_T ! hi)
      (fold (md5_apply f x) (md5_rows lo hi) reg)) (md5_step x hi (fold (md5_step x) [lo..<hi] st))"
    using step by (intro md5_apply_step) auto
  moreover have "f = md5_fn hi" using step by simp
  ultimately show ?case using step by (simp add: md5_rows_def)
qed

lemma md5_upt: "[0..<64] = [0..<16] @ [16..<32] @ [32..<48] @ [48..<64]"
  using upt_add_eq_append [of 0 16 48] upt_add_eq_append [of 16 32 32] upt_add_eq_append [of 32 48 16] by simp

lemma MD5Transform_compress:
  assumes "length st = 4" and "length block = 64"
  shows "MD5Transform st block = md5_compress st block"
proof -
  let ?x = "le_words block" let ?st = "(st ! 0, st ! 1, st ! 2, st ! 3)"
  have "quad_rel 0 st ?st" by (rule quad_rel_init [OF assms(1)])
  then have "quad_rel 16 (fold (md5_apply md5_F ?x) md5_round1 st) (fold (md5_step ?x) [0..<16] ?st)"
    unfolding md5_rounds by (rule md5_fold_step) (simp_all add: md5_fn_def md5_functions)
  then have "quad_rel 32 (fold (md5_apply md5_G ?x) md5_round2 (fold (md5_apply md5_F ?x) md5_round1 st))
      (fold (md5_step ?x) [16..<32] (fold (md5_step ?x) [0..<16] ?st))"
    unfolding md5_rounds by (rule md5_fold_step) (simp_all add: md5_fn_def md5_functions)
  then have "quad_rel 48 (fold (md5_apply md5_H ?x) md5_round3 (fold (md5_apply md5_G ?x) md5_round2 (fold (md5_apply md5_F ?x) md5_round1 st)))
      (fold (md5_step ?x) [32..<48] (fold (md5_step ?x) [16..<32] (fold (md5_step ?x) [0..<16] ?st)))"
    unfolding md5_rounds by (rule md5_fold_step) (simp_all add: md5_fn_def md5_functions)
  then have "quad_rel 64 (fold (md5_apply md5_I ?x) md5_round4 (fold (md5_apply md5_H ?x) md5_round3
        (fold (md5_apply md5_G ?x) md5_round2 (fold (md5_apply md5_F ?x) md5_round1 st))))
      (fold (md5_step ?x) [48..<64] (fold (md5_step ?x) [32..<48] (fold (md5_step ?x) [16..<32] (fold (md5_step ?x) [0..<16] ?st))))"
    unfolding md5_rounds by (rule md5_fold_step) (simp_all add: md5_fn_def md5_functions)
  from quad_rel_end [OF this _ assms(1)] show ?thesis
    by (simp only: MD5Transform_def md5_Decode_words [OF assms(2)] md5_compress_def md5_upt Let_def fold_append comp_apply) simp
qed

lemma length_md5_compress [simp]: "length (md5_compress st block) = 4"
  by (simp add: md5_compress_def split: prod.split)

section \<open>Messages in pieces\<close>

text \<open>The context after a message, for words of 32 bits: the counters hold the number of bits.\<close>

definition md5_rep :: "ut32 MD5_CTX \<Rightarrow> u8 list \<Rightarrow> bool" where
  "md5_rep ctx m \<longleftrightarrow> buffered 64 MD5Transform rfc1321_iv (md5_state ctx) (md5_buffer ctx) m \<and>
     md5_count0 ctx = word_of_nat (8 * length m) \<and> md5_count1 ctx = word_of_nat (8 * length m div 2 ^ 32)"

lemma md5_index_count: "md5_index (word_of_nat (8 * n) :: ut32) = n mod 64"
proof -
  have "drop_bit 3 (word_of_nat (8 * n) :: ut32) AND 0x3f = take_bit 6 (drop_bit 3 (word_of_nat (8 * n) :: ut32))"
    by (simp add: take_bit_eq_mask mask_eq_exp_minus_1)
  also have "unat \<dots> = (8 * n) mod 2 ^ 32 div 8 mod 64"
    by (simp only: unsigned_take_bit_eq unsigned_drop_bit_eq unsigned_of_nat) (simp add: take_bit_eq_mod drop_bit_eq_div)
  also have "\<dots> = n mod 64" by (simp add: mod_mult_mult1 [of 8 n "2 ^ 29", simplified] mod_mod_cancel)
  finally show ?thesis by (simp add: md5_index_def)
qed

lemma md5_counters:
  assumes "n < 2 ^ 32"
  shows "(if word_of_nat (8 * L) + push_bit 3 (word_of_nat n) < (push_bit 3 (word_of_nat n) :: ut32)
          then word_of_nat (8 * L div 2 ^ 32) + 1 else word_of_nat (8 * L div 2 ^ 32)) + drop_bit 29 (word_of_nat n)
       = (word_of_nat (8 * (L + n) div 2 ^ 32) :: ut32)"
proof -
  have p: "push_bit 3 (word_of_nat n) = (word_of_nat (8 * n) :: ut32)" by (simp add: push_bit_eq_mult)
  have d: "drop_bit 29 (word_of_nat n) = (word_of_nat (8 * n div 2 ^ 32) :: ut32)"
    using assms by (intro word_unat_eq_iff [THEN iffD2], simp only: unsigned_drop_bit_eq unsigned_of_nat)
      (simp add: take_bit_eq_mod drop_bit_eq_div)
  have "8 * (L + n) div 2 ^ 32 = 8 * L div 2 ^ 32 + 8 * n div 2 ^ 32 + (if 2 ^ 32 \<le> 8 * L mod 2 ^ 32 + 8 * n mod 2 ^ 32 then 1 else 0 :: nat)"
    using div_add_carry [of "2 ^ 32" "8 * L" "8 * n"] by (simp add: distrib_left)
  moreover have "(word_of_nat (8 * L) + word_of_nat (8 * n) < (word_of_nat (8 * n) :: ut32)) \<longleftrightarrow> 2 ^ 32 \<le> 8 * L mod 2 ^ 32 + 8 * n mod 2 ^ 32"
    using word_of_nat_carry [of "8 * L" "8 * n", where 'l = 32] by (simp only: of_nat_add len_of_numeral_defs) simp
  ultimately show ?thesis unfolding p d by (simp only: of_nat_add) (simp add: ac_simps)
qed

lemma md5_blocks_absorb:
  assumes "length input < 2 ^ 32 - 63" and "i \<le> length input"
  shows "\<exists>k. md5_blocks input i st = Some (fst (absorb 64 MD5Transform st (drop i input)), k) \<and>
    drop k input = snd (absorb 64 MD5Transform st (drop i input))"
  using assms
proof (induction input i st rule: md5_blocks.induct)
  case (1 input i st)
  have test: "(word_of_nat i + 63 :: ut32) < word_of_nat (length input) \<longleftrightarrow> i + 63 < length input"
  proof -
    have "unat (word_of_nat (i + 63) :: ut32) = i + 63" "unat (word_of_nat (length input) :: ut32) = length input"
      using 1(2,3) by (simp_all only: unsigned_of_nat) (simp_all add: take_bit_nat_eq_self)
    moreover have "(word_of_nat i + 63 :: ut32) = word_of_nat (i + 63)" by (simp only: of_nat_add of_nat_numeral)
    ultimately show ?thesis by (simp only: word_less_nat_alt)
  qed
  show ?case
  proof (cases "i + 63 < length input")
    case True
    have len: "i + 64 \<le> length input" using True by simp
    have b: "md5_blocks input i st = md5_blocks input (i + 64) (MD5Transform st (take 64 (drop i input)))"
      using test len True by (subst md5_blocks.simps) simp
    have "absorb 64 MD5Transform st (drop i input) = absorb 64 MD5Transform (MD5Transform st (take 64 (drop i input))) (drop (i + 64) input)"
    proof -
      have "\<not> length (drop i input) < 64" using len by simp
      then show ?thesis using absorb.simps [of 64 MD5Transform st "drop i input"] by (simp add: add.commute)
    qed
    then show ?thesis unfolding b using 1(1) [OF test [THEN iffD2, OF True] len 1(2) len] by simp
  next
    case False
    then have "md5_blocks input i st = Some (st, i)" using test by (subst md5_blocks.simps) simp
    then show ?thesis using absorb_short [of "drop i input" 64 MD5Transform st] False by simp
  qed
qed

lemma md5_rep_update:
  assumes "md5_rep ctx m" and "length xs < 2 ^ 32 - 63"
  shows "\<exists>ctx'. MD5Update xs ctx = Some ctx' \<and> md5_rep ctx' (m @ xs)"
proof -
  let ?i = "length m mod 64"
  have i: "md5_index (md5_count0 ctx) = ?i" and b: "buffered 64 MD5Transform rfc1321_iv (md5_state ctx) (md5_buffer ctx) m"
    using assms(1) md5_index_count [of "length m"] unfolding md5_rep_def by simp_all
  have "word_of_nat (8 * length m) + push_bit 3 (word_of_nat (length xs)) = (word_of_nat (8 * length (m @ xs)) :: ut32)"
    by (simp add: push_bit_eq_mult distrib_left)
  then have c0: "md5_count0 ctx + push_bit 3 (word_of_nat (length xs)) = word_of_nat (8 * length (m @ xs))"
    using assms(1) unfolding md5_rep_def by simp
  have n: "length xs < 2 ^ 32" using assms(2) by simp
  have c1: "(if word_of_nat (8 * length (m @ xs)) < (push_bit 3 (word_of_nat (length xs)) :: ut32) then md5_count1 ctx + 1 else md5_count1 ctx)
      + drop_bit 29 (word_of_nat (length xs)) = word_of_nat (8 * length (m @ xs) div 2 ^ 32)"
    using md5_counters [OF n, of "length m"] assms(1) unfolding md5_rep_def length_append [symmetric] c0 [symmetric] by (simp only:)
  show ?thesis
  proof (cases "64 - ?i \<le> length xs")
    case True
    define s where "s = MD5Transform (md5_state ctx) (put_at (md5_buffer ctx) ?i (take (64 - ?i) xs))"
    obtain k where k: "md5_blocks xs (64 - ?i) s = Some (fst (absorb 64 MD5Transform s (drop (64 - ?i) xs)), k)"
        "drop k xs = snd (absorb 64 MD5Transform s (drop (64 - ?i) xs))"
      using md5_blocks_absorb [OF assms(2) True, of s] by blast
    obtain st rest where a: "absorb 64 MD5Transform s (drop (64 - ?i) xs) = (st, rest)" by fastforce
    show ?thesis using buffered_fill [OF b _ refl True refl a [unfolded s_def]] True k a
      by (simp only: md5_rep_def MD5Update_def Let_def i c0 c1 if_True s_def [symmetric]) simp
  next
    case False
    then show ?thesis using buffered_keep [OF b, of xs] by (simp only: md5_rep_def MD5Update_def Let_def i c0 c1 if_False) simp
  qed
qed

lemma md5_Encode_counters: "md5_Encode [word_of_nat k :: ut32, word_of_nat (k div 2 ^ 32)] = le_length k"
proof -
  have d: "k div 2 ^ 32 = drop_bit 32 k" by (simp add: drop_bit_eq_div)
  have u: "[0..<8] = [0, 1, 2, 3, 4, 5, 6, 7]" by (simp add: upt_conv_Cons)
  show ?thesis unfolding d md5_Encode_def le_length_def bytes_le_def u
    using ucast_byte [of 0 "word_of_nat k :: ut32"] ucast_byte [of 0 "word_of_nat (drop_bit 32 k) :: ut32"]
      byte_of_nat [of 0 k, where 'l = 32] byte_of_nat [of 0 "drop_bit 32 k", where 'l = 32] byte_of_nat [of 0 k, where 'l = 64]
    by (simp add: ucast_byte byte_of_nat)
qed

lemma md5_padding:
  assumes "p = (if length m mod 64 < 56 then 56 - length m mod 64 else 120 - length m mod 64)"
  shows "m @ take p MD5_PADDING @ le_length (8 * length m) = padded 64 8 le_length m" and "p \<le> 64"
proof -
  note z = pad_64 [of "length m mod 64", folded assms]
  show "p \<le> 64" using z(2) by simp
  have "p = Suc (pad_zeros 64 8 (length m))" using z(1) by (simp add: pad_zeros_def)
  then show "m @ take p MD5_PADDING @ le_length (8 * length m) = padded 64 8 le_length m"
    using \<open>p \<le> 64\<close> by (simp add: padded_def MD5_PADDING_def)
qed

lemma md5_Encode_out: "md5_Encode st = rfc1321_out st"
proof -
  have "[ucast (w AND 0xff), ucast (drop_bit 8 w AND 0xff), ucast (drop_bit 16 w AND 0xff), ucast (drop_bit 24 w AND 0xff)] = bytes_le 4 w" for w :: ut32
    using ucast_byte [of 0 w] by (simp add: bytes_le_def ucast_byte upt_conv_Cons)
  then show ?thesis by (simp add: md5_Encode_def rfc1321_out_def)
qed

definition md5_reference :: "u8 list \<Rightarrow> u8 list" where
  "md5_reference = digest_ref 64 8 le_length md5_compress rfc1321_iv rfc1321_out"

lemma md5_rep_final:
  assumes "md5_rep ctx m"
  shows "MD5Final ctx = Some (md5_reference m, md5_cleared)"
proof -
  let ?i = "length m mod 64"
  define p where "p = (if ?i < 56 then 56 - ?i else 120 - ?i)"
  have i: "md5_index (md5_count0 ctx) = ?i" and e: "rfc1321_out [md5_count0 ctx, md5_count1 ctx] = le_length (8 * length m)"
    using assms md5_index_count [of "length m"] md5_Encode_counters [of "8 * length m"] unfolding md5_Encode_out md5_rep_def by simp_all
  have short: "length (take p MD5_PADDING) < 2 ^ 32 - 63" "length (le_length (8 * length m)) < 2 ^ 32 - 63" by (simp_all add: MD5_PADDING_def)
  obtain c1 where c1: "MD5Update (take p MD5_PADDING) ctx = Some c1" "md5_rep c1 (m @ take p MD5_PADDING)"
    using md5_rep_update [OF assms short(1)] by blast
  obtain c2 where c2: "MD5Update (le_length (8 * length m)) c1 = Some c2" "md5_rep c2 (padded 64 8 le_length m)"
    using md5_rep_update [OF c1(2) short(2)] unfolding md5_padding(1) [OF p_def, symmetric] append_assoc by blast
  moreover have "absorb 64 MD5Transform rfc1321_iv xs = absorb 64 md5_compress rfc1321_iv xs" for xs
    by (rule absorb_cong [where P = "\<lambda>st. length st = 4"]) (simp_all add: MD5Transform_compress rfc1321_iv_def)
  ultimately show ?thesis using c1(1)
    unfolding MD5Final_def Let_def md5_Encode_out i e p_def [symmetric] md5_rep_def md5_reference_def digest_ref_def buffered_def by simp
qed

text \<open>A call after a call, as long as each is defined.\<close>

definition md5_then :: "u8 list \<Rightarrow> ('l::len) word MD5_CTX option \<Rightarrow> 'l word MD5_CTX option" where
  "md5_then input c = Option.bind c (MD5Update input)"

definition md5_any :: "(nat \<Rightarrow> u8) \<Rightarrow> u8 list" where
  "md5_any g = map g [0..<64]"

interpretation md5: stream_digest "Some (MD5Init (md5_any g))" md5_then "\<lambda>c. Option.bind c MD5Final"
  "\<lambda>m. Some (md5_reference m, md5_cleared)" "\<lambda>c m. \<exists>ctx. c = Some ctx \<and> md5_rep ctx m" "\<lambda>xs. length xs < 2 ^ 32 - 63" for g
proof
  show "\<exists>ctx. Some (MD5Init (md5_any g)) = Some ctx \<and> md5_rep ctx []"
    using buffered_init [of "md5_any g" 64 MD5Transform rfc1321_iv] by (simp add: md5_rep_def MD5Init_def rfc1321_iv_def md5_any_def)
next
  fix c :: "ut32 MD5_CTX option" and m xs :: "u8 list"
  assume "\<exists>ctx. c = Some ctx \<and> md5_rep ctx m"
  then obtain ctx where c: "c = Some ctx" "md5_rep ctx m" by blast
  then show "Option.bind c MD5Final = Some (md5_reference m, md5_cleared)" by (simp add: md5_rep_final)
  assume "length xs < 2 ^ 32 - 63"
  then show "\<exists>ctx. md5_then xs c = Some ctx \<and> md5_rep ctx (m @ xs)"
    using md5_rep_update [OF c(2)] c(1) by (simp add: md5_then_def)
qed

text \<open>
  C28 With a \<^verbatim>\<open>UINT4\<close> of four bytes, \<^verbatim>\<open>MD5Init\<close>, any number of calls of \<^verbatim>\<open>MD5Update\<close> with fewer than \<open>2 ^ 32 - 63\<close> bytes each, and
  \<^verbatim>\<open>MD5Final\<close> return, read no byte past an input and compute the digest that RFC 1321 describes for the concatenation of the inputs: it does not
  depend on how the message is cut into pieces, on what the buffer held before, or on the wrap-around of the low counter. The context is cleared.
\<close>

theorem md5_pieces:
  assumes "\<forall>xs \<in> set chunks. length xs < 2 ^ 32 - 63"
  shows "Option.bind (fold md5_then chunks (Some (MD5Init (md5_any g) :: ut32 MD5_CTX))) MD5Final =
    Some (digest_ref 64 8 le_length md5_compress rfc1321_iv rfc1321_out (concat chunks), md5_cleared)"
  using md5.pieces [OF assms] by (simp only: md5_reference_def)

theorem md5_pieces_witness:
  "Option.bind (fold md5_then [[0x61], [], [0x62, 0x63]] (Some (MD5Init (md5_any (\<lambda>_. 7)) :: ut32 MD5_CTX))) MD5Final =
    Some (digest_ref 64 8 le_length md5_compress rfc1321_iv rfc1321_out [0x61, 0x62, 0x63], md5_cleared)"
  using md5_pieces [of "[[0x61], [], [0x62, 0x63]]" "\<lambda>_. 7"] by simp

text \<open>The reference gives the digest of \<open>abc\<close> that RFC 1321 lists; with words of eight bytes the code does not compute MD5.\<close>

lemma md5_abc: "digest_ref 64 8 le_length md5_compress rfc1321_iv rfc1321_out [0x61, 0x62, 0x63] =
  [0x90, 0x01, 0x50, 0x98, 0x3c, 0xd2, 0x4f, 0xb0, 0xd6, 0x96, 0x3f, 0x7d, 0x28, 0xe1, 0x7f, 0x72]"
  by code_simp

lemma md5_long_words:
  "map_option fst (MD5Final (MD5Init (replicate 64 0) :: 64 word MD5_CTX)) \<noteq> map_option fst (MD5Final (MD5Init (replicate 64 0) :: 32 word MD5_CTX))"
  by code_simp

end
