(* ===== verification/Sha1.thy ===== *)
theory Sha1
  imports Digest_Spec
begin

text \<open>
  SHA-1 (\<^verbatim>\<open>src/src/rahash/sha1.c\<close>, \<^verbatim>\<open>sha1.h\<close>). The routine takes the message byte by byte; each byte is shifted into a word of \<^verbatim>\<open>W\<close>,
  over what the last block left there. \<^verbatim>\<open>lenW\<close>, an \<^verbatim>\<open>int\<close> between 0 and 64, is a \<open>nat\<close>.
\<close>

section \<open>Model\<close>

record SHA_CTX =
  sha_H :: "ut32 list"
  sha_W :: "ut32 list"
  sha_lenW :: nat
  sha_sizeHi :: ut32
  sha_sizeLo :: ut32

definition sha1_iv :: "ut32 list" where
  "sha1_iv = [0x67452301, 0xefcdab89, 0x98badcfe, 0x10325476, 0xc3d2e1f0]"

definition SHA1_Init :: SHA_CTX where
  "SHA1_Init = \<lparr>sha_H = sha1_iv, sha_W = replicate 80 0, sha_lenW = 0, sha_sizeHi = 0, sha_sizeLo = 0\<rparr>"

definition SHA_ROT :: "ut32 \<Rightarrow> nat \<Rightarrow> ut32" where
  "SHA_ROT x n = push_bit n x OR drop_bit (32 - n) x"

definition sha_expand :: "ut32 list \<Rightarrow> ut32 list" where
  "sha_expand W = fold (\<lambda>t w. w[t := SHA_ROT (w ! (t - 3) XOR w ! (t - 8) XOR w ! (t - 14) XOR w ! (t - 16)) 1]) [16..<80] W"

definition sha_round ::
  "(ut32 \<Rightarrow> ut32 \<Rightarrow> ut32 \<Rightarrow> ut32) \<Rightarrow> ut32 \<Rightarrow> ut32 list \<Rightarrow> nat \<Rightarrow> ut32 \<times> ut32 \<times> ut32 \<times> ut32 \<times> ut32 \<Rightarrow> ut32 \<times> ut32 \<times> ut32 \<times> ut32 \<times> ut32" where
  "sha_round f k W t r = (case r of (A, B, C, D, E) \<Rightarrow>
     (let TEMP = SHA_ROT A 5 + f B C D + E + W ! t + k in (TEMP, A, SHA_ROT B 30, C, D)))"

definition shaHashBlock :: "SHA_CTX \<Rightarrow> SHA_CTX" where
  "shaHashBlock ctx =
     (let W = sha_expand (sha_W ctx);
          H = sha_H ctx;
          r1 = fold (sha_round (\<lambda>B C D. ((C XOR D) AND B) XOR D) 0x5a827999 W) [0..<20] (H ! 0, H ! 1, H ! 2, H ! 3, H ! 4);
          r2 = fold (sha_round (\<lambda>B C D. B XOR C XOR D) 0x6ed9eba1 W) [20..<40] r1;
          r3 = fold (sha_round (\<lambda>B C D. (B AND C) OR (D AND (B OR C))) 0x8f1bbcdc W) [40..<60] r2;
          (A, B, C, D, E) = fold (sha_round (\<lambda>B C D. B XOR C XOR D) 0xca62c1d6 W) [60..<80] r3
      in ctx\<lparr>sha_W := W, sha_H := [H ! 0 + A, H ! 1 + B, H ! 2 + C, H ! 3 + D, H ! 4 + E]\<rparr>)"

definition shift_in :: "u8 \<Rightarrow> ut32 \<Rightarrow> ut32" where
  "shift_in b w = push_bit 8 w OR ucast b"

definition sha_byte :: "u8 \<Rightarrow> SHA_CTX \<Rightarrow> SHA_CTX" where
  "sha_byte b ctx =
     (let i = sha_lenW ctx div 4;
          c1 = ctx\<lparr>sha_W := (sha_W ctx)[i := shift_in b (sha_W ctx ! i)], sha_lenW := sha_lenW ctx + 1\<rparr>;
          c2 = (if sha_lenW c1 mod 64 = 0 then (shaHashBlock c1)\<lparr>sha_lenW := 0\<rparr> else c1);
          lo = sha_sizeLo c2 + 8
      in c2\<lparr>sha_sizeLo := lo, sha_sizeHi := sha_sizeHi c2 + (if lo < 8 then 1 else 0)\<rparr>)"

definition SHA1_Update :: "u8 list \<Rightarrow> SHA_CTX \<Rightarrow> SHA_CTX" where
  "SHA1_Update dataIn ctx = fold sha_byte dataIn ctx"

definition sha_padlen :: "SHA_CTX \<Rightarrow> u8 list" where
  "sha_padlen ctx =
     (let hi = sha_sizeHi ctx; lo = sha_sizeLo ctx
      in [ucast (drop_bit 24 hi AND 255), ucast (drop_bit 16 hi AND 255), ucast (drop_bit 8 hi AND 255), ucast (hi AND 255),
          ucast (drop_bit 24 lo AND 255), ucast (drop_bit 16 lo AND 255), ucast (drop_bit 8 lo AND 255), ucast (lo AND 255)])"

partial_function (option) sha_pad :: "SHA_CTX \<Rightarrow> SHA_CTX option" where
  "sha_pad ctx = (if sha_lenW ctx \<noteq> 56 then sha_pad (SHA1_Update [0] ctx) else Some ctx)"

declare sha_pad.simps [code]

definition sha_out :: "ut32 list \<Rightarrow> u8 list" where
  "sha_out H = fst (fold (\<lambda>i (out, h). (out @ [ucast (drop_bit 24 (h ! (i div 4)))], h[i div 4 := push_bit 8 (h ! (i div 4))])) [0..<20] ([], H))"

definition SHA1_Final :: "SHA_CTX \<Rightarrow> (u8 list \<times> SHA_CTX) option" where
  "SHA1_Final ctx =
     (let padlen = sha_padlen ctx
      in case sha_pad (SHA1_Update [0x80] ctx) of
           None \<Rightarrow> None
         | Some c \<Rightarrow> Some (sha_out (sha_H (SHA1_Update padlen c)), SHA1_Init))"

section \<open>The compression function\<close>

text \<open>The description of FIPS 180-1: the message schedule by recursion, one function and one constant per step.\<close>

definition be_words :: "u8 list \<Rightarrow> ut32 list" where
  "be_words b = map (\<lambda>i. push_bit 24 (ucast (b ! (4 * i))) OR push_bit 16 (ucast (b ! (4 * i + 1))) OR
     push_bit 8 (ucast (b ! (4 * i + 2))) OR ucast (b ! (4 * i + 3))) [0..<length b div 4]"

fun sha1_w :: "ut32 list \<Rightarrow> nat \<Rightarrow> ut32" where
  "sha1_w M t = (if t < 16 then M ! t else
     word_rotl 1 (sha1_w M (t - 3) XOR sha1_w M (t - 8) XOR sha1_w M (t - 14) XOR sha1_w M (t - 16)))"

definition sha1_f :: "nat \<Rightarrow> ut32 \<Rightarrow> ut32 \<Rightarrow> ut32 \<Rightarrow> ut32" where
  "sha1_f t x y z = (if t < 20 then (x AND y) XOR (NOT x AND z) else if t < 40 then x XOR y XOR z
     else if t < 60 then (x AND y) XOR (x AND z) XOR (y AND z) else x XOR y XOR z)"

definition sha1_k :: "nat \<Rightarrow> ut32" where
  "sha1_k t = (if t < 20 then 0x5a827999 else if t < 40 then 0x6ed9eba1 else if t < 60 then 0x8f1bbcdc else 0xca62c1d6)"

definition sha1_step :: "ut32 list \<Rightarrow> nat \<Rightarrow> ut32 \<times> ut32 \<times> ut32 \<times> ut32 \<times> ut32 \<Rightarrow> ut32 \<times> ut32 \<times> ut32 \<times> ut32 \<times> ut32" where
  "sha1_step M t r = (case r of (a, b, c, d, e) \<Rightarrow>
     (word_rotl 5 a + sha1_f t b c d + e + sha1_k t + sha1_w M t, a, word_rotl 30 b, c, d))"

definition sha1_compress :: "ut32 list \<Rightarrow> u8 list \<Rightarrow> ut32 list" where
  "sha1_compress H block =
     (case fold (sha1_step (be_words block)) [0..<80] (H ! 0, H ! 1, H ! 2, H ! 3, H ! 4) of
        (a, b, c, d, e) \<Rightarrow> [H ! 0 + a, H ! 1 + b, H ! 2 + c, H ! 3 + d, H ! 4 + e])"

declare sha1_w.simps [simp del]

lemma sha1_w_low: "t < 16 \<Longrightarrow> sha1_w M t = M ! t"
  by (subst sha1_w.simps) simp

lemma sha1_w_high:
  "16 \<le> t \<Longrightarrow> sha1_w M t = word_rotl 1 (sha1_w M (t - 3) XOR sha1_w M (t - 8) XOR sha1_w M (t - 14) XOR sha1_w M (t - 16))"
  by (subst sha1_w.simps) simp

lemma SHA_ROT_rotl: "n < 32 \<Longrightarrow> SHA_ROT x n = word_rotl n x"
  using rotl_shifts [of n x] by (simp add: SHA_ROT_def)

lemma sha_expand_inv:
  assumes "length W = 80" and "16 \<le> n" and "n \<le> 80"
  defines "w \<equiv> fold (\<lambda>t w. w[t := SHA_ROT (w ! (t - 3) XOR w ! (t - 8) XOR w ! (t - 14) XOR w ! (t - 16)) 1]) [16..<n] W"
  shows "length w = 80 \<and> (\<forall>t < n. w ! t = sha1_w (take 16 W) t)"
  using assms(2,3) unfolding w_def
proof (induction n rule: dec_induct)
  case base
  then show ?case using assms(1) by (simp add: sha1_w_low)
next
  case (step n)
  let ?w = "fold (\<lambda>t w. w[t := SHA_ROT (w ! (t - 3) XOR w ! (t - 8) XOR w ! (t - 14) XOR w ! (t - 16)) 1]) [16..<n] W"
  have n: "16 \<le> n" "n < 80" and w: "length ?w = 80" "\<And>t. t < n \<Longrightarrow> ?w ! t = sha1_w (take 16 W) t" using step by simp_all
  have "?w ! (n - 3) = sha1_w (take 16 W) (n - 3)" "?w ! (n - 8) = sha1_w (take 16 W) (n - 8)"
    "?w ! (n - 14) = sha1_w (take 16 W) (n - 14)" "?w ! (n - 16) = sha1_w (take 16 W) (n - 16)"
    using n(1) by (intro w(2); linarith)+
  then have "SHA_ROT (?w ! (n - 3) XOR ?w ! (n - 8) XOR ?w ! (n - 14) XOR ?w ! (n - 16)) 1 = sha1_w (take 16 W) n"
    by (simp add: sha1_w_high [OF n(1)] SHA_ROT_rotl)
  moreover have "t < Suc n \<Longrightarrow> t = n \<or> t < n" for t by linarith
  ultimately show ?case using n w by (auto simp: upt_Suc_append nth_list_update)
qed

lemma sha_expand_w:
  assumes "length W = 80"
  shows "length (sha_expand W) = 80" "t < 80 \<Longrightarrow> sha_expand W ! t = sha1_w (take 16 W) t"
proof -
  have "length (sha_expand W) = 80 \<and> (\<forall>t < 80. sha_expand W ! t = sha1_w (take 16 W) t)"
    unfolding sha_expand_def by (rule sha_expand_inv [OF assms]) simp_all
  then show "length (sha_expand W) = 80" "t < 80 \<Longrightarrow> sha_expand W ! t = sha1_w (take 16 W) t" by blast+
qed

lemma sha_choose: "((C XOR D) AND B) XOR D = (B AND C) XOR (NOT B AND (D :: ut32))"
  by (rule bit_word_eqI) (auto simp: bit_simps)

lemma sha_majority: "(B AND C) OR (D AND (B OR C)) = (B AND C) XOR (B AND D) XOR (C AND (D :: ut32))"
  by (rule bit_word_eqI) (auto simp: bit_simps)

lemma sha_round_step:
  assumes "t < 80" and "\<And>x y z. f x y z = sha1_f t x y z" and "k = sha1_k t" and "W ! t = sha1_w M t"
  shows "sha_round f k W t r = sha1_step M t r"
  using assms by (simp add: sha_round_def sha1_step_def SHA_ROT_rotl ac_simps split: prod.split)

lemma sha_fold_step:
  assumes "\<And>t. t < 80 \<Longrightarrow> W ! t = sha1_w M t" and "hi \<le> 80"
    and "\<And>t x y z. lo \<le> t \<Longrightarrow> t < hi \<Longrightarrow> f x y z = sha1_f t x y z" and "\<And>t. lo \<le> t \<Longrightarrow> t < hi \<Longrightarrow> k = sha1_k t"
  shows "fold (sha_round f k W) [lo..<hi] r = fold (sha1_step M) [lo..<hi] r"
proof (rule fold_cong [OF refl refl])
  fix t assume "t \<in> set [lo..<hi]"
  then show "sha_round f k W t = sha1_step M t" using assms by (intro ext sha_round_step) auto
qed

lemma sha1_upt: "[0..<80] = [0..<20] @ [20..<40] @ [40..<60] @ [60..<80]"
  using upt_add_eq_append [of 0 20 60] upt_add_eq_append [of 20 40 40] upt_add_eq_append [of 40 60 20] by simp

lemma shaHashBlock_compress:
  assumes "length (sha_W ctx) = 80" and "take 16 (sha_W ctx) = be_words block"
  shows "shaHashBlock ctx = ctx\<lparr>sha_W := sha_expand (sha_W ctx), sha_H := sha1_compress (sha_H ctx) block\<rparr>"
proof -
  have w: "t < 80 \<Longrightarrow> sha_expand (sha_W ctx) ! t = sha1_w (be_words block) t" for t
    using sha_expand_w(2) [OF assms(1)] assms(2) by simp
  have "fold (sha_round (\<lambda>B C D. ((C XOR D) AND B) XOR D) 0x5a827999 (sha_expand (sha_W ctx))) [0..<20] r = fold (sha1_step (be_words block)) [0..<20] r"
    "fold (sha_round (\<lambda>B C D. B XOR C XOR D) 0x6ed9eba1 (sha_expand (sha_W ctx))) [20..<40] r = fold (sha1_step (be_words block)) [20..<40] r"
    "fold (sha_round (\<lambda>B C D. (B AND C) OR (D AND (B OR C))) 0x8f1bbcdc (sha_expand (sha_W ctx))) [40..<60] r = fold (sha1_step (be_words block)) [40..<60] r"
    "fold (sha_round (\<lambda>B C D. B XOR C XOR D) 0xca62c1d6 (sha_expand (sha_W ctx))) [60..<80] r = fold (sha1_step (be_words block)) [60..<80] r" for r
    by (rule sha_fold_step [OF w]; simp add: sha1_f_def sha1_k_def sha_choose sha_majority)+
  then show ?thesis
    by (simp only: shaHashBlock_def sha1_compress_def sha1_upt Let_def fold_append comp_apply) (simp split: prod.split)
qed

lemma shaHashBlock_sizes: "sha_sizeLo (shaHashBlock ctx) = sha_sizeLo ctx" "sha_sizeHi (shaHashBlock ctx) = sha_sizeHi ctx"
  by (simp_all add: shaHashBlock_def Let_def split: prod.split)

section \<open>Messages in pieces\<close>

text \<open>The words after some bytes were shifted in, over any contents of the array.\<close>

definition sha_loaded :: "ut32 list \<Rightarrow> u8 list \<Rightarrow> ut32 list" where
  "sha_loaded W r = map (\<lambda>i. fold shift_in (take 4 (drop (4 * i) r)) (W ! i)) [0..<length W]"

lemma sha_loaded_Nil: "sha_loaded W [] = W"
  by (simp add: sha_loaded_def map_nth)

lemma length_sha_loaded [simp]: "length (sha_loaded W r) = length W"
  by (simp add: sha_loaded_def)

lemma sha_loaded_snoc:
  assumes "length r div 4 < length W"
  shows "sha_loaded W (r @ [b]) = (sha_loaded W r)[length r div 4 := shift_in b (sha_loaded W r ! (length r div 4))]"
proof (rule nth_equalityI)
  fix i assume "i < length (sha_loaded W (r @ [b]))"
  then have i: "i < length W" by simp
  consider "i < length r div 4" | "i = length r div 4" | "length r div 4 < i" by linarith
  then show "sha_loaded W (r @ [b]) ! i = (sha_loaded W r)[length r div 4 := shift_in b (sha_loaded W r ! (length r div 4))] ! i"
  proof cases
    case 1
    then have "4 * i + 4 \<le> length r" by linarith
    then show ?thesis using 1 i by (simp add: sha_loaded_def)
  next
    case 2
    then have "length (drop (4 * i) r) < 4" unfolding length_drop by linarith
    moreover have "4 * i \<le> length r" using 2 by linarith
    ultimately show ?thesis using 2 i by (simp add: sha_loaded_def)
  next
    case 3
    then have "length r + 1 \<le> 4 * i" by linarith
    then show ?thesis using 3 i by (simp add: sha_loaded_def)
  qed
qed simp

lemma shift_in_4: "shift_in d (shift_in c (shift_in b (shift_in a w))) =
    push_bit 24 (ucast a) OR push_bit 16 (ucast b) OR push_bit 8 (ucast c) OR ucast d"
  by (rule bit_word_eqI) (auto simp: shift_in_def bit_simps)

lemma take_4_nth:
  assumes "i + 4 \<le> length r"
  shows "take 4 (drop i r) = [r ! i, r ! (i + 1), r ! (i + 2), r ! (i + 3)]"
  using assms by (intro nth_equalityI) (auto simp: less_Suc_eq numeral_eq_Suc)

lemma sha_loaded_block:
  assumes "length r = 64" and "16 \<le> length W"
  shows "take 16 (sha_loaded W r) = be_words r"
proof (rule nth_equalityI)
  fix i assume "i < length (take 16 (sha_loaded W r))"
  then have "i < 16" by simp
  moreover from this have "4 * i + 4 \<le> length r" using assms by simp
  ultimately show "take 16 (sha_loaded W r) ! i = be_words r ! i"
    using assms by (simp add: sha_loaded_def be_words_def take_4_nth shift_in_4)
qed (use assms in \<open>simp add: be_words_def\<close>)

text \<open>The context after a message.\<close>

definition sha_rep :: "SHA_CTX \<Rightarrow> u8 list \<Rightarrow> bool" where
  "sha_rep ctx m \<longleftrightarrow> sha_H ctx = fst (absorb 64 sha1_compress sha1_iv m) \<and> sha_lenW ctx = length m mod 64 \<and>
     (\<exists>W. length W = 80 \<and> sha_W ctx = sha_loaded W (snd (absorb 64 sha1_compress sha1_iv m))) \<and>
     sha_sizeLo ctx = word_of_nat (8 * length m) \<and> sha_sizeHi ctx = word_of_nat (8 * length m div 2 ^ 32)"

lemma sha_sizes:
  "word_of_nat (8 * n) + 8 = (word_of_nat (8 * Suc n) :: ut32)"
  "word_of_nat (8 * n div 2 ^ 32) + (if word_of_nat (8 * Suc n) < (8 :: ut32) then 1 else 0) = (word_of_nat (8 * Suc n div 2 ^ 32) :: ut32)"
proof -
  show "word_of_nat (8 * n) + 8 = (word_of_nat (8 * Suc n) :: ut32)" by simp
  have "8 * Suc n = 8 * n + 8" by simp
  moreover have "(word_of_nat (8 * n + 8) < (8 :: ut32)) \<longleftrightarrow> 2 ^ 32 \<le> 8 * n mod 2 ^ 32 + 8"
    using word_of_nat_carry [of "8 * n" 8, where 'l = 32] by (simp only: of_nat_numeral len_num1 len_bit0 len_bit1) simp
  moreover have "(8 * n + 8) div 2 ^ 32 = 8 * n div 2 ^ 32 + (if 2 ^ 32 \<le> 8 * n mod 2 ^ 32 + 8 then 1 else 0 :: nat)"
    using div_add_carry [of "2 ^ 32" "8 * n" 8] by simp
  ultimately show "word_of_nat (8 * n div 2 ^ 32) + (if word_of_nat (8 * Suc n) < (8 :: ut32) then 1 else 0) = (word_of_nat (8 * Suc n div 2 ^ 32) :: ut32)"
    by (simp only:) simp
qed

lemma sha_rep_byte:
  assumes "sha_rep ctx m"
  shows "sha_rep (sha_byte b ctx) (m @ [b])"
proof -
  define st r where "st = fst (absorb 64 sha1_compress sha1_iv m)" and "r = snd (absorb 64 sha1_compress sha1_iv m)"
  have a: "absorb 64 sha1_compress sha1_iv m = (st, r)" and r: "length r = length m mod 64"
    using absorb_rest [of 64 sha1_compress sha1_iv m] by (simp_all add: st_def r_def)
  from assms obtain W where W: "length W = 80" "sha_W ctx = sha_loaded W r"
    and c: "sha_H ctx = st" "sha_lenW ctx = length r" "sha_sizeLo ctx = word_of_nat (8 * length m)" "sha_sizeHi ctx = word_of_nat (8 * length m div 2 ^ 32)"
    unfolding sha_rep_def a r by auto
  have lt: "length r < 64" using r by simp
  define c1 where "c1 = ctx\<lparr>sha_W := sha_loaded W (r @ [b]), sha_lenW := length r + 1\<rparr>"
  have step: "sha_byte b ctx = (let c2 = (if length r + 1 = 64 then (shaHashBlock c1)\<lparr>sha_lenW := 0\<rparr> else c1)
      in c2\<lparr>sha_sizeLo := word_of_nat (8 * Suc (length m)), sha_sizeHi := word_of_nat (8 * Suc (length m) div 2 ^ 32)\<rparr>)"
  proof -
    have "length r div 4 < 80" using lt by simp
    then have "ctx\<lparr>sha_W := (sha_W ctx)[sha_lenW ctx div 4 := shift_in b (sha_W ctx ! (sha_lenW ctx div 4))], sha_lenW := sha_lenW ctx + 1\<rparr> = c1"
      using W c(2) by (simp add: c1_def sha_loaded_snoc)
    moreover have "sha_lenW c1 mod 64 = 0 \<longleftrightarrow> length r + 1 = 64" using lt by (auto simp: c1_def mod_Suc)
    moreover have "sha_sizeLo c1 = word_of_nat (8 * length m)" "sha_sizeHi c1 = word_of_nat (8 * length m div 2 ^ 32)"
      using c(3,4) unfolding c1_def by simp_all
    moreover have "sha_sizeLo (if p then (shaHashBlock c1)\<lparr>sha_lenW := 0\<rparr> else c1) = sha_sizeLo c1"
      "sha_sizeHi (if p then (shaHashBlock c1)\<lparr>sha_lenW := 0\<rparr> else c1) = sha_sizeHi c1" for p
      by (simp_all add: shaHashBlock_sizes)
    ultimately have "sha_byte b ctx = (let c2 = (if length r + 1 = 64 then (shaHashBlock c1)\<lparr>sha_lenW := 0\<rparr> else c1); lo = word_of_nat (8 * length m) + 8
        in c2\<lparr>sha_sizeLo := lo, sha_sizeHi := word_of_nat (8 * length m div 2 ^ 32) + (if lo < 8 then 1 else 0)\<rparr>)"
      by (simp only: sha_byte_def Let_def)
    then show ?thesis by (simp only: Let_def sha_sizes)
  qed
  show ?thesis
  proof (cases "length r + 1 = 64")
    case True
    have h: "shaHashBlock c1 = c1\<lparr>sha_W := sha_expand (sha_W c1), sha_H := sha1_compress (sha_H c1) (r @ [b])\<rparr>"
      using True W by (intro shaHashBlock_compress) (simp_all add: c1_def sha_loaded_block)
    have "absorb 64 sha1_compress sha1_iv (m @ [b]) = (sha1_compress st (r @ [b]), [])"
      using absorb_fill [OF a, of "[b]"] True by simp
    moreover have "Suc (length m) mod 64 = 0" using True r by (simp add: mod_Suc)
    moreover have "length (sha_expand (sha_loaded W (r @ [b]))) = 80" using W by (simp add: sha_expand_w)
    moreover have "sha_H (shaHashBlock c1) = sha1_compress st (r @ [b])" "sha_W (shaHashBlock c1) = sha_expand (sha_loaded W (r @ [b]))"
      by (simp_all add: h) (simp_all add: c1_def c(1))
    ultimately show ?thesis using True
      by (auto simp: sha_rep_def step Let_def sha_loaded_Nil)
  next
    case False
    have "absorb 64 sha1_compress sha1_iv (m @ [b]) = (st, r @ [b])"
      using absorb_keep [OF a, of "[b]"] False lt by simp
    moreover have "Suc (length m) mod 64 = Suc (length r)" using False r by (simp add: mod_Suc)
    ultimately show ?thesis using False W c
      by (auto simp: sha_rep_def step Let_def c1_def)
  qed
qed

lemma sha_rep_update: "sha_rep ctx m \<Longrightarrow> sha_rep (SHA1_Update xs ctx) (m @ xs)"
proof (induction xs arbitrary: ctx m)
  case (Cons x xs)
  then show ?case using Cons.IH [OF sha_rep_byte [OF Cons.prems]] by (simp add: SHA1_Update_def)
qed (simp add: SHA1_Update_def)

text \<open>The loop that pads with zeros returns.\<close>

lemma sha_pad_count:
  assumes "r < 64" and "Suc z = (120 - r) mod 64"
  shows "z = (120 - Suc r mod 64) mod 64"
proof -
  have "\<forall>r \<in> set [0..<64]. (120 - Suc r mod 64) mod 64 = ((120 - r) mod 64 + 63) mod (64 :: nat)" by code_simp
  then have "(120 - Suc r mod 64) mod 64 = (Suc z + 63) mod 64" using assms by simp
  moreover have "Suc z < 64" using assms(2) by simp
  ultimately show ?thesis by simp
qed

lemma sha_pad_zero:
  assumes "r < 64" and "0 = (120 - r) mod (64 :: nat)"
  shows "r = 56"
proof -
  have "\<forall>r \<in> set [0..<64]. (120 - r) mod 64 = 0 \<longrightarrow> r = (56 :: nat)" by code_simp
  then show ?thesis using assms by simp
qed

lemma sha_pad_returns:
  assumes "sha_rep ctx m" and "z = (120 - length m mod 64) mod 64"
  shows "\<exists>c. sha_pad ctx = Some c \<and> sha_rep c (m @ replicate z 0)"
  using assms
proof (induction z arbitrary: ctx m)
  case 0
  have "length m mod 64 = 56" using 0(2) by (intro sha_pad_zero) simp_all
  then have "sha_pad ctx = Some ctx" using 0(1) by (subst sha_pad.simps) (simp add: sha_rep_def)
  then show ?case using 0(1) by simp
next
  case (Suc z)
  have "z = (120 - length (m @ [0]) mod 64) mod 64"
    using sha_pad_count [of "length m mod 64" z] Suc.prems(2) by (simp add: mod_Suc_eq)
  from Suc.IH [OF sha_rep_update [OF Suc.prems(1), of "[0]"] this] obtain c
    where "sha_pad (SHA1_Update [0] ctx) = Some c" "sha_rep c (m @ replicate (Suc z) 0)" by auto
  moreover have "sha_lenW ctx \<noteq> 56" using Suc.prems by (auto simp: sha_rep_def)
  ultimately show ?case by (subst sha_pad.simps) auto
qed

lemma sha_padlen_length:
  assumes "sha_rep ctx m"
  shows "sha_padlen ctx = be_length (8 * length m)"
proof -
  define k where "k = 8 * length m"
  have c: "sha_sizeLo ctx = word_of_nat k" "sha_sizeHi ctx = word_of_nat (drop_bit 32 k)"
    using assms unfolding sha_rep_def k_def drop_bit_eq_div by blast+
  have u: "[0..<8] = [0, 1, 2, 3, 4, 5, 6, 7]" by (simp add: upt_conv_Cons)
  show ?thesis unfolding sha_padlen_def be_length_def bytes_be_def bytes_le_def u c k_def [symmetric] Let_def
    using ucast_byte [of 0 "word_of_nat k :: ut32"] ucast_byte [of 0 "word_of_nat (drop_bit 32 k) :: ut32"]
      byte_of_nat [of 0 k, where 'l = 32] byte_of_nat [of 0 "drop_bit 32 k", where 'l = 32] byte_of_nat [of 0 k, where 'l = 64]
    by (simp add: ucast_byte byte_of_nat)
qed

text \<open>The digest is the words of the state, the most significant byte first.\<close>

lemma sha_out_bytes:
  assumes "length H = 5"
  shows "sha_out H = concat (map (bytes_be 4) H)"
proof -
  have "ucast (drop_bit 24 (push_bit 8 w)) = (ucast (drop_bit 16 w) :: u8)"
    "ucast (drop_bit 24 (push_bit 8 (push_bit 8 w))) = (ucast (drop_bit 8 w) :: u8)"
    "ucast (drop_bit 24 (push_bit 8 (push_bit 8 (push_bit 8 w)))) = (ucast w :: u8)" for w :: ut32
    by (rule bit_word_eqI, auto simp: bit_simps)+
  moreover obtain a b c d e where "H = [a, b, c, d, e]" using assms by (auto simp: length_Suc_conv numeral_eq_Suc)
  ultimately show ?thesis by (simp add: sha_out_def bytes_be_def bytes_le_def upt_conv_Cons del: push_bit_push_bit)
qed

lemma length_sha1_compress [simp]: "length (sha1_compress H b) = 5"
  by (simp add: sha1_compress_def split: prod.split)

lemma length_sha1_state: "length (fst (absorb 64 sha1_compress sha1_iv m)) = 5"
  by (rule absorb_inv) (simp_all add: sha1_iv_def)

definition sha1_bytes :: "ut32 list \<Rightarrow> u8 list" where
  "sha1_bytes H = concat (map (bytes_be 4) H)"

lemma sha_rep_final:
  assumes "sha_rep ctx m"
  shows "SHA1_Final ctx = Some (digest_ref 64 8 be_length sha1_compress sha1_iv sha1_bytes m, SHA1_Init)"
proof -
  let ?m = "m @ [0x80]" let ?z = "pad_zeros 64 8 (length m)"
  have "sha_rep (SHA1_Update [0x80] ctx) ?m" using sha_rep_update [OF assms] by simp
  moreover have "?z = (120 - length ?m mod 64) mod 64"
  proof -
    have "\<forall>r \<in> set [0..<64]. (119 - r) mod 64 = (120 - Suc r mod 64) mod (64 :: nat)" by code_simp
    then have "(119 - length m mod 64) mod 64 = (120 - Suc (length m mod 64) mod 64) mod 64" by simp
    then show ?thesis by (simp add: pad_zeros_def mod_Suc_eq)
  qed
  ultimately obtain c where c: "sha_pad (SHA1_Update [0x80] ctx) = Some c" "sha_rep c (?m @ replicate ?z 0)"
    using sha_pad_returns by blast
  have "sha_rep (SHA1_Update (sha_padlen ctx) c) (padded 64 8 be_length m)"
    using sha_rep_update [OF c(2), of "sha_padlen ctx"] sha_padlen_length [OF assms] by (simp add: padded_def)
  then show ?thesis
    using c(1) length_sha1_state [of "padded 64 8 be_length m"]
    by (simp add: SHA1_Final_def Let_def digest_ref_def sha_rep_def sha_out_bytes sha1_bytes_def)
qed

interpretation sha1: stream_digest SHA1_Init SHA1_Update "\<lambda>ctx. fst (the (SHA1_Final ctx))"
  "digest_ref 64 8 be_length sha1_compress sha1_iv sha1_bytes" sha_rep "\<lambda>xs. True"
proof
  show "sha_rep SHA1_Init []"
    using sha_loaded_Nil [of "replicate 80 0", symmetric] by (auto simp: sha_rep_def SHA1_Init_def intro!: exI [of _ "replicate 80 0"])
qed (simp_all add: sha_rep_update sha_rep_final)

text \<open>
  C30 The digest that \<^verbatim>\<open>SHA1_Init\<close>, any number of calls of \<^verbatim>\<open>SHA1_Update\<close> and \<^verbatim>\<open>SHA1_Final\<close> compute is the one that FIPS 180-1 describes for
  the concatenation of the inputs, whatever the blocks before left in the words of the context; the loop that pads the message returns, and
  the context is ready for the next message.
\<close>

theorem sha1_pieces:
  "SHA1_Final (fold SHA1_Update chunks SHA1_Init) =
     Some (digest_ref 64 8 be_length sha1_compress sha1_iv sha1_bytes (concat chunks), SHA1_Init)"
  using sha1.rep_updates [OF sha1.rep_init, of chunks] sha_rep_final by simp

end
