(* ===== verification/Sha2.thy ===== *)
theory Sha2
  imports Digest_Spec
begin

text \<open>
  SHA-256, SHA-384 and SHA-512 (\<^verbatim>\<open>src/src/rahash/sha2.c\<close>, \<^verbatim>\<open>sha2.h\<close>), as compiled for a little-endian host without
  \<^verbatim>\<open>SHA2_UNROLL_TRANSFORM\<close>. The code has each routine twice, for words of 32 and of 64 bits, with other functions, constants and
  counters; the model has it once, over a record of what differs. The schedule \<^verbatim>\<open>W256\<close> of a transform lies in the buffer of the context, also
  when the data is that buffer: word \<open>j\<close> is read before it is written, so the data is passed by value, and the buffer holds the
  schedule afterwards.
\<close>

section \<open>Model\<close>

record ('w, 'b) SHA2_CTX =
  sha2_state :: "'w list"
  sha2_bitcount :: 'b
  sha2_buffer :: "u8 list"

type_synonym SHA256_CTX = "(ut32, ut64) SHA2_CTX"
type_synonym SHA512_CTX = "(ut64, ut64 \<times> ut64) SHA2_CTX"

definition REVERSE32 :: "ut32 \<Rightarrow> ut32" where
  "REVERSE32 w = (let tmp = drop_bit 16 w OR push_bit 16 w in drop_bit 8 (tmp AND 0xff00ff00) OR push_bit 8 (tmp AND 0x00ff00ff))"

definition REVERSE64 :: "ut64 \<Rightarrow> ut64" where
  "REVERSE64 w =
     (let tmp = drop_bit 32 w OR push_bit 32 w;
          tmp = drop_bit 8 (tmp AND 0xff00ff00ff00ff00) OR push_bit 8 (tmp AND 0x00ff00ff00ff00ff)
      in drop_bit 16 (tmp AND 0xffff0000ffff0000) OR push_bit 16 (tmp AND 0x0000ffff0000ffff))"

definition ADDINC128 :: "ut64 \<Rightarrow> ut64 \<times> ut64 \<Rightarrow> ut64 \<times> ut64" where
  "ADDINC128 n w = (let w0 = fst w + n in (w0, if w0 < n then snd w + 1 else snd w))"

definition S32 :: "nat \<Rightarrow> ut32 \<Rightarrow> ut32" where
  "S32 b x = drop_bit b x OR push_bit (32 - b) x"

definition S64 :: "nat \<Rightarrow> ut64 \<Rightarrow> ut64" where
  "S64 b x = drop_bit b x OR push_bit (64 - b) x"

definition Ch :: "'l::len word \<Rightarrow> 'l word \<Rightarrow> 'l word \<Rightarrow> 'l word" where
  "Ch x y z = (x AND y) XOR (NOT x AND z)"

definition Maj :: "'l::len word \<Rightarrow> 'l word \<Rightarrow> 'l word \<Rightarrow> 'l word" where
  "Maj x y z = (x AND y) XOR (x AND z) XOR (y AND z)"

definition Sigma0_256 :: "ut32 \<Rightarrow> ut32" where
  "Sigma0_256 x = S32 2 x XOR S32 13 x XOR S32 22 x"

definition Sigma1_256 :: "ut32 \<Rightarrow> ut32" where
  "Sigma1_256 x = S32 6 x XOR S32 11 x XOR S32 25 x"

definition sigma0_256 :: "ut32 \<Rightarrow> ut32" where
  "sigma0_256 x = S32 7 x XOR S32 18 x XOR drop_bit 3 x"

definition sigma1_256 :: "ut32 \<Rightarrow> ut32" where
  "sigma1_256 x = S32 17 x XOR S32 19 x XOR drop_bit 10 x"

definition Sigma0_512 :: "ut64 \<Rightarrow> ut64" where
  "Sigma0_512 x = S64 28 x XOR S64 34 x XOR S64 39 x"

definition Sigma1_512 :: "ut64 \<Rightarrow> ut64" where
  "Sigma1_512 x = S64 14 x XOR S64 18 x XOR S64 41 x"

definition sigma0_512 :: "ut64 \<Rightarrow> ut64" where
  "sigma0_512 x = S64 1 x XOR S64 8 x XOR drop_bit 7 x"

definition sigma1_512 :: "ut64 \<Rightarrow> ut64" where
  "sigma1_512 x = S64 19 x XOR S64 61 x XOR drop_bit 6 x"

text \<open>The constants, in the rows of the source.\<close>

definition K256 :: "ut32 list" where
  "K256 = concat
   [[0x428a2f98, 0x71374491, 0xb5c0fbcf, 0xe9b5dba5], [0x3956c25b, 0x59f111f1, 0x923f82a4, 0xab1c5ed5],
    [0xd807aa98, 0x12835b01, 0x243185be, 0x550c7dc3], [0x72be5d74, 0x80deb1fe, 0x9bdc06a7, 0xc19bf174],
    [0xe49b69c1, 0xefbe4786, 0x0fc19dc6, 0x240ca1cc], [0x2de92c6f, 0x4a7484aa, 0x5cb0a9dc, 0x76f988da],
    [0x983e5152, 0xa831c66d, 0xb00327c8, 0xbf597fc7], [0xc6e00bf3, 0xd5a79147, 0x06ca6351, 0x14292967],
    [0x27b70a85, 0x2e1b2138, 0x4d2c6dfc, 0x53380d13], [0x650a7354, 0x766a0abb, 0x81c2c92e, 0x92722c85],
    [0xa2bfe8a1, 0xa81a664b, 0xc24b8b70, 0xc76c51a3], [0xd192e819, 0xd6990624, 0xf40e3585, 0x106aa070],
    [0x19a4c116, 0x1e376c08, 0x2748774c, 0x34b0bcb5], [0x391c0cb3, 0x4ed8aa4a, 0x5b9cca4f, 0x682e6ff3],
    [0x748f82ee, 0x78a5636f, 0x84c87814, 0x8cc70208], [0x90befffa, 0xa4506ceb, 0xbef9a3f7, 0xc67178f2]]"

definition sha256_initial_hash_value :: "ut32 list" where
  "sha256_initial_hash_value =
   [0x6a09e667, 0xbb67ae85, 0x3c6ef372, 0xa54ff53a, 0x510e527f, 0x9b05688c, 0x1f83d9ab, 0x5be0cd19]"

definition K512 :: "ut64 list" where
  "K512 = concat
   [[0x428a2f98d728ae22, 0x7137449123ef65cd], [0xb5c0fbcfec4d3b2f, 0xe9b5dba58189dbbc],
    [0x3956c25bf348b538, 0x59f111f1b605d019], [0x923f82a4af194f9b, 0xab1c5ed5da6d8118],
    [0xd807aa98a3030242, 0x12835b0145706fbe], [0x243185be4ee4b28c, 0x550c7dc3d5ffb4e2],
    [0x72be5d74f27b896f, 0x80deb1fe3b1696b1], [0x9bdc06a725c71235, 0xc19bf174cf692694],
    [0xe49b69c19ef14ad2, 0xefbe4786384f25e3], [0x0fc19dc68b8cd5b5, 0x240ca1cc77ac9c65],
    [0x2de92c6f592b0275, 0x4a7484aa6ea6e483], [0x5cb0a9dcbd41fbd4, 0x76f988da831153b5],
    [0x983e5152ee66dfab, 0xa831c66d2db43210], [0xb00327c898fb213f, 0xbf597fc7beef0ee4],
    [0xc6e00bf33da88fc2, 0xd5a79147930aa725], [0x06ca6351e003826f, 0x142929670a0e6e70],
    [0x27b70a8546d22ffc, 0x2e1b21385c26c926], [0x4d2c6dfc5ac42aed, 0x53380d139d95b3df],
    [0x650a73548baf63de, 0x766a0abb3c77b2a8], [0x81c2c92e47edaee6, 0x92722c851482353b],
    [0xa2bfe8a14cf10364, 0xa81a664bbc423001], [0xc24b8b70d0f89791, 0xc76c51a30654be30],
    [0xd192e819d6ef5218, 0xd69906245565a910], [0xf40e35855771202a, 0x106aa07032bbd1b8],
    [0x19a4c116b8d2d0c8, 0x1e376c085141ab53], [0x2748774cdf8eeb99, 0x34b0bcb5e19b48a8],
    [0x391c0cb3c5c95a63, 0x4ed8aa4ae3418acb], [0x5b9cca4f7763e373, 0x682e6ff3d6b2b8a3],
    [0x748f82ee5defb2fc, 0x78a5636f43172f60], [0x84c87814a1f0ab72, 0x8cc702081a6439ec],
    [0x90befffa23631e28, 0xa4506cebde82bde9], [0xbef9a3f7b2c67915, 0xc67178f2e372532b],
    [0xca273eceea26619c, 0xd186b8c721c0c207], [0xeada7dd6cde0eb1e, 0xf57d4f7fee6ed178],
    [0x06f067aa72176fba, 0x0a637dc5a2c898a6], [0x113f9804bef90dae, 0x1b710b35131c471b],
    [0x28db77f523047d84, 0x32caab7b40c72493], [0x3c9ebe0a15c9bebc, 0x431d67c49c100d4c],
    [0x4cc5d4becb3e42b6, 0x597f299cfc657e2a], [0x5fcb6fab3ad6faec, 0x6c44198c4a475817]]"

definition sha384_initial_hash_value :: "ut64 list" where
  "sha384_initial_hash_value =
   [0xcbbb9d5dc1059ed8, 0x629a292a367cd507, 0x9159015a3070dd17, 0x152fecd8f70e5939,
    0x67332667ffc00b31, 0x8eb44a8768581511, 0xdb0c2e0d64f98fa7, 0x47b5481dbefa4fa4]"

definition sha512_initial_hash_value :: "ut64 list" where
  "sha512_initial_hash_value =
   [0x6a09e667f3bcc908, 0xbb67ae8584caa73b, 0x3c6ef372fe94f82b, 0xa54ff53a5f1d36f1,
    0x510e527fade682d1, 0x9b05688c2b3e6c1f, 0x1f83d9abfb41bd6b, 0x5be0cd19137e2179]"

text \<open>
  What the two transforms and their callers differ in: the number of bytes of a word, the reversal of bytes, the four functions, the constants and the number of
  rounds; the block has 16 words.
\<close>

record 'w sha2_variant =
  v_bytes :: nat
  v_rev :: "'w \<Rightarrow> 'w"
  v_S0 :: "'w \<Rightarrow> 'w"
  v_S1 :: "'w \<Rightarrow> 'w"
  v_s0 :: "'w \<Rightarrow> 'w"
  v_s1 :: "'w \<Rightarrow> 'w"
  v_K :: "'w list"
  v_rounds :: nat

definition sha256_variant :: "ut32 sha2_variant" where
  "sha256_variant = \<lparr>v_bytes = 4, v_rev = REVERSE32, v_S0 = Sigma0_256, v_S1 = Sigma1_256, v_s0 = sigma0_256, v_s1 = sigma1_256, v_K = K256, v_rounds = 64\<rparr>"

definition sha512_variant :: "ut64 sha2_variant" where
  "sha512_variant = \<lparr>v_bytes = 8, v_rev = REVERSE64, v_S0 = Sigma0_512, v_S1 = Sigma1_512, v_s0 = sigma0_512, v_s1 = sigma1_512, v_K = K512, v_rounds = 80\<rparr>"

definition v_block :: "'w sha2_variant \<Rightarrow> nat" where
  "v_block V = 16 * v_bytes V"

text \<open>Words in the memory of the host, the least significant byte first.\<close>

definition le_word :: "u8 list \<Rightarrow> 'l::len word" where
  "le_word bs = foldr (\<lambda>b w. ucast b OR push_bit 8 w) bs 0"

definition host_words :: "nat \<Rightarrow> u8 list \<Rightarrow> 'l::len word list" where
  "host_words k bs = map (\<lambda>i. le_word (take k (drop (k * i) bs))) [0..<16]"

type_synonym 'w sha2_regs = "'w \<times> 'w \<times> 'w \<times> 'w \<times> 'w \<times> 'w \<times> 'w \<times> 'w"

text \<open>One round: \<^verbatim>\<open>T1\<close>, \<^verbatim>\<open>T2\<close> and the moves of the registers, for the constant \<open>k\<close> and the word \<open>w\<close>.\<close>

definition sha2_round :: "('l::len word) sha2_variant \<Rightarrow> 'l word \<Rightarrow> 'l word \<Rightarrow> 'l word sha2_regs \<Rightarrow> 'l word sha2_regs" where
  "sha2_round V k w r = (case r of (a, b, c, d, e, f, g, h) \<Rightarrow>
     (let T1 = h + v_S1 V e + Ch e f g + k + w; T2 = v_S0 V a + Maj a b c
      in (T1 + T2, a, b, c, d + T1, e, f, g)))"

definition sha2_first ::
  "('l::len word) sha2_variant \<Rightarrow> 'l word list \<Rightarrow> nat \<Rightarrow> 'l word list \<times> 'l word sha2_regs \<Rightarrow> 'l word list \<times> 'l word sha2_regs" where
  "sha2_first V data j s = (case s of (W, r) \<Rightarrow>
     (let W' = W[j := v_rev V (data ! j)] in (W', sha2_round V (v_K V ! j) (W' ! j) r)))"

definition sha2_next ::
  "('l::len word) sha2_variant \<Rightarrow> nat \<Rightarrow> 'l word list \<times> 'l word sha2_regs \<Rightarrow> 'l word list \<times> 'l word sha2_regs" where
  "sha2_next V j s = (case s of (W, r) \<Rightarrow>
     (let s0 = v_s0 V (W ! ((j + 1) mod 16)); s1 = v_s1 V (W ! ((j + 14) mod 16));
          W' = W[j mod 16 := W ! (j mod 16) + (s1 + W ! ((j + 9) mod 16) + s0)]
      in (W', sha2_round V (v_K V ! j) (W' ! (j mod 16)) r)))"

definition SHA2_Transform :: "('l::len word) sha2_variant \<Rightarrow> ('l word, 'b) SHA2_CTX \<Rightarrow> u8 list \<Rightarrow> ('l word, 'b) SHA2_CTX" where
  "SHA2_Transform V ctx data =
     (let H = sha2_state ctx;
          r0 = (H ! 0, H ! 1, H ! 2, H ! 3, H ! 4, H ! 5, H ! 6, H ! 7);
          s1 = fold (sha2_first V (host_words (v_bytes V) data)) [0..<16] (host_words (v_bytes V) (sha2_buffer ctx), r0);
          (W, a, b, c, d, e, f, g, h) = fold (sha2_next V) [16..<v_rounds V] s1
      in ctx\<lparr>sha2_state := [H ! 0 + a, H ! 1 + b, H ! 2 + c, H ! 3 + d, H ! 4 + e, H ! 5 + f, H ! 6 + g, H ! 7 + h],
             sha2_buffer := concat (map (bytes_le (v_bytes V)) W)\<rparr>)"

text \<open>The update: \<open>add k\<close> adds \<open>k\<close> bytes to the counter of bits, \<open>used\<close> is the number of bytes in the buffer.\<close>

function SHA2_blocks ::
  "('l::len word) sha2_variant \<Rightarrow> (nat \<Rightarrow> 'b \<Rightarrow> 'b) \<Rightarrow> u8 list \<Rightarrow> ('l word, 'b) SHA2_CTX \<Rightarrow> ('l word, 'b) SHA2_CTX" where
  "SHA2_blocks V add data ctx =
     (if 0 < v_block V \<and> v_block V \<le> length data then
        (let c = SHA2_Transform V ctx (take (v_block V) data)
         in SHA2_blocks V add (drop (v_block V) data) (c\<lparr>sha2_bitcount := add (v_block V) (sha2_bitcount c)\<rparr>))
      else if length data > 0 then
        ctx\<lparr>sha2_buffer := put_at (sha2_buffer ctx) 0 data, sha2_bitcount := add (length data) (sha2_bitcount ctx)\<rparr>
      else ctx)"
  by pat_completeness auto
termination by (relation "measure (\<lambda>(V, add, data, ctx). length data)") auto

definition SHA2_Update ::
  "('l::len word) sha2_variant \<Rightarrow> (nat \<Rightarrow> 'b \<Rightarrow> 'b) \<Rightarrow> ('b \<Rightarrow> nat) \<Rightarrow> u8 list \<Rightarrow> ('l word, 'b) SHA2_CTX \<Rightarrow> ('l word, 'b) SHA2_CTX" where
  "SHA2_Update V add used data ctx =
     (if length data = 0 then ctx
      else (let usedspace = used (sha2_bitcount ctx)
            in if usedspace > 0 then
                 (let freespace = v_block V - usedspace
                  in if length data \<ge> freespace then
                       (let buf = put_at (sha2_buffer ctx) usedspace (take freespace data);
                            c = ctx\<lparr>sha2_buffer := buf, sha2_bitcount := add freespace (sha2_bitcount ctx)\<rparr>
                        in SHA2_blocks V add (drop freespace data) (SHA2_Transform V c buf))
                     else ctx\<lparr>sha2_buffer := put_at (sha2_buffer ctx) usedspace data, sha2_bitcount := add (length data) (sha2_bitcount ctx)\<rparr>)
               else SHA2_blocks V add data ctx))"

text \<open>The padding: \<open>short\<close> is the block without the length, \<open>clear\<close> the number of bytes that are cleared between two last transforms, \<open>bits\<close> the length.\<close>

definition SHA2_Last :: "('l::len word) sha2_variant \<Rightarrow> nat \<Rightarrow> nat \<Rightarrow> nat \<Rightarrow> u8 list \<Rightarrow> ('l word, 'b) SHA2_CTX \<Rightarrow> ('l word, 'b) SHA2_CTX" where
  "SHA2_Last V short clear usedspace bits ctx =
     (let c1 =
        (if usedspace > 0 then
           (let buf = (sha2_buffer ctx)[usedspace := 0x80]; u = usedspace + 1
            in if u \<le> short then ctx\<lparr>sha2_buffer := put_at buf u (replicate (short - u) 0)\<rparr>
               else (let buf' = (if u < v_block V then put_at buf u (replicate (v_block V - u) 0) else buf);
                         c = SHA2_Transform V (ctx\<lparr>sha2_buffer := buf'\<rparr>) buf'
                     in c\<lparr>sha2_buffer := put_at (sha2_buffer c) 0 (replicate clear 0)\<rparr>))
         else ctx\<lparr>sha2_buffer := (put_at (sha2_buffer ctx) 0 (replicate short 0))[0 := 0x80]\<rparr>);
          buf = put_at (sha2_buffer c1) short bits
      in SHA2_Transform V (c1\<lparr>sha2_buffer := buf\<rparr>) buf)"

definition SHA256_Init :: SHA256_CTX where
  "SHA256_Init = \<lparr>sha2_state = sha256_initial_hash_value, sha2_bitcount = 0, sha2_buffer = replicate 64 0\<rparr>"

definition SHA256_Transform :: "SHA256_CTX \<Rightarrow> u8 list \<Rightarrow> SHA256_CTX" where
  "SHA256_Transform = SHA2_Transform sha256_variant"

definition sha256_add :: "nat \<Rightarrow> ut64 \<Rightarrow> ut64" where
  "sha256_add k bitcount = bitcount + push_bit 3 (word_of_nat k)"

definition sha256_used :: "ut64 \<Rightarrow> nat" where
  "sha256_used bitcount = unat (drop_bit 3 bitcount) mod 64"

definition SHA256_Update :: "u8 list \<Rightarrow> SHA256_CTX \<Rightarrow> SHA256_CTX" where
  "SHA256_Update = SHA2_Update sha256_variant sha256_add sha256_used"

definition SHA256_Final :: "SHA256_CTX \<Rightarrow> u8 list \<times> SHA256_CTX" where
  "SHA256_Final ctx =
     (let usedspace = sha256_used (sha2_bitcount ctx);
          ctx = ctx\<lparr>sha2_bitcount := REVERSE64 (sha2_bitcount ctx)\<rparr>;
          c = SHA2_Last sha256_variant (64 - 8) (64 - 8) usedspace (bytes_le 8 (sha2_bitcount ctx)) ctx;
          st = map REVERSE32 (sha2_state c)
      in (concat (map (bytes_le 4) st), c\<lparr>sha2_state := st\<rparr>))"

definition SHA512_Init :: SHA512_CTX where
  "SHA512_Init = \<lparr>sha2_state = sha512_initial_hash_value, sha2_bitcount = (0, 0), sha2_buffer = replicate 128 0\<rparr>"

definition SHA512_Transform :: "SHA512_CTX \<Rightarrow> u8 list \<Rightarrow> SHA512_CTX" where
  "SHA512_Transform = SHA2_Transform sha512_variant"

definition sha512_add :: "nat \<Rightarrow> ut64 \<times> ut64 \<Rightarrow> ut64 \<times> ut64" where
  "sha512_add k bitcount = ADDINC128 (push_bit 3 (word_of_nat k)) bitcount"

definition sha512_used :: "ut64 \<times> ut64 \<Rightarrow> nat" where
  "sha512_used bitcount = unat (drop_bit 3 (fst bitcount)) mod 128"

definition SHA512_Update :: "u8 list \<Rightarrow> SHA512_CTX \<Rightarrow> SHA512_CTX" where
  "SHA512_Update = SHA2_Update sha512_variant sha512_add sha512_used"

definition SHA512_Last :: "SHA512_CTX \<Rightarrow> SHA512_CTX" where
  "SHA512_Last ctx =
     (let usedspace = sha512_used (sha2_bitcount ctx);
          b0 = REVERSE64 (fst (sha2_bitcount ctx)); b1 = REVERSE64 (snd (sha2_bitcount ctx))
      in SHA2_Last sha512_variant (128 - 16) (128 - 2) usedspace (bytes_le 8 b1 @ bytes_le 8 b0) (ctx\<lparr>sha2_bitcount := (b0, b1)\<rparr>))"

definition SHA512_Final :: "SHA512_CTX \<Rightarrow> u8 list \<times> SHA512_CTX" where
  "SHA512_Final ctx =
     (let c = SHA512_Last ctx; st = map REVERSE64 (sha2_state c)
      in (concat (map (bytes_le 8) st), c\<lparr>sha2_state := st\<rparr>))"

definition SHA384_Init :: SHA512_CTX where
  "SHA384_Init = \<lparr>sha2_state = sha384_initial_hash_value, sha2_bitcount = (0, 0), sha2_buffer = replicate 128 0\<rparr>"

definition SHA384_Update :: "u8 list \<Rightarrow> SHA512_CTX \<Rightarrow> SHA512_CTX" where
  "SHA384_Update data ctx = SHA512_Update data ctx"

definition SHA384_Final :: "SHA512_CTX \<Rightarrow> u8 list \<times> SHA512_CTX" where
  "SHA384_Final ctx =
     (let c = SHA512_Last ctx; st = map REVERSE64 (take 6 (sha2_state c))
      in (concat (map (bytes_le 8) st), c\<lparr>sha2_state := st @ drop 6 (sha2_state c)\<rparr>))"

text \<open>
  \<^verbatim>\<open>SHA256_End\<close> and its siblings write the digest in hexadecimal; the pointer they return has been advanced to the terminator, so the second
  component is the text at that pointer.
\<close>

definition sha2_hex_digits :: string where
  "sha2_hex_digits = ''0123456789abcdef''"

definition sha2_hex :: "u8 list \<Rightarrow> string" where
  "sha2_hex digest = concat (map (\<lambda>d. [sha2_hex_digits ! unat (drop_bit 4 (d AND 0xf0)), sha2_hex_digits ! unat (d AND 0x0f)]) digest)"

definition SHA2_End :: "('c \<Rightarrow> u8 list \<times> 'c) \<Rightarrow> 'c \<Rightarrow> (string \<times> string) \<times> 'c" where
  "SHA2_End final ctx = (let (digest, c) = final ctx; buffer = sha2_hex digest in ((buffer, drop (length buffer) buffer), c))"

definition SHA256_End :: "SHA256_CTX \<Rightarrow> (string \<times> string) \<times> SHA256_CTX" where
  "SHA256_End = SHA2_End SHA256_Final"

definition SHA512_End :: "SHA512_CTX \<Rightarrow> (string \<times> string) \<times> SHA512_CTX" where
  "SHA512_End = SHA2_End SHA512_Final"

definition SHA384_End :: "SHA512_CTX \<Rightarrow> (string \<times> string) \<times> SHA512_CTX" where
  "SHA384_End = SHA2_End SHA384_Final"

definition SHA256_Data :: "u8 list \<Rightarrow> string \<times> string" where
  "SHA256_Data data = fst (SHA256_End (SHA256_Update data SHA256_Init))"

definition SHA512_Data :: "u8 list \<Rightarrow> string \<times> string" where
  "SHA512_Data data = fst (SHA512_End (SHA512_Update data SHA512_Init))"

definition SHA384_Data :: "u8 list \<Rightarrow> string \<times> string" where
  "SHA384_Data data = fst (SHA384_End (SHA384_Update data SHA384_Init))"

declare SHA2_blocks.simps [simp del]

section \<open>The compression function\<close>

text \<open>The description of FIPS 180-2: words of a block with the most significant byte first, and the schedule by recursion.\<close>

definition be_word :: "u8 list \<Rightarrow> 'l::len word" where
  "be_word bs = fold (\<lambda>b w. push_bit 8 w OR ucast b) bs 0"

definition block_words :: "nat \<Rightarrow> u8 list \<Rightarrow> 'l::len word list" where
  "block_words k bs = map (\<lambda>i. be_word (take k (drop (k * i) bs))) [0..<16]"

fun sha2_w :: "('l::len word) sha2_variant \<Rightarrow> 'l word list \<Rightarrow> nat \<Rightarrow> 'l word" where
  "sha2_w V M t = (if t < 16 then M ! t
     else v_s1 V (sha2_w V M (t - 2)) + sha2_w V M (t - 7) + v_s0 V (sha2_w V M (t - 15)) + sha2_w V M (t - 16))"

declare sha2_w.simps [simp del]

definition sha2_compress :: "('l::len word) sha2_variant \<Rightarrow> 'l word list \<Rightarrow> u8 list \<Rightarrow> 'l word list" where
  "sha2_compress V H block =
     (case fold (\<lambda>t. sha2_round V (v_K V ! t) (sha2_w V (block_words (v_bytes V) block) t)) [0..<v_rounds V]
        (H ! 0, H ! 1, H ! 2, H ! 3, H ! 4, H ! 5, H ! 6, H ! 7) of
      (a, b, c, d, e, f, g, h) \<Rightarrow> [H ! 0 + a, H ! 1 + b, H ! 2 + c, H ! 3 + d, H ! 4 + e, H ! 5 + f, H ! 6 + g, H ! 7 + h])"

lemma sha2_w_low: "t < 16 \<Longrightarrow> sha2_w V M t = M ! t"
  by (subst sha2_w.simps) simp

lemma sha2_w_high: "16 \<le> t \<Longrightarrow>
    sha2_w V M t = v_s1 V (sha2_w V M (t - 2)) + sha2_w V M (t - 7) + v_s0 V (sha2_w V M (t - 15)) + sha2_w V M (t - 16)"
  by (subst sha2_w.simps) simp

text \<open>Reversal of the bytes of a word.\<close>

lemma bit_le_word: "bit (le_word bs :: 'l::len word) n \<longleftrightarrow> n < LENGTH('l) \<and> n div 8 < length bs \<and> bit (bs ! (n div 8)) (n mod 8)"
proof (induction bs arbitrary: n)
  case Nil
  then show ?case by (simp add: le_word_def)
next
  case (Cons b bs)
  have u: "le_word (b # bs) = (ucast b OR push_bit 8 (le_word bs) :: 'l word)" by (simp add: le_word_def)
  show ?case
  proof (cases "n < 8")
    case True
    then show ?thesis by (simp add: u bit_simps)
  next
    case False
    then have "n div 8 = Suc ((n - 8) div 8)" "n mod 8 = (n - 8) mod 8" by (simp_all add: le_div_geq le_mod_geq)
    moreover have "\<not> bit b n" using False bit_imp_le_length [of b n] by auto
    ultimately show ?thesis using False by (auto simp: u bit_simps Cons.IH)
  qed
qed

lemma be_word_le_word: "be_word bs = le_word (rev bs)"
  by (simp add: be_word_def le_word_def foldr_conv_fold or.commute)

lemma bit_bytes_le: "i < k \<Longrightarrow> bit (bytes_le k w ! i) r \<longleftrightarrow> r < 8 \<and> bit w (8 * i + r)"
  by (auto simp: bytes_le_def bit_simps dest: bit_imp_le_length)

definition reverses :: "nat \<Rightarrow> ('l::len word \<Rightarrow> 'l word) \<Rightarrow> bool" where
  "reverses k f \<longleftrightarrow> LENGTH('l) = 8 * k \<and> (\<forall>w n. n < LENGTH('l) \<longrightarrow> bit (f w) n = bit w (8 * (k - 1 - n div 8) + n mod 8))"

lemma reverses_le_word:
  assumes "reverses k f" and "length bs = k"
  shows "f (le_word bs) = (be_word bs :: 'l::len word)"
proof (rule bit_word_eqI)
  fix n assume n: "n < LENGTH('l)"
  then have k: "LENGTH('l) = 8 * k" "n div 8 < k" using assms(1) by (auto simp: reverses_def)
  then have "8 * (k - 1 - n div 8) + n mod 8 < LENGTH('l)" by linarith
  then show "bit (f (le_word bs)) n = bit (be_word bs :: 'l word) n"
    using assms n k by (simp add: reverses_def bit_le_word be_word_le_word rev_nth)
qed

lemma reverses_bytes:
  assumes "reverses k (f :: 'l::len word \<Rightarrow> 'l word)"
  shows "bytes_le k (f w) = bytes_be k w"
proof (rule nth_equalityI)
  fix i assume "i < length (bytes_le k (f w))"
  then have i: "i < k" by simp
  show "bytes_le k (f w) ! i = bytes_be k w ! i"
  proof (rule bit_word_eqI)
    fix r assume "r < LENGTH(8)"
    then have r: "r < 8" by simp
    then have "8 * i + r < LENGTH('l)" using i assms by (simp add: reverses_def)
    then have "bit (f w) (8 * i + r) = bit w (8 * (k - 1 - i) + r)" using assms r by (simp add: reverses_def)
    then show "bit (bytes_le k (f w) ! i) r = bit (bytes_be k w ! i) r"
      using i r by (simp add: bit_bytes_le bytes_be_def rev_nth)
  qed
qed simp

lemma REVERSE32_reverses: "reverses 4 REVERSE32"
proof -
  have m: "(0xff00ff00 :: ut32) = push_bit 8 (mask 8) OR push_bit 24 (mask 8)" "(0x00ff00ff :: ut32) = mask 8 OR push_bit 16 (mask 8)"
    by (simp_all add: mask_eq_exp_minus_1 push_bit_eq_mult)
  have e: "bit (REVERSE32 w) (8 * k + r) = bit w (8 * (3 - k) + r)" if rk: "r < 8" "k < 4" for w k r
  proof -
    consider "k = 0" | "k = 1" | "k = 2" | "k = 3" using rk(2) by linarith
    then show ?thesis using rk(1) unfolding REVERSE32_def Let_def m by cases (auto simp: bit_simps dest: bit_imp_le_length)
  qed
  have "bit (REVERSE32 w) n = bit w (8 * (3 - n div 8) + n mod 8)" if "n < 32" for w n
    using e [of "n mod 8" "n div 8" w] that by simp
  then show ?thesis by (simp add: reverses_def)
qed

lemma REVERSE64_reverses: "reverses 8 REVERSE64"
proof -
  have m: "(0xff00ff00ff00ff00 :: ut64) = push_bit 8 (mask 8) OR push_bit 24 (mask 8) OR push_bit 40 (mask 8) OR push_bit 56 (mask 8)"
    "(0x00ff00ff00ff00ff :: ut64) = mask 8 OR push_bit 16 (mask 8) OR push_bit 32 (mask 8) OR push_bit 48 (mask 8)"
    "(0xffff0000ffff0000 :: ut64) = push_bit 16 (mask 16) OR push_bit 48 (mask 16)" "(0x0000ffff0000ffff :: ut64) = mask 16 OR push_bit 32 (mask 16)"
    by (simp_all add: mask_eq_exp_minus_1 push_bit_eq_mult)
  have e: "bit (REVERSE64 w) (8 * k + r) = bit w (8 * (7 - k) + r)" if rk: "r < 8" "k < 8" for w k r
  proof -
    consider "k = 0" | "k = 1" | "k = 2" | "k = 3" | "k = 4" | "k = 5" | "k = 6" | "k = 7" using rk(2) by linarith
    then show ?thesis using rk(1) unfolding REVERSE64_def Let_def m by cases (auto simp: bit_simps dest: bit_imp_le_length)
  qed
  have "bit (REVERSE64 w) n = bit w (8 * (7 - n div 8) + n mod 8)" if "n < 64" for w n
    using e [of "n mod 8" "n div 8" w] that by simp
  then show ?thesis by (simp add: reverses_def)
qed

section \<open>The contract of a variant\<close>

lemma sha2_first_pair:
  "sha2_first V data j (W, r) = (W[j := v_rev V (data ! j)], sha2_round V (v_K V ! j) (W[j := v_rev V (data ! j)] ! j) r)"
  by (simp add: sha2_first_def Let_def)

lemma sha2_next_pair:
  "sha2_next V j (W, r) =
     (let W' = W[j mod 16 := W ! (j mod 16) + (v_s1 V (W ! ((j + 14) mod 16)) + W ! ((j + 9) mod 16) + v_s0 V (W ! ((j + 1) mod 16)))]
      in (W', sha2_round V (v_K V ! j) (W' ! (j mod 16)) r))"
  by (simp add: sha2_next_def Let_def)

lemma length_concat_bytes: "length (concat (map (bytes_le k) ws)) = k * length ws"
  by (induction ws) simp_all

locale sha2_family =
  fixes V :: "('l::len word) sha2_variant"
  assumes rev_bytes: "reverses (v_bytes V) (v_rev V)" and rounds: "16 \<le> v_rounds V" and word_bytes: "0 < v_bytes V"
begin

lemma v_block_pos: "0 < v_block V"
  using word_bytes by (simp add: v_block_def)

lemma first_words:
  assumes "length data = v_block V" and "i < 16"
  shows "v_rev V (host_words (v_bytes V) data ! i) = block_words (v_bytes V) data ! i"
proof -
  have "v_bytes V * i + v_bytes V \<le> 16 * v_bytes V" using assms(2) mult_le_mono1 [of "Suc i" 16 "v_bytes V"] by (simp add: mult.commute)
  then have "length (take (v_bytes V) (drop (v_bytes V * i) data)) = v_bytes V"
    unfolding length_take length_drop assms(1) v_block_def by linarith
  then show ?thesis using assms(2) by (simp add: host_words_def block_words_def reverses_le_word [OF rev_bytes])
qed

lemma first_rounds:
  assumes "length data = v_block V" and "length W = 16" and "n \<le> 16"
  shows "\<exists>W'. fold (sha2_first V (host_words (v_bytes V) data)) [0..<n] (W, r) =
      (W', fold (\<lambda>t. sha2_round V (v_K V ! t) (sha2_w V (block_words (v_bytes V) data) t)) [0..<n] r) \<and>
      length W' = 16 \<and> (\<forall>i < n. W' ! i = block_words (v_bytes V) data ! i)"
  using assms(3)
proof (induction n)
  case 0
  then show ?case using assms(2) by simp
next
  case (Suc n)
  then obtain W' where "fold (sha2_first V (host_words (v_bytes V) data)) [0..<n] (W, r) =
      (W', fold (\<lambda>t. sha2_round V (v_K V ! t) (sha2_w V (block_words (v_bytes V) data) t)) [0..<n] r)"
      "length W' = 16" "\<forall>i < n. W' ! i = block_words (v_bytes V) data ! i" by auto
  then show ?case using Suc.prems first_words [OF assms(1), of n]
    by (auto simp: sha2_first_pair sha2_w_low nth_list_update less_Suc_eq)
qed

text \<open>The ring of 16 words holds the last 16 words of the schedule.\<close>

lemma ring_index:
  assumes "16 \<le> (n::nat)"
  shows "(n + 1) mod 16 = (n - 15) mod 16" "(n + 14) mod 16 = (n - 2) mod 16" "(n + 9) mod 16 = (n - 7) mod 16" "n mod 16 = (n - 16) mod 16"
proof -
  have "n + 1 = (n - 15) + 16" "n + 14 = (n - 2) + 16" "n + 9 = (n - 7) + 16" "n = (n - 16) + 16" using assms by linarith+
  then show "(n + 1) mod 16 = (n - 15) mod 16" "(n + 14) mod 16 = (n - 2) mod 16" "(n + 9) mod 16 = (n - 7) mod 16" "n mod 16 = (n - 16) mod 16"
    by (metis mod_add_self2)+
qed

lemma ring_distinct:
  assumes "i < (n::nat)" and "n < i + 16"
  shows "i mod 16 \<noteq> n mod 16"
proof
  assume "i mod 16 = n mod 16"
  then have "16 dvd n - i" using assms(1) by (metis mod_eq_dvd_iff_nat less_imp_le)
  then show False using assms dvd_imp_le [of 16 "n - i"] by linarith
qed

lemma next_rounds:
  assumes "length W = 16" and "\<forall>i < 16. W ! i = M ! i" and "16 \<le> n"
  shows "\<exists>W'. fold (sha2_next V) [16..<n] (W, r) = (W', fold (\<lambda>t. sha2_round V (v_K V ! t) (sha2_w V M t)) [16..<n] r) \<and>
      length W' = 16 \<and> (\<forall>i. n - 16 \<le> i \<longrightarrow> i < n \<longrightarrow> W' ! (i mod 16) = sha2_w V M i)"
  using assms(3)
proof (induction n rule: dec_induct)
  case base
  then show ?case using assms(1,2) by (simp add: sha2_w_low)
next
  case (step n)
  then obtain W' where W: "fold (sha2_next V) [16..<n] (W, r) = (W', fold (\<lambda>t. sha2_round V (v_K V ! t) (sha2_w V M t)) [16..<n] r)"
      "length W' = 16" "\<And>i. n - 16 \<le> i \<Longrightarrow> i < n \<Longrightarrow> W' ! (i mod 16) = sha2_w V M i" by auto
  have w: "W' ! ((n + 1) mod 16) = sha2_w V M (n - 15)" "W' ! ((n + 14) mod 16) = sha2_w V M (n - 2)"
    "W' ! ((n + 9) mod 16) = sha2_w V M (n - 7)" "W' ! (n mod 16) = sha2_w V M (n - 16)"
    unfolding ring_index(1,2,3) [OF step(1)] using ring_index(4) [OF step(1)] step(1) by (simp_all add: W(3))
  have v: "W' ! (n mod 16) + (v_s1 V (W' ! ((n + 14) mod 16)) + W' ! ((n + 9) mod 16) + v_s0 V (W' ! ((n + 1) mod 16))) = sha2_w V M n"
    unfolding w sha2_w_high [OF step(1)] by (simp add: ac_simps)
  have i: "W'[n mod 16 := sha2_w V M n] ! (i mod 16) = sha2_w V M i" if "Suc n - 16 \<le> i" "i < Suc n" for i
  proof (cases "i = n")
    case False
    then have "i mod 16 \<noteq> n mod 16" using that by (intro ring_distinct) linarith+
    then show ?thesis using W(2,3) that False by simp
  qed (simp add: W(2))
  show ?case using step(1) W(1,2) i v by (simp add: upt_Suc_append sha2_next_pair)
qed

lemma transform:
  assumes "length data = v_block V"
  shows "sha2_state (SHA2_Transform V ctx data) = sha2_compress V (sha2_state ctx) data"
    "length (sha2_buffer (SHA2_Transform V ctx data)) = v_block V" "sha2_bitcount (SHA2_Transform V ctx data) = sha2_bitcount ctx"
proof -
  let ?M = "block_words (v_bytes V) data :: 'l word list" let ?H = "sha2_state ctx"
  let ?r = "(?H ! 0, ?H ! 1, ?H ! 2, ?H ! 3, ?H ! 4, ?H ! 5, ?H ! 6, ?H ! 7)"
  let ?f = "\<lambda>t. sha2_round V (v_K V ! t) (sha2_w V ?M t)"
  obtain W where W: "fold (sha2_first V (host_words (v_bytes V) data)) [0..<16] (host_words (v_bytes V) (sha2_buffer ctx), ?r) = (W, fold ?f [0..<16] ?r)"
    "length W = 16" "\<forall>i < 16. W ! i = ?M ! i"
    using first_rounds [OF assms, of "host_words (v_bytes V) (sha2_buffer ctx)" 16 ?r] by (auto simp: host_words_def)
  obtain W' where W': "fold (sha2_next V) [16..<v_rounds V] (W, fold ?f [0..<16] ?r) = (W', fold ?f [16..<v_rounds V] (fold ?f [0..<16] ?r))" "length W' = 16"
    using next_rounds [OF W(2,3) rounds, of "fold ?f [0..<16] ?r"] by auto
  have "[0..<v_rounds V] = [0..<16] @ [16..<v_rounds V]" using upt_add_eq_append [of 0 16 "v_rounds V - 16"] rounds by simp
  then have f: "fold ?f [16..<v_rounds V] (fold ?f [0..<16] ?r) = fold ?f [0..<v_rounds V] ?r" by simp
  show "sha2_state (SHA2_Transform V ctx data) = sha2_compress V ?H data"
    "length (sha2_buffer (SHA2_Transform V ctx data)) = v_block V" "sha2_bitcount (SHA2_Transform V ctx data) = sha2_bitcount ctx"
    unfolding SHA2_Transform_def sha2_compress_def Let_def W W' f
    using W'(2) by (simp_all add: length_concat_bytes v_block_def mult.commute split: prod.split)
qed

text \<open>The padding in the buffer, in one block or in two.\<close>

lemma put_pad:
  assumes "length buf = n" and "u < n"
  shows "(buf[u := 0x80]) = (take u buf @ [0x80]) @ drop (u + 1) buf"
  using assms by (simp add: upd_conv_take_nth_drop)

lemma last_one:
  fixes buf :: "u8 list"
  assumes "length buf = n" and "u + 1 \<le> short" and "short + length bits = n"
  shows "put_at (put_at (buf[u := 0x80]) (u + 1) (replicate (short - (u + 1)) 0)) short bits =
    take u buf @ 0x80 # replicate (short - (u + 1)) 0 @ bits"
proof -
  have "put_at (buf[u := 0x80]) (u + 1) (replicate (short - (u + 1)) 0) =
      (take u buf @ 0x80 # replicate (short - (u + 1)) 0) @ drop (short - (u + 1)) (drop (u + 1) buf)"
    using put_at_append [of "take u buf @ [0x80]" "u + 1"] assms put_pad [of buf n u] by simp
  moreover have "length (take u buf @ 0x80 # replicate (short - (u + 1)) 0) = short" using assms by simp
  ultimately show ?thesis using assms put_at_append [of "take u buf @ 0x80 # replicate (short - (u + 1)) 0" short] by simp
qed

lemma last_zero:
  fixes buf :: "u8 list"
  assumes "length buf = n" and "0 < short" and "short + length bits = n"
  shows "put_at ((put_at buf 0 (replicate short 0))[0 := 0x80]) short bits = 0x80 # replicate (short - 1) 0 @ bits"
proof -
  have "replicate short (0 :: u8) = 0 # replicate (short - 1) 0" using assms(2) by (cases short) simp_all
  then have "(put_at buf 0 (replicate short 0))[0 := 0x80] = (0x80 # replicate (short - 1) 0) @ drop short buf"
    using assms(2) by (simp add: put_at_def)
  moreover have "length (0x80 # replicate (short - 1) (0 :: u8)) = short" using assms(2) by simp
  ultimately show ?thesis using assms put_at_append [of "0x80 # replicate (short - 1) 0" short "drop short buf" bits] by simp
qed

lemma last_two:
  fixes buf :: "u8 list"
  assumes "length buf = n" and "short \<le> clear" and "clear \<le> n" and "short + length bits = n"
  shows "put_at (put_at buf 0 (replicate clear 0)) short bits = replicate short 0 @ bits"
proof -
  have "replicate clear (0 :: u8) = replicate short 0 @ replicate (clear - short) 0" using assms(2) by (simp flip: replicate_add)
  then have "put_at buf 0 (replicate clear 0) = replicate short 0 @ replicate (clear - short) 0 @ drop clear buf"
    using assms(2) by (simp add: put_at_def)
  then show ?thesis using assms put_at_append [of "replicate short (0 :: u8)" short "replicate (clear - short) 0 @ drop clear buf" bits] by simp
qed

lemma last_fill:
  fixes buf :: "u8 list"
  assumes "length buf = n" and "u < n"
  shows "(if u + 1 < n then put_at (buf[u := 0x80]) (u + 1) (replicate (n - (u + 1)) 0) else buf[u := 0x80]) =
    take u buf @ 0x80 # replicate (n - (u + 1)) 0"
  using assms put_at_append [of "take u buf @ [0x80]" "u + 1" "drop (u + 1) buf" "replicate (n - (u + 1)) 0"] put_pad [of buf n u]
  by auto

lemma Last_padded:
  assumes b: "buffered (v_block V) (sha2_compress V) iv (sha2_state ctx) (sha2_buffer ctx) m"
    and u: "u = length m mod v_block V" and bits: "bits = lenf (8 * length m)" "length bits = lb" and lb: "0 < lb" "lb < v_block V"
    and short: "short = v_block V - lb" and clear: "short \<le> clear" "clear \<le> v_block V"
  shows "sha2_state (SHA2_Last V short clear u bits ctx) = fst (absorb (v_block V) (sha2_compress V) iv (padded (v_block V) lb lenf m))"
proof -
  let ?n = "v_block V" let ?buf = "sha2_buffer ctx" let ?r = "take u ?buf"
  have lt: "u < ?n" and len: "length ?buf = ?n" using b u v_block_pos by (simp_all add: buffered_def)
  have a: "absorb ?n (sha2_compress V) iv m = (sha2_state ctx, ?r)" using buffered_absorb [OF b] u by simp
  have r: "length ?r = u" using lt len by simp
  have sb: "short + length bits = ?n" using short bits(2) lb by simp
  note p = padded_blocks [OF a lb(2), of lenf, unfolded r, folded bits(1), OF bits(2)]
  consider "u = 0" | "0 < u" "u + 1 \<le> short" | "0 < u" "short < u + 1" by linarith
  then show ?thesis
  proof cases
    case 1
    have s0: "0 < short" using short lb by simp
    have "length (0x80 # replicate (short - 1) 0 @ bits) = ?n" using s0 sb by simp
    then show ?thesis using 1 p(1) lb short last_zero [OF len s0 sb]
      by (simp add: SHA2_Last_def Let_def transform)
  next
    case 2
    have "length (?r @ 0x80 # replicate (short - (u + 1)) 0 @ bits) = ?n" using 2 sb r by simp
    then show ?thesis using 2 p(1) short lb last_one [OF len 2(2) sb]
      by (simp add: SHA2_Last_def Let_def transform)
  next
    case 3
    let ?b1 = "?r @ 0x80 # replicate (?n - (u + 1)) 0"
    let ?c = "SHA2_Transform V (ctx\<lparr>sha2_buffer := ?b1\<rparr>) ?b1"
    have l1: "length ?b1 = ?n" using lt r by simp
    have l2: "put_at (put_at (sha2_buffer ?c) 0 (replicate clear 0)) short bits = replicate short 0 @ bits"
      by (rule last_two [OF transform(2) [OF l1] clear sb])
    have "SHA2_Last V short clear u bits ctx = SHA2_Transform V (?c\<lparr>sha2_buffer := replicate short 0 @ bits\<rparr>) (replicate short 0 @ bits)"
    proof -
      have "SHA2_Last V short clear u bits ctx = (let c = ?c\<lparr>sha2_buffer := put_at (sha2_buffer ?c) 0 (replicate clear 0)\<rparr>;
          buf = put_at (sha2_buffer c) short bits in SHA2_Transform V (c\<lparr>sha2_buffer := buf\<rparr>) buf)"
        using 3(1) not_le [THEN iffD2, OF 3(2)] by (simp only: SHA2_Last_def Let_def last_fill [OF len lt] if_True if_False)
      then show ?thesis using l2 by (simp add: Let_def)
    qed
    moreover have "length (replicate short 0 @ bits) = ?n" using sb by simp
    ultimately show ?thesis using p(2) 3 short lb by (simp add: transform l1 transform(1) [OF l1, simplified])
  qed
qed

end

text \<open>The context after a message, for a notion \<open>cnt\<close> of counting.\<close>

definition sha2_rep :: "('l::len word) sha2_variant \<Rightarrow> ('b \<Rightarrow> nat \<Rightarrow> bool) \<Rightarrow> 'l word list \<Rightarrow> ('l word, 'b) SHA2_CTX \<Rightarrow> u8 list \<Rightarrow> bool" where
  "sha2_rep V cnt iv ctx m \<longleftrightarrow>
     buffered (v_block V) (sha2_compress V) iv (sha2_state ctx) (sha2_buffer ctx) m \<and> cnt (sha2_bitcount ctx) (length m)"

text \<open>With the counter: \<open>cnt b n\<close> says that \<open>b\<close> counts the bits of \<open>n\<close> bytes.\<close>

locale sha2_stream = sha2_family V for V :: "('l::len word) sha2_variant" +
  fixes add :: "nat \<Rightarrow> 'b \<Rightarrow> 'b"
    and used :: "'b \<Rightarrow> nat"
    and cnt :: "'b \<Rightarrow> nat \<Rightarrow> bool"
  assumes cnt_add: "cnt b n \<Longrightarrow> k < 2 ^ 61 \<Longrightarrow> cnt (add k b) (n + k)"
    and cnt_used: "cnt b n \<Longrightarrow> used b = n mod v_block V"
    and block_small: "v_block V < 2 ^ 61"
begin

lemma rep_block:
  assumes "sha2_rep V cnt iv ctx m" and "length m mod v_block V + length xs = v_block V" and "data = take (length m mod v_block V) (sha2_buffer ctx) @ xs"
    and "sha2_state c = sha2_state ctx" and "cnt (sha2_bitcount c) (length (m @ xs))"
  shows "sha2_rep V cnt iv (SHA2_Transform V c data) (m @ xs)"
proof -
  have b: "buffered (v_block V) (sha2_compress V) iv (sha2_state ctx) (sha2_buffer ctx) m" using assms(1) by (simp add: sha2_rep_def)
  then have "length data = v_block V" using assms(2,3) v_block_pos by (simp add: buffered_def absorb_rest)
  then show ?thesis using buffered_block [OF b v_block_pos assms(2), of "sha2_buffer (SHA2_Transform V c data)"] assms(3,4,5)
    by (simp add: sha2_rep_def transform)
qed

lemma rep_keep:
  assumes "sha2_rep V cnt iv ctx m" and "length m mod v_block V + length xs < v_block V"
  shows "sha2_rep V cnt iv (ctx\<lparr>sha2_buffer := put_at (sha2_buffer ctx) (length m mod v_block V) xs, sha2_bitcount := add (length xs) (sha2_bitcount ctx)\<rparr>) (m @ xs)"
  using assms buffered_keep [OF _ v_block_pos, of "sha2_compress V" iv "sha2_state ctx" "sha2_buffer ctx" m xs]
    cnt_add [of "sha2_bitcount ctx" "length m" "length xs"] block_small
  by (simp add: sha2_rep_def)

lemma rep_blocks:
  assumes "sha2_rep V cnt iv ctx m" and "length m mod v_block V = 0"
  shows "sha2_rep V cnt iv (SHA2_blocks V add data ctx) (m @ data)"
  using assms
proof (induction "length data" arbitrary: data ctx m rule: less_induct)
  case less
  let ?n = "v_block V"
  show ?case
  proof (cases "?n \<le> length data")
    case True
    let ?c = "SHA2_Transform V ctx (take ?n data)"
    let ?c' = "?c\<lparr>sha2_bitcount := add ?n (sha2_bitcount ?c)\<rparr>"
    have "sha2_rep V cnt iv ?c' (m @ take ?n data)"
    proof -
      have "length (take ?n data) = ?n" using True by simp
      moreover have "buffered ?n (sha2_compress V) iv (sha2_state ctx) (sha2_buffer ctx) m" "cnt (sha2_bitcount ctx) (length m)"
        using less.prems(1) by (simp_all add: sha2_rep_def)
      ultimately show ?thesis
        using buffered_block [OF _ v_block_pos, of "sha2_compress V" iv "sha2_state ctx" "sha2_buffer ctx" m "take ?n data" "sha2_buffer ?c"]
          cnt_add [of "sha2_bitcount ctx" "length m" ?n] block_small less.prems(2)
        by (simp add: sha2_rep_def transform)
    qed
    moreover have "length (m @ take ?n data) mod ?n = 0" using less.prems(2) True by (simp add: min_def)
    moreover have "length (drop ?n data) < length data" using True v_block_pos by simp
    ultimately have "sha2_rep V cnt iv (SHA2_blocks V add (drop ?n data) ?c') ((m @ take ?n data) @ drop ?n data)"
      by (intro less.hyps)
    then show ?thesis using True v_block_pos by (simp add: SHA2_blocks.simps [of V add data ctx] Let_def)
  next
    case False
    then show ?thesis using rep_keep [OF less.prems(1), of data] less.prems by (auto simp: SHA2_blocks.simps [of V add data ctx])
  qed
qed

lemma rep_update:
  assumes "sha2_rep V cnt iv ctx m" and "length data < 2 ^ 61"
  shows "sha2_rep V cnt iv (SHA2_Update V add used data ctx) (m @ data)"
proof -
  let ?n = "v_block V" let ?u = "length m mod ?n"
  have u: "used (sha2_bitcount ctx) = ?u" and c: "cnt (sha2_bitcount ctx) (length m)" and len: "length (sha2_buffer ctx) = ?n"
    using assms(1) by (simp_all add: sha2_rep_def cnt_used buffered_def)
  have lt: "?u < ?n" using v_block_pos by simp
  consider "data = []" | "data \<noteq> []" "?u = 0" | "data \<noteq> []" "0 < ?u" "length data < ?n - ?u" | "0 < ?u" "?n - ?u \<le> length data" by force
  then show ?thesis
  proof cases
    case 1
    then show ?thesis using assms(1) by (simp add: SHA2_Update_def)
  next
    case 2
    then show ?thesis using rep_blocks [OF assms(1)] u by (simp add: SHA2_Update_def)
  next
    case 3
    then show ?thesis using rep_keep [OF assms(1), of data] u by (simp add: SHA2_Update_def Let_def)
  next
    case 4
    let ?xs = "take (?n - ?u) data"
    let ?buf = "put_at (sha2_buffer ctx) ?u ?xs"
    let ?c = "ctx\<lparr>sha2_buffer := ?buf, sha2_bitcount := add (?n - ?u) (sha2_bitcount ctx)\<rparr>"
    have l: "?u + length ?xs = ?n" using 4 lt by simp
    then have b: "?buf = take ?u (sha2_buffer ctx) @ ?xs" using len by (simp add: put_at_def)
    have "cnt (sha2_bitcount ?c) (length (m @ ?xs))" using cnt_add [OF c, of "?n - ?u"] block_small 4(2) by simp
    then have r: "sha2_rep V cnt iv (SHA2_Transform V ?c ?buf) (m @ ?xs)" by (intro rep_block [OF assms(1) l b]) simp_all
    moreover have "length (m @ ?xs) mod ?n = 0" using l by (metis length_append mod_add_left_eq mod_self)
    ultimately have "sha2_rep V cnt iv (SHA2_blocks V add (drop (?n - ?u) data) (SHA2_Transform V ?c ?buf)) ((m @ ?xs) @ drop (?n - ?u) data)"
      by (rule rep_blocks)
    moreover have "data \<noteq> []" using 4 lt by auto
    ultimately show ?thesis using 4 u by (simp add: SHA2_Update_def Let_def)
  qed
qed

end

section \<open>The three digests\<close>

text \<open>The functions of FIPS 180-2, with rotations, and what it takes as the length and the output.\<close>

definition fips256 :: "ut32 sha2_variant" where
  "fips256 = \<lparr>v_bytes = 4, v_rev = REVERSE32,
     v_S0 = \<lambda>x. word_rotr 2 x XOR word_rotr 13 x XOR word_rotr 22 x, v_S1 = \<lambda>x. word_rotr 6 x XOR word_rotr 11 x XOR word_rotr 25 x,
     v_s0 = \<lambda>x. word_rotr 7 x XOR word_rotr 18 x XOR drop_bit 3 x, v_s1 = \<lambda>x. word_rotr 17 x XOR word_rotr 19 x XOR drop_bit 10 x,
     v_K = K256, v_rounds = 64\<rparr>"

definition fips512 :: "ut64 sha2_variant" where
  "fips512 = \<lparr>v_bytes = 8, v_rev = REVERSE64,
     v_S0 = \<lambda>x. word_rotr 28 x XOR word_rotr 34 x XOR word_rotr 39 x, v_S1 = \<lambda>x. word_rotr 14 x XOR word_rotr 18 x XOR word_rotr 41 x,
     v_s0 = \<lambda>x. word_rotr 1 x XOR word_rotr 8 x XOR drop_bit 7 x, v_s1 = \<lambda>x. word_rotr 19 x XOR word_rotr 61 x XOR drop_bit 6 x,
     v_K = K512, v_rounds = 80\<rparr>"

definition be_length128 :: "nat \<Rightarrow> u8 list" where
  "be_length128 k = bytes_be 16 (word_of_nat k :: 128 word)"

definition words_out :: "nat \<Rightarrow> 'l::len word list \<Rightarrow> u8 list" where
  "words_out k H = concat (map (bytes_be k) H)"

lemma rotr_shifts:
  fixes x :: "'l::len word"
  assumes "0 < b" and "b < LENGTH('l)"
  shows "drop_bit b x OR push_bit (LENGTH('l) - b) x = word_rotr b x"
proof -
  have "drop_bit b x OR push_bit (LENGTH('l) - b) x = word_rotl (LENGTH('l) - b) x"
    using rotl_shifts [of "LENGTH('l) - b" x] assms by (simp add: or.commute)
  also have "\<dots> = word_rotr b x"
    using assms by (intro bit_word_eqI) (simp add: bit_word_rotl_iff bit_word_rotr_iff)
  finally show ?thesis .
qed

lemma sha256_fips: "sha256_variant = fips256"
proof -
  have "0 < b \<Longrightarrow> b < 32 \<Longrightarrow> S32 b x = word_rotr b x" for b x using rotr_shifts [of b x] by (simp add: S32_def)
  then show ?thesis
    by (simp add: sha256_variant_def fips256_def Sigma0_256_def Sigma1_256_def sigma0_256_def sigma1_256_def fun_eq_iff)
qed

lemma sha512_fips: "sha512_variant = fips512"
proof -
  have "0 < b \<Longrightarrow> b < 64 \<Longrightarrow> S64 b x = word_rotr b x" for b x using rotr_shifts [of b x] by (simp add: S64_def)
  then show ?thesis
    by (simp add: sha512_variant_def fips512_def Sigma0_512_def Sigma1_512_def sigma0_512_def sigma1_512_def fun_eq_iff)
qed

text \<open>The counters.\<close>

definition cnt256 :: "ut64 \<Rightarrow> nat \<Rightarrow> bool" where
  "cnt256 b n \<longleftrightarrow> b = word_of_nat (8 * n)"

definition cnt512 :: "ut64 \<times> ut64 \<Rightarrow> nat \<Rightarrow> bool" where
  "cnt512 b n \<longleftrightarrow> b = (word_of_nat (8 * n), word_of_nat (8 * n div 2 ^ 64))"

lemma count_bytes: "unat (drop_bit 3 (word_of_nat (8 * n) :: ut64)) = n mod 2 ^ 61"
proof -
  have "unat (drop_bit 3 (word_of_nat (8 * n) :: ut64)) = 8 * n mod 2 ^ 64 div 8"
    by (simp only: unsigned_drop_bit_eq unsigned_of_nat) (simp add: take_bit_eq_mod drop_bit_eq_div)
  then show ?thesis by (simp add: mod_mult_mult1 [of 8 n "2 ^ 61", simplified])
qed

lemma cnt512_add:
  assumes "cnt512 b n" and "k < 2 ^ 61"
  shows "cnt512 (sha512_add k b) (n + k)"
proof -
  have p: "push_bit 3 (word_of_nat k) = (word_of_nat (8 * k) :: ut64)" by (simp add: push_bit_eq_mult)
  have "8 * (n + k) div 2 ^ 64 = 8 * n div 2 ^ 64 + (if 2 ^ 64 \<le> 8 * n mod 2 ^ 64 + 8 * k mod 2 ^ 64 then 1 else 0 :: nat)"
    using div_add_carry [of "2 ^ 64" "8 * n" "8 * k"] assms(2) by (simp add: distrib_left)
  moreover have "(word_of_nat (8 * n) + word_of_nat (8 * k) < (word_of_nat (8 * k) :: ut64)) \<longleftrightarrow> 2 ^ 64 \<le> 8 * n mod 2 ^ 64 + 8 * k mod 2 ^ 64"
    using word_of_nat_carry [of "8 * n" "8 * k", where 'l = 64] by (simp only: of_nat_add len_of_numeral_defs) simp
  moreover have "b = (word_of_nat (8 * n), word_of_nat (8 * n div 2 ^ 64))" using assms(1) unfolding cnt512_def .
  ultimately show ?thesis unfolding cnt512_def sha512_add_def ADDINC128_def p Let_def
    by (simp only: of_nat_add distrib_left fst_conv snd_conv) simp
qed

interpretation s256: sha2_stream sha256_variant sha256_add sha256_used cnt256
proof
  show "reverses (v_bytes sha256_variant) (v_rev sha256_variant)" using REVERSE32_reverses by (simp add: sha256_variant_def)
  show "cnt256 b n \<Longrightarrow> sha256_used b = n mod v_block sha256_variant" for b n
    unfolding cnt256_def sha256_used_def by (simp only: count_bytes) (simp add: v_block_def sha256_variant_def mod_mod_cancel)
qed (simp_all add: sha256_variant_def v_block_def cnt256_def sha256_add_def push_bit_eq_mult distrib_left)

interpretation s512: sha2_stream sha512_variant sha512_add sha512_used cnt512
proof
  show "reverses (v_bytes sha512_variant) (v_rev sha512_variant)" using REVERSE64_reverses by (simp add: sha512_variant_def)
  show "cnt512 b n \<Longrightarrow> sha512_used b = n mod v_block sha512_variant" for b n
    unfolding cnt512_def sha512_used_def by (simp only: count_bytes fst_conv) (simp add: v_block_def sha512_variant_def mod_mod_cancel)
qed (simp_all add: sha512_variant_def v_block_def cnt512_add)

lemma out_reverses: "reverses k f \<Longrightarrow> concat (map (bytes_le k) (map f H)) = words_out k H"
  by (simp add: words_out_def reverses_bytes comp_def)

lemma sha256_rep_final:
  assumes "sha2_rep sha256_variant cnt256 iv ctx m"
  shows "fst (SHA256_Final ctx) = digest_ref 64 8 be_length (sha2_compress fips256) iv (words_out 4) m"
proof -
  let ?b = "REVERSE64 (sha2_bitcount ctx)" let ?c = "ctx\<lparr>sha2_bitcount := ?b\<rparr>"
  have n: "v_block sha256_variant = 64" by (simp add: v_block_def sha256_variant_def)
  have c: "sha2_bitcount ctx = word_of_nat (8 * length m)" and b: "buffered 64 (sha2_compress sha256_variant) iv (sha2_state ?c) (sha2_buffer ?c) m"
    using assms by (simp_all only: sha2_rep_def cnt256_def n) simp_all
  have u: "sha256_used (sha2_bitcount ctx) = length m mod 64"
    unfolding c sha256_used_def count_bytes by (simp add: mod_mod_cancel)
  have "bytes_le 8 ?b = be_length (8 * length m)"
    unfolding reverses_bytes [OF REVERSE64_reverses] be_length_def c ..
  then have "sha2_state (SHA2_Last sha256_variant 56 56 (length m mod 64) (bytes_le 8 ?b) ?c) =
      fst (absorb 64 (sha2_compress sha256_variant) iv (padded 64 8 be_length m))"
    using s256.Last_padded [where lenf = be_length and short = 56 and clear = 56 and bits = "bytes_le 8 ?b" and lb = 8, unfolded n, OF b refl] by simp
  then show ?thesis using out_reverses [OF REVERSE32_reverses]
    by (simp add: SHA256_Final_def Let_def u digest_ref_def sha256_fips)
qed

lemma bytes_le_nat: "8 * j \<le> LENGTH('l) \<Longrightarrow> bytes_le j (word_of_nat k :: 'l::len word) = map (\<lambda>i. word_of_nat (drop_bit (8 * i) k)) [0..<j]"
  by (auto simp: bytes_le_def byte_of_nat)

lemma be_length128_words: "be_length128 k = bytes_be 8 (word_of_nat (k div 2 ^ 64) :: ut64) @ bytes_be 8 (word_of_nat k :: ut64)"
proof -
  have "[0..<16] = [0..<8] @ map ((+) 8) [0..<8]" by (simp add: upt_conv_Cons)
  then have "map f [0..<16] = map f [0..<8] @ map (\<lambda>i. f (8 + i)) [0..<8]" for f :: "nat \<Rightarrow> u8" by (simp add: comp_def)
  moreover have "drop_bit (8 * (8 + i)) k = drop_bit (8 * i) (k div 2 ^ 64)" for i
    by (simp add: drop_bit_eq_div power_add div_mult2_eq distrib_left)
  ultimately show ?thesis
    by (simp only: be_length128_def bytes_be_def bytes_le_nat len_of_numeral_defs) (simp add: bytes_le_nat del: upt_conv_Cons upt_rec_numeral)
qed

lemma length_be_length128 [simp]: "length (be_length128 k) = 16"
  by (simp add: be_length128_def)

lemma sha512_rep_last:
  assumes "sha2_rep sha512_variant cnt512 iv ctx m"
  shows "sha2_state (SHA512_Last ctx) = fst (absorb 128 (sha2_compress fips512) iv (padded 128 16 be_length128 m))"
proof -
  let ?b0 = "REVERSE64 (fst (sha2_bitcount ctx))" let ?b1 = "REVERSE64 (snd (sha2_bitcount ctx))"
  let ?c = "ctx\<lparr>sha2_bitcount := (?b0, ?b1)\<rparr>"
  have n: "v_block sha512_variant = 128" by (simp add: v_block_def sha512_variant_def)
  have c: "sha2_bitcount ctx = (word_of_nat (8 * length m), word_of_nat (8 * length m div 2 ^ 64))"
    and b: "buffered 128 (sha2_compress sha512_variant) iv (sha2_state ?c) (sha2_buffer ?c) m"
    using assms by (simp_all only: sha2_rep_def cnt512_def n) simp_all
  have u: "sha512_used (sha2_bitcount ctx) = length m mod 128"
    unfolding c sha512_used_def fst_conv count_bytes by (simp add: mod_mod_cancel)
  have "bytes_le 8 ?b1 @ bytes_le 8 ?b0 = be_length128 (8 * length m)"
    unfolding reverses_bytes [OF REVERSE64_reverses] be_length128_words c by simp
  then show ?thesis
    using s512.Last_padded [where lenf = be_length128 and short = 112 and clear = 126 and bits = "bytes_le 8 ?b1 @ bytes_le 8 ?b0" and lb = 16, unfolded n, OF b refl]
    by (simp add: SHA512_Last_def Let_def u sha512_fips)
qed

lemma sha512_rep_final:
  assumes "sha2_rep sha512_variant cnt512 iv ctx m"
  shows "fst (SHA512_Final ctx) = digest_ref 128 16 be_length128 (sha2_compress fips512) iv (words_out 8) m"
    "fst (SHA384_Final ctx) = digest_ref 128 16 be_length128 (sha2_compress fips512) iv (\<lambda>H. words_out 8 (take 6 H)) m"
  using sha512_rep_last [OF assms] out_reverses [OF REVERSE64_reverses]
  by (simp_all add: SHA512_Final_def SHA384_Final_def Let_def digest_ref_def)

lemma sha256_rep_init: "sha2_rep sha256_variant cnt256 sha256_initial_hash_value SHA256_Init []"
  by (simp add: sha2_rep_def SHA256_Init_def cnt256_def buffered_init v_block_def sha256_variant_def)

lemma sha512_rep_init: "length buf = 128 \<Longrightarrow> sha2_rep sha512_variant cnt512 iv \<lparr>sha2_state = iv, sha2_bitcount = (0, 0), sha2_buffer = buf\<rparr> []"
  by (simp add: sha2_rep_def cnt512_def buffered_init v_block_def sha512_variant_def)

interpretation sha256: stream_digest SHA256_Init SHA256_Update "\<lambda>ctx. fst (SHA256_Final ctx)"
  "digest_ref 64 8 be_length (sha2_compress fips256) sha256_initial_hash_value (words_out 4)"
  "sha2_rep sha256_variant cnt256 sha256_initial_hash_value" "\<lambda>xs. length xs < 2 ^ 61"
  by standard (simp_all add: sha256_rep_init sha256_rep_final s256.rep_update SHA256_Update_def)

interpretation sha512: stream_digest SHA512_Init SHA512_Update "\<lambda>ctx. fst (SHA512_Final ctx)"
  "digest_ref 128 16 be_length128 (sha2_compress fips512) sha512_initial_hash_value (words_out 8)"
  "sha2_rep sha512_variant cnt512 sha512_initial_hash_value" "\<lambda>xs. length xs < 2 ^ 61"
  by standard (simp_all add: SHA512_Init_def sha512_rep_init sha512_rep_final s512.rep_update SHA512_Update_def)

interpretation sha384: stream_digest SHA384_Init SHA384_Update "\<lambda>ctx. fst (SHA384_Final ctx)"
  "digest_ref 128 16 be_length128 (sha2_compress fips512) sha384_initial_hash_value (\<lambda>H. words_out 8 (take 6 H))"
  "sha2_rep sha512_variant cnt512 sha384_initial_hash_value" "\<lambda>xs. length xs < 2 ^ 61"
  by standard (simp_all add: SHA384_Init_def sha512_rep_init sha512_rep_final s512.rep_update SHA512_Update_def SHA384_Update_def)

text \<open>
  C29 The digests that SHA-256, SHA-512 and SHA-384 compute over any sequence of updates are the ones that FIPS 180-2 describes for the
  concatenation: the schedule kept in a ring of 16 words over the buffer, the counters of 64 and of 128 bits, the reversal of bytes on a little-endian
  host and the padding in place agree with the description.
\<close>

theorem sha2_pieces:
  assumes "\<forall>xs \<in> set chunks. length xs < 2 ^ 61"
  shows "fst (SHA256_Final (fold SHA256_Update chunks SHA256_Init)) =
      digest_ref 64 8 be_length (sha2_compress fips256) sha256_initial_hash_value (words_out 4) (concat chunks) \<and>
    fst (SHA512_Final (fold SHA512_Update chunks SHA512_Init)) =
      digest_ref 128 16 be_length128 (sha2_compress fips512) sha512_initial_hash_value (words_out 8) (concat chunks) \<and>
    fst (SHA384_Final (fold SHA384_Update chunks SHA384_Init)) =
      digest_ref 128 16 be_length128 (sha2_compress fips512) sha384_initial_hash_value (\<lambda>H. words_out 8 (take 6 H)) (concat chunks)"
  using sha256.pieces [OF assms] sha512.pieces [OF assms] sha384.pieces [OF assms] by blast

theorem sha2_pieces_witness:
  "fst (SHA256_Final (fold SHA256_Update [[0x61], [], [0x62, 0x63]] SHA256_Init)) =
     digest_ref 64 8 be_length (sha2_compress fips256) sha256_initial_hash_value (words_out 4) [0x61, 0x62, 0x63]"
  using sha2_pieces [of "[[0x61], [], [0x62, 0x63]]"] by simp

text \<open>The constants, as FIPS 180-2 derives them: the first bits of the fractional parts of roots of the first primes.\<close>

definition small_primes :: "nat list" where
  "small_primes = fold (\<lambda>d. filter (\<lambda>p. p \<le> d \<or> \<not> d dvd p)) [2, 3, 5, 7, 11, 13, 17, 19] [2..<410]"

definition int_root :: "nat \<Rightarrow> nat \<Rightarrow> nat" where
  "int_root e p = length (takeWhile (\<lambda>q. q ^ e \<le> p) [1, 2, 3, 4, 5, 6, 7, 8])"

definition root_frac :: "nat \<Rightarrow> nat \<Rightarrow> nat \<Rightarrow> nat \<Rightarrow> bool" where
  "root_frac e b p k \<longleftrightarrow> (let x = int_root e p * 2 ^ b + k in x ^ e \<le> p * 2 ^ (b * e) \<and> p * 2 ^ (b * e) < (x + 1) ^ e)"

lemma small_primes_eval: "small_primes =
   [2, 3, 5, 7, 11, 13, 17, 19, 23, 29, 31, 37, 41, 43, 47, 53, 59, 61, 67, 71,
    73, 79, 83, 89, 97, 101, 103, 107, 109, 113, 127, 131, 137, 139, 149, 151, 157, 163, 167, 173,
    179, 181, 191, 193, 197, 199, 211, 223, 227, 229, 233, 239, 241, 251, 257, 263, 269, 271, 277, 281,
    283, 293, 307, 311, 313, 317, 331, 337, 347, 349, 353, 359, 367, 373, 379, 383, 389, 397, 401, 409]"
  by (simp add: small_primes_def)

lemmas sha2_roots = small_primes_eval int_root_def root_frac_def K256_def K512_def sha256_initial_hash_value_def sha512_initial_hash_value_def sha384_initial_hash_value_def

lemma K256_roots: "list_all2 (\<lambda>p k. root_frac 3 32 p (unat k)) (take 64 small_primes) K256"
  by (simp add: sha2_roots)

lemma K512_roots_parts:
  "list_all2 (\<lambda>p k. root_frac 3 64 p (unat k)) (take 20 small_primes) (take 20 K512)"
  "list_all2 (\<lambda>p k. root_frac 3 64 p (unat k)) (take 20 (drop 20 small_primes)) (take 20 (drop 20 K512))"
  by (simp add: sha2_roots)+

lemma K512_roots_rest:
  "list_all2 (\<lambda>p k. root_frac 3 64 p (unat k)) (take 20 (drop 40 small_primes)) (take 20 (drop 40 K512))"
  "list_all2 (\<lambda>p k. root_frac 3 64 p (unat k)) (drop 60 small_primes) (drop 60 K512)"
  by (simp add: sha2_roots)+

lemma four_parts: "xs = take 20 xs @ take 20 (drop 20 xs) @ take 20 (drop 40 xs) @ drop 60 xs"
  using append_take_drop_id [of 20 xs] append_take_drop_id [of 20 "drop 20 xs"] append_take_drop_id [of 20 "drop 40 xs"]
  by (simp only: drop_drop numeral_plus_numeral add_num_simps)

lemma K512_roots: "list_all2 (\<lambda>p k. root_frac 3 64 p (unat k)) small_primes K512"
  by (subst four_parts [of small_primes], subst four_parts [of K512]) (intro list_all2_appendI K512_roots_parts K512_roots_rest)

lemma initial_roots:
  "list_all2 (\<lambda>p k. root_frac 2 32 p (unat k)) (take 8 small_primes) sha256_initial_hash_value"
  "list_all2 (\<lambda>p k. root_frac 2 64 p (unat k)) (take 8 small_primes) sha512_initial_hash_value"
  "list_all2 (\<lambda>p k. root_frac 2 64 p (unat k)) (take 8 (drop 8 small_primes)) sha384_initial_hash_value"
  by (simp_all add: sha2_roots)

text \<open>
  Every constant of the three digests is the one of FIPS 180-2: \<^verbatim>\<open>K256\<close> and \<^verbatim>\<open>K512\<close> bound the cube roots of the first 64 and 80 primes from below
  within one unit of their last bit, the initial values the square roots of the first eight primes and, for SHA-384, of the next eight.
\<close>

theorem sha2_constants:
  "list_all2 (\<lambda>p k. root_frac 3 32 p (unat k)) (take 64 small_primes) K256 \<and> list_all2 (\<lambda>p k. root_frac 3 64 p (unat k)) small_primes K512 \<and>
   list_all2 (\<lambda>p k. root_frac 2 32 p (unat k)) (take 8 small_primes) sha256_initial_hash_value \<and>
   list_all2 (\<lambda>p k. root_frac 2 64 p (unat k)) (take 8 small_primes) sha512_initial_hash_value \<and>
   list_all2 (\<lambda>p k. root_frac 2 64 p (unat k)) (take 8 (drop 8 small_primes)) sha384_initial_hash_value"
  using K256_roots K512_roots initial_roots by blast

end
