(* ===== verification/Rahash.thy ===== *)
theory Rahash
  imports Md4 Md5 Sha1 Sha2 Crc
begin

text \<open>
  The small checksums of rahash (\<^verbatim>\<open>src/src/rahash/hash.c\<close>, \<^verbatim>\<open>hamdist.c\<close>) and the generation of digests block by block
  (\<^verbatim>\<open>rahash.c\<close>). \<open>None\<close> is a division by zero, an overflow of \<^verbatim>\<open>int\<close> or an access outside the buffer. What is printed is an event.
\<close>

section \<open>Small checksums\<close>

definition is_pr :: "u8 \<Rightarrow> bool" where
  "is_pr c \<longleftrightarrow> \<not> (c < 0x20 \<or> 0x7e < c)"

definition hash_pcprint :: "u8 list \<Rightarrow> nat option" where
  "hash_pcprint buffer =
     (let n = fold (\<lambda>b n. if is_pr b then n + 1 else n) buffer 0
      in if length buffer = 0 \<or> 2 ^ 31 \<le> 100 * n then None else Some (100 * n div length buffer))"

definition ones :: "u8 \<Rightarrow> nat" where
  "ones x = (if x AND 128 \<noteq> 0 then 1 else 0) + (if x AND 64 \<noteq> 0 then 1 else 0) + (if x AND 32 \<noteq> 0 then 1 else 0) + (if x AND 16 \<noteq> 0 then 1 else 0) +
     (if x AND 8 \<noteq> 0 then 1 else 0) + (if x AND 4 \<noteq> 0 then 1 else 0) + (if x AND 2 \<noteq> 0 then 1 else 0) + (if x AND 1 \<noteq> 0 then 1 else 0)"

definition hash_par :: "u8 list \<Rightarrow> nat" where
  "hash_par buffer = fold (\<lambda>x n. n + ones x) buffer 0 mod 2"

fun xorpair_loop :: "u8 list \<Rightarrow> ut16 \<Rightarrow> ut16" where
  "xorpair_loop (a # b # bs) result = xorpair_loop bs (result XOR (ucast a OR push_bit 8 (ucast b)))"
| "xorpair_loop _ result = result"

definition hash_xorpair :: "u8 list \<Rightarrow> ut16" where
  "hash_xorpair a = xorpair_loop a 0"

definition hash_xor :: "u8 list \<Rightarrow> u8" where
  "hash_xor b = fold (\<lambda>x res. res XOR x) b 0"

definition hash_mod255 :: "u8 list \<Rightarrow> nat option" where
  "hash_mod255 b = (let c = fold (\<lambda>x c. c + unat x) b 0 in if 2 ^ 31 \<le> c then None else Some (c mod 255))"

lemma word_and_pred_less: "v \<noteq> 0 \<Longrightarrow> unat (v AND (v - 1)) < unat (v :: 'l::len word)"
  using word_and_le1 [of v "v - 1"] by (simp add: word_less_nat_alt word_le_nat_alt unat_minus_one) (metis Suc_pred le_imp_less_Suc unat_gt_0)

function ham_loop :: "ut32 \<Rightarrow> nat \<Rightarrow> nat" where
  "ham_loop val dist = (if val \<noteq> 0 then ham_loop (val AND (val - 1)) (dist + 1) else dist)"
  by pat_completeness auto
termination by (relation "measure (\<lambda>(val, dist). unat val)") (auto simp: word_and_pred_less)

declare ham_loop.simps [simp del]

definition hamdist :: "ut32 \<Rightarrow> ut64 \<Rightarrow> nat" where
  "hamdist x y = ham_loop (ucast (scast x XOR y)) 0"

definition hash_hamdist :: "u8 list \<Rightarrow> u8" where
  "hash_hamdist buf = word_of_nat (fold (\<lambda>b x. hamdist (word_of_nat x) (scast b)) buf 0)"

text \<open>The number of set bits.\<close>

fun popcount :: "nat \<Rightarrow> nat" where
  "popcount n = (if n = 0 then 0 else n mod 2 + popcount (n div 2))"

declare popcount.simps [simp del]

lemma popcount_double: "popcount (2 * n) = popcount n" "popcount (Suc (2 * n)) = Suc (popcount n)"
  by (simp_all add: popcount.simps [of "2 * n"] popcount.simps [of "Suc (2 * n)"] popcount.simps [of 0])

lemma popcount_clear: "0 < n \<Longrightarrow> Suc (popcount (n AND (n - 1))) = popcount n"
proof (induction n rule: less_induct)
  case (less n)
  show ?case
  proof (cases "even n")
    case False
    then obtain m where n: "n = Suc (2 * m)" by (metis oddE Suc_eq_plus1)
    have "n AND (n - 1) = 2 * m" unfolding n by (subst and_rec) simp
    then show ?thesis by (simp add: n popcount_double)
  next
    case True
    then obtain m where n: "n = 2 * m" by (metis evenE)
    then have m: "0 < m" "m < n" using less.prems by auto
    then have "n - 1 = Suc (2 * (m - 1))" using n by linarith
    then have "n AND (n - 1) = 2 * (m AND (m - 1))" using n by (subst and_rec) simp
    then show ?thesis using less.IH [OF m(2,1)] by (simp add: n popcount_double)
  qed
qed

lemma ham_loop_popcount: "ham_loop v d = d + popcount (unat v)"
proof (induction v d rule: ham_loop.induct)
  case (1 v d)
  show ?case
  proof (cases "v = 0")
    case False
    then have "unat (v AND (v - 1)) = (unat v AND (unat v - 1))" by (simp add: unsigned_and_eq unat_minus_one)
    then show ?thesis using 1 [OF False] popcount_clear [of "unat v"] False unat_gt_0 [of v]
      by (subst ham_loop.simps) simp
  qed (simp add: ham_loop.simps [of 0] popcount.simps [of 0])
qed

section \<open>Digests of blocks\<close>

datatype algo = ALGO_MD4 | ALGO_MD5 | ALGO_CRC16 | ALGO_CRC32 | ALGO_SHA1 | ALGO_SHA256 | ALGO_SHA384 | ALGO_SHA512 | ALGO_PAR | ALGO_XOR | ALGO_XORPAIR
  | ALGO_HAMDIST | ALGO_ENTROPY | ALGO_MOD255 | ALGO_ALL

definition algo_number :: "algo \<Rightarrow> nat" where
  "algo_number a = (case a of ALGO_MD4 \<Rightarrow> 0 | ALGO_MD5 \<Rightarrow> 1 | ALGO_CRC16 \<Rightarrow> 2 | ALGO_CRC32 \<Rightarrow> 3 | ALGO_SHA1 \<Rightarrow> 4 | ALGO_SHA256 \<Rightarrow> 5 | ALGO_SHA384 \<Rightarrow> 6
     | ALGO_SHA512 \<Rightarrow> 7 | ALGO_PAR \<Rightarrow> 8 | ALGO_XOR \<Rightarrow> 9 | ALGO_XORPAIR \<Rightarrow> 10 | ALGO_HAMDIST \<Rightarrow> 11 | ALGO_ENTROPY \<Rightarrow> 12 | ALGO_MOD255 \<Rightarrow> 13 | ALGO_ALL \<Rightarrow> 0x77)"

definition algorithms :: "(string \<times> nat) list" where
  "algorithms = [(''md4'', 16), (''md5'', 16), (''crc16'', 2), (''crc32'', 4), (''sha1'', 20), (''sha256'', 32), (''sha384'', 48), (''sha512'', 64),
     (''par'', 1), (''xor'', 1), (''xorpair'', 4), (''hamdist'', 1), (''entropy'', 4), (''mod255'', 1), (''unknown'', 0)]"

text \<open>\<open>None\<close> is a read behind the table.\<close>

definition algo_size :: "algo \<Rightarrow> nat option" where
  "algo_size a = (if algo_number a < length algorithms then Some (snd (algorithms ! algo_number a)) else None)"

record header_t =
  h_file_size :: ut64
  h_from :: ut64
  h_to :: ut64
  h_length :: ut64
  h_algorithm :: algo
  h_block_size :: ut64

datatype hash_event = Hash_error string | Hash_warning string | Hash_digest ut64 "u8 list" | Hash_entropy ut64 string

text \<open>The range of a file of the given size, or the message of the failure; the second component lists the warnings.\<close>

definition hash_range :: "ut64 \<Rightarrow> header_t \<Rightarrow> string + (header_t \<times> hash_event list)" where
  "hash_range file_size h =
     (let h = h\<lparr>h_file_size := file_size\<rparr>;
          h = (if h_length h \<noteq> 0 then h\<lparr>h_to := h_from h + h_length h\<rparr> else h)
      in if h_from h \<noteq> 0 \<and> h_file_size h < h_from h then Inl ''Initial seek out of range.''
         else
           (let w1 = (if h_length h \<noteq> 0 \<and> h_file_size h < h_from h + h_length h then [Hash_warning ''Length too far.''] else []);
                h = h\<lparr>h_length := h_file_size h - h_from h\<rparr>;
                w2 = (if h_to h \<noteq> 0 \<and> h_file_size h < h_to h then [Hash_warning ''End reaches EOF.''] else []);
                h = (if h_to h \<noteq> 0 then
                       (let h = (if h_file_size h < h_to h then h\<lparr>h_to := h_file_size h\<rparr> else h) in h\<lparr>h_length := h_to h - h_from h\<rparr>)
                     else h\<lparr>h_to := h_file_size h\<rparr>)
            in if h_from h \<noteq> 0 \<and> h_to h \<le> h_from h then Inl ''Initial seek cannot be greater than end.''
               else Inr (if h_file_size h = 0 then h\<lparr>h_file_size := - 1\<rparr> else h, w1 @ w2)))"

record hash_ctx =
  hc_md5 :: "ut32 MD5_CTX"
  hc_sha1 :: SHA_CTX
  hc_sha256 :: SHA256_CTX
  hc_sha384 :: SHA512_CTX
  hc_sha512 :: SHA512_CTX

text \<open>\<^verbatim>\<open>main\<close> initialises the context of the chosen algorithm once.\<close>

definition hash_init :: "algo \<Rightarrow> hash_ctx \<Rightarrow> hash_ctx" where
  "hash_init a c = (case a of
       ALGO_MD5 \<Rightarrow> c\<lparr>hc_md5 := MD5Init (md5_buffer (hc_md5 c))\<rparr>
     | ALGO_SHA1 \<Rightarrow> c\<lparr>hc_sha1 := SHA1_Init\<rparr>
     | ALGO_SHA256 \<Rightarrow> c\<lparr>hc_sha256 := SHA256_Init\<rparr>
     | ALGO_SHA384 \<Rightarrow> c\<lparr>hc_sha384 := SHA384_Init\<rparr>
     | ALGO_SHA512 \<Rightarrow> c\<lparr>hc_sha512 := SHA512_Init\<rparr>
     | _ \<Rightarrow> c)"

text \<open>The \<^verbatim>\<open>switch\<close> over the algorithm: the bytes stored at the start of \<^verbatim>\<open>digest\<close> and the contexts.\<close>

definition hash_block :: "algo \<Rightarrow> u8 list \<Rightarrow> hash_ctx \<Rightarrow> (u8 list \<times> hash_ctx) option" where
  "hash_block a data c = (case a of
       ALGO_PAR \<Rightarrow> Some ([word_of_nat (hash_par data)], c)
     | ALGO_XOR \<Rightarrow> Some ([hash_xor data], c)
     | ALGO_XORPAIR \<Rightarrow> Some (bytes_le 2 (hash_xorpair data), c)
     | ALGO_MD5 \<Rightarrow> map_option (\<lambda>(d, m). (d, c\<lparr>hc_md5 := m\<rparr>)) (Option.bind (MD5Update data (hc_md5 c)) MD5Final)
     | ALGO_MD4 \<Rightarrow> Some (mdfour data, c)
     | ALGO_CRC16 \<Rightarrow> Some (bytes_be 2 (crc16 0 data) @ [0, 0], c)
     | ALGO_CRC32 \<Rightarrow> Some (bytes_be 4 (crc32 data), c)
     | ALGO_SHA1 \<Rightarrow> (case SHA1_Final (SHA1_Update data (hc_sha1 c)) of None \<Rightarrow> None | Some (d, s) \<Rightarrow> Some (d, c\<lparr>hc_sha1 := s\<rparr>))
     | ALGO_SHA256 \<Rightarrow> (let (d, s) = SHA256_Final (SHA256_Update data (hc_sha256 c)) in Some (d, c\<lparr>hc_sha256 := s\<rparr>))
     | ALGO_SHA384 \<Rightarrow> (let (d, s) = SHA384_Final (SHA384_Update data (hc_sha384 c)) in Some (d, c\<lparr>hc_sha384 := s\<rparr>))
     | ALGO_SHA512 \<Rightarrow> (let (d, s) = SHA512_Final (SHA512_Update data (hc_sha512 c)) in Some (d, c\<lparr>hc_sha512 := s\<rparr>))
     | ALGO_HAMDIST \<Rightarrow> Some ([hash_hamdist data], c)
     | ALGO_ENTROPY \<Rightarrow> Some ([], c)
     | ALGO_MOD255 \<Rightarrow> map_option (\<lambda>n. ([word_of_nat n], c)) (hash_mod255 data)
     | ALGO_ALL \<Rightarrow> None)"

text \<open>
  The loop over the blocks of a regular file: \<open>file\<close> are the bytes not yet read, \<open>ent\<close> is the text of the entropy of some bytes, \<open>sz\<close> the size of the
  algorithm. The result is the return value and the events.
\<close>

function hash_loop :: "(u8 list \<Rightarrow> string) \<Rightarrow> bool \<Rightarrow> header_t \<Rightarrow> nat \<Rightarrow> u8 list \<Rightarrow> ut64 \<Rightarrow> u8 list \<Rightarrow> u8 list \<Rightarrow> hash_ctx \<Rightarrow> (nat \<times> hash_event list) option" where
  "hash_loop ent verbose h sz file ptr digest buffer c =
     (if \<not> (h_file_size h = - 1 \<or> ptr < h_to h) then Some (0, [])
      else
        (let n = min (unat (h_block_size h)) (length file)
         in if n = 0 then Some (0, [])
            else if sint (word_of_nat n :: 32 word) < 0 then Some (1, [Hash_error ''Unexpected error reading from the source file.''])
            else
              (let buf = put_at buffer 0 (take n file);
                   len = (if h_length h \<noteq> - 1 \<and> h_length h < h_block_size h then unat (h_length h) else n);
                   from = unat (h_from h)
               in if length buf < from + len then None
                  else case hash_block (h_algorithm h) (take len (drop from buf)) c of
                         None \<Rightarrow> None
                       | Some (d, c') \<Rightarrow>
                           (let digest' = put_at digest 0 d;
                                out = (if \<not> verbose then [] else if h_algorithm h = ALGO_ENTROPY then [Hash_entropy ptr (ent (take len (drop from buf)))]
                                       else [Hash_digest ptr (take sz digest')])
                            in case hash_loop ent verbose h sz (drop n file) (ptr + h_block_size h) digest' buf c' of
                                 None \<Rightarrow> None
                               | Some (ret, es) \<Rightarrow> Some (ret, out @ es)))))"
  by pat_completeness auto
termination by (relation "measure (\<lambda>(ent, verbose, h, sz, file, ptr, digest, buffer, c). length file)") auto

declare hash_loop.simps [simp del]

text \<open>
  Without a hash file: \<open>digest\<close> and \<open>buffer\<close> are the contents of the allocated memory. \<^verbatim>\<open>print_header\<close>, which runs before the loop, divides by the
  block size.
\<close>

definition radare_hash_generate ::
  "(u8 list \<Rightarrow> string) \<Rightarrow> bool \<Rightarrow> header_t \<Rightarrow> u8 list \<Rightarrow> u8 list \<Rightarrow> u8 list \<Rightarrow> hash_ctx \<Rightarrow> (nat \<times> hash_event list) option" where
  "radare_hash_generate ent verbose h file digest buffer c =
     (case algo_size (h_algorithm h) of
        None \<Rightarrow> None
      | Some sz \<Rightarrow>
          (case hash_range (word_of_nat (length file)) h of
             Inl msg \<Rightarrow> Some (1, [Hash_error msg])
           | Inr (h', warnings) \<Rightarrow>
               if h_block_size h' = 0 then None
               else (case hash_loop ent verbose h' sz file (h_from h') (put_at digest 0 (replicate sz 0)) buffer c of
                  None \<Rightarrow> None
                | Some (ret, es) \<Rightarrow> Some (ret, warnings @ es))))"

section \<open>Results\<close>

lemma fold_count: "fold (\<lambda>b n. if P b then n + 1 else n) xs (k :: nat) = k + length (filter P xs)"
  by (induction xs arbitrary: k) simp_all

lemma fold_plus: "fold (\<lambda>x n. n + f x) xs (k :: nat) = k + sum_list (map f xs)"
  by (induction xs arbitrary: k) simp_all

lemma length_filter_sum: "length (filter P xs) = sum_list (map (\<lambda>x. if P x then 1 else 0) xs)"
  by (induction xs) simp_all

lemma ones_bits: "ones x = length (filter (bit x) [0..<8])"
proof -
  have "x AND 1 = 0 \<longleftrightarrow> \<not> bit x 0" "x AND 2 = 0 \<longleftrightarrow> \<not> bit x 1" "x AND 4 = 0 \<longleftrightarrow> \<not> bit x 2" "x AND 8 = 0 \<longleftrightarrow> \<not> bit x 3"
    "x AND 16 = 0 \<longleftrightarrow> \<not> bit x 4" "x AND 32 = 0 \<longleftrightarrow> \<not> bit x 5" "x AND 64 = 0 \<longleftrightarrow> \<not> bit x 6" "x AND 128 = 0 \<longleftrightarrow> \<not> bit x 7"
    using and_exp_eq_0_iff_not_bit [of x 0] and_exp_eq_0_iff_not_bit [of x 1] and_exp_eq_0_iff_not_bit [of x 2] and_exp_eq_0_iff_not_bit [of x 3]
      and_exp_eq_0_iff_not_bit [of x 4] and_exp_eq_0_iff_not_bit [of x 5] and_exp_eq_0_iff_not_bit [of x 6] and_exp_eq_0_iff_not_bit [of x 7] by simp_all
  moreover have "[0..<8] = [0, 1, 2, 3, 4, 5, 6, 7]" by (simp add: upt_conv_Cons)
  ultimately show ?thesis unfolding ones_def length_filter_sum by (simp add: ac_simps)
qed

lemma popcount_bound: "n < 2 ^ k \<Longrightarrow> popcount n \<le> k"
proof (induction k arbitrary: n)
  case (Suc k)
  then have "n div 2 < 2 ^ k" by (simp add: less_mult_imp_div_less mult.commute)
  then show ?case using Suc.IH [of "n div 2"] popcount.simps [of n] by (auto split: if_splits)
qed (simp add: popcount.simps)

lemma hamdist_bound: "hamdist x y \<le> 32"
proof -
  have "unat w < 2 ^ 32" for w :: ut32 using unsigned_less [of w] by simp
  then show ?thesis by (simp add: hamdist_def ham_loop_popcount popcount_bound del: power_numeral)
qed

text \<open>
  The percentage of printable bytes is at most 100, as its comment says, the parity is the parity of the number of set bits, the sum is kept modulo 255, and the
  distance that \<^verbatim>\<open>hamdist\<close> counts by clearing the lowest bit until none is left is the number of bits in which the two values differ, at most 32.
\<close>

theorem small_hashes_bounds:
  "pred_option (\<lambda>p. p \<le> 100) (hash_pcprint buf) \<and> (hash_pcprint buf = None \<longleftrightarrow> buf = [] \<or> 2 ^ 31 \<le> 100 * length (filter is_pr buf)) \<and>
   hash_par buf = length (filter (\<lambda>(b, i). bit b i) (List.product buf [0..<8])) mod 2 \<and>
   pred_option (\<lambda>m. m = sum_list (map unat buf) mod 255 \<and> m < 255) (hash_mod255 buf) \<and>
   hamdist x y = popcount (unat (ucast (scast x XOR y) :: ut32)) \<and> hamdist x y \<le> 32"
proof -
  have "100 * length (filter is_pr buf) div length buf \<le> 100 * length buf div length buf" by (intro div_le_mono) simp
  also have "\<dots> \<le> 100" by (cases "buf = []") simp_all
  finally have "pred_option (\<lambda>p. p \<le> 100) (hash_pcprint buf)" by (simp add: hash_pcprint_def Let_def fold_count)
  moreover have "sum_list (map (\<lambda>b. length (filter (bit b) is)) buf) = length (filter (\<lambda>(b, i). bit b i) (List.product buf is))" for "is"
    by (induction buf) (simp_all add: filter_map comp_def)
  then have "hash_par buf = length (filter (\<lambda>(b, i). bit b i) (List.product buf [0..<8])) mod 2"
    unfolding hash_par_def fold_plus ones_bits by simp
  moreover have "hash_pcprint buf = None \<longleftrightarrow> buf = [] \<or> 2 ^ 31 \<le> 100 * length (filter is_pr buf)"
    by (simp add: hash_pcprint_def Let_def fold_count)
  ultimately show ?thesis using hamdist_bound [of x y]
    by (simp add: hash_mod255_def Let_def fold_plus hamdist_def ham_loop_popcount)
qed

text \<open>
  When rahash accepts a range, the range lies in the file: its end is not behind the file, it is not empty unless it starts at 0, and the length is the distance of its
  ends, for all values of the options, also where the sum of offset and length wraps around.
\<close>

theorem hash_range_inside:
  assumes "hash_range fs h = Inr (h', ws)"
  shows "h_to h' \<le> fs \<and> (h_from h' = 0 \<or> h_from h' < h_to h') \<and> h_length h' = h_to h' - h_from h' \<and> h_from h' = h_from h"
  using assms by (auto simp: hash_range_def Let_def not_le word_gt_0 split: if_splits)

theorem hash_range_inside_witness:
  "\<exists>h' ws. hash_range 100 \<lparr>h_file_size = 0, h_from = 10, h_to = 0, h_length = 200, h_algorithm = ALGO_SHA1, h_block_size = 32\<rparr> = Inr (h', ws) \<and>
     h_to h' \<le> 100 \<and> h_length h' = h_to h' - h_from h'"
proof -
  obtain h' ws where "hash_range 100 \<lparr>h_file_size = 0, h_from = 10, h_to = 0, h_length = 200, h_algorithm = ALGO_SHA1, h_block_size = 32\<rparr> = Inr (h', ws)"
    by (simp add: hash_range_def)
  then show ?thesis using hash_range_inside by blast
qed

section \<open>Blocks of a file\<close>

text \<open>What is expected: the digest of every block of the file, at its offset.\<close>

function block_events :: "(u8 list \<Rightarrow> u8 list) \<Rightarrow> nat \<Rightarrow> nat \<Rightarrow> u8 list \<Rightarrow> hash_event list" where
  "block_events f n i file = (if n = 0 \<or> file = [] then [] else Hash_digest (word_of_nat i) (f (take n file)) # block_events f n (i + n) (drop n file))"
  by pat_completeness auto
termination by (relation "measure (\<lambda>(f, n, i, file). length file)") auto

declare block_events.simps [simp del]

lemma sint_small: "n < 2 ^ 31 \<Longrightarrow> sint (word_of_nat n :: 32 word) = int n"
  by (simp add: signed_of_nat signed_take_bit_int_eq_self)

text \<open>
  An algorithm whose context is ready for the next message after every block: \<open>f\<close> is its digest for inputs shorter than \<open>bound\<close>, \<open>ready\<close> the contexts that
  are ready.
\<close>

locale block_digest =
  fixes a :: algo and f :: "u8 list \<Rightarrow> u8 list" and ready :: "hash_ctx \<Rightarrow> bool" and sz bound :: nat
  assumes size_known: "algo_size a = Some sz" and size_small: "sz \<le> 1024" and not_entropy: "a \<noteq> ALGO_ENTROPY" and bound: "bound \<le> 2 ^ 31"
    and block: "ready c \<Longrightarrow> length data < bound \<Longrightarrow> \<exists>c'. hash_block a data c = Some (f data, c') \<and> ready c'"
    and digest_size: "length data < bound \<Longrightarrow> length (f data) = sz"
begin

lemma loop:
  assumes h: "h_algorithm h = a" "h_from h = 0" "0 < unat (h_block_size h)" "unat (h_block_size h) < bound" and small: "unat (h_to h) < 2 ^ 63"
    and buf: "length buffer = unat (h_block_size h)" and dig: "length digest = 1024"
    and "ready c" and "fl = [] \<or> unat ptr + length fl = unat (h_to h)"
    and "fl = [] \<or> h_block_size h \<le> h_length h \<or> unat (h_length h) = length fl"
  shows "hash_loop ent True h sz fl ptr digest buffer c = Some (0, block_events f (unat (h_block_size h)) (unat ptr) fl)"
  using assms(6-10)
proof (induction "length fl" arbitrary: fl ptr digest buffer c rule: less_induct)
  case less
  let ?b = "unat (h_block_size h)"
  show ?case
  proof (cases "fl = []")
    case True
    then show ?thesis by (subst hash_loop.simps) (simp add: block_events.simps [of f ?b])
  next
    case False
    define n where "n = min ?b (length fl)"
    have n: "0 < n" "n \<le> ?b" "n \<le> length fl" "n < bound" using False h(3,4) by (auto simp: n_def)
    have ptr: "unat ptr + length fl = unat (h_to h)" using less.prems(4) False by simp
    moreover have "0 < length fl" using False by simp
    ultimately have cond: "ptr < h_to h" unfolding word_less_nat_alt by linarith
    have len: "(if h_length h \<noteq> - 1 \<and> h_length h < h_block_size h then unat (h_length h) else n) = n"
      using less.prems(5) False by (auto simp: n_def not_le word_less_nat_alt word_le_nat_alt)
    have int: "\<not> sint (word_of_nat n :: 32 word) < 0" using n(4) bound by (simp add: sint_small)
    define buf where "buf = put_at buffer 0 (take n fl)"
    have b: "length buf = ?b" "take n buf = take n fl" using less.prems(1) n by (simp_all add: buf_def put_at_def)
    obtain c' where c': "hash_block a (take n fl) c = Some (f (take n fl), c')" "ready c'"
      using block [OF less.prems(3), of "take n fl"] n by auto
    have d: "length (f (take n fl)) = sz" using digest_size [of "take n fl"] n by simp
    then have d': "take sz (put_at digest 0 (f (take n fl))) = f (take n fl)" "length (put_at digest 0 (f (take n fl))) = 1024"
      using size_small less.prems(2) by (simp_all add: put_at_def)
    have next_ptr: "drop n fl = [] \<or> unat (ptr + h_block_size h) + length (drop n fl) = unat (h_to h)"
    proof (cases "drop n fl = []")
      case False
      then have "n = ?b" by (auto simp: n_def min_def split: if_splits)
      moreover have "unat (ptr + h_block_size h) = unat ptr + ?b"
        using ptr n small \<open>n = ?b\<close> by (intro unat_add_lem [THEN iffD1]) simp
      ultimately show ?thesis using ptr n by simp
    qed simp
    have next_len: "drop n fl = [] \<or> h_block_size h \<le> h_length h \<or> unat (h_length h) = length (drop n fl)"
      using less.prems(5) False by (auto simp: n_def word_le_nat_alt min_def)
    have IH: "hash_loop ent True h sz (drop n fl) (ptr + h_block_size h) (put_at digest 0 (f (take n fl))) buf c' =
        Some (0, block_events f ?b (unat (ptr + h_block_size h)) (drop n fl))"
      using n False by (intro less.hyps b(1) d'(2) c'(2) next_ptr next_len) simp
    have ev: "block_events f ?b (unat (ptr + h_block_size h)) (drop n fl) = block_events f ?b (unat ptr + ?b) (drop ?b fl)"
    proof (cases "length fl \<le> ?b")
      case True
      then show ?thesis by (simp add: n_def block_events.simps [of f ?b _ "[]"])
    next
      case False
      then have "n = ?b" by (simp add: n_def)
      moreover have "unat (ptr + h_block_size h) = unat ptr + ?b"
        using ptr n small \<open>n = ?b\<close> by (intro unat_add_lem [THEN iffD1]) simp
      ultimately show ?thesis by simp
    qed
    have t: "take ?b fl = take n fl" by (simp add: n_def min_def)
    show ?thesis
      unfolding hash_loop.simps [of ent True h sz fl] Let_def n_def [symmetric] buf_def [symmetric] len
      using cond n int b c'(1) h not_entropy d' IH ev t False
      by (simp add: block_events.simps [of f ?b "unat ptr" fl])
  qed
qed

lemma generate:
  assumes h: "h_algorithm h = a" "h_from h = 0" "h_to h = 0" "h_length h = 0" "0 < unat (h_block_size h)" "unat (h_block_size h) < bound"
    and fl: "length fl < 2 ^ 63" and mem: "length buffer = unat (h_block_size h)" "length digest = 1024" and "ready c"
  shows "radare_hash_generate ent True h fl digest buffer c = Some (0, block_events f (unat (h_block_size h)) 0 fl)"
proof -
  let ?n = "word_of_nat (length fl) :: ut64"
  define h' where "h' = h\<lparr>h_file_size := (if ?n = 0 then - 1 else ?n), h_length := ?n, h_to := ?n\<rparr>"
  have r: "hash_range ?n h = Inr (h', [])" using h by (simp add: hash_range_def Let_def h'_def)
  have u: "unat ?n = length fl" using fl by (simp add: unsigned_of_nat take_bit_nat_eq_self)
  have "hash_loop ent True h' sz fl 0 (put_at digest 0 (replicate sz 0)) buffer c = Some (0, block_events f (unat (h_block_size h')) (unat (0 :: ut64)) fl)"
    using h fl mem assms(10) size_small u by (intro loop) (simp_all add: h'_def)
  then show ?thesis using h size_known r by (auto simp: radare_hash_generate_def h'_def)
qed

end

definition sha1_ref :: "u8 list \<Rightarrow> u8 list" where
  "sha1_ref = digest_ref 64 8 be_length sha1_compress sha1_iv sha1_bytes"

definition md4_ref :: "u8 list \<Rightarrow> u8 list" where
  "md4_ref = digest_ref 64 8 le_length md4_compress md4_iv md4_out"

lemma length_sha1_ref: "length (sha1_ref m) = 20"
proof -
  have "length (concat (map (bytes_be 4) H)) = 4 * length H" for H :: "ut32 list" by (induction H) simp_all
  then show ?thesis by (simp add: sha1_ref_def digest_ref_def sha1_bytes_def length_sha1_state)
qed

lemma length_md4_ref: "length (md4_ref m) = 16"
proof -
  have "length (fst (absorb 64 md4_compress md4_iv x)) = 4" for x by (rule absorb_inv) (simp_all add: md4_iv_def)
  moreover have "length (concat (map (bytes_le 4) H)) = 4 * length H" for H :: "ut32 list" by (induction H) simp_all
  ultimately show ?thesis by (simp add: md4_ref_def digest_ref_def md4_out_def)
qed

interpretation sha1_blocks: block_digest ALGO_SHA1 sha1_ref "\<lambda>c. hc_sha1 c = SHA1_Init" 20 "2 ^ 31"
proof
  fix c :: hash_ctx and data assume "hc_sha1 c = SHA1_Init"
  moreover have "SHA1_Final (SHA1_Update data SHA1_Init) = Some (sha1_ref data, SHA1_Init)"
    using sha_rep_final [OF sha_rep_update [OF sha1.rep_init]] by (simp add: sha1_ref_def)
  ultimately show "\<exists>c'. hash_block ALGO_SHA1 data c = Some (sha1_ref data, c') \<and> hc_sha1 c' = SHA1_Init"
    by (simp add: hash_block_def)
qed (simp_all add: length_sha1_ref algo_size_def algo_number_def algorithms_def)

interpretation md4_blocks: block_digest ALGO_MD4 md4_ref "\<lambda>c. True" 16 "2 ^ 28"
proof
  fix c :: hash_ctx and data :: "u8 list" assume "length data < 2 ^ 28"
  then show "\<exists>c'. hash_block ALGO_MD4 data c = Some (md4_ref data, c') \<and> True"
    using mdfour_reference [of data] by (simp add: hash_block_def md4_ref_def)
qed (simp_all add: length_md4_ref algo_size_def algo_number_def algorithms_def)

interpretation crc32_blocks: block_digest ALGO_CRC32 "\<lambda>m. bytes_be 4 (crc32 m)" "\<lambda>c. True" 4 "2 ^ 31"
  by standard (simp_all add: hash_block_def algo_size_def algo_number_def algorithms_def)

text \<open>
  C31 rahash over a whole regular file prints, for every block of the file in order, the offset of the block and its digest, for SHA-1, MD4 and CRC-32: the
  loop returns, no access leaves the buffer, the last block may be short, and no digest depends on a block before, on the allocated memory or on the
  digest before.
\<close>

theorem rahash_blocks:
  assumes "h_from h = 0" "h_to h = 0" "h_length h = 0" "0 < unat (h_block_size h)" "unat (h_block_size h) < 2 ^ 28"
    and "length fl < 2 ^ 63" and "length buffer = unat (h_block_size h)" "length digest = 1024"
  shows "radare_hash_generate ent True (h\<lparr>h_algorithm := ALGO_SHA1\<rparr>) fl digest buffer (hash_init ALGO_SHA1 c) =
      Some (0, block_events sha1_ref (unat (h_block_size h)) 0 fl) \<and>
    radare_hash_generate ent True (h\<lparr>h_algorithm := ALGO_MD4\<rparr>) fl digest buffer (hash_init ALGO_MD4 c) =
      Some (0, block_events md4_ref (unat (h_block_size h)) 0 fl) \<and>
    radare_hash_generate ent True (h\<lparr>h_algorithm := ALGO_CRC32\<rparr>) fl digest buffer (hash_init ALGO_CRC32 c) =
      Some (0, block_events (\<lambda>m. bytes_be 4 (crc32 m)) (unat (h_block_size h)) 0 fl)"
  using assms sha1_blocks.generate [of "h\<lparr>h_algorithm := ALGO_SHA1\<rparr>" fl buffer digest "hash_init ALGO_SHA1 c" ent]
    md4_blocks.generate [of "h\<lparr>h_algorithm := ALGO_MD4\<rparr>" fl buffer digest ent "hash_init ALGO_MD4 c"]
    crc32_blocks.generate [of "h\<lparr>h_algorithm := ALGO_CRC32\<rparr>" fl buffer digest ent "hash_init ALGO_CRC32 c"]
  by (simp add: hash_init_def)

definition demo_hash_ctx :: hash_ctx where
  "demo_hash_ctx = \<lparr>hc_md5 = MD5Init (replicate 64 0), hc_sha1 = SHA1_Init, hc_sha256 = SHA256_Init, hc_sha384 = SHA384_Init, hc_sha512 = SHA512_Init\<rparr>"

theorem rahash_blocks_witness:
  "radare_hash_generate (\<lambda>_. []) True \<lparr>h_file_size = 0, h_from = 0, h_to = 0, h_length = 0, h_algorithm = ALGO_SHA1, h_block_size = 2\<rparr>
     [0x61, 0x62, 0x63] (replicate 1024 7) [8, 9] (hash_init ALGO_SHA1 demo_hash_ctx) =
   Some (0, [Hash_digest 0 (sha1_ref [0x61, 0x62]), Hash_digest 2 (sha1_ref [0x63])])"
  using rahash_blocks [of "\<lparr>h_file_size = 0, h_from = 0, h_to = 0, h_length = 0, h_algorithm = ALGO_SHA1, h_block_size = 2\<rparr>"
      "[0x61, 0x62, 0x63]" "[8, 9]" "replicate 1024 7" "\<lambda>_. []" demo_hash_ctx]
  by (simp add: block_events.simps)

text \<open>
  MD5 is not among them: \<^verbatim>\<open>MD5Final\<close> clears the context and nothing initialises it for the next block, so the second digest starts from zeros.
\<close>

lemma md5_clears: "MD5Final ctx = Some (d, c) \<Longrightarrow> c = md5_cleared"
  by (auto simp: MD5Final_def Let_def split: option.splits)

lemma md5_second_block:
  "map_option fst (Option.bind (MD5Update [] (md5_cleared :: ut32 MD5_CTX)) MD5Final) \<noteq>
   map_option fst (Option.bind (MD5Update [] (MD5Init (replicate 64 0) :: ut32 MD5_CTX)) MD5Final)"
  by code_simp

text \<open>
  The source is read from its start whatever \<^verbatim>\<open>-S\<close> says, and the offset is applied to the buffer of every block: with blocks of two bytes and an offset of one the
  loop reads behind the buffer. The size of the pseudo algorithm \<^verbatim>\<open>all\<close> is read behind the table.
\<close>

lemma hash_from_overrun:
  "radare_hash_generate ent True \<lparr>h_file_size = 0, h_from = 1, h_to = 0, h_length = 0, h_algorithm = ALGO_XOR, h_block_size = 2\<rparr>
     [1, 2, 3, 4] (replicate 1024 0) [0, 0] c = None"
  by (simp add: radare_hash_generate_def hash_range_def hash_loop.simps algo_size_def algo_number_def algorithms_def put_at_def Let_def word_le_nat_alt word_less_nat_alt)

lemma hash_all_overrun: "h_algorithm h = ALGO_ALL \<Longrightarrow> radare_hash_generate ent verbose h fl digest buffer c = None"
  by (simp add: radare_hash_generate_def algo_size_def algo_number_def algorithms_def)

end
