(* ===== verification/Trace.thy ===== *)
theory Trace
  imports Ranges Rio
begin

text \<open>
  Execution traces (\<^verbatim>\<open>src/src/trace.c\<close>): the table of traced addresses with its counters and tags, its
  sorting, and the listing of contiguous traced intervals. The analyser \<^verbatim>\<open>arch_aop\<close> (the size of the
  opcode at an address, or the null pointer) and the clock are arguments; so is the value of the shift
  \<^verbatim>\<open>1<<tag\<close> for a tag beyond the width of \<^verbatim>\<open>int\<close>, which C leaves undefined.
\<close>

section \<open>Model\<close>

record trace_t =
  t_addr :: ut64
  t_tags :: ut64
  t_opsize :: int
  t_times :: ut32
  t_count :: int
  t_tm :: "int \<times> int"

record trace_state =
  traces :: "trace_t list"
  n_traces :: ut32
  trace_changed :: bool
  trace_tag :: int

definition trace_tag_get :: "trace_state \<Rightarrow> int" where
  "trace_tag_get s = trace_tag s"

definition trace_tag_set :: "int \<Rightarrow> trace_state \<Rightarrow> trace_state \<times> bool" where
  "trace_tag_set tid s = (if tid \<ge> - 1 \<and> tid < 64 then (s\<lparr>trace_tag := tid\<rparr>, True) else (s, False))"

text \<open>\<^verbatim>\<open>trace_sort\<close> has the loops of \<^verbatim>\<open>ranges_sort\<close>, with the address as the key.\<close>

definition trace_sort :: "trace_state \<Rightarrow> (trace_state \<times> bool) option" where
  "trace_sort s =
     (if \<not> trace_changed s then Some (s, False)
      else let ts = traces s; ns = [0..<length ts] in
        Option.bind
          (ranges_sort_outer (\<lambda>i. t_addr (ts ! i)) (list_next ns None) (list_next ns (list_next ns None)) ns False)
          (\<lambda>(ns', ch). Some (s\<lparr>traces := map (\<lambda>i. ts ! i) ns', trace_changed := ch\<rparr>, ch)))"

text \<open>\<^verbatim>\<open>1<<tag\<close> is an \<^verbatim>\<open>int\<close>, extended to 64 bits with its sign in \<^verbatim>\<open>h->tags & (1<<tag)\<close>.\<close>

definition tag_mask :: "(int \<Rightarrow> ut64) \<Rightarrow> int \<Rightarrow> ut64" where
  "tag_mask ub tag =
     (if 0 \<le> tag \<and> tag < 32 then scast (push_bit (nat tag) 1 :: ut32) else ub tag)"

definition tag_skips :: "(int \<Rightarrow> ut64) \<Rightarrow> int \<Rightarrow> trace_t \<Rightarrow> bool" where
  "tag_skips ub tag h \<longleftrightarrow> tag \<noteq> - 1 \<and> t_tags h AND tag_mask ub tag = 0"

fun trace_get :: "(int \<Rightarrow> ut64) \<Rightarrow> ut64 \<Rightarrow> int \<Rightarrow> trace_t list \<Rightarrow> trace_t option" where
  "trace_get ub addr tag [] = None"
| "trace_get ub addr tag (h # hs) =
     (if tag_skips ub tag h then trace_get ub addr tag hs
      else if t_addr h = addr then Some h
      else trace_get ub addr tag hs)"

definition trace_times :: "(int \<Rightarrow> ut64) \<Rightarrow> ut64 \<Rightarrow> trace_state \<Rightarrow> int" where
  "trace_times ub addr s = (case trace_get ub addr (trace_tag s) (traces s) of Some t \<Rightarrow> sint (t_times t) | None \<Rightarrow> 0)"

definition trace_count :: "(int \<Rightarrow> ut64) \<Rightarrow> ut64 \<Rightarrow> trace_state \<Rightarrow> int" where
  "trace_count ub addr s = (case trace_get ub addr (trace_tag s) (traces s) of Some t \<Rightarrow> t_count t | None \<Rightarrow> 0)"

fun trace_index_loop :: "ut64 \<Rightarrow> int \<Rightarrow> trace_t list \<Rightarrow> int" where
  "trace_index_loop addr idx [] = idx"
| "trace_index_loop addr idx (h # hs) = (if t_addr h = addr then idx + 1 else trace_index_loop addr (idx + 1) hs)"

definition trace_index :: "ut64 \<Rightarrow> trace_state \<Rightarrow> int" where
  "trace_index addr s = trace_index_loop addr (- 1) (traces s)"

type_synonym aop = "ut64 \<Rightarrow> u8 list \<Rightarrow> int"

definition trace_set_times :: "aop option \<Rightarrow> ut64 \<Rightarrow> int \<Rightarrow> trace_state \<Rightarrow> trace_state \<times> int" where
  "trace_set_times arch_aop addr cnt s =
     (if arch_aop = None then (s, - 1)
      else if \<exists>t \<in> set (traces s). t_addr t = addr
        then (s\<lparr>traces := update_first (\<lambda>t. t_addr t = addr) (\<lambda>t. t\<lparr>t_times := word_of_int cnt\<rparr>) (traces s)\<rparr>, 1)
        else (s, 0))"

text \<open>\<^verbatim>\<open>if (trace_tag != -1) t->tags |= trace_tag\<close>\<close>

definition add_tag :: "int \<Rightarrow> trace_t \<Rightarrow> trace_t" where
  "add_tag tag t = (if tag \<noteq> - 1 then t\<lparr>t_tags := t_tags t OR word_of_int tag\<rparr> else t)"

definition trace_append :: "'w io_env \<Rightarrow> aop \<Rightarrow> int \<times> int \<Rightarrow> ut64 \<Rightarrow> 'w core \<Rightarrow> trace_state
    \<Rightarrow> ('w core \<times> trace_state \<times> int) option" where
  "trace_append env aop now addr st s =
     map_option (\<lambda>(st', bytes, r).
       let n = n_traces s + 1;
           t = \<lparr>t_addr = addr, t_tags = 0,
                t_opsize = aop addr (bytes @ replicate (16 - length bytes) (junk env)),
                t_times = 1, t_count = sint n, t_tm = now\<rparr>
       in (st', s\<lparr>traces := traces s @ [add_tag (trace_tag s) t], n_traces := n, trace_changed := True\<rparr>, 1))
     (radare_read_at env addr 16 st)"

definition trace_add :: "'w io_env \<Rightarrow> aop option \<Rightarrow> int \<times> int \<Rightarrow> ut64 \<Rightarrow> 'w core \<Rightarrow> trace_state
    \<Rightarrow> ('w core \<times> trace_state \<times> int) option" where
  "trace_add env arch_aop now addr st s =
     (case arch_aop of
        None \<Rightarrow> Some (st, s, - 1)
      | Some aop \<Rightarrow>
          if cfg_get env ''trace.dup'' then
            trace_append env aop now addr st
              (s\<lparr>traces := map (\<lambda>t. if t_addr t = addr then add_tag (trace_tag s) (t\<lparr>t_times := t_times t + 1\<rparr>) else t)
                  (traces s)\<rparr>)
          else case List.find (\<lambda>t. t_addr t = addr) (traces s) of
            Some t \<Rightarrow>
              let n = n_traces s + 1;
                  hit = (\<lambda>t. (add_tag (trace_tag s) (t\<lparr>t_count := sint n, t_tm := now\<rparr>))\<lparr>t_times := t_times t + 1\<rparr>)
              in Some (st, s\<lparr>traces := update_first (\<lambda>t. t_addr t = addr) hit (traces s), n_traces := n\<rparr>, sint (t_times t + 1))
          | None \<Rightarrow> trace_append env aop now addr st s)"

text \<open>
  \<^verbatim>\<open>trace_range\<close> walks over adjacent traced opcodes; it may run forever around a cycle of opcodes.
  (\<^verbatim>\<open>trace_get\<close> already skips the other tags, so its \<^verbatim>\<open>continue\<close> is never taken.)
\<close>

partial_function (option) trace_range_loop ::
  "(int \<Rightarrow> ut64) \<Rightarrow> int \<Rightarrow> trace_t list \<Rightarrow> ut64 \<Rightarrow> ut64 \<Rightarrow> ut64 option" where
  "trace_range_loop ub tag ts lst last2 =
     (if lst = last2 then Some lst
      else case trace_get ub lst tag ts of
        None \<Rightarrow> trace_range_loop ub tag ts lst lst
      | Some h \<Rightarrow>
          if tag_skips ub tag h then trace_range_loop ub tag ts lst lst
          else trace_range_loop ub tag ts (lst + word_of_int (t_opsize h)) lst)"

declare trace_range_loop.simps [code]

definition trace_range :: "(int \<Rightarrow> ut64) \<Rightarrow> ut64 \<Rightarrow> int \<Rightarrow> trace_t list \<Rightarrow> ut64 option" where
  "trace_range ub start tag ts = trace_range_loop ub tag ts start 0"

definition trace_next :: "(int \<Rightarrow> ut64) \<Rightarrow> ut64 \<Rightarrow> int \<Rightarrow> trace_t list \<Rightarrow> ut64" where
  "trace_next ub start tag ts =
     (let nxt = foldl (\<lambda>nxt h. if tag_skips ub tag h then nxt
                              else if t_addr h > start \<and> t_addr h < nxt then t_addr h else nxt) UT64_MAX ts
      in if nxt = UT64_MAX then 0 else nxt)"

text \<open>\<^verbatim>\<open>trace_show\<close>: the lowest address, the lines of the table, and the intervals.\<close>

fun trace_lowest :: "ut64 \<Rightarrow> trace_t list \<Rightarrow> ut64" where
  "trace_lowest low [] = low"
| "trace_lowest low (h # hs) =
     (let f = (if low = 0 then t_addr h else low); f' = (if t_addr h < f then t_addr h else f)
      in trace_lowest f' hs)"

definition fmt_03d :: "int \<Rightarrow> string" where
  "fmt_03d i = pad0 3 (fmt_d i)"

definition trace_line :: "(int \<Rightarrow> ut64) \<Rightarrow> int \<Rightarrow> int \<Rightarrow> trace_t \<Rightarrow> out_event list" where
  "trace_line ub plain tag h =
     (if tag_skips ub tag h then []
      else if plain = 1 then
        [ConsOut (hex_0x (t_addr h) @ '' '' @ fmt_d (sint (t_times h)) @ '' '' @ fmt_d (t_count h) @ '' tags='' @
           fmt_08llx (t_tags h) @ nl)]
      else if plain = 2 then
        [ConsOut (fmt_03d (sint (t_times h)) @ '' '' @ fmt_03d (t_count h) @ ''  ''), RadareCmd (''pd 1 @ '' @ hex_0x (t_addr h))]
      else [])"

partial_function (option) trace_intervals ::
  "(int \<Rightarrow> ut64) \<Rightarrow> int \<Rightarrow> trace_t list \<Rightarrow> ut64 \<Rightarrow> (ut64 \<times> ut64) list option" where
  "trace_intervals ub tag ts start =
     (if start = 0 then Some []
      else Option.bind (trace_range ub start tag ts) (\<lambda>lst.
        if lst = start then Some []
        else Option.bind (trace_intervals ub tag ts (trace_next ub lst tag ts)) (\<lambda>ivs. Some ((start, lst) # ivs))))"

declare trace_intervals.simps [code]

definition trace_show :: "(int \<Rightarrow> ut64) \<Rightarrow> int \<Rightarrow> int \<Rightarrow> config_t \<Rightarrow> trace_state
    \<Rightarrow> (config_t \<times> trace_state \<times> out_event list) option" where
  "trace_show ub plain tag cfg s =
     Option.bind (trace_sort s) (\<lambda>(s', ch).
       let ts = traces s';
           tagline = (if tag \<noteq> - 1 then [ErrOut (''Displaying tag: '' @ fmt_d (tag + 1) @ nl)] else []);
           cfg' = (if plain = 2 \<and> (\<exists>h \<in> set ts. \<not> tag_skips ub tag h) then cfg\<lparr>c_verbose := False\<rparr> else cfg);
           table = concat (map (trace_line ub plain tag) ts)
       in if plain > 0 then Some (cfg', s', tagline @ table)
          else map_option (\<lambda>ivs. (cfg', s', tagline @ table @
                 map (\<lambda>(a, b). ConsOut (if plain = 0 then hex_0x a @ '' - '' @ hex_0x b @ nl
                                       else ''ar+ '' @ hex_0x a @ '' '' @ hex_0x b @ nl)) ivs))
               (trace_intervals ub tag ts (trace_lowest 0 ts)))"

definition trace_init :: "trace_state \<Rightarrow> trace_state" where
  "trace_init s = s\<lparr>traces := []\<rparr>"

definition trace_reset :: "trace_state \<Rightarrow> trace_state" where
  "trace_reset s = s\<lparr>traces := []\<rparr>"

definition trace_get_between :: "(int \<Rightarrow> ut64) \<Rightarrow> ut64 \<Rightarrow> ut64 \<Rightarrow> trace_state \<Rightarrow> nat" where
  "trace_get_between ub start stop s =
     length (filter (\<lambda>h. \<not> tag_skips ub (trace_tag s) h \<and> t_addr h \<ge> start \<and> t_addr h \<le> stop) (traces s))"

section \<open>Lookups and counters\<close>

lemma tag_skips_none [simp]: "\<not> tag_skips ub (- 1) h"
  by (simp add: tag_skips_def)

lemma add_tag_none [simp]: "add_tag (- 1) t = t"
  by (simp add: add_tag_def)

lemma add_tag_fields [simp]:
  "t_addr (add_tag g t) = t_addr t" "t_times (add_tag g t) = t_times t" "t_opsize (add_tag g t) = t_opsize t"
  by (simp_all add: add_tag_def)

lemma trace_get_find:
  "trace_get ub addr tag ts = List.find (\<lambda>h. \<not> tag_skips ub tag h \<and> t_addr h = addr) ts"
  by (induction ts) auto

lemma find_map_same_addr:
  "(\<And>t. t_addr (f t) = t_addr t) \<Longrightarrow>
     List.find (\<lambda>t. t_addr t = a) (map f ts) = map_option f (List.find (\<lambda>t. t_addr t = a) ts)"
  by (induction ts) auto

text \<open>The counter that a lookup without tags gives.\<close>

definition hits :: "ut64 \<Rightarrow> trace_t list \<Rightarrow> ut32" where
  "hits a ts = (case List.find (\<lambda>t. t_addr t = a) ts of Some t \<Rightarrow> t_times t | None \<Rightarrow> 0)"

lemma trace_times_hits: "trace_tag s = - 1 \<Longrightarrow> trace_times ub a s = sint (hits a (traces s))"
  by (simp add: trace_times_def trace_get_find hits_def split: option.splits)

lemma hits_append:
  "hits a (ts @ [t]) = (if a \<in> t_addr ` set ts then hits a ts else if t_addr t = a then t_times t else 0)"
  by (auto simp: hits_def find_append find_None_iff split: option.splits dest!: find_SomeD)

lemma hits_bump:
  "hits a (map (\<lambda>t. if t_addr t = b then t\<lparr>t_times := t_times t + 1\<rparr> else t) ts) =
     hits a ts + (if a = b \<and> b \<in> t_addr ` set ts then 1 else 0)"
  by (auto simp: hits_def find_map_same_addr find_None_iff split: option.splits dest!: find_SomeD)

lemma hits_update:
  assumes "b \<in> t_addr ` set ts"
  shows "hits a (update_first (\<lambda>t. t_addr t = b) (\<lambda>t. (t\<lparr>t_count := n, t_tm := now\<rparr>)\<lparr>t_times := t_times t + 1\<rparr>) ts) =
     hits a ts + (if a = b then 1 else 0)"
  using assms by (induction ts) (auto simp: hits_def split: if_splits)

lemma hits_absent: "a \<notin> t_addr ` set ts \<Longrightarrow> hits a ts = 0"
  by (auto simp: hits_def split: option.splits dest!: find_SomeD)

fun trace_run :: "'w io_env \<Rightarrow> aop \<Rightarrow> (ut64 \<times> int \<times> int) list \<Rightarrow> 'w core \<Rightarrow> trace_state \<Rightarrow> ('w core \<times> trace_state) option" where
  "trace_run env aop [] st s = Some (st, s)"
| "trace_run env aop ((a, now) # as) st s =
     Option.bind (trace_add env (Some aop) now a st s) (\<lambda>(st', s', r). trace_run env aop as st' s')"

text \<open>One event: the counter of its address grows by one, and the record count as \<^verbatim>\<open>trace.dup\<close> says.\<close>

lemma trace_add_event:
  assumes "radare_read_at env a 16 st = Some (st', bytes, r)" "trace_tag s = - 1"
  shows "\<exists>st'' s' n. trace_add env (Some aop) now a st s = Some (st'', s', n) \<and> (st'' = st \<or> st'' = st') \<and>
     trace_tag s' = - 1 \<and> (\<forall>x. hits x (traces s') = hits x (traces s) + (if x = a then 1 else 0)) \<and>
     map t_addr (traces s') =
       (if cfg_get env ''trace.dup'' \<or> a \<notin> t_addr ` set (traces s) then map t_addr (traces s) @ [a]
        else map t_addr (traces s))"
proof (cases "cfg_get env ''trace.dup'' \<or> a \<notin> t_addr ` set (traces s)")
  case True
  let ?bump = "map (\<lambda>t. if t_addr t = a then t\<lparr>t_times := t_times t + 1\<rparr> else t) (traces s)"
  have add: "map t_addr ?bump = map t_addr (traces s)" by simp
  have img: "t_addr ` set ?bump = t_addr ` set (traces s)" using arg_cong [OF add, of set] by (simp only: set_map)
  have none: "List.find (\<lambda>t. t_addr t = a) (traces s) = None" if "a \<notin> t_addr ` set (traces s)"
    using that by (auto simp: find_None_iff)
  have same: "?bump = traces s" if "a \<notin> t_addr ` set (traces s)"
    using that by (auto intro!: map_idI)
  have "\<exists>s' n. trace_add env (Some aop) now a st s = Some (st', s', n) \<and> trace_tag s' = - 1 \<and>
      (\<exists>t. traces s' = ?bump @ [t] \<and> t_addr t = a \<and> t_times t = 1)"
    using True none same assms by (auto simp: trace_add_def trace_append_def Let_def)
  then obtain s' n t where s': "trace_add env (Some aop) now a st s = Some (st', s', n)" "trace_tag s' = - 1"
      "traces s' = ?bump @ [t]" "t_addr t = a" "t_times t = 1" by blast
  have "hits x (traces s') = hits x (traces s) + (if x = a then 1 else 0)" for x
    unfolding s'(3) hits_append img hits_bump using s'(4,5) by (auto simp: hits_absent)
  moreover have "map t_addr (traces s') = map t_addr (traces s) @ [a]"
    unfolding s'(3) map_append add using s'(4) by simp
  ultimately show ?thesis using s'(1,2) True by auto
next
  case False
  then obtain t where "List.find (\<lambda>t. t_addr t = a) (traces s) = Some t"
    by (cases "List.find (\<lambda>t. t_addr t = a) (traces s)") (auto simp: find_None_iff)
  with False show ?thesis using assms(2)
    by (simp add: trace_add_def Let_def hits_update map_update_first)
qed

lemma trace_run_counts:
  assumes "plain_session (malloc_plugin ba dst alloc fresh) MALLOC_FD malloc_valid env st" "trace_tag s = - 1"
    and "\<forall>(a, now) \<in> set as. unat a + 16 \<le> length (malloc_contents (r_dev st))"
    and "length (malloc_contents (r_dev st)) < 2 ^ 64"
  shows "\<exists>st' s'. trace_run env aop as st s = Some (st', s') \<and> trace_tag s' = - 1 \<and>
     (\<forall>x. hits x (traces s') = hits x (traces s) + word_of_nat (count_list (map fst as) x)) \<and>
     (cfg_get env ''trace.dup'' \<longrightarrow> map t_addr (traces s') = map t_addr (traces s) @ map fst as) \<and>
     (\<not> cfg_get env ''trace.dup'' \<longrightarrow> distinct (map t_addr (traces s)) \<longrightarrow>
        distinct (map t_addr (traces s')) \<and> t_addr ` set (traces s') = t_addr ` set (traces s) \<union> fst ` set as)"
  using assms
proof (induction as arbitrary: st s)
  case (Cons e as)
  obtain a now where e: "e = (a, now)" by (cases e)
  have b: "unat a + 16 \<le> length (malloc_contents (r_dev st))" using Cons.prems(3) e by auto
  have m: "unat (UT64_MAX :: ut64) = 2 ^ 64 - 1" by (simp add: unsigned_minus_1_eq_mask mask_eq_exp_minus_1)
  have "a \<noteq> UT64_MAX" using b Cons.prems(4) m by auto
  then obtain w r where rd: "radare_read_at env a 16 st = Some (st\<lparr>r_dev := w\<rparr>, read_mem (malloc_contents (r_dev st)) a 16, r)"
      "malloc_contents w = malloc_contents (r_dev st)"
      "plain_session (malloc_plugin ba dst alloc fresh) MALLOC_FD malloc_valid env (st\<lparr>r_dev := w\<rparr>)"
    using malloc_dev.session_read_at [OF Cons.prems(1) _ b] by blast
  obtain st1 s1 n where 1: "trace_add env (Some aop) now a st s = Some (st1, s1, n)" "st1 = st \<or> st1 = st\<lparr>r_dev := w\<rparr>"
      "trace_tag s1 = - 1" "\<forall>x. hits x (traces s1) = hits x (traces s) + (if x = a then 1 else 0)"
      "map t_addr (traces s1) =
       (if cfg_get env ''trace.dup'' \<or> a \<notin> t_addr ` set (traces s) then map t_addr (traces s) @ [a]
        else map t_addr (traces s))"
    using trace_add_event [OF rd(1) Cons.prems(2)] by blast
  have c: "malloc_contents (r_dev st1) = malloc_contents (r_dev st)" using 1(2) rd(2) by auto
  have s: "plain_session (malloc_plugin ba dst alloc fresh) MALLOC_FD malloc_valid env st1"
    using 1(2) rd(3) Cons.prems(1) by auto
  obtain st' s' where 2: "trace_run env aop as st1 s1 = Some (st', s')" "trace_tag s' = - 1"
     "\<forall>x. hits x (traces s') = hits x (traces s1) + word_of_nat (count_list (map fst as) x)"
     "cfg_get env ''trace.dup'' \<longrightarrow> map t_addr (traces s') = map t_addr (traces s1) @ map fst as"
     "\<not> cfg_get env ''trace.dup'' \<longrightarrow> distinct (map t_addr (traces s1)) \<longrightarrow>
        distinct (map t_addr (traces s')) \<and> t_addr ` set (traces s') = t_addr ` set (traces s1) \<union> fst ` set as"
    using Cons.IH [OF s 1(3)] Cons.prems(3,4) c by auto
  have i: "t_addr ` set (traces s1) = insert a (t_addr ` set (traces s))"
    unfolding set_map [symmetric] 1(5) by auto
  have d: "distinct (map t_addr (traces s1))" if "\<not> cfg_get env ''trace.dup''" "distinct (map t_addr (traces s))"
    unfolding 1(5) using that by auto
  show ?case using 1(1,4,5) 2 i d by (auto simp: e)
qed simp

section \<open>Contiguous intervals\<close>

text \<open>
  A table of forward opcodes: sizes are positive and no opcode crosses the end of the address space.
\<close>

definition forward :: "trace_t list \<Rightarrow> bool" where
  "forward ts \<longleftrightarrow> (\<forall>t \<in> set ts. 0 < t_opsize t \<and> uint (t_addr t) + t_opsize t < 2 ^ 64 - 1)"

lemma trace_range_loop_stop: "trace_range_loop ub tag ts a a = Some a"
  by (subst trace_range_loop.simps) simp

lemma forward_step:
  assumes "forward ts" "t \<in> set ts"
  shows "t_addr t < t_addr t + word_of_int (t_opsize t)" "t_addr t + word_of_int (t_opsize t) < UT64_MAX"
proof -
  have f: "0 < t_opsize t" "uint (t_addr t) + t_opsize t < 2 ^ 64 - 1" using assms by (auto simp: forward_def)
  have "t_opsize t < 2 ^ 64" using f(2) uint_ge_0 [of "t_addr t"] by linarith
  with f(1) have o: "uint (word_of_int (t_opsize t) :: ut64) = t_opsize t"
    by (simp add: uint_word_of_int)
  have "uint (t_addr t + word_of_int (t_opsize t)) = uint (t_addr t) + t_opsize t"
    using f o uint_ge_0 [of "t_addr t"] by (simp add: uint_word_ariths)
  moreover have "uint (UT64_MAX :: ut64) = 2 ^ 64 - 1" by (simp add: unsigned_minus_1_eq_mask mask_eq_exp_minus_1)
  ultimately show "t_addr t < t_addr t + word_of_int (t_opsize t)" "t_addr t + word_of_int (t_opsize t) < UT64_MAX"
    using f by (simp_all add: word_less_def)
qed

text \<open>The addresses of the records that a tag selects.\<close>

definition traced :: "(int \<Rightarrow> ut64) \<Rightarrow> int \<Rightarrow> trace_t list \<Rightarrow> ut64 set" where
  "traced ub tag ts = t_addr ` {t \<in> set ts. \<not> tag_skips ub tag t}"

lemma finite_traced [simp]: "finite (traced ub tag ts)"
  by (simp add: traced_def)

lemma trace_get_traced: "trace_get ub a tag ts = None \<longleftrightarrow> a \<notin> traced ub tag ts"
  by (auto simp: trace_get_find find_None_iff traced_def)

lemma trace_range_loop_ends:
  assumes "forward ts" "a \<noteq> b"
  shows "\<exists>e. trace_range_loop ub tag ts a b = Some e \<and> a \<le> e \<and> e \<notin> traced ub tag ts \<and>
     (a \<in> traced ub tag ts \<longrightarrow> a < e \<and> e < UT64_MAX) \<and> (a \<notin> traced ub tag ts \<longrightarrow> e = a)"
  using assms(2)
proof (induction "card {x \<in> traced ub tag ts. a \<le> x}" arbitrary: a b rule: less_induct)
  case less
  show ?case
  proof (cases "trace_get ub a tag ts")
    case None
    then have "trace_range_loop ub tag ts a b = Some a"
      using less.prems by (subst trace_range_loop.simps) (simp add: trace_range_loop_stop)
    with None show ?thesis by (simp add: trace_get_traced)
  next
    case (Some h)
    then have h: "h \<in> set ts" "\<not> tag_skips ub tag h" "t_addr h = a"
      by (auto simp: trace_get_find dest: find_SomeD)
    let ?a = "a + word_of_int (t_opsize h)"
    have lt: "a < ?a" "?a < UT64_MAX" using forward_step [OF assms(1) h(1)] h(3) by simp_all
    have a: "a \<in> traced ub tag ts" using h by (auto simp: traced_def)
    have "{x \<in> traced ub tag ts. ?a \<le> x} \<subset> {x \<in> traced ub tag ts. a \<le> x}" using a lt(1) by force
    then have "card {x \<in> traced ub tag ts. ?a \<le> x} < card {x \<in> traced ub tag ts. a \<le> x}"
      by (intro psubset_card_mono) simp_all
    moreover have "?a \<noteq> a" using lt(1) by auto
    ultimately obtain e where e: "trace_range_loop ub tag ts ?a a = Some e" "?a \<le> e"
        "e \<notin> traced ub tag ts" "?a \<in> traced ub tag ts \<longrightarrow> ?a < e \<and> e < UT64_MAX" "?a \<notin> traced ub tag ts \<longrightarrow> e = ?a"
      using less.hyps by blast
    have "trace_range_loop ub tag ts a b = trace_range_loop ub tag ts ?a a"
      using less.prems Some h(2) by (subst trace_range_loop.simps) simp
    with e lt a show ?thesis by (auto intro: less_le_trans order.trans less_imp_le)
  qed
qed

lemma trace_next_foldl:
  defines "step \<equiv> \<lambda>a ub tag nxt h. if tag_skips ub tag h then nxt
      else if t_addr h > a \<and> t_addr h < nxt then t_addr h else nxt"
  shows "foldl (step a ub tag) m ts \<le> m \<and> (\<forall>x \<in> traced ub tag ts. a < x \<longrightarrow> foldl (step a ub tag) m ts \<le> x) \<and>
     (foldl (step a ub tag) m ts = m \<or> foldl (step a ub tag) m ts \<in> traced ub tag ts \<and> a < foldl (step a ub tag) m ts)"
proof (induction ts arbitrary: m)
  case (Cons h ts)
  have tr: "traced ub tag (h # ts) = (if tag_skips ub tag h then {} else {t_addr h}) \<union> traced ub tag ts"
    by (auto simp: traced_def)
  show ?case using Cons.IH [of "step a ub tag m h"] unfolding foldl.simps tr
    by (auto simp: step_def split: if_splits)
qed (simp add: traced_def)

text \<open>\<^verbatim>\<open>trace_next\<close> is the least traced address above, and 0 when there is none.\<close>

lemma trace_next_least:
  assumes "UT64_MAX \<notin> traced ub tag ts"
  shows "(\<forall>x \<in> traced ub tag ts. \<not> a < x) \<and> trace_next ub a tag ts = 0 \<or>
     trace_next ub a tag ts \<in> traced ub tag ts \<and> a < trace_next ub a tag ts \<and>
     (\<forall>x \<in> traced ub tag ts. a < x \<longrightarrow> trace_next ub a tag ts \<le> x)"
proof -
  let ?r = "foldl (\<lambda>nxt h. if tag_skips ub tag h then nxt
      else if t_addr h > a \<and> t_addr h < nxt then t_addr h else nxt) UT64_MAX ts"
  have r: "\<forall>x \<in> traced ub tag ts. a < x \<longrightarrow> ?r \<le> x" "?r = UT64_MAX \<or> ?r \<in> traced ub tag ts \<and> a < ?r"
    using trace_next_foldl [where a = a and ub = ub and tag = tag and m = UT64_MAX and ts = ts] by auto
  have n: "trace_next ub a tag ts = (if ?r = UT64_MAX then 0 else ?r)" by (simp add: trace_next_def)
  have "x \<noteq> UT64_MAX \<and> x \<le> UT64_MAX" if "x \<in> traced ub tag ts" for x using that assms by auto
  with r show ?thesis unfolding n by (cases "?r = UT64_MAX") (auto dest: antisym)
qed

lemma forward_max: "forward ts \<Longrightarrow> UT64_MAX \<notin> traced ub tag ts"
  using forward_step by (fastforce simp: traced_def)

text \<open>
  The intervals from a traced address or 0: they are ascending, do not touch, start at traced addresses
  and cover every traced address from the start on.
\<close>

definition cover :: "(ut64 \<times> ut64) list \<Rightarrow> ut64 set" where
  "cover ivs = (\<Union>(a, b) \<in> set ivs. {a..<b})"

lemma trace_intervals_cover:
  assumes "forward ts" "s = 0 \<or> s \<in> traced ub tag ts"
  shows "\<exists>ivs. trace_intervals ub tag ts s = Some ivs \<and>
     sorted_wrt (\<lambda>(a, b) (c, d). b < c) ivs \<and> (\<forall>(a, b) \<in> set ivs. s \<le> a \<and> a < b \<and> a \<in> traced ub tag ts) \<and>
     (s \<noteq> 0 \<longrightarrow> {x \<in> traced ub tag ts. s \<le> x} \<subseteq> cover ivs)"
  using assms(2)
proof (induction "card {x \<in> traced ub tag ts. s \<le> x}" arbitrary: s rule: less_induct)
  case less
  show ?case
  proof (cases "s = 0")
    case True
    then show ?thesis by (subst trace_intervals.simps) simp
  next
    case False
    then have s: "s \<in> traced ub tag ts" using less.prems by simp
    obtain e where e: "trace_range ub s tag ts = Some e" "s < e" "e \<notin> traced ub tag ts"
      using trace_range_loop_ends [OF assms(1) False] s by (auto simp: trace_range_def)
    let ?n = "trace_next ub e tag ts"
    have go: "trace_intervals ub tag ts s = Option.bind (trace_intervals ub tag ts ?n) (\<lambda>ivs. Some ((s, e) # ivs))"
      using False e(1,2) by (subst trace_intervals.simps) auto
    consider "\<forall>x \<in> traced ub tag ts. \<not> e < x" "?n = 0"
      | "?n \<in> traced ub tag ts" "e < ?n" "\<forall>x \<in> traced ub tag ts. e < x \<longrightarrow> ?n \<le> x"
      using trace_next_least [OF forward_max [OF assms(1)], where a = e] by blast
    then show ?thesis
    proof cases
      case 1
      then have "trace_intervals ub tag ts s = Some [(s, e)]"
        unfolding go by (simp add: trace_intervals.simps [of ub tag ts 0])
      moreover have "{x \<in> traced ub tag ts. s \<le> x} \<subseteq> {s..<e}" using 1(1) e(3) by (auto simp: not_less_iff_gr_or_eq)
      ultimately show ?thesis using s e(2) by (simp add: cover_def)
    next
      case 2
      have "{x \<in> traced ub tag ts. ?n \<le> x} \<subset> {x \<in> traced ub tag ts. s \<le> x}" using s e(2) 2(2) by force
      then have "card {x \<in> traced ub tag ts. ?n \<le> x} < card {x \<in> traced ub tag ts. s \<le> x}"
        by (intro psubset_card_mono) simp_all
      from less.hyps [OF this] 2(1) obtain ivs where ivs: "trace_intervals ub tag ts ?n = Some ivs"
          "sorted_wrt (\<lambda>(a, b) (c, d). b < c) ivs" "\<forall>(a, b) \<in> set ivs. ?n \<le> a \<and> a < b \<and> a \<in> traced ub tag ts"
          "?n \<noteq> 0 \<longrightarrow> {x \<in> traced ub tag ts. ?n \<le> x} \<subseteq> cover ivs" by auto
      have n0: "?n \<noteq> 0" using 2(2) by auto
      have "{x \<in> traced ub tag ts. s \<le> x} \<subseteq> {s..<e} \<union> {x \<in> traced ub tag ts. ?n \<le> x}"
        using 2(3) e(3) by force
      then have "{x \<in> traced ub tag ts. s \<le> x} \<subseteq> cover ((s, e) # ivs)" using ivs(4) n0 by (auto simp: cover_def)
      moreover have "\<forall>(a, b) \<in> set ((s, e) # ivs). s \<le> a \<and> a < b \<and> a \<in> traced ub tag ts"
        using ivs(3) s e(2) 2(2) by fastforce
      moreover have "sorted_wrt (\<lambda>(a, b) (c, d). b < c) ((s, e) # ivs)"
        using ivs(2,3) 2(2) by fastforce
      ultimately show ?thesis using go ivs(1) by simp
    qed
  qed
qed

lemma trace_lowest_min:
  assumes "0 \<notin> t_addr ` set ts"
  shows "(low \<noteq> 0 \<longrightarrow> trace_lowest low ts \<le> low \<and> trace_lowest low ts \<in> insert low (t_addr ` set ts)) \<and>
     (low = 0 \<longrightarrow> ts \<noteq> [] \<longrightarrow> trace_lowest low ts \<in> t_addr ` set ts) \<and>
     (\<forall>t \<in> set ts. trace_lowest low ts \<le> t_addr t) \<and> (low = 0 \<longrightarrow> ts = [] \<longrightarrow> trace_lowest low ts = 0)"
  using assms
proof (induction ts arbitrary: low)
  case (Cons h ts)
  let ?f = "if low = 0 then t_addr h else low"
  let ?g = "if t_addr h < ?f then t_addr h else ?f"
  have "?g \<noteq> 0" "0 \<notin> t_addr ` set ts" using Cons.prems by auto
  with Cons.IH [of ?g] show ?case by (auto simp: Let_def split: if_splits)
qed simp

section \<open>Properties\<close>

text \<open>
  C12 Counting: after the events of any trace, of any length, in a session on a memory buffer and without a tag, the counter of every
  address is the number of its events as the 32 bits of an \<^verbatim>\<open>int\<close> hold it, so the number itself below 2^31 events, both with and
  without \<^verbatim>\<open>trace.dup\<close>; without it the table has one record per address, with it one per event, in order.
\<close>
theorem trace_counts_events:
  assumes "plain_session (malloc_plugin ba dst alloc fresh) MALLOC_FD malloc_valid env st"
    and "traces s = []" "trace_tag s = - 1"
    and "\<forall>(a, now) \<in> set as. unat a + 16 \<le> length (malloc_contents (r_dev st))"
    and "length (malloc_contents (r_dev st)) < 2 ^ 64"
  shows "\<exists>st' s'. trace_run env aop as st s = Some (st', s') \<and>
     (\<forall>x. trace_times ub x s' = sint (word_of_nat (count_list (map fst as) x) :: ut32)) \<and>
     (\<forall>x. count_list (map fst as) x < 2 ^ 31 \<longrightarrow> trace_times ub x s' = int (count_list (map fst as) x)) \<and>
     (cfg_get env ''trace.dup'' \<longrightarrow> map t_addr (traces s') = map fst as) \<and>
     (\<not> cfg_get env ''trace.dup'' \<longrightarrow> distinct (map t_addr (traces s')) \<and> t_addr ` set (traces s') = fst ` set as)"
proof -
  have small: "sint (word_of_nat n :: ut32) = int n" if "n < 2 ^ 31" for n :: nat
    using that by (simp add: signed_of_nat signed_take_bit_int_eq_self)
  show ?thesis using trace_run_counts [OF assms(1,3,4,5), of aop] assms(2) small
    by (fastforce simp: trace_times_hits hits_absent)
qed

theorem trace_counts_events_witness:
  "\<exists>st' s'. trace_run (malloc_env 0) (\<lambda>_ _. 1) [(2, 0, 0), (3, 0, 0), (2, 0, 0)] (malloc_core (replicate 32 0))
       \<lparr>traces = [], n_traces = 0, trace_changed = False, trace_tag = - 1\<rparr> = Some (st', s') \<and>
     trace_times (\<lambda>_. 0) 2 s' = 2"
proof -
  have "plain_session (malloc_plugin 4096 8192 (\<lambda>_. True) (\<lambda>_. None)) MALLOC_FD malloc_valid (malloc_env 0)
      (malloc_core (replicate 32 0))" by (rule malloc_core_session) simp
  from trace_counts_events [OF this, where s = "\<lparr>traces = [], n_traces = 0, trace_changed = False, trace_tag = - 1\<rparr>"
      and as = "[(2, 0, 0), (3, 0, 0), (2, 0, 0)]" and aop = "\<lambda>_ _. 1" and ub = "\<lambda>_. 0"]
  show ?thesis by auto
qed

text \<open>
  C13 The listing without a tag of a table whose opcodes have a positive size, do not cross the end of the address space and are not at
  the address 0 returns: it sorts the table by address when it has changed since the last sort, and prints ascending intervals that do
  not touch, each starting at a traced address, whose union contains every traced address.
\<close>
theorem trace_show_intervals:
  assumes "forward (traces s)" "0 \<notin> t_addr ` set (traces s)"
  shows "\<exists>s' ivs. trace_show ub 0 (- 1) cfg s =
       Some (cfg, s', map (\<lambda>(a, b). ConsOut (hex_0x a @ '' - '' @ hex_0x b @ nl)) ivs) \<and>
     mset (traces s') = mset (traces s) \<and> (trace_changed s \<longrightarrow> sorted (map t_addr (traces s'))) \<and>
     sorted_wrt (\<lambda>(a, b) (c, d). b < c) ivs \<and>
     (\<forall>(a, b) \<in> set ivs. a < b \<and> a \<in> t_addr ` set (traces s)) \<and> t_addr ` set (traces s) \<subseteq> cover ivs"
proof -
  obtain s' ch where s': "trace_sort s = Some (s', ch)" "mset (traces s') = mset (traces s)" "trace_changed s \<longrightarrow> sorted (map t_addr (traces s'))"
  proof (cases "trace_changed s")
    case True
    with sort_positions [of t_addr "traces s"] that show ?thesis
      by (auto simp: trace_sort_def Let_def simp del: list_next.simps)
  next
    case False
    with that [of s False] show ?thesis by (simp add: trace_sort_def)
  qed
  have st: "set (traces s') = set (traces s)" using s'(2) by (metis set_mset_mset)
  let ?low = "trace_lowest 0 (traces s')"
  have all: "traced ub (- 1) (traces s') = t_addr ` set (traces s)" by (auto simp: traced_def st)
  have low: "?low = 0 \<and> traces s' = [] \<or> ?low \<in> t_addr ` set (traces s) \<and> (\<forall>t \<in> set (traces s). ?low \<le> t_addr t)"
    using trace_lowest_min [of "traces s'" 0] assms(2) st by auto
  have "\<exists>ivs. trace_intervals ub (- 1) (traces s') ?low = Some ivs \<and>
      sorted_wrt (\<lambda>(a, b) (c, d). b < c) ivs \<and> (\<forall>(a, b) \<in> set ivs. a < b \<and> a \<in> t_addr ` set (traces s)) \<and>
      t_addr ` set (traces s) \<subseteq> cover ivs"
  proof -
    have f: "forward (traces s')" using assms(1) st by (simp add: forward_def)
    have l: "?low = 0 \<or> ?low \<in> traced ub (- 1) (traces s')" using low all by auto
    obtain ivs where i: "trace_intervals ub (- 1) (traces s') ?low = Some ivs"
        "sorted_wrt (\<lambda>(a, b) (c, d). b < c) ivs"
        "\<forall>(a, b) \<in> set ivs. ?low \<le> a \<and> a < b \<and> a \<in> t_addr ` set (traces s)"
        "?low \<noteq> 0 \<longrightarrow> {x \<in> t_addr ` set (traces s). ?low \<le> x} \<subseteq> cover ivs"
      using trace_intervals_cover [OF f l] unfolding all by blast
    have "t_addr ` set (traces s) \<subseteq> cover ivs"
    proof (cases "?low = 0")
      case True
      then have "traces s' = []" using low assms(2) by auto
      then have "set (traces s) = {}" using st by simp
      then show ?thesis by simp
    next
      case False
      then have "t_addr ` set (traces s) \<subseteq> {x \<in> t_addr ` set (traces s). ?low \<le> x}" using low st by auto
      then show ?thesis using i(4) False by blast
    qed
    moreover have "\<forall>(a, b) \<in> set ivs. a < b \<and> a \<in> t_addr ` set (traces s)" using i(3) by auto
    ultimately show ?thesis using i(1,2) by (intro exI [of _ ivs] conjI)
  qed
  then obtain ivs where i: "trace_intervals ub (- 1) (traces s') ?low = Some ivs"
      "sorted_wrt (\<lambda>(a, b) (c, d). b < c) ivs" "\<forall>(a, b) \<in> set ivs. a < b \<and> a \<in> t_addr ` set (traces s)"
      "t_addr ` set (traces s) \<subseteq> cover ivs" by blast
  have "trace_show ub 0 (- 1) cfg s = Some (cfg, s', map (\<lambda>(a, b). ConsOut (hex_0x a @ '' - '' @ hex_0x b @ nl)) ivs)"
    using s'(1) i(1) by (simp add: trace_show_def trace_line_def case_prod_unfold)
  with s'(2,3) i(2-) show ?thesis by (intro exI [of _ s'] exI [of _ ivs] conjI)
qed

theorem trace_show_intervals_witness:
  "\<exists>s' ivs. trace_show (\<lambda>_. 0) 0 (- 1) config_zero
       \<lparr>traces = [\<lparr>t_addr = 9, t_tags = 0, t_opsize = 1, t_times = 1, t_count = 1, t_tm = (0, 0)\<rparr>,
                  \<lparr>t_addr = 4, t_tags = 0, t_opsize = 2, t_times = 1, t_count = 2, t_tm = (0, 0)\<rparr>],
        n_traces = 2, trace_changed = True, trace_tag = - 1\<rparr> =
       Some (config_zero, s', map (\<lambda>(a, b). ConsOut (hex_0x a @ '' - '' @ hex_0x b @ nl)) ivs) \<and> {4, 9} \<subseteq> cover ivs"
  using trace_show_intervals [of "\<lparr>traces = [\<lparr>t_addr = 9, t_tags = 0, t_opsize = 1, t_times = 1, t_count = 1, t_tm = (0, 0)\<rparr>,
                  \<lparr>t_addr = 4, t_tags = 0, t_opsize = 2, t_times = 1, t_count = 2, t_tm = (0, 0)\<rparr>],
        n_traces = 2, trace_changed = True, trace_tag = - 1\<rparr>" "\<lambda>_. 0" config_zero]
  by (auto simp: forward_def)

text \<open>A record added under tag 0 gets no tag bit, so it is not found under that tag.\<close>

lemma tag_zero_lost: "add_tag 0 t = t \<and> (t_tags t = 0 \<longrightarrow> trace_get ub (t_addr t) 0 [add_tag 0 t] = None)"
  by (simp add: add_tag_def tag_skips_def)

text \<open>When the lowest record of the table lacks the tag, no interval of the tag is printed.\<close>

lemma tag_lowest_missing:
  assumes "forward ts" "a \<noteq> 0" "a \<notin> traced ub tag ts"
  shows "trace_intervals ub tag ts a = Some []"
  using trace_range_loop_ends [OF assms(1,2), of ub tag] assms
  by (subst trace_intervals.simps) (auto simp: trace_range_def)

end
