(* ===== verification/Binparse.thy ===== *)
theory Binparse
  imports Utils
begin

text \<open>
  The keyword search engine (\<^verbatim>\<open>src/src/binparse.c\<close>, \<^verbatim>\<open>binparse.h\<close>): the parser of keywords with escapes and
  character ranges, the masks, the automaton \<^verbatim>\<open>update_tlist\<close> that every byte is fed to, and the readers of
  keyword files. \<open>None\<close> is an access outside of an array or through a null pointer. What C leaves
  uninitialised is an argument, the record \<open>uninit\<close>; the sizes are those of a 64-bit machine.
\<close>

section \<open>Model\<close>

record token =
  mintok :: u8
  trange :: u8
  tmask :: u8

record tokenlist =
  tl_toks :: "token list"
  numtok :: nat
  tl_name :: string
  actp :: "u8 list"
  estat :: nat

record uninit =
  junk_tail :: string
  junk_int :: int
  junk_tok :: "nat \<Rightarrow> token"
  junk_actp :: "nat \<Rightarrow> u8"
  junk_mask :: "nat \<Rightarrow> u8"

text \<open>\<^verbatim>\<open>tolower\<close> in the C locale.\<close>

definition tolower_u8 :: "u8 \<Rightarrow> u8" where
  "tolower_u8 c = (if 65 \<le> c \<and> c \<le> 90 then c + 32 else c)"

definition get_num :: "uninit \<Rightarrow> string \<Rightarrow> u8" where
  "get_num ub str =
     (if str = [] then 0
      else if hd str = CHR 0x5C then word_of_int (scan_or (junk_int ub) (CHR ''0'' # tl str @ junk_tail ub))
      else of_char (hd str))"

text \<open>\<^verbatim>\<open>get_range\<close>: the base, and the difference stored into an \<^verbatim>\<open>unsigned char\<close>.\<close>

definition get_range :: "uninit \<Rightarrow> string \<Rightarrow> u8 \<times> u8" where
  "get_range ub str =
     (let lo = get_num ub (takeWhile (\<lambda>c. c \<noteq> CHR ''-'') str);
          hi = get_num ub (tl (dropWhile (\<lambda>c. c \<noteq> CHR ''-'') str))
      in (lo, hi - lo))"

record parse_state =
  p_estat :: nat
  p_rangemin :: nat
  p_straux :: char
  p_tokaux :: int
  p_toks :: "(u8 \<times> u8) list"

definition parse_estat :: "char \<Rightarrow> nat \<Rightarrow> nat" where
  "parse_estat c e =
     (if c = CHR 0x5C then (if e \<noteq> 1 \<and> (e < 10 \<or> e > 22) then 1 else e + 1)
      else if c = CHR ''['' then (if e \<noteq> 1 \<and> e \<noteq> 10 then 10 else e + 1)
      else if e \<noteq> 0 then e + 1 else e)"

definition parse_char :: "bool \<Rightarrow> char \<Rightarrow> parse_state \<Rightarrow> parse_state" where
  "parse_char nocase c st =
     st\<lparr>p_toks := p_toks st @ [(if nocase then tolower_u8 (of_char c) else of_char c, 0)]\<rparr>"

definition parse_step :: "uninit \<Rightarrow> bool \<Rightarrow> string \<Rightarrow> nat \<Rightarrow> char \<Rightarrow> parse_state \<Rightarrow> parse_state" where
  "parse_step ub nocase str i c st0 =
     (let e = parse_estat c (p_estat st0);
          st = st0\<lparr>p_estat := e,
                 p_rangemin := (if c = CHR ''['' \<and> p_estat st0 \<noteq> 1 \<and> p_estat st0 \<noteq> 10 then i + 1 else p_rangemin st0)\<rparr>
      in if e = 0 then parse_char nocase c st
         else if e = 2 then (if c = CHR ''x'' then st else (parse_char nocase c st)\<lparr>p_estat := 0\<rparr>)
         else if e = 3 then st\<lparr>p_straux := c\<rparr>
         else if e = 4 then
           let v = scan_or (p_tokaux st) (''0x'' @ [p_straux st, c])
           in st\<lparr>p_tokaux := v, p_toks := p_toks st @ [(word_of_int v, 0)], p_estat := 0\<rparr>
         else if 11 \<le> e \<and> e \<le> 22 \<and> c = CHR '']'' then
           st\<lparr>p_toks := p_toks st @ [get_range ub (take (i - p_rangemin st) (drop (p_rangemin st) str))], p_estat := 0\<rparr>
         else st)"

fun parse_loop :: "uninit \<Rightarrow> bool \<Rightarrow> string \<Rightarrow> nat \<Rightarrow> string \<Rightarrow> parse_state \<Rightarrow> parse_state" where
  "parse_loop ub nocase str i [] st = st"
| "parse_loop ub nocase str i (c # cs) st = parse_loop ub nocase str (Suc i) cs (parse_step ub nocase str i c st)"

definition tok_parse :: "uninit \<Rightarrow> bool \<Rightarrow> string \<Rightarrow> (u8 \<times> u8) list" where
  "tok_parse ub nocase str =
     p_toks (parse_loop ub nocase str 0 str
       \<lparr>p_estat = 0, p_rangemin = 0, p_straux = CHR ''0'', p_tokaux = junk_int ub, p_toks = []\<rparr>)"

text \<open>The mask: pairs of characters other than blanks; an odd one is dropped. 300 bytes fit.\<close>

fun mask_pairs :: "string \<Rightarrow> string list" where
  "mask_pairs (a # b # cs) = [a, b] # mask_pairs cs"
| "mask_pairs _ = []"

definition binparse_get_mask_list :: "uninit \<Rightarrow> string \<Rightarrow> u8 list option" where
  "binparse_get_mask_list ub msk =
     (let ps = mask_pairs (filter (\<lambda>c. c \<noteq> CHR '' '') msk)
      in if length ps > 300 then None
         else Some (map (\<lambda>(k, p). case scan_x p of Some v \<Rightarrow> word_of_int v | None \<Rightarrow> junk_mask ub k) (enumerate 0 ps)))"

definition binparse_apply_mask :: "u8 list \<Rightarrow> nat \<Rightarrow> token list \<Rightarrow> token list" where
  "binparse_apply_mask maskout ntok tlist =
     (if maskout = [] then tlist
      else map (\<lambda>(i, t). if i < ntok then t\<lparr>tmask := maskout ! (i mod length maskout)\<rparr> else t) (enumerate 0 tlist))"

text \<open>
  \<^verbatim>\<open>binparse_token_mask\<close>: the array is allocated with \<^verbatim>\<open>sizeof (token) * len + 1\<close> bytes, where \<^verbatim>\<open>token\<close> is the
  parameter, a pointer of 8 bytes; an entry takes 3 bytes.
\<close>

definition token_cap :: "nat \<Rightarrow> nat" where
  "token_cap len = (8 * len + 1) div 3"

definition binparse_token_mask :: "uninit \<Rightarrow> bool \<Rightarrow> string \<Rightarrow> string \<Rightarrow> string option \<Rightarrow> tokenlist option" where
  "binparse_token_mask ub nocase name str msk =
     (let ps = tok_parse ub nocase str; ntok = length ps;
          fresh = map (junk_tok ub) [0..<token_cap (length str)];
          tlist = map (\<lambda>(i, t). if i < ntok then t\<lparr>mintok := fst (ps ! i), trange := snd (ps ! i)\<rparr> else t) (enumerate 0 fresh)
      in if ntok > token_cap (length str) \<or> length name \<ge> 300 then None
         else map_option (\<lambda>m. \<lparr>tl_toks = binparse_apply_mask m ntok tlist, numtok = ntok, tl_name = name,
                             actp = map (junk_actp ub) [0..<300], estat = 0\<rparr>)
           (binparse_get_mask_list ub (case msk of None \<Rightarrow> ''ff'' | Some m \<Rightarrow> m)))"

definition binparse_new :: "tokenlist list" where
  "binparse_new = []"

definition search_name :: "int \<Rightarrow> string" where
  "search_name n = take 30 (''SEARCH['' @ fmt_d n @ '']'')"

definition binparse_add :: "uninit \<Rightarrow> bool \<Rightarrow> tokenlist list \<Rightarrow> string option \<Rightarrow> string option \<Rightarrow> (tokenlist list \<times> nat) option" where
  "binparse_add ub nocase t str msk =
     (let n = length t in
      case str of
        None \<Rightarrow> Some (t, n)
      | Some s \<Rightarrow> map_option (\<lambda>l. (t @ [l], n)) (binparse_token_mask ub nocase (search_name (int n)) s msk))"

definition binparse_add_search :: "uninit \<Rightarrow> bool \<Rightarrow> (string \<Rightarrow> string option) \<Rightarrow> tokenlist list \<Rightarrow> int \<Rightarrow> (tokenlist list \<times> nat) option" where
  "binparse_add_search ub nocase getenv t n =
     binparse_add ub nocase t (getenv (take 126 (''SEARCH['' @ fmt_d n @ '']''))) (getenv (take 126 (''MASK['' @ fmt_d n @ '']'')))"

definition binparse_add_name :: "uninit \<Rightarrow> bool \<Rightarrow> tokenlist list \<Rightarrow> string option \<Rightarrow> string option \<Rightarrow> string option
    \<Rightarrow> (tokenlist list \<times> nat) option" where
  "binparse_add_name ub nocase t name str msk =
     Option.bind (binparse_add ub nocase t str msk) (\<lambda>(t', ret).
       case name of
         None \<Rightarrow> None
       | Some nm \<Rightarrow> if ret < length t' then Some (t'[ret := (t' ! ret)\<lparr>tl_name := (if length nm < 200 then nm else take 200 nm @ junk_tail ub)\<rparr>], ret) else None)"

definition str_get_arg :: "string \<Rightarrow> string option" where
  "str_get_arg buf =
     (case strchr_split CHR '':'' buf of
        None \<Rightarrow> None
      | Some (_, r) \<Rightarrow> map_option snd (strchr_split CHR 0x09 r))"

text \<open>
  \<^verbatim>\<open>binparse_new_from_file\<close> on the strings that \<^verbatim>\<open>fgets\<close> returns, each cut by its last character; the state is
  the tokenizer and the name, string and mask read so far.
\<close>

type_synonym file_state = "tokenlist list \<times> string option \<times> string option \<times> string option \<times> out_event list"

definition new_keyword :: "uninit \<Rightarrow> bool \<Rightarrow> file_state \<Rightarrow> file_state option" where
  "new_keyword ub nocase = (\<lambda>(t, name, str, msk, es).
     if str = None then Some (t, name, str, msk, es)
     else map_option (\<lambda>(t', _). (t', None, None, None,
              es @ [ErrOut (''new keyword('' @ fmt_s name @ '','' @ fmt_s str @ '','' @ fmt_s msk @ '')'' @ nl)]))
            (binparse_add_name ub nocase t name str msk))"

definition file_line :: "uninit \<Rightarrow> bool \<Rightarrow> string \<Rightarrow> file_state \<Rightarrow> file_state option" where
  "file_line ub nocase line st =
     (let buf = butlast line in
      if line = [] then Some st
      else if take 6 buf = ''token:'' then
        map_option (\<lambda>(t, name, str, msk, es). (t, str_get_arg buf, str, msk, es)) (new_keyword ub nocase st)
      else if take 8 buf = CHR 0x09 # ''string:'' then
        (case st of (t, name, str, msk, es) \<Rightarrow> Some (t, name, str_get_arg buf, msk, es))
      else if take 6 buf = CHR 0x09 # ''mask:'' then
        (case st of (t, name, str, msk, es) \<Rightarrow> Some (t, name, str, str_get_arg buf, es))
      else Some st)"

fun file_lines :: "uninit \<Rightarrow> bool \<Rightarrow> string list \<Rightarrow> file_state \<Rightarrow> file_state option" where
  "file_lines ub nocase [] st = Some st"
| "file_lines ub nocase (l # ls) st = Option.bind (file_line ub nocase l st) (file_lines ub nocase ls)"

definition binparse_new_from_file :: "uninit \<Rightarrow> bool \<Rightarrow> string \<Rightarrow> string list option
    \<Rightarrow> (tokenlist list option \<times> out_event list) option" where
  "binparse_new_from_file ub nocase file content =
     (case content of
        None \<Rightarrow> Some (None, [ErrOut (''Cannot open file '' @ [CHR 0x27] @ file @ [CHR 0x27] @ nl)])
      | Some lines \<Rightarrow>
          Option.bind (file_lines ub nocase lines (binparse_new, None, None, None, [])) (\<lambda>st.
          map_option (\<lambda>(t, _, _, _, es).
              (Some t, es @ [ConsOut (''TOKEN ELEMENTS: '' @ fmt_d (int (length t)) @ nl)]))
            (new_keyword ub nocase st)))"

text \<open>
  \<^verbatim>\<open>update_tlist\<close> on one keyword: the entry at \<^verbatim>\<open>estat\<close> is read first, \<^verbatim>\<open>estat\<close> is reset when it is beyond the
  end, then the byte is compared. The result says whether the keyword is complete.
\<close>

definition update_one :: "u8 \<Rightarrow> tokenlist \<Rightarrow> (tokenlist \<times> bool) option" where
  "update_one inchar l =
     (let j = estat l; e = (if j > numtok l then 0 else j) in
      if j \<ge> length (tl_toks l) \<or> e \<ge> 300 then None
      else
        let cmin = mintok (tl_toks l ! j);
            cmax = cmin + trange (tl_toks l ! e);
            cmask = tmask (tl_toks l ! e);
            ok = (if trange (tl_toks l ! j) > 0 then cmin \<le> inchar \<and> inchar \<le> cmax
                  else inchar AND cmask = cmin AND cmask);
            l1 = (if ok then l\<lparr>actp := (actp l)[e := inchar], estat := e + 1\<rparr> else l\<lparr>estat := 0\<rparr>)
        in if estat l1 = numtok l then
             (if estat l1 + 1 \<ge> 300 then None
              else Some (l1\<lparr>actp := ((actp l1)[estat l1 + 1 := 0])[0 := 0]\<rparr>, True))
           else Some (l1, False))"

text \<open>
  The loop over the keywords. The callback of the repository looks at the number of the keyword and the
  address only; it works on a state of its own. When it returns 0 the call returns 1 at once: \<^verbatim>\<open>estat\<close> is
  not reset and the keywords after it do not see the byte.
\<close>

type_synonym 'c search_cb = "nat \<Rightarrow> ut64 \<Rightarrow> 'c \<Rightarrow> 'c \<times> bool"

fun update_loop :: "'c search_cb option \<Rightarrow> u8 \<Rightarrow> ut64 \<Rightarrow> nat \<Rightarrow> tokenlist list \<Rightarrow> 'c \<Rightarrow> (tokenlist list \<times> 'c \<times> bool) option" where
  "update_loop cb inchar wh i [] c = Some ([], c, False)"
| "update_loop cb inchar wh i (l # ls) c =
     (case update_one inchar l of
        None \<Rightarrow> None
      | Some (l', hit) \<Rightarrow>
          let (c', go) = (case cb of Some f \<Rightarrow> if hit then f i (wh - (word_of_nat (numtok l) - 1)) c else (c, True)
                          | None \<Rightarrow> (c, True))
          in if \<not> go then Some (l' # ls, c', True)
             else map_option (\<lambda>(ls', c'', r). ((if hit then l'\<lparr>estat := 0\<rparr> else l') # ls', c'', r))
                    (update_loop cb inchar wh (Suc i) ls c'))"

text \<open>The result of \<^verbatim>\<open>update_tlist\<close>; without keywords it also sets \<^verbatim>\<open>config.interrupted\<close>.\<close>

definition update_tlist :: "bool \<Rightarrow> 'c search_cb option \<Rightarrow> u8 \<Rightarrow> ut64 \<Rightarrow> tokenlist list \<Rightarrow> 'c
    \<Rightarrow> (tokenlist list \<times> 'c \<times> int \<times> out_event list) option" where
  "update_tlist nocase cb inchar wh t c =
     (if t = [] then Some (t, c, - 1, [ErrOut (''No tokens defined'' @ nl)])
      else map_option (\<lambda>(t', c', stop). (t', c', if stop then 1 else 0, []))
             (update_loop cb (if nocase then tolower_u8 inchar else inchar) wh 0 t c))"

text \<open>
  \<^verbatim>\<open>tokenize\<close> on the bytes that \<^verbatim>\<open>read\<close> returns one by one. The position is an \<^verbatim>\<open>int\<close>: it wraps around behind 2^31 bytes, and is extended with its sign
  to the 64 bits of the address.
\<close>

fun tokenize :: "bool \<Rightarrow> 'c search_cb option \<Rightarrow> u8 list \<Rightarrow> ut32 \<Rightarrow> tokenlist list \<Rightarrow> 'c \<Rightarrow> (tokenlist list \<times> 'c) option" where
  "tokenize nocase cb [] wh t c = Some (t, c)"
| "tokenize nocase cb (b # bs) wh t c =
     Option.bind (update_tlist nocase cb b (scast wh) t c) (\<lambda>(t', c', ret, es).
       if ret = - 1 then Some (t', c') else tokenize nocase cb bs (wh + 1) t' c')"

section \<open>Memory safety of the automaton\<close>

definition list_ok :: "tokenlist \<Rightarrow> bool" where
  "list_ok l \<longleftrightarrow> estat l \<le> numtok l + 1 \<and> numtok l + 1 < length (tl_toks l) \<and> numtok l + 1 < 300 \<and> length (actp l) = 300"

lemma update_one_ok:
  assumes "list_ok l"
  shows "\<exists>l' hit. update_one b l = Some (l', hit) \<and> list_ok l' \<and> list_ok (l'\<lparr>estat := 0\<rparr>) \<and>
     numtok l' = numtok l \<and> tl_toks l' = tl_toks l \<and> tl_name l' = tl_name l"
  using assms by (auto simp: update_one_def list_ok_def Let_def)

lemma update_loop_ok:
  assumes "list_all list_ok ls"
  shows "\<exists>ls' c' r. update_loop cb b wh i ls c = Some (ls', c', r) \<and> list_all list_ok ls' \<and>
     map tl_toks ls' = map tl_toks ls \<and> map numtok ls' = map numtok ls"
  using assms
proof (induction ls arbitrary: i c)
  case (Cons l ls)
  obtain l' hit where l': "update_one b l = Some (l', hit)" "list_ok l'" "list_ok (l'\<lparr>estat := 0\<rparr>)"
      "numtok l' = numtok l" "tl_toks l' = tl_toks l"
    using update_one_ok [of l b] Cons.prems by auto
  obtain c' go where cg: "(case cb of Some f \<Rightarrow> if hit then f i (wh - (word_of_nat (numtok l) - 1)) c else (c, True)
      | None \<Rightarrow> (c, True)) = (c', go)" by (metis surj_pair)
  obtain ls' c'' r where "update_loop cb b wh (Suc i) ls c' = Some (ls', c'', r)" "list_all list_ok ls'"
      "map tl_toks ls' = map tl_toks ls" "map numtok ls' = map numtok ls"
    using Cons.IH [of "Suc i" c'] Cons.prems by auto
  with l' cg Cons.prems show ?case by (cases go) (auto simp: Let_def)
qed (simp add: ex_bool_eq)

lemma tokenize_ok:
  assumes "list_all list_ok t"
  shows "\<exists>t' c'. tokenize nocase cb bs wh t c = Some (t', c') \<and> list_all list_ok t'"
  using assms
proof (induction bs arbitrary: wh t c)
  case (Cons b bs)
  obtain t1 c1 r where "update_loop cb (if nocase then tolower_u8 b else b) (scast wh) 0 t c = Some (t1, c1, r)"
      "list_all list_ok t1"
    using update_loop_ok [OF Cons.prems, of cb "if nocase then tolower_u8 b else b" "scast wh" 0 c] by blast
  with Cons.IH [of t1 "wh + 1" c1] Cons.prems show ?case
    by (cases "t = []") (auto simp: update_tlist_def)
qed simp

lemma parse_loop_length:
  "length (p_toks (parse_loop ub nocase str i cs st)) \<le> length (p_toks st) + length cs"
proof (induction cs arbitrary: i st)
  case (Cons c cs)
  have "length (p_toks (parse_step ub nocase str i c st)) \<le> length (p_toks st) + 1"
    by (simp add: parse_step_def parse_char_def Let_def)
  with Cons.IH [of "Suc i" "parse_step ub nocase str i c st"] show ?case by simp
qed simp

lemma tok_parse_length: "length (tok_parse ub nocase str) \<le> length str"
  using parse_loop_length [of ub nocase str 0 str] unfolding tok_parse_def by (metis add_0 list.size(3) parse_state.select_convs(5))

lemma token_cap_enough: "0 < n \<Longrightarrow> n + 1 < token_cap n"
  unfolding token_cap_def by linarith

lemma length_apply_mask [simp]: "length (binparse_apply_mask m n ts) = length ts"
  by (simp add: binparse_apply_mask_def)

lemma search_name_length: "length (search_name n) < 300"
  unfolding search_name_def by simp

lemma mask_default: "binparse_get_mask_list ub ''ff'' = Some [0xff]"
  by (simp add: binparse_get_mask_list_def scan_x_def is_space_def is_hexdigit_def char_digit_def Let_def enumerate_eq_zip)

text \<open>A keyword of 1 to 298 characters is added, and is safe to search for.\<close>

lemma binparse_add_ok:
  assumes "list_all list_ok t" "s \<noteq> []" "length s < 299" "binparse_get_mask_list ub (case msk of None \<Rightarrow> ''ff'' | Some m \<Rightarrow> m) = Some m"
  shows "\<exists>t' n. binparse_add ub nocase t (Some s) msk = Some (t', n) \<and> list_all list_ok t' \<and> n = length t \<and> length t' = Suc n"
proof -
  have p: "length (tok_parse ub nocase s) \<le> length s" by (rule tok_parse_length)
  have c: "length s + 1 < token_cap (length s)" using assms(2) by (intro token_cap_enough) simp
  have "\<exists>l. binparse_token_mask ub nocase (search_name (int (length t))) s msk = Some l \<and> list_ok l"
    using p c assms(3,4) search_name_length [of "int (length t)"]
    by (simp add: binparse_token_mask_def Let_def list_ok_def)
  then show ?thesis using assms(1) by (auto simp: binparse_add_def Let_def)
qed

section \<open>What the automaton finds\<close>

definition tok_match :: "token \<Rightarrow> u8 \<Rightarrow> bool" where
  "tok_match t b = (if trange t > 0 then mintok t \<le> b \<and> b \<le> mintok t + trange t
                    else b AND tmask t = mintok t AND tmask t)"

text \<open>The state of one keyword after a text, and the positions at which it is found.\<close>

fun kw_state :: "token list \<Rightarrow> nat \<Rightarrow> u8 list \<Rightarrow> nat" where
  "kw_state ts q [] = q"
| "kw_state ts q (b # bs) =
     kw_state ts (if tok_match (ts ! q) b then (if Suc q = length ts then 0 else Suc q) else 0) bs"

fun kw_hits :: "token list \<Rightarrow> nat \<Rightarrow> u8 list \<Rightarrow> int \<Rightarrow> int list" where
  "kw_hits ts q [] p = []"
| "kw_hits ts q (b # bs) p =
     (if tok_match (ts ! q) b
      then if Suc q = length ts then (p - int q) # kw_hits ts 0 bs (p + 1) else kw_hits ts (Suc q) bs (p + 1)
      else kw_hits ts 0 bs (p + 1))"

lemma kw_hits_append: "kw_hits ts q (xs @ ys) p = kw_hits ts q xs p @ kw_hits ts (kw_state ts q xs) ys (p + int (length xs))"
  by (induction xs arbitrary: q p) (simp_all add: algebra_simps)

lemma kw_state_append: "kw_state ts q (xs @ ys) = kw_state ts (kw_state ts q xs) ys"
  by (induction xs arbitrary: q) simp_all

lemma kw_state_less: "q < length ts \<Longrightarrow> kw_state ts q bs < length ts"
proof (induction bs arbitrary: q)
  case (Cons b bs)
  then have "ts \<noteq> []" by auto
  with Cons show ?case by simp
qed simp

lemma kw_hits_sound:
  assumes "q < length ts" "list_all2 tok_match (take q ts) pre" "h \<in> set (kw_hits ts q bs p)"
  shows "\<exists>k. h = p - int q + int k \<and> k + length ts \<le> length (pre @ bs) \<and>
     list_all2 tok_match ts (take (length ts) (drop k (pre @ bs)))"
  using assms
proof (induction bs arbitrary: q pre p)
  case (Cons b bs)
  have lp: "length pre = q" using Cons.prems(1,2) by (auto dest: list_all2_lengthD)
  have ne: "ts \<noteq> []" using Cons.prems(1) by auto
  show ?case
  proof (cases "tok_match (ts ! q) b")
    case True
    have m: "list_all2 tok_match (take (Suc q) ts) (pre @ [b])"
      using Cons.prems(1,2) True by (simp add: take_Suc_conv_app_nth list_all2_appendI)
    show ?thesis
    proof (cases "Suc q = length ts")
      case True
      consider "h = p - int q" | "h \<in> set (kw_hits ts 0 bs (p + 1))"
        using Cons.prems(3) \<open>tok_match (ts ! q) b\<close> True by auto
      then show ?thesis
      proof cases
        case 1
        have "take (length ts) (pre @ b # bs) = pre @ [b]" using True lp by (simp add: True [symmetric])
        then have "list_all2 tok_match ts (take (length ts) (pre @ b # bs))" using m True by simp
        then show ?thesis using 1 True lp by (intro exI [of _ 0]) simp
      next
        case 2
        obtain k where "h = p + 1 + int k" "k + length ts \<le> length bs" "list_all2 tok_match ts (take (length ts) (drop k bs))"
          using Cons.IH [of 0 "[]" "p + 1"] 2 ne by auto
        then show ?thesis using lp by (intro exI [of _ "k + Suc q"]) (simp add: algebra_simps)
      qed
    next
      case False
      then have "h \<in> set (kw_hits ts (Suc q) bs (p + 1))" using Cons.prems(3) \<open>tok_match (ts ! q) b\<close> by simp
      from Cons.IH [OF _ m this] False Cons.prems(1) show ?thesis by simp
    qed
  next
    case False
    then have "h \<in> set (kw_hits ts 0 bs (p + 1))" using Cons.prems(3) by simp
    then obtain k where "h = p + 1 + int k" "k + length ts \<le> length bs" "list_all2 tok_match ts (take (length ts) (drop k bs))"
      using Cons.IH [of 0 "[]" "p + 1"] ne by auto
    then show ?thesis using lp by (intro exI [of _ "k + Suc q"]) (simp add: algebra_simps)
  qed
qed simp

lemma kw_hits_match:
  assumes "list_all2 tok_match (drop q ts) ms" "q < length ts"
  shows "p - int q \<in> set (kw_hits ts q (ms @ rest) p)"
  using assms
proof (induction ms arbitrary: q p rule: list.induct)
  case Nil
  then show ?case by simp
next
  case (Cons m ms)
  have "drop q ts = ts ! q # drop (Suc q) ts" using Cons.prems(2) by (simp add: Cons_nth_drop_Suc)
  then have m: "tok_match (ts ! q) m" "list_all2 tok_match (drop (Suc q) ts) ms" using Cons.prems(1) by simp_all
  show ?case
  proof (cases "Suc q = length ts")
    case True
    then show ?thesis using m by simp
  next
    case False
    then have "p + 1 - int (Suc q) \<in> set (kw_hits ts (Suc q) (ms @ rest) (p + 1))"
      using Cons.IH [OF m(2), of "p + 1"] Cons.prems(2) by simp
    then show ?thesis using m(1) False by simp
  qed
qed

lemma kw_hits_complete:
  assumes "k + length ts \<le> length bs" "list_all2 tok_match ts (take (length ts) (drop k bs))" "ts \<noteq> []"
    and "k = 0 \<or> (\<forall>t \<in> set ts. \<not> tok_match t (bs ! (k - 1)))"
  shows "p + int k \<in> set (kw_hits ts 0 bs p)"
proof -
  let ?ms = "take (length ts) (drop k bs)" and ?rest = "drop (length ts) (drop k bs)"
  have bs: "bs = take k bs @ ?ms @ ?rest" by (simp only: append_take_drop_id)
  have z: "kw_state ts 0 (take k bs) = 0"
  proof (cases k)
    case (Suc j)
    have s: "kw_state ts 0 (take j bs) < length ts" using assms(3) by (intro kw_state_less) simp
    have "take k bs = take j bs @ [bs ! j]" using Suc assms(1) by (simp add: take_Suc_conv_app_nth)
    moreover have "\<not> tok_match (ts ! kw_state ts 0 (take j bs)) (bs ! j)" using assms(4) Suc s by auto
    ultimately show ?thesis by (simp add: kw_state_append)
  qed simp
  have "p + int k - int 0 \<in> set (kw_hits ts 0 (?ms @ ?rest) (p + int k))"
    using assms(2,3) by (intro kw_hits_match) simp_all
  moreover have "length (take k bs) = k" using assms(1) by simp
  ultimately have "p + int k \<in> set (kw_hits ts 0 (take k bs @ ?ms @ ?rest) p)"
    using z by (simp only: kw_hits_append set_append) simp
  then show ?thesis using bs by simp
qed

text \<open>
  The keywords of a fresh tokenizer; the state of a callback after the calls for a list of hits, each the number of a keyword and an address; and the
  callback that records its calls.
\<close>

definition kw_tokens :: "tokenlist \<Rightarrow> token list" where
  "kw_tokens l = take (numtok l) (tl_toks l)"

definition calls :: "'c search_cb \<Rightarrow> (nat \<times> ut64) list \<Rightarrow> 'c \<Rightarrow> 'c" where
  "calls f hs c = foldl (\<lambda>c (i, a). fst (f i a c)) c hs"

lemma calls_simps [simp]: "calls f [] c = c" "calls f ((i, a) # hs) c = calls f hs (fst (f i a c))" "calls f (xs @ ys) c = calls f ys (calls f xs c)"
  by (simp_all add: calls_def)

definition record_hit :: "(nat \<times> ut64) list search_cb" where
  "record_hit i wh c = (c @ [(i, wh)], True)"

lemma calls_record: "calls record_hit hs c = c @ hs"
  by (induction hs arbitrary: c) (auto simp: calls_def record_hit_def)

definition running :: "tokenlist \<Rightarrow> bool" where
  "running l \<longleftrightarrow> list_ok l \<and> estat l < numtok l"

lemma update_one_running:
  assumes "running l"
  shows "\<exists>l' hit. update_one b l = Some (l', hit) \<and>
     hit = (tok_match (kw_tokens l ! estat l) b \<and> Suc (estat l) = numtok l) \<and>
     kw_tokens l' = kw_tokens l \<and> numtok l' = numtok l \<and> list_ok l' \<and>
     estat l' = (if tok_match (kw_tokens l ! estat l) b then Suc (estat l) else 0)"
proof -
  have "kw_tokens l ! estat l = tl_toks l ! estat l" using assms by (simp add: running_def kw_tokens_def)
  then show ?thesis using assms
    by (auto simp: update_one_def running_def list_ok_def Let_def tok_match_def kw_tokens_def)
qed

lemma update_loop_records:
  assumes "list_all running ls" and go: "\<forall>i a c. snd (f i a c)"
  shows "\<exists>ls' hs. update_loop (Some f) b wh i ls c = Some (ls', calls f hs c, False) \<and> list_all running ls' \<and>
     map kw_tokens ls' = map kw_tokens ls \<and> (\<forall>x \<in> set hs. i \<le> fst x) \<and>
     (\<forall>k < length ls. estat (ls' ! k) = kw_state (kw_tokens (ls ! k)) (estat (ls ! k)) [b] \<and>
        {a. (i + k, a) \<in> set hs} = (\<lambda>h. wh + word_of_int h) ` set (kw_hits (kw_tokens (ls ! k)) (estat (ls ! k)) [b] 0))"
  using assms(1)
proof (induction ls arbitrary: i c)
  case (Cons l ls)
  obtain l' hit where l': "update_one b l = Some (l', hit)"
      "hit = (tok_match (kw_tokens l ! estat l) b \<and> Suc (estat l) = numtok l)"
      "kw_tokens l' = kw_tokens l" "numtok l' = numtok l" "list_ok l'"
      "estat l' = (if tok_match (kw_tokens l ! estat l) b then Suc (estat l) else 0)"
    using update_one_running [of l b] Cons.prems by auto
  let ?hs = "if hit then [(i, wh - (word_of_nat (numtok l) - 1))] else []"
  let ?l = "if hit then l'\<lparr>estat := 0\<rparr> else l'"
  have run: "running l" using Cons.prems by simp
  then have n: "length (kw_tokens l) = numtok l" by (simp add: running_def list_ok_def kw_tokens_def)
  obtain ls' hs where ls': "update_loop (Some f) b wh (Suc i) ls (calls f ?hs c) = Some (ls', calls f hs (calls f ?hs c), False)"
      "list_all running ls'" "map kw_tokens ls' = map kw_tokens ls" "\<forall>x \<in> set hs. Suc i \<le> fst x"
      "\<forall>k < length ls. estat (ls' ! k) = kw_state (kw_tokens (ls ! k)) (estat (ls ! k)) [b] \<and>
        {a. (Suc i + k, a) \<in> set hs} = (\<lambda>h. wh + word_of_int h) ` set (kw_hits (kw_tokens (ls ! k)) (estat (ls ! k)) [b] 0)"
    using Cons.IH [of "Suc i" "calls f ?hs c"] Cons.prems by auto
  obtain c1 where c1: "f i (wh - (word_of_nat (numtok l) - 1)) c = (c1, True)"
    using go [rule_format, of i "wh - (word_of_nat (numtok l) - 1)" c] by (cases "f i (wh - (word_of_nat (numtok l) - 1)) c") auto
  have "update_loop (Some f) b wh i (l # ls) c = Some (?l # ls', calls f (?hs @ hs) c, False)"
    using l'(1) ls'(1) by (cases hit) (simp_all add: c1)
  moreover have "running ?l" using l' run by (auto simp: running_def list_ok_def)
  moreover have "kw_tokens ?l = kw_tokens l" using l'(3) by (simp add: kw_tokens_def)
  moreover have "estat ?l = kw_state (kw_tokens l) (estat l) [b]" using l'(2,6) n by auto
  moreover have "{a. (i, a) \<in> set (?hs @ hs)} = (\<lambda>h. wh + word_of_int h) ` set (kw_hits (kw_tokens l) (estat l) [b] 0)"
  proof -
    have "(word_of_nat (numtok l) :: ut64) - 1 = word_of_nat (estat l)" if hit
      using that l'(2) by (metis add_diff_cancel_left' of_nat_Suc)
    then show ?thesis using ls'(4) l'(2) n run by (cases hit) (auto simp: running_def)
  qed
  moreover have "{a. (Suc i + k, a) \<in> set (?hs @ hs)} = {a. (Suc i + k, a) \<in> set hs}" for k by simp
  ultimately show ?case
    using ls' by (intro exI [of _ "?l # ls'"] exI [of _ "?hs @ hs"]) (auto simp: nth_Cons simp del: kw_state.simps kw_hits.simps update_loop.simps split: nat.splits)
qed (auto intro: exI [of _ "[]"])

lemma kw_hits_shift: "kw_hits ts q bs (p + d) = map (\<lambda>h. h + d) (kw_hits ts q bs p)"
proof (induction bs arbitrary: q p)
  case (Cons b bs)
  show ?case using Cons.IH [of _ "p + 1"] by (simp add: algebra_simps)
qed simp

text \<open>The recorded hits of a whole text are those of the single keywords.\<close>

lemma tokenize_records:
  assumes "list_all running t" "t \<noteq> []" "k < length t" and "- (2 ^ 31) \<le> wh" "wh + int (length bs) \<le> 2 ^ 31" and go: "\<forall>i a c. snd (f i a c)"
  shows "\<exists>t' hs. tokenize nocase (Some f) bs (word_of_int wh) t c = Some (t', calls f hs c) \<and> list_all running t' \<and>
     {a. (k, a) \<in> set hs} =
       word_of_int ` set (kw_hits (kw_tokens (t ! k)) (estat (t ! k)) (if nocase then map tolower_u8 bs else bs) wh)"
  using assms(1-5)
proof (induction bs arbitrary: wh t c)
  case (Cons b bs)
  let ?b = "if nocase then tolower_u8 b else b" and ?bs = "if nocase then map tolower_u8 bs else bs"
  let ?ts = "kw_tokens (t ! k)" and ?q = "estat (t ! k)"
  obtain t1 h1 where 1: "update_loop (Some f) ?b (word_of_int wh) 0 t c = Some (t1, calls f h1 c, False)"
      "list_all running t1" "map kw_tokens t1 = map kw_tokens t"
      "estat (t1 ! k) = kw_state ?ts ?q [?b]"
      "{a. (k, a) \<in> set h1} = (\<lambda>h. word_of_int wh + word_of_int h) ` set (kw_hits ?ts ?q [?b] 0)"
    using update_loop_records [OF Cons.prems(1) go, where b = ?b and wh = "word_of_int wh" and i = 0 and c = c] Cons.prems(3)
    by (auto simp del: kw_state.simps kw_hits.simps)
  have len: "length t1 = length t" using arg_cong [OF 1(3), of length] by simp
  have tk: "kw_tokens (t1 ! k) = ?ts" using arg_cong [OF 1(3), of "\<lambda>xs. xs ! k"] len Cons.prems(3) by simp
  have ne: "t1 \<noteq> []" using len Cons.prems(2) by auto
  obtain t' hs where 2: "tokenize nocase (Some f) bs (word_of_int (wh + 1)) t1 (calls f h1 c) = Some (t', calls f hs (calls f h1 c))"
      "list_all running t'" "{a. (k, a) \<in> set hs} = word_of_int ` set (kw_hits ?ts (kw_state ?ts ?q [?b]) ?bs (wh + 1))"
    using Cons.IH [OF 1(2) ne, of "wh + 1" "calls f h1 c"] Cons.prems(3-5) len tk 1(4) by auto
  have "sint (word_of_int wh :: ut32) = wh" using Cons.prems(4,5) by (simp add: signed_of_int signed_take_bit_int_eq_self)
  then have sc: "(scast (word_of_int wh :: ut32) :: ut64) = word_of_int wh" by (simp add: scast_eq)
  have "tokenize nocase (Some f) (b # bs) (word_of_int wh) t c = Some (t', calls f (h1 @ hs) c)"
    using 1(1) 2(1) Cons.prems(2) by (simp add: update_tlist_def sc add.commute)
  moreover have "{a. (k, a) \<in> set (h1 @ hs)} = word_of_int ` set (kw_hits ?ts ?q (?b # ?bs) wh)"
  proof -
    have "set (kw_hits ?ts ?q (?b # ?bs) wh) =
        (\<lambda>h. h + wh) ` set (kw_hits ?ts ?q [?b] 0) \<union> set (kw_hits ?ts (kw_state ?ts ?q [?b]) ?bs (wh + 1))"
      using kw_hits_append [of ?ts ?q "[?b]" ?bs wh] kw_hits_shift [of ?ts ?q "[?b]" 0 wh]
      by (simp del: kw_state.simps kw_hits.simps)
    moreover have "{a. (k, a) \<in> set (h1 @ hs)} = {a. (k, a) \<in> set h1} \<union> {a. (k, a) \<in> set hs}" by auto
    ultimately show ?thesis unfolding 1(5) 2(3) by (simp add: image_Un image_image add.commute)
  qed
  moreover have "(if nocase then map tolower_u8 (b # bs) else b # bs) = ?b # ?bs" by simp
  ultimately show ?case using 2(2) by (intro exI [of _ t'] exI [of _ "h1 @ hs"]) (simp only:)
qed (auto intro: exI [of _ "[]"])

text \<open>Several keywords, added one after the other without a mask.\<close>

definition add_keys :: "uninit \<Rightarrow> bool \<Rightarrow> string list \<Rightarrow> tokenlist list option" where
  "add_keys ub nocase =
     foldl (\<lambda>r s. Option.bind r (\<lambda>t. map_option fst (binparse_add ub nocase t (Some s) None))) (Some binparse_new)"

lemma add_keys_ok:
  assumes "\<forall>s \<in> set keys. s \<noteq> [] \<and> length s < 299"
  shows "\<exists>t. add_keys ub nocase keys = Some t \<and> length t = length keys \<and> list_all list_ok t"
  using assms
proof (induction keys rule: rev_induct)
  case (snoc s keys)
  then obtain t where t: "add_keys ub nocase keys = Some t" "length t = length keys" "list_all list_ok t" by auto
  from binparse_add_ok [OF t(3), of s ub None "[0xff]" nocase] snoc.prems mask_default [of ub] t show ?case
    by (auto simp: add_keys_def)
qed (simp add: add_keys_def binparse_new_def)

definition search_text :: "bool \<Rightarrow> u8 list \<Rightarrow> u8 list" where
  "search_text nocase bs = (if nocase then map tolower_u8 bs else bs)"

definition occurs_at :: "token list \<Rightarrow> u8 list \<Rightarrow> nat \<Rightarrow> bool" where
  "occurs_at ts s p \<longleftrightarrow> p + length ts \<le> length s \<and> list_all2 tok_match ts (take (length ts) (drop p s))"

lemma tokenize_occurrences:
  assumes "list_all (\<lambda>l. list_ok l \<and> estat l = 0 \<and> 0 < numtok l) t" "k < length t" "sint wh + int (length bs) \<le> 2 ^ 31" "\<forall>i a c. snd (f i a c)"
  shows "\<exists>t' hs. tokenize nocase (Some f) bs wh t c = Some (t', calls f hs c) \<and>
     (\<forall>a. (k, a) \<in> set hs \<longrightarrow> (\<exists>p. a = scast wh + word_of_nat p \<and> occurs_at (kw_tokens (t ! k)) (search_text nocase bs) p)) \<and>
     (\<forall>p. occurs_at (kw_tokens (t ! k)) (search_text nocase bs) p \<and>
        (p = 0 \<or> (\<forall>x \<in> set (kw_tokens (t ! k)). \<not> tok_match x (search_text nocase bs ! (p - 1)))) \<longrightarrow>
        (k, scast wh + word_of_nat p) \<in> set hs)"
proof -
  let ?ts = "kw_tokens (t ! k)" and ?s = "search_text nocase bs" and ?w = "sint wh"
  have run: "list_all running t" using assms(1) by (auto simp: list_all_iff running_def)
  have lk: "list_ok (t ! k)" "estat (t ! k) = 0" "0 < numtok (t ! k)" using assms by (auto simp: list_all_length)
  then have n: "?ts \<noteq> []" by (auto simp: kw_tokens_def list_ok_def)
  have "t \<noteq> []" using assms(2) by auto
  have "- (2 ^ 31) \<le> ?w" using sint_ge [of wh] by simp
  from tokenize_records [OF run \<open>t \<noteq> []\<close> assms(2) this assms(3,4), where nocase = nocase and c = c]
  obtain t' hs where 0: "tokenize nocase (Some f) bs (word_of_int ?w) t c = Some (t', calls f hs c)"
      "{a. (k, a) \<in> set hs} = word_of_int ` set (kw_hits ?ts (estat (t ! k)) (if nocase then map tolower_u8 bs else bs) ?w)"
    by (elim exE conjE) (rule that)
  have hs: "tokenize nocase (Some f) bs wh t c = Some (t', calls f hs c)"
      "{a. (k, a) \<in> set hs} = word_of_int ` set (kw_hits ?ts 0 ?s ?w)"
    using 0(1) unfolding 0(2) lk(2) search_text_def by simp_all
  have ad: "word_of_int (?w + int p) = (scast wh + word_of_nat p :: ut64)" for p by (simp only: scast_eq of_int_add of_int_of_nat_eq)
  have "\<exists>p. a = word_of_int (?w + int p) \<and> occurs_at ?ts ?s p" if a: "(k, a) \<in> set hs" for a
  proof -
    obtain h where h: "a = word_of_int h" "h \<in> set (kw_hits ?ts 0 ?s ?w)"
    proof -
      have "a \<in> {a. (k, a) \<in> set hs}" using a by simp
      then show thesis using that unfolding hs(2) by (elim imageE)
    qed
    obtain p where "h = ?w - int 0 + int p" "p + length ?ts \<le> length ([] @ ?s)"
        "list_all2 tok_match ?ts (take (length ?ts) (drop p ([] @ ?s)))"
      using kw_hits_sound [OF _ _ h(2), of "[]"] n by auto
    then show ?thesis using h(1) by (intro exI [of _ p]) (simp add: occurs_at_def)
  qed
  moreover have "(k, word_of_int (?w + int p)) \<in> set hs"
    if "occurs_at ?ts ?s p" "p = 0 \<or> (\<forall>x \<in> set ?ts. \<not> tok_match x (?s ! (p - 1)))" for p
  proof -
    have "?w + int p \<in> set (kw_hits ?ts 0 ?s ?w)"
      using kw_hits_complete [OF _ _ n that(2)] that(1) by (simp add: occurs_at_def)
    then show ?thesis using hs(2) by blast
  qed
  ultimately show ?thesis using hs(1) unfolding ad by blast
qed

section \<open>Keywords written as bytes\<close>













section \<open>Properties\<close>

text \<open>
  C10 Memory safety of the search: with keywords of 1 to 298 characters, whatever bytes are searched,
  whatever the callback answers and whatever uninitialised memory holds, no access leaves the token
  arrays or the 300 bytes of \<^verbatim>\<open>actp\<close>, and the keywords stay safe for the next block.
\<close>
theorem search_memory_safe:
  assumes "\<forall>s \<in> set keys. s \<noteq> [] \<and> length s < 299"
  shows "\<exists>t t' c' t'' c''. add_keys ub nocase keys = Some t \<and> length t = length keys \<and>
     tokenize nocase cb bs wh t c = Some (t', c') \<and> tokenize nocase cb bs' wh' t' c' = Some (t'', c'')"
proof -
  obtain t where t: "add_keys ub nocase keys = Some t" "length t = length keys" "list_all list_ok t"
    using add_keys_ok [OF assms] by blast
  obtain t' c' where t': "tokenize nocase cb bs wh t c = Some (t', c')" "list_all list_ok t'"
    using tokenize_ok [OF t(3), where nocase = nocase and cb = cb and bs = bs and wh = wh and c = c] by blast
  moreover obtain t'' c'' where "tokenize nocase cb bs' wh' t' c' = Some (t'', c'')"
    using tokenize_ok [OF t'(2), where nocase = nocase and cb = cb and bs = bs' and wh = wh' and c = c'] by blast
  ultimately show ?thesis using t(1,2) by blast
qed

theorem search_memory_safe_witness:
  "\<exists>t t' c' t'' c''. add_keys \<lparr>junk_tail = [], junk_int = 0, junk_tok = (\<lambda>_. \<lparr>mintok = 0, trange = 0, tmask = 0\<rparr>),
         junk_actp = (\<lambda>_. 0), junk_mask = (\<lambda>_. 0)\<rparr> False [''ab'', ''c''] = Some t \<and> length t = 2 \<and>
     tokenize False (Some (\<lambda>i a c. (c + 1, False))) [97, 98, 99] 0 t (0 :: nat) = Some (t', c') \<and>
     tokenize False (Some (\<lambda>i a c. (c + 1, False))) [99] 3 t' c' = Some (t'', c'')"
  using search_memory_safe [of "[''ab'', ''c'']" "\<lparr>junk_tail = [], junk_int = 0, junk_tok = (\<lambda>_. \<lparr>mintok = 0, trange = 0, tmask = 0\<rparr>),
         junk_actp = (\<lambda>_. 0), junk_mask = (\<lambda>_. 0)\<rparr>" False "Some (\<lambda>i a c. (c + 1, False))" "[97, 98, 99]" 0 "0 :: nat" "[99]" 3]
  by (simp add: numeral_2_eq_2 del: tokenize.simps)

text \<open>
  C11 The search by \<^verbatim>\<open>tokenize\<close> of a text that ends within the first 2^31 bytes of its file, where the position of type \<^verbatim>\<open>int\<close> does
  not wrap around, with any callback that never asks to stop: it is called for a list of hits in which every address of a keyword is an
  occurrence of it, and which has every occurrence at the start of the text or behind a byte that none of the tokens of the keyword
  matches. The search is over the bytes in lower case when case is ignored.
\<close>
theorem search_sound_complete:
  assumes "list_all (\<lambda>l. list_ok l \<and> estat l = 0 \<and> 0 < numtok l) t" "k < length t"
    and "sint wh + int (length bs) \<le> 2 ^ 31" and "\<forall>i a c. snd (f i a c)"
  shows "\<exists>t' hs. tokenize nocase (Some f) bs wh t c = Some (t', calls f hs c) \<and>
     (\<forall>a. (k, a) \<in> set hs \<longrightarrow> (\<exists>p. a = scast wh + word_of_nat p \<and> occurs_at (kw_tokens (t ! k)) (search_text nocase bs) p)) \<and>
     (\<forall>p. occurs_at (kw_tokens (t ! k)) (search_text nocase bs) p \<and>
        (p = 0 \<or> (\<forall>x \<in> set (kw_tokens (t ! k)). \<not> tok_match x (search_text nocase bs ! (p - 1)))) \<longrightarrow>
        (k, scast wh + word_of_nat p) \<in> set hs)"
  using assms by (rule tokenize_occurrences)

lemma record_goes_on: "\<forall>i a c. snd (record_hit i a c)"
  by (simp add: record_hit_def)

theorem search_sound_complete_witness:
  "\<exists>t' hs. tokenize False (Some record_hit) [1, 7, 7] 0x100
     [\<lparr>tl_toks = replicate 4 \<lparr>mintok = 7, trange = 0, tmask = 0xff\<rparr>, numtok = 2, tl_name = [], actp = replicate 300 0, estat = 0\<rparr>] []
       = Some (t', hs) \<and> (0, 0x101) \<in> set hs"
proof -
  let ?l = "\<lparr>tl_toks = replicate 4 \<lparr>mintok = 7, trange = 0, tmask = 0xff\<rparr>, numtok = 2, tl_name = [], actp = replicate 300 0, estat = 0\<rparr>"
  have o: "occurs_at (kw_tokens ([?l] ! 0)) (search_text False [1, 7, 7]) 1"
    by (simp add: occurs_at_def kw_tokens_def search_text_def tok_match_def numeral_eq_Suc)
  have p: "\<forall>x \<in> set (kw_tokens ([?l] ! 0)). \<not> tok_match x (search_text False [1, 7, 7] ! (1 - 1))"
    by (simp add: kw_tokens_def search_text_def tok_match_def)
  have "list_all (\<lambda>l. list_ok l \<and> estat l = 0 \<and> 0 < numtok l) [?l]" by (simp add: list_ok_def)
  from search_sound_complete [OF this _ _ record_goes_on, of 0 "0x100" "[1, 7, 7]" False "[]"] o p show ?thesis
    by (fastforce simp: calls_record)
qed



text \<open>
  A byte that ends a partial match is not tried as the first byte of the next: the keyword ab is not
  found in aab.
\<close>

lemma restart_missed:
  "kw_hits [\<lparr>mintok = 97, trange = 0, tmask = 0xff\<rparr>, \<lparr>mintok = 98, trange = 0, tmask = 0xff\<rparr>] 0 [97, 97, 98] 0 = []"
  by (simp add: tok_match_def)

text \<open>When the callback stops the search, \<^verbatim>\<open>estat\<close> stays behind the last token.\<close>

lemma stop_keeps_estat:
  assumes "running l" "tok_match (kw_tokens l ! estat l) b" "Suc (estat l) = numtok l"
    and "f i (wh - (word_of_nat (numtok l) - 1)) c = (c', False)"
  shows "\<exists>l'. update_loop (Some f) b wh i (l # ls) c = Some (l' # ls, c', True) \<and> estat l' = numtok l'"
  using update_one_running [OF assms(1), of b] assms(2-) by auto

text \<open>A range of one character without a dash wraps around and matches no byte.\<close>

lemma single_range_never_matches:
  "get_range ub ''a'' = (97, 159) \<and> \<not> tok_match \<lparr>mintok = 97, trange = 159, tmask = m\<rparr> b"
proof -
  have z: "(97 :: u8) + 159 = 0" by (simp add: word_unat_eq_iff unat_word_ariths)
  show ?thesis unfolding tok_match_def token.select_convs z by (auto simp: get_range_def get_num_def)
qed

end
