(* ===== verification/Vm.thy ===== *)
theory Vm
  imports Rio "HOL-Library.Monad_Syntax"
begin

text \<open>
  The virtual machine (\<^verbatim>\<open>src/src/vm.c\<close>, \<^verbatim>\<open>vm.h\<close>): registers with aliases written in the language of the
  machine, the cache of memory writes, the evaluator of expressions and assignments, and the opcodes
  that are expanded into them. \<open>None\<close> is a crash: a null or wild pointer, a division by zero, an
  undefined shift, or a name that fills its array without a terminator.

  The evaluator and the register accesses call each other: reading or writing a register evaluates its
  alias, unless one is being evaluated already (\<^verbatim>\<open>rec\<close>). The recursion therefore has two levels. The
  evaluator is written over the register accesses \<open>rget\<close> and \<open>rset\<close> and used twice: with the plain
  accesses inside an alias, and with the accesses that evaluate aliases outside.
\<close>

section \<open>State\<close>

record vm_reg_t =
  vr_name :: string
  vr_value :: ut64
  vr_type :: int
  vr_get :: "string option"
  vr_set :: "string option"

record vm_op_t =
  vo_opcode :: string
  vo_code :: string

record vm_change_t =
  ch_from :: ut64
  ch_to :: ut64
  ch_data :: "u8 list"

record vm_cpu_t =
  cpu_pc :: "string option"
  cpu_sp :: "string option"
  cpu_bp :: "string option"
  cpu_a0 :: "string option"
  cpu_a1 :: "string option"
  cpu_a2 :: "string option"
  cpu_a3 :: "string option"
  cpu_ret :: "string option"
  cpu_zf :: "string option"

record 'w vm_state =
  v_core :: "'w core"
  vm_regs :: "vm_reg_t list"
  vm_cpu :: vm_cpu_t
  vm_ops :: "vm_op_t list"
  vm_mmu_cache :: "vm_change_t list"
  realio :: bool

text \<open>The environment of the core, and the length that \<^verbatim>\<open>arch_aop\<close> gives the opcode at an address.\<close>

type_synonym 'w vm_env = "'w io_env \<times> (ut64 \<Rightarrow> u8 list \<Rightarrow> int)"

type_synonym 'w reg_read = "string \<Rightarrow> 'w vm_state \<Rightarrow> ('w vm_state \<times> ut64) option"
type_synonym 'w reg_write = "string \<Rightarrow> ut64 \<Rightarrow> 'w vm_state \<Rightarrow> 'w vm_state option"

definition vm_emit :: "out_event list \<Rightarrow> 'w vm_state \<Rightarrow> 'w vm_state" where
  "vm_emit es s = s\<lparr>v_core := emit es (v_core s)\<rparr>"

section \<open>Types and memory\<close>

definition VMREG_BIT :: int where "VMREG_BIT = 1"
definition VMREG_INT8 :: int where "VMREG_INT8 = 2"
definition VMREG_INT16 :: int where "VMREG_INT16 = 3"
definition VMREG_INT32 :: int where "VMREG_INT32 = 4"

definition vm_reg_types :: "(int \<times> string) list" where
  "vm_reg_types = [(1, ''bit''), (5, ''int64''), (4, ''int32''), (3, ''int16''), (2, ''int8''),
     (6, ''float32''), (7, ''float64'')]"

definition vm_mmu_real :: "bool \<Rightarrow> 'w vm_state \<Rightarrow> 'w vm_state" where
  "vm_mmu_real b s = s\<lparr>realio := b\<rparr>"

definition vm_reg_type_list :: "'w vm_state \<Rightarrow> 'w vm_state" where
  "vm_reg_type_list s = vm_emit (map (\<lambda>(_, n). ConsOut ('' .'' @ n @ nl)) vm_reg_types) s"

text \<open>
  \<^verbatim>\<open>vm_reg_type\<close> stops at the entry 0 of the null name, which \<^verbatim>\<open>printf\<close> shows as \<^verbatim>\<open>(null)\<close>, and runs out of
  the table for any other unknown type; \<^verbatim>\<open>vm_reg_type_i\<close> compares with the null name.
\<close>

definition vm_reg_type :: "int \<Rightarrow> string option" where
  "vm_reg_type t = (if t = 0 then Some ''(null)'' else map_of vm_reg_types t)"

definition vm_reg_type_i :: "string \<Rightarrow> int option" where
  "vm_reg_type_i str = map_option fst (List.find (\<lambda>(t, n). n = str) vm_reg_types)"

definition vm_mmu_cache_write :: "ut64 \<Rightarrow> u8 list \<Rightarrow> 'w vm_state \<Rightarrow> 'w vm_state \<times> int" where
  "vm_mmu_cache_write addr buf s =
     (s\<lparr>vm_mmu_cache := vm_mmu_cache s @
        [\<lparr>ch_from = addr, ch_to = addr + word_of_nat (length buf), ch_data = buf\<rparr>]\<rparr>, 0)"

text \<open>The read of the cache: \<open>Inl\<close> is no entry; the copy starts at the first byte of the entry.\<close>

definition vm_mmu_cache_read :: "ut64 \<Rightarrow> nat \<Rightarrow> 'w vm_state \<Rightarrow> (unit + u8 list) option" where
  "vm_mmu_cache_read addr len s =
     (case List.find (\<lambda>c. addr \<ge> ch_from c \<and> addr + word_of_nat len \<le> ch_to c) (vm_mmu_cache s) of
        None \<Rightarrow> Some (Inl ())
      | Some c \<Rightarrow> if len \<le> length (ch_data c) then Some (Inr (take len (ch_data c))) else None)"

definition vm_mmu_read :: "'w vm_env \<Rightarrow> ut64 \<Rightarrow> nat \<Rightarrow> 'w vm_state \<Rightarrow> ('w vm_state \<times> u8 list \<times> int) option" where
  "vm_mmu_read env off len s =
     do {
       hit \<leftarrow> (if realio s then Some (Inl ()) else vm_mmu_cache_read off len s);
       case hit of
         Inr bytes \<Rightarrow> Some (s, bytes, int len)
       | Inl _ \<Rightarrow> map_option (\<lambda>(st, bytes, r). (s\<lparr>v_core := st\<rparr>, bytes, r)) (radare_read_at (fst env) off len (v_core s))
     }"

definition vm_mmu_write :: "'w vm_env \<Rightarrow> ut64 \<Rightarrow> u8 list \<Rightarrow> 'w vm_state \<Rightarrow> ('w vm_state \<times> int) option" where
  "vm_mmu_write env off data s =
     (if \<not> realio s then Some (vm_mmu_cache_write off data s)
      else map_option (\<lambda>(st, r). (s\<lparr>v_core := st\<rparr>, r))
        (radare_write_at (fst env) off data (emit [ConsOut (''WIte'' @ [CHR 0xC2, CHR 0xA1] @ nl)] (v_core s))))"

text \<open>A word of \<open>n\<close> bytes in memory order; bytes that were not read keep the zero they were set to.\<close>

fun le_bytes :: "nat \<Rightarrow> ut64 \<Rightarrow> u8 list" where
  "le_bytes 0 v = []"
| "le_bytes (Suc n) v = ucast v # le_bytes n (drop_bit 8 v)"

fun le_value :: "u8 list \<Rightarrow> ut64" where
  "le_value [] = 0"
| "le_value (b # bs) = ucast b OR push_bit 8 (le_value bs)"

section \<open>Plain registers\<close>

definition vm_reg_add :: "string \<Rightarrow> int \<Rightarrow> ut64 \<Rightarrow> 'w vm_state \<Rightarrow> 'w vm_state option" where
  "vm_reg_add name t val s =
     (if length name \<ge> 15 then None
      else Some (s\<lparr>vm_regs := vm_regs s @ [\<lparr>vr_name = name, vr_value = val, vr_type = t, vr_get = None, vr_set = None\<rparr>]\<rparr>))"

text \<open>
  The lookup of \<^verbatim>\<open>vm_reg_get\<close> compares as many characters as the name has, without a final bracket; for
  an empty name it reads the character in front of it.
\<close>

definition reg_matches :: "string \<Rightarrow> vm_reg_t \<Rightarrow> bool" where
  "reg_matches name r =
     (let len = (if name \<noteq> [] \<and> last name = CHR '']'' then length name - 1 else length name)
      in take len (vr_name r) = take len name)"

definition reg_get_plain :: "'w reg_read" where
  "reg_get_plain name s =
     (if name = [] then None
      else Some (s, case List.find (reg_matches name) (vm_regs s) of Some r \<Rightarrow> vr_value r | None \<Rightarrow> - 1))"

definition reg_set_plain :: "'w reg_write" where
  "reg_set_plain name val s =
     Some (s\<lparr>vm_regs := update_first (\<lambda>r. vr_name r = name) (\<lambda>r. r\<lparr>vr_value := val\<rparr>) (vm_regs s)\<rparr>)"

definition vm_reg_del :: "string \<Rightarrow> 'w vm_state \<Rightarrow> 'w vm_state \<times> int" where
  "vm_reg_del name s =
     (if \<exists>r \<in> set (vm_regs s). vr_name r = name
      then (s\<lparr>vm_regs := remove_first (\<lambda>r. vr_name r = name) (vm_regs s)\<rparr>, 0) else (s, 1))"

definition vm_reg_alias :: "string \<Rightarrow> string option \<Rightarrow> string option \<Rightarrow> 'w vm_state \<Rightarrow> 'w vm_state \<times> int" where
  "vm_reg_alias name getter setter s =
     (if \<exists>r \<in> set (vm_regs s). vr_name r = name
      then (s\<lparr>vm_regs := update_first (\<lambda>r. vr_name r = name) (\<lambda>r. r\<lparr>vr_get := getter, vr_set := setter\<rparr>) (vm_regs s)\<rparr>, 1)
      else (vm_emit [ErrOut (''Register '' @ [CHR 0x27] @ name @ [CHR 0x27] @ '' not defined.'' @ nl)] s, 0))"

section \<open>The evaluator\<close>

definition scan_llx :: "string \<Rightarrow> ut64" where
  "scan_llx s = (case scan_x s of
      Some v \<Rightarrow> if \<bar>v\<bar> < 2 ^ 64 then word_of_int v else - 1
    | None \<Rightarrow> 0)"

definition scan_lld :: "string \<Rightarrow> ut64" where
  "scan_lld s = word_of_nat (min (scan_digits 10 0 s) (2 ^ 63 - 1))"

definition vm_get_value :: "'w vm_env \<Rightarrow> 'w reg_read \<Rightarrow> 'w reg_read" where
  "vm_get_value env rget str0 s =
     (let str = dropWhile (\<lambda>c. c = CHR '' '') str0 in
      if take 3 str = ''$$$'' then
        do {
          pc \<leftarrow> cpu_pc (vm_cpu s);
          (s', v) \<leftarrow> rget pc s;
          Some (s', word_of_int (snd env v (c_block (r_cfg (v_core s')))))
        }
      else if take 2 str = ''$$'' then Some (s, c_seek (r_cfg (v_core s)))
      else if take 2 str = ''0x'' then Some (s, scan_llx (drop 2 str))
      else if str \<noteq> [] \<and> hd str \<in> set ''0123456789'' then Some (s, scan_lld str)
      else rget str s)"

text \<open>
  The operators in the order \<^verbatim>\<open>vm_get_math\<close> looks for them; the text is split at the first one found, and
  both sides are single values. C leaves the order of the two reads open; the left one is taken first.
\<close>

definition vm_operators :: string where
  "vm_operators = ''+-*/&|^%><''"

definition vm_apply :: "char \<Rightarrow> ut64 \<Rightarrow> ut64 \<Rightarrow> ut64 option" where
  "vm_apply op a b =
     (if op = CHR ''+'' then Some (a + b)
      else if op = CHR ''-'' then Some (a - b)
      else if op = CHR ''*'' then Some (a * b)
      else if op = CHR ''/'' then (if b = 0 then None else Some (a div b))
      else if op = CHR ''&'' then Some (a AND b)
      else if op = CHR ''|'' then Some (a OR b)
      else if op = CHR ''^'' then Some (a XOR b)
      else if op = CHR ''%'' then (if b = 0 then None else Some (a mod b))
      else if op = CHR ''>'' then (if b < 64 then Some (drop_bit (unat b) a) else None)
      else (if b < 64 then Some (push_bit (unat b) a) else None))"

fun vm_split :: "string \<Rightarrow> string \<Rightarrow> (char \<times> string \<times> string) option" where
  "vm_split [] str = None"
| "vm_split (op # ops) str =
     (case strchr_split op str of Some (a, b) \<Rightarrow> Some (op, a, b) | None \<Rightarrow> vm_split ops str)"

definition vm_get_math :: "'w vm_env \<Rightarrow> 'w reg_read \<Rightarrow> 'w reg_read" where
  "vm_get_math env rget str s =
     (case vm_split vm_operators str of
        None \<Rightarrow> vm_get_value env rget str s
      | Some (op, a, b) \<Rightarrow>
          do {
            (s1, x) \<leftarrow> vm_get_value env rget a s;
            (s2, y) \<leftarrow> vm_get_value env rget b s1;
            v \<leftarrow> vm_apply op x y;
            Some (s2, v)
          })"

definition vm_stack_push :: "'w vm_env \<Rightarrow> 'w reg_read \<Rightarrow> 'w reg_write \<Rightarrow> ut64 \<Rightarrow> 'w vm_state \<Rightarrow> 'w vm_state option" where
  "vm_stack_push env rget rset val s =
     do {
       sp \<leftarrow> cpu_sp (vm_cpu s);
       (s1, v) \<leftarrow> rget sp s;
       s2 \<leftarrow> rset sp (v + 4) s1;
       (s3, a) \<leftarrow> rget sp s2;
       (s4, _) \<leftarrow> vm_mmu_write env a (le_bytes 4 val) s3;
       Some s4
     }"

definition vm_stack_pop :: "'w vm_env \<Rightarrow> 'w reg_read \<Rightarrow> 'w reg_write \<Rightarrow> string \<Rightarrow> 'w vm_state \<Rightarrow> 'w vm_state option" where
  "vm_stack_pop env rget rset reg s =
     do {
       sp \<leftarrow> cpu_sp (vm_cpu s);
       (s1, a) \<leftarrow> rget sp s;
       (s2, bytes, r) \<leftarrow> vm_mmu_read env a 4 s1;
       if r \<noteq> 0 then Some s2
       else do {
         (s3, a') \<leftarrow> rget sp s2;
         (s4, bytes', _) \<leftarrow> vm_mmu_read env a' 4 s3;
         s5 \<leftarrow> rset reg (le_value (bytes' @ drop (length bytes') (bytes @ replicate (4 - length bytes) 0))) s4;
         (s6, v) \<leftarrow> rget sp s5;
         rset sp (v - 4) s6
       }
     }"

definition vm_cpu_call :: "'w vm_env \<Rightarrow> 'w reg_read \<Rightarrow> 'w reg_write \<Rightarrow> ut64 \<Rightarrow> 'w vm_state \<Rightarrow> 'w vm_state option" where
  "vm_cpu_call env rget rset addr s =
     do {
       pc \<leftarrow> cpu_pc (vm_cpu s);
       (s1, v) \<leftarrow> rget pc s;
       s2 \<leftarrow> vm_stack_push env rget rset v s1;
       rset pc addr s2
     }"

text \<open>\<^verbatim>\<open>vm_eval_cmp\<close>: the text is not cut at the separator before its first half is evaluated.\<close>

definition vm_eval_cmp :: "'w vm_env \<Rightarrow> 'w reg_read \<Rightarrow> 'w reg_write \<Rightarrow> string \<Rightarrow> 'w vm_state \<Rightarrow> ('w vm_state \<times> int) option" where
  "vm_eval_cmp env rget rset str0 s =
     (let str = dropWhile (\<lambda>c. c = CHR '' '') str0;
          p = (case strchr_split CHR '','' str of Some ab \<Rightarrow> Some ab | None \<Rightarrow> strchr_split CHR '' '' str)
      in case p of
           None \<Rightarrow> Some (s, 1)
         | Some (_, b) \<Rightarrow>
             do {
               (s1, x) \<leftarrow> vm_get_math env rget str s;
               (s2, y) \<leftarrow> vm_get_math env rget b s1;
               zf \<leftarrow> cpu_zf (vm_cpu s2);
               s3 \<leftarrow> rset zf (x - y) s2;
               Some (s3, 0)
             })"

text \<open>The bytes an access of the given number of bits has, and its buffer after a read.\<close>

definition access_size :: "int \<Rightarrow> nat" where
  "access_size bits = (if bits = 8 then 1 else if bits = 16 then 2 else if bits = 64 then 8 else 4)"

definition overlay :: "u8 list \<Rightarrow> u8 list \<Rightarrow> u8 list" where
  "overlay bytes buf = bytes @ drop (length bytes) buf"

text \<open>\<^verbatim>\<open>[a] = [b]\<close>\<close>

definition eval_copy :: "'w vm_env \<Rightarrow> 'w reg_read \<Rightarrow> string \<Rightarrow> 'w vm_state \<Rightarrow> 'w vm_state option" where
  "eval_copy env rget val s =
     do {
       (s1, off) \<leftarrow> vm_get_math env rget (tl val) s;
       case strchr_split CHR '':'' (tl val) of
         Some (_, b) \<Rightarrow>
           do {
             (s2, off') \<leftarrow> vm_get_math env rget b s1;
             let n = access_size (atoi (tl val));
             (s3, bytes, _) \<leftarrow> vm_mmu_read env off' n s2;
             (s4, _) \<leftarrow> vm_mmu_write env off' (overlay bytes (replicate n (junk (fst env)))) s3;
             Some s4
           }
       | None \<Rightarrow>
           do {
             (s3, bytes, _) \<leftarrow> vm_mmu_read env off 4 s1;
             (s4, _) \<leftarrow> vm_mmu_write env off (overlay bytes (replicate 4 0)) s3;
             Some s4
           }
     }"

text \<open>\<^verbatim>\<open>[a] = v\<close>; with a size the buffer that is written was never filled, and the size is read from the value.\<close>

definition eval_store :: "'w vm_env \<Rightarrow> 'w reg_read \<Rightarrow> string \<Rightarrow> string \<Rightarrow> 'w vm_state \<Rightarrow> 'w vm_state option" where
  "eval_store env rget str val s =
     do {
       (s1, off) \<leftarrow> vm_get_math env rget (tl str) s;
       (s2, v) \<leftarrow> vm_get_math env rget val s1;
       let v32 = (ucast (ucast v :: ut32) :: ut64);
       let s2' = vm_emit [ErrOut (''   ;==> ['' @ hex_0x off @ ''] = '' @ fmt_x (unat v32) @ ''  (('' @ tl str @ ''))'' @ nl)] s2;
       case strchr_split CHR '':'' (tl str) of
         Some (_, b) \<Rightarrow>
           if val = [] then None
           else do {
             let size = atoi (tl val);
             (s3, off') \<leftarrow> vm_get_math env rget b s2';
             let s4 = vm_emit [ConsOut ('' write size: '' @ fmt_d size @ nl)] s3;
             (s5, _) \<leftarrow> vm_mmu_write env off' (replicate (access_size size) (junk (fst env))) s4;
             Some s5
           }
       | None \<Rightarrow>
           do {
             let s3 = vm_emit [ConsOut (''   ; write '' @ fmt_x (unat v32) @ '' @ '' @ hex_0x off @ nl)] s2';
             (s4, _) \<leftarrow> vm_mmu_write env off (le_bytes 4 v) s3;
             Some s4
           }
     }"

text \<open>\<^verbatim>\<open>r = [a]\<close>, with the text cut at the closing bracket.\<close>

definition eval_load :: "'w vm_env \<Rightarrow> 'w reg_read \<Rightarrow> 'w reg_write \<Rightarrow> string \<Rightarrow> string \<Rightarrow> 'w vm_state \<Rightarrow> 'w vm_state option" where
  "eval_load env rget rset str val s =
     (let v = takeWhile (\<lambda>c. c \<noteq> CHR '']'') (tl val);
          (n, e) = (case strchr_split CHR '':'' v of Some (_, b) \<Rightarrow> (access_size (atoi v), b) | None \<Rightarrow> (4, v))
      in do {
           (s1, off) \<leftarrow> vm_get_math env rget e s;
           (s2, bytes, _) \<leftarrow> vm_mmu_read env off n s1;
           rset str (le_value (overlay bytes (replicate n 0))) s2
         })"

definition vm_eval_eq :: "'w vm_env \<Rightarrow> 'w reg_read \<Rightarrow> 'w reg_write \<Rightarrow> string \<Rightarrow> string \<Rightarrow> 'w vm_state \<Rightarrow> 'w vm_state option" where
  "vm_eval_eq env rget rset str0 val0 s =
     (let str = dropWhile (\<lambda>c. c = CHR '' '') str0; val = dropWhile (\<lambda>c. c = CHR '' '') val0
      in if take 1 str = ''['' then
           (if take 1 val = ''['' then eval_copy env rget val s else eval_store env rget str val s)
         else if take 1 val = ''['' then eval_load env rget rset str val s
         else do { (s1, v) \<leftarrow> vm_get_math env rget val s; rset str v s1 })"

text \<open>The removal of blanks in \<^verbatim>\<open>vm_eval_single\<close>: the character that moves into the place of one is not looked at.\<close>

fun strip_blanks :: "string \<Rightarrow> string" where
  "strip_blanks [] = []"
| "strip_blanks [c] = (if c = CHR '' '' then [] else [c])"
| "strip_blanks (c # d # cs) = (if c = CHR '' '' then d # strip_blanks cs else c # strip_blanks (d # cs))"

definition eval_assign :: "'w vm_env \<Rightarrow> 'w reg_read \<Rightarrow> 'w reg_write \<Rightarrow> string \<Rightarrow> string \<Rightarrow> 'w vm_state \<Rightarrow> 'w vm_state option" where
  "eval_assign env rget rset lhs rhs s =
     (if lhs = [] then None
      else if last lhs \<in> set ''+-*/&^%|<>'' then
        (let p = butlast lhs; buf = take 126 (p @ [last lhs] @ rhs); p' = takeWhile (\<lambda>c. c \<noteq> CHR '' '') p
         in vm_eval_eq env rget rset p' buf (vm_emit [ConsOut (''BUF('' @ p' @ '')('' @ buf @ '')'' @ nl)] s))
      else vm_eval_eq env rget rset (rev (dropWhile (\<lambda>c. c = CHR '' '') (rev lhs))) rhs s)"

text \<open>
  The statements without \<^verbatim>\<open>=\<close>. Only what starts with \<^verbatim>\<open>if\<close>, \<^verbatim>\<open>ifnot\<close> or \<^verbatim>\<open>cmp\<close> goes on to the second chain
  of comparisons, which then ends in its last branch; -1 stops the evaluation.
\<close>

definition eval_branch :: "'w vm_env \<Rightarrow> 'w reg_read \<Rightarrow> 'w reg_write \<Rightarrow> string \<Rightarrow> string \<Rightarrow> 'w vm_state \<Rightarrow> 'w vm_state option" where
  "eval_branch env rget rset ptr str s =
     (if take 6 ptr = ''syscal'' then Some (vm_emit [ErrOut (''TODO: syscall interface not yet implemented'' @ nl)] s)
      else if take 4 ptr = ''call'' \<or> take 4 ptr = ''jmp '' then
        do {
          pc \<leftarrow> cpu_pc (vm_cpu s);
          s1 \<leftarrow> (if hd ptr = CHR ''c''
                 then do { (s', v) \<leftarrow> vm_get_value env rget pc s; vm_stack_push env rget rset v s' } else Some s);
          (s2, v) \<leftarrow> vm_get_value env rget (drop 4 ptr) (vm_emit [ConsOut (''CALL('' @ drop 4 ptr @ '')'' @ nl)] s1);
          rset pc v s2
        }
      else if take 3 ptr = ''jz '' then
        do {
          (s1, c) \<leftarrow> rget (drop 3 ptr) s;
          if c = 0 then do { pc \<leftarrow> cpu_pc (vm_cpu s1); (s2, v) \<leftarrow> vm_get_value env rget (drop 3 ptr) s1; rset pc v s2 } else Some s1
        }
      else if take 4 ptr = ''jnz '' then
        do {
          (s1, c) \<leftarrow> rget (drop 4 ptr) s;
          if c = 0 then do { pc \<leftarrow> cpu_pc (vm_cpu s1); (s2, v) \<leftarrow> vm_get_value env rget (drop 4 ptr) s1; rset pc v s2 } else Some s1
        }
      else if take 5 ptr = ''push '' then
        do { (s1, v) \<leftarrow> vm_get_value env rget (drop 5 str) s; vm_stack_push env rget rset v s1 }
      else if take 4 str = ''pop '' then vm_stack_pop env rget rset (drop 5 str) s
      else if take 3 ptr = ''ret'' then do { pc \<leftarrow> cpu_pc (vm_cpu s); vm_stack_pop env rget rset pc s }
      else Some (vm_emit [ErrOut (''Unknown opcode'' @ nl)] s))"

definition vm_eval_single :: "'w vm_env \<Rightarrow> 'w reg_read \<Rightarrow> 'w reg_write \<Rightarrow> string \<Rightarrow> 'w vm_state \<Rightarrow> ('w vm_state \<times> int) option" where
  "vm_eval_single env rget rset str0 s0 =
     (let s = vm_emit [ErrOut (''   ; '' @ str0 @ nl)] s0;
          str = dropWhile (\<lambda>c. c = CHR '' '') str0; ptr = strip_blanks str
      in case strchr_split CHR ''='' ptr of
           Some (lhs, rhs) \<Rightarrow> map_option (\<lambda>s'. (s', 0)) (eval_assign env rget rset lhs rhs s)
         | None \<Rightarrow>
             let su = vm_emit [ErrOut (''Unknown opcode'' @ nl)] s in
             if take 3 ptr = ''if '' then
               do { (s1, v) \<leftarrow> rget (drop 3 ptr) su;
                    if v \<noteq> 0 then Some (s1, - 1) else map_option (\<lambda>s'. (s', 0)) (eval_branch env rget rset ptr str s1) }
             else if take 6 ptr = ''ifnot '' then
               do { (s1, v) \<leftarrow> rget (drop 6 ptr) su;
                    if v = 0 then Some (s1, - 1) else map_option (\<lambda>s'. (s', 0)) (eval_branch env rget rset ptr str s1) }
             else if take 4 ptr = ''cmp '' then
               do { (s1, _) \<leftarrow> (if length str < 5 then None else vm_eval_cmp env rget rset (drop 5 str) su);
                    map_option (\<lambda>s'. (s', 0)) (eval_branch env rget rset ptr str s1) }
             else Some (su, 0))"

text \<open>The statements of a text, separated by commas.\<close>

fun split_commas :: "string \<Rightarrow> string list" where
  "split_commas [] = [[]]"
| "split_commas (c # cs) =
     (if c = CHR '','' then [] # split_commas cs
      else case split_commas cs of p # ps \<Rightarrow> (c # p) # ps | [] \<Rightarrow> [[c]])"

fun vm_eval_list :: "'w vm_env \<Rightarrow> 'w reg_read \<Rightarrow> 'w reg_write \<Rightarrow> string list \<Rightarrow> 'w vm_state \<Rightarrow> ('w vm_state \<times> int) option" where
  "vm_eval_list env rget rset [] s = Some (s, 1)"
| "vm_eval_list env rget rset [p] s = map_option (\<lambda>(s', _). (s', 1)) (vm_eval_single env rget rset p s)"
| "vm_eval_list env rget rset (p # q # ps) s =
     do { (s', r) \<leftarrow> vm_eval_single env rget rset p s;
          if r = - 1 then Some (s', 0) else vm_eval_list env rget rset (q # ps) s' }"

definition vm_eval_with :: "'w vm_env \<Rightarrow> 'w reg_read \<Rightarrow> 'w reg_write \<Rightarrow> string \<Rightarrow> 'w vm_state \<Rightarrow> ('w vm_state \<times> int) option" where
  "vm_eval_with env rget rset str s =
     vm_eval_list env rget rset (split_commas str)
       (vm_mmu_real ((ucast (cfg_get_i (fst env) ''vm.realio'') :: ut32) \<noteq> 0) s)"

section \<open>Registers with aliases, and evaluation\<close>

definition vm_reg_get :: "'w vm_env \<Rightarrow> 'w reg_read" where
  "vm_reg_get env name s =
     (if name = [] then None
      else case List.find (\<lambda>i. reg_matches name (vm_regs s ! i)) [0..<length (vm_regs s)] of
        None \<Rightarrow> Some (s, - 1)
      | Some i \<Rightarrow>
          (case vr_get (vm_regs s ! i) of
             None \<Rightarrow> Some (s, vr_value (vm_regs s ! i))
           | Some code \<Rightarrow>
               do { (s', _) \<leftarrow> vm_eval_with env reg_get_plain reg_set_plain code s;
                    Some (s', vr_value (vm_regs s' ! i)) }))"

definition vm_reg_set :: "'w vm_env \<Rightarrow> 'w reg_write" where
  "vm_reg_set env name val s =
     (case List.find (\<lambda>r. vr_name r = name) (vm_regs s) of
        None \<Rightarrow> Some s
      | Some r \<Rightarrow>
          do {
            s1 \<leftarrow> reg_set_plain name val s;
            case vr_set r of
              None \<Rightarrow> Some s1
            | Some code \<Rightarrow> map_option fst (vm_eval_with env reg_get_plain reg_set_plain code s1)
          })"

definition vm_eval :: "'w vm_env \<Rightarrow> string \<Rightarrow> 'w vm_state \<Rightarrow> ('w vm_state \<times> int) option" where
  "vm_eval env = vm_eval_with env (vm_reg_get env) (vm_reg_set env)"

section \<open>Opcodes\<close>

definition vm_op_add :: "string \<Rightarrow> string \<Rightarrow> 'w vm_state \<Rightarrow> 'w vm_state option" where
  "vm_op_add op str s =
     (if length op \<ge> 32 \<or> length str \<ge> 1024 then None
      else Some (s\<lparr>vm_ops := vm_ops s @ [\<lparr>vo_opcode = op, vo_code = str\<rparr>]\<rparr>))"

text \<open>
  \<^verbatim>\<open>vm_op_eval\<close> expands the code of an opcode into a buffer that starts as a copy of the code and has 127
  bytes after its terminator. \<open>poke_str\<close> is \<^verbatim>\<open>strcpy(p+k, w)\<close>, \<open>k\<close> the write position; \<open>Inl\<close> is the early
  return. A dollar that is followed by neither a dollar nor a digit leaves the byte at \<open>k\<close> as it is.
\<close>

definition poke_str :: "string \<Rightarrow> nat \<Rightarrow> string \<Rightarrow> string option" where
  "poke_str w k p =
     (if k + length w + 1 > length p then None
      else Some (take k p @ w @ [NUL] @ drop (k + length w + 1) p))"

definition is_digit :: "char \<Rightarrow> bool" where
  "is_digit c \<longleftrightarrow> c \<in> set ''0123456789''"

definition op_word :: "string \<Rightarrow> char \<Rightarrow> string option" where
  "op_word words c = get0word words ((of_char c :: nat) - 48)"

fun op_expand :: "'w vm_env \<Rightarrow> string \<Rightarrow> config_t \<Rightarrow> string \<Rightarrow> nat \<Rightarrow> string \<Rightarrow> (unit + (string \<times> nat)) option" where
  "op_expand env words cfg [] k p = Some (Inr (p, k))"
| "op_expand env words cfg (c # cs) k p =
     (if c \<noteq> CHR ''$'' then
        (if k < length p then op_expand env words cfg cs (k + 1) (p[k := c]) else None)
      else case cs of
        [] \<Rightarrow> Some (Inl ())
      | d # ds \<Rightarrow>
          if d = CHR ''$'' then
            (let size = (ds \<noteq> [] \<and> hd ds = CHR ''$'');
                 w = (if size then fmt_d (snd env (c_seek cfg) (c_block cfg)) else hex_0x (c_seek cfg))
             in Option.bind (poke_str w k p) (op_expand env words cfg (if size then tl ds else ds) (k + length w)))
          else if is_digit d then
            Option.bind (op_word words d) (\<lambda>w. Option.bind (poke_str w k p) (op_expand env words cfg ds (k + length w)))
          else op_expand env words cfg ds (k + 1) p)"

definition op_text :: "'w vm_env \<Rightarrow> string \<Rightarrow> config_t \<Rightarrow> string \<Rightarrow> (unit + string) option" where
  "op_text env words cfg code =
     (case op_expand env words cfg code 0 (code @ [NUL] @ replicate 127 (char_of (unat (junk (fst env))))) of
        None \<Rightarrow> None
      | Some (Inl _) \<Rightarrow> Some (Inl ())
      | Some (Inr (p, k)) \<Rightarrow> if k < length p then Some (Inr (takeWhile (\<lambda>c. c \<noteq> NUL) (take k p))) else None)"

text \<open>The loop over the opcodes goes on after a match, so the last one decides.\<close>

fun op_select :: "'w vm_env \<Rightarrow> string \<Rightarrow> config_t \<Rightarrow> string \<Rightarrow> vm_op_t list \<Rightarrow> string \<Rightarrow> (unit + string) option" where
  "op_select env words cfg arg0 [] p = Some (Inr p)"
| "op_select env words cfg arg0 (o1 # os) p =
     (if vo_opcode o1 = arg0 then
        (case op_text env words cfg (vo_code o1) of
           None \<Rightarrow> None
         | Some (Inl _) \<Rightarrow> Some (Inl ())
         | Some (Inr p') \<Rightarrow> op_select env words cfg arg0 os p')
      else op_select env words cfg arg0 os p)"

definition vm_op_eval :: "'w vm_env \<Rightarrow> string \<Rightarrow> 'w vm_state \<Rightarrow> ('w vm_state \<times> int) option" where
  "vm_op_eval env str s =
     do {
       (words, nargs) \<leftarrow> set0word str;
       arg0 \<leftarrow> get0word words 0;
       sel \<leftarrow> op_select env words (r_cfg (v_core s)) arg0 (vm_ops s) str;
       case sel of
         Inl _ \<Rightarrow> Some (vm_emit [ErrOut (''invalid string'' @ nl)] s, 0)
       | Inr p \<Rightarrow> vm_eval env p s
     }"

definition vm_op_list :: "'w vm_state \<Rightarrow> 'w vm_state" where
  "vm_op_list s = vm_emit (ErrOut (''Oplist'' @ nl) #
     map (\<lambda>o1. ConsOut (vo_opcode o1 @ '' = '' @ vo_code o1 @ nl)) (vm_ops s)) s"

definition vm_cmd_op :: "string \<Rightarrow> 'w vm_state \<Rightarrow> 'w vm_state option" where
  "vm_cmd_op op0 s =
     (let op = (if take 1 op0 = '' '' then tl op0 else op0) in
      case strchr_split CHR '' '' op of
        Some (cmd, code) \<Rightarrow>
          vm_op_add cmd code (vm_emit [ErrOut (''vm: opcode '' @ [CHR 0x27] @ cmd @ [CHR 0x27] @ '' added'' @ nl)] s)
      | None \<Rightarrow> Some (vm_emit [ConsOut (''avo [op] [expr]'' @ nl @
           '' '' @ [CHR 0x22] @ ''avo call [esp]=eip+$$$,esp=esp+4,eip=$1'' @ nl @
           '' '' @ [CHR 0x22] @ ''avo jmp eip=$1'' @ nl @
           '' '' @ [CHR 0x22] @ ''avo mov $1=$2'' @ nl @
           ''Note: The prefix '' @ [CHR 0x27, CHR 0x22, CHR 0x27] @ '' quotes the command and does not parses pipes and so'' @ nl)] s))"

text \<open>
  \<^verbatim>\<open>vm_eval_file\<close> on the contents of a file, \<open>None\<close> when it cannot be opened: \<^verbatim>\<open>fgets\<close> gives pieces of at most 1022
  characters that end after a newline, and the last character of each piece is removed, newline or not.
\<close>

fun eval_lines :: "'w vm_env \<Rightarrow> string list \<Rightarrow> 'w vm_state \<Rightarrow> 'w vm_state option" where
  "eval_lines env [] s = Some s"
| "eval_lines env (l # ls) s =
     (let t = takeWhile (\<lambda>c. c \<noteq> NUL) l in
      if t = [] then eval_lines env ls s
      else Option.bind (vm_op_eval env (butlast t) s) (\<lambda>(s', _). eval_lines env ls s'))"

definition vm_eval_file :: "'w vm_env \<Rightarrow> string option \<Rightarrow> 'w vm_state \<Rightarrow> ('w vm_state \<times> int) option" where
  "vm_eval_file env file s =
     (case file of None \<Rightarrow> Some (s, 0) | Some str \<Rightarrow> map_option (\<lambda>s'. (s', 1)) (eval_lines env (fgets_all str) s))"

section \<open>Configuration and commands\<close>

definition vm_cpu_zero :: vm_cpu_t where
  "vm_cpu_zero = \<lparr>cpu_pc = None, cpu_sp = None, cpu_bp = None, cpu_a0 = None, cpu_a1 = None, cpu_a2 = None,
     cpu_a3 = None, cpu_ret = None, cpu_zf = None\<rparr>"

definition vm_configure_cpu :: "string \<Rightarrow> string \<Rightarrow> string \<Rightarrow> 'w vm_state \<Rightarrow> 'w vm_state" where
  "vm_configure_cpu eip esp ebp s = s\<lparr>vm_cpu := (vm_cpu s)\<lparr>cpu_pc := Some eip, cpu_sp := Some esp, cpu_bp := Some ebp\<rparr>\<rparr>"

definition vm_configure_flags :: "string \<Rightarrow> 'w vm_state \<Rightarrow> 'w vm_state" where
  "vm_configure_flags zf s = s\<lparr>vm_cpu := (vm_cpu s)\<lparr>cpu_zf := Some zf\<rparr>\<rparr>"

definition vm_configure_fastcall :: "string \<Rightarrow> string \<Rightarrow> string \<Rightarrow> string \<Rightarrow> 'w vm_state \<Rightarrow> 'w vm_state" where
  "vm_configure_fastcall a b c d s =
     s\<lparr>vm_cpu := (vm_cpu s)\<lparr>cpu_a0 := Some a, cpu_a1 := Some b, cpu_a2 := Some c, cpu_a3 := Some d\<rparr>\<rparr>"

definition vm_configure_ret :: "string \<Rightarrow> 'w vm_state \<Rightarrow> 'w vm_state" where
  "vm_configure_ret eax s = s\<lparr>vm_cpu := (vm_cpu s)\<lparr>cpu_ret := Some eax\<rparr>\<rparr>"

text \<open>The opcodes, registers and aliases of the x86 machine.\<close>

definition x86_ops :: "(string \<times> string) list" where
  "x86_ops = [(''mov'', ''$1=$2''), (''lea'', ''$1=$2''), (''add'', ''$1=$1+$2''), (''sub'', ''$1=$1-$2''),
     (''jmp'', ''eip=$1''), (''push'', ''esp=esp-4,[esp]=$1''), (''pop'', ''$1=[esp],esp=esp+4''),
     (''call'', ''esp=esp-4,[esp]=eip+$$$,eip=$1''), (''ret'', ''eip=[esp],esp=esp+4'')]"

definition x86_regs :: "(string \<times> int \<times> (string \<times> string) option) list" where
  "x86_regs = [(''eax'', VMREG_INT32, None),
     (''ax'', VMREG_INT16, Some (''ax=eax&0xffff'', ''eax=eax>16,eax=eax<16,eax=eax|ax'')),
     (''al'', VMREG_INT8, Some (''al=eax&0xff'', ''al=al&0xff,eax=eax>16,eax=eax<16,eax=eax|al'')),
     (''ah'', VMREG_INT8, Some (''ah=eax&0xff00,ah=ah>8'', ''eax=eax&0xFFFF00ff,ah=ah<8,eax=eax|ah,ah=ah>8'')),
     (''ebx'', VMREG_INT32, None), (''ecx'', VMREG_INT32, None), (''edx'', VMREG_INT32, None),
     (''esi'', VMREG_INT32, None), (''edi'', VMREG_INT32, None), (''eip'', VMREG_INT32, None),
     (''esp'', VMREG_INT32, None), (''ebp'', VMREG_INT32, None), (''zf'', VMREG_BIT, None), (''cf'', VMREG_BIT, None)]"

definition add_x86_op :: "string \<times> string \<Rightarrow> 'w vm_state \<Rightarrow> 'w vm_state option" where
  "add_x86_op = (\<lambda>(op, code). vm_op_add op code)"

definition add_x86_reg :: "string \<times> int \<times> (string \<times> string) option \<Rightarrow> 'w vm_state \<Rightarrow> 'w vm_state option" where
  "add_x86_reg = (\<lambda>(name, t, al) s.
     map_option (\<lambda>s'. case al of None \<Rightarrow> s' | Some (g, st) \<Rightarrow> fst (vm_reg_alias name (Some g) (Some st) s'))
       (vm_reg_add name t 0 s))"

fun fold_opt :: "('a \<Rightarrow> 's \<Rightarrow> 's option) \<Rightarrow> 'a list \<Rightarrow> 's \<Rightarrow> 's option" where
  "fold_opt f [] s = Some s"
| "fold_opt f (x # xs) s = Option.bind (f x s) (fold_opt f xs)"

definition ARCH_X86 :: int where "ARCH_X86 = 1"

text \<open>
  \<^verbatim>\<open>vm_init\<close>; the register file that \<^verbatim>\<open>vm_arch_x86_init\<close> and \<^verbatim>\<open>vm_arch_mips_init\<close> clear is not read by the machine.
\<close>

definition vm_init :: "'w vm_env \<Rightarrow> int \<Rightarrow> int \<Rightarrow> bool \<Rightarrow> 'w vm_state \<Rightarrow> 'w vm_state option" where
  "vm_init env arch vm_arch init0 s0 =
     (let init = (init0 \<or> arch \<noteq> vm_arch);
          s1 = (if init then s0\<lparr>vm_mmu_cache := [], vm_regs := [], vm_ops := [], vm_cpu := vm_cpu_zero\<rparr> else s0);
          s2 = vm_mmu_real ((ucast (cfg_get_i (fst env) ''vm.realio'') :: ut32) \<noteq> 0) s1
      in if arch = ARCH_X86 then
           do {
             s3 \<leftarrow> fold_opt add_x86_op x86_ops s2;
             s4 \<leftarrow> fold_opt add_x86_reg x86_regs s3;
             Some (vm_configure_ret ''eax'' (vm_configure_fastcall ''eax'' ''ebx'' ''ecx'' ''edx''
                     (vm_configure_flags ''zf'' (vm_configure_cpu ''eip'' ''esp'' ''ebp'' s4))))
           }
         else Some s2)"

text \<open>\<^verbatim>\<open>vm_print\<close>: each register is looked at when its turn comes, as the getters before it may have changed it.\<close>

fun vm_print_regs :: "'w vm_env \<Rightarrow> int \<Rightarrow> nat list \<Rightarrow> 'w vm_state \<Rightarrow> 'w vm_state option" where
  "vm_print_regs env t [] s = Some s"
| "vm_print_regs env t (i # is) s =
     (let r = vm_regs s ! i in
      if t = - 2 then
        vm_print_regs env t is (vm_emit [ConsOut (''f vm.'' @ vr_name r @ '' @ '' @ hex_0x (vr_value r) @ nl)] s)
      else if t = - 1 \<or> t = vr_type r then
        do {
          tn \<leftarrow> vm_reg_type (vr_type r);
          (s', v) \<leftarrow> (if vr_get r = None then Some (s, vr_value r) else vm_reg_get env (vr_name r) s);
          vm_print_regs env t is (vm_emit [ConsOut (''.'' @ tn @ [CHR 0x09] @ vr_name r @ '' = '' @ hex_0x v @ nl)] s')
        }
      else vm_print_regs env t is s)"

definition vm_print :: "'w vm_env \<Rightarrow> int \<Rightarrow> 'w vm_state \<Rightarrow> 'w vm_state option" where
  "vm_print env t s =
     (let s1 = (if t = - 2 then vm_emit [ConsOut (''fs vm'' @ nl)] s else s)
      in map_option (\<lambda>s2. if t = - 2 then vm_emit [ConsOut (''fs *'' @ nl)] s2 else s2)
           (vm_print_regs env t [0..<length (vm_regs s1)] s1))"

definition vm_import :: "(string \<Rightarrow> ut64) \<Rightarrow> bool \<Rightarrow> 'w vm_state \<Rightarrow> 'w vm_state" where
  "vm_import get_offset vm s =
     vm_emit [ConsOut (''MMU: '' @ (if realio s then ''real'' else ''cached'') @ nl), ErrOut (''Importing register values'' @ nl)]
       (s\<lparr>vm_regs := map (\<lambda>r. r\<lparr>vr_value := get_offset (if vm then take 62 (''vm.'' @ vr_name r) else vr_name r)\<rparr>) (vm_regs s)\<rparr>)"

definition alias_lines :: "vm_reg_t \<Rightarrow> out_event list" where
  "alias_lines r =
     (if vr_get r = None \<and> vr_set r = None then []
      else let len = length (vr_name r) + 1; wide = (len \<ge> 5); sp = (if wide then 5 else 5 - len)
        in [ConsOut (vr_name r @ '':'')] @ (if wide then [ConsOut nl] else []) @
           [ConsOut (replicate sp CHR '' '' @ ''get = '' @ fmt_s (vr_get r) @ nl @
                     replicate 5 CHR '' '' @ ''set = '' @ fmt_s (vr_set r) @ nl)])"

definition vm_reg_alias_list :: "'w vm_state \<Rightarrow> 'w vm_state" where
  "vm_reg_alias_list s = vm_emit (ErrOut (''Register alias:'' @ nl) # concat (map alias_lines (vm_regs s))) s"

definition cmd_alias :: "string \<Rightarrow> 'w vm_state \<Rightarrow> 'w vm_state" where
  "cmd_alias arg s =
     (case strchr_split CHR '' '' arg of
        None \<Rightarrow> s
      | Some (name, r) \<Rightarrow>
          (case strchr_split CHR '' '' r of
             None \<Rightarrow> s
           | Some (g, st) \<Rightarrow> fst (vm_reg_alias name (Some g) (Some st) s)))"

definition vm_cmd_reg :: "'w vm_env \<Rightarrow> string \<Rightarrow> 'w vm_state \<Rightarrow> 'w vm_state option" where
  "vm_cmd_reg env str s =
     (let blanks = dropWhile (\<lambda>c. c = CHR '' '') in
      case str of
        [] \<Rightarrow> vm_print env (- 1) s
      | c # cs \<Rightarrow>
          if c = CHR ''a'' then
            Some (if take 1 cs = '' '' then cmd_alias (tl cs) s else vm_reg_alias_list s)
          else if c = CHR ''t'' then Some (vm_reg_type_list s)
          else if c = CHR ''+'' then
            (case strchr_split CHR '' '' (blanks cs) of
               Some (name, t) \<Rightarrow> Option.bind (vm_reg_type_i t) (\<lambda>ty. vm_reg_add name ty 0 s)
             | None \<Rightarrow> vm_reg_add (blanks cs) VMREG_INT32 0 s)
          else if c = CHR ''-'' then
            Some (if take 1 (blanks cs) = ''*'' then s\<lparr>vm_regs := []\<rparr> else fst (vm_reg_del (blanks cs) s))
          else
            (let arg = blanks str in
             if CHR ''='' \<in> set arg then map_option fst (vm_op_eval env arg s)
             else if take 1 arg = ''.'' then Option.bind (vm_reg_type_i (tl arg)) (\<lambda>ty. vm_print env ty s)
             else map_option (\<lambda>(s', v). vm_emit [ConsOut (arg @ '' = '' @ hex_0x v @ nl)] s') (vm_reg_get env arg s)))"

section \<open>One assignment\<close>

text \<open>A word of the language: no operator, blank, bracket, separator or equals sign in it.\<close>

definition plain_word :: "string \<Rightarrow> bool" where
  "plain_word w \<longleftrightarrow> w \<noteq> [] \<and> set w \<inter> set (vm_operators @ '' =,[]:'') = {}"

lemma strip_blanks_id: "CHR '' '' \<notin> set str \<Longrightarrow> strip_blanks str = str"
  by (induction str rule: strip_blanks.induct) auto

lemma dropWhile_no_blank: "CHR '' '' \<notin> set str \<Longrightarrow> dropWhile (\<lambda>c. c = CHR '' '') str = str"
  by (cases str) auto

lemma vm_split_none: "set ops \<inter> set str = {} \<Longrightarrow> vm_split ops str = None"
  by (induction ops) (auto simp: option.case_eq_if)

lemma vm_split_one:
  assumes "set ops \<inter> set a = {}" "set ops \<inter> set b = {}" "op \<in> set ops"
  shows "vm_split ops (a @ op # b) = Some (op, a, b)"
  using assms
proof (induction ops)
  case (Cons c ops)
  show ?case
  proof (cases "c = op")
    case True
    then have "strchr_split c (a @ op # b) = Some (a, b)" using Cons.prems by (simp add: strchr_split_Some)
    then show ?thesis using True by simp
  next
    case False
    then have "strchr_split c (a @ op # b) = None" using Cons.prems by simp
    then show ?thesis using Cons False by (simp add: option.case_eq_if)
  qed
qed simp

lemma eval_binop:
  assumes "plain_word dst" "plain_word a" "plain_word b" "op \<in> set vm_operators"
  shows "vm_eval_single env rget rset (dst @ CHR ''='' # a @ op # b) s =
     do {
       (s1, x) \<leftarrow> vm_get_value env rget a (vm_emit [ErrOut (''   ; '' @ dst @ CHR ''='' # a @ op # b @ nl)] s);
       (s2, y) \<leftarrow> vm_get_value env rget b s1;
       v \<leftarrow> vm_apply op x y;
       s3 \<leftarrow> rset dst v s2;
       Some (s3, 0)
     }"
proof -
  let ?e = "a @ op # b"
  have op: "op \<noteq> CHR '' ''" "op \<noteq> CHR ''=''" "op \<noteq> CHR ''[''" using assms(4) by (auto simp: vm_operators_def)
  have nb: "CHR '' '' \<notin> set (dst @ CHR ''='' # ?e)" using assms op by (auto simp: plain_word_def)
  have eq: "strchr_split CHR ''='' (dst @ CHR ''='' # ?e) = Some (dst, ?e)"
    using assms(1) by (auto simp: plain_word_def strchr_split_Some)
  have last: "last dst \<in> set dst" using assms(1) by (simp add: plain_word_def)
  moreover have "set dst \<inter> set ''+-*/&^%|<>'' = {}" using assms(1) by (auto simp: plain_word_def vm_operators_def)
  ultimately have l: "last dst \<notin> set ''+-*/&^%|<>''" by blast
  have rd: "rev (dropWhile (\<lambda>c. c = CHR '' '') (rev dst)) = dst"
    using assms(1) by (simp add: dropWhile_no_blank plain_word_def)
  have sp: "vm_split vm_operators ?e = Some (op, a, b)"
    using assms(2-4) by (intro vm_split_one) (auto simp: plain_word_def)
  have h: "take 1 dst \<noteq> ''[''" "take 1 ?e \<noteq> ''[''"
    using assms(1,2) by (cases dst; cases a; auto simp: plain_word_def)+
  have ev: "vm_eval_eq env rget rset dst ?e s' = do { (s1, v) \<leftarrow> vm_get_math env rget ?e s'; rset dst v s1 }" for s'
    using nb h by (simp add: vm_eval_eq_def dropWhile_no_blank Let_def)
  have "vm_eval_single env rget rset (dst @ CHR ''='' # ?e) s =
      map_option (\<lambda>s'. (s', 0)) (vm_eval_eq env rget rset dst ?e (vm_emit [ErrOut (''   ; '' @ (dst @ CHR ''='' # ?e) @ nl)] s))"
    unfolding vm_eval_single_def Let_def dropWhile_no_blank [OF nb] strip_blanks_id [OF nb] eq
    using l rd assms(1) by (simp add: eval_assign_def plain_word_def)
  then show ?thesis unfolding ev vm_get_math_def sp
    by (simp add: map_option_case split: Option.bind_splits option.splits)
qed


section \<open>Emulation without memory writes\<close>

text \<open>
  What the cached machine relies on: under the environments \<open>ok\<close> the variable \<^verbatim>\<open>vm.realio\<close> is off, and
  reading at an address and printing keep the predicate \<open>keep\<close> of the core.
\<close>

locale vm_cached =
  fixes ok :: "'w vm_env \<Rightarrow> bool"
    and keep :: "'w core \<Rightarrow> bool"
  assumes not_real: "ok env \<Longrightarrow> (ucast (cfg_get_i (fst env) ''vm.realio'') :: ut32) = 0"
    and emit_keeps: "keep st \<Longrightarrow> keep (emit es st)"
    and read_keeps: "ok env \<Longrightarrow> keep st \<Longrightarrow> radare_read_at (fst env) off n st = Some (st', bs, r) \<Longrightarrow> keep st'"
begin

definition safe :: "'w vm_state \<Rightarrow> bool" where
  "safe s \<longleftrightarrow> \<not> realio s \<and> keep (v_core s)"

text \<open>\<open>keeps f m\<close>: if the step \<open>m\<close> returns, the state \<open>f\<close> finds in its result is safe.\<close>

definition keeps :: "('x \<Rightarrow> 'w vm_state) \<Rightarrow> 'x option \<Rightarrow> bool" where
  "keeps f m \<longleftrightarrow> (\<forall>x. m = Some x \<longrightarrow> safe (f x))"

lemma keeps_none [simp]: "keeps f None"
  by (simp add: keeps_def)

lemma keeps_some [simp]: "keeps f (Some x) \<longleftrightarrow> safe (f x)"
  by (simp add: keeps_def)

lemma keeps_map [simp]: "keeps f (map_option g m) \<longleftrightarrow> keeps (f \<circ> g) m"
  by (cases m) simp_all

lemma bind_state: "keeps id m \<Longrightarrow> (\<And>s. safe s \<Longrightarrow> keeps g (k s)) \<Longrightarrow> keeps g (Option.bind m k)"
  for k :: "'w vm_state \<Rightarrow> 'x option"
  by (cases m) (auto simp: keeps_def)

lemma bind_pair:
  "keeps fst m \<Longrightarrow> (\<And>s v. safe s \<Longrightarrow> keeps g (k s v)) \<Longrightarrow> keeps g (Option.bind m (\<lambda>(s, v). k s v))"
  for k :: "'w vm_state \<Rightarrow> 'b \<Rightarrow> 'x option"
  by (cases m) (auto simp: keeps_def)

lemma bind_name: "(\<And>x. keeps g (k x)) \<Longrightarrow> keeps g (Option.bind m k)"
  for k :: "string \<Rightarrow> 'x option"
  by (cases m) auto

lemma bind_word: "(\<And>x. keeps g (k x)) \<Longrightarrow> keeps g (Option.bind m k)"
  for k :: "ut64 \<Rightarrow> 'x option"
  by (cases m) auto

lemma keeps_if: "keeps f a \<Longrightarrow> keeps f b \<Longrightarrow> keeps f (if c then a else b)"
  by simp

lemma keeps_prod: "(\<And>a b. keeps f (k a b)) \<Longrightarrow> keeps f (case x of (a, b) \<Rightarrow> k a b)"
  by (cases x) simp

lemma keeps_option: "keeps f a \<Longrightarrow> (\<And>x. keeps f (k x)) \<Longrightarrow> keeps f (case m of None \<Rightarrow> a | Some x \<Rightarrow> k x)"
  by (cases m) simp_all

lemma keeps_step: "keeps id m \<Longrightarrow> keeps fst (map_option (\<lambda>s. (s, r)) m)"
  by (simp add: keeps_def)

lemma keeps_fst: "keeps fst m \<Longrightarrow> keeps id (map_option fst m)"
  by (simp add: keeps_def)

lemma keeps_return: "safe s \<Longrightarrow> keeps fst (Some (s, x))" "safe s \<Longrightarrow> keeps id (Some s)"
  by simp_all

lemma safe_emit: "safe s \<Longrightarrow> safe (vm_emit es s)"
  by (simp add: safe_def vm_emit_def emit_keeps)

lemma safe_read: "ok env \<Longrightarrow> safe s \<Longrightarrow> keeps fst (vm_mmu_read env off n s)"
  by (auto simp: keeps_def vm_mmu_read_def safe_def split: Option.bind_splits sum.splits intro: read_keeps)

lemma safe_write: "safe s \<Longrightarrow> keeps fst (vm_mmu_write env off data s)"
  by (auto simp: keeps_def vm_mmu_write_def vm_mmu_cache_write_def safe_def)

lemma safe_get_plain: "safe s \<Longrightarrow> keeps fst (reg_get_plain name s)"
  by (simp add: reg_get_plain_def)

lemma safe_set_plain: "safe s \<Longrightarrow> keeps id (reg_set_plain name val s)"
  by (simp add: reg_set_plain_def safe_def)

lemma safe_start: "ok env \<Longrightarrow> keep (v_core s) \<Longrightarrow> safe (vm_mmu_real ((ucast (cfg_get_i (fst env) ''vm.realio'') :: ut32) \<noteq> 0) s)"
  by (simp add: vm_mmu_real_def safe_def not_real)

lemmas keeps_rules = bind_state bind_pair bind_name bind_word keeps_none keeps_return keeps_if keeps_prod keeps_option keeps_step keeps_fst
  safe_emit safe_read safe_write

end

text \<open>The evaluator over register accesses that keep the machine safe.\<close>

locale vm_access = vm_cached ok keep
  for ok :: "'w vm_env \<Rightarrow> bool" and keep +
  fixes rget :: "'w vm_env \<Rightarrow> 'w reg_read"
    and rset :: "'w vm_env \<Rightarrow> 'w reg_write"
  assumes get_keeps: "ok env \<Longrightarrow> safe s \<Longrightarrow> keeps fst (rget env name s)"
    and set_keeps: "ok env \<Longrightarrow> safe s \<Longrightarrow> keeps id (rset env name val s)"
begin

lemmas access_rules = keeps_rules get_keeps set_keeps

lemma safe_value: "ok env \<Longrightarrow> safe s \<Longrightarrow> keeps fst (vm_get_value env (rget env) str s)"
  unfolding vm_get_value_def Let_def by (intro access_rules)

lemma safe_math: "ok env \<Longrightarrow> safe s \<Longrightarrow> keeps fst (vm_get_math env (rget env) str s)"
  unfolding vm_get_math_def by (intro access_rules safe_value)

lemma safe_push: "ok env \<Longrightarrow> safe s \<Longrightarrow> keeps id (vm_stack_push env (rget env) (rset env) val s)"
  unfolding vm_stack_push_def by (intro access_rules)

lemma safe_pop: "ok env \<Longrightarrow> safe s \<Longrightarrow> keeps id (vm_stack_pop env (rget env) (rset env) reg s)"
  unfolding vm_stack_pop_def by (intro access_rules)

lemma safe_cmp: "ok env \<Longrightarrow> safe s \<Longrightarrow> keeps fst (vm_eval_cmp env (rget env) (rset env) str s)"
  unfolding vm_eval_cmp_def Let_def by (intro access_rules safe_math)

lemma safe_eq: "ok env \<Longrightarrow> safe s \<Longrightarrow> keeps id (vm_eval_eq env (rget env) (rset env) str val s)"
  unfolding vm_eval_eq_def eval_copy_def eval_store_def eval_load_def Let_def
  by (intro access_rules safe_math)

lemma safe_branch: "ok env \<Longrightarrow> safe s \<Longrightarrow> keeps id (eval_branch env (rget env) (rset env) ptr str s)"
  unfolding eval_branch_def by (intro access_rules safe_value safe_push safe_pop)

lemma safe_single: "ok env \<Longrightarrow> safe s \<Longrightarrow> keeps fst (vm_eval_single env (rget env) (rset env) str s)"
  unfolding vm_eval_single_def eval_assign_def Let_def
  by (intro access_rules safe_eq safe_branch safe_cmp)

lemma safe_list: "ok env \<Longrightarrow> safe s \<Longrightarrow> keeps fst (vm_eval_list env (rget env) (rset env) ps s)"
proof (induction ps arbitrary: s rule: induct_list012)
  case (2 p)
  then show ?case using safe_single [of env s p] by (auto simp: keeps_def)
next
  case (3 p q ps)
  then show ?case by (auto intro!: bind_pair safe_single)
qed auto

lemma safe_eval_with:
  "ok env \<Longrightarrow> keep (v_core s) \<Longrightarrow> keeps fst (vm_eval_with env (rget env) (rset env) str s)"
  unfolding vm_eval_with_def by (intro safe_list safe_start)

end

text \<open>The two levels of register access: inside an alias, and outside, where an alias is evaluated.\<close>

sublocale vm_cached \<subseteq> inner: vm_access ok keep "\<lambda>_. reg_get_plain" "\<lambda>_. reg_set_plain"
  by unfold_locales (simp_all add: safe_get_plain safe_set_plain)

context vm_cached
begin

lemma safe_keep: "safe s \<Longrightarrow> keep (v_core s)"
  by (simp add: safe_def)

lemma safe_reg_get: "ok env \<Longrightarrow> safe s \<Longrightarrow> keeps fst (vm_reg_get env name s)"
  unfolding vm_reg_get_def by (intro keeps_rules inner.safe_eval_with) (simp_all add: safe_keep)

lemma safe_reg_set: "ok env \<Longrightarrow> safe s \<Longrightarrow> keeps id (vm_reg_set env name val s)"
  unfolding vm_reg_set_def by (intro keeps_rules safe_set_plain inner.safe_eval_with) (simp_all add: safe_keep)

end

sublocale vm_cached \<subseteq> outer: vm_access ok keep vm_reg_get vm_reg_set
  by unfold_locales (simp_all add: safe_reg_get safe_reg_set)

context vm_cached
begin

lemma safe_eval: "ok env \<Longrightarrow> keep (v_core s) \<Longrightarrow> keeps fst (vm_eval env str s)"
  unfolding vm_eval_def by (rule outer.safe_eval_with)

lemma op_eval_keeps:
  assumes "ok env" and "keep (v_core s)" and "vm_op_eval env str s = Some (s', r)"
  shows "keep (v_core s')"
proof -
  obtain w n a sel where e: "set0word str = Some (w, n)" "get0word w 0 = Some a"
      "op_select env w (r_cfg (v_core s)) a (vm_ops s) str = Some sel"
    using assms(3) by (auto simp: vm_op_eval_def split: Option.bind_splits)
  show ?thesis
  proof (cases sel)
    case (Inl u)
    with e assms(2,3) show ?thesis by (auto simp: vm_op_eval_def vm_emit_def emit_keeps)
  next
    case (Inr p)
    with e assms(3) have "vm_eval env p s = Some (s', r)" by (simp add: vm_op_eval_def)
    with safe_eval [OF assms(1,2), of p] show ?thesis by (simp add: safe_keep)
  qed
qed

end

text \<open>The contract holds for a buffer device: its seeks and reads leave the device alone.\<close>

lemma malloc_seek_same:
  assumes "plugins env = [malloc_plugin a d al fr]"
  shows "r_dev (fst (radare_seek env off whence st)) = r_dev st"
  using assms by (auto simp: radare_seek_def Let_def io_lseek_def malloc_plugin_def malloc_lseek_def emit_def
      split: prod.splits if_splits)

lemma radare_seek_undo: "undo_w_list (fst (radare_seek env off whence st)) = undo_w_list st"
  by (simp add: radare_seek_def Let_def emit_def split: prod.splits)

lemma malloc_read_same:
  assumes "plugins env = [malloc_plugin a d al fr]" and "radare_read_at env off n st = Some (st', bs, r)"
  shows "r_dev st' = r_dev st \<and> undo_w_list st' = undo_w_list st"
proof -
  let ?s1 = "fst (radare_seek env off SEEK_SET st)"
  obtain s2 bs' r' where io: "core_io_read env n ?s1 = Some (s2, bs', r')" "st' = fst (radare_seek env (c_seek (r_cfg st)) SEEK_SET s2)"
    using assms(2) by (auto simp: radare_read_at_def)
  have "r_dev s2 = r_dev ?s1 \<and> undo_w_list s2 = undo_w_list ?s1"
    using io(1) assms(1)
    by (auto simp: core_io_read_def io_read_def malloc_plugin_def malloc_read_def Let_def
        split: prod.splits if_splits option.splits)
  with io(2) show ?thesis by (simp add: malloc_seek_same [OF assms(1)] radare_seek_undo)
qed

interpretation vm_malloc: vm_cached
  "\<lambda>env. plugins (fst env) = [malloc_plugin a d al fr] \<and> (ucast (cfg_get_i (fst env) ''vm.realio'') :: ut32) = 0"
  "\<lambda>st. r_dev st = w \<and> undo_w_list st = u"
  for a d al fr w u
proof unfold_locales
  fix env :: "malloc_state vm_env" and st off n st' bs r
  assume "plugins (fst env) = [malloc_plugin a d al fr] \<and> (ucast (cfg_get_i (fst env) ''vm.realio'') :: ut32) = 0"
    and "r_dev st = w \<and> undo_w_list st = u" and "radare_read_at (fst env) off n st = Some (st', bs, r)"
  then show "r_dev st' = w \<and> undo_w_list st' = u" using malloc_read_same by blast
qed (simp_all add: emit_def)

text \<open>
  C14 With \<^verbatim>\<open>vm.realio\<close> off, whatever text the machine evaluates, opcodes and aliases included, the device under it
  and the record of writes stay as they are: emulated stores only reach the cache.
\<close>

theorem vm_cached_keeps_memory:
  assumes "plugins (fst env) = [malloc_plugin a d al fr]"
    and "(ucast (cfg_get_i (fst env) ''vm.realio'') :: ut32) = 0"
    and "vm_op_eval env str s = Some (s', r)"
  shows "r_dev (v_core s') = r_dev (v_core s) \<and> undo_w_list (v_core s') = undo_w_list (v_core s)"
  using vm_malloc.op_eval_keeps [of env a d al fr s "r_dev (v_core s)" "undo_w_list (v_core s)" str s' r] assms by simp


definition vm_blank :: "malloc_state vm_state" where
  "vm_blank = \<lparr>v_core = malloc_core [1, 2, 3, 4], vm_regs = [], vm_cpu = vm_cpu_zero, vm_ops = [], vm_mmu_cache = [], realio = True\<rparr>"

lemma le_bytes_4: "le_bytes 4 v = [ucast v, ucast (drop_bit 8 v), ucast (drop_bit 8 (drop_bit 8 v)), ucast (drop_bit 8 (drop_bit 8 (drop_bit 8 v)))]"
proof -
  have "le_bytes (Suc (Suc (Suc (Suc 0)))) v = [ucast v, ucast (drop_bit 8 v), ucast (drop_bit 8 (drop_bit 8 v)), ucast (drop_bit 8 (drop_bit 8 (drop_bit 8 v)))]"
    by simp
  then show ?thesis by (simp only: eval_nat_numeral BitM.simps)
qed

lemma vm_blank_store: "map_option (vm_mmu_cache \<circ> fst) (vm_op_eval (malloc_env 0, \<lambda>_ _. 1) ''[2]=9'' vm_blank) =
    Some [\<lparr>ch_from = 2, ch_to = 6, ch_data = [9, 0, 0, 0]\<rparr>]"
  by (simp add: vm_op_eval_def set0word_def vm_blank_def vm_eval_def vm_eval_with_def vm_eval_single_def Let_def
      eval_assign_def vm_eval_eq_def eval_store_def vm_get_math_def vm_operators_def vm_get_value_def scan_lld_def
      char_digit_def vm_mmu_write_def vm_mmu_cache_write_def malloc_env_def vm_mmu_real_def vm_emit_def le_bytes_4)

theorem vm_cached_keeps_memory_witness:
  "\<exists>s' r. vm_op_eval (malloc_env 0, \<lambda>_ _. 1) ''[2]=9'' vm_blank = Some (s', r) \<and> r_dev (v_core s') = r_dev (v_core vm_blank)"
proof -
  obtain s' r where "vm_op_eval (malloc_env 0, \<lambda>_ _. 1) ''[2]=9'' vm_blank = Some (s', r)"
    using vm_blank_store by auto
  with vm_cached_keeps_memory [OF _ _ this, of 4096 8192 "\<lambda>_. True" "\<lambda>_. None"] show ?thesis by (simp add: malloc_env_def)
qed

end
