(* ===== verification/Vm_X86.thy ===== *)
theory Vm_X86
  imports Vm
begin

text \<open>
  The virtual machine as \<^verbatim>\<open>vm_init\<close> sets it up for x86 (\<^verbatim>\<open>src/src/vm.c\<close>): the register file as a function of the names,
  the aliases as assignments on it, the expansion of opcodes as a substitution, and the stack.
\<close>

section \<open>The x86 machine\<close>

text \<open>The registers and opcodes that \<^verbatim>\<open>vm_init\<close> sets up, with the register values given by a function of the name.\<close>

definition x86_reg :: "(string \<Rightarrow> ut64) \<Rightarrow> string \<times> int \<times> (string \<times> string) option \<Rightarrow> vm_reg_t" where
  "x86_reg f = (\<lambda>(name, t, al). \<lparr>vr_name = name, vr_value = f name, vr_type = t,
      vr_get = map_option fst al, vr_set = map_option snd al\<rparr>)"

lemma x86_reg_simps [simp]:
  "vr_name (x86_reg f x) = fst x" "vr_value (x86_reg f x) = f (fst x)"
  "vr_get (x86_reg f x) = map_option fst (snd (snd x))" "vr_set (x86_reg f x) = map_option snd (snd (snd x))"
  by (simp_all add: x86_reg_def split: prod.splits)

definition x86_file :: "(string \<Rightarrow> ut64) \<Rightarrow> vm_reg_t list" where
  "x86_file f = map (x86_reg f) x86_regs"

definition x86_machine :: "(string \<Rightarrow> ut64) \<Rightarrow> 'w vm_state \<Rightarrow> bool" where
  "x86_machine f s \<longleftrightarrow> vm_regs s = x86_file f \<and> vm_ops s = map (\<lambda>(op, code). \<lparr>vo_opcode = op, vo_code = code\<rparr>) x86_ops"

lemma x86_machine_emit [simp]: "x86_machine f (vm_emit es s) = x86_machine f s"
  by (simp add: x86_machine_def vm_emit_def)

lemma x86_machine_real [simp]: "x86_machine f (vm_mmu_real b s) = x86_machine f s"
  by (simp add: x86_machine_def vm_mmu_real_def)

definition x86_names :: "string list" where
  "x86_names = [''eax'', ''ax'', ''al'', ''ah'', ''ebx'', ''ecx'', ''edx'', ''esi'', ''edi'', ''eip'', ''esp'', ''ebp'', ''zf'', ''cf'']"

lemma x86_names_regs: "map fst x86_regs = x86_names"
  by (simp add: x86_regs_def x86_names_def)

lemma x86_names_distinct: "distinct x86_names"
  by (simp add: x86_names_def)

text \<open>No name is the beginning of another, so the lookup by prefix finds the register meant, with or without a bracket.\<close>

lemma x86_prefix_free:
  "\<forall>n \<in> set x86_names. \<forall>m \<in> set x86_names. take (length n) m = n \<longrightarrow> m = n"
  by (simp add: x86_names_def)

lemma x86_no_bracket: "\<forall>n \<in> set x86_names. n \<noteq> [] \<and> last n \<noteq> CHR '']''"
  by (simp add: x86_names_def)

lemma find_unique: "x \<in> set xs \<Longrightarrow> \<forall>y \<in> set xs. P y \<longleftrightarrow> y = x \<Longrightarrow> List.find P xs = Some x"
  by (induction xs) auto

lemma find_map: "List.find P (map g xs) = map_option g (List.find (P \<circ> g) xs)"
  by (induction xs) simp_all

lemma x86_reg_of:
  assumes "name \<in> set x86_names"
  obtains x where "x \<in> set x86_regs" "fst x = name" "\<And>y. y \<in> set x86_regs \<Longrightarrow> fst y = name \<longleftrightarrow> y = x"
proof -
  obtain x where x: "x \<in> set x86_regs" "fst x = name" using assms by (auto simp flip: x86_names_regs)
  moreover have "inj_on fst (set x86_regs)" using x86_names_distinct by (simp add: distinct_map flip: x86_names_regs)
  ultimately show thesis by (intro that) (auto dest: inj_onD)
qed

lemma x86_matches:
  assumes "name \<in> set x86_names" and "y \<in> set x86_regs" and "name' = name \<or> name' = name @ '']''"
  shows "reg_matches name' (x86_reg f y) \<longleftrightarrow> fst y = name"
proof -
  have "fst y \<in> set x86_names" using assms(2) by (auto simp flip: x86_names_regs)
  then have "take (length name) (fst y) = name \<longleftrightarrow> fst y = name" using x86_prefix_free assms(1) by auto
  then show ?thesis using assms(1,3) x86_no_bracket by (auto simp: reg_matches_def)
qed

lemma x86_get_plain:
  assumes "x86_machine f s" and "name \<in> set x86_names" and "name' = name \<or> name' = name @ '']''"
  shows "reg_get_plain name' s = Some (s, f name)"
proof -
  obtain x where x: "x \<in> set x86_regs" "fst x = name" "\<And>y. y \<in> set x86_regs \<Longrightarrow> fst y = name \<longleftrightarrow> y = x"
    using x86_reg_of [OF assms(2)] by blast
  have "List.find (reg_matches name' \<circ> x86_reg f) x86_regs = Some x"
    by (rule find_unique) (use x x86_matches [OF assms(2) _ assms(3)] in simp_all)
  then have "List.find (reg_matches name') (vm_regs s) = Some (x86_reg f x)"
    using assms(1) by (simp add: x86_machine_def x86_file_def find_map)
  with x(2) assms(2,3) x86_no_bracket show ?thesis by (auto simp: reg_get_plain_def)
qed

lemma x86_update:
  "distinct (map fst xs) \<Longrightarrow> update_first (\<lambda>r. vr_name r = name) (\<lambda>r. r\<lparr>vr_value := v\<rparr>) (map (x86_reg f) xs) =
     map (x86_reg (f(name := v))) xs" if "name \<in> fst ` set xs"
  using that
proof (induction xs)
  case (Cons x xs)
  have o: "x86_reg (f(name := v)) y = x86_reg f y" if "fst y \<noteq> name" for y using that by (auto simp: x86_reg_def split: prod.splits)
  show ?case
  proof (cases "fst x = name")
    case True
    with Cons.prems show ?thesis by (auto simp: x86_reg_def image_iff split: prod.splits)
  next
    case False
    then have "name \<in> fst ` set xs" "distinct (map fst xs)" using Cons.prems by auto
    with False Cons.IH o [OF False] show ?thesis by (simp del: fun_upd_apply)
  qed
qed simp

lemma x86_set_plain:
  assumes "x86_machine f s" and "name \<in> set x86_names"
  shows "reg_set_plain name v s = Some (s\<lparr>vm_regs := x86_file (f(name := v))\<rparr>)"
proof -
  have "distinct (map fst x86_regs)" "name \<in> fst ` set x86_regs"
    using assms(2) x86_names_distinct by (simp_all add: x86_names_regs [symmetric])
  with assms(1) show ?thesis by (simp add: reg_set_plain_def x86_machine_def x86_file_def x86_update)
qed

lemma x86_machine_set: "x86_machine f s \<Longrightarrow> x86_machine g (s\<lparr>vm_regs := x86_file g\<rparr>)"
  by (simp add: x86_machine_def)


text \<open>
  The meaning of the bodies of the aliases: assignments \<^verbatim>\<open>dst=a op b\<close> on the register file, where \<open>b\<close> is a register or a
  number.
\<close>

type_synonym assign = "string \<times> string \<times> char \<times> string"

definition operand :: "(string \<Rightarrow> ut64) \<Rightarrow> string \<Rightarrow> ut64" where
  "operand f b = (if b \<in> set x86_names then f b
     else if take 2 b = ''0x'' then scan_llx (drop 2 b) else scan_lld b)"

definition operand_ok :: "string \<Rightarrow> bool" where
  "operand_ok b \<longleftrightarrow> plain_word b \<and> (b \<in> set x86_names \<or> take 2 b = ''0x'' \<or> hd b \<in> set ''0123456789'')"

fun assign_ok :: "assign \<Rightarrow> bool" where
  "assign_ok (dst, a, op, b) \<longleftrightarrow> dst \<in> set x86_names \<and> a \<in> set x86_names \<and> op \<in> set vm_operators \<and> operand_ok b"

fun assign_text :: "assign \<Rightarrow> string" where
  "assign_text (dst, a, op, b) = dst @ CHR ''='' # a @ op # b"

fun run_assigns :: "assign list \<Rightarrow> (string \<Rightarrow> ut64) \<Rightarrow> (string \<Rightarrow> ut64) option" where
  "run_assigns [] f = Some f"
| "run_assigns ((dst, a, op, b) # as) f =
     Option.bind (vm_apply op (f a) (operand f b)) (\<lambda>v. run_assigns as (f(dst := v)))"

lemma x86_plain_word: "\<forall>n \<in> set x86_names. plain_word n"
  by (simp add: x86_names_def plain_word_def vm_operators_def)

lemma x86_first: "\<forall>n \<in> set x86_names. hd n \<in> set ''eazc''"
  by (simp add: x86_names_def)

lemma x86_value:
  assumes "name \<in> set x86_names"
  shows "vm_get_value env rget name s = rget name s"
proof -
  have "hd name \<in> set ''eazc''" "name \<noteq> []" using assms x86_first x86_no_bracket by auto
  then obtain c cs where "name = c # cs" "c \<in> set ''eazc''" by (cases name) auto
  then show ?thesis by (auto simp: vm_get_value_def)
qed

lemma operand_value:
  assumes "x86_machine f s" and "operand_ok b"
  shows "vm_get_value env reg_get_plain b s = Some (s, operand f b)"
proof (cases "b \<in> set x86_names")
  case True
  then show ?thesis using assms(1) by (simp add: x86_value x86_get_plain operand_def)
next
  case False
  have "b \<noteq> []" using assms(2) by (simp add: operand_ok_def plain_word_def)
  then obtain c cs where b: "b = c # cs" by (cases b) auto
  have "c = CHR ''0''" if "take 2 b = ''0x''" using that by (cases cs) (simp_all add: b numeral_2_eq_2)
  then have "c = CHR ''0'' \<or> hd b \<in> set ''0123456789''" using assms(2) False by (auto simp only: operand_ok_def)
  then have c: "hd b \<in> set ''0123456789''" by (auto simp: b)
  then have "c \<noteq> CHR '' ''" "c \<noteq> CHR ''$''" by (auto simp: b)
  then have "dropWhile (\<lambda>c. c = CHR '' '') b = b" "take 3 b \<noteq> ''$$$''" "take 2 b \<noteq> ''$$''"
    by (simp_all add: b numeral_2_eq_2 numeral_3_eq_3)
  with c False \<open>b \<noteq> []\<close> show ?thesis by (simp add: vm_get_value_def operand_def)
qed

lemma x86_assign:
  assumes "x86_machine f s" and "assign_ok (dst, a, op, b)" and "vm_apply op (f a) (operand f b) = Some v"
  shows "\<exists>s'. vm_eval_single env reg_get_plain reg_set_plain (assign_text (dst, a, op, b)) s = Some (s', 0) \<and>
     x86_machine (f(dst := v)) s' \<and> vm_mmu_cache s' = vm_mmu_cache s"
proof -
  let ?s = "vm_emit [ErrOut (''   ; '' @ dst @ CHR ''='' # a @ op # b @ nl)] s"
  have m: "x86_machine f ?s" using assms(1) by simp
  have w: "plain_word dst" "plain_word a" "plain_word b" "op \<in> set vm_operators"
    using assms(2) x86_plain_word by (auto simp: operand_ok_def)
  have "vm_get_value env reg_get_plain a ?s = Some (?s, f a)" using m assms(2) by (simp add: x86_value x86_get_plain)
  moreover have "vm_get_value env reg_get_plain b ?s = Some (?s, operand f b)" using m assms(2) by (simp add: operand_value)
  moreover have "reg_set_plain dst v ?s = Some (?s\<lparr>vm_regs := x86_file (f(dst := v))\<rparr>)"
    using m assms(2) by (intro x86_set_plain) simp_all
  ultimately show ?thesis using assms(3) m
    unfolding assign_text.simps eval_binop [OF w] by (simp add: x86_machine_set) (simp add: vm_emit_def)
qed

lemma x86_assigns:
  assumes "x86_machine f s" and "\<forall>p \<in> set as. assign_ok p" and "as \<noteq> []" and "run_assigns as f = Some g"
  shows "\<exists>s'. vm_eval_list env reg_get_plain reg_set_plain (map assign_text as) s = Some (s', 1) \<and>
     x86_machine g s' \<and> vm_mmu_cache s' = vm_mmu_cache s"
  using assms
proof (induction as arbitrary: f s)
  case (Cons p as)
  obtain dst a op b where p: "p = (dst, a, op, b)" by (cases p) auto
  obtain v where v: "vm_apply op (f a) (operand f b) = Some v" "run_assigns as (f(dst := v)) = Some g"
    using Cons.prems(4) p by (auto split: Option.bind_splits)
  obtain s1 where s1: "vm_eval_single env reg_get_plain reg_set_plain (assign_text p) s = Some (s1, 0)"
      "x86_machine (f(dst := v)) s1" "vm_mmu_cache s1 = vm_mmu_cache s"
    using x86_assign [OF Cons.prems(1) _ v(1), of dst env] Cons.prems(2) p by auto
  show ?case
  proof (cases as)
    case Nil
    with s1 v show ?thesis by simp
  next
    case (Cons q qs)
    with Cons.IH [OF s1(2) _ _ v(2)] Cons.prems(2) s1(1,3) show ?thesis by simp
  qed
qed simp


lemma x86_alias_body:
  assumes "x86_machine f s" and "split_commas code = map assign_text as"
    and "\<forall>p \<in> set as. assign_ok p" "as \<noteq> []" "run_assigns as f = Some h"
  shows "\<exists>s'. vm_eval_with env reg_get_plain reg_set_plain code s = Some (s', 1) \<and> x86_machine h s' \<and>
     vm_mmu_cache s' = vm_mmu_cache s"
proof -
  let ?s = "vm_mmu_real ((ucast (cfg_get_i (fst env) ''vm.realio'') :: ut32) \<noteq> 0) s"
  have "x86_machine f ?s" "vm_mmu_cache ?s = vm_mmu_cache s" using assms(1) by (simp_all add: vm_mmu_real_def x86_machine_def)
  then show ?thesis using x86_assigns [OF _ assms(3-5), of ?s env] assms(2) by (simp add: vm_eval_with_def)
qed

lemma x86_find_index:
  assumes "x86_machine f s" and "x \<in> set x86_regs" and "name' = fst x \<or> name' = fst x @ '']''"
  obtains i where "i < length x86_regs" "x86_regs ! i = x"
    "List.find (\<lambda>i. reg_matches name' (vm_regs s ! i)) [0..<length (vm_regs s)] = Some i" "name' \<noteq> []"
proof -
  have n: "fst x \<in> set x86_names" using assms(2) by (auto simp flip: x86_names_regs)
  obtain i where i: "i < length x86_regs" "x86_regs ! i = x" using assms(2) by (auto simp: in_set_conv_nth)
  have regs: "vm_regs s = map (x86_reg f) x86_regs" using assms(1) by (simp add: x86_machine_def x86_file_def)
  have d: "distinct (map fst x86_regs)" using x86_names_distinct by (simp add: x86_names_regs)
  have "List.find (\<lambda>i. reg_matches name' (vm_regs s ! i)) [0..<length (vm_regs s)] = Some i"
  proof (rule find_unique)
    show "\<forall>j \<in> set [0..<length (vm_regs s)]. reg_matches name' (vm_regs s ! j) = (j = i)"
      using x86_matches [OF n _ assms(3)] i d by (auto simp: regs distinct_conv_nth)
  qed (use i regs in simp)
  then show thesis using i n assms(3) x86_no_bracket by (intro that) auto
qed

lemma x86_get_simple:
  assumes "x86_machine f s" and "(name, t, None) \<in> set x86_regs" and "name' = name \<or> name' = name @ '']''"
  shows "vm_reg_get env name' s = Some (s, f name)"
proof -
  obtain i where i: "i < length x86_regs" "x86_regs ! i = (name, t, None)"
    "List.find (\<lambda>i. reg_matches name' (vm_regs s ! i)) [0..<length (vm_regs s)] = Some i" "name' \<noteq> []"
    using x86_find_index [OF assms(1,2)] assms(3) by (metis fst_conv)
  then show ?thesis using assms(1) by (simp add: vm_reg_get_def x86_machine_def x86_file_def)
qed

lemma x86_get_alias:
  assumes "x86_machine f s" and "(name, t, Some (g, st)) \<in> set x86_regs"
    and "split_commas g = map assign_text as" "\<forall>p \<in> set as. assign_ok p" "as \<noteq> []" "run_assigns as f = Some h"
  shows "\<exists>s'. vm_reg_get env name s = Some (s', h name) \<and> x86_machine h s' \<and> vm_mmu_cache s' = vm_mmu_cache s"
proof -
  obtain i where i: "i < length x86_regs" "x86_regs ! i = (name, t, Some (g, st))"
    "List.find (\<lambda>i. reg_matches name (vm_regs s ! i)) [0..<length (vm_regs s)] = Some i" "name \<noteq> []"
    using x86_find_index [OF assms(1,2)] by (metis fst_conv)
  obtain s' where s': "vm_eval_with env reg_get_plain reg_set_plain g s = Some (s', 1)"
      "x86_machine h s'" "vm_mmu_cache s' = vm_mmu_cache s"
    using x86_alias_body [OF assms(1,3-6)] by blast
  have "vr_get (vm_regs s ! i) = Some g" "vr_value (vm_regs s' ! i) = h name"
    using i assms(1) s'(2) by (simp_all add: x86_machine_def x86_file_def)
  with i s' show ?thesis by (simp add: vm_reg_get_def)
qed

lemma x86_find_name:
  assumes "x86_machine f s" and "x \<in> set x86_regs"
  shows "List.find (\<lambda>r. vr_name r = fst x) (vm_regs s) = Some (x86_reg f x)"
proof -
  have "fst x \<in> set x86_names" using assms(2) by (auto simp flip: x86_names_regs)
  then obtain x' where "x' \<in> set x86_regs" "fst x' = fst x" "\<And>y. y \<in> set x86_regs \<Longrightarrow> fst y = fst x \<longleftrightarrow> y = x'"
    using x86_reg_of by blast
  then have "List.find ((\<lambda>r. vr_name r = fst x) \<circ> x86_reg f) x86_regs = Some x"
    using assms(2) by (intro find_unique) (simp_all, metis)
  then show ?thesis using assms(1) by (simp add: x86_machine_def x86_file_def find_map)
qed

lemma x86_set_simple:
  assumes "x86_machine f s" and "(name, t, None) \<in> set x86_regs"
  shows "vm_reg_set env name v s = Some (s\<lparr>vm_regs := x86_file (f(name := v))\<rparr>)"
proof -
  have "name \<in> set x86_names" using assms(2) by (force simp flip: x86_names_regs)
  then show ?thesis using x86_find_name [OF assms] x86_set_plain [OF assms(1)] by (simp add: vm_reg_set_def)
qed

lemma x86_set_alias:
  assumes "x86_machine f s" and "(name, t, Some (g, st)) \<in> set x86_regs"
    and "split_commas st = map assign_text as" "\<forall>p \<in> set as. assign_ok p" "as \<noteq> []"
    and "run_assigns as (f(name := v)) = Some h"
  shows "\<exists>s'. vm_reg_set env name v s = Some s' \<and> x86_machine h s' \<and> vm_mmu_cache s' = vm_mmu_cache s"
proof -
  have n: "name \<in> set x86_names" using assms(2) by (force simp flip: x86_names_regs)
  let ?s = "s\<lparr>vm_regs := x86_file (f(name := v))\<rparr>"
  have m: "x86_machine (f(name := v)) ?s" using assms(1) by (rule x86_machine_set)
  obtain s' where s': "vm_eval_with env reg_get_plain reg_set_plain st ?s = Some (s', 1)"
      "x86_machine h s'" "vm_mmu_cache s' = vm_mmu_cache s"
    using x86_alias_body [OF m assms(3-6), where env = env] by auto
  with x86_find_name [OF assms(1,2)] x86_set_plain [OF assms(1) n] show ?thesis by (simp add: vm_reg_set_def)
qed


text \<open>The bodies of the aliases as assignments.\<close>

definition ax_get :: "assign list" where
  "ax_get = [(''ax'', ''eax'', CHR ''&'', ''0xffff'')]"

definition ax_set :: "assign list" where
  "ax_set = [(''eax'', ''eax'', CHR ''>'', ''16''), (''eax'', ''eax'', CHR ''<'', ''16''), (''eax'', ''eax'', CHR ''|'', ''ax'')]"

definition al_get :: "assign list" where
  "al_get = [(''al'', ''eax'', CHR ''&'', ''0xff'')]"

definition al_set :: "assign list" where
  "al_set = [(''al'', ''al'', CHR ''&'', ''0xff''), (''eax'', ''eax'', CHR ''>'', ''16''),
     (''eax'', ''eax'', CHR ''<'', ''16''), (''eax'', ''eax'', CHR ''|'', ''al'')]"

definition ah_get :: "assign list" where
  "ah_get = [(''ah'', ''eax'', CHR ''&'', ''0xff00''), (''ah'', ''ah'', CHR ''>'', ''8'')]"

definition ah_set :: "assign list" where
  "ah_set = [(''eax'', ''eax'', CHR ''&'', ''0xFFFF00ff''), (''ah'', ''ah'', CHR ''<'', ''8''),
     (''eax'', ''eax'', CHR ''|'', ''ah''), (''ah'', ''ah'', CHR ''>'', ''8'')]"

lemmas alias_defs = ax_get_def ax_set_def al_get_def al_set_def ah_get_def ah_set_def

lemma alias_texts:
  "split_commas ''ax=eax&0xffff'' = map assign_text ax_get"
  "split_commas ''eax=eax>16,eax=eax<16,eax=eax|ax'' = map assign_text ax_set"
  "split_commas ''al=eax&0xff'' = map assign_text al_get"
  "split_commas ''al=al&0xff,eax=eax>16,eax=eax<16,eax=eax|al'' = map assign_text al_set"
  "split_commas ''ah=eax&0xff00,ah=ah>8'' = map assign_text ah_get"
  "split_commas ''eax=eax&0xFFFF00ff,ah=ah<8,eax=eax|ah,ah=ah>8'' = map assign_text ah_set"
  by (simp_all add: alias_defs)

lemma operand_numbers_ok:
  "operand_ok ''0xffff''" "operand_ok ''16''" "operand_ok ''0xff''" "operand_ok ''0xff00''" "operand_ok ''8''"
  "operand_ok ''0xFFFF00ff''"
  by (simp_all add: operand_ok_def plain_word_def vm_operators_def)

lemma operand_registers_ok: "operand_ok ''ax''" "operand_ok ''al''" "operand_ok ''ah''"
  using x86_plain_word by (simp_all add: operand_ok_def x86_names_def)

lemma operand_numbers:
  "operand f ''0xffff'' = 0xffff" "operand f ''16'' = 16" "operand f ''0xff'' = 0xff" "operand f ''0xff00'' = 0xff00"
  "operand f ''8'' = 8" "operand f ''0xFFFF00ff'' = 0xFFFF00ff"
  by (simp_all add: operand_def x86_names_def scan_llx_def scan_lld_def scan_x_def is_space_def is_hexdigit_def char_digit_def)

lemma operand_registers: "operand f ''ax'' = f ''ax''" "operand f ''al'' = f ''al''" "operand f ''ah'' = f ''ah''"
  by (simp_all add: operand_def x86_names_def)


lemma alias_ok:
  "\<forall>p \<in> set ax_get. assign_ok p" "\<forall>p \<in> set ax_set. assign_ok p" "\<forall>p \<in> set al_get. assign_ok p"
  "\<forall>p \<in> set al_set. assign_ok p" "\<forall>p \<in> set ah_get. assign_ok p" "\<forall>p \<in> set ah_set. assign_ok p"
  by (simp_all add: alias_defs operand_numbers_ok operand_registers_ok x86_names_def vm_operators_def)

lemma alias_nonempty: "ax_get \<noteq> []" "ax_set \<noteq> []" "al_get \<noteq> []" "al_set \<noteq> []" "ah_get \<noteq> []" "ah_set \<noteq> []"
  by (simp_all add: alias_defs)

lemma alias_runs:
  "run_assigns ax_get f = Some (f(''ax'' := f ''eax'' AND 0xffff))"
  "run_assigns ax_set f = Some (f(''eax'' := push_bit 16 (drop_bit 16 (f ''eax'')) OR f ''ax''))"
  "run_assigns al_get f = Some (f(''al'' := f ''eax'' AND 0xff))"
  "run_assigns al_set f = Some (f(''al'' := f ''al'' AND 0xff,
     ''eax'' := push_bit 16 (drop_bit 16 (f ''eax'')) OR (f ''al'' AND 0xff)))"
  "run_assigns ah_get f = Some (f(''ah'' := drop_bit 8 (f ''eax'' AND 0xff00)))"
  "run_assigns ah_set f = Some (f(''eax'' := (f ''eax'' AND 0xFFFF00ff) OR push_bit 8 (f ''ah''),
     ''ah'' := drop_bit 8 (push_bit 8 (f ''ah''))))"
  by (simp_all add: alias_defs vm_apply_def operand_numbers operand_registers fun_upd_twist fun_eq_iff)

lemma alias_in_regs:
  "(''eax'', VMREG_INT32, None) \<in> set x86_regs"
  "(''ax'', VMREG_INT16, Some (''ax=eax&0xffff'', ''eax=eax>16,eax=eax<16,eax=eax|ax'')) \<in> set x86_regs"
  "(''al'', VMREG_INT8, Some (''al=eax&0xff'', ''al=al&0xff,eax=eax>16,eax=eax<16,eax=eax|al'')) \<in> set x86_regs"
  "(''ah'', VMREG_INT8, Some (''ah=eax&0xff00,ah=ah>8'', ''eax=eax&0xFFFF00ff,ah=ah<8,eax=eax|ah,ah=ah>8'')) \<in> set x86_regs"
  by (simp_all add: x86_regs_def)

lemma take_bit_small: "v < 2 ^ n \<Longrightarrow> n < 64 \<Longrightarrow> take_bit n v = v"
  for v :: ut64
proof (rule word_unat_eq_iff [THEN iffD2])
  assume "v < 2 ^ n" "n < 64"
  then have "unat v < 2 ^ n" using unsigned_push_bit_eq [of n "1 :: ut64", where ?'a = nat] by (simp add: word_less_nat_alt push_bit_eq_mult take_bit_nat_eq_self)
  then show "unat (take_bit n v) = unat v" by (simp add: unsigned_take_bit_eq take_bit_nat_eq_self)
qed

lemma ax_bits:
  fixes e v :: ut64
  assumes "v < 2 ^ 16"
  shows "drop_bit 16 (push_bit 16 (drop_bit 16 e) OR v) = drop_bit 16 e"
    and "(push_bit 16 (drop_bit 16 e) OR v) AND 0xffff = v"
proof -
  have v: "take_bit 16 v = v" using assms by (simp add: take_bit_small)
  have nb: "n < 16" if "bit v n" for n using that arg_cong [OF v, of "\<lambda>x. bit x n"] by (simp add: bit_take_bit_iff)
  have m: "(0xffff :: ut64) = mask 16" by (simp add: mask_eq_exp_minus_1)
  show "drop_bit 16 (push_bit 16 (drop_bit 16 e) OR v) = drop_bit 16 e"
    by (rule bit_word_eqI) (auto simp: bit_simps dest: nb bit_imp_le_length)
  show "(push_bit 16 (drop_bit 16 e) OR v) AND 0xffff = v"
    unfolding m by (rule bit_word_eqI) (auto simp: bit_simps dest: nb)
qed

lemma ah_bits:
  fixes e v :: ut64
  assumes "v < 2 ^ 8"
  defines "r \<equiv> (e AND 0xFFFF00ff) OR push_bit 8 v"
  shows "take_bit 8 r = take_bit 8 e" "drop_bit 8 (r AND 0xff00) = v" "drop_bit 16 (take_bit 32 r) = drop_bit 16 (take_bit 32 e)"
proof -
  have v: "take_bit 8 v = v" using assms by (simp add: take_bit_small)
  have nb: "n < 8" if "bit v n" for n using that arg_cong [OF v, of "\<lambda>x. bit x n"] by (simp add: bit_take_bit_iff)
  have m1: "(0xFFFF00ff :: ut64) = push_bit 16 (mask 16) OR mask 8" by (simp add: mask_eq_exp_minus_1 push_bit_eq_mult)
  have m2: "(0xff00 :: ut64) = push_bit 8 (mask 8)" by (simp add: mask_eq_exp_minus_1 push_bit_eq_mult)
  show "take_bit 8 r = take_bit 8 e" unfolding r_def m1 by (rule bit_word_eqI) (auto simp: bit_simps)
  show "drop_bit 8 (r AND 0xff00) = v" unfolding r_def m1 m2 by (rule bit_word_eqI) (auto simp: bit_simps dest: nb)
  show "drop_bit 16 (take_bit 32 r) = drop_bit 16 (take_bit 32 e)"
    unfolding r_def m1 by (rule bit_word_eqI) (auto simp: bit_simps dest: nb bit_imp_le_length)
qed


text \<open>
  The x86 aliases of \<^verbatim>\<open>vm_init\<close> on any register file: a value of 16 bits written to \<^verbatim>\<open>ax\<close> is read back and keeps the
  upper part of \<^verbatim>\<open>eax\<close>, and a value of 8 bits written to \<^verbatim>\<open>ah\<close> is read back and keeps the low byte and the upper
  half of the 32 bits.
\<close>

theorem x86_alias_laws:
  assumes "x86_machine f s" and "v < 2 ^ 16" and "w < 2 ^ 8"
  shows "(\<exists>s1 s2 e. vm_reg_set env ''ax'' v s = Some s1 \<and> vm_reg_get env ''ax'' s1 = Some (s2, v) \<and>
      vm_reg_get env ''eax'' s1 = Some (s1, e) \<and> drop_bit 16 e = drop_bit 16 (f ''eax'')) \<and>
    (\<exists>s1 s2 e. vm_reg_set env ''ah'' w s = Some s1 \<and> vm_reg_get env ''ah'' s1 = Some (s2, w) \<and>
      vm_reg_get env ''eax'' s1 = Some (s1, e) \<and> take_bit 8 e = take_bit 8 (f ''eax'') \<and>
      drop_bit 16 (take_bit 32 e) = drop_bit 16 (take_bit 32 (f ''eax'')))" (is "?ax \<and> ?ah")
proof
  let ?g = "f(''ax'' := v, ''eax'' := push_bit 16 (drop_bit 16 (f ''eax'')) OR v)"
  obtain s1 where s1: "vm_reg_set env ''ax'' v s = Some s1" "x86_machine ?g s1"
    using x86_set_alias [OF assms(1) alias_in_regs(2) alias_texts(2) alias_ok(2) alias_nonempty(2), where v = v and env = env]
    by (auto simp: alias_runs)
  obtain s2 where "vm_reg_get env ''ax'' s1 = Some (s2, v)"
    using x86_get_alias [OF s1(2) alias_in_regs(2) alias_texts(1) alias_ok(1) alias_nonempty(1), where env = env]
      ax_bits(2) [OF assms(2)] by (auto simp: alias_runs)
  with s1 x86_get_simple [OF s1(2) alias_in_regs(1), where env = env] ax_bits(1) [OF assms(2)] show ?ax by auto
  let ?h = "f(''ah'' := drop_bit 8 (push_bit 8 w), ''eax'' := (f ''eax'' AND 0xFFFF00ff) OR push_bit 8 w)"
  obtain t1 where t1: "vm_reg_set env ''ah'' w s = Some t1" "x86_machine ?h t1"
    using x86_set_alias [OF assms(1) alias_in_regs(4) alias_texts(6) alias_ok(6) alias_nonempty(6), where v = w and env = env]
    by (auto simp: alias_runs fun_upd_twist)
  obtain t2 where "vm_reg_get env ''ah'' t1 = Some (t2, w)"
    using x86_get_alias [OF t1(2) alias_in_regs(4) alias_texts(5) alias_ok(5) alias_nonempty(5), where env = env]
      ah_bits(2) [OF assms(3)] by (auto simp: alias_runs)
  with t1 x86_get_simple [OF t1(2) alias_in_regs(1), where env = env] ah_bits(1,3) [OF assms(3)] show ?ah by auto
qed

definition vm_sample :: "(string \<Rightarrow> ut64) \<Rightarrow> malloc_state vm_state" where
  "vm_sample f = \<lparr>v_core = malloc_core [1, 2, 3, 4], vm_regs = x86_file f, vm_cpu = vm_cpu_zero,
     vm_ops = map (\<lambda>(op, code). \<lparr>vo_opcode = op, vo_code = code\<rparr>) x86_ops, vm_mmu_cache = [], realio = False\<rparr>"

lemma vm_sample_machine: "x86_machine f (vm_sample f)"
  by (simp add: vm_sample_def x86_machine_def)

theorem x86_alias_laws_witness:
  "\<exists>s1 s2. vm_reg_set (malloc_env 0, \<lambda>_ _. 1) ''ax'' 0x1234 (vm_sample (\<lambda>_. 0xdeadbeef)) = Some s1 \<and>
     vm_reg_get (malloc_env 0, \<lambda>_ _. 1) ''ax'' s1 = Some (s2, 0x1234)"
  using x86_alias_laws [OF vm_sample_machine, of "0x1234" "0x56" "(malloc_env 0, \<lambda>_ _. 1)" "\<lambda>_. 0xdeadbeef"] by auto

text \<open>Writing \<^verbatim>\<open>al\<close> clears \<^verbatim>\<open>ah\<close>: its setter shifts out sixteen bits of \<^verbatim>\<open>eax\<close>.\<close>

lemma al_write_clears_ah:
  assumes "x86_machine f s"
  shows "\<exists>s1 s2. vm_reg_set env ''al'' v s = Some s1 \<and> vm_reg_get env ''ah'' s1 = Some (s2, 0)"
proof -
  let ?e = "push_bit 16 (drop_bit 16 (f ''eax'')) OR (v AND 0xff)"
  let ?g = "f(''al'' := v AND 0xff, ''eax'' := ?e)"
  obtain s1 where s1: "vm_reg_set env ''al'' v s = Some s1" "x86_machine ?g s1"
    using x86_set_alias [OF assms alias_in_regs(3) alias_texts(4) alias_ok(4) alias_nonempty(4), where v = v and env = env]
    by (auto simp: alias_runs)
  have m: "(0xff00 :: ut64) = push_bit 8 (mask 8)" "(0xff :: ut64) = mask 8" by (simp_all add: mask_eq_exp_minus_1 push_bit_eq_mult)
  have "drop_bit 8 (?e AND 0xff00) = 0" unfolding m by (rule bit_word_eqI) (auto simp: bit_simps)
  then have "\<exists>s2. vm_reg_get env ''ah'' s1 = Some (s2, 0)"
    using x86_get_alias [OF s1(2) alias_in_regs(4) alias_texts(5) alias_ok(5) alias_nonempty(5), where env = env]
    by (auto simp: alias_runs)
  with s1(1) show ?thesis by blast
qed

lemma x86_ops_text: "\<forall>(op, code) \<in> set x86_ops. length op < 32 \<and> length code < 1024"
  by (simp add: x86_ops_def)

lemma add_x86_ops:
  "\<forall>(op, code) \<in> set ops. length op < 32 \<and> length code < 1024 \<Longrightarrow>
   fold_opt add_x86_op ops s = Some (s\<lparr>vm_ops := vm_ops s @ map (\<lambda>(op, code). \<lparr>vo_opcode = op, vo_code = code\<rparr>) ops\<rparr>)"
  by (induction ops arbitrary: s) (auto simp: add_x86_op_def vm_op_add_def)

lemma update_first_append: "\<forall>x \<in> set xs. \<not> P x \<Longrightarrow> update_first P f (xs @ ys) = xs @ update_first P f ys"
  by (induction xs) auto

lemma add_x86_regs:
  "distinct (map vr_name (vm_regs s) @ map fst regs) \<Longrightarrow> \<forall>x \<in> set regs. length (fst x) < 15 \<Longrightarrow>
   fold_opt add_x86_reg regs s = Some (s\<lparr>vm_regs := vm_regs s @ map (x86_reg (\<lambda>_. 0)) regs\<rparr>)"
proof (induction regs arbitrary: s)
  case (Cons x regs)
  obtain name t al where x: "x = (name, t, al)" by (cases x) auto
  have n: "\<forall>r \<in> set (vm_regs s). vr_name r \<noteq> name" using Cons.prems(1) x by auto
  have "add_x86_reg x s = Some (s\<lparr>vm_regs := vm_regs s @ [x86_reg (\<lambda>_. 0) x]\<rparr>)"
    using n Cons.prems(2) x
    by (auto simp: add_x86_reg_def vm_reg_add_def vm_reg_alias_def update_first_append x86_reg_def split: option.splits)
  with Cons show ?case by simp
qed simp

text \<open>
  Initialising the machine for x86 always succeeds and gives the registers, all zero, the aliases and the opcodes of the
  tables, an empty cache, and the mode of memory access that \<^verbatim>\<open>vm.realio\<close> asks for.
\<close>

theorem vm_init_x86:
  "\<exists>s'. vm_init env ARCH_X86 vm_arch True s = Some s' \<and> x86_machine (\<lambda>_. 0) s' \<and> vm_mmu_cache s' = [] \<and>
     realio s' = ((ucast (cfg_get_i (fst env) ''vm.realio'') :: ut32) \<noteq> 0) \<and> cpu_sp (vm_cpu s') = Some ''esp''"
proof -
  have "\<forall>x \<in> set x86_regs. length (fst x) < 15" by (simp add: x86_regs_def)
  moreover have "distinct (map fst x86_regs)" using x86_names_distinct by (simp add: x86_names_regs)
  ultimately show ?thesis
    by (simp add: vm_init_def Let_def vm_mmu_real_def add_x86_ops x86_ops_text add_x86_regs vm_configure_ret_def
        vm_configure_fastcall_def vm_configure_flags_def vm_configure_cpu_def x86_machine_def x86_file_def)
qed


section \<open>Opcodes as substitutions\<close>

text \<open>The text an opcode stands for: words of the command for \<^verbatim>\<open>$0\<close> to \<^verbatim>\<open>$9\<close>, the seek for \<^verbatim>\<open>$$\<close>, the size for \<^verbatim>\<open>$$$\<close>.\<close>

fun op_subst :: "'w vm_env \<Rightarrow> string \<Rightarrow> config_t \<Rightarrow> string \<Rightarrow> string option" where
  "op_subst env words cfg [] = Some []"
| "op_subst env words cfg (c # cs) =
     (if c \<noteq> CHR ''$'' then map_option (Cons c) (op_subst env words cfg cs)
      else case cs of
        [] \<Rightarrow> None
      | d # ds \<Rightarrow>
          if d = CHR ''$'' then
            (if ds \<noteq> [] \<and> hd ds = CHR ''$''
             then map_option (append (fmt_d (snd env (c_seek cfg) (c_block cfg)))) (op_subst env words cfg (tl ds))
             else map_option (append (hex_0x (c_seek cfg))) (op_subst env words cfg ds))
          else if is_digit d then
            Option.bind (op_word words d) (\<lambda>w. map_option (append w) (op_subst env words cfg ds))
          else None)"

lemma poke_str_Some:
  assumes "k + length w + n < length p"
  obtains p' where "poke_str w k p = Some p'" "length p' = length p" "take (k + length w) p' = take k p @ w"
  using assms by (intro that [of "take k p @ w @ [NUL] @ drop (k + length w + 1) p"]) (auto simp: poke_str_def)

lemma op_subst_cases:
  assumes "op_subst env words cfg (c # cs) = Some tx"
  obtains (plain) "c \<noteq> CHR ''$''"
    | (size) ds where "c = CHR ''$''" "cs = CHR ''$'' # CHR ''$'' # ds"
    | (seek) ds where "c = CHR ''$''" "cs = CHR ''$'' # ds" "\<not> (ds \<noteq> [] \<and> hd ds = CHR ''$'')"
    | (word) d ds where "c = CHR ''$''" "cs = d # ds" "d \<noteq> CHR ''$''" "is_digit d"
proof (cases "c = CHR ''$''")
  case True
  then obtain d ds where d: "cs = d # ds" using assms by (cases cs) auto
  have "ds = CHR ''$'' # tl ds \<or> \<not> (ds \<noteq> [] \<and> hd ds = CHR ''$'')" by (cases ds) auto
  moreover have "d = CHR ''$'' \<or> is_digit d" using assms d True by (auto split: if_splits)
  ultimately show thesis using True d size seek word by metis
qed (rule plain)

lemma op_expand_subst:
  "op_subst env words cfg code = Some tx \<Longrightarrow> k + length tx < length p \<Longrightarrow>
   \<exists>p'. op_expand env words cfg code k p = Some (Inr (p', k + length tx)) \<and> length p' = length p \<and>
     take (k + length tx) p' = take k p @ tx"
proof (induction env words cfg "code" arbitrary: k p tx rule: op_subst.induct)
  case (2 env words cfg c cs)
  from "2.prems"(1) show ?case
  proof (cases rule: op_subst_cases)
    case plain
    then obtain t where t: "op_subst env words cfg cs = Some t" "tx = c # t" using "2.prems"(1) by auto
    have "length (p[k := c]) = length p" "take (Suc k) (p[k := c]) = take k p @ [c]"
      using "2.prems"(2) by (simp_all add: take_Suc_conv_app_nth)
    then show ?thesis using "2.IH"(1) [OF plain t(1), of "Suc k" "p[k := c]"] plain t "2.prems"(2) by auto
  next
    case (size ds)
    let ?w = "fmt_d (snd env (c_seek cfg) (c_block cfg))"
    obtain t where t: "op_subst env words cfg ds = Some t" "tx = ?w @ t" using "2.prems"(1) size by auto
    obtain p' where p': "poke_str ?w k p = Some p'" "length p' = length p" "take (k + length ?w) p' = take k p @ ?w"
      using poke_str_Some [of k ?w "length t" p] "2.prems"(2) t by auto
    then show ?thesis using "2.IH"(2) [of "CHR ''$''" "CHR ''$'' # ds" t "k + length ?w" p'] size t "2.prems"(2)
      by (auto simp: Let_def add.assoc)
  next
    case (seek ds)
    let ?w = "hex_0x (c_seek cfg)"
    obtain t where t: "op_subst env words cfg ds = Some t" "tx = ?w @ t" using "2.prems"(1) seek by (auto split: if_splits)
    obtain p' where p': "poke_str ?w k p = Some p'" "length p' = length p" "take (k + length ?w) p' = take k p @ ?w"
      using poke_str_Some [of k ?w "length t" p] "2.prems"(2) t by auto
    then show ?thesis using "2.IH"(3) [of "CHR ''$''" ds t "k + length ?w" p'] seek t "2.prems"(2)
      by (auto simp: Let_def add.assoc)
  next
    case (word d ds)
    obtain w t where t: "op_word words d = Some w" "op_subst env words cfg ds = Some t" "tx = w @ t"
      using "2.prems"(1) word by (auto split: Option.bind_splits)
    obtain p' where p': "poke_str w k p = Some p'" "length p' = length p" "take (k + length w) p' = take k p @ w"
      using poke_str_Some [of k w "length t" p] "2.prems"(2) t by auto
    then show ?thesis using "2.IH"(4) [of d ds w t "k + length w" p'] word t "2.prems"(2)
      by (auto simp: add.assoc)
  qed
qed simp

lemma op_text_subst:
  assumes "op_subst env words cfg code = Some tx" and "length tx < length code + 128" and "NUL \<notin> set tx"
  shows "op_text env words cfg code = Some (Inr tx)"
proof -
  define buf where "buf = code @ [NUL] @ replicate 127 (char_of (unat (junk (fst env))))"
  have b: "length buf = length code + 128" by (simp add: buf_def)
  have "takeWhile (\<lambda>c. c \<noteq> NUL) tx = tx" using assms(3) by (auto simp: takeWhile_eq_all_conv)
  moreover obtain p' where "op_expand env words cfg code 0 buf = Some (Inr (p', length tx))" "length p' = length buf"
      "take (length tx) p' = tx"
    using op_expand_subst [OF assms(1), of 0 buf] assms(2) b by auto
  ultimately show ?thesis unfolding op_text_def buf_def [symmetric] using assms(2) b by simp
qed


section \<open>The stack\<close>

lemma le_value_le_bytes: "8 * n \<le> 64 \<Longrightarrow> le_value (le_bytes n v) = take_bit (8 * n) v"
proof (induction n arbitrary: v)
  case (Suc n)
  then have "le_value (le_bytes n (drop_bit 8 v)) = take_bit (8 * n) (drop_bit 8 v)" by simp
  then show ?case
    by (simp, intro bit_word_eqI) (auto simp: bit_simps dest: bit_imp_le_length)
qed simp

lemma length_le_bytes [simp]: "length (le_bytes n v) = n"
  by (induction n arbitrary: v) simp_all

lemma split_commas_none: "CHR '','' \<notin> set w \<Longrightarrow> split_commas w = [w]"
  by (induction w) auto

lemma value_number: "vm_get_value env rget ''4'' s = Some (s, 4)"
  by (simp add: vm_get_value_def scan_lld_def char_digit_def)

definition simple_reg :: "string \<Rightarrow> bool" where
  "simple_reg r \<longleftrightarrow> (\<exists>t. (r, t, None) \<in> set x86_regs)"

lemma simple_reg_name: "simple_reg r \<Longrightarrow> r \<in> set x86_names"
  by (force simp: simple_reg_def simp flip: x86_names_regs)

lemma simple_reg_esp: "simple_reg ''esp''"
  by (simp add: simple_reg_def x86_regs_def)

lemma simple_get: "x86_machine f s \<Longrightarrow> simple_reg r \<Longrightarrow> vm_reg_get env r s = Some (s, f r)"
  by (auto simp only: simple_reg_def intro!: x86_get_simple)

lemma simple_get_bracket: "x86_machine f s \<Longrightarrow> simple_reg r \<Longrightarrow> vm_reg_get env (r @ '']'') s = Some (s, f r)"
  by (auto simp only: simple_reg_def intro!: x86_get_simple)

lemma simple_set: "x86_machine f s \<Longrightarrow> simple_reg r \<Longrightarrow> vm_reg_set env r v s = Some (s\<lparr>vm_regs := x86_file (f(r := v))\<rparr>)"
  by (auto simp only: simple_reg_def intro!: x86_set_simple)

text \<open>The move of the stack pointer, the store and the load.\<close>

lemma esp_step:
  assumes "x86_machine f s" and "op \<in> set ''+-''" and "vm_apply op (f ''esp'') 4 = Some v"
  shows "\<exists>s'. vm_eval_single env (vm_reg_get env) (vm_reg_set env) (''esp=esp'' @ [op] @ ''4'') s = Some (s', 0) \<and>
     x86_machine (f(''esp'' := v)) s' \<and> vm_mmu_cache s' = vm_mmu_cache s \<and> realio s' = realio s"
proof -
  have w: "plain_word ''esp''" "plain_word ''esp''" "plain_word ''4''" "op \<in> set vm_operators"
    using assms(2) by (auto simp: plain_word_def vm_operators_def)
  have e: "''esp'' \<in> set x86_names" by (simp add: x86_names_def)
  have m: "x86_machine f (vm_emit es s)" for es using assms(1) by simp
  show ?thesis
    using eval_binop [OF w, of env "vm_reg_get env" "vm_reg_set env" s] assms(3) m
    by (simp add: x86_value [OF e] simple_get [OF m simple_reg_esp] simple_set [OF m simple_reg_esp] value_number
        x86_machine_set [OF m]) (simp add: vm_emit_def)
qed

lemma store_step:
  assumes "x86_machine f s" and "\<not> realio s" and "simple_reg r"
  shows "\<exists>s'. vm_eval_single env (vm_reg_get env) (vm_reg_set env) (''[esp]='' @ r) s = Some (s', 0) \<and> x86_machine f s' \<and>
     \<not> realio s' \<and> vm_mmu_cache s' = vm_mmu_cache s @
       [\<lparr>ch_from = f ''esp'', ch_to = f ''esp'' + 4, ch_data = le_bytes 4 (f r)\<rparr>]"
proof -
  have r: "plain_word r" "r \<in> set x86_names" using simple_reg_name [OF assms(3)] x86_plain_word by auto
  then have nb: "CHR '' '' \<notin> set (''[esp]='' @ r)" by (auto simp: plain_word_def)
  have nr: "CHR '' '' \<notin> set r" "take 1 r \<noteq> ''[''" using r(1) by (cases r; auto simp: plain_word_def)+
  have eq: "strchr_split CHR ''='' (''[esp]='' @ r) = Some (''[esp]'', r)"
    by (rule strchr_split_Some [THEN iffD2]) simp
  have sp: "vm_split vm_operators r = None" "vm_split vm_operators ''esp]'' = None"
    using r(1) by (intro vm_split_none, force simp: plain_word_def) (simp add: vm_operators_def)
  have vb: "vm_get_value env (vm_reg_get env) ''esp]'' s' = vm_reg_get env (''esp'' @ '']'') s'" for s'
    by (simp add: vm_get_value_def)
  have m: "x86_machine f (vm_emit es s)" for es using assms(1) by simp
  show ?thesis
    unfolding vm_eval_single_def Let_def dropWhile_no_blank [OF nb] strip_blanks_id [OF nb] eq
    using assms(1) [unfolded x86_machine_def] assms(2) nr
    by (simp add: eval_assign_def vm_eval_eq_def dropWhile_no_blank eval_store_def vm_get_math_def sp vb x86_value [OF r(2)]
        simple_get_bracket [OF m simple_reg_esp, simplified] simple_get [OF m assms(3)] vm_mmu_write_def vm_mmu_cache_write_def)
      (simp add: vm_emit_def x86_machine_def vm_mmu_cache_write_def)
qed


lemma load_step:
  assumes "x86_machine f s" and "\<not> realio s" and "simple_reg r"
    and "List.find (\<lambda>c. f ''esp'' \<ge> ch_from c \<and> f ''esp'' + 4 \<le> ch_to c) (vm_mmu_cache s) = Some c" "ch_data c = le_bytes 4 v"
  shows "\<exists>s'. vm_eval_single env (vm_reg_get env) (vm_reg_set env) (r @ ''=[esp]'') s = Some (s', 0) \<and>
     x86_machine (f(r := take_bit 32 v)) s' \<and> vm_mmu_cache s' = vm_mmu_cache s \<and> realio s' = realio s"
proof -
  let ?s = "vm_emit [ErrOut (''   ; '' @ (r @ ''=[esp]'') @ nl)] s"
  have r: "plain_word r" "r \<in> set x86_names" using simple_reg_name [OF assms(3)] x86_plain_word by auto
  then have nb: "CHR '' '' \<notin> set (r @ ''=[esp]'')" by (auto simp: plain_word_def)
  have nr: "CHR '' '' \<notin> set r" "take 1 r \<noteq> ''[''" "r \<noteq> []" using r(1) by (cases r; auto simp: plain_word_def)+
  have eq: "strchr_split CHR ''='' (r @ ''=[esp]'') = Some (r, ''[esp]'')"
    using r(1) by (intro strchr_split_Some [THEN iffD2]) (simp add: plain_word_def)
  have "set r \<inter> set ''+-*/&^%|<>'' = {}" using r(1) by (auto simp: plain_word_def vm_operators_def)
  then have l: "last r \<notin> set ''+-*/&^%|<>''" using last_in_set [OF nr(3)] by blast
  have sp: "vm_split vm_operators ''esp'' = None" by (intro vm_split_none) (simp add: vm_operators_def)
  have e: "''esp'' \<in> set x86_names" by (simp add: x86_names_def)
  have m: "x86_machine f ?s" using assms(1) by simp
  have hit: "vm_mmu_read env (f ''esp'') 4 ?s = Some (?s, le_bytes 4 v, 4)"
    using assms(2,4,5) by (simp add: vm_mmu_read_def vm_mmu_cache_read_def vm_emit_def)
  have "eval_assign env (vm_reg_get env) (vm_reg_set env) r ''[esp]'' t = Some (t\<lparr>vm_regs := x86_file (f(r := take_bit 32 v))\<rparr>)"
    if t: "x86_machine f t" "vm_mmu_read env (f ''esp'') 4 t = Some (t, le_bytes 4 v, 4)" for t
    using l nr simple_set [OF t(1) assms(3), of env "take_bit 32 v"] t(2) le_value_le_bytes [of 4 v]
    unfolding eval_assign_def vm_eval_eq_def Let_def eval_load_def vm_get_math_def
    by (simp add: dropWhile_no_blank vm_get_math_def sp x86_value [OF e] simple_get [OF t(1) simple_reg_esp] overlay_def)
  note ev = this [OF m hit]
  show ?thesis
    unfolding vm_eval_single_def Let_def dropWhile_no_blank [OF nb] strip_blanks_id [OF nb] eq option.case prod.case ev
    using x86_machine_set [OF m] by (simp add: vm_emit_def)
qed


lemma x86_good_word: "\<forall>n \<in> set x86_names. good_word n \<and> length n \<le> 3 \<and> CHR '','' \<notin> set n"
  by (simp add: x86_names_def good_word_def)

lemma op_eval_one:
  assumes "x86_machine f s" and "good_word op" and "r \<in> set x86_names"
    and "\<And>words cfg. op_word words CHR ''1'' = Some r \<Longrightarrow>
      op_select env words cfg op (map (\<lambda>(op, code). \<lparr>vo_opcode = op, vo_code = code\<rparr>) x86_ops) (op @ CHR '' '' # r) = Some (Inr tx)"
  shows "vm_op_eval env (op @ CHR '' '' # r) s = vm_eval env tx s"
proof -
  have g: "\<forall>w \<in> set [op, r]. good_word w" using assms(2,3) x86_good_word by auto
  have w: "set0word (op @ CHR '' '' # r) = Some (zero_words [op, r], 2)" using set0word_join [OF _ g] by simp
  have "get0word (zero_words [op, r]) 0 = Some op" "op_word (zero_words [op, r]) CHR ''1'' = Some r"
    using get0word_zero_words [OF _ g, of 0] get0word_zero_words [OF _ g, of 1] by (simp_all add: op_word_def)
  with w assms(1,4) show ?thesis by (simp add: vm_op_eval_def x86_machine_def)
qed

lemma op_text_one:
  assumes "op_word words CHR ''1'' = Some r" and "r \<in> set x86_names"
  shows "op_text env words cfg ''esp=esp-4,[esp]=$1'' = Some (Inr (''esp=esp-4,[esp]='' @ r))"
    and "op_text env words cfg ''$1=[esp],esp=esp+4'' = Some (Inr (r @ ''=[esp],esp=esp+4''))"
proof -
  have r: "length r \<le> 3" "NUL \<notin> set r" using assms(2) x86_good_word by (auto simp: good_word_def)
  have d: "is_digit CHR ''1''" by (simp add: is_digit_def)
  show "op_text env words cfg ''esp=esp-4,[esp]=$1'' = Some (Inr (''esp=esp-4,[esp]='' @ r))"
    by (rule op_text_subst) (use assms(1) d r in simp_all)
  show "op_text env words cfg ''$1=[esp],esp=esp+4'' = Some (Inr (r @ ''=[esp],esp=esp+4''))"
    by (rule op_text_subst) (use assms(1) d r in simp_all)
qed

lemma push_text:
  assumes "x86_machine f s" and "r \<in> set x86_names"
  shows "vm_op_eval env (''push '' @ r) s = vm_eval env (''esp=esp-4,[esp]='' @ r) s"
proof -
  have "op_select env words cfg ''push'' (map (\<lambda>(op, code). \<lparr>vo_opcode = op, vo_code = code\<rparr>) x86_ops) (''push'' @ CHR '' '' # r) =
      Some (Inr (''esp=esp-4,[esp]='' @ r))" if "op_word words CHR ''1'' = Some r" for words cfg
    using op_text_one(1) [OF that assms(2), of env cfg] by (simp add: x86_ops_def)
  from op_eval_one [OF assms(1) _ assms(2) this] show ?thesis by (simp add: good_word_def)
qed

lemma pop_text:
  assumes "x86_machine f s" and "r \<in> set x86_names"
  shows "vm_op_eval env (''pop '' @ r) s = vm_eval env (r @ ''=[esp],esp=esp+4'') s"
proof -
  have "op_select env words cfg ''pop'' (map (\<lambda>(op, code). \<lparr>vo_opcode = op, vo_code = code\<rparr>) x86_ops) (''pop'' @ CHR '' '' # r) =
      Some (Inr (r @ ''=[esp],esp=esp+4''))" if "op_word words CHR ''1'' = Some r" for words cfg
    using op_text_one(2) [OF that assms(2), of env cfg] by (simp add: x86_ops_def)
  from op_eval_one [OF assms(1) _ assms(2) this] show ?thesis by (simp add: good_word_def)
qed

lemma split_commas_append:
  "CHR '','' \<notin> set a \<Longrightarrow> split_commas (a @ CHR '','' # b) = a # split_commas b"
  by (induction a) auto

text \<open>
  C15 The opcodes \<^verbatim>\<open>push\<close> and \<^verbatim>\<open>pop\<close> on the x86 machine, from their text to the cache of writes: pushing a register and
  popping into another copies its low 32 bits and restores the stack pointer, for every pair of registers without alias
  other than the stack pointer, when no earlier write covers the slot.
\<close>

theorem push_pop_roundtrip:
  assumes "x86_machine f s" and "(ucast (cfg_get_i (fst env) ''vm.realio'') :: ut32) = 0"
    and "simple_reg r" "r \<noteq> ''esp''" "simple_reg q" "q \<noteq> ''esp''"
    and "\<forall>c \<in> set (vm_mmu_cache s). \<not> (f ''esp'' - 4 \<ge> ch_from c \<and> f ''esp'' \<le> ch_to c)"
  shows "\<exists>s1 s2. vm_op_eval env (''push '' @ r) s = Some (s1, 1) \<and> vm_op_eval env (''pop '' @ q) s1 = Some (s2, 1) \<and>
     x86_machine (f(q := take_bit 32 (f r))) s2"
proof -
  let ?g = "f(''esp'' := f ''esp'' - 4)"
  have n: "r \<in> set x86_names" "q \<in> set x86_names" using assms(3,5) simple_reg_name by auto
  have c: "CHR '','' \<notin> set r" "CHR '','' \<notin> set (q @ ''=[esp]'')" using n x86_good_word by auto
  have m: "x86_machine f (vm_mmu_real False s)" "\<not> realio (vm_mmu_real False s)" "vm_mmu_cache (vm_mmu_real False s) = vm_mmu_cache s"
    using assms(1) by (simp_all add: vm_mmu_real_def x86_machine_def)
  obtain t1 where t1: "vm_eval_single env (vm_reg_get env) (vm_reg_set env) ''esp=esp-4'' (vm_mmu_real False s) = Some (t1, 0)"
      "x86_machine ?g t1" "vm_mmu_cache t1 = vm_mmu_cache s" "\<not> realio t1"
    using esp_step [OF m(1), of "CHR ''-''" "f ''esp'' - 4" env] m by (auto simp: vm_apply_def)
  let ?e = "\<lparr>ch_from = f ''esp'' - 4, ch_to = f ''esp'', ch_data = le_bytes 4 (f r)\<rparr>"
  obtain s1 where s1: "vm_eval_single env (vm_reg_get env) (vm_reg_set env) (''[esp]='' @ r) t1 = Some (s1, 0)"
      "x86_machine ?g s1" "\<not> realio s1" "vm_mmu_cache s1 = vm_mmu_cache s @ [?e]"
    using store_step [OF t1(2,4) assms(3), of env] t1(3) assms(4) by auto
  have push: "vm_op_eval env (''push '' @ r) s = Some (s1, 1)"
    using split_commas_append [of "''esp=esp-4''" "''[esp]='' @ r"] split_commas_none [of "''[esp]='' @ r"] c(1) t1(1) s1(1)
    by (simp add: push_text [OF assms(1) n(1), simplified] vm_eval_def vm_eval_with_def assms(2) del: split_commas.simps)
  have m2: "vm_mmu_real False s1 = s1" using s1(3) by (cases s1) (simp add: vm_mmu_real_def)
  have "List.find (\<lambda>c. ch_from c \<le> f ''esp'' - 4 \<and> f ''esp'' \<le> ch_to c) (vm_mmu_cache s) = None"
    using assms(7) by (simp add: find_None_iff)
  then have "List.find (\<lambda>c. ?g ''esp'' \<ge> ch_from c \<and> ?g ''esp'' + 4 \<le> ch_to c) (vm_mmu_cache s1) = Some ?e"
    using s1(4) by (simp add: find_append)
  then obtain t2 where t2: "vm_eval_single env (vm_reg_get env) (vm_reg_set env) (q @ ''=[esp]'') s1 = Some (t2, 0)"
      "x86_machine (?g(q := take_bit 32 (f r))) t2"
    using load_step [OF s1(2,3) assms(5), of ?e "f r" env] by auto
  have "(?g(q := take_bit 32 (f r)))(''esp'' := f ''esp'') = f(q := take_bit 32 (f r))"
    using assms(6) by (auto simp: fun_eq_iff)
  then obtain s2 where s2: "vm_eval_single env (vm_reg_get env) (vm_reg_set env) ''esp=esp+4'' t2 = Some (s2, 0)"
      "x86_machine (f(q := take_bit 32 (f r))) s2"
    using esp_step [OF t2(2), of "CHR ''+''" "f ''esp''" env] assms(6) by (auto simp: vm_apply_def)
  have "vm_op_eval env (''pop '' @ q) s1 = Some (s2, 1)"
    using split_commas_append [OF c(2), of "''esp=esp+4''"] split_commas_none [of "''esp=esp+4''"] t2(1) s2(1)
    by (simp add: pop_text [OF s1(2) n(2), simplified] vm_eval_def vm_eval_with_def assms(2) m2 del: split_commas.simps)
  with push s2(2) show ?thesis by blast
qed


theorem push_pop_roundtrip_witness:
  "\<exists>s1 s2. vm_op_eval (malloc_env 0, \<lambda>_ _. 1) ''push eax'' (vm_sample (\<lambda>_. 0x1000)) = Some (s1, 1) \<and>
     vm_op_eval (malloc_env 0, \<lambda>_ _. 1) ''pop ebx'' s1 = Some (s2, 1)"
proof -
  have "simple_reg ''eax''" "simple_reg ''ebx''" by (simp_all add: simple_reg_def x86_regs_def)
  then show ?thesis
    using push_pop_roundtrip [OF vm_sample_machine, of "(malloc_env 0, \<lambda>_ _. 1)" "''eax''" "''ebx''" "\<lambda>_. 0x1000"]
    by (auto simp: vm_sample_def malloc_env_def)
qed

end
