(* ===== verification/Data.thy ===== *)
theory Data
  imports Flags
begin

text \<open>
  The metadata of addresses (\<^verbatim>\<open>src/src/data.c\<close>, \<^verbatim>\<open>data.h\<close>): data areas and functions, comments, cross references and
  the types of variables, each a list with the newest data, reference and type first and the newest comment last.
  The arrays of 128 characters that \<^verbatim>\<open>strncpy\<close> fills are the text they hold: one of 128 characters has no terminator.
  \<open>None\<close> is undefined behaviour: a text that does not fit its buffer, an array without terminator read as a text, an unlinked node unlinked again, a format that is
  user text with a percent sign. \<^verbatim>\<open>config_get_i\<close> is the argument \<open>cfgi\<close>, the flags are a state of \<^theory_text>\<open>Flags\<close>.
\<close>

section \<open>State\<close>

record data_t =
  d_from :: ut64
  d_to :: ut64
  d_type :: int
  d_times :: int
  d_size :: ut64
  d_arg :: string

record var_type_t =
  vt_name :: string
  vt_fmt :: string
  vt_size :: ut32

record comment_t =
  cmt_offset :: ut64
  cmt_comment :: string

record xrefs_t =
  x_addr :: ut64
  x_from :: ut64
  x_type :: int

record data_state =
  vartypes :: "var_type_t list"
  datas :: "data_t list"
  comments :: "comment_t list"
  xrefs :: "xrefs_t list"

definition DATA_HEX :: int where "DATA_HEX = 17"
definition DATA_STR :: int where "DATA_STR = 28"
definition DATA_CODE :: int where "DATA_CODE = 25"
definition DATA_FUN :: int where "DATA_FUN = 24"
definition DATA_STRUCT :: int where "DATA_STRUCT = 37"
definition DATA_FOLD_O :: int where "DATA_FOLD_O = 0x100"
definition DATA_FOLD_C :: int where "DATA_FOLD_C = 0x101"

lemmas data_types = DATA_HEX_def DATA_STR_def DATA_CODE_def DATA_FUN_def DATA_STRUCT_def DATA_FOLD_O_def DATA_FOLD_C_def

definition data_comment_init :: "data_state" where
  "data_comment_init = \<lparr>vartypes = [], datas = [], comments = [], xrefs = []\<rparr>"

section \<open>Data areas\<close>

fun functions_loop ::
  "config_t \<Rightarrow> flags_state \<Rightarrow> int \<Rightarrow> int \<Rightarrow> data_t list \<Rightarrow> ut64 \<Rightarrow> ut64 \<times> out_event list" where
  "functions_loop cfg fl idx i [] addr = (addr, [])"
| "functions_loop cfg fl idx i (d # ds) addr =
     (let wdelta = (if idx > 5 then idx - 5 else 0) in
      if d_type d \<noteq> DATA_FUN then functions_loop cfg fl idx i ds addr
      else if i < wdelta then functions_loop cfg fl idx (i + 1) ds addr
      else if i > 15 + wdelta then (addr, [ConsOut (''   ...'' @ nl)])
      else
        let mark = (if c_seek cfg > d_from d + c_vaddr cfg \<and> c_seek cfg < d_to d + c_vaddr cfg then ''<SEEK IS HERE>'' else []);
            line = ConsOut (hex_0x (d_from d + c_vaddr cfg) @ '' ('' @ flag_name_by_offset cfg fl (d_from d) @ '') '' @ mark @ nl);
            (a, es) = functions_loop cfg fl idx (i + 1) ds (if idx = i then d_from d else addr)
        in (a, ConsOut (if idx = i then '' * '' else ''   '') # line # es))"

definition var_functions_show :: "config_t \<Rightarrow> flags_state \<Rightarrow> int \<Rightarrow> data_state \<Rightarrow> ut64 \<times> out_event list" where
  "var_functions_show cfg fl idx st = functions_loop cfg fl idx 0 (datas st) (c_seek cfg)"

text \<open>Updates accept the end of an area; lookups do not.\<close>

definition at_or_end :: "ut64 \<Rightarrow> data_t \<Rightarrow> bool" where
  "at_or_end off d \<longleftrightarrow> off \<ge> d_from d \<and> off \<le> d_to d"

definition covers :: "ut64 \<Rightarrow> data_t \<Rightarrow> bool" where
  "covers off d \<longleftrightarrow> off \<ge> d_from d \<and> off < d_to d"

definition data_set_len :: "ut64 \<Rightarrow> ut64 \<Rightarrow> data_state \<Rightarrow> data_state \<times> int" where
  "data_set_len off len st =
     (if \<exists>d \<in> set (datas st). at_or_end off d
      then (st\<lparr>datas := update_first (at_or_end off)
              (\<lambda>d. d\<lparr>d_to := d_from d + len, d_size := (d_from d + len) - d_from d + 1\<rparr>) (datas st)\<rparr>, 0)
      else (st, - 1))"

definition data_prev :: "ut64 \<Rightarrow> int \<Rightarrow> data_state \<Rightarrow> ut64" where
  "data_prev off t st =
     fold (\<lambda>d ret. if d_type d = t \<and> d_from d \<le> off \<and> d_to d \<ge> off then d_from d else ret) (datas st) 0"

definition data_prev_size :: "ut64 \<Rightarrow> int \<Rightarrow> data_state \<Rightarrow> ut64" where
  "data_prev_size off t st =
     fold (\<lambda>d ret. if d_type d = t \<and> d_from d < off \<and> d_to d > off then (d_to d - d_from d) - (off - d_from d) else ret)
       (datas st) 0"

definition data_get_fun_for :: "ut64 \<Rightarrow> data_state \<Rightarrow> (ut64 \<times> ut64) option" where
  "data_get_fun_for addr st =
     fold (\<lambda>d rd. if d_type d = DATA_FUN \<and> d_from d < addr \<and> addr < d_to d then Some (d_from d, d_to d) else rd) (datas st) None"

text \<open>A counter of type \<^verbatim>\<open>int\<close>, started at 0.\<close>

definition count_if :: "('a \<Rightarrow> bool) \<Rightarrow> 'a list \<Rightarrow> int" where
  "count_if P xs = sint (word_of_nat (length (filter P xs)) :: ut32)"

definition data_info :: "data_state \<Rightarrow> out_event list" where
  "data_info st =
     [ConsOut (''strings: '' @ fmt_d (count_if (\<lambda>d. d_type d = DATA_STR) (datas st)) @ nl),
      ConsOut (''functions: '' @ fmt_d (count_if (\<lambda>d. d_type d = DATA_FUN) (datas st)) @ nl),
      ConsOut (''structs: '' @ fmt_d (count_if (\<lambda>d. d_type d = DATA_STRUCT) (datas st)) @ nl),
      ConsOut (''data_xrefs: '' @ fmt_d (count_if (\<lambda>x. x_type x = 0) (xrefs st)) @ nl),
      ConsOut (''code_xrefs: '' @ fmt_d (count_if (\<lambda>x. x_type x \<noteq> 0) (xrefs st)) @ nl)]"

definition data_set :: "ut64 \<Rightarrow> int \<Rightarrow> data_state \<Rightarrow> data_state \<times> int" where
  "data_set off t st =
     (if \<exists>d \<in> set (datas st). at_or_end off d
      then (st\<lparr>datas := update_first (at_or_end off) (\<lambda>d. d\<lparr>d_type := t\<rparr>) (datas st)\<rparr>, 0)
      else (st, - 1))"

text \<open>The restarted loop of \<^verbatim>\<open>data_add\<close>: unlink the first area over the address and start again.\<close>

function data_purge :: "ut64 \<Rightarrow> data_t list \<Rightarrow> data_t list" where
  "data_purge off ds =
     (if \<exists>d \<in> set ds. covers off d then data_purge off (remove_first (covers off) ds) else ds)"
  by pat_completeness auto
termination by (relation "measure (\<lambda>(off, ds). length ds)") (auto intro: length_remove_first)

declare data_purge.simps [simp del]

text \<open>The area of \<^verbatim>\<open>data_add\<close>; \<open>times\<close> is what the new memory holds, only its first bytes are cleared.\<close>

definition new_area :: "int \<Rightarrow> config_t \<Rightarrow> ut64 \<Rightarrow> int \<Rightarrow> data_t" where
  "new_area junk cfg off t =
     (let (a, b) =
        (if c_cursor_mode cfg then
           (let fr = off + word_of_int (c_cursor cfg);
                e = (if c_ocursor cfg \<noteq> - 1 then c_seek cfg + word_of_int (c_ocursor cfg) else off + 1)
            in if e < fr then (e, fr) else (fr, e))
         else (off, off + word_of_int (c_block_size cfg)));
          size = (if b > a then b - a + 1 else a - b + 1)
      in \<lparr>d_from = a, d_to = b, d_type = t, d_times = junk, d_size = (if size < 1 then 1 else size), d_arg = []\<rparr>)"

definition data_add :: "int \<Rightarrow> config_t \<Rightarrow> ut64 \<Rightarrow> int \<Rightarrow> data_state \<Rightarrow> data_state \<times> data_t option" where
  "data_add junk cfg off t st =
     (let ds = data_purge off (datas st) in
      if t = DATA_CODE then (st\<lparr>datas := ds\<rparr>, None)
      else let d = new_area junk cfg off t in (st\<lparr>datas := d # ds\<rparr>, Some d))"

text \<open>\<^verbatim>\<open>strncpy\<close> into an array of 128 characters: a text of 128 characters or more leaves no terminator.\<close>

definition strncpy128 :: "string \<Rightarrow> string" where
  "strncpy128 s = take 128 s"

definition terminated :: "string \<Rightarrow> bool" where
  "terminated s \<longleftrightarrow> length s < 128"

definition data_add_arg ::
  "int \<Rightarrow> config_t \<Rightarrow> ut64 \<Rightarrow> int \<Rightarrow> string option \<Rightarrow> data_state \<Rightarrow> data_state \<times> data_t option" where
  "data_add_arg junk cfg off t arg st =
     (case arg of
        None \<Rightarrow> (st, None)
      | Some a \<Rightarrow>
          (case data_add junk cfg off t st of
             (st', None) \<Rightarrow> (st', None)
           | (st', Some d) \<Rightarrow> let d' = d\<lparr>d_arg := strncpy128 a\<rparr> in (st'\<lparr>datas := d' # tl (datas st')\<rparr>, Some d')))"

definition data_del :: "ut64 \<Rightarrow> int \<Rightarrow> int \<Rightarrow> data_state \<Rightarrow> data_state" where
  "data_del addr t len st =
     st\<lparr>datas := remove_first (\<lambda>d. d_from d = addr \<and> t = d_type d \<and> (len = 0 \<or> word_of_int len = d_size d)) (datas st)\<rparr>"

definition data_get :: "ut64 \<Rightarrow> data_state \<Rightarrow> data_t option" where
  "data_get offset st = List.find (covers offset) (datas st)"

definition data_get_range :: "ut64 \<Rightarrow> data_state \<Rightarrow> data_t option" where
  "data_get_range offset st = List.find (covers offset) (datas st)"

text \<open>\<^verbatim>\<open>data_get_between\<close>: the most frequent type in an interval and its number.\<close>

definition data_get_between :: "ut64 \<Rightarrow> ut64 \<Rightarrow> data_state \<Rightarrow> int \<times> int" where
  "data_get_between from to st =
     (let n = (\<lambda>t. count_if (\<lambda>d. d_from d \<ge> from \<and> d_to d < to \<and> d_type d = t) (datas st));
          hex = n DATA_HEX; str = n DATA_STR; code = n DATA_CODE; fn = n DATA_FUN; stc = n DATA_STRUCT
      in if hex \<ge> str \<and> hex \<ge> code \<and> hex \<ge> fn \<and> hex \<ge> stc then (DATA_HEX, hex)
         else if str \<ge> hex \<and> str \<ge> code \<and> str \<ge> fn \<and> str \<ge> stc then (DATA_STR, str)
         else if fn \<ge> hex \<and> fn \<ge> str \<and> fn \<ge> code \<and> fn \<ge> stc then (DATA_FUN, fn)
         else if code \<ge> hex \<and> code \<ge> str \<and> code \<ge> fn \<and> code \<ge> stc then (DATA_CODE, code)
         else (DATA_STRUCT, stc))"

definition data_type_range :: "ut64 \<Rightarrow> data_state \<Rightarrow> int" where
  "data_type_range offset st = (case data_get_range offset st of Some d \<Rightarrow> d_type d | None \<Rightarrow> - 1)"

definition data_type :: "ut64 \<Rightarrow> data_state \<Rightarrow> int" where
  "data_type offset st = (case List.find (\<lambda>d. offset = d_from d) (datas st) of Some d \<Rightarrow> d_type d | None \<Rightarrow> - 1)"

definition data_end :: "ut64 \<Rightarrow> data_state \<Rightarrow> int" where
  "data_end offset st = (case List.find (\<lambda>d. offset = d_from d + d_size d) (datas st) of Some d \<Rightarrow> d_type d | None \<Rightarrow> - 1)"

definition data_size :: "ut64 \<Rightarrow> data_state \<Rightarrow> int" where
  "data_size offset st =
     (case List.find (\<lambda>d. offset = d_from d) (datas st) of Some d \<Rightarrow> sint (ucast (d_size d) :: ut32) | None \<Rightarrow> 0)"

definition data_list_ranges :: "data_state \<Rightarrow> out_event list" where
  "data_list_ranges st =
     map (\<lambda>d. ConsOut (''ar+ '' @ hex_0x (d_from d) @ '' '' @ hex_0x (d_to d) @ nl)) (filter (\<lambda>d. d_type d = DATA_FUN) (datas st))"

definition data_prefix :: "int \<Rightarrow> string" where
  "data_prefix t = (if t = DATA_FOLD_O then ''Cu'' else if t = DATA_FOLD_C then ''Cf'' else if t = DATA_FUN then ''CF''
     else if t = DATA_HEX then ''Cd'' else if t = DATA_STR then ''Cs'' else if t = DATA_STRUCT then ''Cm'' else ''Cc'')"

text \<open>\<open>mask_ok\<close> is the test of a mask: absent, empty, or found by \<^verbatim>\<open>str_grep\<close>; \<open>jc\<close> the byte in front of an empty string.\<close>

definition mask_ok :: "char \<Rightarrow> string option \<Rightarrow> string \<Rightarrow> bool" where
  "mask_ok jc msk str = (case msk of None \<Rightarrow> True | Some m \<Rightarrow> m = [] \<or> str_grep jc str m)"

definition data_line :: "config_t \<Rightarrow> int \<Rightarrow> flags_state \<Rightarrow> data_t \<Rightarrow> string option" where
  "data_line cfg delta fl d =
     (if d_type d = DATA_STRUCT \<and> \<not> terminated (d_arg d) then None
      else Some (data_prefix (d_type d) @ '' '' @ fmt_d (sint (d_to d - d_from d)) @ '' '' @
        (if d_type d = DATA_STRUCT then d_arg d else []) @ ''@ '' @ hex_0x (d_from d) @ '' ; '' @
        fst (string_flag_offset cfg delta [] (d_from d) 0 fl)))"

fun data_list_loop :: "char \<Rightarrow> config_t \<Rightarrow> int \<Rightarrow> flags_state \<Rightarrow> string option \<Rightarrow> data_t list \<Rightarrow> out_event list option" where
  "data_list_loop jc cfg delta fl msk [] = Some []"
| "data_list_loop jc cfg delta fl msk (d # ds) =
     (case data_line cfg delta fl d of
        None \<Rightarrow> None
      | Some l \<Rightarrow> map_option (append (if mask_ok jc msk l then [ConsOut l, ConsOut nl] else [])) (data_list_loop jc cfg delta fl msk ds))"

definition data_list :: "char \<Rightarrow> config_t \<Rightarrow> int \<Rightarrow> flags_state \<Rightarrow> string option \<Rightarrow> data_state \<Rightarrow> out_event list option" where
  "data_list jc cfg delta fl msk st = data_list_loop jc cfg delta fl msk (datas st)"

section \<open>Cross references\<close>

fun seek_to_loop :: "ut64 \<Rightarrow> int \<Rightarrow> int \<Rightarrow> int \<Rightarrow> xrefs_t list \<Rightarrow> ut64" where
  "seek_to_loop offset t idx i [] = 0"
| "seek_to_loop offset t idx i (x # xs) =
     (if x_type x = t \<or> t = - 1 then
        (if x_addr x = offset \<and> idx = i then x_from x else seek_to_loop offset t idx (i + 1) xs)
      else seek_to_loop offset t idx i xs)"

definition data_seek_to :: "ut64 \<Rightarrow> int \<Rightarrow> int \<Rightarrow> data_state \<Rightarrow> ut64" where
  "data_seek_to offset t idx st = seek_to_loop offset t (idx - 1) 0 (xrefs st)"

definition xref_kind :: "int \<Rightarrow> string" where
  "xref_kind t = (if t = 1 then ''DATA'' else if t = 0 then ''CODE'' else ''UNKNOWN'')"

text \<open>
  \<^verbatim>\<open>data_xrefs_print\<close>: \<open>lbl\<close> is the text left in the buffer by the references before, absent while it is
  uninitialised. For type 1 the argument of the last \<^verbatim>\<open>%s\<close> is missing.
\<close>

fun xrefs_print_loop ::
  "config_t \<Rightarrow> int \<Rightarrow> flags_state \<Rightarrow> bool \<Rightarrow> ut64 \<Rightarrow> int \<Rightarrow> string option \<Rightarrow> xrefs_t list \<Rightarrow> (int \<times> out_event list) option" where
  "xrefs_print_loop cfg delta fl xto addr t lbl [] = Some (0, [])"
| "xrefs_print_loop cfg delta fl xto addr t lbl (x # xs) =
     (if x_addr x = addr then
        let s = fst (string_flag_offset cfg delta [] (x_from x) 0 fl);
            rest = xrefs_print_loop cfg delta fl xto addr t (Some s) xs;
            line = (\<lambda>k. map_option (\<lambda>(n, es).
              (n + 1, ConsOut (''; '' @ hex_0x addr @ '' '' @ k @ '' '' @ hex_0x (x_from x) @ '' ('' @ s @ '')'' @ nl) # es)) rest)
        in if t = 0 then (if x_type x = 0 then line ''CODE xref'' else rest)
           else if t = 1 then (if x_type x = 1 then None else rest)
           else line (xref_kind (x_type x) @ '' xref from'')
      else if xto \<and> x_from x = addr then
        (case lbl of
           None \<Rightarrow> None
         | Some s \<Rightarrow> map_option (\<lambda>(n, es).
             (n, ConsOut (''; '' @ hex_0x addr @ '' '' @ xref_kind (x_type x) @ '' xref to '' @ hex_0x (x_addr x) @ '' ('' @ s @ '')'' @ nl) # es))
               (xrefs_print_loop cfg delta fl xto addr t lbl xs))
      else xrefs_print_loop cfg delta fl xto addr t lbl xs)"

definition data_xrefs_print ::
  "config_t \<Rightarrow> (string \<Rightarrow> ut64) \<Rightarrow> flags_state \<Rightarrow> ut64 \<Rightarrow> int \<Rightarrow> data_state \<Rightarrow> (int \<times> out_event list) option" where
  "data_xrefs_print cfg cfgi fl addr t st =
     xrefs_print_loop cfg (sint (ucast (cfgi ''cfg.delta'') :: ut32)) fl ((ucast (cfgi ''asm.xrefsto'') :: ut32) \<noteq> 0) addr t None (xrefs st)"

definition data_xrefs_add :: "ut64 \<Rightarrow> ut64 \<Rightarrow> int \<Rightarrow> data_state \<Rightarrow> data_state \<times> int" where
  "data_xrefs_add addr from t st =
     (if \<exists>x \<in> set (xrefs st). x_addr x = addr \<and> x_from x = from then (st, 0)
      else (st\<lparr>xrefs := \<lparr>x_addr = addr, x_from = from, x_type = t\<rparr> # xrefs st\<rparr>, 1))"

definition data_xrefs_at :: "ut64 \<Rightarrow> data_state \<Rightarrow> int" where
  "data_xrefs_at addr st = count_if (\<lambda>x. x_addr x = addr) (xrefs st)"

definition data_xrefs_del :: "ut64 \<Rightarrow> ut64 \<Rightarrow> data_state \<Rightarrow> data_state" where
  "data_xrefs_del addr from st = st\<lparr>xrefs := remove_first (\<lambda>x. x_addr x = addr \<and> x_from x = from) (xrefs st)\<rparr>"

text \<open>\<^verbatim>\<open>data_xrefs_here\<close> assigns the address instead of comparing: every reference to an address other than 0 is printed.\<close>

fun xrefs_here_loop :: "config_t \<Rightarrow> int \<Rightarrow> flags_state \<Rightarrow> int \<Rightarrow> xrefs_t list \<Rightarrow> int \<times> out_event list" where
  "xrefs_here_loop cfg delta fl cnt [] = (cnt, [])"
| "xrefs_here_loop cfg delta fl cnt (x # xs) =
     (if x_addr x \<noteq> 0 then
        let (n, es) = xrefs_here_loop cfg delta fl (cnt + 1) xs in
        (n, ConsOut (fmt_d (cnt + 1) @ '' '' @ (if x_type x \<noteq> 0 then ''data'' else ''code'') @ '' xref '' @ hex_0x (x_from x) @
               '' @ '' @ hex_0x (x_addr x) @ '' ; '' @ fst (string_flag_offset cfg delta [] (x_from x) 0 fl) @ nl) # es)
      else xrefs_here_loop cfg delta fl cnt xs)"

definition data_xrefs_here :: "config_t \<Rightarrow> int \<Rightarrow> flags_state \<Rightarrow> ut64 \<Rightarrow> data_state \<Rightarrow> out_event list" where
  "data_xrefs_here cfg delta fl addr st =
     (let (n, es) = xrefs_here_loop cfg delta fl 0 (xrefs st) in
      es @ (if n = 0 then [ErrOut (''No xrefs found'' @ nl)] else []))"

text \<open>Text printed as a format.\<close>

definition printf_text :: "string \<Rightarrow> out_event option" where
  "printf_text s = (if CHR ''%'' \<in> set s then None else Some (ConsOut s))"

fun printf_all :: "string list \<Rightarrow> out_event list option" where
  "printf_all [] = Some []"
| "printf_all (s # ss) = (case printf_text s of None \<Rightarrow> None | Some e \<Rightarrow> map_option (Cons e) (printf_all ss))"

definition data_xrefs_list :: "char \<Rightarrow> config_t \<Rightarrow> int \<Rightarrow> flags_state \<Rightarrow> string option \<Rightarrow> data_state \<Rightarrow> out_event list option" where
  "data_xrefs_list jc cfg delta fl msk st =
     printf_all (filter (mask_ok jc msk) (map (\<lambda>x.
       ''C'' @ (if x_type x \<noteq> 0 then ''d'' else ''x'') @ '' '' @ hex_0x (x_from x) @ '' @ '' @ hex_0x (x_addr x) @ '' ; '' @
       fst (string_flag_offset cfg delta [] (x_from x) 0 fl) @ nl) (xrefs st)))"

section \<open>Comments\<close>

definition data_comment_del :: "ut64 \<Rightarrow> string \<Rightarrow> data_state \<Rightarrow> data_state" where
  "data_comment_del offset str st =
     st\<lparr>comments :=
       (if str \<noteq> [] \<and> hd str = CHR ''*'' then filter (\<lambda>c. cmt_offset c \<noteq> offset) (comments st)
        else remove_first (\<lambda>c. cmt_offset c = offset \<and> cmt_comment c = str) (comments st))\<rparr>"

definition data_comment_add :: "ut64 \<Rightarrow> string \<Rightarrow> data_state \<Rightarrow> data_state" where
  "data_comment_add offset str st =
     (if strnull (Some str) then st
      else let st' = data_comment_del offset str st;
               ptr = (if last str = CHR 0x0A then butlast str else str)
        in st'\<lparr>comments := comments st' @ [\<lparr>cmt_offset = offset, cmt_comment = ptr\<rparr>]\<rparr>)"

definition data_del_range :: "ut64 \<Rightarrow> ut64 \<Rightarrow> data_state \<Rightarrow> data_state option" where
  "data_del_range from to st =
     (let hit = (\<lambda>a. a \<ge> from \<and> a \<le> to) in
      if \<exists>x \<in> set (xrefs st). hit (x_addr x) \<and> hit (x_from x) then None
      else Some (st\<lparr>comments := filter (\<lambda>c. \<not> hit (cmt_offset c)) (comments st),
                    xrefs := filter (\<lambda>x. \<not> (hit (x_addr x) \<or> hit (x_from x))) (xrefs st),
                    datas := filter (\<lambda>d. \<not> (hit (d_from d) \<or> hit (d_to d))) (datas st)\<rparr>))"

fun comment_lines :: "char \<Rightarrow> string option \<Rightarrow> comment_t list \<Rightarrow> out_event list option" where
  "comment_lines jc msk [] = Some []"
| "comment_lines jc msk (c # cs) =
     (let str = ''CC '' @ cmt_comment c @ '' @ 0x'' @ fmt_x (unat (cmt_offset c)) @ nl in
      if length str \<ge> 1024 then None
      else map_option (append (if mask_ok jc msk str then [ConsOut str] else [])) (comment_lines jc msk cs))"

definition data_comment_list :: "char \<Rightarrow> string option \<Rightarrow> data_state \<Rightarrow> out_event list option" where
  "data_comment_list jc msk st = comment_lines jc msk (comments st)"

text \<open>
  \<^verbatim>\<open>data_comment_get\<close>: the loop over the comments of the address, with the number still to skip, the text so
  far and the number of lines left. Only the first comment can leave its buffer of 1024 bytes.
\<close>

fun comment_get_loop :: "nat \<Rightarrow> int \<Rightarrow> string option \<Rightarrow> int \<Rightarrow> string list \<Rightarrow> string option option" where
  "comment_get_loop margin skip str lines [] = Some str"
| "comment_get_loop margin skip str lines (c # cs) =
     (if skip \<noteq> 0 then comment_get_loop margin (skip - 1) str lines cs
      else
        let line = replicate margin CHR '' '' @ ''; '' @ c @ nl in
        case str of
          None \<Rightarrow> if length line \<ge> 1024 then None
                  else if lines - 1 = 0 then Some (Some line) else comment_get_loop margin skip (Some line) (lines - 1) cs
        | Some s \<Rightarrow> if lines - 1 = 0 then Some (Some (s @ line)) else comment_get_loop margin skip (Some (s @ line)) (lines - 1) cs)"

definition comments_at :: "ut64 \<Rightarrow> data_state \<Rightarrow> string list" where
  "comments_at offset st = map cmt_comment (filter (\<lambda>c. cmt_offset c = offset) (comments st))"

definition data_comment_get :: "(string \<Rightarrow> ut64) \<Rightarrow> ut64 \<Rightarrow> int \<Rightarrow> data_state \<Rightarrow> string option option" where
  "data_comment_get cfgi offset lines st =
     (let m = sint (ucast (cfgi ''asm.cmtmargin'') :: ut32);
          margin = nat (if m < 0 then 0 else if m > 80 then 80 else m);
          l0 = sint (ucast (cfgi ''asm.cmtlines'') :: ut32);
          l1 = (if l0 < 0 then 0 else l0);
          i = int (length (comments_at offset st));
          skip = (if l1 \<noteq> 0 \<and> i > l1 then i - l1 else l1)
      in comment_get_loop margin skip None lines (comments_at offset st))"

definition data_printd ::
  "config_t \<Rightarrow> (string \<Rightarrow> ut64) \<Rightarrow> int \<Rightarrow> flags_state \<Rightarrow> int \<Rightarrow> data_state \<Rightarrow> (int \<times> out_event list) option" where
  "data_printd cfg cfgi cons_lines fl delta st =
     (if \<not> c_verbose cfg then Some (0, [])
      else
        let offset = c_seek cfg + word_of_int delta in
        case data_comment_get cfgi offset (c_height cfg - cons_lines) st of
          None \<Rightarrow> None
        | Some ptr \<Rightarrow>
            let (lines, es) = (case ptr of
                None \<Rightarrow> (0, [])
              | Some t \<Rightarrow> if t = [] then (0, [])
                  else (count_if (\<lambda>c. c = CHR 0x0A) t,
                        [ConsOut (if c_color cfg then CHR 0x1B # ''[35m'' @ t @ [CHR 0x1B] @ ''[0m'' else t)]))
            in map_option (\<lambda>(n, es'). (lines + n, es @ es')) (data_xrefs_print cfg cfgi fl offset (- 1) st))"

section \<open>Types of variables\<close>

definition data_var_type_add :: "string \<Rightarrow> int \<Rightarrow> string \<Rightarrow> data_state \<Rightarrow> data_state" where
  "data_var_type_add name sz fmt st =
     st\<lparr>vartypes := \<lparr>vt_name = strncpy128 name, vt_fmt = strncpy128 fmt, vt_size = word_of_int sz\<rparr> # vartypes st\<rparr>"

text \<open>\<^verbatim>\<open>strcmp\<close> with a stored name runs past its array when the 128 characters agree and no terminator follows.\<close>

definition name_is :: "string \<Rightarrow> var_type_t \<Rightarrow> bool option" where
  "name_is name d = (if \<not> terminated (vt_name d) \<and> take 128 name = vt_name d then None else Some (vt_name d = name))"

fun type_del_loop :: "string \<Rightarrow> var_type_t list \<Rightarrow> (var_type_t list \<times> int) option" where
  "type_del_loop name [] = Some ([], 0)"
| "type_del_loop name (d # ds) =
     (case name_is name d of
        None \<Rightarrow> None
      | Some True \<Rightarrow> Some (ds, 1)
      | Some False \<Rightarrow> map_option (\<lambda>(r, n). (d # r, n)) (type_del_loop name ds))"

definition data_var_type_del :: "string \<Rightarrow> data_state \<Rightarrow> (data_state \<times> int) option" where
  "data_var_type_del name0 st =
     (let name = (if name0 \<noteq> [] \<and> hd name0 = CHR '' '' then tl name0 else name0)
      in map_option (\<lambda>(ds, n). (st\<lparr>vartypes := ds\<rparr>, n)) (type_del_loop name (vartypes st)))"

definition data_var_type_list :: "char \<Rightarrow> string option \<Rightarrow> data_state \<Rightarrow> out_event list option" where
  "data_var_type_list jc msk st =
     (let lines = map (\<lambda>d. vt_name d @ '' '' @ fmt_d (sint (vt_size d)) @ '' '' @ vt_fmt d @ nl) (vartypes st) in
      if \<exists>l \<in> set lines. length l \<ge> 128 then None else printf_all (filter (mask_ok jc msk) lines))"

fun type_get_loop :: "string \<Rightarrow> var_type_t list \<Rightarrow> var_type_t option option" where
  "type_get_loop name [] = Some None"
| "type_get_loop name (d # ds) =
     (case name_is name d of None \<Rightarrow> None | Some True \<Rightarrow> Some (Some d) | Some False \<Rightarrow> type_get_loop name ds)"

definition data_var_type_get :: "string \<Rightarrow> data_state \<Rightarrow> var_type_t option option" where
  "data_var_type_get name st = type_get_loop name (vartypes st)"

definition data_var_help :: "out_event list" where
  "data_var_help = [ConsOut (''Usage: Cv [name] [size] [pm-format-string]'' @ nl @
     ''  Cv int 4 d   ; define '' @ [CHR 0x27] @ ''int'' @ [CHR 0x27] @ '' type'' @ nl @
     ''  Cv- int      ; remove '' @ [CHR 0x27] @ ''int'' @ [CHR 0x27] @ '' var type'' @ nl @
     ''  Cv float 4 f'' @ nl)]"

text \<open>\<^verbatim>\<open>data_var_cmd\<close>; \<open>after\<close> is the text behind the terminator of an empty command, which is taken for the mask.\<close>

definition data_var_cmd :: "char \<Rightarrow> string \<Rightarrow> string \<Rightarrow> data_state \<Rightarrow> (data_state \<times> out_event list) option" where
  "data_var_cmd jc after str0 st =
     (let str = (if str0 \<noteq> [] \<and> hd str0 = CHR '' '' then tl str0 else str0) in
      case str of
        [] \<Rightarrow> map_option (\<lambda>es. (st, es)) (data_var_type_list jc (Some after) st)
      | c # cs \<Rightarrow>
          if c = CHR ''?'' then Some (st, data_var_help)
          else if c = CHR ''-'' then map_option (\<lambda>(st', _). (st', [])) (data_var_type_del cs st)
          else case strchr_split CHR '' '' str of
            None \<Rightarrow> Some (st, data_var_help)
          | Some (name, rest) \<Rightarrow>
              (case strchr_split CHR '' '' rest of
                 None \<Rightarrow> Some (st, data_var_help)
               | Some (n, fmt) \<Rightarrow> Some (data_var_type_add name (atoi n) fmt st, [])))"

section \<open>Painting areas\<close>

lemma data_purge_filter: "data_purge off ds = filter (\<lambda>d. \<not> covers off d) ds"
proof (induction off ds rule: data_purge.induct)
  case (1 off ds)
  have "filter (\<lambda>d. \<not> P d) (remove_first P xs) = filter (\<lambda>d. \<not> P d) xs" for P and xs :: "data_t list"
    by (induction xs) auto
  moreover have "filter (\<lambda>d. \<not> covers off d) ds = ds" if "\<not> (\<exists>d \<in> set ds. covers off d)"
    using that by (simp add: filter_id_conv)
  ultimately show ?case using 1 by (subst data_purge.simps) simp
qed

lemma find_filter: "List.find P (filter Q xs) = List.find (\<lambda>x. Q x \<and> P x) xs"
  by (induction xs) auto

lemma new_area_block:
  assumes "\<not> c_cursor_mode cfg"
  shows "d_from (new_area junk cfg off t) = off" "d_to (new_area junk cfg off t) = off + word_of_int (c_block_size cfg)"
    "d_type (new_area junk cfg off t) = t" "d_arg (new_area junk cfg off t) = []"
  using assms by (simp_all add: new_area_def Let_def)

text \<open>
  C19 \<^verbatim>\<open>data_add\<close> paints the block at an address with a type: every address of the block reads the new area, the areas that
  covered the first address are gone as a whole, and every other address reads the newest remaining area. For code
  the areas over the address are only removed.
\<close>

theorem data_add_paints:
  assumes "\<not> c_cursor_mode cfg"
  shows "data_get x (fst (data_add junk cfg off t st)) =
      (if t \<noteq> DATA_CODE \<and> off \<le> x \<and> x < off + word_of_int (c_block_size cfg) then snd (data_add junk cfg off t st)
       else List.find (\<lambda>d. \<not> covers off d \<and> covers x d) (datas st)) \<and>
    (t = DATA_CODE \<longrightarrow> (\<forall>d \<in> set (datas (fst (data_add junk cfg off t st))). \<not> covers off d)) \<and>
    (t \<noteq> DATA_CODE \<longrightarrow> map_option d_type (snd (data_add junk cfg off t st)) = Some t)"
  using assms
  by (auto simp: data_add_def data_get_def Let_def data_purge_filter find_filter covers_def new_area_block)

definition block_cfg :: config_t where
  "block_cfg = config_zero\<lparr>c_block_size := 16\<rparr>"

theorem data_add_paints_witness:
  "data_get 0x105 (fst (data_add 0 block_cfg 0x100 DATA_STR data_comment_init)) =
     snd (data_add 0 block_cfg 0x100 DATA_STR data_comment_init)"
  using data_add_paints [of block_cfg "0x105" 0 "0x100" DATA_STR data_comment_init]
  by (simp add: block_cfg_def data_types)

section \<open>Reachable states\<close>

text \<open>The operations on the lists, in any order, with any arguments.\<close>

inductive data_step :: "data_state \<Rightarrow> data_state \<Rightarrow> bool" where
  step_add: "data_step st (fst (data_add junk cfg off t st))"
| step_add_arg: "data_step st (fst (data_add_arg junk cfg off t arg st))"
| step_del: "data_step st (data_del addr t len st)"
| step_set: "data_step st (fst (data_set off t st))"
| step_set_len: "data_step st (fst (data_set_len off n st))"
| step_xrefs_add: "data_step st (fst (data_xrefs_add addr from t st))"
| step_xrefs_del: "data_step st (data_xrefs_del addr from st)"
| step_comment_add: "data_step st (data_comment_add off str st)"
| step_comment_del: "data_step st (data_comment_del off str st)"
| step_del_range: "data_del_range from to st = Some st' \<Longrightarrow> data_step st st'"
| step_var_cmd: "data_var_cmd jc after str st = Some (st', es) \<Longrightarrow> data_step st st'"

inductive_cases data_stepE: "data_step st st'"

definition data_ok :: "data_state \<Rightarrow> bool" where
  "data_ok st \<longleftrightarrow> distinct (map (\<lambda>x. (x_addr x, x_from x)) (xrefs st)) \<and>
     (\<forall>d \<in> set (datas st). length (d_arg d) \<le> 128) \<and>
     (\<forall>v \<in> set (vartypes st). length (vt_name v) \<le> 128 \<and> length (vt_fmt v) \<le> 128)"

lemma set_remove_first: "x \<in> set (remove_first P xs) \<Longrightarrow> x \<in> set xs"
  by (induction xs) (auto split: if_splits)

lemma distinct_remove_first: "distinct (map f xs) \<Longrightarrow> distinct (map f (remove_first P xs))"
  by (induction xs) (auto dest: set_remove_first)

lemma distinct_filter_map: "distinct (map f xs) \<Longrightarrow> distinct (map f (filter P xs))"
  by (induction xs) auto

lemma new_area_arg [simp]: "d_arg (new_area junk cfg off t) = []"
  by (simp add: new_area_def Let_def split: prod.splits)

lemma data_ok_add: "data_ok st \<Longrightarrow> data_ok (fst (data_add junk cfg off t st))"
  by (auto simp: data_ok_def data_add_def Let_def data_purge_filter)

lemma data_ok_add_arg: "data_ok st \<Longrightarrow> data_ok (fst (data_add_arg junk cfg off t arg st))"
  using data_ok_add [of st junk cfg off t]
  by (auto simp: data_ok_def data_add_arg_def strncpy128_def Let_def split: option.splits prod.splits)
    (metis list.set_sel(2) tl_Nil)

lemma data_ok_type_add: "data_ok st \<Longrightarrow> data_ok (data_var_type_add name sz fmt st)"
  by (simp add: data_ok_def data_var_type_add_def strncpy128_def)

lemma type_del_loop_set: "type_del_loop name ds = Some (r, n) \<Longrightarrow> set r \<subseteq> set ds"
  by (induction ds arbitrary: r) (auto split: option.splits bool.splits)

lemma data_ok_type_del: "data_var_type_del name st = Some (st', n) \<Longrightarrow> data_ok st \<Longrightarrow> data_ok st'"
  by (auto simp: data_ok_def data_var_type_del_def Let_def dest!: type_del_loop_set)

lemma data_ok_var_cmd: "data_ok st \<Longrightarrow> data_var_cmd jc after str st = Some (st', es) \<Longrightarrow> data_ok st'"
  unfolding data_var_cmd_def Let_def
  by (split list.split_asm) (simp_all split: option.splits prod.splits if_split_asm, (blast intro: data_ok_type_add data_ok_type_del)+)

lemma data_ok_step: "data_step st st' \<Longrightarrow> data_ok st \<Longrightarrow> data_ok st'"
proof (induction rule: data_step.induct)
  case (step_add st junk cfg off t)
  then show ?case by (rule data_ok_add)
next
  case (step_add_arg st junk cfg off t arg)
  then show ?case by (rule data_ok_add_arg)
next
  case (step_var_cmd jc after str st st' es)
  then show ?case by (blast intro: data_ok_var_cmd)
qed (auto simp: data_ok_def data_del_def data_set_def data_set_len_def data_xrefs_add_def data_xrefs_del_def
    data_comment_add_def data_comment_del_def data_del_range_def Let_def distinct_remove_first distinct_filter_map
    dest!: set_remove_first set_update_first split: if_splits)

lemma data_ok_reachable: "data_step\<^sup>*\<^sup>* data_comment_init st \<Longrightarrow> data_ok st"
proof (induction rule: rtranclp_induct)
  case base
  then show ?case by (simp add: data_ok_def data_comment_init_def)
next
  case (step y z)
  then show ?case by (blast intro: data_ok_step)
qed

lemma count_distinct_pairs:
  "distinct (map (\<lambda>x. (f x, g x)) xs) \<Longrightarrow> length (filter (\<lambda>x. f x = a) xs) = card {b. \<exists>x \<in> set xs. f x = a \<and> g x = b}"
proof (induction xs)
  case (Cons x xs)
  let ?B = "{b. \<exists>x \<in> set xs. f x = a \<and> g x = b}"
  have fin: "finite ?B" by (rule finite_subset [of _ "g ` set xs"]) auto
  show ?case
  proof (cases "f x = a")
    case True
    have "{b. \<exists>y \<in> set (x # xs). f y = a \<and> g y = b} = insert (g x) ?B" using True by auto
    moreover have "g x \<notin> ?B" using Cons.prems True by (auto simp: image_iff)
    ultimately show ?thesis using Cons fin True by simp
  next
    case False
    then have "{b. \<exists>y \<in> set (x # xs). f y = a \<and> g y = b} = ?B" by auto
    then show ?thesis using Cons False by simp
  qed
qed simp

text \<open>
  C20 In every state reachable by the operations no reference is recorded twice, so the \<^verbatim>\<open>int\<close> of
  \<^verbatim>\<open>data_xrefs_at\<close> counts the places that refer to an address, and every name, format and argument lies within its array.
\<close>

theorem data_reachable_invariant:
  assumes "data_step\<^sup>*\<^sup>* data_comment_init st"
  shows "data_xrefs_at addr st = sint (word_of_nat (card {from. \<exists>x \<in> set (xrefs st). x_addr x = addr \<and> x_from x = from}) :: ut32) \<and>
     distinct (map (\<lambda>x. (x_addr x, x_from x)) (xrefs st)) \<and>
     (\<forall>d \<in> set (datas st). length (d_arg d) \<le> 128) \<and>
     (\<forall>v \<in> set (vartypes st). length (vt_name v) \<le> 128 \<and> length (vt_fmt v) \<le> 128)"
  using data_ok_reachable [OF assms] count_distinct_pairs [of x_addr x_from "xrefs st" addr]
  by (simp add: data_ok_def data_xrefs_at_def count_if_def)

theorem data_reachable_invariant_witness:
  "data_xrefs_at 8 (fst (data_xrefs_add 8 4 0 data_comment_init)) =
     sint (word_of_nat (card {from. \<exists>x \<in> set (xrefs (fst (data_xrefs_add 8 4 0 data_comment_init))). x_addr x = 8 \<and> x_from x = from}) :: ut32)"
  using data_reachable_invariant [OF r_into_rtranclp [of data_step, OF step_xrefs_add], of 8 8 4 0] by blast

section \<open>Comments\<close>

lemma comments_at_append: "comments_at a (st\<lparr>comments := cs @ [c]\<rparr>) =
    comments_at a (st\<lparr>comments := cs\<rparr>) @ (if cmt_offset c = a then [cmt_comment c] else [])"
  by (simp add: comments_at_def)

lemma comments_remove_first:
  "map cmt_comment (filter (\<lambda>c. cmt_offset c = a) (remove_first (\<lambda>c. cmt_offset c = off \<and> cmt_comment c = str) cs)) =
    (if a = off then remove1 str (map cmt_comment (filter (\<lambda>c. cmt_offset c = a) cs))
     else map cmt_comment (filter (\<lambda>c. cmt_offset c = a) cs))"
  by (induction cs) auto

definition comment_line :: "nat \<Rightarrow> string \<Rightarrow> string" where
  "comment_line margin c = replicate margin CHR '' '' @ ''; '' @ c @ nl"

definition shown_lines :: "int \<Rightarrow> string list \<Rightarrow> string list" where
  "shown_lines lines cs = (if lines > 0 then take (nat lines) cs else cs)"

lemma shown_lines_Cons: "shown_lines lines (c # cs) = c # (if lines = 1 then [] else shown_lines (lines - 1) cs)"
proof (cases "lines > 0")
  case True
  then have "nat lines = Suc (nat (lines - 1))" by simp
  with True show ?thesis by (auto simp: shown_lines_def)
qed (simp add: shown_lines_def)

lemma comment_get_loop_more:
  "comment_get_loop margin 0 (Some s) lines cs =
     Some (Some (s @ concat (map (comment_line margin) (shown_lines lines cs))))"
proof (induction cs arbitrary: s lines)
  case (Cons c cs)
  then show ?case by (simp add: Let_def shown_lines_Cons comment_line_def)
qed (simp add: shown_lines_def)

lemma comment_get_loop_skip:
  "0 \<le> k \<Longrightarrow> comment_get_loop margin k None lines cs = comment_get_loop margin 0 None lines (drop (nat k) cs)"
proof (induction cs arbitrary: k)
  case (Cons c cs)
  show ?case
  proof (cases "k = 0")
    case False
    then have "nat k = Suc (nat (k - 1))" using Cons.prems by simp
    with False Cons show ?thesis by simp
  qed simp
qed simp

lemma comment_get_loop_all:
  assumes "\<forall>c \<in> set cs. margin + length c < 1021"
  shows "comment_get_loop margin 0 None lines cs =
     Some (if cs = [] then None else Some (concat (map (comment_line margin) (shown_lines lines cs))))"
proof (cases cs)
  case (Cons c ds)
  with assms show ?thesis by (simp add: Let_def shown_lines_Cons comment_line_def [symmetric] comment_get_loop_more)
    (simp add: comment_line_def)
qed simp

lemma small_margin: "m \<le> 80 \<Longrightarrow> sint (ucast (word_of_nat m :: ut64) :: ut32) = int m"
proof -
  assume "m \<le> 80"
  then have "uint (ucast (word_of_nat m :: ut64) :: ut32) = int m" by (simp add: unsigned_ucast_eq unsigned_of_nat take_bit_eq_mod)
  then show ?thesis using \<open>m \<le> 80\<close> by (simp add: sint_uint signed_take_bit_int_eq_self)
qed

text \<open>
  Comments: adding a comment at an address moves it to the end of the comments there, once, leaves the comments of other
  addresses, and \<^verbatim>\<open>data_comment_get\<close> then gives exactly the lines of the address in order, cut to the lines left.
\<close>

theorem comment_add_get:
  assumes "str \<noteq> []" "hd str \<noteq> CHR ''*''" "last str \<noteq> CHR 0x0A"
    and "cfgi ''asm.cmtmargin'' = word_of_nat m" "m \<le> 80" and "cfgi ''asm.cmtlines'' = 0"
    and "\<forall>c \<in> set (comments_at off st) \<union> {str}. length c < 900"
  shows "data_comment_get cfgi off lines (data_comment_add off str st) =
      Some (Some (concat (map (comment_line m) (shown_lines lines (remove1 str (comments_at off st) @ [str]))))) \<and>
    (\<forall>a. a \<noteq> off \<longrightarrow> comments_at a (data_comment_add off str st) = comments_at a st)"
proof -
  let ?cs = "remove1 str (comments_at off st) @ [str]"
  have at: "comments_at a (data_comment_add off str st) = (if a = off then ?cs else comments_at a st)" for a
    using assms(1-3) comments_remove_first [of a off str "comments st"]
    by (simp add: data_comment_add_def strnull_def Let_def data_comment_del_def comments_at_def)
  have m: "sint (ucast (word_of_nat m :: ut64) :: ut32) = int m"
    using assms(5) by (rule small_margin)
  have l: "\<forall>c \<in> set ?cs. m + length c < 1021" using assms(5,7) set_remove1_subset [of str "comments_at off st"] by fastforce
  show ?thesis
    using at assms(5) comment_get_loop_all [OF l, of lines]
    by (simp add: data_comment_get_def Let_def assms(4,6) m)
qed


theorem comment_add_get_witness:
  "data_comment_get (\<lambda>v. if v = ''asm.cmtmargin'' then 2 else 0) 8 0 (data_comment_add 8 ''b''
     (data_comment_add 8 ''a'' data_comment_init)) = Some (Some (''  ; a'' @ nl @ ''  ; b'' @ nl))"
proof -
  have e: "comments_at 8 (data_comment_add 8 ''a'' data_comment_init) = [''a'']"
    by (simp add: data_comment_add_def data_comment_init_def strnull_def data_comment_del_def comments_at_def)
  then show ?thesis
    using comment_add_get [of "''b''" "\<lambda>v. if v = ''asm.cmtmargin'' then 2 else 0" 2 8 "data_comment_add 8 ''a'' data_comment_init" 0]
    by (simp add: shown_lines_def comment_line_def numeral_2_eq_2)
qed

text \<open>When \<^verbatim>\<open>asm.cmtlines\<close> is at least the number of comments, they are all skipped.\<close>

lemma cmtlines_hides_all:
  assumes "cfgi ''asm.cmtlines'' = word_of_nat k" "k \<le> 80" "k \<noteq> 0" "length (comments_at off st) \<le> k"
  shows "data_comment_get cfgi off lines st = Some None"
  using assms comment_get_loop_skip [of "int k" _ lines "comments_at off st"]
  by (simp add: data_comment_get_def Let_def small_margin)

text \<open>A comment that starts with an asterisk deletes the others of its address; one that ends in a newline is stored again.\<close>

lemma comment_asterisk: "str \<noteq> [] \<Longrightarrow> hd str = CHR ''*'' \<Longrightarrow> last str \<noteq> CHR 0x0A \<Longrightarrow> comments_at off (data_comment_add off str st) = [str]"
  by (simp add: data_comment_add_def strnull_def data_comment_del_def comments_at_def)

lemma comment_newline_twice:
  "comments_at 8 (data_comment_add 8 (''a'' @ nl) (data_comment_add 8 (''a'' @ nl) data_comment_init)) = [''a'', ''a'']"
  by (simp add: data_comment_add_def data_comment_init_def strnull_def data_comment_del_def comments_at_def)

text \<open>A reference whose two ends lie in the range is unlinked twice.\<close>

lemma del_range_twice:
  "x \<in> set (xrefs st) \<Longrightarrow> from \<le> x_addr x \<Longrightarrow> x_addr x \<le> to \<Longrightarrow> from \<le> x_from x \<Longrightarrow> x_from x \<le> to \<Longrightarrow>
   data_del_range from to st = None"
  by (auto simp: data_del_range_def Let_def)

text \<open>A type whose name has 128 characters or more is stored without terminator: asking for it or removing it reads past the array.\<close>

lemma type_unterminated:
  assumes "length name \<ge> 128" and "hd name \<noteq> CHR '' ''"
  shows "data_var_type_get name (data_var_type_add name sz fmt st) = None"
    "data_var_type_del name (data_var_type_add name sz fmt st) = None"
  using assms
  by (simp_all add: data_var_type_get_def data_var_type_del_def data_var_type_add_def name_is_def terminated_def strncpy128_def)

lemma struct_unterminated:
  assumes "length a \<ge> 128"
  shows "data_list jc cfg delta fl msk (fst (data_add_arg junk cfg off DATA_STRUCT (Some a) st)) = None"
  using assms
  by (simp add: data_list_def data_add_arg_def data_add_def data_line_def terminated_def strncpy128_def Let_def data_types new_area_def split: prod.splits)

end
