(* ===== verification/Aop.thy ===== *)
theory Aop
  imports Data Rio "HOL-Library.Monad_Syntax"
begin

text \<open>
  The analysis of one opcode (\<^verbatim>\<open>struct aop_t\<close> of \<^verbatim>\<open>src/src/code.h\<close> and the functions \<^verbatim>\<open>arch_*_aop\<close> under \<^verbatim>\<open>src/src/arch\<close>): its
  type, where it jumps and falls through, what it refers to. The functions share the state they read or
  change: the core, the cross references, the registers of the x86 emulation and the last loop of the
  brainfuck analyser. \<open>None\<close> is a read behind the bytes.
\<close>

section \<open>State\<close>

datatype aop_type = AOP_TYPE_JMP | AOP_TYPE_UJMP | AOP_TYPE_CJMP | AOP_TYPE_CALL | AOP_TYPE_RCALL | AOP_TYPE_REP
  | AOP_TYPE_RET | AOP_TYPE_ILL | AOP_TYPE_UNK | AOP_TYPE_NOP | AOP_TYPE_MOV | AOP_TYPE_TRAP | AOP_TYPE_SWI
  | AOP_TYPE_UPUSH | AOP_TYPE_PUSH | AOP_TYPE_POP | AOP_TYPE_CMP | AOP_TYPE_ADD | AOP_TYPE_SUB | AOP_TYPE_MUL
  | AOP_TYPE_DIV | AOP_TYPE_SHR | AOP_TYPE_SHL | AOP_TYPE_OR | AOP_TYPE_AND | AOP_TYPE_XOR | AOP_TYPE_NOT
  | AOP_TYPE_STORE | AOP_TYPE_LOAD

datatype aop_stack = AOP_STACK_NOP | AOP_STACK_INCSTACK | AOP_STACK_LOCAL_GET | AOP_STACK_LOCAL_SET | AOP_STACK_ARG_GET
  | AOP_STACK_ARG_SET

record aop_t =
  a_type :: aop_type
  a_stackop :: aop_stack
  a_length :: int
  a_eob :: bool
  a_jump :: ut64
  a_fail :: ut64
  a_ref :: ut64
  a_value :: ut64

record 'w an_state =
  an_core :: "'w core"
  an_data :: data_state
  an_x86_regs :: "ut64 list"
  last_loop :: ut64
  arm_mode :: int

type_synonym 'w aop_fun = "ut64 \<Rightarrow> u8 list \<Rightarrow> aop_t \<Rightarrow> 'w an_state \<Rightarrow> ('w an_state \<times> aop_t \<times> int) option"

text \<open>After the \<^verbatim>\<open>memset\<close>; the first type is the jump.\<close>

definition aop_zero :: aop_t where
  "aop_zero = \<lparr>a_type = AOP_TYPE_JMP, a_stackop = AOP_STACK_NOP, a_length = 0, a_eob = False, a_jump = 0, a_fail = 0, a_ref = 0, a_value = 0\<rparr>"

definition aop_unk :: aop_t where
  "aop_unk = aop_zero\<lparr>a_type := AOP_TYPE_UNK\<rparr>"

text \<open>Bytes as the C expressions read them: a signed character, and four bytes in memory order as an \<^verbatim>\<open>int\<close>, widened to 64 bits.\<close>

definition sx8 :: "u8 \<Rightarrow> ut64" where
  "sx8 b = scast b"

definition le32 :: "u8 list \<Rightarrow> ut32" where
  "le32 bs = ucast (bs ! 0) + push_bit 8 (ucast (bs ! 1)) + push_bit 16 (ucast (bs ! 2)) + push_bit 24 (ucast (bs ! 3))"

definition sx32 :: "u8 list \<Rightarrow> ut64" where
  "sx32 bs = scast (le32 bs)"

section \<open>x86\<close>

text \<open>
  \<^verbatim>\<open>arch_x86_aop\<close>, by groups of first bytes; \<open>b\<close> are the bytes, \<open>a\<close> the address. The lengths set on the way are
  replaced at the end by the one of the disassembler, the argument \<open>ud_len\<close>.
\<close>

definition x86_local_get :: "u8 list \<Rightarrow> aop_t \<Rightarrow> aop_t" where
  "x86_local_get b aop =
     (if b ! 1 \<in> {0x45, 0x46, 0x55} then aop\<lparr>a_ref := - sx8 (b ! 2), a_stackop := AOP_STACK_LOCAL_GET\<rparr>
      else if b ! 1 = 0x95 then
        (if b ! 2 = 0xe0 then aop\<lparr>a_ref := - sx32 (drop 3 b), a_stackop := AOP_STACK_LOCAL_GET\<rparr> else aop)
      else if b ! 1 = 0xbd then aop\<lparr>a_ref := - sx32 (drop 2 b), a_stackop := AOP_STACK_LOCAL_GET\<rparr>
      else aop)"

definition x86_local_set :: "u8 list \<Rightarrow> aop_t \<Rightarrow> aop_t" where
  "x86_local_set b aop =
     (if b ! 1 \<in> {0x45, 0x4d, 0x55} then aop\<lparr>a_stackop := AOP_STACK_LOCAL_SET, a_ref := - sx8 (b ! 2)\<rparr>
      else if b ! 1 = 0x85 then aop\<lparr>a_stackop := AOP_STACK_LOCAL_SET, a_ref := - sx32 (drop 2 b)\<rparr>
      else if b ! 1 = 0x75 then aop\<lparr>a_stackop := AOP_STACK_LOCAL_GET, a_ref := ucast (b ! 2)\<rparr>
      else aop)\<lparr>a_type := AOP_TYPE_MOV, a_length := 2\<rparr>"

definition x86_0f :: "ut64 \<Rightarrow> u8 list \<Rightarrow> aop_t \<Rightarrow> aop_t" where
  "x86_0f a b aop =
     (if b ! 1 = 0xbe then aop\<lparr>a_ref := - sx8 (b ! 3), a_stackop := AOP_STACK_LOCAL_GET\<rparr>
      else if b ! 1 = 0x31 then aop\<lparr>a_eob := False\<rparr>
      else if 0x18 \<le> b ! 1 \<and> b ! 1 \<le> 0x1f then aop\<lparr>a_type := AOP_TYPE_NOP, a_length := 3\<rparr>
      else if 0x80 \<le> b ! 1 \<and> b ! 1 \<le> 0x8f then
        aop\<lparr>a_type := AOP_TYPE_CJMP, a_jump := a + 6 + sx32 (drop 2 b), a_fail := a + 6, a_length := 6, a_eob := True\<rparr>
      else aop)"

definition x86_ff :: "ut64 list \<Rightarrow> ut64 \<Rightarrow> u8 list \<Rightarrow> aop_t \<Rightarrow> aop_t" where
  "x86_ff regs a b aop =
     (let c = b ! 1; reg = (\<lambda>base. regs ! (unat c - base)) in
      if c = 0x75 then aop\<lparr>a_type := AOP_TYPE_PUSH, a_stackop := AOP_STACK_ARG_GET, a_ref := sx8 (b ! 2)\<rparr>
      else if c = 0x45 then aop\<lparr>a_type := AOP_TYPE_ADD, a_stackop := AOP_STACK_LOCAL_SET, a_ref := - sx8 (b ! 2)\<rparr>
      else if 0x50 \<le> c \<and> c \<le> 0x6f then aop\<lparr>a_type := AOP_TYPE_UJMP, a_eob := True\<rparr>
      else if 0xd0 \<le> c \<and> c \<le> 0xd7 then
        aop\<lparr>a_type := AOP_TYPE_CALL, a_length := 2, a_eob := True, a_jump := reg 0xd0, a_fail := a + 2\<rparr>
      else if 0xd8 \<le> c \<and> c \<le> 0xdf then
        aop\<lparr>a_type := AOP_TYPE_CALL, a_length := 2, a_eob := True, a_jump := reg 0xd8, a_fail := a + 2\<rparr>
      else if 0xe0 \<le> c \<and> c \<le> 0xe7 then aop\<lparr>a_type := AOP_TYPE_UJMP, a_length := 2, a_jump := reg 0xe0, a_eob := True\<rparr>
      else if 0xe8 \<le> c \<and> c \<le> 0xef then aop\<lparr>a_type := AOP_TYPE_UJMP, a_length := 2, a_jump := reg 0xe8, a_eob := True\<rparr>
      else if 0xf0 \<le> c \<and> c \<le> 0xf7 then aop\<lparr>a_type := AOP_TYPE_UPUSH, a_ref := ucast (b ! 0 - 0xf0)\<rparr>
      else aop)"

definition x86_83 :: "u8 list \<Rightarrow> aop_t \<Rightarrow> aop_t" where
  "x86_83 b aop =
     (let c = b ! 1 in
      if c = 0xe4 then aop\<lparr>a_value := ucast (b ! 2), a_type := AOP_TYPE_AND\<rparr>
      else if c = 0xc4 then aop\<lparr>a_value := - ucast (b ! 2), a_stackop := AOP_STACK_INCSTACK\<rparr>
      else if c = 0xec then aop\<lparr>a_value := ucast (b ! 2), a_stackop := AOP_STACK_INCSTACK\<rparr>
      else if c = 0xbd then
        (if b ! 2 = 0xe0 then
           aop\<lparr>a_stackop := (if sint (b ! 2) > 0 then AOP_STACK_ARG_GET else AOP_STACK_LOCAL_GET),
               a_value := sx32 (drop 3 b), a_type := AOP_TYPE_CMP\<rparr>
         else aop)
      else if c = 0x7d then
        (if sint (b ! 2) > 0 then aop\<lparr>a_stackop := AOP_STACK_ARG_GET, a_value := sx8 (b ! 2), a_type := AOP_TYPE_CMP\<rparr>
         else aop\<lparr>a_stackop := AOP_STACK_LOCAL_GET, a_value := - sx8 (b ! 2), a_type := AOP_TYPE_CMP\<rparr>)
      else aop)"

definition x86_c7 :: "u8 list \<Rightarrow> aop_t \<Rightarrow> aop_t" where
  "x86_c7 b aop =
     (if b ! 1 = 0x85 then aop\<lparr>a_stackop := AOP_STACK_LOCAL_SET, a_ref := sx32 (drop 2 b)\<rparr>
      else if b ! 1 = 0x45 then aop\<lparr>a_stackop := AOP_STACK_LOCAL_SET, a_ref := - sx8 (b ! 2)\<rparr>
      else if b ! 1 = 0x04 then aop\<lparr>a_ref := sx32 (drop 3 b)\<rparr>
      else aop)\<lparr>a_type := AOP_TYPE_STORE\<rparr>"

definition x86_decode :: "ut64 list \<Rightarrow> ut64 \<Rightarrow> u8 list \<Rightarrow> aop_t" where
  "x86_decode regs a b =
     (let c = b ! 0; aop = aop_unk in
      if c \<in> {0x8a, 0x8b, 0x03} then x86_local_get b aop
      else if c \<in> {0x88, 0x89} then x86_local_set b aop
      else if c = 0xf4 then aop\<lparr>a_type := AOP_TYPE_RET, a_length := 1, a_eob := True\<rparr>
      else if c \<in> {0xc3, 0xc2, 0xcb, 0xcf} then aop\<lparr>a_type := AOP_TYPE_RET, a_eob := True\<rparr>
      else if c = 0x3b then aop\<lparr>a_ref := - sx8 (b ! 2), a_stackop := AOP_STACK_LOCAL_GET, a_type := AOP_TYPE_CMP, a_length := 2\<rparr>
      else if c \<in> {0x39, 0x3c, 0x3d, 0x85} then aop\<lparr>a_type := AOP_TYPE_CMP, a_length := 2\<rparr>
      else if c = 0x90 then aop\<lparr>a_type := AOP_TYPE_NOP, a_length := 1\<rparr>
      else if c = 0x0f then x86_0f a b aop
      else if c = 0xcc then aop\<lparr>a_eob := True, a_length := 1, a_type := AOP_TYPE_SWI\<rparr>
      else if c = 0xf1 then aop\<lparr>a_length := 1, a_type := AOP_TYPE_SWI\<rparr>
      else if 0xb8 \<le> c \<and> c \<le> 0xbf then aop\<lparr>a_type := AOP_TYPE_MOV, a_ref := sx32 (drop 1 b)\<rparr>
      else if c = 0xcd then aop\<lparr>a_length := 2, a_type := AOP_TYPE_SWI\<rparr>
      else if c = 0xe8 then aop\<lparr>a_type := AOP_TYPE_CALL, a_length := 5, a_jump := a + 5 + sx32 (drop 1 b), a_fail := a + 5\<rparr>
      else if c = 0xe9 then
        aop\<lparr>a_type := AOP_TYPE_JMP, a_length := 5, a_jump := a + 5 + sx32 (drop 1 b), a_fail := 0, a_eob := True\<rparr>
      else if c = 0xeb then aop\<lparr>a_type := AOP_TYPE_JMP, a_length := 2, a_jump := a + (sx8 (b ! 1) + 2), a_fail := 0, a_eob := True\<rparr>
      else if c \<in> {0xf2, 0xf3} then aop\<lparr>a_type := AOP_TYPE_REP, a_jump := 0, a_fail := 0\<rparr>
      else if c = 0xff then x86_ff regs a b aop
      else if 0x50 \<le> c \<and> c \<le> 0x59 then aop\<lparr>a_type := AOP_TYPE_UPUSH, a_ref := ucast (c - 0x50)\<rparr>
      else if 0x5a \<le> c \<and> c \<le> 0x5f then aop\<lparr>a_type := AOP_TYPE_POP, a_length := 1\<rparr>
      else if c = 0x68 then aop\<lparr>a_type := AOP_TYPE_PUSH, a_ref := sx32 (drop 1 b)\<rparr>
      else if c = 0x81 then
        (if b ! 1 = 0xec then aop\<lparr>a_value := sx32 (drop 2 b), a_stackop := AOP_STACK_INCSTACK\<rparr> else aop\<lparr>a_type := AOP_TYPE_ADD\<rparr>)
      else if c = 0x83 then x86_83 b aop
      else if c = 0x8d then
        (if b ! 1 = 0x85 then aop\<lparr>a_ref := - sx32 (drop 2 b), a_stackop := AOP_STACK_LOCAL_GET\<rparr> else aop)\<lparr>a_type := AOP_TYPE_MOV\<rparr>
      else if c = 0xc7 then x86_c7 b aop
      else if c = 0x82 then aop\<lparr>a_type := AOP_TYPE_ADD\<rparr>
      else if c = 0x29 then aop\<lparr>a_type := AOP_TYPE_SUB\<rparr>
      else if c = 0x31 then aop\<lparr>a_type := AOP_TYPE_XOR\<rparr>
      else if c = 0x32 then aop\<lparr>a_type := AOP_TYPE_AND\<rparr>
      else if c = 0xa1 then aop\<lparr>a_type := AOP_TYPE_MOV\<rparr>
      else if 0x70 \<le> c \<and> c \<le> 0x7f then
        aop\<lparr>a_type := AOP_TYPE_CJMP, a_length := 2, a_jump := a + sx8 (b ! 1) + 2, a_fail := a + 2, a_eob := True\<rparr>
      else aop)"

text \<open>The load of \<^verbatim>\<open>eax\<close>: the four bytes read replace the low half of the register, the bytes not read stay.\<close>

definition put_low32 :: "u8 list \<Rightarrow> ut64 \<Rightarrow> ut64" where
  "put_low32 bytes v =
     (let low = (\<lambda>i. if i < length bytes then bytes ! i else ucast (drop_bit (8 * i) v)) in
      push_bit 32 (drop_bit 32 v) OR ucast (le32 (map low [0..<4])))"

definition arch_x86_aop :: "'w io_env \<Rightarrow> (ut64 \<Rightarrow> u8 list \<Rightarrow> int) \<Rightarrow> 'w aop_fun" where
  "arch_x86_aop env ud_len a b aop0 s =
     (if length b < 7 \<or> length (an_x86_regs s) < 8 then None
      else
        let aop = (x86_decode (an_x86_regs s) a b)\<lparr>a_length := ud_len a b\<rparr> in
        if b ! 0 = 0xa1 then
          (let eax = a + sx32 (drop 1 b) in
           map_option (\<lambda>(st, bytes, r). (s\<lparr>an_core := st, an_x86_regs := (an_x86_regs s)[0 := put_low32 bytes eax]\<rparr>, aop, a_length aop))
             (radare_read_at env eax 4 (an_core s)))
        else Some (s, aop, a_length aop))"

section \<open>ARM\<close>

definition ARM_DTX_LOAD :: ut32 where "ARM_DTX_LOAD = 0x100000"

definition disarm_branch_offset :: "ut32 \<Rightarrow> ut32 \<Rightarrow> ut32" where
  "disarm_branch_offset pc insoff =
     (let add = push_bit 2 insoff in (if add AND 0x02000000 = 0x02000000 then add OR 0xFC000000 else add) + pc + 8)"

definition anal_is_B :: "ut32 \<Rightarrow> bool" where
  "anal_is_B inst \<longleftrightarrow> inst AND 0x0E000000 = 0x0a000000"

definition anal_is_BL :: "ut32 \<Rightarrow> bool" where
  "anal_is_BL inst \<longleftrightarrow> anal_is_B inst \<and> inst AND 0x01000000 = 0x01000000"

definition anal_is_return :: "ut32 \<Rightarrow> bool" where
  "anal_is_return inst \<longleftrightarrow> inst AND (0x0E000000 OR 0x100000 OR 0x8000) = 0x08000000 OR 0x100000 OR 0x8000"

text \<open>The test for an unknown jump compares constants only.\<close>

definition anal_is_unkjmp :: "ut32 \<Rightarrow> bool" where
  "anal_is_unkjmp inst \<longleftrightarrow> (0xF000 :: ut32) = ARM_DTX_LOAD OR 0x04000000 OR 0xF000"

definition anal_is_condAL :: "ut32 \<Rightarrow> bool" where
  "anal_is_condAL inst \<longleftrightarrow> inst AND 0xf0000000 = 0xe0000000"

definition anal_is_exitpoint :: "ut32 \<Rightarrow> bool" where
  "anal_is_exitpoint inst \<longleftrightarrow> anal_is_B inst \<or> anal_is_return inst \<or> anal_is_unkjmp inst"

definition arm_data :: "'w io_env \<Rightarrow> ut64 \<Rightarrow> u8 list \<Rightarrow> 'w an_state \<Rightarrow> ('w an_state \<times> aop_t) option" where
  "arm_data env a b s =
     (let code = le32 b;
          aop1 = (if b ! 3 = 0xe2 \<and> b ! 2 = 0x8d \<and> b ! 1 = 0xd0
                  then aop_unk\<lparr>a_type := AOP_TYPE_ADD, a_stackop := AOP_STACK_INCSTACK, a_value := - ucast (b ! 0)\<rparr> else aop_unk)
      in
      if b ! 3 = 0xe2 \<and> b ! 2 = 0x4d \<and> b ! 1 = 0xd0 then
        Some (s, aop1\<lparr>a_type := AOP_TYPE_SUB, a_stackop := AOP_STACK_INCSTACK, a_value := ucast (b ! 0)\<rparr>)
      else if b ! 3 = 0xe2 \<and> b ! 2 = 0x4c \<and> b ! 1 = 0xb0 \<or> b ! 3 = 0xe2 \<and> b ! 2 = 0x4b \<and> b ! 1 = 0xd0 then
        Some (s, aop1\<lparr>a_type := AOP_TYPE_SUB, a_stackop := AOP_STACK_INCSTACK, a_value := - ucast (b ! 0)\<rparr>)
      else if code = 0x1eff2fe1 \<or> code = 0xe12fff1e then Some (s, aop1\<lparr>a_type := AOP_TYPE_RET, a_eob := True\<rparr>)
      else if code AND ARM_DTX_LOAD \<noteq> 0 then
        (if b ! 2 = 0x1b then Some (s, aop1\<lparr>a_type := AOP_TYPE_MOV, a_stackop := AOP_STACK_LOCAL_GET, a_ref := ucast (b ! 0)\<rparr>)
         else
           let oaddr = (ucast (ucast (a + 8 + ucast (b ! 0)) :: ut32) :: ut64) in
           case radare_read_at env oaddr 4 (an_core s) of
             None \<Rightarrow> None
           | Some (st, bytes, r) \<Rightarrow>
               if r = 4 then
                 (let ref = sx32 (map (\<lambda>i. if i < length bytes then bytes ! i else 0) [0..<4]) in
                  Some (s\<lparr>an_core := st, an_data := fst (data_xrefs_add oaddr ref 1 (an_data s))\<rparr>,
                        aop1\<lparr>a_type := AOP_TYPE_MOV, a_ref := ref\<rparr>))
               else Some (s\<lparr>an_core := st\<rparr>, aop1\<lparr>a_type := AOP_TYPE_MOV, a_ref := 0\<rparr>))
      else if b ! 3 = 0xe5 then Some (s, aop1\<lparr>a_type := AOP_TYPE_STORE, a_stackop := AOP_STACK_LOCAL_SET, a_ref := ucast (b ! 0)\<rparr>)
      else Some (s, aop1))"

definition arm_exit :: "ut64 \<Rightarrow> ut32 \<Rightarrow> aop_t \<Rightarrow> aop_t" where
  "arm_exit a code aop =
     (if \<not> anal_is_exitpoint code then aop
      else
        let dst = ucast (disarm_branch_offset (ucast a) (code AND 0x00FFFFFF)); aop1 = aop\<lparr>a_ref := 0, a_eob := True\<rparr> in
        if anal_is_BL code then
          (if anal_is_B code then aop1\<lparr>a_type := AOP_TYPE_CALL, a_jump := dst, a_fail := a + 4\<rparr> else aop1\<lparr>a_type := AOP_TYPE_RET\<rparr>)
        else if anal_is_B code then
          (if anal_is_condAL code then aop1\<lparr>a_type := AOP_TYPE_JMP, a_jump := dst\<rparr>
           else aop1\<lparr>a_type := AOP_TYPE_CJMP, a_jump := dst, a_fail := a + 4\<rparr>)
        else aop1\<lparr>a_type := AOP_TYPE_UJMP\<rparr>)"

definition arch_arm_aop :: "'w io_env \<Rightarrow> 'w aop_fun" where
  "arch_arm_aop env a b aop0 s =
     (if length b < 4 then None
      else map_option (\<lambda>(s', aop). (s', arm_exit a (le32 b) aop, if arm_mode s' = 16 then 2 else 4)) (arm_data env a b s))"

section \<open>PowerPC, SPARC, 68000 and brainfuck\<close>

definition arch_ppc_aop :: "'w aop_fun" where
  "arch_ppc_aop a b aop0 s =
     (if length b < 4 then None
      else
        let opcode = unat (drop_bit 3 (b ! 0 AND 0xf8));
            baddr = (scast ((push_bit 8 (ucast (b ! 2)) OR ucast (b ! 3 AND 0xfc)) :: ut16) :: ut64);
            aa = (b ! 3 AND 2 \<noteq> 0); lk = (b ! 3 AND 1 \<noteq> 0);
            aop = aop_zero\<lparr>a_type := AOP_TYPE_NOP, a_length := 4\<rparr>;
            aop' =
              (if opcode = 11 then aop\<lparr>a_type := AOP_TYPE_CMP\<rparr>
               else if opcode = 9 then
                 (if b ! 0 = 0x4e then aop
                  else (let j = aop\<lparr>a_jump := if aa then baddr else a + baddr\<rparr> in if lk then j\<lparr>a_fail := a + 4\<rparr> else j))\<lparr>a_eob := True\<rparr>
               else if opcode = 6 then aop\<lparr>a_type := AOP_TYPE_JMP, a_jump := if aa then baddr else a + baddr + 4, a_eob := True\<rparr>
               else if opcode = 7 then aop\<lparr>a_type := AOP_TYPE_SWI\<rparr>
               else if opcode = 8 then
                 aop\<lparr>a_type := AOP_TYPE_CJMP, a_jump := if aa then baddr else a + baddr + 4, a_fail := a + 4, a_eob := True\<rparr>
               else if opcode = 19 then
                 (let r = aop\<lparr>a_type := AOP_TYPE_RET\<rparr> in if lk then r\<lparr>a_jump := 0xFFFFFFFF, a_fail := a + 4\<rparr> else r)\<lparr>a_eob := True\<rparr>
               else aop)
        in Some (s, aop', 4))"

definition arch_sparc_aop :: "'w aop_fun" where
  "arch_sparc_aop a b aop0 s = Some (s, aop_unk\<lparr>a_length := 4\<rparr>, 4)"

definition arch_m68k_aop :: "'w aop_fun" where
  "arch_m68k_aop a b aop0 s = Some (s, aop0, 4)"

text \<open>
  The run of equal bytes at the start, at most 256 steps, \<open>None\<close> when the bytes end before it does: both bytes are read before the number of
  steps is tested.
\<close>

fun bf_run :: "nat \<Rightarrow> u8 list \<Rightarrow> nat option" where
  "bf_run n (x # y # bs) =
     (if x = y then (case n of 0 \<Rightarrow> Some 0 | Suc m \<Rightarrow> map_option Suc (bf_run m (y # bs))) else Some 0)"
| "bf_run n bs = None"

definition arch_bf_aop :: "'w aop_fun" where
  "arch_bf_aop a b aop0 s =
     (case b of
        [] \<Rightarrow> None
      | c # cs \<Rightarrow>
          let ch = (\<lambda>x :: char. c = of_char x);
              s' = (if ch (CHR ''['') then s\<lparr>last_loop := a\<rparr> else s);
              aop = (if ch (CHR ''['') then aop_unk\<lparr>a_type := AOP_TYPE_TRAP\<rparr>
                     else if ch (CHR '']'') then aop_unk\<lparr>a_type := AOP_TYPE_CJMP, a_jump := last_loop s, a_fail := a + 1, a_eob := True\<rparr>
                     else if ch (CHR ''>'') \<or> ch (CHR ''<'') \<or> ch (CHR ''+'') \<or> ch (CHR ''-'') then aop_unk
                     else if ch (CHR ''.'') \<or> ch (CHR '','') \<or> c = 0 then aop_unk\<lparr>a_type := AOP_TYPE_TRAP\<rparr>
                     else aop_unk\<lparr>a_type := AOP_TYPE_NOP\<rparr>)
          in map_option (\<lambda>i. let n = (if i < 1 then 1 else int i + 1) in (s', aop\<lparr>a_length := n\<rparr>, n)) (bf_run 256 b))"

section \<open>Java\<close>

text \<open>The sizes of the opcodes (\<^verbatim>\<open>java_ops\<close> of \<^verbatim>\<open>src/src/rabin/javasm.c\<close>); the last entry of a byte decides.\<close>

definition java_ops :: "(u8 \<times> int) list" where
  "java_ops =
   [(0x01, 1), (0x19, 2), (0x2a, 1), (0x2b, 1), (0x2c, 1), (0x2d, 1), (0xb0, 1), (0xbe, 1), (0x3a, 2), 
    (0x4b, 1), (0x4c, 1), (0x4d, 1), (0x4e, 1), (0xbf, 1), (0x33, 1), (0x54, 1), (0x10, 2), (0x34, 1), 
    (0x55, 1), (0xc0, 3), (0x90, 1), (0x8e, 1), (0x8f, 1), (0x63, 1), (0x31, 1), (0x52, 1), (0x98, 1), 
    (0x97, 1), (0x0e, 1), (0x0f, 1), (0x6f, 1), (0x18, 2), (0x26, 1), (0x27, 1), (0x28, 1), (0x29, 1), 
    (0x6b, 1), (0x77, 1), (0x73, 1), (0xaf, 1), (0x39, 2), (0x47, 1), (0x48, 1), (0x49, 1), (0x4a, 1), 
    (0x67, 1), (0x59, 1), (0x5a, 1), (0x5b, 1), (0x5c, 1), (0x5d, 1), (0x5e, 1), (0x8d, 1), (0x8b, 1), 
    (0x8c, 1), (0x62, 1), (0x30, 1), (0x51, 1), (0x96, 1), (0x95, 1), (0x0b, 1), (0x0c, 1), (0x0d, 1), 
    (0x6e, 1), (0x17, 2), (0x22, 1), (0x23, 1), (0x24, 1), (0x25, 1), (0x6a, 1), (0x76, 1), (0x72, 1), 
    (0xae, 1), (0x38, 2), (0x43, 1), (0x44, 1), (0x45, 1), (0x46, 1), (0x66, 1), (0xb4, 3), (0xb2, 3), 
    (0xa7, 3), (0xc8, 5), (0x91, 1), (0x92, 1), (0x87, 1), (0x86, 1), (0x85, 1), (0x93, 1), (0x60, 1), 
    (0x2e, 1), (0x7e, 1), (0x4f, 1), (0x02, 1), (0x03, 1), (0x04, 1), (0x05, 1), (0x06, 1), (0x07, 1), 
    (0x08, 1), (0x6c, 1), (0xa5, 3), (0xa6, 3), (0x9f, 3), (0xa0, 3), (0xa1, 3), (0xa2, 3), (0xa3, 3), 
    (0xa4, 3), (0x99, 3), (0x9a, 3), (0x9b, 3), (0x9c, 3), (0x9d, 3), (0x9e, 3), (0xc7, 3), (0xc6, 3), 
    (0x84, 3), (0x15, 2), (0x1a, 1), (0x1b, 1), (0x1c, 1), (0x1d, 1), (0x68, 1), (0x74, 1), (0xc1, 3), 
    (0xb6, 3), (0xb7, 3), (0xb8, 3), (0xb9, 5), (0x80, 1), (0x70, 1), (0xac, 1), (0x78, 1), (0x7a, 1), 
    (0x36, 2), (0x3b, 1), (0x3c, 1), (0x3d, 1), (0x3e, 1), (0x64, 1), (0x7c, 1), (0x82, 1), (0x83, 1), 
    (0xa8, 3), (0xc9, 5), (0x8a, 1), (0x89, 1), (0x88, 1), (0x61, 1), (0x2f, 1), (0x7f, 1), (0x50, 1), 
    (0x94, 1), (0x09, 1), (0x0a, 1), (0x12, 2), (0x13, 3), (0x14, 3), (0x6d, 1), (0x16, 2), (0x1e, 1), 
    (0x1f, 1), (0x20, 1), (0x21, 1), (0x69, 1), (0x75, 1), (0xab, 3), (0x81, 1), (0x71, 1), (0xad, 1), 
    (0x79, 1), (0x7b, 1), (0x37, 2), (0x3f, 1), (0x40, 1), (0x41, 1), (0x42, 1), (0x65, 1), (0x7d, 1), 
    (0x83, 1), (0xc2, 1), (0xc3, 1), (0xc5, 3), (0xbb, 3), (0xbc, 2), (0x00, 1), (0x57, 1), (0x58, 1), 
    (0xb5, 3), (0xb3, 3), (0xa9, 2), (0xb1, 1), (0x35, 1), (0x36, 1), (0x11, 3), (0x5f, 1), (0xaa, 3), 
    (0xc4, 1), (0xca, 1), (0xfe, 1), (0xff, 1), (0xba, 1)]"

definition java_size :: "u8 \<Rightarrow> int" where
  "java_size c = fold (\<lambda>(b, n) sz. if c = b then n else sz) java_ops 1"

definition java_type :: "u8 \<Rightarrow> aop_type" where
  "java_type c =
     (if c \<in> {0xa9, 0xb1, 0xb0, 0xaf, 0xae, 0xac, 0xad} then AOP_TYPE_RET
      else if c \<in> {0xa7, 0xc8} then AOP_TYPE_JMP
      else if (0x99 \<le> c \<and> c \<le> 0xa6) \<or> c \<in> {0xc7, 0xc6} then AOP_TYPE_CJMP
      else if c \<in> {0xa8, 0xc9} then AOP_TYPE_CALL
      else if c \<in> {0xb9, 0xb7, 0xb8, 0xb6, 0xbb, 0xbc, 0xc5} then AOP_TYPE_SWI
      else if c \<in> {0xca, 0xbf} then AOP_TYPE_TRAP
      else if c = 0 then AOP_TYPE_NOP
      else if c = 0xba then AOP_TYPE_ILL
      else if c \<in> {0x57, 0x58} then AOP_TYPE_POP
      else if c \<in> {0x10, 0x11} \<or> (0x59 \<le> c \<and> c \<le> 0x5e) then AOP_TYPE_PUSH
      else if 0x60 \<le> c \<and> c \<le> 0x63 then AOP_TYPE_ADD
      else if 0x64 \<le> c \<and> c \<le> 0x67 then AOP_TYPE_SUB
      else if c = 0x76 then AOP_TYPE_NOT
      else if c \<in> {0x78, 0x79} then AOP_TYPE_SHL
      else if c \<in> {0x7a, 0x7b} then AOP_TYPE_SHR
      else if c \<in> {0x80, 0x81} then AOP_TYPE_OR
      else if c \<in> {0x82, 0x83} then AOP_TYPE_XOR
      else if c \<in> {0x7e, 0x7f} then AOP_TYPE_AND
      else if 0x68 \<le> c \<and> c \<le> 0x6b then AOP_TYPE_MUL
      else if 0x6c \<le> c \<and> c \<le> 0x6f then AOP_TYPE_DIV
      else AOP_TYPE_UNK)"

definition arch_java_aop :: "'w aop_fun" where
  "arch_java_aop a b aop0 s =
     (case b of
        [] \<Rightarrow> None
      | c # cs \<Rightarrow>
          let sz = java_size c; t = java_type c;
              branch = (t = AOP_TYPE_CJMP \<or> t = AOP_TYPE_CALL)
          in Some (s, aop_unk\<lparr>a_type := t, a_length := sz, a_eob := (branch \<or> t = AOP_TYPE_RET \<or> t = AOP_TYPE_JMP),
                     a_fail := if branch then a + word_of_int sz else 0\<rparr>, sz))"

end
