(* ===== verification/Rdb.thy ===== *)
theory Rdb
  imports Crc Utils
begin

text \<open>
  Programs as graphs of basic blocks (\<^verbatim>\<open>src/src/rdb.c\<close>, \<^verbatim>\<open>rdb.h\<close>). Blocks and functions are lists with the newest last;
  the lookups of the code walk them from the end. \<open>None\<close> is an access out of bounds, and \<open>junk\<close> what
  memory that is never written holds. Names and comments of blocks are the strings of \<^verbatim>\<open>estrdup\<close>.
\<close>

section \<open>State\<close>

record block_t =
  b_name :: "string option"
  b_comment :: "string option"
  b_addr :: ut64
  b_type :: int
  b_ignored :: bool
  b_framesize :: int
  b_n_bytes :: ut32
  b_bytes :: "u8 list"
  b_checksum :: ut32
  b_n_calls :: ut32
  b_calls :: "ut64 list"
  b_n_xrefs :: ut32
  b_xrefs :: "ut64 list"
  b_tnext :: ut64
  b_fnext :: ut64

record call_t =
  ca_from :: ut64
  ca_to :: ut64

record function_t =
  fu_name :: string
  fu_addr :: ut64
  fu_vars :: int
  fu_args :: int
  fu_size :: int
  fu_frame :: int
  fu_calls :: "call_t list"

record program_t =
  pg_name :: "string option"
  pg_entry :: ut64
  n_blocks :: int
  blocks :: "block_t list"
  n_functions :: int
  fns :: "function_t list"

definition BLK_TYPE_HEAD :: int where "BLK_TYPE_HEAD = 0"
definition BLK_TYPE_BODY :: int where "BLK_TYPE_BODY = 1"
definition BLK_TYPE_LAST :: int where "BLK_TYPE_LAST = 2"

text \<open>The first element of a list from the end with a property, its position, and the update there.\<close>

definition rfind :: "('a \<Rightarrow> bool) \<Rightarrow> 'a list \<Rightarrow> 'a option" where
  "rfind P xs = List.find P (rev xs)"

definition rindex :: "('a \<Rightarrow> bool) \<Rightarrow> 'a list \<Rightarrow> nat option" where
  "rindex P xs = List.find (\<lambda>i. P (xs ! i)) (rev [0..<length xs])"

definition rupdate :: "('a \<Rightarrow> bool) \<Rightarrow> ('a \<Rightarrow> 'a) \<Rightarrow> 'a list \<Rightarrow> 'a list" where
  "rupdate P f xs = rev (update_first P f (rev xs))"

section \<open>Blocks\<close>

definition block_new :: "ut64 \<Rightarrow> block_t" where
  "block_new addr = \<lparr>b_name = None, b_comment = None, b_addr = addr, b_type = 0, b_ignored = False, b_framesize = 0,
     b_n_bytes = 0, b_bytes = [], b_checksum = 0, b_n_calls = 0, b_calls = [], b_n_xrefs = 0, b_xrefs = [],
     b_tnext = 0, b_fnext = 0\<rparr>"

definition program_block_get :: "program_t \<Rightarrow> ut64 \<Rightarrow> block_t option" where
  "program_block_get prg addr = rfind (\<lambda>b. b_addr b = addr) (blocks prg)"

definition program_block_new :: "ut64 \<Rightarrow> program_t \<Rightarrow> program_t" where
  "program_block_new addr prg = prg\<lparr>n_blocks := n_blocks prg + 1, blocks := blocks prg @ [block_new addr]\<rparr>"

text \<open>\<^verbatim>\<open>program_block_get_new\<close>, and the changes that the callers make to the block it returns.\<close>

definition program_block_get_new :: "ut64 \<Rightarrow> program_t \<Rightarrow> program_t" where
  "program_block_get_new addr prg = (if program_block_get prg addr = None then program_block_new addr prg else prg)"

definition modify_block :: "ut64 \<Rightarrow> (block_t \<Rightarrow> block_t) \<Rightarrow> program_t \<Rightarrow> program_t" where
  "modify_block addr f prg =
     (let prg' = program_block_get_new addr prg in prg'\<lparr>blocks := rupdate (\<lambda>b. b_addr b = addr) f (blocks prg')\<rparr>)"

text \<open>\<^verbatim>\<open>program_block_split_new\<close>: \<open>Inl\<close> is the null pointer, \<open>Inr\<close> the new block.\<close>

definition program_block_split_new :: "ut64 \<Rightarrow> program_t \<Rightarrow> (program_t \<times> block_t option) option" where
  "program_block_split_new addr prg =
     (case rindex (\<lambda>bt. addr > b_addr bt \<and> addr < b_addr bt + ucast (b_n_bytes bt)) (blocks prg) of
        None \<Rightarrow> Some (prg, None)
      | Some i \<Rightarrow>
          let bt = blocks prg ! i;
              prg1 = program_block_get_new addr prg;
              keep = (ucast (addr - b_addr bt) :: ut32);
              rest = b_n_bytes bt - keep
          in if unat (b_n_bytes bt) > length (b_bytes bt) then None
             else
               case rindex (\<lambda>b. b_addr b = addr) (blocks prg1) of
                 None \<Rightarrow> None
               | Some j \<Rightarrow>
                   let bta = (blocks prg1 ! j)\<lparr>b_n_bytes := rest, b_addr := addr, b_tnext := b_tnext bt, b_fnext := b_fnext bt,
                                b_bytes := take (unat rest) (drop (unat keep) (b_bytes bt))\<rparr>
                   in Some (prg1\<lparr>blocks := (blocks prg1)[j := bta, i := bt\<lparr>b_n_bytes := keep, b_tnext := addr, b_fnext := 0, b_type := 0\<rparr>]\<rparr>,
                            Some bta))"

text \<open>\<^verbatim>\<open>program_block_split\<close> of the block at an address; both successors of the new block are the true one of the old.\<close>

definition program_block_split :: "ut64 \<Rightarrow> ut32 \<Rightarrow> program_t \<Rightarrow> (program_t \<times> out_event list) option" where
  "program_block_split a off prg =
     (case program_block_get prg a of
        None \<Rightarrow> None
      | Some block \<Rightarrow>
          let n = b_n_bytes block - off in
          if sint n < 1 then Some (prg, [ErrOut (''Invalid offset for block_split'' @ nl)])
          else if unat off + unat n > length (b_bytes block) then None
          else Some (modify_block a (\<lambda>b. b\<lparr>b_n_bytes := off, b_bytes := take (unat off) (b_bytes block),
                        b_tnext := a + ucast off, b_fnext := 0\<rparr>)
                 (modify_block (a + ucast off) (\<lambda>b. b\<lparr>b_n_bytes := n, b_bytes := take (unat n) (drop (unat off) (b_bytes block)),
                        b_tnext := b_tnext block, b_fnext := b_tnext block\<rparr>) prg), []))"

definition prorgam_block_set_framesize :: "ut64 \<Rightarrow> int \<Rightarrow> program_t \<Rightarrow> program_t" where
  "prorgam_block_set_framesize addr sz = modify_block addr (\<lambda>b. b\<lparr>b_framesize := sz\<rparr>)"

definition program_block_set_name :: "ut64 \<Rightarrow> string \<Rightarrow> program_t \<Rightarrow> program_t" where
  "program_block_set_name addr name = modify_block addr (\<lambda>b. b\<lparr>b_name := Some name\<rparr>)"

definition program_block_add_call :: "ut64 \<Rightarrow> ut64 \<Rightarrow> program_t \<Rightarrow> program_t" where
  "program_block_add_call addr dest = modify_block addr (\<lambda>b. b\<lparr>b_n_calls := b_n_calls b + 1, b_calls := b_calls b @ [dest]\<rparr>)"

text \<open>\<^verbatim>\<open>program_block_add_xref\<close> records the address of the block itself, not the place that refers to it.\<close>

definition program_block_add_xref :: "ut64 \<Rightarrow> ut64 \<Rightarrow> program_t \<Rightarrow> program_t" where
  "program_block_add_xref addr from = modify_block addr (\<lambda>b. b\<lparr>b_n_xrefs := b_n_xrefs b + 1, b_xrefs := b_xrefs b @ [addr]\<rparr>)"

definition program_block_set_comment :: "ut64 \<Rightarrow> string \<Rightarrow> program_t \<Rightarrow> program_t" where
  "program_block_set_comment addr comment prg =
     prg\<lparr>blocks := rupdate (\<lambda>b0. addr \<ge> b_addr b0 \<and> addr < b_addr b0 - ucast (b_n_bytes b0)) (\<lambda>b. b\<lparr>b_comment := Some comment\<rparr>) (blocks prg)\<rparr>"

definition block_set_bytes :: "(string \<Rightarrow> ut64) \<Rightarrow> ut64 \<Rightarrow> string \<Rightarrow> program_t \<Rightarrow> program_t option" where
  "block_set_bytes get_math addr hexpairs prg =
     map_option (\<lambda>(bytes, n). modify_block addr (\<lambda>b. b\<lparr>b_n_bytes := word_of_nat n, b_bytes := take n bytes,
         b_checksum := ucast (crc16 0 (take n bytes))\<rparr>) prg) (hexstr2binstr get_math hexpairs)"

definition program_reset :: "program_t \<Rightarrow> program_t" where
  "program_reset prg = prg\<lparr>blocks := map (\<lambda>b. b\<lparr>b_ignored := False\<rparr>) (blocks prg)\<rparr>"

section \<open>Functions\<close>

definition function_new :: "ut64 \<Rightarrow> int \<Rightarrow> function_t" where
  "function_new addr sz = \<lparr>fu_name = [], fu_addr = addr, fu_vars = 0, fu_args = 0, fu_size = sz, fu_frame = 0, fu_calls = []\<rparr>"

definition program_function_get :: "program_t \<Rightarrow> ut64 \<Rightarrow> function_t option" where
  "program_function_get prg addr = rfind (\<lambda>f. fu_addr f = addr) (fns prg)"

definition program_add_function :: "ut64 \<Rightarrow> int \<Rightarrow> program_t \<Rightarrow> program_t" where
  "program_add_function addr sz prg = prg\<lparr>n_functions := n_functions prg + 1, fns := fns prg @ [function_new addr sz]\<rparr>"

definition program_function_get_new :: "ut64 \<Rightarrow> program_t \<Rightarrow> program_t" where
  "program_function_get_new addr prg = (if program_function_get prg addr = None then program_add_function addr 0 prg else prg)"

definition modify_function :: "ut64 \<Rightarrow> (function_t \<Rightarrow> function_t) \<Rightarrow> program_t \<Rightarrow> program_t" where
  "modify_function addr f prg =
     (let prg' = program_function_get_new addr prg in prg'\<lparr>fns := rupdate (\<lambda>fu. fu_addr fu = addr) f (fns prg')\<rparr>)"

definition program_function_add_call :: "ut64 \<Rightarrow> ut64 \<Rightarrow> program_t \<Rightarrow> program_t" where
  "program_function_add_call addr call prg =
     (if program_function_get prg addr = None then prg
      else modify_function addr (\<lambda>fu. fu\<lparr>fu_calls := fu_calls fu @ [\<lparr>ca_from = addr, ca_to = call\<rparr>]\<rparr>) prg)"

text \<open>A name of 200 characters or more has no terminator of its own; the copied characters are modelled.\<close>

definition program_function_set_name :: "ut64 \<Rightarrow> string \<Rightarrow> program_t \<Rightarrow> program_t" where
  "program_function_set_name addr name = modify_function addr (\<lambda>fu. fu\<lparr>fu_name := take 200 name\<rparr>)"

definition program_function_set_vars :: "ut64 \<Rightarrow> int \<Rightarrow> program_t \<Rightarrow> program_t" where
  "program_function_set_vars addr v = modify_function addr (\<lambda>fu. fu\<lparr>fu_vars := v\<rparr>)"

definition program_function_set_args :: "ut64 \<Rightarrow> int \<Rightarrow> program_t \<Rightarrow> program_t" where
  "program_function_set_args addr v = modify_function addr (\<lambda>fu. fu\<lparr>fu_args := v\<rparr>)"

definition program_function_set_framesize :: "ut64 \<Rightarrow> int \<Rightarrow> program_t \<Rightarrow> program_t" where
  "program_function_set_framesize addr v = modify_function addr (\<lambda>fu. fu\<lparr>fu_frame := v\<rparr>)"

section \<open>Files\<close>

text \<open>The entry, the name and the number of functions are not initialised.\<close>

definition program_new :: "program_t \<Rightarrow> string option \<Rightarrow> program_t" where
  "program_new junk file = junk\<lparr>pg_name := (case file of None \<Rightarrow> pg_name junk | Some f \<Rightarrow> Some f),
     n_blocks := 0, blocks := [], fns := []\<rparr>"

text \<open>One line of a file: the directive in front of the at sign, the address behind it.\<close>

definition open_line :: "(string \<Rightarrow> ut64) \<Rightarrow> string \<Rightarrow> program_t \<Rightarrow> program_t" where
  "open_line get_offset line prg =
     (case strchr_split CHR ''@'' line of
        None \<Rightarrow> prg
      | Some (buf, ptr) \<Rightarrow>
          let off = get_offset ptr in
          if take 3 buf = ''CF '' then program_add_function off 0 prg
          else if take 15 buf = ''CC framesize = '' then program_function_set_framesize off (atoi (drop 15 buf)) prg
          else if take 10 buf = ''CC vars = '' then program_function_set_vars off (atoi (drop 10 buf)) prg
          else if take 10 buf = ''CC args = '' then program_function_set_args off (atoi (drop 10 buf)) prg
          else if take 3 buf = ''Cx '' then
            program_function_add_call off (get_offset (drop 3 buf)) (program_block_add_xref off (get_offset (drop 3 buf)) prg)
          else if take 3 buf = ''CC '' then program_block_set_comment off (drop 3 buf) prg
          else if take 12 buf = ''f entrypoint'' then prg\<lparr>pg_entry := off\<rparr>
          else if take 6 buf = ''f sym.'' then
            program_block_set_name off (drop 2 buf) (program_function_set_name off (drop 6 buf) prg)
          else prg)"

text \<open>
  The loop of \<^verbatim>\<open>program_open\<close> over the pieces of \<^verbatim>\<open>fgets\<close>: the last character is dropped, then a line end; an empty
  line makes it look in front of the buffer. A last line that ends the file without a newline is ignored.
\<close>

fun open_lines :: "(string \<Rightarrow> ut64) \<Rightarrow> string list \<Rightarrow> program_t \<Rightarrow> program_t option" where
  "open_lines get_offset [] prg = Some prg"
| "open_lines get_offset (l # ls) prg =
     (let t = takeWhile (\<lambda>c. c \<noteq> NUL) l in
      if t = [] \<or> (ls = [] \<and> last l \<noteq> CHR 0x0A) then Some prg
      else if length t = 1 then None
      else let u = butlast t; v = (if last u = CHR 0x0A \<or> last u = CHR 0x0D then butlast u else u)
        in open_lines get_offset ls (open_line get_offset v prg))"

definition program_open :: "(string \<Rightarrow> ut64) \<Rightarrow> program_t \<Rightarrow> string \<Rightarrow> string option \<Rightarrow> (program_t option \<times> out_event list) option" where
  "program_open get_offset junk file content =
     (case content of
        None \<Rightarrow> Some (None, [ConsOut (''Cannot open '' @ file @ nl)])
      | Some str \<Rightarrow> map_option (\<lambda>p. (Some p, [])) (open_lines get_offset (fgets_all str) (program_new junk (Some file))))"

section \<open>The program as a map\<close>

text \<open>
  The invariant of the lists: one block per address, and the counter is the length. Under it the lookup
  is a finite map from addresses, which every operation changes at its own address only.
\<close>

definition prog_ok :: "program_t \<Rightarrow> bool" where
  "prog_ok prg \<longleftrightarrow> distinct (map b_addr (blocks prg)) \<and> n_blocks prg = int (length (blocks prg))"

definition block_code :: "block_t \<Rightarrow> u8 list" where
  "block_code b = take (unat (b_n_bytes b)) (b_bytes b)"

lemma update_first_none: "(\<And>x. x \<in> set xs \<Longrightarrow> \<not> P x) \<Longrightarrow> update_first P f xs = xs"
  by (induction xs) auto

lemma rindex_SomeD: "rindex P xs = Some i \<Longrightarrow> i < length xs \<and> P (xs ! i)"
  unfolding rindex_def by (auto dest: find_SomeD)

lemma rindex_None: "rindex P xs = None \<longleftrightarrow> (\<forall>x \<in> set xs. \<not> P x)"
  unfolding rindex_def by (auto simp: find_None_iff all_set_conv_all_nth)

lemma block_get_addr: "program_block_get prg a = Some b \<Longrightarrow> b \<in> set (blocks prg) \<and> b_addr b = a"
  unfolding program_block_get_def rfind_def by (auto dest: find_SomeD)

lemma block_get_None: "program_block_get prg a = None \<longleftrightarrow> a \<notin> b_addr ` set (blocks prg)"
  by (auto simp: program_block_get_def rfind_def find_None_iff)

lemma block_get_iff:
  assumes "prog_ok prg"
  shows "program_block_get prg a = Some b \<longleftrightarrow> b \<in> set (blocks prg) \<and> b_addr b = a"
proof
  assume b: "b \<in> set (blocks prg) \<and> b_addr b = a"
  then obtain c where c: "program_block_get prg a = Some c" using block_get_None [of prg a] by fastforce
  with b block_get_addr [OF c] assms have "c = b" by (auto simp: prog_ok_def distinct_map inj_on_def)
  with c show "program_block_get prg a = Some b" by simp
qed (rule block_get_addr)

lemma block_get_update:
  assumes "prog_ok prg" and "i < length (blocks prg)" and "b_addr b' = b_addr (blocks prg ! i)"
  shows "prog_ok (prg\<lparr>blocks := (blocks prg)[i := b']\<rparr>) \<and>
    program_block_get (prg\<lparr>blocks := (blocks prg)[i := b']\<rparr>) a =
      (if a = b_addr b' then Some b' else program_block_get prg a)"
proof -
  let ?p = "prg\<lparr>blocks := (blocks prg)[i := b']\<rparr>"
  have "map b_addr ((blocks prg)[i := b']) = map b_addr (blocks prg)"
    using assms(2,3) by (simp add: map_update list_update_same_conv)
  then have ok: "prog_ok ?p" using assms(1) by (simp add: prog_ok_def)
  have "c \<in> set ((blocks prg)[i := b']) \<longleftrightarrow> c \<in> set (blocks prg)" if "b_addr c \<noteq> b_addr b'" for c
    using that assms(2,3) by (auto simp: in_set_conv_nth nth_list_update split: if_splits)
  then have "program_block_get ?p a = Some c \<longleftrightarrow> program_block_get prg a = Some c" if "a \<noteq> b_addr b'" for c
    using that block_get_iff [OF ok, of a c] block_get_iff [OF assms(1), of a c] by auto
  then have "program_block_get ?p a = program_block_get prg a" if "a \<noteq> b_addr b'"
    using that by (metis option.exhaust)
  moreover have "program_block_get ?p (b_addr b') = Some b'"
    using block_get_iff [OF ok] assms(2) by (simp add: set_update_memI)
  ultimately show ?thesis using ok by simp
qed

text \<open>What \<^verbatim>\<open>program_block_get_new\<close> returns.\<close>

definition block_or_new :: "program_t \<Rightarrow> ut64 \<Rightarrow> block_t" where
  "block_or_new prg a = (case program_block_get prg a of Some b \<Rightarrow> b | None \<Rightarrow> block_new a)"

lemma block_new_addr [simp]: "b_addr (block_new a) = a"
  by (simp add: block_new_def)

lemma block_or_new_addr [simp]: "b_addr (block_or_new prg a) = a"
  by (auto simp: block_or_new_def dest: block_get_addr split: option.splits)

lemma block_get_new:
  assumes "prog_ok prg"
  shows "prog_ok (program_block_get_new a prg) \<and>
    program_block_get (program_block_get_new a prg) a' = (if a' = a then Some (block_or_new prg a) else program_block_get prg a')"
  using assms block_get_None [of prg a]
  by (auto simp: program_block_get_new_def block_or_new_def program_block_new_def prog_ok_def program_block_get_def
      rfind_def split: option.splits)

lemma block_get_modify:
  assumes "prog_ok prg" and "\<And>b. b_addr (f b) = b_addr b"
  shows "prog_ok (modify_block a f prg) \<and>
    program_block_get (modify_block a f prg) a' = (if a' = a then Some (f (block_or_new prg a)) else program_block_get prg a')"
proof -
  let ?p = "program_block_get_new a prg" and ?P = "\<lambda>b. b_addr b = a"
  have m: "map b_addr (rupdate ?P f (blocks ?p)) = map b_addr (blocks ?p)"
    unfolding rupdate_def by (simp add: rev_map [symmetric] map_update_first assms(2))
  have l: "length (rupdate ?P f (blocks ?p)) = length (blocks ?p)" using arg_cong [OF m, of length] by simp
  have ok: "prog_ok (modify_block a f prg)"
    using m l block_get_new [OF assms(1), of a] by (simp add: modify_block_def Let_def prog_ok_def)
  have "program_block_get (modify_block a f prg) a = Some (f (block_or_new prg a))"
    using block_get_new [OF assms(1), of a a] find_update_first_same [of ?P "rev (blocks ?p)" "block_or_new prg a" f]
    by (simp add: modify_block_def Let_def program_block_get_def rfind_def rupdate_def assms(2))
  moreover have "program_block_get (modify_block a f prg) a' = program_block_get prg a'" if "a' \<noteq> a"
    using that block_get_new [OF assms(1), of a a'] find_update_first_other [of ?P "\<lambda>b. b_addr b = a'" f "rev (blocks ?p)"]
    by (simp add: modify_block_def Let_def program_block_get_def rfind_def rupdate_def assms(2))
  ultimately show ?thesis using ok by simp
qed

lemma program_new_ok [simp]: "prog_ok (program_new junk file)" "blocks (program_new junk file) = []"
  by (simp_all add: prog_ok_def program_new_def)

lemma split_offset:
  fixes addr base :: ut64 and n :: ut32
  assumes "addr > base" and "addr < base + ucast n"
  shows "unat (ucast (addr - base) :: ut32) = unat (addr - base) \<and> unat (addr - base) < unat n"
proof -
  have n: "unat n < 2 ^ 32" using unsigned_less [of n, where ?'a = nat] by simp
  have le: "unat base \<le> unat addr" using assms(1) by (simp add: word_less_nat_alt)
  have "addr - base < ucast n"
  proof (rule ccontr)
    assume "\<not> addr - base < ucast n"
    then have "unat n \<le> unat (addr - base)" by (simp add: word_less_nat_alt)
    also have d: "unat (addr - base) = unat addr - unat base" by (rule unat_sub) (use assms(1) in simp)
    finally have "unat base + unat n \<le> unat addr" using le by simp
    moreover have "unat addr < 2 ^ 64" using unsigned_less [of addr, where ?'a = nat] by simp
    ultimately have "unat (base + ucast n) = unat base + unat n" by (simp add: unat_word_ariths)
    with assms(2) \<open>unat base + unat n \<le> unat addr\<close> show False by (simp add: word_less_nat_alt)
  qed
  then have lt: "unat (addr - base) < unat n" by (simp add: word_less_nat_alt)
  with n show ?thesis by (simp add: unsigned_ucast_eq take_bit_nat_eq_self)
qed

lemma split_new_parts:
  assumes "prog_ok prg" and "program_block_split_new addr prg = Some (prg', Some nb)"
  shows "\<exists>bt bt'. program_block_get prg (b_addr bt) = Some bt \<and> b_addr bt < addr \<and>
     program_block_get prg' (b_addr bt) = Some bt' \<and> program_block_get prg' addr = Some nb \<and>
     block_code bt = block_code bt' @ block_code nb \<and> addr = b_addr bt + ucast (b_n_bytes bt') \<and>
     b_tnext bt' = addr \<and> b_fnext bt' = 0 \<and> b_tnext nb = b_tnext bt \<and> b_fnext nb = b_fnext bt \<and>
     (\<forall>a. a \<noteq> b_addr bt \<and> a \<noteq> addr \<longrightarrow> program_block_get prg' a = program_block_get prg a) \<and> prog_ok prg'"
proof -
  let ?in = "\<lambda>bt. addr > b_addr bt \<and> addr < b_addr bt + ucast (b_n_bytes bt)"
  let ?p = "program_block_get_new addr prg"
  obtain i where i: "rindex ?in (blocks prg) = Some i" using assms(2) by (cases "rindex ?in (blocks prg)") (auto simp: program_block_split_new_def)
  define bt where "bt = blocks prg ! i"
  define keep where "keep = (ucast (addr - b_addr bt) :: ut32)"
  define rest where "rest = b_n_bytes bt - keep"
  have bt: "i < length (blocks prg)" "addr > b_addr bt" "addr < b_addr bt + ucast (b_n_bytes bt)"
    using rindex_SomeD [OF i] by (simp_all add: bt_def)
  obtain j where j: "rindex (\<lambda>b. b_addr b = addr) (blocks ?p) = Some j" and sz: "unat (b_n_bytes bt) \<le> length (b_bytes bt)"
    and out: "nb = (blocks ?p ! j)\<lparr>b_n_bytes := rest, b_addr := addr, b_tnext := b_tnext bt, b_fnext := b_fnext bt,
        b_bytes := take (unat rest) (drop (unat keep) (b_bytes bt))\<rparr>"
      "prg' = ?p\<lparr>blocks := (blocks ?p)[j := nb, i := bt\<lparr>b_n_bytes := keep, b_tnext := addr, b_fnext := 0, b_type := 0\<rparr>]\<rparr>"
    using assms(2) i unfolding program_block_split_new_def Let_def
    by (auto simp: bt_def keep_def rest_def split: if_splits option.splits)
  define bt' where "bt' = bt\<lparr>b_n_bytes := keep, b_tnext := addr, b_fnext := 0, b_type := 0\<rparr>"
  have k: "unat keep = unat (addr - b_addr bt)" "unat keep < unat (b_n_bytes bt)"
    using split_offset [OF bt(2,3)] by (simp_all add: keep_def)
  have r: "unat rest = unat (b_n_bytes bt) - unat keep"
    unfolding rest_def by (rule unat_sub) (use k(2) in \<open>simp add: word_le_nat_alt\<close>)
  have ok: "prog_ok ?p" and pj: "j < length (blocks ?p)" "b_addr (blocks ?p ! j) = addr"
    using block_get_new [OF assms(1)] rindex_SomeD [OF j] by auto
  have old: "blocks ?p ! i = bt" "i < length (blocks ?p)"
    using bt(1) by (auto simp: program_block_get_new_def program_block_new_def bt_def nth_append)
  have ij: "i \<noteq> j" using old pj(2) bt(2) by auto
  let ?q = "?p\<lparr>blocks := (blocks ?p)[j := nb]\<rparr>"
  have g1: "prog_ok ?q \<and> program_block_get ?q a = (if a = addr then Some nb else program_block_get ?p a)" for a
    using block_get_update [OF ok pj(1), of nb a] pj(2) out(1) by simp
  have "prg' = ?q\<lparr>blocks := (blocks ?q)[i := bt']\<rparr>" using out(2) by (simp add: bt'_def)
  then have g2: "prog_ok prg' \<and> program_block_get prg' a = (if a = b_addr bt then Some bt' else program_block_get ?q a)" for a
    using block_get_update [of ?q i bt' a] g1 old ij by (simp add: bt'_def)
  have "program_block_get prg (b_addr bt) = Some bt" using block_get_iff [OF assms(1)] bt(1) by (simp add: bt_def)
  moreover have "block_code bt = block_code bt' @ block_code nb"
    using k(2) r sz unfolding block_code_def bt'_def out(1)
    by (simp add: take_add [symmetric] min_def)
  moreover have "addr = b_addr bt + ucast (b_n_bytes bt')"
  proof -
    have "(ucast keep :: ut64) = addr - b_addr bt" using k(1) by (simp add: word_unat_eq_iff)
    then show ?thesis by (simp add: bt'_def)
  qed
  moreover have "program_block_get prg' addr = Some nb" "program_block_get prg' (b_addr bt) = Some bt'"
    using g1 [of addr] g2 [of addr] g2 [of "b_addr bt"] bt(2) by auto
  moreover have "program_block_get prg' a = program_block_get prg a" if "a \<noteq> b_addr bt" "a \<noteq> addr" for a
    using that g1 [of a] g2 [of a] block_get_new [OF assms(1), of addr a] by simp
  moreover have "b_tnext bt' = addr" "b_fnext bt' = 0" "b_tnext nb = b_tnext bt" "b_fnext nb = b_fnext bt"
    by (simp_all add: bt'_def out(1))
  ultimately show ?thesis using bt(2) conjunct1 [OF g2] by blast
qed

lemma split_new_ok: "prog_ok prg \<Longrightarrow> program_block_split_new addr prg = Some (prg', nb) \<Longrightarrow> prog_ok prg'"
proof (cases nb)
  case None
  assume "prog_ok prg" "program_block_split_new addr prg = Some (prg', nb)"
  with None show ?thesis
    by (auto simp: program_block_split_new_def Let_def split: option.splits if_splits)
next
  case (Some b)
  assume "prog_ok prg" "program_block_split_new addr prg = Some (prg', nb)"
  with Some split_new_parts show ?thesis by blast
qed

section \<open>Properties\<close>

text \<open>
  C21 Splitting at an address strictly inside a block divides its code: the first part keeps the address,
  ends where the second begins and has it as its only successor; the second has the rest of the bytes and
  the successors of the old block; every other block is as before and addresses stay unique.
\<close>

theorem split_new_partition:
  assumes "prog_ok prg" and "program_block_split_new addr prg = Some (prg', Some nb)"
  shows "\<exists>bt bt'. program_block_get prg (b_addr bt) = Some bt \<and> b_addr bt < addr \<and>
     program_block_get prg' (b_addr bt) = Some bt' \<and> program_block_get prg' addr = Some nb \<and>
     block_code bt = block_code bt' @ block_code nb \<and> addr = b_addr bt + ucast (b_n_bytes bt') \<and>
     b_tnext bt' = addr \<and> b_fnext bt' = 0 \<and> b_tnext nb = b_tnext bt \<and> b_fnext nb = b_fnext bt \<and>
     (\<forall>a. a \<noteq> b_addr bt \<and> a \<noteq> addr \<longrightarrow> program_block_get prg' a = program_block_get prg a) \<and> prog_ok prg'"
  using split_new_parts [OF assms] .

theorem split_new_partition_witness:
  "\<exists>prg' nb. program_block_split_new 0x102 (modify_block 0x100 (\<lambda>b. b\<lparr>b_n_bytes := 4, b_bytes := [1, 2, 3, 4], b_tnext := 0x200\<rparr>)
       (program_new \<lparr>pg_name = None, pg_entry = 0, n_blocks = 7, blocks = [], n_functions = 0, fns = []\<rparr> None)) = Some (prg', Some nb) \<and>
     program_block_get prg' 0x102 = Some nb \<and> b_tnext nb = 0x200 \<and> prog_ok prg'"
proof -
  let ?p = "program_new \<lparr>pg_name = None, pg_entry = 0, n_blocks = 7, blocks = [], n_functions = 0, fns = []\<rparr> None"
  let ?q = "modify_block 0x100 (\<lambda>b. b\<lparr>b_n_bytes := 4, b_bytes := [1, 2, 3, 4], b_tnext := 0x200\<rparr>) ?p"
  have ok: "prog_ok ?q" by (rule conjunct1 [OF block_get_modify]) simp_all
  have b: "blocks ?q = [(block_new 0x100)\<lparr>b_n_bytes := 4, b_bytes := [1, 2, 3, 4], b_tnext := 0x200\<rparr>]"
    by (simp add: modify_block_def program_block_get_new_def program_block_get_def rfind_def program_block_new_def
        program_new_def rupdate_def block_new_def)
  then obtain prg' nb where r: "program_block_split_new 0x102 ?q = Some (prg', Some nb)"
    by (simp add: program_block_split_new_def rindex_def program_block_get_new_def program_block_get_def rfind_def
        program_block_new_def block_new_def Let_def)
  from split_new_partition [OF ok r] obtain bt where
    "program_block_get ?q (b_addr bt) = Some bt \<and> program_block_get prg' 0x102 = Some nb \<and> b_tnext nb = b_tnext bt \<and> prog_ok prg'"
    by blast
  moreover from this have "b_tnext bt = 0x200" using block_get_addr [of ?q "b_addr bt" bt] b by simp
  ultimately show ?thesis using r by (intro exI [of _ prg'] exI [of _ nb]) simp
qed

text \<open>\<^verbatim>\<open>program_block_split\<close> gives the new block the true successor of the old one twice, unlike \<^verbatim>\<open>program_block_split_new\<close>.\<close>

lemma split_drops_fnext:
  assumes "prog_ok prg" and "program_block_get prg a = Some b" and "program_block_split a off prg = Some (prg', [])"
    and "off \<noteq> 0"
  shows "\<exists>nb. program_block_get prg' (a + ucast off) = Some nb \<and> b_tnext nb = b_tnext b \<and> b_fnext nb = b_tnext b"
proof -
  let ?g = "\<lambda>nb. nb\<lparr>b_n_bytes := b_n_bytes b - off, b_bytes := take (unat (b_n_bytes b - off)) (drop (unat off) (b_bytes b)),
    b_tnext := b_tnext b, b_fnext := b_tnext b\<rparr>"
  let ?p = "modify_block (a + ucast off) ?g prg"
  have ne: "(ucast off :: ut64) \<noteq> 0" using assms(4) by (simp add: word_unat_eq_iff)
  have p: "prog_ok ?p" "program_block_get ?p (a + ucast off) = Some (?g (block_or_new prg (a + ucast off)))"
    using block_get_modify [OF assms(1), of ?g "a + ucast off"] by simp_all
  have "prg' = modify_block a (\<lambda>nb. nb\<lparr>b_n_bytes := off, b_bytes := take (unat off) (b_bytes b),
      b_tnext := a + ucast off, b_fnext := 0\<rparr>) ?p"
    using assms(2,3) by (auto simp: program_block_split_def Let_def split: if_splits)
  then show ?thesis using block_get_modify [OF p(1), of _ a "a + ucast off"] p(2) ne by simp
qed

text \<open>A comment is stored only when the length of the block is subtracted from an address below it, and wraps.\<close>

lemma set_comment_ignored:
  assumes "\<forall>b \<in> set (blocks prg). unat (b_n_bytes b) \<le> unat (b_addr b)"
  shows "program_block_set_comment addr c prg = prg"
proof -
  have "\<not> (addr \<ge> b_addr b \<and> addr < b_addr b - ucast (b_n_bytes b))" if "b \<in> set (blocks prg)" for b
  proof -
    have "(ucast (b_n_bytes b) :: ut64) \<le> b_addr b" using assms that by (simp add: word_le_nat_alt)
    then have "unat (b_addr b - ucast (b_n_bytes b)) \<le> unat (b_addr b)" by (subst unat_sub) simp_all
    then show ?thesis by (simp add: word_less_nat_alt word_le_nat_alt)
  qed
  then have "rupdate (\<lambda>b0. addr \<ge> b_addr b0 \<and> addr < b_addr b0 - ucast (b_n_bytes b0)) f (blocks prg) = blocks prg" for f
    unfolding rupdate_def by (subst update_first_none) auto
  then show ?thesis by (simp add: program_block_set_comment_def)
qed

end
