(* ===== verification/Analyze.thy ===== *)
theory Analyze
  imports Aop Rdb Config
begin

text \<open>
  The code analysis (\<^verbatim>\<open>src/src/analyze.c\<close>, and \<^verbatim>\<open>radare_set_block_size_i\<close> of \<^verbatim>\<open>src/src/radare.c\<close>): from an address the
  analyser of the architecture decodes opcodes up to the end of the basic block, and the analysis goes on
  at the successors, to a given depth. \<open>None\<close> is an access out of bounds or the end of the program.
  The arguments are the analyser (\<open>None\<close> is the null pointer), the contents \<open>aop0\<close> of the uninitialised
  \<^verbatim>\<open>aop\<close> of a visit, and \<open>alloc\<close>, which sizes the allocator grants. Interrupts do not arrive in between.
\<close>

section \<open>Model\<close>

definition DEFAULT_BLOCK_SIZE :: int where "DEFAULT_BLOCK_SIZE = 512"

definition section_is_x :: "ut64 \<Rightarrow> sections_state \<Rightarrow> bool" where
  "section_is_x addr st = (case section_get addr st of Some sec \<Rightarrow> srwx sec AND SECTION_X \<noteq> 0 | None \<Rightarrow> False)"

definition fresh_block :: "'w io_env \<Rightarrow> int \<Rightarrow> 'w core \<Rightarrow> 'w core" where
  "fresh_block env sz st = st\<lparr>r_cfg := (r_cfg st)\<lparr>c_block_size := sz, c_block := replicate (nat sz) (junk env)\<rparr>\<rparr>"

definition radare_set_block_size_i :: "'w io_env \<Rightarrow> (int \<Rightarrow> bool) \<Rightarrow> int \<Rightarrow> 'w core \<Rightarrow> ('w core \<times> int) option" where
  "radare_set_block_size_i env alloc sz0 st =
     (let sz = (if sz0 < 1 then 1 else sz0) in
      if alloc sz then radare_read env False (fresh_block env sz st)
      else if sz = DEFAULT_BLOCK_SIZE \<or> \<not> alloc DEFAULT_BLOCK_SIZE then None
      else Option.bind (radare_read env False
                 (fresh_block env DEFAULT_BLOCK_SIZE (emit [ErrOut (''Cannot allocate '' @ fmt_d (sz + 4) @ '' bytes'' @ nl)] st)))
             (\<lambda>(st', r). radare_read env False st'))"

text \<open>What the loops do with an opcode: \<open>o\<close> is the start of the block, \<open>n\<close> the offset behind the opcode.\<close>

definition nosplit_op :: "bool \<Rightarrow> bool \<Rightarrow> ut64 \<Rightarrow> nat \<Rightarrow> aop_t \<Rightarrow> program_t \<Rightarrow> aop_t \<times> program_t" where
  "nosplit_op callblocks refblocks oseek n aop prg =
     (if a_type aop = AOP_TYPE_JMP then (aop\<lparr>a_eob := True\<rparr>, prg)
      else if a_type aop = AOP_TYPE_CALL then (aop\<lparr>a_eob := callblocks\<rparr>, program_block_add_call oseek (a_jump aop) prg)
      else if a_type aop = AOP_TYPE_PUSH \<and> a_ref aop \<noteq> 0 \<and> refblocks then
        (aop\<lparr>a_eob := True, a_jump := a_ref aop, a_fail := oseek + word_of_nat n\<rparr>, program_block_add_call oseek (a_ref aop) prg)
      else (aop, prg))"

definition split_op :: "bool \<Rightarrow> bool \<Rightarrow> ut64 \<Rightarrow> nat \<Rightarrow> aop_t \<Rightarrow> program_t \<Rightarrow> aop_t \<times> program_t" where
  "split_op callblocks refblocks oseek n aop prg =
     (if a_type aop \<in> {AOP_TYPE_JMP, AOP_TYPE_TRAP, AOP_TYPE_RET} then (aop\<lparr>a_eob := True\<rparr>, prg)
      else if a_type aop = AOP_TYPE_CALL then (aop\<lparr>a_eob := callblocks\<rparr>, prg)
      else if a_type aop = AOP_TYPE_PUSH \<and> a_ref aop \<noteq> 0 \<and> refblocks then
        (aop\<lparr>a_eob := True, a_jump := a_ref aop, a_fail := oseek + word_of_nat n\<rparr>, program_block_add_call oseek (a_ref aop) prg)
      else (aop, prg))"

text \<open>
  The loop over the opcodes of a block. \<open>buf\<close> is the part of the 4096-byte buffer filled so far, whose length is
  the offset; the block of the core has 32 bytes behind it that were never written.
\<close>

definition block_mem :: "'w io_env \<Rightarrow> 'w an_state \<Rightarrow> u8 list" where
  "block_mem env s = c_block (r_cfg (an_core s)) @ replicate 32 (junk env)"

function walk ::
  "'w io_env \<Rightarrow> 'w aop_fun \<Rightarrow> (nat \<Rightarrow> aop_t \<Rightarrow> program_t \<Rightarrow> aop_t \<times> program_t) \<Rightarrow> u8 list \<Rightarrow> aop_t \<Rightarrow> program_t \<Rightarrow>
   'w an_state \<Rightarrow> (u8 list \<times> aop_t \<times> program_t \<times> 'w an_state) option" where
  "walk env f opf buf aop prg s =
     (let cfg = r_cfg (an_core s) in
      if a_eob aop \<or> int (length buf) + 4 \<ge> c_block_size cfg \<or> c_interrupted cfg then Some (buf, aop, prg, s)
      else
        case f (c_seek cfg + word_of_nat (length buf)) (drop (length buf) (block_mem env s)) aop s of
          None \<Rightarrow> None
        | Some (s', aop', r) \<Rightarrow>
            let sz = unat (word_of_int r :: ut32); n = length buf + sz in
            if sz = 0 then Some (buf, aop', prg, s')
            else if n > 4096 \<or> n > length (block_mem env s') then None
            else
              let (aop'', prg') = opf n aop' prg in
              walk env f opf (buf @ take sz (drop (length buf) (block_mem env s'))) aop'' prg' s')"
  by pat_completeness auto
termination by (relation "measure (\<lambda>(env, f, opf, buf, aop, prg, s). 4096 - length buf)") auto

declare walk.simps [simp del]

definition cfg_int :: "'w io_env \<Rightarrow> string \<Rightarrow> bool" where
  "cfg_int env k \<longleftrightarrow> (ucast (cfg_get_i env k) :: ut32) \<noteq> 0"

definition set_seek :: "ut64 \<Rightarrow> 'w an_state \<Rightarrow> 'w an_state" where
  "set_seek a s = s\<lparr>an_core := (an_core s)\<lparr>r_cfg := (r_cfg (an_core s))\<lparr>c_seek := a\<rparr>\<rparr>\<rparr>"

text \<open>The code of both functions up to the loop: the seek to where the core is, and two reads of the block at the address.\<close>

definition enter_block :: "'w io_env \<Rightarrow> ut64 \<Rightarrow> 'w an_state \<Rightarrow> 'w an_state option" where
  "enter_block env seek s =
     (let s1 = s\<lparr>an_core := fst (radare_seek env (c_seek (r_cfg (an_core s))) SEEK_SET (an_core s))\<rparr>;
          c2 = an_core (set_seek seek s1)
      in Option.bind (radare_read env False c2) (\<lambda>(c3, r). map_option (\<lambda>(c4, r). s1\<lparr>an_core := c4\<rparr>) (radare_read env False c3)))"

definition block_type :: "aop_t \<Rightarrow> int" where
  "block_type aop =
     (if a_jump aop \<noteq> 0 \<and> a_fail aop = 0 then BLK_TYPE_BODY
      else if a_jump aop \<noteq> 0 \<and> a_fail aop \<noteq> 0 then BLK_TYPE_BODY
      else if a_type aop = AOP_TYPE_RET then BLK_TYPE_LAST
      else BLK_TYPE_HEAD)"

definition fill_block :: "u8 list \<Rightarrow> aop_t \<Rightarrow> block_t \<Rightarrow> block_t" where
  "fill_block buf aop b =
     b\<lparr>b_bytes := buf, b_n_bytes := word_of_nat (length buf), b_tnext := a_jump aop, b_fnext := a_fail aop, b_type := block_type aop\<rparr>"

fun code_analyze_r_nosplit ::
  "'w io_env \<Rightarrow> 'w aop_fun option \<Rightarrow> (ut64 \<Rightarrow> aop_t) \<Rightarrow> nat \<Rightarrow> ut64 \<Rightarrow> program_t \<Rightarrow> 'w an_state \<Rightarrow>
   (program_t \<times> 'w an_state \<times> int) option" where
  "code_analyze_r_nosplit env arch_aop aop0 depth seek prg s =
     (case (arch_aop, depth) of
        (None, _) \<Rightarrow> Some (prg, s, - 1)
      | (Some f, 0) \<Rightarrow> Some (prg, s, 0)
      | (Some f, Suc d) \<Rightarrow>
          if c_interrupted (r_cfg (an_core s)) \<or> program_block_get prg seek \<noteq> None then Some (prg, s, 0)
          else do {
            s1 \<leftarrow> enter_block env seek s;
            (buf, aop, prg1, s2) \<leftarrow> walk env f (nosplit_op (cfg_int env ''graph.callblocks'') (cfg_int env ''graph.refblocks'') seek)
               [] ((aop0 seek)\<lparr>a_eob := False\<rparr>) prg s1;
            let s3 = set_seek (c_seek (r_cfg (an_core s))) s2;
            let prg2 = modify_block seek (fill_block buf aop) prg1;
            (prg3, s4, _) \<leftarrow> (if a_jump aop \<noteq> 0 then code_analyze_r_nosplit env arch_aop aop0 d (a_jump aop) prg2 s3
                               else Some (prg2, s3, 0));
            let fnext = (case program_block_get prg3 seek of Some blk \<Rightarrow> b_fnext blk | None \<Rightarrow> 0);
            (prg4, s5, _) \<leftarrow> (if fnext \<noteq> 0 then code_analyze_r_nosplit env arch_aop aop0 d fnext prg3 s4 else Some (prg3, s4, 0));
            Some (prg4, s5, 0)
          })"

declare code_analyze_r_nosplit.simps [simp del]

fun code_analyze_r_split ::
  "'w io_env \<Rightarrow> 'w aop_fun option \<Rightarrow> (ut64 \<Rightarrow> aop_t) \<Rightarrow> nat \<Rightarrow> ut64 \<Rightarrow> program_t \<Rightarrow> 'w an_state \<Rightarrow>
   (program_t \<times> 'w an_state \<times> int) option" where
  "code_analyze_r_split env arch_aop aop0 depth seek prg s =
     (case (arch_aop, depth) of
        (None, _) \<Rightarrow> Some (prg, s, - 1)
      | (Some f, 0) \<Rightarrow> Some (prg, s, 0)
      | (Some f, Suc d) \<Rightarrow> do {
            s1 \<leftarrow> enter_block env seek s;
            let here = c_seek (r_cfg (an_core s1));
            (prg1, blf) \<leftarrow> program_block_split_new here prg;
            let (aop1, s2) = (case blf of
               None \<Rightarrow> ((aop0 seek)\<lparr>a_eob := False\<rparr>, s1)
             | Some b \<Rightarrow> ((aop0 seek)\<lparr>a_jump := b_tnext b, a_fail := b_fnext b, a_eob := True\<rparr>,
                          s1\<lparr>an_core := emit [ErrOut (''Block split at address '' @ hex_0x here @ nl)] (an_core s1)\<rparr>));
            (buf, aop, prg2, s3) \<leftarrow> walk env f (split_op (cfg_int env ''graph.callblocks'') (cfg_int env ''graph.refblocks'') seek)
               [] aop1 prg1 s2;
            let s4 = set_seek (c_seek (r_cfg (an_core s))) s3;
            (prg3, s5, _) \<leftarrow> (if a_jump aop \<noteq> 0 then code_analyze_r_split env arch_aop aop0 d (a_jump aop) prg2 s4
                               else Some (prg2, s4, 0));
            (prg4, s6, _) \<leftarrow> (if a_fail aop \<noteq> 0 then code_analyze_r_split env arch_aop aop0 d (a_fail aop) prg3 s5
                               else Some (prg3, s5, 0));
            Some (prg4, s6, 0)
          })"

declare code_analyze_r_split.simps [simp del]

text \<open>
  \<^verbatim>\<open>code_analyze\<close> returns the program; \<open>junk_prg\<close> is what the memory of a new one holds, \<^verbatim>\<open>radare_controlc\<close> clears the
  interrupt flag. With \<^verbatim>\<open>graph.split\<close> the second pass runs one level less deep.
\<close>

definition code_analyze ::
  "'w io_env \<Rightarrow> (int \<Rightarrow> bool) \<Rightarrow> program_t \<Rightarrow> 'w aop_fun option \<Rightarrow> (ut64 \<Rightarrow> aop_t) \<Rightarrow> ut64 \<Rightarrow> int \<Rightarrow> 'w an_state \<Rightarrow>
   (program_t \<times> 'w an_state) option" where
  "code_analyze env alloc junk_prg arch_aop aop0 seek depth0 s =
     (let bsize = c_block_size (r_cfg (an_core s));
          prg = (program_new junk_prg None)\<lparr>pg_entry := c_seek (r_cfg (an_core s))\<rparr>;
          depth = (if depth0 > 30 then 30 else depth0)
      in do {
        (c1, _) \<leftarrow> radare_set_block_size_i env alloc 4096 (an_core s);
        (c2, _) \<leftarrow> radare_read env False c1;
        let s2 = s\<lparr>an_core := c2\<lparr>r_cfg := (r_cfg c2)\<lparr>c_interrupted := False\<rparr>\<rparr>\<rparr>;
        (prg1, s3, _) \<leftarrow> code_analyze_r_nosplit env arch_aop aop0 (nat (depth - 1)) seek prg s2;
        (prg2, s4, _) \<leftarrow> (if cfg_get env ''graph.split''
                           then code_analyze_r_split env arch_aop aop0 (nat (depth - 2)) seek prg1 s3 else Some (prg1, s3, 0));
        (c5, _) \<leftarrow> radare_set_block_size_i env alloc bsize (an_core s4);
        Some (prg2, s4\<lparr>an_core := c5\<rparr>)
      })"

section \<open>The loop changes one block\<close>

lemma walk_cases:
  assumes "walk env f opf buf aop prg s = Some (buf', aop', prg', s')"
  obtains (stop) "buf' = buf" "aop' = aop" "prg' = prg" "s' = s"
      "a_eob aop \<or> int (length buf) + 4 \<ge> c_block_size (r_cfg (an_core s)) \<or> c_interrupted (r_cfg (an_core s))"
  | (invalid) r where "buf' = buf" "prg' = prg" "\<not> a_eob aop" "int (length buf) + 4 < c_block_size (r_cfg (an_core s))"
      "f (c_seek (r_cfg (an_core s)) + word_of_nat (length buf)) (drop (length buf) (block_mem env s)) aop s = Some (s', aop', r)"
      "unat (word_of_int r :: ut32) = 0"
  | (step) s1 aop1 aop2 prg2 r sz where "sz = unat (word_of_int r :: ut32)" "sz > 0"
      "\<not> a_eob aop" "int (length buf) + 4 < c_block_size (r_cfg (an_core s))"
      "f (c_seek (r_cfg (an_core s)) + word_of_nat (length buf)) (drop (length buf) (block_mem env s)) aop s = Some (s1, aop1, r)"
      "length buf + sz \<le> 4096" "length buf + sz \<le> length (block_mem env s1)" "opf (length buf + sz) aop1 prg = (aop2, prg2)"
      "walk env f opf (buf @ take sz (drop (length buf) (block_mem env s1))) aop2 prg2 s1 = Some (buf', aop', prg', s')"
  using assms
  by (subst (asm) walk.simps) (auto simp: Let_def not_le not_less split: if_splits option.splits prod.splits)

lemma walk_invariant [consumes 1, case_names start invalid step]:
  assumes "walk env f opf buf aop prg s = Some (buf', aop', prg', s')"
    and "P buf aop prg s"
    and "\<And>buf aop prg s s1 aop1 r. P buf aop prg s \<Longrightarrow> \<not> a_eob aop \<Longrightarrow>
      f (c_seek (r_cfg (an_core s)) + word_of_nat (length buf)) (drop (length buf) (block_mem env s)) aop s = Some (s1, aop1, r) \<Longrightarrow>
      unat (word_of_int r :: ut32) = 0 \<Longrightarrow> P buf aop1 prg s1"
    and "\<And>buf aop prg s s1 aop1 r sz aop2 prg2. P buf aop prg s \<Longrightarrow> \<not> a_eob aop \<Longrightarrow>
      f (c_seek (r_cfg (an_core s)) + word_of_nat (length buf)) (drop (length buf) (block_mem env s)) aop s = Some (s1, aop1, r) \<Longrightarrow>
      sz = unat (word_of_int r :: ut32) \<Longrightarrow> sz > 0 \<Longrightarrow> length buf + sz \<le> 4096 \<Longrightarrow> length buf + sz \<le> length (block_mem env s1) \<Longrightarrow>
      opf (length buf + sz) aop1 prg = (aop2, prg2) \<Longrightarrow>
      P (buf @ take sz (drop (length buf) (block_mem env s1))) aop2 prg2 s1"
  shows "P buf' aop' prg' s'"
  using assms(1,2)
proof (induction "4096 - length buf" arbitrary: buf aop prg s rule: less_induct)
  case less
  from less.prems(1) show ?case
  proof (cases rule: walk_cases)
    case (step s1 aop1 aop2 prg2 r sz)
    then have "P (buf @ take sz (drop (length buf) (block_mem env s1))) aop2 prg2 s1"
      using assms(4) [OF less.prems(2)] by blast
    then show ?thesis using less.hyps [OF _ step(9)] step(2,6,7) by simp
  qed (use less.prems assms(3) in blast)+
qed

lemma walk_length:
  assumes "walk env f opf buf aop prg s = Some (buf', aop', prg', s')" and "length buf \<le> 4096"
  shows "length buf' \<le> 4096"
  using assms(1) by (induction rule: walk_invariant) (use assms(2) in auto)

text \<open>The contract of what a loop does with an opcode: the program is changed at the block that is built, and nowhere else.\<close>

locale block_visitor =
  fixes base :: ut64
    and opf :: "nat \<Rightarrow> aop_t \<Rightarrow> program_t \<Rightarrow> aop_t \<times> program_t"
  assumes opf_ok: "prog_ok prg \<Longrightarrow> prog_ok (snd (opf n aop prg))"
    and opf_local: "prog_ok prg \<Longrightarrow> a \<noteq> base \<Longrightarrow> program_block_get (snd (opf n aop prg)) a = program_block_get prg a"
begin

lemma walk_local:
  assumes "walk env f opf buf aop prg s = Some (buf', aop', prg', s')" and "prog_ok prg"
  shows "prog_ok prg' \<and> (\<forall>a. a \<noteq> base \<longrightarrow> program_block_get prg' a = program_block_get prg a)"
  using assms(1)
proof (induction rule: walk_invariant)
  case (step buf aop prg1 s s1 aop1 r sz aop2 prg2)
  then show ?case using opf_ok [of prg1 "length buf + sz" aop1] opf_local [of prg1 _ "length buf + sz" aop1] by simp
qed (use assms(2) in auto)

end

interpretation nosplit: block_visitor base "nosplit_op callblocks refblocks base" for callblocks refblocks base
  by unfold_locales (simp_all add: nosplit_op_def program_block_add_call_def block_get_modify)

interpretation split: block_visitor base "split_op callblocks refblocks base" for callblocks refblocks base
  by unfold_locales (simp_all add: split_op_def program_block_add_call_def block_get_modify)

section \<open>The graph\<close>

text \<open>\<open>flows prg a t\<close>: the block at \<open>a\<close> has the successor \<open>t\<close>.\<close>

definition flows :: "program_t \<Rightarrow> ut64 \<Rightarrow> ut64 \<Rightarrow> bool" where
  "flows prg a t \<longleftrightarrow> (case program_block_get prg a of Some b \<Rightarrow> t \<noteq> 0 \<and> (t = b_tnext b \<or> t = b_fnext b) | None \<Rightarrow> False)"

definition prog_le :: "program_t \<Rightarrow> program_t \<Rightarrow> bool" where
  "prog_le prg prg' \<longleftrightarrow> (\<forall>a b. program_block_get prg a = Some b \<longrightarrow> program_block_get prg' a = Some b)"

lemma prog_le_refl [simp]: "prog_le prg prg"
  by (simp add: prog_le_def)

lemma prog_le_trans [trans]: "prog_le p q \<Longrightarrow> prog_le q r \<Longrightarrow> prog_le p r"
  by (simp add: prog_le_def)

lemma flows_mono: "prog_le prg prg' \<Longrightarrow> (flows prg)\<^sup>*\<^sup>* a t \<Longrightarrow> (flows prg')\<^sup>*\<^sup>* a t"
  by (erule rtranclp_mono [THEN predicate2D, rotated]) (auto simp: flows_def prog_le_def split: option.splits)

lemma fill_block_addr [simp]: "b_addr (fill_block buf aop b) = b_addr b"
  by (simp add: fill_block_def)

text \<open>A call that returns: it stops at once, or visits the block and then its successors.\<close>

lemma nosplit_cases:
  assumes "code_analyze_r_nosplit env arch aop0 depth a prg s = Some (prg', s', r)"
  obtains (skip) "prg' = prg" "s' = s"
      "arch = None \<or> depth = 0 \<or> c_interrupted (r_cfg (an_core s)) \<or> program_block_get prg a \<noteq> None"
  | (visit) f d s1 buf aop prg1 s2 prg3 s4 r3 r4 where "arch = Some f" "depth = Suc d" "program_block_get prg a = None"
      "enter_block env a s = Some s1" "\<not> c_interrupted (r_cfg (an_core s))"
      "walk env f (nosplit_op (cfg_int env ''graph.callblocks'') (cfg_int env ''graph.refblocks'') a)
         [] ((aop0 a)\<lparr>a_eob := False\<rparr>) prg s1 = Some (buf, aop, prg1, s2)"
      "(if a_jump aop \<noteq> 0 then code_analyze_r_nosplit env arch aop0 d (a_jump aop) (modify_block a (fill_block buf aop) prg1)
           (set_seek (c_seek (r_cfg (an_core s))) s2)
        else Some (modify_block a (fill_block buf aop) prg1, set_seek (c_seek (r_cfg (an_core s))) s2, 0)) = Some (prg3, s4, r3)"
      "(let fnext = (case program_block_get prg3 a of Some blk \<Rightarrow> b_fnext blk | None \<Rightarrow> 0) in
        if fnext \<noteq> 0 then code_analyze_r_nosplit env arch aop0 d fnext prg3 s4 else Some (prg3, s4, 0)) = Some (prg', s', r4)"
proof (cases "arch = None \<or> depth = 0 \<or> c_interrupted (r_cfg (an_core s)) \<or> program_block_get prg a \<noteq> None")
  case True
  with assms skip show ?thesis by (subst (asm) code_analyze_r_nosplit.simps) (auto split: option.splits nat.splits if_splits)
next
  case False
  then obtain f d where fd: "arch = Some f" "depth = Suc d" by (cases depth) auto
  from assms False show ?thesis unfolding fd
    by (subst (asm) code_analyze_r_nosplit.simps)
      (auto simp: Let_def fd bind_eq_Some_conv split: prod.splits intro!: visit [unfolded Let_def])
qed

text \<open>
  The contract of one visit: \<open>I\<close> holds of the state between visits, \<open>Q a buf aop\<close> of the bytes of a block and the
  opcode that ends it. The analysis then gives every new block that quality.
\<close>

definition filled :: "(ut64 \<Rightarrow> u8 list \<Rightarrow> aop_t \<Rightarrow> bool) \<Rightarrow> ut64 \<Rightarrow> block_t \<Rightarrow> bool" where
  "filled Q a b \<longleftrightarrow> (\<exists>aop. Q a (b_bytes b) aop \<and> b_tnext b = a_jump aop \<and> b_fnext b = a_fail aop \<and>
     b_type b = block_type aop) \<and> unat (b_n_bytes b) = length (b_bytes b) \<and> length (b_bytes b) \<le> 4096"

locale analysis =
  fixes env :: "'w io_env" and f :: "'w aop_fun" and aop0 :: "ut64 \<Rightarrow> aop_t"
    and I :: "'w an_state \<Rightarrow> bool" and Q :: "ut64 \<Rightarrow> u8 list \<Rightarrow> aop_t \<Rightarrow> bool"
  assumes one_visit: "I s \<Longrightarrow> enter_block env a s = Some s1 \<Longrightarrow>
     walk env f (nosplit_op (cfg_int env ''graph.callblocks'') (cfg_int env ''graph.refblocks'') a)
       [] ((aop0 a)\<lparr>a_eob := False\<rparr>) prg s1 = Some (buf, aop, prg1, s2) \<Longrightarrow>
     I (set_seek (c_seek (r_cfg (an_core s))) s2) \<and> Q a buf aop"
begin

lemma nosplit_graph:
  assumes "prog_ok prg" and "I s" and "code_analyze_r_nosplit env (Some f) aop0 depth a prg s = Some (prg', s', r)"
  shows "prog_ok prg' \<and> prog_le prg prg' \<and> I s' \<and> c_seek (r_cfg (an_core s')) = c_seek (r_cfg (an_core s)) \<and>
    (\<forall>x b. program_block_get prg' x = Some b \<longrightarrow> program_block_get prg x = Some b \<or> filled Q x b \<and> (flows prg')\<^sup>*\<^sup>* a x) \<and>
    (depth > 0 \<and> \<not> c_interrupted (r_cfg (an_core s)) \<longrightarrow> program_block_get prg' a \<noteq> None)"
  using assms
proof (induction depth arbitrary: a prg s prg' s' r)
  case 0
  from 0(3) show ?case by (cases rule: nosplit_cases) (use 0 in auto)
next
  case (Suc d)
  from Suc.prems(3) show ?case
  proof (cases rule: nosplit_cases)
    case skip
    with Suc.prems show ?thesis by auto
  next
    case (visit g e s1 buf aop prg1 s2 prg3 s4 r3 r4)
    have fe: "g = f" "e = d" using visit(1,2) by simp_all
    let ?s3 = "set_seek (c_seek (r_cfg (an_core s))) s2"
    let ?b = "fill_block buf aop (block_or_new prg1 a)"
    define prg2 where "prg2 = modify_block a (fill_block buf aop) prg1"
    have w: "prog_ok prg1" "length buf \<le> 4096" "x \<noteq> a \<Longrightarrow> program_block_get prg1 x = program_block_get prg x" for x
      using nosplit.walk_local [OF visit(6) Suc.prems(1)] walk_length [OF visit(6)] by auto
    have v: "I ?s3" "Q a buf aop" using one_visit [OF Suc.prems(2) visit(4)] visit(6) fe by blast+
    have p2: "prog_ok prg2" "program_block_get prg2 x = (if x = a then Some ?b else program_block_get prg x)" for x
      using block_get_modify [OF w(1), of "fill_block buf aop" a] w(3) by (auto simp: prg2_def)
    have le2: "prog_le prg prg2" using p2(2) visit(3) by (auto simp: prog_le_def)
    have seek3: "c_seek (r_cfg (an_core ?s3)) = c_seek (r_cfg (an_core s))" by (simp add: set_seek_def)
    have fb: "filled Q a ?b" using v(2) w(2) by (auto simp: filled_def fill_block_def unat_of_nat)
    have jump: "prog_ok prg3 \<and> prog_le prg2 prg3 \<and> I s4 \<and> c_seek (r_cfg (an_core s4)) = c_seek (r_cfg (an_core s)) \<and>
      (\<forall>x b. program_block_get prg3 x = Some b \<longrightarrow>
         program_block_get prg2 x = Some b \<or> filled Q x b \<and> a_jump aop \<noteq> 0 \<and> (flows prg3)\<^sup>*\<^sup>* (a_jump aop) x)"
    proof (cases "a_jump aop = 0")
      case True
      with visit(7) p2(1) v(1) seek3 show ?thesis by (auto simp: prg2_def)
    next
      case False
      then have "code_analyze_r_nosplit env (Some f) aop0 d (a_jump aop) prg2 ?s3 = Some (prg3, s4, r3)"
        using visit(1,7) fe by (simp add: prg2_def)
      from Suc.IH [OF p2(1) v(1) this] False seek3 show ?thesis by simp
    qed
    then have "program_block_get prg3 a = Some ?b" using p2(2) by (simp add: prog_le_def)
    then have fn: "(case program_block_get prg3 a of Some blk \<Rightarrow> b_fnext blk | None \<Rightarrow> 0) = a_fail aop"
      by (simp add: fill_block_def)
    have fail: "prog_ok prg' \<and> prog_le prg3 prg' \<and> I s' \<and> c_seek (r_cfg (an_core s')) = c_seek (r_cfg (an_core s)) \<and>
      (\<forall>x b. program_block_get prg' x = Some b \<longrightarrow>
         program_block_get prg3 x = Some b \<or> filled Q x b \<and> a_fail aop \<noteq> 0 \<and> (flows prg')\<^sup>*\<^sup>* (a_fail aop) x)"
    proof (cases "a_fail aop = 0")
      case True
      with visit(8) jump fn show ?thesis by (auto simp: Let_def)
    next
      case False
      then have "code_analyze_r_nosplit env (Some f) aop0 d (a_fail aop) prg3 s4 = Some (prg', s', r4)"
        using visit(1,8) fe fn by (simp add: Let_def)
      from Suc.IH [OF _ _ this] jump False show ?thesis by simp
    qed
    have le: "prog_le prg3 prg'" "prog_le prg2 prg'" using jump fail prog_le_trans by blast+
    then have ga: "program_block_get prg' a = Some ?b" using p2(2) by (simp add: prog_le_def)
    have edge: "flows prg' a t" if "t \<noteq> 0" "t = a_jump aop \<or> t = a_fail aop" for t
      using that ga by (auto simp: flows_def fill_block_def)
    have "program_block_get prg x = Some b \<or> filled Q x b \<and> (flows prg')\<^sup>*\<^sup>* a x"
      if xb: "program_block_get prg' x = Some b" for x b
    proof -
      consider "program_block_get prg2 x = Some b"
        | "filled Q x b" "a_jump aop \<noteq> 0" "(flows prg3)\<^sup>*\<^sup>* (a_jump aop) x"
        | "filled Q x b" "a_fail aop \<noteq> 0" "(flows prg')\<^sup>*\<^sup>* (a_fail aop) x"
        using fail jump xb by blast
      then show ?thesis
      proof cases
        case 1
        then show ?thesis using p2(2) fb by (auto split: if_splits)
      next
        case 2
        then show ?thesis using edge flows_mono [OF le(1)] by (metis converse_rtranclp_into_rtranclp)
      next
        case 3
        then show ?thesis using edge by (metis converse_rtranclp_into_rtranclp)
      qed
    qed
    moreover have "prog_le prg prg'" using le2 le(2) prog_le_trans by blast
    ultimately show ?thesis using fail ga by blast
  qed
qed

end

interpretation any: analysis env f aop0 "\<lambda>_. True" "\<lambda>_ _ _. True" for env f aop0
  by unfold_locales simp

text \<open>The second pass splits blocks and adds calls; it keeps the addresses unique.\<close>

lemma split_visit:
  assumes "code_analyze_r_split env (Some f) aop0 (Suc d) a prg s = Some (prg', s', r)"
  obtains x prg1 blf aop1 s1 buf aop prg2 s3 s4 prg3 s5 r3 r4 where
    "program_block_split_new x prg = Some (prg1, blf)"
    "walk env f (split_op (cfg_int env ''graph.callblocks'') (cfg_int env ''graph.refblocks'') a) [] aop1 prg1 s1 = Some (buf, aop, prg2, s3)"
    "(if a_jump aop \<noteq> 0 then code_analyze_r_split env (Some f) aop0 d (a_jump aop) prg2 s4 else Some (prg2, s4, 0)) = Some (prg3, s5, r3)"
    "(if a_fail aop \<noteq> 0 then code_analyze_r_split env (Some f) aop0 d (a_fail aop) prg3 s5 else Some (prg3, s5, 0)) = Some (prg', s', r4)"
  using assms [unfolded code_analyze_r_split.simps [of env "Some f" aop0 "Suc d" a prg s]]
  by (simp add: Let_def bind_eq_Some_conv split_beta split_paired_Ex cong: if_cong) blast

lemma split_ok:
  assumes "prog_ok prg" and "code_analyze_r_split env arch aop0 depth a prg s = Some (prg', s', r)"
  shows "prog_ok prg'"
  using assms
proof (induction depth arbitrary: a prg s prg' s' r)
  case 0
  then show ?case by (subst (asm) code_analyze_r_split.simps) (auto split: option.splits)
next
  case (Suc d)
  show ?case
  proof (cases arch)
    case None
    with Suc.prems show ?thesis by (subst (asm) code_analyze_r_split.simps) simp
  next
    case (Some f)
    from Suc.prems(2) [unfolded Some] show ?thesis
    proof (rule split_visit)
      fix x prg1 blf aop1 s1 buf aop prg2 s3 s4 prg3 s5 r3 r4
      assume 1: "program_block_split_new x prg = Some (prg1, blf)"
        and 2: "walk env f (split_op (cfg_int env ''graph.callblocks'') (cfg_int env ''graph.refblocks'') a)
          [] aop1 prg1 s1 = Some (buf, aop, prg2, s3)"
        and 3: "(if a_jump aop \<noteq> 0 then code_analyze_r_split env (Some f) aop0 d (a_jump aop) prg2 s4
          else Some (prg2, s4, 0)) = Some (prg3, s5, r3)"
        and 4: "(if a_fail aop \<noteq> 0 then code_analyze_r_split env (Some f) aop0 d (a_fail aop) prg3 s5
          else Some (prg3, s5, 0)) = Some (prg', s', r4)"
      have "prog_ok prg2" using split.walk_local [OF 2 split_new_ok [OF Suc.prems(1) 1]] by simp
      then have "prog_ok prg3" using 3 Suc.IH Some by (auto split: if_splits)
      then show ?thesis using 4 Suc.IH Some by (auto split: if_splits)
    qed
  qed
qed

section \<open>Analysers that leave the core alone\<close>

text \<open>
  The analysers of the PowerPC, SPARC, 68000, brainfuck and Java architectures do not read the device. For
  them the bytes of a block are a prefix of the window that was read at its address.
\<close>

locale core_analyser =
  fixes f :: "'w aop_fun"
  assumes keeps_core: "f a b aop s = Some (s', aop', r) \<Longrightarrow> an_core s' = an_core s"
begin

lemma walk_prefix:
  assumes "walk env f opf [] aop prg s = Some (buf', aop', prg', s')"
  shows "an_core s' = an_core s \<and> buf' = take (length buf') (block_mem env s)"
  using assms(1)
proof (induction rule: walk_invariant)
  case (step buf aop prg t s1 aop1 r sz aop2 prg2)
  have k: "an_core s1 = an_core s" using keeps_core [OF step(3)] step(1) by simp
  then have m: "block_mem env s1 = block_mem env s" by (simp add: block_mem_def)
  have l: "length (buf @ take sz (drop (length buf) (block_mem env s))) = length buf + sz" using step(7) m by simp
  show ?case unfolding m l using step(1) k by (simp add: take_add)
qed (use keeps_core in auto)

end

section \<open>Memory buffers\<close>

text \<open>
  What a read of the block gives on an open buffer \<open>m\<close>: the bytes when all of them are inside the buffer,
  otherwise none of them, and the block is filled with \<^verbatim>\<open>0xff\<close>.
\<close>

definition malloc_window :: "u8 list \<Rightarrow> ut64 \<Rightarrow> nat \<Rightarrow> u8 list" where
  "malloc_window m a n = (if unat a + n \<le> length m then read_mem m a n else replicate n 0xff)"

definition malloc_session ::
  "malloc_state io_env \<Rightarrow> int \<Rightarrow> int \<Rightarrow> (nat \<Rightarrow> bool) \<Rightarrow> (nat \<Rightarrow> u8 list option) \<Rightarrow> u8 list \<Rightarrow> malloc_state core \<Rightarrow> bool" where
  "malloc_session env ba dst alloc fresh m st \<longleftrightarrow>
     plugins env = [malloc_plugin ba dst alloc fresh] \<and> r_maps st = [] \<and> c_fd (r_cfg st) = MALLOC_FD \<and> c_vaddr (r_cfg st) = 0 \<and>
     malloc_valid (r_cfg st) (r_dev st) \<and> malloc_contents (r_dev st) = m"

lemma malloc_session_seek [simp]:
  "malloc_session env ba dst alloc fresh m (st\<lparr>r_cfg := (r_cfg st)\<lparr>c_seek := a\<rparr>\<rparr>) = malloc_session env ba dst alloc fresh m st"
  by (simp add: malloc_session_def malloc_valid_def)

lemma malloc_seek:
  assumes "malloc_session env ba dst alloc fresh m st"
  shows "fst (radare_seek env a SEEK_SET st) = (if a = UT64_MAX then st else st\<lparr>r_cfg := (r_cfg st)\<lparr>c_seek := a\<rparr>\<rparr>)"
  using assms
  by (auto simp: radare_seek_def malloc_session_def SEEK_SET_def SEEK_END_def io_lseek_def malloc_valid_def
      malloc_plugin_def malloc_handle_fd_def malloc_lseek_def MALLOC_FD_def split: if_splits)

lemma malloc_block_read_full:
  assumes "malloc_session env ba dst alloc fresh m st" and "c_seek (r_cfg st) \<noteq> UT64_MAX"
    and "unat (c_seek (r_cfg st)) + nat (c_block_size (r_cfg st)) < 2 ^ 64"
  shows "radare_read env False st =
    Some (st\<lparr>r_cfg := (r_cfg st)\<lparr>c_block := malloc_window m (c_seek (r_cfg st)) (nat (c_block_size (r_cfg st)))\<rparr>\<rparr>,
      if unat (c_seek (r_cfg st)) + nat (c_block_size (r_cfg st)) \<le> length m then dst else 0)"
proof -
  let ?a = "c_seek (r_cfg st)" and ?n = "nat (c_block_size (r_cfg st))"
  obtain b where b: "malloc_buf (r_dev st) = Some b" "b = m" "length b = unat (malloc_bufsz (r_dev st))"
      "c_size (r_cfg st) = ucast (malloc_bufsz (r_dev st))"
    using assms(1) by (auto simp: malloc_session_def malloc_valid_def malloc_contents_def)
  have st: "st\<lparr>r_cfg := (r_cfg st)\<lparr>c_seek := ?a\<rparr>\<rparr> = st" by simp
  have "unat (?a + word_of_nat ?n) = unat ?a + ?n" using assms(3) by (simp add: unat_word_ariths unat_of_nat)
  then have "?a + word_of_nat ?n > c_size (r_cfg st) \<longleftrightarrow> \<not> unat ?a + ?n \<le> length m"
    using b by (simp add: word_less_nat_alt not_le)
  then have rd: "malloc_read dst MALLOC_FD ?n (r_cfg st) (r_dev st) =
      Some (r_dev st, if unat ?a + ?n \<le> length m then read_mem m ?a ?n else [], if unat ?a + ?n \<le> length m then dst else 0)"
    using b by (simp add: malloc_read_def read_mem_def Let_def)
  then have "core_io_read env ?n st =
      Some (st, if unat ?a + ?n \<le> length m then read_mem m ?a ?n else [], if unat ?a + ?n \<le> length m then dst else 0)"
    using assms(1)
    by (simp add: core_io_read_def io_read_def malloc_session_def malloc_valid_def malloc_plugin_def malloc_handle_fd_def
        MALLOC_FD_def)
  then show ?thesis
    using assms(1,2) malloc_seek [OF assms(1), of ?a]
    by (auto simp: radare_read_def Let_def st malloc_session_def MALLOC_FD_def malloc_window_def length_read_mem)
qed

lemma malloc_block_read:
  assumes "malloc_session env ba dst alloc fresh m st" and "c_seek (r_cfg st) \<noteq> UT64_MAX"
    and "unat (c_seek (r_cfg st)) + nat (c_block_size (r_cfg st)) < 2 ^ 64"
  shows "\<exists>r. radare_read env False st =
    Some (st\<lparr>r_cfg := (r_cfg st)\<lparr>c_block := malloc_window m (c_seek (r_cfg st)) (nat (c_block_size (r_cfg st)))\<rparr>\<rparr>, r)"
  using malloc_block_read_full [OF assms] by blast

text \<open>A read of the block that returns changes the seek and the block only.\<close>

lemma malloc_block_keeps:
  assumes "malloc_session env ba dst alloc fresh m st" and "radare_read env False st = Some (st', r)"
  shows "\<exists>a b. st' = st\<lparr>r_cfg := (r_cfg st)\<lparr>c_seek := a, c_block := b\<rparr>\<rparr>"
proof (cases "c_seek (r_cfg st) = UT64_MAX")
  case True
  with assms show ?thesis
    by (intro exI [of _ 0] exI [of _ "c_block (r_cfg st)"]) (auto simp: radare_read_def malloc_session_def MALLOC_FD_def Let_def)
next
  case False
  have st: "st\<lparr>r_cfg := (r_cfg st)\<lparr>c_seek := c_seek (r_cfg st)\<rparr>\<rparr> = st" by simp
  have rd: "radare_read env False st = map_option (\<lambda>(st2, bytes, r).
      (st2\<lparr>r_cfg := (r_cfg st2)\<lparr>c_block := bytes @ replicate (nat (c_block_size (r_cfg st)) - length bytes) 0xff\<rparr>\<rparr>, r))
      (core_io_read env (nat (c_block_size (r_cfg st))) st)"
    using assms(1) False malloc_seek [OF assms(1), of "c_seek (r_cfg st)"]
    by (auto simp: radare_read_def Let_def st malloc_session_def MALLOC_FD_def)
  have "core_io_read env (nat (c_block_size (r_cfg st))) st = None \<or>
      (\<exists>bytes r. core_io_read env (nat (c_block_size (r_cfg st))) st = Some (st, bytes, r))"
    using assms(1) malloc_valid_def
    by (auto simp: core_io_read_def io_read_def malloc_session_def malloc_valid_def malloc_plugin_def malloc_handle_fd_def
        MALLOC_FD_def malloc_read_def Let_def split: option.splits)
  then obtain bytes r' where "core_io_read env (nat (c_block_size (r_cfg st))) st = Some (st, bytes, r')"
    using assms(2) rd by auto
  with assms(2) rd show ?thesis by (intro exI [of _ "c_seek (r_cfg st)"]) auto
qed

lemma malloc_session_block [simp]:
  "malloc_session env ba dst alloc fresh m (st\<lparr>r_cfg := (r_cfg st)\<lparr>c_seek := a, c_block := b\<rparr>\<rparr>) = malloc_session env ba dst alloc fresh m st"
  by (simp add: malloc_session_def malloc_valid_def)

text \<open>The start of a visit with blocks of 4096 bytes.\<close>

abbreviation an_session ::
  "malloc_state io_env \<Rightarrow> int \<Rightarrow> int \<Rightarrow> (nat \<Rightarrow> bool) \<Rightarrow> (nat \<Rightarrow> u8 list option) \<Rightarrow> u8 list \<Rightarrow> malloc_state an_state \<Rightarrow> bool" where
  "an_session env ba dst alloc fresh m s \<equiv>
     malloc_session env ba dst alloc fresh m (an_core s) \<and> c_block_size (r_cfg (an_core s)) = 4096"

lemma an_session_set_seek [simp]: "an_session env ba dst alloc fresh m (set_seek a s) = an_session env ba dst alloc fresh m s"
  by (simp add: set_seek_def)

lemma enter_block_session:
  assumes "an_session env ba dst alloc fresh m s" and "enter_block env a s = Some s1"
  shows "an_session env ba dst alloc fresh m s1"
proof -
  define c1 where "c1 = fst (radare_seek env (c_seek (r_cfg (an_core s))) SEEK_SET (an_core s))"
  have 1: "malloc_session env ba dst alloc fresh m c1" "c_block_size (r_cfg c1) = 4096"
    using assms(1) malloc_seek [of env ba dst alloc fresh m "an_core s"] by (simp_all add: c1_def)
  let ?c2 = "c1\<lparr>r_cfg := (r_cfg c1)\<lparr>c_seek := a\<rparr>\<rparr>"
  obtain c3 r3 c4 r4 where 2: "radare_read env False ?c2 = Some (c3, r3)" "radare_read env False c3 = Some (c4, r4)"
      "s1 = s\<lparr>an_core := c4\<rparr>"
    using assms(2) by (auto simp: enter_block_def set_seek_def Let_def bind_eq_Some_conv c1_def)
  have "malloc_session env ba dst alloc fresh m ?c2" using 1 by simp
  from malloc_block_keeps [OF this 2(1)] 1 have 3: "malloc_session env ba dst alloc fresh m c3" "c_block_size (r_cfg c3) = 4096"
    by auto
  from malloc_block_keeps [OF 3(1) 2(2)] 3 2(3) show ?thesis by auto
qed

lemma enter_block_window:
  assumes "an_session env ba dst alloc fresh m s" and "unat a + 4096 < 2 ^ 64"
  shows "\<exists>s1. enter_block env a s = Some s1 \<and> c_block (r_cfg (an_core s1)) = malloc_window m a 4096 \<and>
    c_seek (r_cfg (an_core s1)) = a \<and> c_interrupted (r_cfg (an_core s1)) = c_interrupted (r_cfg (an_core s)) \<and>
    an_session env ba dst alloc fresh m s1"
proof -
  define c1 where "c1 = fst (radare_seek env (c_seek (r_cfg (an_core s))) SEEK_SET (an_core s))"
  have 1: "malloc_session env ba dst alloc fresh m c1" "c_block_size (r_cfg c1) = 4096"
      "c_interrupted (r_cfg c1) = c_interrupted (r_cfg (an_core s))"
    using assms(1) malloc_seek [of env ba dst alloc fresh m "an_core s"] by (simp_all add: c1_def)
  let ?c2 = "c1\<lparr>r_cfg := (r_cfg c1)\<lparr>c_seek := a\<rparr>\<rparr>"
  let ?c3 = "?c2\<lparr>r_cfg := (r_cfg ?c2)\<lparr>c_block := malloc_window m a 4096\<rparr>\<rparr>"
  have a: "a \<noteq> UT64_MAX" using assms(2) by (auto simp: unsigned_minus_1_eq_mask mask_eq_exp_minus_1)
  have m2: "malloc_session env ba dst alloc fresh m ?c2" "malloc_session env ba dst alloc fresh m ?c3"
    using 1 by (simp_all add: malloc_session_def malloc_valid_def)
  obtain r where r: "radare_read env False ?c2 = Some (?c3, r)" using malloc_block_read [OF m2(1)] 1 a assms(2) by auto
  obtain r' where r': "radare_read env False ?c3 = Some (?c3, r')" using malloc_block_read [OF m2(2)] 1 a assms(2) by auto
  from r r' have "enter_block env a s = Some (s\<lparr>an_core := ?c3\<rparr>)"
    by (simp add: enter_block_def set_seek_def Let_def flip: c1_def)
  then show ?thesis using m2(2) 1 by auto
qed

text \<open>The quality of a block: its bytes are those of the window at its address, unless the window wraps around.\<close>

definition shows_window :: "u8 list \<Rightarrow> ut64 \<Rightarrow> u8 list \<Rightarrow> aop_t \<Rightarrow> bool" where
  "shows_window m a buf aop \<longleftrightarrow> (unat a + 4096 < 2 ^ 64 \<longrightarrow> buf = take (length buf) (malloc_window m a 4096))"

lemma length_malloc_window [simp]: "length (malloc_window m a n) = n"
  by (simp add: malloc_window_def length_read_mem)

locale mem_analyser = core_analyser f for f :: "malloc_state aop_fun"

sublocale mem_analyser < mem: analysis env f aop0 "an_session env ba dst alloc fresh m" "shows_window m"
  for env aop0 ba dst alloc fresh m
proof unfold_locales
  fix s a s1 prg buf aop prg1 s2
  assume i: "an_session env ba dst alloc fresh m s" and e: "enter_block env a s = Some s1"
    and w: "walk env f (nosplit_op (cfg_int env ''graph.callblocks'') (cfg_int env ''graph.refblocks'') a)
      [] ((aop0 a)\<lparr>a_eob := False\<rparr>) prg s1 = Some (buf, aop, prg1, s2)"
  have k: "an_core s2 = an_core s1" "buf = take (length buf) (block_mem env s1)" using walk_prefix [OF w] by auto
  have "an_session env ba dst alloc fresh m s2" using enter_block_session [OF i e] k(1) by simp
  moreover have "shows_window m a buf aop"
    using enter_block_window [OF i, of a] e k(2) walk_length [OF w] by (auto simp: shows_window_def block_mem_def)
  ultimately show "an_session env ba dst alloc fresh m (set_seek (c_seek (r_cfg (an_core s))) s2) \<and> shows_window m a buf aop"
    by simp
qed

lemma new_program_empty [simp]:
  "prog_ok ((program_new junk_prg file)\<lparr>pg_entry := x\<rparr>)" "program_block_get ((program_new junk_prg file)\<lparr>pg_entry := x\<rparr>) a = None"
  by (simp_all add: prog_ok_def program_new_def program_block_get_def rfind_def)

context mem_analyser
begin

lemma new_program_filled:
  assumes "an_session env ba dst alloc fresh m s"
    and "code_analyze_r_nosplit env (Some f) aop0 depth a ((program_new junk_prg None)\<lparr>pg_entry := x\<rparr>) s = Some (prg, s', r)"
  shows "prog_ok prg \<and> (\<forall>x b. program_block_get prg x = Some b \<longrightarrow> filled (shows_window m) x b)"
  using mem.nosplit_graph [OF new_program_empty(1) assms] by (simp only: new_program_empty(2)) blast

end

interpretation ppc: mem_analyser arch_ppc_aop
  by unfold_locales (auto simp: arch_ppc_aop_def Let_def split: if_splits)

interpretation sparc: mem_analyser arch_sparc_aop
  by unfold_locales (simp add: arch_sparc_aop_def)

interpretation m68k: mem_analyser arch_m68k_aop
  by unfold_locales (simp add: arch_m68k_aop_def)

interpretation bf: mem_analyser arch_bf_aop
  by unfold_locales (auto simp: arch_bf_aop_def Let_def split: list.splits if_splits)

interpretation java: mem_analyser arch_java_aop
  by unfold_locales (auto simp: arch_java_aop_def Let_def split: list.splits)

section \<open>The whole analysis\<close>

lemma code_analyze_passes:
  assumes "code_analyze env alloc junk_prg arch aop0 seek depth s = Some (prg, s')"
  obtains c1 r1 c2 r2 prg1 s3 r3 s4 r4 where
    "radare_set_block_size_i env alloc 4096 (an_core s) = Some (c1, r1)" "radare_read env False c1 = Some (c2, r2)"
    "code_analyze_r_nosplit env arch aop0 (nat (min depth 30 - 1)) seek
       ((program_new junk_prg None)\<lparr>pg_entry := c_seek (r_cfg (an_core s))\<rparr>)
       (s\<lparr>an_core := c2\<lparr>r_cfg := (r_cfg c2)\<lparr>c_interrupted := False\<rparr>\<rparr>\<rparr>) = Some (prg1, s3, r3)"
    "(if cfg_get env ''graph.split'' then code_analyze_r_split env arch aop0 (nat (min depth 30 - 2)) seek prg1 s3
      else Some (prg1, s3, 0)) = Some (prg, s4, r4)"
proof -
  have d: "(if depth > 30 then 30 else depth) = min depth 30" by (simp add: min_def)
  show ?thesis
    using assms unfolding code_analyze_def d
    by (simp add: Let_def bind_eq_Some_conv split_beta split_paired_Ex cong: if_cong) (use that in blast)
qed

section \<open>Java\<close>

text \<open>
  The Java analyser knows the size of an opcode, 1 to 5, and no targets: a block ends at its fall-through
  address or has no successor, and the analysis always returns.
\<close>

lemma java_size_bounds: "1 \<le> java_size c \<and> java_size c \<le> 5"
proof -
  have "list_all (\<lambda>(b, n). 1 \<le> n \<and> n \<le> 5) java_ops" by (simp add: java_ops_def)
  then show ?thesis
    unfolding java_size_def by (intro fold_invariant_list [of "\<lambda>n. 1 \<le> n \<and> n \<le> 5"]) (auto simp: list_all_iff)
qed

definition java_end :: "ut64 \<Rightarrow> u8 list \<Rightarrow> aop_t \<Rightarrow> bool" where
  "java_end a buf aop \<longleftrightarrow> buf \<noteq> [] \<and> a_jump aop = 0 \<and> a_fail aop \<in> {0, a + word_of_nat (length buf)}"

lemma java_opcode:
  assumes "arch_java_aop x b aop s = Some (s', aop', r)"
  shows "s' = s \<and> 1 \<le> r \<and> r \<le> 5 \<and> unat (word_of_int r :: ut32) = nat r \<and> a_jump aop' = 0 \<and> a_ref aop' = 0 \<and>
    a_fail aop' \<in> {0, x + word_of_nat (nat r)}"
proof -
  obtain c cs where b: "b = c # cs" using assms by (cases b) (auto simp: arch_java_aop_def)
  have r: "r = java_size c" "s' = s" using assms by (auto simp: arch_java_aop_def b Let_def)
  have "unat (word_of_int r :: ut32) = nat r"
    using java_size_bounds [of c] r by (simp add: unsigned_of_int take_bit_int_eq_self)
  then show ?thesis
    using assms java_size_bounds [of c] r by (auto simp: arch_java_aop_def b Let_def aop_unk_def aop_zero_def)
qed

lemma java_walk_end:
  assumes "walk env arch_java_aop (nosplit_op cb rb a) buf aop prg s = Some (buf', aop', prg', s')"
    and "c_seek (r_cfg (an_core s)) = a" and "java_end a buf aop"
  shows "java_end a buf' aop'"
proof -
  have "s' = s \<and> java_end a buf' aop'"
    using assms(1)
  proof (induction rule: walk_invariant)
    case (step buf aop prg t s1 aop1 r sz aop2 prg2)
    have o: "s1 = t" "sz = nat r" "a_jump aop1 = 0" "a_ref aop1 = 0" "a_fail aop1 \<in> {0, a + word_of_nat (length buf) + word_of_nat sz}"
      using java_opcode [OF step(3)] step(1,4) assms(2) by auto
    have "a_jump aop2 = a_jump aop1" "a_fail aop2 = a_fail aop1"
      using step(8) o(4) by (auto simp: nosplit_op_def split: if_splits)
    then show ?case using o step(1,5,7) by (auto simp: java_end_def add.assoc)
  next
    case (invalid buf aop prg t s1 aop1 r)
    then show ?case using java_opcode [OF invalid(3)] by simp
  qed (use assms(3) in simp)
  then show ?thesis by simp
qed

lemma java_walk_returns:
  assumes "c_block_size (r_cfg (an_core s)) = 4096" and "length (c_block (r_cfg (an_core s))) = 4096"
  shows "\<exists>buf' aop' prg' s'. walk env arch_java_aop opf buf aop prg s = Some (buf', aop', prg', s')"
proof (induction "4096 - length buf" arbitrary: buf aop prg rule: less_induct)
  case less
  show ?case
  proof (cases "a_eob aop \<or> int (length buf) + 4 \<ge> 4096 \<or> c_interrupted (r_cfg (an_core s))")
    case True
    then show ?thesis using assms by (subst walk.simps) simp
  next
    case False
    let ?b = "drop (length buf) (block_mem env s)" and ?x = "c_seek (r_cfg (an_core s)) + word_of_nat (length buf)"
    have len: "length (block_mem env s) = 4128" using assms by (simp add: block_mem_def)
    have "?b \<noteq> []" using False len by auto
    then obtain c cs where "?b = c # cs" by (cases ?b) auto
    then obtain s1 aop1 r where f: "arch_java_aop ?x ?b aop s = Some (s1, aop1, r)"
      by (simp add: arch_java_aop_def Let_def)
    note o = java_opcode [OF f]
    obtain aop2 prg2 where p: "opf (length buf + nat r) aop1 prg = (aop2, prg2)" by fastforce
    let ?buf = "buf @ take (nat r) ?b"
    have "length ?buf = length buf + nat r" using o False len by auto
    then have "4096 - length ?buf < 4096 - length buf" using o False by linarith
    from less [OF this] obtain buf' aop' prg' s' where "walk env arch_java_aop opf ?buf aop2 prg2 s = Some (buf', aop', prg', s')"
      by blast
    moreover have "walk env arch_java_aop opf buf aop prg s = walk env arch_java_aop opf ?buf aop2 prg2 s"
      using False f o p len assms(1) by (subst walk.simps) (auto simp: Let_def)
    ultimately show ?thesis by auto
  qed
qed

lemma java_visit_end:
  assumes "walk env arch_java_aop (nosplit_op cb rb a) [] aop prg s = Some (buf', aop', prg', s')"
    and "c_seek (r_cfg (an_core s)) = a" and "c_block_size (r_cfg (an_core s)) = 4096" and "\<not> a_eob aop"
    and "\<not> c_interrupted (r_cfg (an_core s))"
  shows "java_end a buf' aop'"
  using assms(1)
proof (cases rule: walk_cases)
  case (step s1 aop1 aop2 prg2 r sz)
  note o = java_opcode [OF step(5)]
  have "a_jump aop2 = a_jump aop1" "a_fail aop2 = a_fail aop1"
    using step(8) o by (auto simp: nosplit_op_def split: if_splits)
  then have "java_end a (take sz (block_mem env s1)) aop2"
    using o step(1,2,7) assms(2) by (auto simp: java_end_def)
  then show ?thesis using java_walk_end [OF step(9)] o assms(2) by simp
next
  case (invalid r)
  then show ?thesis using java_opcode [OF invalid(5)] by simp
qed (use assms in auto)

text \<open>A session that no interrupt has reached.\<close>

abbreviation java_session ::
  "malloc_state io_env \<Rightarrow> int \<Rightarrow> int \<Rightarrow> (nat \<Rightarrow> bool) \<Rightarrow> (nat \<Rightarrow> u8 list option) \<Rightarrow> u8 list \<Rightarrow> malloc_state an_state \<Rightarrow> bool" where
  "java_session env ba dst alloc fresh m s \<equiv> an_session env ba dst alloc fresh m s \<and> \<not> c_interrupted (r_cfg (an_core s))"

lemma java_nosplit_returns:
  assumes "prog_ok prg" and "java_session env ba dst alloc fresh m s" and "unat a + 4096 * Suc depth < 2 ^ 64"
  shows "\<exists>prg' s' r. code_analyze_r_nosplit env (Some arch_java_aop) aop0 depth a prg s = Some (prg', s', r) \<and> prog_ok prg' \<and>
    java_session env ba dst alloc fresh m s' \<and> c_seek (r_cfg (an_core s')) = c_seek (r_cfg (an_core s)) \<and>
    (\<forall>x b. program_block_get prg' x = Some b \<longrightarrow> program_block_get prg x = Some b \<or> filled java_end x b)"
  using assms
proof (induction depth arbitrary: a prg s)
  case 0
  then show ?case by (subst code_analyze_r_nosplit.simps) simp
next
  case (Suc d)
  show ?case
  proof (cases "program_block_get prg a")
    case (Some b)
    then show ?thesis using Suc.prems by (subst code_analyze_r_nosplit.simps) simp
  next
    case None
    let ?op = "nosplit_op (cfg_int env ''graph.callblocks'') (cfg_int env ''graph.refblocks'') a"
    have a: "unat a + 4096 < 2 ^ 64" using Suc.prems(3) by simp
    obtain s1 where s1: "enter_block env a s = Some s1" "c_block (r_cfg (an_core s1)) = malloc_window m a 4096"
        "c_seek (r_cfg (an_core s1)) = a" "java_session env ba dst alloc fresh m s1"
      using enter_block_window [OF conjunct1 [OF Suc.prems(2)] a] Suc.prems(2) by auto
    obtain buf aop prg1 s2 where w: "walk env arch_java_aop ?op [] ((aop0 a)\<lparr>a_eob := False\<rparr>) prg s1 = Some (buf, aop, prg1, s2)"
      using java_walk_returns [of s1] s1 by fastforce
    have k: "an_core s2 = an_core s1" using java.walk_prefix [OF w] by blast
    have e: "java_end a buf aop" using java_visit_end [OF w] s1 by simp
    have l: "length buf \<le> 4096" using walk_length [OF w] by simp
    have p1: "prog_ok prg1" "x \<noteq> a \<Longrightarrow> program_block_get prg1 x = program_block_get prg x" for x
      using nosplit.walk_local [OF w Suc.prems(1)] by auto
    let ?prg = "modify_block a (fill_block buf aop) prg1" and ?s = "set_seek (c_seek (r_cfg (an_core s))) s2"
    have p2: "prog_ok ?prg" "program_block_get ?prg x = (if x = a then Some (fill_block buf aop (block_or_new prg1 a)) else program_block_get prg x)" for x
      using block_get_modify [OF p1(1), of "fill_block buf aop" a] p1(2) by auto
    have q: "filled java_end a (fill_block buf aop (block_or_new prg1 a))"
      using e l by (auto simp: filled_def fill_block_def unat_of_nat)
    have ses: "java_session env ba dst alloc fresh m ?s" "c_seek (r_cfg (an_core ?s)) = c_seek (r_cfg (an_core s))"
      using s1(4) k by (simp_all add: set_seek_def)
    have run: "code_analyze_r_nosplit env (Some arch_java_aop) aop0 (Suc d) a prg s =
        (if a_fail aop \<noteq> 0 then Option.bind (code_analyze_r_nosplit env (Some arch_java_aop) aop0 d (a_fail aop) ?prg ?s) (\<lambda>(p, t, r). Some (p, t, 0))
         else Some (?prg, ?s, 0))"
      using None Suc.prems(2) s1(1) w e p2(2) [of a]
      by (subst code_analyze_r_nosplit.simps) (auto simp: java_end_def fill_block_def)
    show ?thesis
    proof (cases "a_fail aop = 0")
      case True
      then show ?thesis using run p2 ses q by (auto split: if_splits)
    next
      case False
      then have fa: "a_fail aop = a + word_of_nat (length buf)" using e by (simp add: java_end_def)
      have "unat (a + word_of_nat (length buf)) = unat a + length buf"
        using l Suc.prems(3) by (simp add: unat_word_ariths unat_of_nat)
      then have "unat (a_fail aop) + 4096 * Suc d < 2 ^ 64" using fa l Suc.prems(3) by simp
      from Suc.IH [OF p2(1) ses(1) this] obtain prg' s' r where
        "code_analyze_r_nosplit env (Some arch_java_aop) aop0 d (a_fail aop) ?prg ?s = Some (prg', s', r)"
        "prog_ok prg'" "java_session env ba dst alloc fresh m s'" "c_seek (r_cfg (an_core s')) = c_seek (r_cfg (an_core ?s))"
        "\<forall>x b. program_block_get prg' x = Some b \<longrightarrow> program_block_get ?prg x = Some b \<or> filled java_end x b" by blast
      then show ?thesis using run False p2(2) ses(2) q by (auto split: if_splits)
    qed
  qed
qed

lemma set_block_size_session:
  assumes "malloc_session env ba dst alloc fresh m st" and "grants sz" and "1 \<le> sz" and "c_seek (r_cfg st) \<noteq> UT64_MAX"
    and "unat (c_seek (r_cfg st)) + nat sz < 2 ^ 64"
  shows "\<exists>st' r. radare_set_block_size_i env grants sz st = Some (st', r) \<and> malloc_session env ba dst alloc fresh m st' \<and>
    c_seek (r_cfg st') = c_seek (r_cfg st) \<and> c_block_size (r_cfg st') = sz"
proof -
  have f: "malloc_session env ba dst alloc fresh m (fresh_block env sz st)"
    using assms(1) by (simp add: fresh_block_def malloc_session_def malloc_valid_def)
  have "c_seek (r_cfg (fresh_block env sz st)) = c_seek (r_cfg st)" "c_block_size (r_cfg (fresh_block env sz st)) = sz"
    by (simp_all add: fresh_block_def)
  with malloc_block_read [OF f] assms(4,5) obtain r where
    "radare_read env False (fresh_block env sz st) =
       Some ((fresh_block env sz st)\<lparr>r_cfg := (r_cfg (fresh_block env sz st))\<lparr>c_block := malloc_window m (c_seek (r_cfg st)) (nat sz)\<rparr>\<rparr>, r)"
    by auto
  with assms(2,3) f show ?thesis
    by (auto simp: radare_set_block_size_i_def fresh_block_def malloc_session_def malloc_valid_def)
qed

lemma java_code_analyze:
  assumes "malloc_session env ba dst alloc fresh m (an_core s)" and "\<not> cfg_get env ''graph.split''"
    and "grants 4096" and "grants (c_block_size (r_cfg (an_core s)))" and "1 \<le> c_block_size (r_cfg (an_core s))"
    and "c_seek (r_cfg (an_core s)) \<noteq> UT64_MAX"
    and "unat (c_seek (r_cfg (an_core s))) + nat (max 4096 (c_block_size (r_cfg (an_core s)))) < 2 ^ 64"
    and "unat seek + 4096 * 31 < 2 ^ 64"
  shows "\<exists>prg s'. code_analyze env grants junk_prg (Some arch_java_aop) aop0 seek depth s = Some (prg, s') \<and>
     c_seek (r_cfg (an_core s')) = c_seek (r_cfg (an_core s)) \<and>
     c_block_size (r_cfg (an_core s')) = c_block_size (r_cfg (an_core s)) \<and>
     prog_ok prg \<and> (\<forall>b \<in> set (blocks prg). filled java_end (b_addr b) b)"
proof -
  let ?bs = "c_block_size (r_cfg (an_core s))" and ?sk = "c_seek (r_cfg (an_core s))"
  let ?p = "(program_new junk_prg None)\<lparr>pg_entry := ?sk\<rparr>" and ?d = "nat ((if depth > 30 then 30 else depth) - 1)"
  have room: "unat ?sk + 4096 < 2 ^ 64" "unat ?sk + nat ?bs < 2 ^ 64" using assms(7) by (auto simp: max_def split: if_splits)
  obtain c1 r1 where 1: "radare_set_block_size_i env grants 4096 (an_core s) = Some (c1, r1)"
      "malloc_session env ba dst alloc fresh m c1" "c_seek (r_cfg c1) = ?sk" "c_block_size (r_cfg c1) = 4096"
    using set_block_size_session [OF assms(1), of grants 4096] assms(3,6) room(1) by auto
  obtain c2 r2 where 2: "radare_read env False c1 = Some (c2, r2)" "c2 = c1\<lparr>r_cfg := (r_cfg c1)\<lparr>c_block := malloc_window m ?sk 4096\<rparr>\<rparr>"
    using malloc_block_read [OF 1(2)] 1(3,4) assms(6) room(1) by auto
  let ?s = "s\<lparr>an_core := c2\<lparr>r_cfg := (r_cfg c2)\<lparr>c_interrupted := False\<rparr>\<rparr>\<rparr>"
  have ses: "java_session env ba dst alloc fresh m ?s" "c_seek (r_cfg (an_core ?s)) = ?sk"
    using 1 2(2) by (auto simp: malloc_session_def malloc_valid_def)
  have "unat seek + 4096 * Suc ?d < 2 ^ 64" using assms(8) by (auto split: if_splits)
  from java_nosplit_returns [OF new_program_empty(1) ses(1) this] obtain prg s3 r3 where
    3: "code_analyze_r_nosplit env (Some arch_java_aop) aop0 ?d seek ?p ?s = Some (prg, s3, r3)" "prog_ok prg"
      "java_session env ba dst alloc fresh m s3" "c_seek (r_cfg (an_core s3)) = ?sk"
      "\<forall>x b. program_block_get prg x = Some b \<longrightarrow> filled java_end x b"
    using ses(2) by (metis new_program_empty(2) option.distinct(1))
  obtain c5 r5 where 5: "radare_set_block_size_i env grants ?bs (an_core s3) = Some (c5, r5)"
      "c_seek (r_cfg c5) = ?sk" "c_block_size (r_cfg c5) = ?bs"
    using set_block_size_session [of env ba dst alloc fresh m "an_core s3" grants ?bs] 3(3,4) assms(4,5,6) room(2)
    by auto
  have "code_analyze env grants junk_prg (Some arch_java_aop) aop0 seek depth s = Some (prg, s3\<lparr>an_core := c5\<rparr>)"
    using 1(1) 2(1) 3(1) 5(1) assms(2) by (simp add: code_analyze_def Let_def)
  moreover have "\<forall>b \<in> set (blocks prg). filled java_end (b_addr b) b"
    using 3(5) block_get_iff [OF 3(2)] by blast
  ultimately show ?thesis using 3(2) 5 by auto
qed

text \<open>A buffer in which every opcode is the Java return, and a core that has it open.\<close>

definition demo_env :: "malloc_state io_env" where
  "demo_env = (malloc_env 0)\<lparr>cfg_get := (\<lambda>k. k \<noteq> ''graph.split'')\<rparr>"

definition demo_state :: "malloc_state an_state" where
  "demo_state = \<lparr>an_core = (malloc_core (replicate 5000 0xb1))\<lparr>r_cfg := (r_cfg (malloc_core (replicate 5000 0xb1)))\<lparr>c_block_size := 512\<rparr>\<rparr>,
     an_data = data_comment_init, an_x86_regs = [], last_loop = 0, arm_mode = 32\<rparr>"

definition demo_program :: program_t where
  "demo_program = \<lparr>pg_name = None, pg_entry = 0, n_blocks = 0, blocks = [], n_functions = 0, fns = []\<rparr>"

lemma demo_session:
  "malloc_session demo_env 4096 8192 (\<lambda>_. True) (\<lambda>_. None) (replicate 5000 0xb1) (an_core demo_state)"
  "\<not> cfg_get demo_env ''graph.split''" "c_block_size (r_cfg (an_core demo_state)) = 512" "c_seek (r_cfg (an_core demo_state)) = 0"
  using malloc_core_session [of "replicate 5000 0xb1" 0]
  by (simp_all add: demo_env_def demo_state_def malloc_session_def plain_session_def malloc_valid_def malloc_core_def malloc_contents_def)

lemma demo_runs:
  "\<exists>prg s'. code_analyze demo_env (\<lambda>_. True) demo_program (Some arch_java_aop) (\<lambda>_. aop_zero) 0x10 3 demo_state = Some (prg, s')"
  using java_code_analyze [OF demo_session(1,2), of "\<lambda>_. True" "0x10" demo_program "\<lambda>_. aop_zero" 3] demo_session(3,4) by auto

lemma code_analyze_graph:
  assumes "code_analyze env alloc junk_prg (Some f) aop0 seek depth s = Some (prg, s')"
  shows "prog_ok prg \<and> (\<not> cfg_get env ''graph.split'' \<longrightarrow>
     (\<forall>b \<in> set (blocks prg). (flows prg)\<^sup>*\<^sup>* seek (b_addr b) \<and> unat (b_n_bytes b) = length (b_bytes b) \<and>
        length (b_bytes b) \<le> 4096) \<and>
     (depth > 1 \<longrightarrow> seek \<in> b_addr ` set (blocks prg)))"
  using assms
proof (rule code_analyze_passes)
  fix c1 r1 c2 r2 prg1 s3 r3 s4 r4
  let ?p = "(program_new junk_prg None)\<lparr>pg_entry := c_seek (r_cfg (an_core s))\<rparr>"
  let ?s = "s\<lparr>an_core := c2\<lparr>r_cfg := (r_cfg c2)\<lparr>c_interrupted := False\<rparr>\<rparr>\<rparr>"
  assume 1: "code_analyze_r_nosplit env (Some f) aop0 (nat (min depth 30 - 1)) seek ?p ?s = Some (prg1, s3, r3)"
    and 2: "(if cfg_get env ''graph.split'' then code_analyze_r_split env (Some f) aop0 (nat (min depth 30 - 2)) seek prg1 s3
      else Some (prg1, s3, 0)) = Some (prg, s4, r4)"
  note g = any.nosplit_graph [OF _ _ 1, simplified]
  have ok: "prog_ok prg1" using g by blast
  then have "prog_ok prg" using 2 split_ok by (auto split: if_splits)
  moreover have "(flows prg)\<^sup>*\<^sup>* seek (b_addr b) \<and> unat (b_n_bytes b) = length (b_bytes b) \<and> length (b_bytes b) \<le> 4096"
    if "\<not> cfg_get env ''graph.split''" "b \<in> set (blocks prg)" for b
    using that g 2 block_get_iff [OF ok, of "b_addr b" b] by (auto simp: filled_def)
  moreover have "seek \<in> b_addr ` set (blocks prg)" if "\<not> cfg_get env ''graph.split''" "depth > 1"
    using that g 2 block_get_None [of prg1 seek] by (auto simp: min_def split: if_splits)
  ultimately show ?thesis by blast
qed

lemma demo_entry:
  "code_analyze demo_env (\<lambda>_. True) demo_program (Some f) (\<lambda>_. aop_zero) 0x10 3 demo_state = Some (prg, s') \<Longrightarrow>
     0x10 \<in> b_addr ` set (blocks prg)"
  using code_analyze_graph [of demo_env "\<lambda>_. True" demo_program f "\<lambda>_. aop_zero" "0x10" 3 demo_state prg s'] demo_session(2) by simp

section \<open>Properties\<close>

text \<open>
  C16 For any analyser, the program that \<^verbatim>\<open>code_analyze\<close> returns has one block per address and counts them; without
  the splitting pass every block can be reached from the address given through the successors recorded in
  the blocks, holds as many bytes as it says and at most 4096, and for a depth above 1 there is a block at
  that address.
\<close>

theorem analysis_graph:
  assumes "code_analyze env alloc junk_prg (Some f) aop0 seek depth s = Some (prg, s')"
  shows "prog_ok prg \<and> (\<not> cfg_get env ''graph.split'' \<longrightarrow>
     (\<forall>b \<in> set (blocks prg). (flows prg)\<^sup>*\<^sup>* seek (b_addr b) \<and> unat (b_n_bytes b) = length (b_bytes b) \<and>
        length (b_bytes b) \<le> 4096) \<and>
     (depth > 1 \<longrightarrow> seek \<in> b_addr ` set (blocks prg)))"
  using code_analyze_graph [OF assms] .

text \<open>
  C17 On a memory buffer, for the PowerPC, SPARC, 68000, brainfuck and Java analysers, every block of the program
  holds the bytes of the buffer at its address when 4096 bytes are left there, and only \<^verbatim>\<open>0xff\<close> otherwise.
\<close>

theorem analysis_shows_memory:
  assumes "f \<in> {arch_ppc_aop, arch_sparc_aop, arch_m68k_aop, arch_bf_aop, arch_java_aop}"
    and "malloc_session env ba dst alloc fresh m (an_core s)" and "\<not> cfg_get env ''graph.split''" and "grants 4096"
    and "code_analyze env grants junk_prg (Some f) aop0 seek depth s = Some (prg, s')"
    and "b \<in> set (blocks prg)" and "unat (b_addr b) + 4096 < 2 ^ 64"
  shows "b_bytes b = (if unat (b_addr b) + 4096 \<le> length m then read_mem m (b_addr b) (length (b_bytes b))
                      else replicate (length (b_bytes b)) 0xff)"
  using assms(5)
proof (rule code_analyze_passes)
  fix c1 r1 c2 r2 prg1 s3 r3 s4 r4
  let ?p = "(program_new junk_prg None)\<lparr>pg_entry := c_seek (r_cfg (an_core s))\<rparr>"
  let ?s = "s\<lparr>an_core := c2\<lparr>r_cfg := (r_cfg c2)\<lparr>c_interrupted := False\<rparr>\<rparr>\<rparr>"
  assume 1: "radare_set_block_size_i env grants 4096 (an_core s) = Some (c1, r1)" "radare_read env False c1 = Some (c2, r2)"
    and 2: "code_analyze_r_nosplit env (Some f) aop0 (nat (min depth 30 - 1)) seek ?p ?s = Some (prg1, s3, r3)"
    and 3: "(if cfg_get env ''graph.split'' then code_analyze_r_split env (Some f) aop0 (nat (min depth 30 - 2)) seek prg1 s3
      else Some (prg1, s3, 0)) = Some (prg, s4, r4)"
  have fresh: "malloc_session env ba dst alloc fresh m (fresh_block env 4096 (an_core s))"
    using assms(2) by (simp add: fresh_block_def malloc_session_def malloc_valid_def)
  have rd: "radare_read env False (fresh_block env 4096 (an_core s)) = Some (c1, r1)"
    using 1(1) assms(4) by (simp add: radare_set_block_size_i_def)
  have c1: "malloc_session env ba dst alloc fresh m c1" "c_block_size (r_cfg c1) = 4096"
    using malloc_block_keeps [OF fresh rd] assms(2) by (auto simp: fresh_block_def malloc_session_def malloc_valid_def)
  have c2: "malloc_session env ba dst alloc fresh m c2" "c_block_size (r_cfg c2) = 4096"
    using malloc_block_keeps [OF c1(1) 1(2)] c1 by auto
  then have i: "an_session env ba dst alloc fresh m ?s" by (simp add: malloc_session_def malloc_valid_def)
  have "mem_analyser f"
    using assms(1) ppc.mem_analyser_axioms sparc.mem_analyser_axioms m68k.mem_analyser_axioms bf.mem_analyser_axioms
      java.mem_analyser_axioms by blast
  from mem_analyser.new_program_filled [OF this i 2]
  have "prog_ok prg1 \<and> (\<forall>x b. program_block_get prg1 x = Some b \<longrightarrow> filled (shows_window m) x b)" .
  moreover have "prg = prg1" using 3 assms(3) by simp
  ultimately have "filled (shows_window m) (b_addr b) b" using block_get_iff assms(6) by blast
  then have "b_bytes b = take (length (b_bytes b)) (malloc_window m (b_addr b) 4096)" "length (b_bytes b) \<le> 4096"
    using assms(7) by (auto simp: filled_def shows_window_def)
  then show ?thesis by (auto simp: malloc_window_def read_mem_def min_def)
qed

theorem analysis_graph_witness:
  "\<exists>prg s'. code_analyze demo_env (\<lambda>_. True) demo_program (Some arch_java_aop) (\<lambda>_. aop_zero) 0x10 3 demo_state = Some (prg, s') \<and>
     prog_ok prg \<and> 0x10 \<in> b_addr ` set (blocks prg)"
proof -
  obtain prg s' where r: "code_analyze demo_env (\<lambda>_. True) demo_program (Some arch_java_aop) (\<lambda>_. aop_zero) 0x10 3 demo_state =
      Some (prg, s')" using demo_runs by blast
  from analysis_graph [OF r] demo_session(2) r show ?thesis by auto
qed

theorem analysis_shows_memory_witness:
  "\<exists>prg s' b. code_analyze demo_env (\<lambda>_. True) demo_program (Some arch_java_aop) (\<lambda>_. aop_zero) 0x10 3 demo_state = Some (prg, s') \<and>
     b \<in> set (blocks prg) \<and> b_addr b = 0x10 \<and> b_bytes b = read_mem (replicate 5000 0xb1) 0x10 (length (b_bytes b))"
proof -
  obtain prg s' where r: "code_analyze demo_env (\<lambda>_. True) demo_program (Some arch_java_aop) (\<lambda>_. aop_zero) 0x10 3 demo_state =
      Some (prg, s')" using demo_runs by blast
  obtain b where b: "b \<in> set (blocks prg)" "b_addr b = 0x10" using demo_entry [OF r] by auto
  have a: "arch_java_aop \<in> {arch_ppc_aop, arch_sparc_aop, arch_m68k_aop, arch_bf_aop, arch_java_aop}" by simp
  have g: "(\<lambda>_ :: int. True) 4096" by simp
  from analysis_shows_memory [OF a demo_session(1,2) g r b(1)] b r show ?thesis by auto
qed

text \<open>
  C18 For Java code in a memory buffer the analysis always returns, with the seek and the block size as before. No
  block has a jump target, and the fall-through of a block, when it has one, is the address behind its last byte.
\<close>

theorem java_analysis_returns:
  assumes "malloc_session env ba dst alloc fresh m (an_core s)" and "\<not> cfg_get env ''graph.split''"
    and "grants 4096" and "grants (c_block_size (r_cfg (an_core s)))" and "1 \<le> c_block_size (r_cfg (an_core s))"
    and "c_seek (r_cfg (an_core s)) \<noteq> UT64_MAX"
    and "unat (c_seek (r_cfg (an_core s))) + nat (max 4096 (c_block_size (r_cfg (an_core s)))) < 2 ^ 64"
    and "unat seek + 4096 * 31 < 2 ^ 64"
  shows "\<exists>prg s'. code_analyze env grants junk_prg (Some arch_java_aop) aop0 seek depth s = Some (prg, s') \<and>
     c_seek (r_cfg (an_core s')) = c_seek (r_cfg (an_core s)) \<and>
     c_block_size (r_cfg (an_core s')) = c_block_size (r_cfg (an_core s)) \<and>
     (\<forall>b \<in> set (blocks prg). b_bytes b \<noteq> [] \<and> b_tnext b = 0 \<and> b_fnext b \<in> {0, b_addr b + word_of_nat (length (b_bytes b))})"
  using java_code_analyze [OF assms, of junk_prg aop0 depth] unfolding filled_def java_end_def by metis

theorem java_analysis_returns_witness:
  "\<exists>prg s'. code_analyze demo_env (\<lambda>_. True) demo_program (Some arch_java_aop) (\<lambda>_. aop_zero) 0x10 3 demo_state = Some (prg, s') \<and>
     c_seek (r_cfg (an_core s')) = 0 \<and> c_block_size (r_cfg (an_core s')) = 512"
  using java_analysis_returns [OF demo_session(1,2), of "\<lambda>_. True" "0x10" demo_program "\<lambda>_. aop_zero" 3] demo_session(3,4) by auto

end
