(* ===== verification/Macros.thy ===== *)
theory Macros
  imports Utils
begin

text \<open>
  Macros (\<^verbatim>\<open>src/src/macros.c\<close>, \<^verbatim>\<open>macros.h\<close>, the dispatcher in \<^verbatim>\<open>cmds.c\<close>): the table, the substitution of arguments, labels with
  conditional jumps, and the call. The interpreter of commands, which may call back, is an argument: a function from the command and the
  state that may not return. While a line is executed its newline is a terminator in the code of the macro, which the interpreter can see.
  \<open>None\<close> is undefined behaviour or a call that does not return; an allocation has a number of its own, so that an access to memory that was
  freed is one of these.
\<close>

section \<open>Model\<close>

definition MACRO_LIMIT :: nat where
  "MACRO_LIMIT = 4096"

definition MAX_LABELS :: nat where
  "MAX_LABELS = 20"

text \<open>\<open>m_id\<close> is the allocation of the record, \<open>m_code_id\<close> that of the code.\<close>

record macro_t =
  m_name :: string
  m_code :: string
  m_nargs :: int
  m_id :: nat
  m_code_id :: nat

text \<open>The static variables of the file, \<^verbatim>\<open>config.last_cmp\<close>, the next allocation, the printed text, and what else a command may change.\<close>

record 'w mac_state =
  mac_table :: "macro_t list"
  mac_break :: bool
  mac_break_value :: "ut64 option"
  mac_counter :: int
  mac_level :: nat
  mac_last_cmp :: ut64
  mac_fresh :: nat
  mac_out :: "string list"
  mac_world :: 'w

type_synonym 'w mac_cmd = "string \<Rightarrow> 'w mac_state \<Rightarrow> 'w mac_state option"

definition mac_print :: "string \<Rightarrow> 'w mac_state \<Rightarrow> 'w mac_state" where
  "mac_print t s = s\<lparr>mac_out := mac_out s @ [t]\<rparr>"

definition radare_macro_init :: "'w mac_state \<Rightarrow> 'w mac_state" where
  "radare_macro_init s = s\<lparr>mac_table := []\<rparr>"

text \<open>The body of a macro on one line: commas become newlines, a parenthesis after a newline ends it; \<open>p\<close> is the character before.\<close>

fun body_chars :: "char \<Rightarrow> string \<Rightarrow> string" where
  "body_chars p [] = []"
| "body_chars p (c # cs) =
     (let c' = (if c = CHR '','' then CHR 0x0A else if c = CHR '')'' \<and> p = CHR 0x0A then NUL else c) in c' # body_chars c' cs)"

text \<open>The body of a macro on lines of its own, as \<^verbatim>\<open>fgets\<close> returns them, into 1024 bytes; a line of one character is indexed at \<open>- 1\<close>.\<close>

fun macro_read :: "string list \<Rightarrow> string \<Rightarrow> string option" where
  "macro_read [] code = None"
| "macro_read (buf # rest) code =
     (if buf \<noteq> [] \<and> hd buf = CHR '')'' then Some code
      else if length buf < 2 then None
      else
        (let k = length (takeWhile (\<lambda>c. c = CHR '' '' \<or> c = CHR 0x09) buf); lidx = length buf - 2
         in if buf ! lidx = CHR '')'' \<and> buf ! (lidx - 1) \<noteq> CHR ''('' then
              (let code' = code @ drop k (take lidx buf) in if 1024 \<le> length code' then None else Some code')
            else if hd buf \<noteq> CHR 0x0A then
              (let code' = code @ drop k buf in if 1024 \<le> length code' then None else macro_read rest code')
            else macro_read rest code))"

fun replace_last :: "('a \<Rightarrow> bool) \<Rightarrow> 'a \<Rightarrow> 'a list \<Rightarrow> 'a list" where
  "replace_last P y [] = []"
| "replace_last P y (x # xs) = (if P x \<and> \<not> list_ex P xs then y # xs else x # replace_last P y xs)"

definition macro_line :: "nat \<Rightarrow> macro_t \<Rightarrow> string" where
  "macro_line idx mac = fmt_d (int idx) @ '' ('' @ m_name mac @ '', '' @
     concat (map (\<lambda>c. if c = CHR 0x0A then '', '' else [c]) (takeWhile (\<lambda>c. c \<noteq> NUL) (m_code mac))) @ '')'' @ [CHR 0x0A]"

definition radare_macro_list :: "'w mac_state \<Rightarrow> 'w mac_state" where
  "radare_macro_list s = s\<lparr>mac_out := mac_out s @ map2 macro_line [0..<length (mac_table s)] (rev (mac_table s))\<rparr>"

text \<open>\<open>input\<close> are the lines that follow when the definition has no comma.\<close>

definition radare_macro_add :: "string list \<Rightarrow> string \<Rightarrow> 'w mac_state \<Rightarrow> (int \<times> 'w mac_state) option" where
  "radare_macro_add input oname s =
     (if oname = [] then Some (0, radare_macro_list s)
      else
        (let (name, pbody) = (case strchr_split (CHR '','') oname of None \<Rightarrow> (oname, None) | Some (a, b) \<Rightarrow> (a, Some b))
         in if name = [] then None
            else if last name = CHR '')'' then Some (- 1, s)
            else
              (let old = find (\<lambda>m. m_name m = name) (rev (mac_table s))
               in case (case strchr_split (CHR '' '') name of None \<Rightarrow> Some (name, 0) | Some (a, b) \<Rightarrow> map_option (\<lambda>(_, n). (a, n)) (set0word b)) of
                    None \<Rightarrow> None
                  | Some (stem, n) \<Rightarrow>
                      (case (case pbody of Some b \<Rightarrow> Some (takeWhile (\<lambda>c. c \<noteq> NUL) (body_chars NUL b)) | None \<Rightarrow> macro_read input []) of
                         None \<Rightarrow> None
                       | Some code \<Rightarrow>
                           (case old of
                              Some m \<Rightarrow> Some (0, s\<lparr>mac_table := replace_last (\<lambda>m. m_name m = name) (m\<lparr>m_name := stem, m_code := code, m_nargs := n, m_code_id := mac_fresh s\<rparr>) (mac_table s),
                                                  mac_fresh := mac_fresh s + 1\<rparr>)
                            | None \<Rightarrow> Some (0, s\<lparr>mac_table := mac_table s @ [\<lparr>m_name = stem, m_code = code, m_nargs = n, m_id = mac_fresh s, m_code_id = mac_fresh s + 1\<rparr>],
                                                 mac_fresh := mac_fresh s + 2\<rparr>))))))"

text \<open>\<^verbatim>\<open>radare_macro_rm\<close> never copies its argument into \<open>name\<close>: \<open>junk\<close> is what the stack holds.\<close>

fun remove_last :: "('a \<Rightarrow> bool) \<Rightarrow> 'a list \<Rightarrow> 'a list" where
  "remove_last P [] = []"
| "remove_last P (x # xs) = (if P x \<and> \<not> list_ex P xs then xs else x # remove_last P xs)"

definition radare_macro_rm :: "string \<Rightarrow> string \<Rightarrow> 'w mac_state \<Rightarrow> int \<times> 'w mac_state" where
  "radare_macro_rm junk arg s =
     (let name = takeWhile (\<lambda>c. c \<noteq> CHR '')'') junk
      in if list_ex (\<lambda>m. m_name m = name) (mac_table s) then
           (1, mac_print (''Macro '' @ [CHR 0x27] @ name @ [CHR 0x27] @ '' removed.'' @ [CHR 0x0A]) (s\<lparr>mac_table := remove_last (\<lambda>m. m_name m = name) (mac_table s)\<rparr>))
         else (0, s))"

text \<open>\<^verbatim>\<open>radare_cmd_args\<close>: \<open>$\<close> and a digit is a word of the arguments, \<open>$@\<close> the counter. \<open>args\<close> is \<open>None\<close> for the null pointer.\<close>

fun expand_args :: "string option \<Rightarrow> int \<Rightarrow> string \<Rightarrow> string option" where
  "expand_args args cnt [] = Some []"
| "expand_args args cnt [c] = Some [c]"
| "expand_args args cnt (c # d # rest) =
     (if c = CHR ''$'' then
        (if (48 :: nat) \<le> of_char d \<and> of_char d \<le> (57 :: nat) then
           (case args of None \<Rightarrow> None
            | Some a \<Rightarrow> (case get0word a (of_char d - 48) of None \<Rightarrow> None | Some w \<Rightarrow> map_option (\<lambda>t. w @ t) (expand_args args cnt rest)))
         else if d = CHR ''@'' then map_option (\<lambda>t. fmt_d cnt @ t) (expand_args args cnt rest)
         else map_option (\<lambda>t. c # t) (expand_args args cnt (d # rest)))
      else map_option (\<lambda>t. c # t) (expand_args args cnt (d # rest)))"

definition radare_cmd_args :: "'w mac_cmd \<Rightarrow> string \<Rightarrow> string option \<Rightarrow> 'w mac_state \<Rightarrow> 'w mac_state option" where
  "radare_cmd_args cmd ptr args s =
     (case expand_args args (mac_counter s) ptr of
        None \<Rightarrow> None
      | Some t \<Rightarrow>
          if length ptr + 1024 \<le> length t then None
          else (let u = dropWhile (\<lambda>c. c = CHR '' '' \<or> c = CHR 0x09) t
                in if u \<noteq> [] \<and> hd u = CHR '')'' then Some s else cmd u s))"

text \<open>
  \<^verbatim>\<open>macro_label_process\<close>: the new position, or \<open>None\<close> for the null pointer, and the labels, which are names and positions in the code. An
  empty line is indexed at \<open>- 1\<close>; a name of 64 characters or more is stored without its terminator.
\<close>

type_synonym macro_labels = "(string \<times> nat) list"

definition goto_label :: "macro_labels \<Rightarrow> string \<Rightarrow> nat option" where
  "goto_label labels l = map_option snd (find (\<lambda>(n, _). n = l) labels)"

definition macro_label_process :: "ut64 \<Rightarrow> string \<Rightarrow> macro_labels \<Rightarrow> nat \<Rightarrow> (nat option \<times> macro_labels) option" where
  "macro_label_process last_cmp code labels ptr =
     (let p = ptr + length (takeWhile (\<lambda>c. c = CHR '' '') (drop ptr code));
          t = takeWhile (\<lambda>c. c \<noteq> NUL) (drop p code);
          skip_dots = dropWhile (\<lambda>c. c = CHR '' '' \<or> c = CHR ''.'') (drop 3 t);
          nextp = p + length t + 1
      in if t = [] then (if p = 0 \<or> code ! (p - 1) = CHR '':'' then None else Some (Some p, labels))
         else if last t \<noteq> CHR '':'' then Some (Some p, labels)
         else if hd t = CHR ''.'' then Some (goto_label labels (tl t), labels)
         else if take 2 t = ''?!'' \<and> take 1 (drop 2 t) \<noteq> ''?'' then
           (if last_cmp \<noteq> 0 then Some (goto_label labels skip_dots, labels) else Some (Some nextp, labels))
         else if take 2 t = ''??'' \<and> take 1 (drop 2 t) \<noteq> ''?'' then
           (if last_cmp = 0 then Some (goto_label labels skip_dots, labels) else Some (Some nextp, labels))
         else
           (let i = (if list_ex (\<lambda>(n, _). n = tl t) labels then 0 else length labels)
            in if i = 0 then
                 (if 64 \<le> length t \<or> MAX_LABELS \<le> length labels then None else Some (Some nextp, labels @ [(t, nextp)]))
               else Some (Some nextp, labels)))"

text \<open>Stores of one character into the code of an allocation.\<close>

definition code_of :: "nat \<Rightarrow> 'w mac_state \<Rightarrow> string option" where
  "code_of i s = map_option m_code (find (\<lambda>m. m_code_id m = i) (mac_table s))"

definition poke_code :: "nat \<Rightarrow> nat \<Rightarrow> char \<Rightarrow> 'w mac_state \<Rightarrow> 'w mac_state" where
  "poke_code i k c s = s\<lparr>mac_table := map (\<lambda>m. if m_code_id m = i then m\<lparr>m_code := (m_code m)[k := c]\<rparr> else m) (mac_table s)\<rparr>"

definition line_end :: "string \<Rightarrow> nat \<Rightarrow> nat option" where
  "line_end code ptr =
     (let t = takeWhile (\<lambda>c. c \<noteq> NUL) (drop ptr code)
      in if CHR 0x0A \<in> set t then Some (ptr + length (takeWhile (\<lambda>c. c \<noteq> CHR 0x0A) t)) else None)"

datatype loop_exit = Ran_all | Broken | Bad_label

text \<open>The loop over the lines, from the position \<open>ptr\<close> of the code \<open>i\<close>.\<close>

partial_function (option) macro_loop :: "'w mac_cmd \<Rightarrow> string option \<Rightarrow> nat \<Rightarrow> nat \<Rightarrow> macro_labels \<Rightarrow> 'w mac_state \<Rightarrow> (loop_exit \<times> 'w mac_state) option" where
  "macro_loop cmd args i ptr labels s =
     (case code_of i s of
        None \<Rightarrow> None
      | Some code0 \<Rightarrow>
          (let e = line_end code0 ptr;
               s1 = (case e of None \<Rightarrow> s | Some k \<Rightarrow> poke_code i k NUL s);
               code = (case e of None \<Rightarrow> code0 | Some k \<Rightarrow> code0[k := NUL])
           in case macro_label_process (mac_last_cmp s1) code labels ptr of
                None \<Rightarrow> None
              | Some (None, labels') \<Rightarrow> Some (Bad_label, mac_print (''Oops. invalid label name'' @ [CHR 0x0A]) s1)
              | Some (Some ptr2, labels') \<Rightarrow>
                  if ptr \<noteq> ptr2 \<and> e \<noteq> None then
                    (let s2 = poke_code i (the e) (CHR 0x0A) s1 in if mac_break s2 then Some (Broken, s2) else macro_loop cmd args i ptr2 labels' s2)
                  else
                    (case (let t = takeWhile (\<lambda>c. c \<noteq> NUL) (drop ptr code) in if t \<noteq> [] then radare_cmd_args cmd t args s1 else Some s1) of
                       None \<Rightarrow> None
                     | Some s2 \<Rightarrow>
                         (case e of
                            None \<Rightarrow> Some (Ran_all, s2)
                          | Some k \<Rightarrow>
                              if code_of i s2 = None then None
                              else (let s3 = poke_code i k (CHR 0x0A) s2
                                    in if mac_break s3 then Some (Broken, s3) else macro_loop cmd args i (k + 1) labels' s3)))))"

declare macro_loop.simps [code]

text \<open>The search for the macro, from the newest; after a bad label it goes on with the macro before, if the record is still there.\<close>

partial_function (option) macro_search :: "'w mac_cmd \<Rightarrow> string \<Rightarrow> string \<Rightarrow> string option \<Rightarrow> int \<Rightarrow> macro_t list \<Rightarrow> 'w mac_state \<Rightarrow> (int \<times> 'w mac_state) option" where
  "macro_search cmd txt str args nargs ms s =
     (case ms of
        [] \<Rightarrow> Some (0, mac_print (''No macro named '' @ [CHR 0x27] @ str @ [CHR 0x27, CHR 0x0A]) s)
      | m # rest \<Rightarrow>
          if m_name m \<noteq> str then macro_search cmd txt str args nargs rest s
          else if m_nargs m \<noteq> 0 \<and> nargs \<noteq> m_nargs m then
            Some (0, mac_print (''Macro '' @ [CHR 0x27] @ m_name m @ [CHR 0x27] @ '' expects '' @ fmt_d (m_nargs m) @ '' args. (not '' @ fmt_d nargs @ '') ('' @ txt @ '').'' @ [CHR 0x0A]) s)
          else
            (case macro_loop cmd args (m_code_id m) 0 [] (s\<lparr>mac_break := False\<rparr>) of
               None \<Rightarrow> None
             | Some (Ran_all, s') \<Rightarrow> Some (1, s')
             | Some (Broken, s') \<Rightarrow> Some (0, s')
             | Some (Bad_label, s') \<Rightarrow>
                 if mac_break s' then Some (0, s')
                 else if list_ex (\<lambda>x. m_id x = m_id m) (mac_table s') then
                   macro_search cmd txt str args nargs (rev (takeWhile (\<lambda>x. m_id x \<noteq> m_id m) (mac_table s'))) s'
                 else None))"

declare macro_search.simps [code]

definition radare_macro_call :: "'w mac_cmd \<Rightarrow> string \<Rightarrow> 'w mac_state \<Rightarrow> (int \<times> 'w mac_state) option" where
  "radare_macro_call cmd txt s =
     (let str0 = takeWhile (\<lambda>c. c \<noteq> CHR '')'') txt
      in case (case strchr_split (CHR '' '') str0 of None \<Rightarrow> Some (str0, None, 0) | Some (a, b) \<Rightarrow> map_option (\<lambda>(w, n). (a, Some w, n)) (set0word b)) of
           None \<Rightarrow> None
         | Some (str, args, nargs) \<Rightarrow>
             if MACRO_LIMIT < mac_level s + 1 then Some (0, mac_print (''Maximum macro recursivity reached.'' @ [CHR 0x0A]) s)
             else (case macro_search cmd txt str args nargs (rev (mac_table s)) (s\<lparr>mac_level := mac_level s + 1\<rparr>) of
                     None \<Rightarrow> None
                   | Some (r, s') \<Rightarrow> Some (r, s'\<lparr>mac_level := mac_level s' - 1\<rparr>)))"

text \<open>\<open>gm\<close> is \<^verbatim>\<open>get_math\<close>.\<close>

definition radare_macro_break :: "(string \<Rightarrow> ut64) \<Rightarrow> string \<Rightarrow> 'w mac_state \<Rightarrow> 'w mac_state" where
  "radare_macro_break gm v s = s\<lparr>mac_break := True, mac_break_value := (if v \<noteq> [] then Some (gm v) else None)\<rparr>"

text \<open>The command \<open>(\<close> of \<^verbatim>\<open>cmds.c\<close>; its help is not printed here.\<close>

definition cmd_macro :: "(string \<Rightarrow> ut64) \<Rightarrow> string \<Rightarrow> string list \<Rightarrow> string \<Rightarrow> 'w mac_state \<Rightarrow> 'w mac_state option" where
  "cmd_macro gm junk input text s =
     (if text = [] then Some (radare_macro_list s)
      else if hd text = CHR '')'' then Some (radare_macro_break gm (tl text) s)
      else if hd text = CHR ''-'' then Some (snd (radare_macro_rm junk (tl text) s))
      else if hd text = CHR ''?'' then Some s
      else map_option snd (radare_macro_add input text s))"

section \<open>Substitution of arguments\<close>

text \<open>A line as a list of pieces: characters, words of the arguments and the counter.\<close>

datatype piece = Lit char | Word nat | Count

fun piece_text :: "piece \<Rightarrow> string" where
  "piece_text (Lit c) = [c]"
| "piece_text (Word n) = [CHR ''$'', digit_char n]"
| "piece_text Count = ''$@''"

fun piece_value :: "string list \<Rightarrow> int \<Rightarrow> piece \<Rightarrow> string" where
  "piece_value ws cnt (Lit c) = [c]"
| "piece_value ws cnt (Word n) = ws ! n"
| "piece_value ws cnt Count = fmt_d cnt"

fun piece_ok :: "string list \<Rightarrow> piece \<Rightarrow> bool" where
  "piece_ok ws (Lit c) = (c \<noteq> CHR ''$'')"
| "piece_ok ws (Word n) = (n < 10 \<and> n < length ws)"
| "piece_ok ws Count = True"

definition line_text :: "piece list \<Rightarrow> string" where
  "line_text ps = concat (map piece_text ps)"

definition line_value :: "string list \<Rightarrow> int \<Rightarrow> piece list \<Rightarrow> string" where
  "line_value ws cnt ps = concat (map (piece_value ws cnt) ps)"

definition args_of :: "string list \<Rightarrow> string option" where
  "args_of ws = (if ws = [] then None else Some (zero_words ws))"

lemma expand_lit: "c \<noteq> CHR ''$'' \<Longrightarrow> expand_args args cnt (c # rest) = map_option (\<lambda>t. c # t) (expand_args args cnt rest)"
  by (cases rest) simp_all

lemma expand_pieces:
  assumes "\<forall>p \<in> set ps. piece_ok ws p" and "\<forall>w \<in> set ws. good_word w"
  shows "expand_args (args_of ws) cnt (line_text ps) = Some (line_value ws cnt ps)"
  using assms(1)
proof (induction ps)
  case (Cons p ps)
  then have IH: "expand_args (args_of ws) cnt (line_text ps) = Some (line_value ws cnt ps)" by simp
  show ?case
  proof (cases p)
    case (Lit c)
    then show ?thesis using Cons.prems IH by (simp add: line_text_def line_value_def expand_lit)
  next
    case (Word n)
    then have n: "n < 10" "n < length ws" using Cons.prems by auto
    then have "ws \<noteq> []" by auto
    moreover have "(of_char (digit_char n) :: nat) = 48 + n" using n(1) by (simp add: digit_char_def of_char_of)
    ultimately show ?thesis using Word IH n(2) get0word_zero_words [OF n(2) assms(2)]
      using n(1) by (simp add: line_text_def line_value_def args_of_def less_Suc_eq_le)
  next
    case Count
    then show ?thesis using IH by (simp add: line_text_def line_value_def)
  qed
qed (simp add: line_text_def line_value_def)

section \<open>Lines in order\<close>

definition code_lines :: "piece list list \<Rightarrow> string" where
  "code_lines ls = concat (map (\<lambda>l. line_text l @ [CHR 0x0A]) ls)"

text \<open>A line that is a command and no label.\<close>

definition plain_line :: "string \<Rightarrow> bool" where
  "plain_line t \<longleftrightarrow> t \<noteq> [] \<and> hd t \<noteq> CHR '' '' \<and> last t \<noteq> CHR '':'' \<and> NUL \<notin> set t \<and> CHR 0x0A \<notin> set t"

text \<open>A command that only acts on the rest of the world.\<close>

definition world_cmd :: "(string \<Rightarrow> 'w \<Rightarrow> 'w) \<Rightarrow> 'w mac_cmd" where
  "world_cmd w c s = Some (s\<lparr>mac_world := w c (mac_world s)\<rparr>)"

definition run_line :: "(string \<Rightarrow> 'w \<Rightarrow> 'w) \<Rightarrow> string \<Rightarrow> 'w \<Rightarrow> 'w" where
  "run_line w v x = (let u = dropWhile (\<lambda>c. c = CHR '' '' \<or> c = CHR 0x09) v in if u \<noteq> [] \<and> hd u = CHR '')'' then x else w u x)"

lemma cmd_args_line:
  assumes "expand_args args (mac_counter s) t = Some v" and "length v < length t + 1024"
  shows "radare_cmd_args (world_cmd w) t args s = Some (s\<lparr>mac_world := run_line w v (mac_world s)\<rparr>)"
  using assms unfolding radare_cmd_args_def run_line_def world_cmd_def Let_def by (simp split: if_split del: dropWhile_eq_Nil_conv)

lemma takeWhile_stop: "\<forall>x \<in> set a. P x \<Longrightarrow> \<not> P b \<Longrightarrow> takeWhile P (a @ b # c) = a"
  by (induction a) auto

lemma takeWhile_in: "\<forall>x \<in> set a. P x \<Longrightarrow> P b \<Longrightarrow> \<exists>d. takeWhile P (a @ b # c) = a @ b # d"
  by (induction a) auto

lemma line_end_plain:
  assumes "plain_line t"
  shows "line_end (pre @ t @ CHR 0x0A # post) (length pre) = Some (length pre + length t)"
proof -
  have "\<forall>x \<in> set t. x \<noteq> NUL" "\<forall>x \<in> set t. x \<noteq> CHR 0x0A" using assms by (auto simp: plain_line_def)
  moreover from this obtain d where "takeWhile (\<lambda>c. c \<noteq> NUL) (t @ CHR 0x0A # post) = t @ CHR 0x0A # d" using takeWhile_in by fastforce
  ultimately show ?thesis by (simp add: line_end_def Let_def takeWhile_stop)
qed

lemma label_plain:
  assumes "plain_line t"
  shows "macro_label_process lc (pre @ t @ NUL # post) labels (length pre) = Some (Some (length pre), labels)"
proof -
  obtain c u where t: "t = c # u" "c \<noteq> CHR '' ''" using assms by (cases t) (auto simp: plain_line_def)
  have "takeWhile (\<lambda>c. c \<noteq> NUL) (t @ NUL # post) = t" using assms by (intro takeWhile_stop) (auto simp: plain_line_def)
  then show ?thesis using assms t by (simp add: macro_label_process_def Let_def plain_line_def)
qed

text \<open>Only one record has the code.\<close>

definition owns :: "'w mac_state \<Rightarrow> nat \<Rightarrow> string \<Rightarrow> bool" where
  "owns s i code \<longleftrightarrow> (\<exists>m \<in> set (mac_table s). m_code_id m = i) \<and> (\<forall>m \<in> set (mac_table s). m_code_id m = i \<longrightarrow> m_code m = code)"

lemma owns_code_of: "owns s i code \<Longrightarrow> code_of i s = Some code"
proof (cases "find (\<lambda>m. m_code_id m = i) (mac_table s)")
  case None
  then show "owns s i code \<Longrightarrow> code_of i s = Some code" by (auto simp: owns_def find_None_iff)
next
  case (Some m)
  then have "m \<in> set (mac_table s)" "m_code_id m = i" by (auto simp: find_Some_iff)
  then show "owns s i code \<Longrightarrow> code_of i s = Some code" using Some by (simp add: code_of_def owns_def)
qed

lemma owns_poke:
  assumes "owns s i code"
  shows "owns (poke_code i k c s) i (code[k := c])"
proof -
  obtain m where "m \<in> set (mac_table s)" "m_code_id m = i" using assms by (auto simp: owns_def)
  then have m: "m\<lparr>m_code := (m_code m)[k := c]\<rparr> \<in> set (mac_table (poke_code i k c s))"
    by (simp add: poke_code_def image_iff) (rule bexI [of _ m]; simp)
  have "\<exists>m \<in> set (mac_table (poke_code i k c s)). m_code_id m = i"
    by (rule bexI [OF _ m]) (simp add: \<open>m_code_id m = i\<close>)
  moreover have "m_code x = code[k := c]" if x: "x \<in> set (mac_table (poke_code i k c s))" and xi: "m_code_id x = i" for x
  proof -
    obtain y where y: "y \<in> set (mac_table s)" "x = (if m_code_id y = i then y\<lparr>m_code := (m_code y)[k := c]\<rparr> else y)"
      using x by (auto simp: poke_code_def)
    have "m_code_id y = i" using xi y(2) by (cases "m_code_id y = i") simp_all
    moreover from this have "m_code y = code" using assms y(1) unfolding owns_def by blast
    ultimately show ?thesis using y(2) by simp
  qed
  ultimately show ?thesis unfolding owns_def by blast
qed

lemma owns_world [simp]: "owns (s\<lparr>mac_world := x\<rparr>) i code = owns s i code"
  by (simp add: owns_def)

lemma poke_restore:
  assumes "owns s i code" and "k < length code" and "code ! k = c"
  shows "poke_code i k c (poke_code i k d s) = s"
proof -
  have "map ((\<lambda>m. if m_code_id m = i then m\<lparr>m_code := (m_code m)[k := c]\<rparr> else m) \<circ> (\<lambda>m. if m_code_id m = i then m\<lparr>m_code := (m_code m)[k := d]\<rparr> else m)) (mac_table s) = mac_table s"
    using assms by (intro map_idI) (auto simp: owns_def)
  then show ?thesis by (simp add: poke_code_def)
qed

lemma poke_world: "poke_code i k c (s\<lparr>mac_world := x\<rparr>) = (poke_code i k c s)\<lparr>mac_world := x\<rparr>"
  by (simp add: poke_code_def)

lemma poke_fields [simp]: "mac_counter (poke_code i k c s) = mac_counter s" "mac_world (poke_code i k c s) = mac_world s"
  "mac_break (poke_code i k c s) = mac_break s" "mac_last_cmp (poke_code i k c s) = mac_last_cmp s"
  by (simp_all add: poke_code_def)

lemma loop_lines:
  assumes "owns s i (code_lines (pre @ ls))" and "pre @ ls \<noteq> []" and "\<not> mac_break s"
    and "\<forall>l \<in> set ls. plain_line (line_text l) \<and> expand_args args (mac_counter s) (line_text l) = Some (v l) \<and> length (v l) < length (line_text l) + 1024"
  shows "macro_loop (world_cmd w) args i (length (code_lines pre)) [] s = Some (Ran_all, s\<lparr>mac_world := fold (\<lambda>l. run_line w (v l)) ls (mac_world s)\<rparr>)"
  using assms
proof (induction ls arbitrary: pre s)
  case Nil
  have "pre \<noteq> []" using Nil.prems(2) by simp
  then have p: "code_lines pre \<noteq> []" "last (code_lines pre) = CHR 0x0A"
    by (cases pre rule: rev_cases; simp add: code_lines_def)+
  have c: "code_of i s = Some (code_lines pre)" using owns_code_of [OF Nil.prems(1)] by simp
  have "macro_label_process lc (code_lines pre) [] (length (code_lines pre)) = Some (Some (length (code_lines pre)), [])" for lc
    using p last_conv_nth [of "code_lines pre"] by (simp add: macro_label_process_def Let_def)
  moreover have "line_end (code_lines pre) (length (code_lines pre)) = None" by (simp add: line_end_def)
  ultimately show ?case using c by (subst macro_loop.simps) simp
next
  case (Cons l ls)
  let ?t = "line_text l" let ?pre = "code_lines pre" let ?post = "code_lines ls" let ?k = "length ?pre + length ?t"
  let ?code = "?pre @ ?t @ CHR 0x0A # ?post"
  have code: "code_lines (pre @ l # ls) = ?code" by (simp add: code_lines_def)
  have l: "plain_line ?t" "expand_args args (mac_counter s) ?t = Some (v l)" "length (v l) < length ?t + 1024" using Cons.prems(4) by simp_all
  have o: "owns s i ?code" using Cons.prems(1) code by simp
  let ?s1 = "poke_code i ?k NUL s"
  have nul: "?code[?k := NUL] = ?pre @ ?t @ NUL # ?post" by (simp add: list_update_append)
  have lab: "macro_label_process lc (?pre @ ?t @ NUL # ?post) [] (length ?pre) = Some (Some (length ?pre), [])" for lc by (rule label_plain [OF l(1)])
  have t: "takeWhile (\<lambda>c. c \<noteq> NUL) (?t @ NUL # ?post) = ?t" using l(1) by (intro takeWhile_stop) (auto simp: plain_line_def)
  have ne: "?t \<noteq> []" using l(1) by (simp add: plain_line_def)
  have run: "radare_cmd_args (world_cmd w) ?t args ?s1 = Some (?s1\<lparr>mac_world := run_line w (v l) (mac_world s)\<rparr>)"
    using cmd_args_line [of args ?s1 ?t "v l" w] l by simp
  let ?s' = "s\<lparr>mac_world := run_line w (v l) (mac_world s)\<rparr>"
  have restored: "poke_code i ?k (CHR 0x0A) (?s1\<lparr>mac_world := run_line w (v l) (mac_world s)\<rparr>) = ?s'"
    using poke_restore [OF o, of ?k "CHR 0x0A" NUL] by (simp add: poke_world)
  have alive: "code_of i (?s1\<lparr>mac_world := run_line w (v l) (mac_world s)\<rparr>) \<noteq> None"
    using owns_code_of [of "?s1\<lparr>mac_world := run_line w (v l) (mac_world s)\<rparr>" i] owns_poke [OF o, of ?k NUL] by simp
  have "macro_loop (world_cmd w) args i (length ?pre) [] s = macro_loop (world_cmd w) args i (?k + 1) [] ?s'"
    using Cons.prems(3) run restored ne
    by (subst macro_loop.simps) (simp add: alive owns_code_of [OF o] line_end_plain [OF l(1)] nul lab t Let_def del: list_update_append)
  also have "?k + 1 = length (code_lines (pre @ [l]))" by (simp add: code_lines_def)
  also have "macro_loop (world_cmd w) args i (length (code_lines (pre @ [l]))) [] ?s' =
      Some (Ran_all, ?s'\<lparr>mac_world := fold (\<lambda>l. run_line w (v l)) ls (mac_world ?s')\<rparr>)"
    using Cons.prems by (intro Cons.IH) simp_all
  finally show ?case by simp
qed

section \<open>The table\<close>

text \<open>Stored names have no blank, since they are cut there; the allocations of the table are older than the next one and distinct.\<close>

definition macros_ok :: "'w mac_state \<Rightarrow> bool" where
  "macros_ok s \<longleftrightarrow> (\<forall>m \<in> set (mac_table s). CHR '' '' \<notin> set (m_name m) \<and> m_code_id m < mac_fresh s) \<and> distinct (map m_code_id (mac_table s))"

lemma split_none: "c \<notin> set t \<Longrightarrow> strchr_split c t = None"
  by simp

lemma split_some: "c \<notin> set a \<Longrightarrow> strchr_split c (a @ c # b) = Some (a, b)"
  by (simp add: strchr_split_Some)

lemma body_chars_line: "CHR '','' \<notin> set t \<Longrightarrow> p \<noteq> CHR 0x0A \<or> t = [] \<or> hd t \<noteq> CHR '')'' \<Longrightarrow> CHR 0x0A \<notin> set t \<Longrightarrow>
  body_chars p (t @ CHR '','' # rest) = t @ CHR 0x0A # body_chars (CHR 0x0A) rest"
proof (induction t arbitrary: p)
  case (Cons c t)
  have "c \<noteq> CHR '',''" "c \<noteq> CHR 0x0A" "\<not> (c = CHR '')'' \<and> p = CHR 0x0A)" using Cons.prems by (simp_all only: set_simps insert_iff list.simps list.sel) blast+
  moreover from this have "body_chars c (t @ CHR '','' # rest) = t @ CHR 0x0A # body_chars (CHR 0x0A) rest" using Cons.IH [of c] Cons.prems by simp
  ultimately show ?case by (simp add: Let_def)
qed (simp add: Let_def)

definition macro_line_ok :: "string \<Rightarrow> bool" where
  "macro_line_ok t \<longleftrightarrow> plain_line t \<and> hd t \<noteq> CHR '')'' \<and> CHR '','' \<notin> set t"

definition one_line :: "piece list list \<Rightarrow> string" where
  "one_line ls = concat (map (\<lambda>l. line_text l @ '','') ls) @ '')''"

lemma body_chars_lines:
  "\<forall>l \<in> set ls. macro_line_ok (line_text l) \<Longrightarrow> p = CHR 0x0A \<or> ls \<noteq> [] \<Longrightarrow> body_chars p (one_line ls) = code_lines ls @ [NUL]"
proof (induction ls arbitrary: p)
  case (Cons l ls)
  have l: "plain_line (line_text l)" "hd (line_text l) \<noteq> CHR '')''" "CHR '','' \<notin> set (line_text l)" using Cons.prems(1) by (simp_all add: macro_line_ok_def)
  then have "body_chars p (line_text l @ CHR '','' # one_line ls) = line_text l @ CHR 0x0A # body_chars (CHR 0x0A) (one_line ls)"
    by (intro body_chars_line) (auto simp: plain_line_def)
  then show ?case using Cons by (simp add: one_line_def code_lines_def)
qed (simp add: one_line_def code_lines_def)

lemma code_of_lines: "\<forall>l \<in> set ls. macro_line_ok (line_text l) \<Longrightarrow> ls \<noteq> [] \<Longrightarrow> takeWhile (\<lambda>c. c \<noteq> NUL) (body_chars NUL (one_line ls)) = code_lines ls"
  by (subst body_chars_lines, assumption, simp, rule takeWhile_stop) (auto simp: code_lines_def macro_line_ok_def plain_line_def)

definition with_words :: "string \<Rightarrow> string list \<Rightarrow> string" where
  "with_words stem ws = (if ws = [] then stem else stem @ CHR '' '' # join_words ws)"

definition macro_word :: "string \<Rightarrow> bool" where
  "macro_word w \<longleftrightarrow> good_word w \<and> CHR '','' \<notin> set w \<and> CHR '')'' \<notin> set w"

lemma set_join_words: "c \<in> set (join_words ws) \<Longrightarrow> c = CHR '' '' \<or> (\<exists>w \<in> set ws. c \<in> set w)"
  by (induction ws rule: join_words.induct) auto

lemma with_words_free:
  assumes "macro_word stem" and "\<forall>w \<in> set ws. macro_word w"
  shows "CHR '','' \<notin> set (with_words stem ws)" "CHR '')'' \<notin> set (with_words stem ws)" "with_words stem ws \<noteq> []"
  using assms set_join_words [of "CHR '',''" ws] set_join_words [of "CHR '')''" ws]
  by (auto simp: with_words_def macro_word_def good_word_def)

lemma with_words_split:
  assumes "macro_word stem" and "\<forall>w \<in> set ws. macro_word w"
  shows "(case strchr_split (CHR '' '') (with_words stem ws) of None \<Rightarrow> Some (with_words stem ws, None, 0) | Some (a, b) \<Rightarrow> map_option (\<lambda>(w, n). (a, Some w, n)) (set0word b)) =
    Some (stem, args_of ws, int (length ws))"
proof -
  have "CHR '' '' \<notin> set stem" "\<forall>w \<in> set ws. good_word w" using assms by (auto simp: macro_word_def good_word_def)
  then show ?thesis by (cases "ws = []") (simp_all add: with_words_def args_of_def split_none split_some set0word_join)
qed

lemma with_words_split2:
  assumes "macro_word stem" and "\<forall>w \<in> set ws. macro_word w"
  shows "(case strchr_split (CHR '' '') (with_words stem ws) of None \<Rightarrow> Some (with_words stem ws, 0) | Some (a, b) \<Rightarrow> map_option (\<lambda>(_, n). (a, n)) (set0word b)) =
    Some (stem, int (length ws))"
proof -
  have "CHR '' '' \<notin> set stem" "\<forall>w \<in> set ws. good_word w" using assms by (auto simp: macro_word_def good_word_def)
  then show ?thesis by (cases "ws = []") (simp_all add: with_words_def split_none split_some set0word_join)
qed

lemma replace_last_split:
  "find P (rev xs) = Some m \<Longrightarrow> \<exists>a b. xs = a @ m # b \<and> P m \<and> \<not> list_ex P b \<and> replace_last P y xs = a @ y # b"
proof (induction xs)
  case (Cons x xs)
  show ?case
  proof (cases "find P (rev xs)")
    case None
    then have n: "\<not> list_ex P xs" by (auto simp: find_None_iff list_ex_iff)
    have "P x" "m = x" using Cons.prems None n by (auto simp: find_append split: if_splits option.splits)
    then show ?thesis using n by (intro exI [of _ "[]"] exI [of _ xs]) simp
  next
    case (Some z)
    then have "m = z" using Cons.prems by (simp add: find_append)
    then obtain a b where "xs = a @ m # b" "P m" "\<not> list_ex P b" "replace_last P y xs = a @ y # b" using Cons.IH Some by blast
    moreover from this have "list_ex P xs" by simp
    ultimately show ?thesis by (intro exI [of _ "x # a"] exI [of _ b]) simp
  qed
qed simp

text \<open>What a definition leaves: the newest macro of the name has the lines, in an allocation of its own.\<close>

definition defines_macro :: "string \<Rightarrow> int \<Rightarrow> string \<Rightarrow> 'w mac_state \<Rightarrow> bool" where
  "defines_macro stem n code s \<longleftrightarrow> (\<exists>a m b. mac_table s = a @ m # b \<and> m_name m = stem \<and> m_nargs m = n \<and> m_code m = code \<and>
     \<not> list_ex (\<lambda>x. m_name x = stem) b \<and> owns s (m_code_id m) code)"

lemma owns_split:
  "distinct (map m_code_id (a @ m # b)) \<Longrightarrow> mac_table s = a @ m # b \<Longrightarrow> owns s (m_code_id m) (m_code m)"
  by (auto simp: owns_def) (metis image_eqI)+

lemma defines_macroI:
  "mac_table s = a @ m # b \<Longrightarrow> m_name m = stem \<Longrightarrow> m_nargs m = n \<Longrightarrow> m_code m = code \<Longrightarrow> \<not> list_ex (\<lambda>x. m_name x = stem) b \<Longrightarrow>
    macros_ok s \<Longrightarrow> defines_macro stem n code s"
  unfolding defines_macro_def using owns_split [of a m b s] unfolding macros_ok_def by metis

lemma macros_ok_replace:
  assumes "macros_ok s" and t: "mac_table s = a @ m # b" and n: "CHR '' '' \<notin> set (m_name m')" and i: "m_code_id m' = mac_fresh s"
  shows "macros_ok (s\<lparr>mac_table := a @ m' # b, mac_fresh := mac_fresh s + 1\<rparr>)"
proof -
  have old: "\<forall>x \<in> set a \<union> set b. CHR '' '' \<notin> set (m_name x) \<and> m_code_id x < mac_fresh s" and d: "distinct (map m_code_id (a @ b))"
    using assms(1) unfolding macros_ok_def t by auto
  then have new: "mac_fresh s \<notin> m_code_id ` (set a \<union> set b)" by force
  have "\<forall>x \<in> set (a @ m' # b). CHR '' '' \<notin> set (m_name x) \<and> m_code_id x < mac_fresh s + 1" using old n i by (auto intro: less_SucI)
  moreover have "distinct (map m_code_id (a @ m' # b))" using d new i by auto
  ultimately show ?thesis by (simp add: macros_ok_def del: set_append)
qed

lemma macro_add_new:
  fixes s :: "'w mac_state"
  assumes "macros_ok s" and "macro_word stem" and "\<forall>w \<in> set ps. macro_word w" and "\<forall>l \<in> set ls. macro_line_ok (line_text l)" and "ls \<noteq> []"
  shows "\<exists>t f. radare_macro_add input (with_words stem ps @ CHR '','' # one_line ls) s = Some (0, s\<lparr>mac_table := t, mac_fresh := f\<rparr>) \<and>
    defines_macro stem (int (length ps)) (code_lines ls) (s\<lparr>mac_table := t, mac_fresh := f\<rparr>) \<and> macros_ok (s\<lparr>mac_table := t, mac_fresh := f\<rparr>)"
proof -
  let ?name = "with_words stem ps"
  note w = with_words_free [OF assms(2,3)]
  have sp: "strchr_split (CHR '','') (?name @ CHR '','' # one_line ls) = Some (?name, one_line ls)" by (rule split_some [OF w(1)])
  have "last ?name \<in> set ?name" using w(3) by simp
  then have la: "last ?name \<noteq> CHR '')''" using w(2) by metis
  have code: "takeWhile (\<lambda>c. c \<noteq> NUL) (body_chars NUL (one_line ls)) = code_lines ls" by (rule code_of_lines [OF assms(4,5)])
  have stem: "CHR '' '' \<notin> set stem" using assms(2) by (auto simp: macro_word_def good_word_def)
  show ?thesis
  proof (cases "find (\<lambda>m. m_name m = ?name) (rev (mac_table s))")
    case None
    let ?m = "\<lparr>m_name = stem, m_code = code_lines ls, m_nargs = int (length ps), m_id = mac_fresh s, m_code_id = mac_fresh s + 1\<rparr>"
    have "radare_macro_add input (?name @ CHR '','' # one_line ls) s = Some (0, s\<lparr>mac_table := mac_table s @ [?m], mac_fresh := mac_fresh s + 2\<rparr>)"
      using w(3) by (simp add: radare_macro_add_def sp la None with_words_split2 [OF assms(2,3)] code)
    moreover have ok: "macros_ok (s\<lparr>mac_table := mac_table s @ [?m], mac_fresh := mac_fresh s + 2\<rparr>)"
      using assms(1) stem by (fastforce simp: macros_ok_def)
    moreover have "defines_macro stem (int (length ps)) (code_lines ls) (s\<lparr>mac_table := mac_table s @ [?m], mac_fresh := mac_fresh s + 2\<rparr>)"
      by (rule defines_macroI [OF _ _ _ _ _ ok, of "mac_table s" ?m "[]"]) simp_all
    ultimately show ?thesis by blast
  next
    case (Some m)
    let ?m = "m\<lparr>m_name := stem, m_code := code_lines ls, m_nargs := int (length ps), m_code_id := mac_fresh s\<rparr>"
    obtain a b where t: "mac_table s = a @ m # b" and n: "m_name m = ?name" and lb: "\<not> list_ex (\<lambda>m. m_name m = ?name) b"
      and r: "replace_last (\<lambda>m. m_name m = ?name) ?m (mac_table s) = a @ ?m # b"
      using replace_last_split [OF Some, of ?m] by blast
    have "CHR '' '' \<notin> set ?name" using assms(1) t n by (auto simp: macros_ok_def)
    then have name: "?name = stem" by (simp add: with_words_def split: if_splits)
    have "radare_macro_add input (?name @ CHR '','' # one_line ls) s = Some (0, s\<lparr>mac_table := a @ ?m # b, mac_fresh := mac_fresh s + 1\<rparr>)"
      using w(3) r by (simp add: radare_macro_add_def sp la Some with_words_split2 [OF assms(2,3)] code)
    moreover have ok: "macros_ok (s\<lparr>mac_table := a @ ?m # b, mac_fresh := mac_fresh s + 1\<rparr>)"
      by (rule macros_ok_replace [OF assms(1) t]) (simp_all add: stem)
    moreover have "defines_macro stem (int (length ps)) (code_lines ls) (s\<lparr>mac_table := a @ ?m # b, mac_fresh := mac_fresh s + 1\<rparr>)"
      using lb by (intro defines_macroI [OF _ _ _ _ _ ok, of a ?m b]) (simp_all add: name)
    ultimately show ?thesis by blast
  qed
qed

lemma search_skip: "\<not> list_ex (\<lambda>x. m_name x = str) b \<Longrightarrow> macro_search cmd v str args nargs (rev (a @ m # b)) s = macro_search cmd v str args nargs (m # rev a) s"
proof (induction b rule: rev_induct)
  case (snoc x b)
  then show ?case by (simp add: macro_search.simps [of cmd v str args nargs "x # xs" for xs])
qed simp

lemma macro_call_lines:
  fixes s :: "'w mac_state"
  assumes "defines_macro stem n (code_lines ls) s" and "macro_word stem" and "\<forall>w \<in> set ws. macro_word w" and "n = 0 \<or> n = int (length ws)"
    and "mac_level s < MACRO_LIMIT" and "ls \<noteq> []" and "\<forall>l \<in> set ls. macro_line_ok (line_text l)" and "\<forall>l \<in> set ls. \<forall>p \<in> set l. piece_ok ws p"
    and "\<forall>l \<in> set ls. length (line_value ws (mac_counter s) l) < length (line_text l) + 1024"
  shows "radare_macro_call (world_cmd w) (with_words stem ws @ CHR '')'' # rest) s =
    Some (1, s\<lparr>mac_break := False, mac_world := fold (\<lambda>l. run_line w (line_value ws (mac_counter s) l)) ls (mac_world s)\<rparr>)"
proof -
  obtain a m b where t: "mac_table s = a @ m # b" and n: "m_name m = stem" "m_nargs m = n" and lb: "\<not> list_ex (\<lambda>x. m_name x = stem) b"
    and o: "owns s (m_code_id m) (code_lines ls)" using assms(1) by (auto simp: defines_macro_def)
  let ?s1 = "s\<lparr>mac_level := mac_level s + 1\<rparr>"
  have o1: "owns (?s1\<lparr>mac_break := False\<rparr>) (m_code_id m) (code_lines ([] @ ls))" using o by (simp add: owns_def)
  have good: "\<forall>w \<in> set ws. good_word w" using assms(3) by (simp add: macro_word_def)
  have ex: "expand_args (args_of ws) (mac_counter s) (line_text l) = Some (line_value ws (mac_counter s) l)" if "l \<in> set ls" for l
    using expand_pieces good assms(8) that by blast
  have loop: "macro_loop (world_cmd w) (args_of ws) (m_code_id m) 0 [] (?s1\<lparr>mac_break := False\<rparr>) =
      Some (Ran_all, ?s1\<lparr>mac_break := False, mac_world := fold (\<lambda>l. run_line w (line_value ws (mac_counter s) l)) ls (mac_world s)\<rparr>)"
    using loop_lines [OF o1, of "args_of ws" "line_value ws (mac_counter s)" w] assms(6,7,9) ex
    by (simp add: macro_line_ok_def code_lines_def)
  have args: "\<not> (m_nargs m \<noteq> 0 \<and> int (length ws) \<noteq> m_nargs m)" using assms(4) n(2) by auto
  have stemtext: "takeWhile (\<lambda>c. c \<noteq> CHR '')'') (with_words stem ws @ CHR '')'' # rest) = with_words stem ws"
    by (rule takeWhile_stop) (use with_words_free(2) [OF assms(2,3)] in auto)
  have "macro_search (world_cmd w) v stem (args_of ws) (int (length ws)) (rev (mac_table s)) ?s1 =
      Some (1, ?s1\<lparr>mac_break := False, mac_world := fold (\<lambda>l. run_line w (line_value ws (mac_counter s) l)) ls (mac_world s)\<rparr>)" for v
    unfolding t search_skip [OF lb] using args n(1) loop by (subst macro_search.simps) simp
  then show ?thesis using assms(5) by (simp add: radare_macro_call_def stemtext with_words_split [OF assms(2,3)] Let_def)
qed

section \<open>Labels\<close>

text \<open>The index that decides whether a label is new is the number of labels after the loop that finds nothing, so only the first label is stored.\<close>

lemma second_label_lost:
  assumes "labels \<noteq> []" and "t \<noteq> []" and "last t = CHR '':''" and "hd t \<notin> {CHR '' '', CHR ''.'', CHR ''?''}" and "NUL \<notin> set t"
    and "\<not> list_ex (\<lambda>(n, _). n = tl t) labels"
  shows "macro_label_process lc (pre @ t @ NUL # post) labels (length pre) = Some (Some (length pre + length t + 1), labels)"
proof -
  obtain c u where t: "t = c # u" "c \<noteq> CHR '' ''" using assms(2,4) by (cases t) auto
  have "takeWhile (\<lambda>c. c \<noteq> NUL) (t @ NUL # post) = t" using assms(5) by (intro takeWhile_stop) auto
  then show ?thesis using assms t by (simp add: macro_label_process_def Let_def)
qed

lemma goto_lost_label:
  assumes "t \<noteq> []" and "last t = CHR '':''" and "NUL \<notin> set t" and "t \<notin> fst ` set labels"
  shows "macro_label_process lc (pre @ CHR ''.'' # t @ NUL # post) labels (length pre) = Some (None, labels)"
proof -
  have tw: "takeWhile (\<lambda>c. c \<noteq> NUL) ((CHR ''.'' # t) @ NUL # post) = CHR ''.'' # t" using assms(3) by (intro takeWhile_stop) auto
  have "find (\<lambda>(n, _). n = t) labels = None" using assms(4) by (force simp: find_None_iff)
  then show ?thesis using assms(1,2) tw by (simp add: macro_label_process_def goto_label_def Let_def)
qed

section \<open>Properties\<close>

text \<open>
  C22 A macro that was defined on one line (a name, optionally with argument names, and commands that end with a comma), over an old macro
  of the name or a new one, is called with words as arguments: the call returns 1 and has executed the lines in their order, each with
  \<open>$n\<close> replaced by the word \<open>n\<close> and \<open>$@\<close> by the counter, for any interpreter of commands that acts on the rest of the
  world; the table with the code of all macros, and the level of recursion, are as before the call. The definition keeps names without blanks
  and allocations distinct.
\<close>

theorem macro_define_call:
  fixes s :: "'w mac_state"
  assumes "macros_ok s" and "macro_word stem" and "\<forall>w \<in> set ps. macro_word w" and "\<forall>w \<in> set ws. macro_word w" and "ps = [] \<or> length ps = length ws"
    and "ls \<noteq> []" and "\<forall>l \<in> set ls. macro_line_ok (line_text l)" and "\<forall>l \<in> set ls. \<forall>p \<in> set l. piece_ok ws p"
    and "\<forall>l \<in> set ls. length (line_value ws (mac_counter s) l) < length (line_text l) + 1024" and "mac_level s < MACRO_LIMIT"
  shows "\<exists>s1. radare_macro_add input (with_words stem ps @ CHR '','' # one_line ls) s = Some (0, s1) \<and> macros_ok s1 \<and> mac_world s1 = mac_world s \<and>
    radare_macro_call (world_cmd w) (with_words stem ws @ CHR '')'' # rest) s1 =
      Some (1, s1\<lparr>mac_break := False, mac_world := fold (\<lambda>l. run_line w (line_value ws (mac_counter s) l)) ls (mac_world s)\<rparr>)"
proof -
  obtain t f where add: "radare_macro_add input (with_words stem ps @ CHR '','' # one_line ls) s = Some (0, s\<lparr>mac_table := t, mac_fresh := f\<rparr>)"
    and d: "defines_macro stem (int (length ps)) (code_lines ls) (s\<lparr>mac_table := t, mac_fresh := f\<rparr>)" and ok: "macros_ok (s\<lparr>mac_table := t, mac_fresh := f\<rparr>)"
    using macro_add_new [OF assms(1-3) assms(7,6)] by blast
  have "int (length ps) = 0 \<or> int (length ps) = int (length ws)" using assms(5) by auto
  then have "radare_macro_call (world_cmd w) (with_words stem ws @ CHR '')'' # rest) (s\<lparr>mac_table := t, mac_fresh := f\<rparr>) =
      Some (1, s\<lparr>mac_table := t, mac_fresh := f\<rparr>\<lparr>mac_break := False, mac_world := fold (\<lambda>l. run_line w (line_value ws (mac_counter s) l)) ls (mac_world s)\<rparr>)"
    using macro_call_lines [OF d assms(2,4) _ _ assms(6,7,8), of w rest] assms(9,10) by simp
  then show ?thesis using add ok by (intro exI [of _ "s\<lparr>mac_table := t, mac_fresh := f\<rparr>"]) simp
qed

definition mac_start :: "string list mac_state" where
  "mac_start = \<lparr>mac_table = [], mac_break = False, mac_break_value = None, mac_counter = 7, mac_level = 0, mac_last_cmp = 0, mac_fresh = 0, mac_out = [], mac_world = []\<rparr>"

lemma seven_digits: "digits_base 10 7 = ''7''" and one_char: "char_of (49 :: nat) = CHR ''1''"
  by (code_simp)+

theorem macro_define_call_witness:
  "\<exists>s1. radare_macro_add [] (''go a b'' @ CHR '','' # one_line [map Lit ''s '' @ [Word 1], map Lit ''x '' @ [Count]]) mac_start = Some (0, s1) \<and>
     macros_ok s1 \<and> mac_world s1 = [] \<and>
     radare_macro_call (world_cmd (\<lambda>c l. l @ [c])) (''go 1 main'' @ CHR '')'' # []) s1 =
       Some (1, s1\<lparr>mac_break := False, mac_world := [''s main'', ''x 7'']\<rparr>)"
  using macro_define_call [where s = mac_start and stem = "''go''" and ps = "[''a'', ''b'']" and ws = "[''1'', ''main'']" and input = "[]"
      and ls = "[map Lit ''s '' @ [Word 1], map Lit ''x '' @ [Count]]" and w = "\<lambda>c l. l @ [c]" and rest = "[]"]
  by (simp add: mac_start_def macros_ok_def macro_word_def good_word_def macro_line_ok_def plain_line_def line_text_def line_value_def
      MACRO_LIMIT_def with_words_def run_line_def digit_char_def fmt_d_def seven_digits one_char)

text \<open>
  C23 The calls that fail: at the limit of the recursion, for a name that no macro has, and with a number of words other than the one of the
  newest macro of the name, the call returns 0, runs no command, keeps the table, the world and the level, and prints the message of the case.
\<close>

theorem macro_call_errors:
  fixes s :: "'w mac_state"
  assumes "macro_word stem" and "\<forall>w \<in> set ws. macro_word w"
  shows "radare_macro_call cmd (with_words stem ws @ CHR '')'' # rest) s =
    (if MACRO_LIMIT \<le> mac_level s then Some (0, mac_print (''Maximum macro recursivity reached.'' @ [CHR 0x0A]) s)
     else (case find (\<lambda>m. m_name m = stem) (rev (mac_table s)) of
        None \<Rightarrow> Some (0, mac_print (''No macro named '' @ [CHR 0x27] @ stem @ [CHR 0x27, CHR 0x0A]) s)
      | Some m \<Rightarrow>
          if m_nargs m \<noteq> 0 \<and> m_nargs m \<noteq> int (length ws) then
            Some (0, mac_print (''Macro '' @ [CHR 0x27] @ stem @ [CHR 0x27] @ '' expects '' @ fmt_d (m_nargs m) @ '' args. (not '' @ fmt_d (int (length ws)) @ '') ('' @
              with_words stem ws @ CHR '')'' # rest @ '').'' @ [CHR 0x0A]) s)
          else radare_macro_call cmd (with_words stem ws @ CHR '')'' # rest) s))"
proof -
  let ?txt = "with_words stem ws @ CHR '')'' # rest"
  have stemtext: "takeWhile (\<lambda>c. c \<noteq> CHR '')'') ?txt = with_words stem ws"
    by (rule takeWhile_stop) (use with_words_free(2) [OF assms] in auto)
  have none: "find (\<lambda>m. m_name m = stem) ms = None \<Longrightarrow>
      macro_search cmd ?txt stem (args_of ws) (int (length ws)) ms s1 = Some (0, mac_print (''No macro named '' @ [CHR 0x27] @ stem @ [CHR 0x27, CHR 0x0A]) s1)"
    for ms and s1 :: "'w mac_state"
    by (induction ms) (simp_all add: macro_search.simps split: if_splits)
  have some: "find (\<lambda>m. m_name m = stem) ms = Some m \<Longrightarrow> m_nargs m \<noteq> 0 \<Longrightarrow> m_nargs m \<noteq> int (length ws) \<Longrightarrow>
      macro_search cmd ?txt stem (args_of ws) (int (length ws)) ms s1 =
        Some (0, mac_print (''Macro '' @ [CHR 0x27] @ stem @ [CHR 0x27] @ '' expects '' @ fmt_d (m_nargs m) @ '' args. (not '' @ fmt_d (int (length ws)) @ '') ('' @ ?txt @ '').'' @ [CHR 0x0A]) s1)"
    for ms m and s1 :: "'w mac_state"
    by (induction ms) (auto simp add: macro_search.simps split: if_splits)
  show ?thesis
    by (simp add: radare_macro_call_def stemtext with_words_split [OF assms] none some mac_print_def split: option.split)
qed

theorem macro_call_errors_witness:
  "radare_macro_call (world_cmd (\<lambda>c l. l @ [c])) (''no 1'' @ CHR '')'' # []) mac_start =
     Some (0, mac_print (''No macro named '' @ [CHR 0x27] @ ''no'' @ [CHR 0x27, CHR 0x0A]) mac_start)"
  using macro_call_errors [where stem = "''no''" and ws = "[''1'']" and s = mac_start and rest = "[]" and cmd = "world_cmd (\<lambda>c l. l @ [c])"]
  by (simp add: mac_start_def MACRO_LIMIT_def macro_word_def good_word_def with_words_def)

end
