(* ===== verification/Btree.thy ===== *)
theory Btree
  imports Flags
begin

text \<open>
  The binary tree of \<^verbatim>\<open>src/src/btree.c\<close>, \<^verbatim>\<open>btree.h\<close>, on an explicit heap of nodes, with the two orders of \<^verbatim>\<open>flags.c\<close> it is used with.
  A pointer is \<open>nat option\<close>; \<open>None\<close> of a result is an access to memory that is not a node (freed or never allocated) or a call that does
  not return. The refinement against trees and the dictionary contract are below the model; \<open>rep\<close> says that a heap holds a tree.
\<close>

section \<open>Model\<close>

record 'a btree_node =
  b_data :: 'a
  b_hits :: int
  b_left :: "nat option"
  b_right :: "nat option"

text \<open>The nodes, the next allocation, and the data that were given to the callback \<open>del\<close>.\<close>

record 'a btree_heap =
  b_cells :: "nat \<rightharpoonup> 'a btree_node"
  b_next :: nat
  b_deleted :: "'a list"

definition b_set :: "nat \<Rightarrow> ('a btree_node \<Rightarrow> 'a btree_node) \<Rightarrow> 'a btree_heap \<Rightarrow> 'a btree_heap option" where
  "b_set a f h = map_option (\<lambda>n. h\<lparr>b_cells := (b_cells h)(a \<mapsto> f n)\<rparr>) (b_cells h a)"

definition b_free :: "nat \<Rightarrow> 'a btree_heap \<Rightarrow> 'a btree_heap" where
  "b_free a h = h\<lparr>b_cells := (b_cells h)(a := None)\<rparr>"

definition b_del :: "bool \<Rightarrow> 'a \<Rightarrow> 'a btree_heap \<Rightarrow> 'a btree_heap" where
  "b_del del x h = (if del then h\<lparr>b_deleted := b_deleted h @ [x]\<rparr> else h)"

definition btree_init :: "nat option" where
  "btree_init = None"

text \<open>The loop of \<^verbatim>\<open>btree_remove\<close> to the leftmost node below \<open>rp\<close>, with its parent.\<close>

partial_function (option) btree_leftmost :: "'a btree_heap \<Rightarrow> nat \<Rightarrow> nat \<Rightarrow> (nat \<times> nat \<times> 'a btree_node) option" where
  "btree_leftmost h f rp =
     (case b_cells h rp of
        None \<Rightarrow> None
      | Some n \<Rightarrow> (case b_left n of None \<Rightarrow> Some (f, rp, n) | Some l \<Rightarrow> btree_leftmost h rp l))"

declare btree_leftmost.simps [code]

definition btree_unlink :: "nat \<Rightarrow> 'a btree_node \<Rightarrow> 'a btree_heap \<Rightarrow> ('a btree_heap \<times> nat option) option" where
  "btree_unlink p n h =
     (case b_right n of
        None \<Rightarrow> Some (h, b_left n)
      | Some r \<Rightarrow>
          (case b_left n of
             None \<Rightarrow> Some (h, Some r)
           | Some l \<Rightarrow>
               (case btree_leftmost h p r of
                  None \<Rightarrow> None
                | Some (f, rp, m) \<Rightarrow>
                    if f \<noteq> p then
                      map_option (\<lambda>h'. (h', Some rp))
                        (Option.bind (b_set f (\<lambda>c. c\<lparr>b_left := b_right m\<rparr>) h)
                           (b_set rp (\<lambda>c. c\<lparr>b_right := b_right n, b_left := b_left n\<rparr>)))
                    else map_option (\<lambda>h'. (h', Some rp)) (b_set rp (\<lambda>c. c\<lparr>b_left := b_left n\<rparr>) h))))"

definition btree_remove :: "bool \<Rightarrow> 'a btree_heap \<Rightarrow> nat option \<Rightarrow> ('a btree_heap \<times> nat option) option" where
  "btree_remove del h p =
     (case p of
        None \<Rightarrow> Some (h, None)
      | Some a \<Rightarrow>
          (case b_cells h a of
             None \<Rightarrow> None
           | Some n \<Rightarrow> map_option (\<lambda>(h', rp). (b_free a (b_del del (b_data n) h'), rp)) (btree_unlink a n h)))"

text \<open>With \<open>parent\<close> every level of the recursion replaces the node that was found by its own root.\<close>

partial_function (option) btree_search :: "('a \<Rightarrow> 'a \<Rightarrow> int) \<Rightarrow> 'a btree_heap \<Rightarrow> nat option \<Rightarrow> 'a \<Rightarrow> bool \<Rightarrow> nat option option" where
  "btree_search cmp h root x parent =
     (case root of
        None \<Rightarrow> Some None
      | Some r \<Rightarrow>
          (case b_cells h r of
             None \<Rightarrow> None
           | Some n \<Rightarrow>
               Option.bind
                 (if cmp x (b_data n) < 0 then btree_search cmp h (b_left n) x parent
                  else if 0 < cmp x (b_data n) then btree_search cmp h (b_right n) x parent
                  else Some (Some r))
                 (\<lambda>p. Some (if p \<noteq> None \<and> parent then Some r else p))))"

declare btree_search.simps [code]

definition btree_del :: "('a \<Rightarrow> 'a \<Rightarrow> int) \<Rightarrow> bool \<Rightarrow> nat option \<Rightarrow> 'a \<Rightarrow> 'a btree_heap \<Rightarrow> ('a btree_heap \<times> int) option" where
  "btree_del cmp del proot x h =
     (case btree_search cmp h proot x True of
        None \<Rightarrow> None
      | Some None \<Rightarrow> Some (h, 0)
      | Some (Some p) \<Rightarrow>
          (case b_cells h p of
             None \<Rightarrow> None
           | Some n \<Rightarrow>
               (case btree_remove del h (b_left n) of
                  None \<Rightarrow> None
                | Some (h1, q) \<Rightarrow> map_option (\<lambda>h2. (h2, 1)) (b_set p (\<lambda>c. c\<lparr>b_right := q\<rparr>) h1))))"

definition btree_get :: "('a \<Rightarrow> 'a \<Rightarrow> int) \<Rightarrow> nat option \<Rightarrow> 'a \<Rightarrow> 'a btree_heap \<Rightarrow> ('a btree_heap \<times> 'a option) option" where
  "btree_get cmp proot x h =
     (case btree_search cmp h proot x False of
        None \<Rightarrow> None
      | Some None \<Rightarrow> Some (h, None)
      | Some (Some p) \<Rightarrow>
          (case b_cells h p of
             None \<Rightarrow> None
           | Some n \<Rightarrow> map_option (\<lambda>h'. (h', Some (b_data n))) (b_set p (\<lambda>c. c\<lparr>b_hits := b_hits c + 1\<rparr>) h)))"

partial_function (option) btree_cleartree :: "bool \<Rightarrow> nat option \<Rightarrow> 'a btree_heap \<Rightarrow> 'a btree_heap option" where
  "btree_cleartree del proot h =
     (case proot of
        None \<Rightarrow> Some h
      | Some a \<Rightarrow>
          (case b_cells h a of
             None \<Rightarrow> None
           | Some n \<Rightarrow>
               Option.bind (btree_cleartree del (b_left n) h) (\<lambda>h1.
               Option.bind (btree_cleartree del (b_right n) h1) (\<lambda>h2.
                 Some (b_free a (b_del del (b_data n) h2))))))"

declare btree_cleartree.simps [code]

text \<open>\<open>t\<close> is \<^verbatim>\<open>*T\<close>, which is not null, and \<open>p\<close> the new node; an equal key drops the node.\<close>

partial_function (option) btree_insert :: "('a \<Rightarrow> 'a \<Rightarrow> int) \<Rightarrow> nat \<Rightarrow> nat \<Rightarrow> 'a btree_heap \<Rightarrow> 'a btree_heap option" where
  "btree_insert cmp t p h =
     (case (b_cells h p, b_cells h t) of
        (Some np, Some nt) \<Rightarrow>
          (if cmp (b_data np) (b_data nt) < 0 then
             (case b_left nt of Some l \<Rightarrow> btree_insert cmp l p h | None \<Rightarrow> b_set t (\<lambda>c. c\<lparr>b_left := Some p\<rparr>) h)
           else if 0 < cmp (b_data np) (b_data nt) then
             (case b_right nt of Some r \<Rightarrow> btree_insert cmp r p h | None \<Rightarrow> b_set t (\<lambda>c. c\<lparr>b_right := Some p\<rparr>) h)
           else Some h)
      | _ \<Rightarrow> None)"

declare btree_insert.simps [code]

definition btree_add :: "('a \<Rightarrow> 'a \<Rightarrow> int) \<Rightarrow> nat option \<Rightarrow> 'a \<Rightarrow> 'a btree_heap \<Rightarrow> ('a btree_heap \<times> nat option) option" where
  "btree_add cmp T e h =
     (let p = b_next h;
          h1 = h\<lparr>b_cells := (b_cells h)(p \<mapsto> \<lparr>b_data = e, b_hits = 0, b_left = None, b_right = None\<rparr>), b_next := p + 1\<rparr>
      in case T of None \<Rightarrow> Some (h1, Some p) | Some t \<Rightarrow> map_option (\<lambda>h2. (h2, Some t)) (btree_insert cmp t p h1))"

definition btree_empty :: "'a btree_heap \<Rightarrow> nat option \<Rightarrow> int option" where
  "btree_empty h T =
     (case T of
        None \<Rightarrow> Some 1
      | Some t \<Rightarrow> map_option (\<lambda>n. if b_right n \<noteq> None \<or> b_left n \<noteq> None then 0 else 1) (b_cells h t))"

definition btree_pick :: "'a btree_heap \<Rightarrow> nat \<Rightarrow> nat option \<Rightarrow> nat option" where
  "btree_pick h p m =
     (case m of
        None \<Rightarrow> Some p
      | Some q \<Rightarrow>
          (case (b_cells h q, b_cells h p) of
             (Some nq, Some np) \<Rightarrow> Some (if b_hits np < b_hits nq then q else p)
           | _ \<Rightarrow> None))"

text \<open>The second argument of \<^verbatim>\<open>btree_hittest\<close> is not used.\<close>

partial_function (option) btree_hittest :: "'a btree_heap \<Rightarrow> nat option \<Rightarrow> nat option option" where
  "btree_hittest h root =
     (case root of
        None \<Rightarrow> Some None
      | Some r \<Rightarrow>
          (case b_cells h r of
             None \<Rightarrow> None
           | Some n \<Rightarrow>
               Option.bind (btree_hittest h (b_left n)) (\<lambda>ml.
               Option.bind (btree_hittest h (b_right n)) (\<lambda>mr.
               Option.bind (btree_pick h r ml) (\<lambda>p. map_option Some (btree_pick h p mr))))))"

declare btree_hittest.simps [code]

text \<open>\<open>NT\<close> is not initialised: its first value is an argument.\<close>

partial_function (option) btree_optimize :: "('a \<Rightarrow> 'a \<Rightarrow> int) \<Rightarrow> nat option \<Rightarrow> nat option \<Rightarrow> 'a btree_heap \<Rightarrow> ('a btree_heap \<times> nat option \<times> int) option" where
  "btree_optimize cmp T NT h =
     Option.bind (btree_hittest h T) (\<lambda>q.
       (case q of
          None \<Rightarrow> Some (h, NT, 0)
        | Some a \<Rightarrow>
            (case b_cells h a of
               None \<Rightarrow> None
             | Some n \<Rightarrow>
                 Option.bind (btree_add cmp NT (b_data n) h) (\<lambda>(h1, NT').
                 Option.bind (btree_del cmp False T (b_data n) h1) (\<lambda>(h2, _). btree_optimize cmp T NT' h2)))))"

declare btree_optimize.simps [code]

text \<open>The orders of \<^verbatim>\<open>flags.c\<close>.\<close>

definition flag_ncmp :: "flag_t \<Rightarrow> flag_t \<Rightarrow> int" where
  "flag_ncmp fa fb = (if namehash fb < namehash fa then 1 else if namehash fa < namehash fb then - 1 else 0)"

definition flag_cmp :: "flag_t \<Rightarrow> flag_t \<Rightarrow> int" where
  "flag_cmp fa fb = (if foffset fb < foffset fa then 1 else if foffset fa < foffset fb then - 1 else 0)"

section \<open>Trees in the heap\<close>

datatype 'a tr = Tip | Br nat 'a int "'a tr" "'a tr"

fun ptr :: "'a tr \<Rightarrow> nat option" where
  "ptr Tip = None"
| "ptr (Br a x k l r) = Some a"

fun addrs_of :: "'a tr \<Rightarrow> nat list" where
  "addrs_of Tip = []"
| "addrs_of (Br a x k l r) = a # addrs_of l @ addrs_of r"

fun inorder :: "'a tr \<Rightarrow> 'a list" where
  "inorder Tip = []"
| "inorder (Br a x k l r) = inorder l @ x # inorder r"

fun rep :: "(nat \<rightharpoonup> 'a btree_node) \<Rightarrow> 'a tr \<Rightarrow> bool" where
  "rep c Tip = True"
| "rep c (Br a x k l r) \<longleftrightarrow> c a = Some \<lparr>b_data = x, b_hits = k, b_left = ptr l, b_right = ptr r\<rparr> \<and> rep c l \<and> rep c r"

lemma rep_cong: "(\<And>a. a \<in> set (addrs_of t) \<Longrightarrow> c a = c' a) \<Longrightarrow> rep c t = rep c' t"
  by (induction t) auto

lemma rep_upd [simp]: "a \<notin> set (addrs_of t) \<Longrightarrow> rep (c(a := v)) t = rep c t"
  by (rule rep_cong) auto

lemma ptr_None [simp]: "ptr t = None \<longleftrightarrow> t = Tip"
  by (cases t) auto

lemma ptr_Some: "ptr t = Some a \<Longrightarrow> a \<in> set (addrs_of t)"
  by (cases t) auto

text \<open>Well-formed trees: no node is shared.\<close>

definition tree_at :: "'a btree_heap \<Rightarrow> 'a tr \<Rightarrow> bool" where
  "tree_at h t \<longleftrightarrow> rep (b_cells h) t \<and> distinct (addrs_of t) \<and> (\<forall>a \<in> dom (b_cells h). a < b_next h)"

lemma rep_dom: "rep c t \<Longrightarrow> a \<in> set (addrs_of t) \<Longrightarrow> a \<in> dom c"
  by (induction t) auto

section \<open>Search and insertion\<close>

fun tr_find :: "('a \<Rightarrow> 'a \<Rightarrow> int) \<Rightarrow> 'a tr \<Rightarrow> 'a \<Rightarrow> 'a tr" where
  "tr_find cmp Tip x = Tip"
| "tr_find cmp (Br a y k l r) x = (if cmp x y < 0 then tr_find cmp l x else if 0 < cmp x y then tr_find cmp r x else Br a y k l r)"

lemma search_node: "rep (b_cells h) t \<Longrightarrow> btree_search cmp h (ptr t) x False = Some (ptr (tr_find cmp t x))"
  by (induction t) (subst btree_search.simps; simp)+

lemma search_parent: "rep (b_cells h) t \<Longrightarrow> btree_search cmp h (ptr t) x True = Some (if tr_find cmp t x = Tip then None else ptr t)"
  by (induction t) (subst btree_search.simps; simp)+

lemma find_rep: "rep c t \<Longrightarrow> tr_find cmp t x = Br a y k l r \<Longrightarrow> c a = Some \<lparr>b_data = y, b_hits = k, b_left = ptr l, b_right = ptr r\<rparr>"
  by (induction t) (auto split: if_splits)

fun tr_insert :: "('a \<Rightarrow> 'a \<Rightarrow> int) \<Rightarrow> nat \<Rightarrow> 'a \<Rightarrow> 'a tr \<Rightarrow> 'a tr" where
  "tr_insert cmp p e Tip = Br p e 0 Tip Tip"
| "tr_insert cmp p e (Br a y k l r) =
     (if cmp e y < 0 then Br a y k (tr_insert cmp p e l) r else if 0 < cmp e y then Br a y k l (tr_insert cmp p e r) else Br a y k l r)"

lemma insert_addrs: "set (addrs_of (tr_insert cmp p e t)) \<subseteq> insert p (set (addrs_of t))"
  by (induction t) auto

lemma insert_distinct: "distinct (addrs_of t) \<Longrightarrow> p \<notin> set (addrs_of t) \<Longrightarrow> distinct (addrs_of (tr_insert cmp p e t))"
proof (induction t)
  case (Br a y k l r)
  show ?case using Br insert_addrs [of cmp p e l] insert_addrs [of cmp p e r] by auto
qed simp

lemma insert_root: "t \<noteq> Tip \<Longrightarrow> ptr (tr_insert cmp p e t) = ptr t"
  by (cases t) auto

lemma insert_node:
  assumes "rep (b_cells h) t" and "ptr t = Some a" and "distinct (addrs_of t)" and "p \<notin> set (addrs_of t)"
    and "b_cells h p = Some \<lparr>b_data = e, b_hits = 0, b_left = None, b_right = None\<rparr>"
  shows "\<exists>c. btree_insert cmp a p h = Some (h\<lparr>b_cells := c\<rparr>) \<and> rep c (tr_insert cmp p e t) \<and>
    (\<forall>b. b \<notin> set (addrs_of t) \<longrightarrow> c b = b_cells h b) \<and> dom c = dom (b_cells h)"
  using assms
proof (induction t arbitrary: a)
  case (Br b y k l r)
  let ?ch = "b_cells h"
  have a: "a = b" "?ch b = Some \<lparr>b_data = y, b_hits = k, b_left = ptr l, b_right = ptr r\<rparr>" and l: "rep ?ch l" and r: "rep ?ch r" using Br.prems by auto
  consider (less) "cmp e y < 0" | (greater) "0 < cmp e y" | (same) "cmp e y = 0" by linarith
  then show ?case
  proof cases
    case less
    show ?thesis
    proof (cases l)
      case Tip
      let ?c = "?ch(b \<mapsto> \<lparr>b_data = y, b_hits = k, b_left = Some p, b_right = ptr r\<rparr>)"
      have "btree_insert cmp a p h = Some (h\<lparr>b_cells := ?c\<rparr>)"
        using a less Br.prems(5) Tip by (subst btree_insert.simps) (simp add: b_set_def)
      moreover have "rep ?c (tr_insert cmp p e (Br b y k l r))" using less Tip Br.prems r by auto
      moreover have "\<forall>x. x \<notin> set (addrs_of (Br b y k l r)) \<longrightarrow> ?c x = ?ch x" "dom ?c = dom ?ch" using a(2) by auto
      ultimately show ?thesis by blast
    next
      case (Br b' y' k' l' r')
      then obtain c where c: "btree_insert cmp b' p h = Some (h\<lparr>b_cells := c\<rparr>)" "rep c (tr_insert cmp p e l)"
          "\<forall>x. x \<notin> set (addrs_of l) \<longrightarrow> c x = ?ch x" "dom c = dom ?ch"
        using Br.IH(1) [of b'] Br.prems l by auto
      have "btree_insert cmp a p h = Some (h\<lparr>b_cells := c\<rparr>)" using a less Br.prems(5) Br c(1) by (subst btree_insert.simps) simp
      moreover have "rep c r" using r rep_cong [of r c ?ch] c(3) Br.prems(3) by auto
      moreover have "c b = ?ch b" using c(3) Br.prems(3) by auto
      moreover have "ptr (tr_insert cmp p e l) = ptr l" using Br by (intro insert_root) simp
      ultimately have "rep c (tr_insert cmp p e (Br b y k l r))" "btree_insert cmp a p h = Some (h\<lparr>b_cells := c\<rparr>)" using a(2) less c(2) by simp_all
      moreover have "\<forall>x. x \<notin> set (addrs_of (Br b y k l r)) \<longrightarrow> c x = ?ch x" using c(3) by simp
      ultimately show ?thesis using c(4) by blast
    qed
  next
    case greater
    show ?thesis
    proof (cases r)
      case Tip
      let ?c = "?ch(b \<mapsto> \<lparr>b_data = y, b_hits = k, b_left = ptr l, b_right = Some p\<rparr>)"
      have "btree_insert cmp a p h = Some (h\<lparr>b_cells := ?c\<rparr>)"
        using a greater Br.prems(5) Tip by (subst btree_insert.simps) (simp add: b_set_def)
      moreover have "rep ?c (tr_insert cmp p e (Br b y k l r))" using greater Tip Br.prems l by auto
      moreover have "\<forall>x. x \<notin> set (addrs_of (Br b y k l r)) \<longrightarrow> ?c x = ?ch x" "dom ?c = dom ?ch" using a(2) by auto
      ultimately show ?thesis by blast
    next
      case (Br b' y' k' l' r')
      then obtain c where c: "btree_insert cmp b' p h = Some (h\<lparr>b_cells := c\<rparr>)" "rep c (tr_insert cmp p e r)"
          "\<forall>x. x \<notin> set (addrs_of r) \<longrightarrow> c x = ?ch x" "dom c = dom ?ch"
        using Br.IH(2) [of b'] Br.prems r by auto
      have "btree_insert cmp a p h = Some (h\<lparr>b_cells := c\<rparr>)" using a greater Br.prems(5) Br c(1) by (subst btree_insert.simps) simp
      moreover have "rep c l" using l rep_cong [of l c ?ch] c(3) Br.prems(3) by auto
      moreover have "c b = ?ch b" using c(3) Br.prems(3) by auto
      moreover have "ptr (tr_insert cmp p e r) = ptr r" using Br by (intro insert_root) simp
      ultimately have "rep c (tr_insert cmp p e (Br b y k l r))" "btree_insert cmp a p h = Some (h\<lparr>b_cells := c\<rparr>)" using a(2) greater c(2) by simp_all
      moreover have "\<forall>x. x \<notin> set (addrs_of (Br b y k l r)) \<longrightarrow> c x = ?ch x" using c(3) by simp
      ultimately show ?thesis using c(4) by blast
    qed
  next
    case same
    then have "btree_insert cmp a p h = Some (h\<lparr>b_cells := ?ch\<rparr>)" using a Br.prems(5) by (subst btree_insert.simps) simp
    then show ?thesis using same Br.prems(1) by (intro exI [of _ ?ch]) simp
  qed
qed simp

text \<open>A hit counts at its address.\<close>

fun tr_hit :: "nat \<Rightarrow> 'a tr \<Rightarrow> 'a tr" where
  "tr_hit a Tip = Tip"
| "tr_hit a (Br b x k l r) = Br b x (if b = a then k + 1 else k) (tr_hit a l) (tr_hit a r)"

lemma hit_simps [simp]: "ptr (tr_hit a t) = ptr t" "addrs_of (tr_hit a t) = addrs_of t" "inorder (tr_hit a t) = inorder t"
  by (induction t) auto

lemma hit_find: "tr_find cmp (tr_hit a t) x = tr_hit a (tr_find cmp t x)"
  by (induction t) auto

lemma hit_rep: "rep c t \<Longrightarrow> rep (c(a := map_option (\<lambda>n. n\<lparr>b_hits := b_hits n + 1\<rparr>) (c a))) (tr_hit a t)"
  by (induction t) auto

section \<open>The dictionary\<close>

text \<open>What the tree needs of a comparison: it is the order of a key.\<close>

locale key_order =
  fixes cmp :: "'a \<Rightarrow> 'a \<Rightarrow> int" and key :: "'a \<Rightarrow> 'k :: linorder"
  assumes cmp_less: "cmp x y < 0 \<longleftrightarrow> key x < key y" and cmp_greater: "0 < cmp x y \<longleftrightarrow> key y < key x"

context key_order
begin

definition bst :: "'a tr \<Rightarrow> bool" where
  "bst t \<longleftrightarrow> sorted_wrt (<) (map key (inorder t))"

lemma bst_Br: "bst (Br a x k l r) \<longleftrightarrow> bst l \<and> bst r \<and> (\<forall>y \<in> set (inorder l). key y < key x) \<and> (\<forall>y \<in> set (inorder r). key x < key y)"
  by (auto simp: bst_def sorted_wrt_append) (meson less_trans)

lemma find_inorder: "tr_find cmp t x = Br a y k l r \<Longrightarrow> y \<in> set (inorder t) \<and> key y = key x"
proof (induction t)
  case (Br b z j l' r')
  then show ?case using cmp_less [of x z] cmp_greater [of x z] by (auto split: if_splits)
qed simp

lemma find_Tip: "bst t \<Longrightarrow> tr_find cmp t x = Tip \<longleftrightarrow> key x \<notin> key ` set (inorder t)"
proof (induction t)
  case (Br b z j l r)
  consider "key x < key z" | "key z < key x" | "key x = key z" by fastforce
  then show ?case
  proof cases
    case 1
    then show ?thesis using Br cmp_less [of x z] by (fastforce simp: bst_Br)
  next
    case 2
    then show ?thesis using Br cmp_less [of x z] cmp_greater [of x z] by (fastforce simp: bst_Br)
  next
    case 3
    then show ?thesis using cmp_less [of x z] cmp_greater [of x z] by simp
  qed
qed simp

lemma insert_inorder: "bst t \<Longrightarrow> set (inorder (tr_insert cmp p e t)) = (if key e \<in> key ` set (inorder t) then set (inorder t) else insert e (set (inorder t)))"
proof (induction t)
  case (Br b z j l r)
  consider "key e < key z" | "key z < key e" | "key e = key z" by fastforce
  then show ?case
  proof cases
    case 1
    then have "key e \<notin> key ` set (inorder r)" "key e \<noteq> key z" using Br.prems by (fastforce simp: bst_Br)+
    then show ?thesis using 1 Br cmp_less [of e z] by (auto simp: bst_Br)
  next
    case 2
    then have "key e \<notin> key ` set (inorder l)" "key e \<noteq> key z" using Br.prems by (fastforce simp: bst_Br)+
    then show ?thesis using 2 Br cmp_less [of e z] cmp_greater [of e z] by (auto simp: bst_Br)
  next
    case 3
    then show ?thesis using cmp_less [of e z] cmp_greater [of e z] by simp
  qed
qed simp

lemma insert_bst: "bst t \<Longrightarrow> bst (tr_insert cmp p e t)"
proof (induction t)
  case (Br b z j l r)
  then show ?case using insert_inorder [of l p e] insert_inorder [of r p e] cmp_less [of e z] cmp_greater [of e z]
    by (auto simp: bst_Br)
qed (simp add: bst_def)

text \<open>One addition and a sequence of them: the first element of a key is the one that is found.\<close>

definition holds :: "'a btree_heap \<Rightarrow> nat option \<Rightarrow> 'a list \<Rightarrow> bool" where
  "holds h T es \<longleftrightarrow> (\<exists>t. ptr t = T \<and> tree_at h t \<and> bst t \<and> (\<forall>x. List.find (\<lambda>e. key e = key x) es = (case tr_find cmp t x of Tip \<Rightarrow> None | Br a y k l r \<Rightarrow> Some y)))"

lemma find_found: "bst t \<Longrightarrow> y \<in> set (inorder t) \<Longrightarrow> key y = key x \<Longrightarrow> \<exists>a k l r. tr_find cmp t x = Br a y k l r"
proof -
  assume b: "bst t" and y: "y \<in> set (inorder t)" "key y = key x"
  then have "key x \<in> key ` set (inorder t)" by (metis imageI)
  then obtain a z k l r where z: "tr_find cmp t x = Br a z k l r" using find_Tip [OF b, of x] by (cases "tr_find cmp t x") blast+
  then have "z \<in> set (inorder t)" "key z = key x" using find_inorder by blast+
  moreover have "inj_on key (set (inorder t))" using b by (simp add: bst_def strict_sorted_iff distinct_map)
  ultimately have "z = y" using y by (metis inj_onD)
  then show "\<exists>a k l r. tr_find cmp t x = Br a y k l r" using z by blast
qed

lemma add_holds:
  assumes "holds h T es"
  shows "\<exists>h' T'. btree_add cmp T e h = Some (h', T') \<and> holds h' T' (es @ [e])"
proof -
  obtain t where t: "ptr t = T" "tree_at h t" "bst t"
    and f: "\<And>x. List.find (\<lambda>e. key e = key x) es = (case tr_find cmp t x of Tip \<Rightarrow> None | Br a y k l r \<Rightarrow> Some y)"
    using assms unfolding holds_def by blast
  let ?p = "b_next h" let ?n = "\<lparr>b_data = e, b_hits = 0, b_left = None, b_right = None\<rparr>"
  let ?h1 = "h\<lparr>b_cells := (b_cells h)(?p \<mapsto> ?n), b_next := ?p + 1\<rparr>"
  have p: "?p \<notin> set (addrs_of t)" using t(2) rep_dom [of "b_cells h" t ?p] by (auto simp: tree_at_def)
  let ?t = "tr_insert cmp ?p e t"
  have "\<exists>h'. btree_add cmp T e h = Some (h', ptr ?t) \<and> tree_at h' ?t"
  proof (cases t)
    case Tip
    then have "btree_add cmp T e h = Some (?h1, ptr ?t)" using t(1) by (simp add: btree_add_def Let_def)
    moreover have "tree_at ?h1 ?t" using t(2) Tip by (auto simp: tree_at_def less_Suc_eq)
    ultimately show ?thesis by blast
  next
    case (Br a y k l r)
    have "rep (b_cells ?h1) t" using t(2) p by (simp add: tree_at_def)
    then obtain c where c: "btree_insert cmp a ?p ?h1 = Some (?h1\<lparr>b_cells := c\<rparr>)" "rep c ?t" "dom c = dom (b_cells ?h1)"
      using insert_node [of ?h1 t a ?p e cmp] t(2) p Br by (auto simp: tree_at_def)
    have "btree_add cmp T e h = Some (?h1\<lparr>b_cells := c\<rparr>, ptr ?t)" using t(1) Br c(1) insert_root [of t cmp ?p e] by (auto simp: btree_add_def Let_def)
    moreover have "tree_at (?h1\<lparr>b_cells := c\<rparr>) ?t" using c(2,3) insert_distinct [OF _ p] t(2) by (auto simp: tree_at_def less_Suc_eq)
    ultimately show ?thesis by blast
  qed
  then obtain h' where h': "btree_add cmp T e h = Some (h', ptr ?t)" "tree_at h' ?t" by blast
  have b: "bst ?t" using t(3) by (rule insert_bst)
  have "List.find (\<lambda>d. key d = key x) (es @ [e]) = (case tr_find cmp ?t x of Tip \<Rightarrow> None | Br a y k l r \<Rightarrow> Some y)" for x
  proof (cases "tr_find cmp t x")
    case Tip
    then have no: "key x \<notin> key ` set (inorder t)" using find_Tip [OF t(3)] by blast
    have new: "set (inorder ?t) \<subseteq> insert e (set (inorder t))" using insert_inorder [OF t(3)] by auto
    show ?thesis
    proof (cases "key e = key x")
      case True
      then have "e \<in> set (inorder ?t)" using insert_inorder [OF t(3), of ?p e] no by simp
      from find_found [OF b this True] show ?thesis using f [of x] Tip True by (auto simp: find_append)
    next
      case False
      then have "key x \<notin> key ` set (inorder ?t)" using no new by auto
      then have "tr_find cmp ?t x = Tip" using find_Tip [OF b] by blast
      then show ?thesis using f [of x] Tip False by (simp add: find_append)
    qed
  next
    case (Br a y k l r)
    then have "y \<in> set (inorder ?t)" "key y = key x" using find_inorder [OF Br] insert_inorder [OF t(3), of ?p e] by auto
    from find_found [OF b this] show ?thesis using f [of x] Br by (auto simp: find_append)
  qed
  then show ?thesis using h' b unfolding holds_def by blast
qed

lemma hit_holds:
  assumes "holds h T es" and "b_cells h a = Some n"
  shows "holds (h\<lparr>b_cells := (b_cells h)(a \<mapsto> n\<lparr>b_hits := b_hits n + 1\<rparr>)\<rparr>) T es"
proof -
  obtain t where t: "ptr t = T" "tree_at h t" "bst t"
    and f: "\<And>x. List.find (\<lambda>e. key e = key x) es = (case tr_find cmp t x of Tip \<Rightarrow> None | Br a y k l r \<Rightarrow> Some y)"
    using assms unfolding holds_def by blast
  have "tree_at (h\<lparr>b_cells := (b_cells h)(a \<mapsto> n\<lparr>b_hits := b_hits n + 1\<rparr>)\<rparr>) (tr_hit a t)"
    using t(2) assms(2) hit_rep [of "b_cells h" t a] by (auto simp: tree_at_def)
  moreover have "bst (tr_hit a t)" using t(3) by (simp add: bst_def)
  moreover have "(case tr_find cmp (tr_hit a t) x of Tip \<Rightarrow> None | Br a y k l r \<Rightarrow> Some y) = (case tr_find cmp t x of Tip \<Rightarrow> None | Br a y k l r \<Rightarrow> Some y)" for x
    by (cases "tr_find cmp t x") (simp_all add: hit_find)
  ultimately show ?thesis using t(1) f unfolding holds_def by (intro exI [of _ "tr_hit a t"]) simp
qed

lemma get_holds:
  assumes "holds h T es"
  shows "\<exists>h'. btree_get cmp T x h = Some (h', List.find (\<lambda>e. key e = key x) es) \<and> holds h' T es"
proof -
  obtain t where t: "ptr t = T" "tree_at h t" "bst t"
    and f: "\<And>x. List.find (\<lambda>e. key e = key x) es = (case tr_find cmp t x of Tip \<Rightarrow> None | Br a y k l r \<Rightarrow> Some y)"
    using assms unfolding holds_def by blast
  have s: "btree_search cmp h T x False = Some (ptr (tr_find cmp t x))" using search_node t by (auto simp: tree_at_def)
  show ?thesis
  proof (cases "tr_find cmp t x")
    case Tip
    then show ?thesis using s f [of x] assms by (simp add: btree_get_def)
  next
    case (Br a y k l r)
    have n: "b_cells h a = Some \<lparr>b_data = y, b_hits = k, b_left = ptr l, b_right = ptr r\<rparr>" using find_rep [OF _ Br] t(2) by (simp add: tree_at_def)
    let ?h = "h\<lparr>b_cells := (b_cells h)(a \<mapsto> \<lparr>b_data = y, b_hits = k + 1, b_left = ptr l, b_right = ptr r\<rparr>)\<rparr>"
    have "btree_get cmp T x h = Some (?h, Some y)" using s Br n by (simp add: btree_get_def b_set_def)
    moreover have "holds ?h T es" using hit_holds [OF assms n] by simp
    ultimately show ?thesis using f [of x] Br by simp
  qed
qed

end

section \<open>Removal\<close>

text \<open>A tree without its leftmost node.\<close>

fun del_min :: "'a tr \<Rightarrow> 'a tr" where
  "del_min Tip = Tip"
| "del_min (Br a x k Tip r) = r"
| "del_min (Br a x k (Br b y j l' r') r) = Br a x k (del_min (Br b y j l' r')) r"

fun min_node :: "'a tr \<Rightarrow> (nat \<times> 'a \<times> int \<times> 'a tr) option" where
  "min_node Tip = None"
| "min_node (Br a x k Tip r) = Some (a, x, k, r)"
| "min_node (Br a x k (Br b y j l' r') r) = min_node (Br b y j l' r')"

lemma leftmost_node:
  assumes "rep (b_cells h) t" and "ptr t = Some a" and "min_node t = Some (m, x, k, r)" and "distinct (addrs_of t)"
  shows "\<exists>f'. btree_leftmost h f a = Some (f', m, \<lparr>b_data = x, b_hits = k, b_left = None, b_right = ptr r\<rparr>) \<and>
    inorder t = x # inorder (del_min t) \<and> set (addrs_of t) = insert m (set (addrs_of (del_min t))) \<and> m \<notin> set (addrs_of (del_min t)) \<and>
    distinct (addrs_of (del_min t)) \<and>
    (if m = a then f' = f \<and> r = del_min t
     else f' \<in> set (addrs_of (del_min t)) \<and> ptr (del_min t) = Some a \<and>
       (\<exists>n. b_cells h f' = Some n \<and> rep ((b_cells h)(f' \<mapsto> n\<lparr>b_left := ptr r\<rparr>)) (del_min t)))"
  using assms
proof (induction t arbitrary: a f rule: del_min.induct)
  case (2 a' x' k' r')
  then show ?case by (subst btree_leftmost.simps) auto
next
  case (3 a' x' k' b y j l' r' r1)
  let ?l = "Br b y j l' r'"
  obtain f' where f': "btree_leftmost h a' b = Some (f', m, \<lparr>b_data = x, b_hits = k, b_left = None, b_right = ptr r\<rparr>)"
    and i: "inorder ?l = x # inorder (del_min ?l)" and s: "set (addrs_of ?l) = insert m (set (addrs_of (del_min ?l)))" "m \<notin> set (addrs_of (del_min ?l))"
    and d: "distinct (addrs_of (del_min ?l))"
    and c: "if m = b then f' = a' \<and> r = del_min ?l else f' \<in> set (addrs_of (del_min ?l)) \<and> ptr (del_min ?l) = Some b \<and>
       (\<exists>n. b_cells h f' = Some n \<and> rep ((b_cells h)(f' \<mapsto> n\<lparr>b_left := ptr r\<rparr>)) (del_min ?l))"
    using "3.IH" [of b a'] "3.prems" by auto
  have a: "a = a'" "b_cells h a' = Some \<lparr>b_data = x', b_hits = k', b_left = Some b, b_right = ptr r1\<rparr>" and r1: "rep (b_cells h) r1"
    using "3.prems" by auto
  have m: "m \<noteq> a'" "m \<notin> set (addrs_of r1)" "a' \<notin> set (addrs_of (del_min ?l))" "a' \<notin> set (addrs_of r1)"
    "set (addrs_of (del_min ?l)) \<inter> set (addrs_of r1) = {}" "distinct (addrs_of r1)" using "3.prems"(4) s(1) by auto
  have "btree_leftmost h f a = Some (f', m, \<lparr>b_data = x, b_hits = k, b_left = None, b_right = ptr r\<rparr>)"
    using a f' by (subst btree_leftmost.simps) simp
  moreover have "\<exists>n. b_cells h f' = Some n \<and> rep ((b_cells h)(f' \<mapsto> n\<lparr>b_left := ptr r\<rparr>)) (Br a' x' k' (del_min ?l) r1)"
  proof (cases "m = b")
    case True
    then have "f' = a'" "r = del_min ?l" using c by simp_all
    moreover have "rep (b_cells h) (del_min ?l)"
    proof -
      have "rep (b_cells h) ?l" using "3.prems"(1) by simp
      then have "rep (b_cells h) (del_min ?l)" if "m = b"
        using that s by (cases l') auto
      then show ?thesis using True by blast
    qed
    ultimately show ?thesis using a(2) r1 m by simp
  next
    case False
    then obtain n where n: "b_cells h f' = Some n" "rep ((b_cells h)(f' \<mapsto> n\<lparr>b_left := ptr r\<rparr>)) (del_min ?l)" "f' \<in> set (addrs_of (del_min ?l))" "ptr (del_min ?l) = Some b"
      using c by auto
    then have "f' \<noteq> a'" "f' \<notin> set (addrs_of r1)" using m by auto
    then show ?thesis using n a(2) r1 by auto
  qed
  moreover have "f' \<in> set (addrs_of (Br a' x' k' (del_min ?l) r1))" using c by (auto split: if_splits)
  ultimately show ?case using a(1) i s d m by auto
qed simp

text \<open>The tree that replaces the removed node.\<close>

fun tr_remove :: "'a tr \<Rightarrow> 'a tr" where
  "tr_remove Tip = Tip"
| "tr_remove (Br a x k l r) = (if r = Tip then l else if l = Tip then r else
     (case min_node r of None \<Rightarrow> r | Some (m, y, j, _) \<Rightarrow> Br m y j l (del_min r)))"

lemma min_node_Some: "t \<noteq> Tip \<Longrightarrow> \<exists>m y j r. min_node t = Some (m, y, j, r)"
  by (induction t rule: min_node.induct) auto

lemma remove_node:
  assumes "tree_at h (Br a x k l r)"
  shows "\<exists>h'. btree_remove del h (Some a) = Some (h', ptr (tr_remove (Br a x k l r))) \<and> tree_at h' (tr_remove (Br a x k l r)) \<and>
    inorder (tr_remove (Br a x k l r)) = inorder l @ inorder r \<and> set (addrs_of (tr_remove (Br a x k l r))) = set (addrs_of l) \<union> set (addrs_of r) \<and>
    b_cells h' a = None \<and> (\<forall>b. b \<notin> set (addrs_of (Br a x k l r)) \<longrightarrow> b_cells h' b = b_cells h b) \<and>
    b_deleted h' = b_deleted h @ (if del then [x] else []) \<and> b_next h' = b_next h"
proof -
  let ?t = "Br a x k l r" let ?n = "\<lparr>b_data = x, b_hits = k, b_left = ptr l, b_right = ptr r\<rparr>"
  have n: "b_cells h a = Some ?n" and l: "rep (b_cells h) l" and r: "rep (b_cells h) r" and d: "distinct (addrs_of ?t)" and nx: "\<forall>a \<in> dom (b_cells h). a < b_next h"
    using assms by (auto simp: tree_at_def)
  have "\<exists>c. btree_unlink a ?n h = Some (h\<lparr>b_cells := c\<rparr>, ptr (tr_remove ?t)) \<and> rep c (tr_remove ?t) \<and> distinct (addrs_of (tr_remove ?t)) \<and>
      inorder (tr_remove ?t) = inorder l @ inorder r \<and> set (addrs_of (tr_remove ?t)) = set (addrs_of l) \<union> set (addrs_of r) \<and>
      dom c = dom (b_cells h) \<and> (\<forall>b. b \<notin> set (addrs_of ?t) \<longrightarrow> c b = b_cells h b)"
  proof (cases "l = Tip \<or> r = Tip")
    case True
    then show ?thesis using l r d by (intro exI [of _ "b_cells h"]) (auto simp: btree_unlink_def split: option.split)
  next
    case False
    then obtain b where b: "ptr r = Some b" by (cases r) auto
    obtain lb where lb: "ptr l = Some lb" using False by (cases l) auto
    obtain m y j r' where m: "min_node r = Some (m, y, j, r')" using min_node_Some False by blast
    obtain f where f: "btree_leftmost h a b = Some (f, m, \<lparr>b_data = y, b_hits = j, b_left = None, b_right = ptr r'\<rparr>)"
      and i: "inorder r = y # inorder (del_min r)" and s: "set (addrs_of r) = insert m (set (addrs_of (del_min r)))" "m \<notin> set (addrs_of (del_min r))"
      and dd: "distinct (addrs_of (del_min r))"
      and c: "if m = b then f = a \<and> r' = del_min r else f \<in> set (addrs_of (del_min r)) \<and> ptr (del_min r) = Some b \<and>
       (\<exists>n. b_cells h f = Some n \<and> rep ((b_cells h)(f \<mapsto> n\<lparr>b_left := ptr r'\<rparr>)) (del_min r))"
      using leftmost_node [OF r b m, of a] d by auto
    have t: "tr_remove ?t = Br m y j l (del_min r)" using False m by simp
    have mn: "m \<notin> set (addrs_of l)" "a \<noteq> m" "a \<notin> set (addrs_of (del_min r))" "set (addrs_of l) \<inter> set (addrs_of (del_min r)) = {}" using d s by auto
    have dt: "distinct (addrs_of (tr_remove ?t))" "inorder (tr_remove ?t) = inorder l @ inorder r" "set (addrs_of (tr_remove ?t)) = set (addrs_of l) \<union> set (addrs_of r)"
      unfolding t using d dd s i mn by auto
    have mc: "b_cells h m = Some \<lparr>b_data = y, b_hits = j, b_left = None, b_right = ptr r'\<rparr>"
      using r m by (induction r rule: min_node.induct) auto
    show ?thesis
    proof (cases "m = b")
      case True
      let ?c = "(b_cells h)(m \<mapsto> \<lparr>b_data = y, b_hits = j, b_left = ptr l, b_right = ptr r'\<rparr>)"
      have fa: "f = a" "r' = del_min r" using True c by simp_all
      have "rep (b_cells h) (del_min r)" using r True b fa(2) m mc by (cases r rule: min_node.cases) auto
      then have "rep ?c (tr_remove ?t)" unfolding t using l s mn fa by simp
      moreover have "btree_unlink a ?n h = Some (h\<lparr>b_cells := ?c\<rparr>, ptr (tr_remove ?t))"
        unfolding t using b lb f fa mc by (simp add: btree_unlink_def b_set_def)
      moreover have "dom ?c = dom (b_cells h)" "\<forall>b. b \<notin> set (addrs_of ?t) \<longrightarrow> ?c b = b_cells h b" using mc s by auto
      ultimately show ?thesis using dt by blast
    next
      case False
      then obtain nf where nf: "b_cells h f = Some nf" "rep ((b_cells h)(f \<mapsto> nf\<lparr>b_left := ptr r'\<rparr>)) (del_min r)" "f \<in> set (addrs_of (del_min r))" using c by auto
      let ?c = "(b_cells h)(f \<mapsto> nf\<lparr>b_left := ptr r'\<rparr>, m \<mapsto> \<lparr>b_data = y, b_hits = j, b_left = ptr l, b_right = ptr r\<rparr>)"
      have fm: "f \<noteq> m" "f \<noteq> a" "f \<notin> set (addrs_of l)" using nf(3) s(2) mn by auto
      have "rep ?c (del_min r)" using nf(2) s(2) by simp
      moreover have "rep ?c l" using l fm mn by simp
      moreover have "ptr (del_min r) = ptr r" using False c b by simp
      ultimately have "rep ?c (tr_remove ?t)" unfolding t by simp
      moreover have "btree_unlink a ?n h = Some (h\<lparr>b_cells := ?c\<rparr>, ptr (tr_remove ?t))"
        unfolding t using b lb f fm mc nf(1) by (simp add: btree_unlink_def b_set_def)
      moreover have "dom ?c = dom (b_cells h)" "\<forall>b. b \<notin> set (addrs_of ?t) \<longrightarrow> ?c b = b_cells h b" using mc nf(1,3) s by auto
      ultimately show ?thesis using dt by blast
    qed
  qed
  then obtain c where c: "btree_unlink a ?n h = Some (h\<lparr>b_cells := c\<rparr>, ptr (tr_remove ?t))" "rep c (tr_remove ?t)" "distinct (addrs_of (tr_remove ?t))"
      "inorder (tr_remove ?t) = inorder l @ inorder r" "set (addrs_of (tr_remove ?t)) = set (addrs_of l) \<union> set (addrs_of r)"
      "dom c = dom (b_cells h)" "\<forall>b. b \<notin> set (addrs_of ?t) \<longrightarrow> c b = b_cells h b" by blast
  let ?h = "b_free a (b_del del x (h\<lparr>b_cells := c\<rparr>))"
  have "btree_remove del h (Some a) = Some (?h, ptr (tr_remove ?t))" using n c(1) by (simp add: btree_remove_def)
  moreover have h: "b_cells ?h = c(a := None)" "b_next ?h = b_next h" "b_deleted ?h = b_deleted h @ (if del then [x] else [])"
    by (simp_all add: b_free_def b_del_def)
  moreover have "a \<notin> set (addrs_of (tr_remove ?t))" using d c(5) by auto
  then have "tree_at ?h (tr_remove ?t)" unfolding tree_at_def h using c(2,3,6) nx by auto
  ultimately show ?thesis using c(4,5,7) by auto
qed

fun postorder :: "'a tr \<Rightarrow> 'a list" where
  "postorder Tip = []"
| "postorder (Br a x k l r) = postorder l @ postorder r @ [x]"

lemma cleartree_node:
  "rep (b_cells h) t \<Longrightarrow> distinct (addrs_of t) \<Longrightarrow>
    btree_cleartree del (ptr t) h = Some (h\<lparr>b_cells := b_cells h |` (- set (addrs_of t)), b_deleted := b_deleted h @ (if del then postorder t else [])\<rparr>)"
proof (induction t arbitrary: h)
  case (Br a x k l r)
  let ?h1 = "h\<lparr>b_cells := b_cells h |` (- set (addrs_of l)), b_deleted := b_deleted h @ (if del then postorder l else [])\<rparr>"
  have "rep (b_cells ?h1) r = rep (b_cells h) r" using Br.prems(2) by (intro rep_cong) (auto simp: restrict_map_def)
  moreover have "btree_cleartree del (ptr l) h = Some ?h1" using Br.IH(1) Br.prems by simp
  ultimately have "btree_cleartree del (ptr (Br a x k l r)) h = Some (b_free a (b_del del x
      (?h1\<lparr>b_cells := b_cells ?h1 |` (- set (addrs_of r)), b_deleted := b_deleted ?h1 @ (if del then postorder r else [])\<rparr>)))"
    using Br.IH(2) [of ?h1] Br.prems by (subst btree_cleartree.simps) simp
  moreover have "(m |` (- A) |` (- B))(a := None) = m |` (- insert a (A \<union> B))" for m :: "nat \<rightharpoonup> 'a btree_node" and A B
    by (rule ext) (auto simp: restrict_map_def)
  ultimately show ?case by (simp add: b_free_def b_del_def)
qed (subst btree_cleartree.simps, simp add: restrict_map_def)

text \<open>
  \<^verbatim>\<open>btree_del\<close> asks the search for the parent of the node and always gets the root of the tree: it removes the root of the left branch and
  makes the rest the right branch. With no left branch the whole right one is lost, and the data asked for is still there.
\<close>

lemma del_loses_right:
  assumes "tree_at h (Br a y k Tip r)" and "tr_find cmp (Br a y k Tip r) x \<noteq> Tip"
  shows "\<exists>h'. btree_del cmp del (Some a) x h = Some (h', 1) \<and> tree_at h' (Br a y k Tip Tip) \<and> b_deleted h' = b_deleted h"
proof -
  have c: "b_cells h a = Some \<lparr>b_data = y, b_hits = k, b_left = None, b_right = ptr r\<rparr>" using assms(1) by (simp add: tree_at_def)
  have "btree_search cmp h (Some a) x True = Some (Some a)" using search_parent [of h "Br a y k Tip r" cmp x] assms by (simp add: tree_at_def)
  then have "btree_del cmp del (Some a) x h = Some (h\<lparr>b_cells := (b_cells h)(a \<mapsto> \<lparr>b_data = y, b_hits = k, b_left = None, b_right = None\<rparr>)\<rparr>, 1)"
    using c by (simp add: btree_del_def btree_remove_def b_set_def)
  then show ?thesis using assms(1) by (auto simp: tree_at_def)
qed

text \<open>With a left branch the root keeps a pointer to the node that was freed.\<close>

lemma del_dangling:
  assumes "tree_at h (Br a y k (Br b z j l r) q)" and "tr_find cmp (Br a y k (Br b z j l r) q) x \<noteq> Tip"
  shows "\<exists>h' n. btree_del cmp del (Some a) x h = Some (h', 1) \<and> b_cells h' a = Some n \<and> b_left n = Some b \<and> b_cells h' b = None"
proof -
  let ?t = "Br a y k (Br b z j l r) q"
  have c: "b_cells h a = Some \<lparr>b_data = y, b_hits = k, b_left = Some b, b_right = ptr q\<rparr>" using assms(1) by (simp add: tree_at_def)
  have "tree_at h (Br b z j l r)" using assms(1) by (auto simp: tree_at_def)
  then obtain h1 where h1: "btree_remove del h (Some b) = Some (h1, ptr (tr_remove (Br b z j l r)))" "b_cells h1 b = None"
      "\<forall>e. e \<notin> set (addrs_of (Br b z j l r)) \<longrightarrow> b_cells h1 e = b_cells h e"
    using remove_node [of h b z j l r del] by auto
  have "a \<notin> set (addrs_of (Br b z j l r))" using assms(1) by (auto simp: tree_at_def)
  then have "b_cells h1 a = b_cells h a" "a \<noteq> b" using h1(3) by auto
  moreover have "btree_search cmp h (Some a) x True = Some (Some a)" using search_parent [of h ?t cmp x] assms by (simp add: tree_at_def)
  ultimately show ?thesis using c h1 by (simp add: btree_del_def b_set_def)
qed

section \<open>The node with the most hits\<close>

lemma hittest_max:
  assumes "rep (b_cells h) t" and "t \<noteq> Tip"
  shows "\<exists>a n. btree_hittest h (ptr t) = Some (Some a) \<and> a \<in> set (addrs_of t) \<and> b_cells h a = Some n \<and>
    (\<forall>b \<in> set (addrs_of t). \<forall>m. b_cells h b = Some m \<longrightarrow> b_hits m \<le> b_hits n)"
  using assms
proof (induction t)
  case (Br a x k l r)
  let ?c = "b_cells h" let ?best = "\<lambda>A p n. p \<in> A \<and> ?c p = Some n \<and> (\<forall>b \<in> A. \<forall>m. ?c b = Some m \<longrightarrow> b_hits m \<le> b_hits n)"
  have c: "?c a = Some \<lparr>b_data = x, b_hits = k, b_left = ptr l, b_right = ptr r\<rparr>" and l: "rep ?c l" and r: "rep ?c r" using Br.prems by auto
  have pick: "\<exists>p' n'. btree_pick h p m = Some p' \<and> ?best (A \<union> set (addrs_of s)) p' n'"
    if best: "?best A p n" and s: "(if s = Tip then m = None else \<exists>q nq. m = Some q \<and> ?best (set (addrs_of s)) q nq)" for A p n m s
  proof (cases "s = Tip")
    case True
    then show ?thesis using best s by (auto simp: btree_pick_def)
  next
    case False
    then obtain q nq where q: "m = Some q" "?best (set (addrs_of s)) q nq" using s by auto
    have p: "btree_pick h p m = Some (if b_hits n < b_hits nq then q else p)" using q best by (simp add: btree_pick_def)
    show ?thesis
    proof (cases "b_hits n < b_hits nq")
      case True
      then show ?thesis using p q best by (intro exI [of _ q] exI [of _ nq]) fastforce
    next
      case False
      then show ?thesis using p q best by (intro exI [of _ p] exI [of _ n]) fastforce
    qed
  qed
  have sub: "\<exists>m. btree_hittest h (ptr s) = Some m \<and> (if s = Tip then m = None else \<exists>q nq. m = Some q \<and> ?best (set (addrs_of s)) q nq)"
    if "s \<noteq> Tip \<Longrightarrow> \<exists>a n. btree_hittest h (ptr s) = Some (Some a) \<and> ?best (set (addrs_of s)) a n" for s
    using that by (cases "s = Tip") (auto simp: btree_hittest.simps [of h None])
  obtain ml where ml: "btree_hittest h (ptr l) = Some ml" "if l = Tip then ml = None else \<exists>q nq. ml = Some q \<and> ?best (set (addrs_of l)) q nq"
    using sub [of l] Br.IH(1) [OF l] by blast
  obtain mr where mr: "btree_hittest h (ptr r) = Some mr" "if r = Tip then mr = None else \<exists>q nq. mr = Some q \<and> ?best (set (addrs_of r)) q nq"
    using sub [of r] Br.IH(2) [OF r] by blast
  have "?best {a} a \<lparr>b_data = x, b_hits = k, b_left = ptr l, b_right = ptr r\<rparr>" using c by simp
  from pick [OF this ml(2)] obtain p n where p: "btree_pick h a ml = Some p" "?best ({a} \<union> set (addrs_of l)) p n" by blast
  from pick [OF p(2) mr(2)] obtain p' n' where p': "btree_pick h p mr = Some p'" "?best ({a} \<union> set (addrs_of l) \<union> set (addrs_of r)) p' n'" by blast
  have "btree_hittest h (ptr (Br a x k l r)) = Some (Some p')" using c ml(1) mr(1) p(1) p'(1) by (subst btree_hittest.simps) simp
  moreover have "set (addrs_of (Br a x k l r)) = {a} \<union> set (addrs_of l) \<union> set (addrs_of r)" by simp
  ultimately show ?case using p'(2) by metis
qed simp

text \<open>\<^verbatim>\<open>btree_optimize\<close> never returns for a tree that is not empty: the root stays, so there is always a node with the most hits.\<close>

lemma hittest_some: "btree_hittest h (Some a) = Some q \<Longrightarrow> q \<noteq> None"
  by (subst (asm) btree_hittest.simps) (auto split: option.splits bind_splits)

lemma optimize_never_returns: "btree_optimize cmp (Some a) NT h = None"
proof -
  have "T \<noteq> Some a" if o: "btree_optimize cmp T NT h = Some y" for T y
  proof (rule btree_optimize.raw_induct [of "\<lambda>cmp T NT h y. T \<noteq> Some a", OF _ o])
    fix f :: "('a \<Rightarrow> 'a \<Rightarrow> int) \<Rightarrow> nat option \<Rightarrow> nat option \<Rightarrow> 'a btree_heap \<Rightarrow> ('a btree_heap \<times> nat option \<times> int) option"
    fix cmp T NT h y
    assume IH: "\<And>cmp T NT h y. f cmp T NT h = Some y \<Longrightarrow> T \<noteq> Some a"
    assume body: "Option.bind (btree_hittest h T) (\<lambda>q. case q of None \<Rightarrow> Some (h, NT, 0) | Some a \<Rightarrow>
        (case b_cells h a of None \<Rightarrow> None | Some n \<Rightarrow>
           Option.bind (btree_add cmp NT (b_data n) h) (\<lambda>(h1, NT'). Option.bind (btree_del cmp False T (b_data n) h1) (\<lambda>(h2, _). f cmp T NT' h2)))) = Some y"
    show "T \<noteq> Some a"
    proof
      assume T: "T = Some a"
      with body hittest_some [of h a] obtain NT' h2 where "f cmp T NT' h2 = Some y" by (fastforce split: option.splits bind_splits prod.splits)
      then show False using IH T by blast
    qed
  qed
  then show ?thesis by (cases "btree_optimize cmp (Some a) NT h") auto
qed

section \<open>The trees of the flags\<close>

interpretation flag_offsets: key_order flag_cmp foffset
  by unfold_locales (auto simp: flag_cmp_def)

interpretation flag_hashes: key_order flag_ncmp namehash
  by unfold_locales (auto simp: flag_ncmp_def)

definition empty_heap :: "'a btree_heap" where
  "empty_heap = \<lparr>b_cells = Map.empty, b_next = 0, b_deleted = []\<rparr>"

text \<open>Additions in the order of a list.\<close>

fun btree_add_all :: "('a \<Rightarrow> 'a \<Rightarrow> int) \<Rightarrow> nat option \<Rightarrow> 'a list \<Rightarrow> 'a btree_heap \<Rightarrow> ('a btree_heap \<times> nat option) option" where
  "btree_add_all cmp T [] h = Some (h, T)"
| "btree_add_all cmp T (e # es) h = Option.bind (btree_add cmp T e h) (\<lambda>(h', T'). btree_add_all cmp T' es h')"

context key_order
begin

lemma holds_empty: "holds empty_heap btree_init []"
  unfolding holds_def by (intro exI [of _ Tip]) (simp add: btree_init_def empty_heap_def tree_at_def bst_def)

lemma add_all_holds: "holds h T ds \<Longrightarrow> \<exists>h' T'. btree_add_all cmp T es h = Some (h', T') \<and> holds h' T' (ds @ es)"
proof (induction es arbitrary: h T ds)
  case (Cons e es)
  then obtain h1 T1 where "btree_add cmp T e h = Some (h1, T1)" "holds h1 T1 (ds @ [e])" using add_holds by blast
  then show ?case using Cons.IH [of h1 T1 "ds @ [e]"] by auto
qed simp

lemma dictionary:
  "\<exists>h T. btree_add_all cmp btree_init es empty_heap = Some (h, T) \<and>
    (\<forall>x. \<exists>h'. btree_get cmp T x h = Some (h', List.find (\<lambda>e. key e = key x) es) \<and> holds h' T es)"
  using add_all_holds [OF holds_empty, of es] get_holds by auto

end

section \<open>Properties\<close>

text \<open>
  C24 Any flags added to an empty tree in any order: a lookup returns, and its answer is the one of a scan of the list of flags for the first
  with the offset, as \<^verbatim>\<open>flag_get_by_addr\<close> does without the tree; the same tree with the order of the name hashes finds the first flag of a hash.
\<close>

theorem btree_flags_dictionary:
  "(\<exists>h T. btree_add_all flag_cmp btree_init fs empty_heap = Some (h, T) \<and>
      (\<forall>x. \<exists>h'. btree_get flag_cmp T x h = Some (h', flag_get_by_addr config_zero (st\<lparr>flags := fs\<rparr>) (foffset x)))) \<and>
   (\<exists>h T. btree_add_all flag_ncmp btree_init fs empty_heap = Some (h, T) \<and>
      (\<forall>x. \<exists>h'. btree_get flag_ncmp T x h = Some (h', List.find (\<lambda>f. namehash f = namehash x) fs)))"
proof
  have "flag_get_by_addr config_zero (st\<lparr>flags := fs\<rparr>) a = List.find (\<lambda>f. foffset f = a) fs" for a by (simp add: flag_get_by_addr_def)
  then show "\<exists>h T. btree_add_all flag_cmp btree_init fs empty_heap = Some (h, T) \<and>
      (\<forall>x. \<exists>h'. btree_get flag_cmp T x h = Some (h', flag_get_by_addr config_zero (st\<lparr>flags := fs\<rparr>) (foffset x)))"
    using flag_offsets.dictionary [of fs] by metis
  show "\<exists>h T. btree_add_all flag_ncmp btree_init fs empty_heap = Some (h, T) \<and>
      (\<forall>x. \<exists>h'. btree_get flag_ncmp T x h = Some (h', List.find (\<lambda>f. namehash f = namehash x) fs))"
    using flag_hashes.dictionary [of fs] by blast
qed

text \<open>
  C25 Removing the root of a tree in the heap: the call returns the root of a tree with the other elements in their order, on exactly the other
  nodes; the node is freed, its element is given to the callback, no other cell of the heap has changed. Clearing what is left frees exactly its nodes.
\<close>

theorem btree_remove_tree:
  assumes "tree_at h (Br a x k l r)"
  shows "\<exists>h' t. btree_remove del h (Some a) = Some (h', ptr t) \<and> tree_at h' t \<and> inorder t = inorder l @ inorder r \<and>
    set (addrs_of t) = set (addrs_of l) \<union> set (addrs_of r) \<and>
    b_cells h' = (\<lambda>b. if b = a then None else if b \<in> set (addrs_of t) then b_cells h' b else b_cells h b) \<and>
    b_deleted h' = b_deleted h @ (if del then [x] else []) \<and>
    btree_cleartree del (ptr t) h' =
      Some (h'\<lparr>b_cells := b_cells h |` (- set (addrs_of (Br a x k l r))), b_deleted := b_deleted h' @ (if del then postorder t else [])\<rparr>)"
proof -
  let ?t = "tr_remove (Br a x k l r)"
  obtain h' where h': "btree_remove del h (Some a) = Some (h', ptr ?t)" "tree_at h' ?t" "inorder ?t = inorder l @ inorder r"
      "set (addrs_of ?t) = set (addrs_of l) \<union> set (addrs_of r)" "b_cells h' a = None"
      "\<forall>b. b \<notin> set (addrs_of (Br a x k l r)) \<longrightarrow> b_cells h' b = b_cells h b" "b_deleted h' = b_deleted h @ (if del then [x] else [])"
    using remove_node [OF assms, of del] by blast
  have cells: "b_cells h' = (\<lambda>b. if b = a then None else if b \<in> set (addrs_of ?t) then b_cells h' b else b_cells h b)"
    using h'(4-6) by auto
  have "b_cells h' |` (- set (addrs_of ?t)) = b_cells h |` (- set (addrs_of (Br a x k l r)))"
    using h'(4-6) by (auto simp: restrict_map_def)
  then have "btree_cleartree del (ptr ?t) h' =
      Some (h'\<lparr>b_cells := b_cells h |` (- set (addrs_of (Br a x k l r))), b_deleted := b_deleted h' @ (if del then postorder ?t else [])\<rparr>)"
    using cleartree_node [of h' ?t del] h'(2) by (simp add: tree_at_def)
  then show ?thesis using h' cells by blast
qed

definition demo_heap :: "int btree_heap" where
  "demo_heap = \<lparr>b_cells = [0 \<mapsto> \<lparr>b_data = 20, b_hits = 0, b_left = Some 1, b_right = Some 2\<rparr>, 1 \<mapsto> \<lparr>b_data = 10, b_hits = 0, b_left = None, b_right = None\<rparr>,
     2 \<mapsto> \<lparr>b_data = 40, b_hits = 0, b_left = Some 3, b_right = None\<rparr>, 3 \<mapsto> \<lparr>b_data = 30, b_hits = 0, b_left = None, b_right = None\<rparr>], b_next = 4, b_deleted = []\<rparr>"

definition demo_left :: "int tr" where
  "demo_left = Br 1 10 0 Tip Tip"

definition demo_right :: "int tr" where
  "demo_right = Br 2 40 0 (Br 3 30 0 Tip Tip) Tip"

theorem btree_remove_tree_witness:
  "\<exists>h' t. btree_remove True demo_heap (Some 0) = Some (h', ptr t) \<and> tree_at h' t \<and> inorder t = [10, 30, 40] \<and> b_cells h' 0 = None \<and> b_deleted h' = [20]"
proof -
  have "tree_at demo_heap (Br 0 20 0 demo_left demo_right)"
    by (auto simp: tree_at_def demo_heap_def demo_left_def demo_right_def)
  from btree_remove_tree [OF this, of True] obtain h' t where h: "btree_remove True demo_heap (Some 0) = Some (h', ptr t)" "tree_at h' t"
      "inorder t = inorder demo_left @ inorder demo_right" "b_deleted h' = b_deleted demo_heap @ [20]"
      "b_cells h' = (\<lambda>b. if b = 0 then None else if b \<in> set (addrs_of t) then b_cells h' b else b_cells demo_heap b)"
    by auto
  have "b_cells h' 0 = None" by (subst h(5)) simp
  then show ?thesis using h(1-4) by (intro exI [of _ h'] exI [of _ t]) (simp add: demo_left_def demo_right_def demo_heap_def)
qed

end
