(* ===== verification/Seek.thy ===== *)
theory Seek
  imports Analyze Undo
begin

text \<open>
  Commands of \<^verbatim>\<open>src/src/radare.c\<close> that move over the device: the search for the next and the previous occurrence of a keyword from the
  seek, the copy of bytes to another address and the comparison of bytes. They work on the core of \<open>Rio\<close>;
  \<open>None\<close> is an access out of bounds or a call that does not return. Interrupts do not arrive during a command.
\<close>

section \<open>Model\<close>

definition radare_controlc :: "'w core \<Rightarrow> 'w core" where
  "radare_controlc st = st\<lparr>r_cfg := (r_cfg st)\<lparr>c_interrupted := False\<rparr>\<rparr>"

definition add_seek :: "ut64 \<Rightarrow> 'w core \<Rightarrow> 'w core" where
  "add_seek d st = st\<lparr>r_cfg := (r_cfg st)\<lparr>c_seek := c_seek (r_cfg st) + d\<rparr>\<rparr>"

text \<open>The keyword of the argument, in a buffer of 1024 bytes: \<open>Some None\<close> is the message about the usage.\<close>

definition seek_keyword :: "'w io_env \<Rightarrow> string \<Rightarrow> u8 list option option" where
  "seek_keyword env str =
     (case str of
        [] \<Rightarrow> Some None
      | c # rest \<Rightarrow>
          if c = CHR '' '' then (if 1023 \<le> length rest then None else Some (Some (map of_char rest)))
          else if c = CHR ''x'' then
            (case hexstr2binstr (env_math env) rest of
               None \<Rightarrow> None
             | Some (bytes, len) \<Rightarrow> if 1024 < length bytes then None else Some (Some (take len bytes)))
          else Some None)"

text \<open>The loop over a block from the index \<open>i\<close>, with \<open>q\<close> bytes matched: the index where the keyword is complete, or the bytes matched at the end.\<close>

fun scan_block :: "u8 list \<Rightarrow> nat \<Rightarrow> nat \<Rightarrow> u8 list \<Rightarrow> nat + nat" where
  "scan_block kw q i [] = Inr q"
| "scan_block kw q i (b # bs) =
     (if b = kw ! q then (if Suc q = length kw then Inl i else scan_block kw (Suc q) (Suc i) bs) else scan_block kw 0 (Suc i) bs)"

definition seek_limit :: "ut64 \<Rightarrow> ut64 \<Rightarrow> bool" where
  "seek_limit maxbytes bytes \<longleftrightarrow> maxbytes \<noteq> 0 \<and> maxbytes < bytes"

definition limit_text :: "out_event list" where
  "limit_text = [ErrOut (''search.limit has been reached without results'' @ nl)]"

partial_function (option) seek_loop ::
  "'w io_env \<Rightarrow> u8 list \<Rightarrow> ut64 \<Rightarrow> ut64 \<Rightarrow> nat \<Rightarrow> ut64 \<Rightarrow> 'w core \<Rightarrow> (bool \<times> 'w core) option" where
  "seek_loop env kw eseek maxbytes q bytes st =
     (if \<not> c_seek (r_cfg st) < eseek \<or> c_interrupted (r_cfg st) then Some (False, st)
      else if length (c_block (r_cfg st)) < nat (c_block_size (r_cfg st)) then None
      else
        (case scan_block kw q 0 (take (nat (c_block_size (r_cfg st))) (c_block (r_cfg st))) of
           Inl i \<Rightarrow> Some (True, fst (radare_seek env (c_seek (r_cfg st) + word_of_nat i - word_of_nat (length kw) + 1) SEEK_SET st))
         | Inr q' \<Rightarrow>
             Option.bind (radare_read env True st) (\<lambda>(st', _).
               let bytes' = bytes + word_of_int (c_block_size (r_cfg st'))
               in if seek_limit maxbytes bytes' then Some (False, emit limit_text st')
                  else seek_loop env kw eseek maxbytes q' bytes' st')))"

declare seek_loop.simps [code]

definition search_usage :: out_event where
  "search_usage = ErrOut (''Usage: s/[x ] [str]'' @ nl @
     '' s/ lib   ; seek to next occurrence of '' @ [CHR 0x27] @ ''lib'' @ [CHR 0x27] @ '' string'' @ nl @
     '' s/x 00   ; seek to next occurrence of a 0x00 byte'' @ nl @
     ''NOTE: This command searches from current seek + 1'' @ nl)"

definition radare_seek_search :: "'w io_env \<Rightarrow> string \<Rightarrow> 'w core \<Rightarrow> ('w core \<times> int) option" where
  "radare_seek_search env str st =
     (let oseek = c_seek (r_cfg st);
          eseek = (if cfg_get_i env ''search.to'' \<noteq> 0 then cfg_get_i env ''search.to'' else c_size (r_cfg st))
      in case seek_keyword env str of
           None \<Rightarrow> None
         | Some None \<Rightarrow> Some (emit [search_usage] st, 1)
         | Some (Some kw) \<Rightarrow>
             if kw = [] then Some (emit [ErrOut (''Invalid keyword'' @ nl)] st, 1)
             else
               Option.bind (radare_read env False (add_seek 1 st)) (\<lambda>(st1, _).
               Option.bind (seek_loop env kw eseek (cfg_get_i env ''search.limit'') 0 0 (radare_controlc st1)) (\<lambda>(hit, st2).
                 Some (if hit then st2 else fst (radare_seek env oseek SEEK_SET st2), 0))))"

text \<open>The loop over a block from its end, with the keyword in reverse.\<close>

partial_function (option) seek_back_loop ::
  "'w io_env \<Rightarrow> u8 list \<Rightarrow> ut64 \<Rightarrow> ut64 \<Rightarrow> nat \<Rightarrow> ut64 \<Rightarrow> 'w core \<Rightarrow> (bool \<times> 'w core) option" where
  "seek_back_loop env kw eseek maxbytes q bytes st =
     (if \<not> eseek < c_seek (r_cfg st) \<or> c_interrupted (r_cfg st) then Some (False, st)
      else if length (c_block (r_cfg st)) < nat (c_block_size (r_cfg st)) then None
      else
        (let bs = nat (c_block_size (r_cfg st)) in
         case scan_block kw q 0 (rev (take bs (c_block (r_cfg st)))) of
           Inl i \<Rightarrow>
             (let st' = fst (radare_seek env (c_seek (r_cfg st) + word_of_nat (bs - 1 - i)) SEEK_SET st)
              in Some (True, emit [ConsOut (''HIT FOUND HERE('' @ hex_0x (c_seek (r_cfg st')) @ '')'' @ nl)] st'))
         | Inr q' \<Rightarrow>
             Option.bind (radare_read env False (add_seek (1 - word_of_int (c_block_size (r_cfg st))) st)) (\<lambda>(st', _).
               let bytes' = bytes + word_of_int (c_block_size (r_cfg st'))
               in if seek_limit maxbytes bytes' then Some (False, emit limit_text st')
                  else seek_back_loop env kw eseek maxbytes q' bytes' st')))"

declare seek_back_loop.simps [code]

definition search_back_usage :: out_event where
  "search_back_usage = ErrOut (''Usage: s/[x ] [str]'' @ nl @
     '' s'' @ [CHR 0x5C] @ '' lib   ; seek to previous occurrence of '' @ [CHR 0x27] @ ''lib'' @ [CHR 0x27] @ '' string'' @ nl @
     '' s'' @ [CHR 0x5C] @ ''x 00   ; seek to previous occurrence of a 0x00 byte'' @ nl @
     ''NOTE: This command searches from current seek - 1'' @ nl @
     ''NOTE: Last address to be analyzed is search.from.'' @ nl)"

definition radare_seek_search_backward :: "'w io_env \<Rightarrow> string \<Rightarrow> 'w core \<Rightarrow> ('w core \<times> int) option" where
  "radare_seek_search_backward env str st =
     (let oseek = c_seek (r_cfg st)
      in case seek_keyword env str of
           None \<Rightarrow> None
         | Some None \<Rightarrow> Some (emit [search_back_usage] st, 1)
         | Some (Some kw) \<Rightarrow>
             if kw = [] then Some (emit [ErrOut (''Invalid keyword'' @ nl)] st, 1)
             else
               Option.bind (radare_read env False (add_seek (1 - word_of_int (c_block_size (r_cfg st))) st)) (\<lambda>(st1, _).
               Option.bind (seek_back_loop env (rev kw) (cfg_get_i env ''search.from'') (cfg_get_i env ''search.limit'') 0 0 (radare_controlc st1))
                 (\<lambda>(hit, st2). Some (if hit then st2 else fst (radare_seek env oseek SEEK_SET st2), 0))))"

text \<open>\<^verbatim>\<open>radare_move\<close> copies \<open>len\<close> bytes from the seek; the buffer is not initialised where the read gives less.\<close>

definition radare_move :: "'w io_env \<Rightarrow> string \<Rightarrow> 'w core \<Rightarrow> ('w core \<times> int) option" where
  "radare_move env arg st =
     (let src = c_seek (r_cfg st);
          (len, pos) = (case strchr_split (CHR '' '') (dropWhile (\<lambda>c. c = CHR '' '') arg) of
             None \<Rightarrow> (0, - 1) | Some (a, b) \<Rightarrow> (env_math env a, env_math env b))
      in if pos = - 1 \<or> len = 0 then Some (emit [ConsOut (''Usage: yt [len] [dst-addr]'' @ nl)] st, 1)
         else if \<not> cfg_get env ''file.write'' then Some (emit [ErrOut (''You are not in read-write mode.'' @ nl)] st, 1)
         else
           Option.bind (radare_read_at env src (unat len) st) (\<lambda>(st1, bytes, _).
           Option.bind (radare_write_at env pos (take (unat len) (bytes @ replicate (unat len) (junk env))) st1) (\<lambda>(st2, _).
           Option.bind (radare_read env False (st2\<lparr>r_cfg := (r_cfg st2)\<lparr>c_seek := src\<rparr>\<rparr>)) (\<lambda>(st3, _). Some (st3, 0)))))"

text \<open>The number of bytes that differ; \<^verbatim>\<open>radare_compare\<close> prints them, \<^verbatim>\<open>memcmpdiff\<close> of \<^verbatim>\<open>search.c\<close> only counts.\<close>

definition printable_or_blank :: "u8 \<Rightarrow> char" where
  "printable_or_blank b = (if is_printable (char_of (unat b)) then char_of (unat b) else CHR '' '')"

definition compare_line :: "ut64 \<Rightarrow> nat \<Rightarrow> u8 \<Rightarrow> u8 \<Rightarrow> string" where
  "compare_line a i x y =
     hex_0x (a + word_of_nat i) @ '' (byte='' @ (if i + 1 < 10 then ''0'' else []) @ fmt_d (int i + 1) @ '')   '' @ fmt_02x x @ '' '' @
       [CHR 0x27, printable_or_blank x, CHR 0x27] @ ''  ->  '' @ fmt_02x y @ '' '' @ [CHR 0x27, printable_or_blank y, CHR 0x27] @ nl"

definition radare_compare :: "u8 list \<Rightarrow> u8 list \<Rightarrow> nat \<Rightarrow> 'w core \<Rightarrow> ('w core \<times> int) option" where
  "radare_compare f d len st =
     (if length f < len \<or> length d < len then None
      else
        (let ds = filter (\<lambda>i. f ! i \<noteq> d ! i) [0..<len];
             lines = (if c_verbose (r_cfg st) then map (\<lambda>i. ConsOut (compare_line (c_seek (r_cfg st)) i (f ! i) (d ! i))) ds else []);
             eq = len - length ds
         in Some (emit (lines @ [ErrOut (''Compare '' @ fmt_d (int eq) @ ''/'' @ fmt_d (int len) @ '' equal bytes'' @ nl)]) st, int (len - eq))))"

fun memcmpdiff :: "u8 list \<Rightarrow> u8 list \<Rightarrow> int" where
  "memcmpdiff (a # as) (b # bs) = (if a = b then 0 else 1) + memcmpdiff as bs"
| "memcmpdiff _ _ = 0"

section \<open>The automaton over a text\<close>

lemma scan_append: "scan_block kw q i (xs @ ys) = (case scan_block kw q i xs of Inl h \<Rightarrow> Inl h | Inr q' \<Rightarrow> scan_block kw q' (i + length xs) ys)"
  by (induction xs arbitrary: q i) (auto split: sum.splits)

lemma scan_shift: "scan_block kw q (i + d) xs = (case scan_block kw q i xs of Inl h \<Rightarrow> Inl (h + d) | Inr q' \<Rightarrow> Inr q')"
proof (induction xs arbitrary: q i)
  case (Cons b xs)
  show ?case using Cons [of _ "Suc i"] by (simp split: sum.splits)
qed simp

lemma scan_less: "q < length kw \<Longrightarrow> scan_block kw q i xs = Inr q' \<Longrightarrow> q' < length kw"
proof (induction xs arbitrary: q i)
  case (Cons b xs)
  have "0 < length kw" using Cons.prems(1) by (cases kw) auto
  then show ?case using Cons.IH [of 0 "Suc i"] Cons.IH [of "Suc q" "Suc i"] Cons.prems by (auto split: if_splits)
qed simp

lemma scan_sound:
  assumes "scan_block kw (length pre) i xs = Inl h" and "pre = take (length pre) kw" and "length pre < length kw"
  shows "\<exists>k. h + 1 + length pre = i + k + length kw \<and> take (length kw) (drop k (pre @ xs)) = kw \<and> k + length kw \<le> length pre + length xs"
  using assms
proof (induction xs arbitrary: pre i)
  case (Cons b xs)
  show ?case
  proof (cases "b = kw ! length pre")
    case True
    have pb: "pre @ [b] = take (length (pre @ [b])) kw" using Cons.prems(2,3) True by (metis length_append_singleton take_Suc_conv_app_nth)
    show ?thesis
    proof (cases "Suc (length pre) = length kw")
      case full: True
      then have "h = i" "pre @ [b] = kw" using Cons.prems(1) True pb by simp_all
      then have "take (length kw) (drop 0 (pre @ b # xs)) = kw" by auto
      then show ?thesis using full \<open>h = i\<close> by (intro exI [of _ 0]) simp
    next
      case False
      then have "scan_block kw (length (pre @ [b])) (Suc i) xs = Inl h" using Cons.prems(1) True by simp
      from Cons.IH [OF this pb] False Cons.prems(3) obtain k
        where "h + 1 + length (pre @ [b]) = Suc i + k + length kw" "take (length kw) (drop k ((pre @ [b]) @ xs)) = kw" "k + length kw \<le> length (pre @ [b]) + length xs" by auto
      then show ?thesis by (intro exI [of _ k]) simp
    qed
  next
    case False
    then have "scan_block kw (length []) (Suc i) xs = Inl h" using Cons.prems(1) by simp
    moreover have "length ([] :: u8 list) < length kw" "[] = take (length ([] :: u8 list)) kw" using Cons.prems(3) by auto
    ultimately obtain k where k: "h + 1 = Suc i + k + length kw" "take (length kw) (drop k xs) = kw" "k + length kw \<le> length xs"
      using Cons.IH [of "[]" "Suc i"] by auto
    then show ?thesis by (intro exI [of _ "k + length pre + 1"]) simp
  qed
qed simp

lemma scan_match:
  "q < length kw \<Longrightarrow> scan_block kw q i (drop q kw @ rest) = Inl (i + (length kw - q) - 1)"
proof (induction "length kw - q" arbitrary: q i)
  case (Suc n)
  have d: "drop q kw = kw ! q # drop (Suc q) kw" using Suc.prems by (simp add: Cons_nth_drop_Suc)
  show ?case
  proof (cases "Suc q = length kw")
    case True
    then show ?thesis using d by simp
  next
    case False
    then have "scan_block kw (Suc q) (Suc i) (drop (Suc q) kw @ rest) = Inl (Suc i + (length kw - Suc q) - 1)"
      using Suc.hyps(1) [of "Suc q" "Suc i"] Suc.hyps(2) Suc.prems by simp
    then show ?thesis using d False Suc.prems by simp
  qed
qed simp

lemma scan_reset: "b \<notin> set kw \<Longrightarrow> q < length kw \<Longrightarrow> scan_block kw q i (xs @ [b]) = (case scan_block kw q i xs of Inl h \<Rightarrow> Inl h | Inr q' \<Rightarrow> Inr 0)"
  using scan_less [of q kw i xs] by (auto simp: scan_append split: sum.splits)

text \<open>Where the automaton starts afresh, it finds.\<close>

definition fresh_at :: "u8 list \<Rightarrow> u8 list \<Rightarrow> nat \<Rightarrow> bool" where
  "fresh_at kw xs p \<longleftrightarrow> take (length kw) (drop p xs) = kw \<and> (p = 0 \<or> xs ! (p - 1) \<notin> set kw)"

lemma scan_complete:
  assumes "kw \<noteq> []" and "fresh_at kw xs p"
  shows "\<exists>h. scan_block kw 0 0 xs = Inl h \<and> h + 1 \<le> p + length kw"
proof -
  have len: "p + length kw \<le> length xs"
  proof -
    have "length (take (length kw) (drop p xs)) = length kw" using assms(2) by (simp add: fresh_at_def)
    then have "length kw \<le> length xs - p" "0 < length kw" using assms(1) by simp_all
    then show ?thesis by linarith
  qed
  have xs: "xs = take p xs @ kw @ drop (p + length kw) xs"
    using assms(2) by (metis append_take_drop_id drop_drop add.commute fresh_at_def)
  consider (hit) h where "scan_block kw 0 0 (take p xs) = Inl h" | (start) "scan_block kw 0 0 (take p xs) = Inr 0"
  proof (cases p)
    case 0
    then show ?thesis using start by simp
  next
    case (Suc r)
    then have t: "take p xs = take r xs @ [xs ! r]" using len assms(1) by (simp add: take_Suc_conv_app_nth Suc_le_eq)
    have "scan_block kw 0 0 (take p xs) = (case scan_block kw 0 0 (take r xs) of Inl h \<Rightarrow> Inl h | Inr q' \<Rightarrow> Inr 0)"
      unfolding t by (rule scan_reset) (use assms Suc in \<open>auto simp: fresh_at_def\<close>)
    then show ?thesis using hit start by (cases "scan_block kw 0 0 (take r xs)") auto
  qed
  then show ?thesis
  proof cases
    case (hit h)
    have "h < length (take p xs)" using scan_sound [of kw "[]" 0 "take p xs" h] hit assms(1) by auto
    then show ?thesis using hit by (subst xs) (simp add: scan_append)
  next
    case start
    have "scan_block kw 0 p (drop 0 kw @ drop (p + length kw) xs) = Inl (p + (length kw - 0) - 1)" by (rule scan_match) (use assms(1) in simp)
    moreover have "length (take p xs) = p" using len by simp
    moreover have "scan_block kw 0 0 xs = scan_block kw 0 p (kw @ drop (p + length kw) xs)"
      using start \<open>length (take p xs) = p\<close> by (subst xs) (simp add: scan_append [of kw 0 0 "take p xs" "kw @ drop (p + length kw) xs"])
    ultimately show ?thesis using assms(1) by (cases kw) auto
  qed
qed

section \<open>The search on a memory buffer\<close>

definition seek_text :: "u8 list \<Rightarrow> ut64 \<Rightarrow> nat \<Rightarrow> nat \<Rightarrow> u8 list" where
  "seek_text m a bs n = concat (map (\<lambda>j. malloc_window m (a + word_of_nat (j * bs)) bs) [0..<n])"

lemma seek_text_Suc: "seek_text m a bs (Suc n) = malloc_window m a bs @ seek_text m (a + word_of_nat bs) bs n"
proof -
  have "[0..<Suc n] = 0 # map Suc [0..<n]" by (simp add: upt_conv_Cons map_Suc_upt del: upt_Suc)
  moreover have "a + word_of_nat (Suc j * bs) = a + word_of_nat bs + word_of_nat (j * bs)" for j by (simp add: algebra_simps)
  ultimately have "map (\<lambda>j. malloc_window m (a + word_of_nat (j * bs)) bs) [0..<Suc n] =
      malloc_window m a bs # map (\<lambda>j. malloc_window m (a + word_of_nat bs + word_of_nat (j * bs)) bs) [0..<n]"
    by (simp del: upt_Suc of_nat_mult add: add.assoc)
  then show ?thesis unfolding seek_text_def by simp
qed

text \<open>When the blocks are inside the buffer, the text is the bytes of the buffer.\<close>

lemma seek_text_inside:
  assumes "unat a + n * bs \<le> length m" and "length m < 2 ^ 64"
  shows "seek_text m a bs n = read_mem m a (n * bs)"
  using assms
proof (induction n arbitrary: a)
  case 0
  then show ?case by (simp add: seek_text_def read_mem_def)
next
  case (Suc n)
  have u: "unat (a + word_of_nat bs) = unat a + bs" using Suc.prems by (simp add: unat_word_ariths unat_of_nat)
  then have "seek_text m (a + word_of_nat bs) bs n = read_mem m (a + word_of_nat bs) (n * bs)" using Suc by (intro Suc.IH) auto
  then show ?case using Suc.prems u by (simp add: seek_text_Suc malloc_window_def read_mem_def add.commute take_add)
qed

lemma core_self: "st\<lparr>r_cfg := (r_cfg st)\<lparr>c_seek := c_seek (r_cfg st), c_block := c_block (r_cfg st)\<rparr>\<rparr> = (st :: 'w core)"
  by (cases st, cases "r_cfg st") simp

lemma malloc_read_next:
  assumes "malloc_session env ba dst alloc fresh m st" and "c_seek (r_cfg st) \<noteq> UT64_MAX" and "c_seek (r_cfg st) + word_of_int (c_block_size (r_cfg st)) \<noteq> UT64_MAX"
  shows "radare_read env True st = radare_read env False (st\<lparr>r_cfg := (r_cfg st)\<lparr>c_seek := c_seek (r_cfg st) + word_of_int (c_block_size (r_cfg st))\<rparr>\<rparr>)"
proof -
  let ?st = "st\<lparr>r_cfg := (r_cfg st)\<lparr>c_seek := c_seek (r_cfg st) + word_of_int (c_block_size (r_cfg st))\<rparr>\<rparr>"
  have "malloc_session env ba dst alloc fresh m ?st" using assms(1) by simp
  moreover have "c_fd (r_cfg st) \<noteq> - 1" using assms(1) by (simp add: malloc_session_def MALLOC_FD_def)
  ultimately show ?thesis using malloc_seek [OF assms(1)] malloc_seek [of env ba dst alloc fresh m ?st] assms(2,3)
    by (simp add: radare_read_def Let_def)
qed

lemma seek_loop_text:
  fixes st :: "malloc_state core"
  assumes "malloc_session env ba dst alloc fresh m st" and "c_block_size (r_cfg st) = int bs" and "0 < bs" and "\<not> c_interrupted (r_cfg st)"
    and "n \<noteq> 0 \<Longrightarrow> c_block (r_cfg st) = malloc_window m (c_seek (r_cfg st)) bs"
    and "unat (c_seek (r_cfg st)) + n * bs + bs < 2 ^ 64"
    and "\<forall>j < n. unat (c_seek (r_cfg st)) + j * bs < unat e" and "unat e \<le> unat (c_seek (r_cfg st)) + n * bs"
  shows "\<exists>hit s b. seek_loop env kw e 0 q bytes st = Some (hit, st\<lparr>r_cfg := (r_cfg st)\<lparr>c_seek := s, c_block := b\<rparr>\<rparr>) \<and>
    (case scan_block kw q 0 (seek_text m (c_seek (r_cfg st)) bs n) of
       Inl h \<Rightarrow> hit \<and> (c_seek (r_cfg st) + word_of_nat h - word_of_nat (length kw) + 1 \<noteq> UT64_MAX \<longrightarrow>
         s = c_seek (r_cfg st) + word_of_nat h - word_of_nat (length kw) + 1)
     | Inr _ \<Rightarrow> \<not> hit)"
  using assms
proof (induction n arbitrary: q bytes st)
  case 0
  then have "\<not> c_seek (r_cfg st) < e" by (simp add: word_less_nat_alt)
  then have "seek_loop env kw e 0 q bytes st = Some (False, st)" by (subst seek_loop.simps) simp
  moreover have "seek_text m (c_seek (r_cfg st)) bs 0 = []" by (simp add: seek_text_def)
  ultimately show ?case
    by (intro exI [of _ False] exI [of _ "c_seek (r_cfg st)"] exI [of _ "c_block (r_cfg st)"]) (simp add: core_self)
next
  case (Suc n)
  let ?a = "c_seek (r_cfg st)" and ?w = "malloc_window m (c_seek (r_cfg st)) bs"
  have blk: "c_block (r_cfg st) = ?w" using Suc.prems(5) by simp
  have less: "?a < e" using Suc.prems(7) by (auto simp: word_less_nat_alt dest: spec [of _ 0])
  have lw: "length ?w = bs" by (simp add: malloc_window_def read_mem_def)
  have loop: "seek_loop env kw e 0 q bytes st = (case scan_block kw q 0 ?w of
      Inl i \<Rightarrow> Some (True, fst (radare_seek env (?a + word_of_nat i - word_of_nat (length kw) + 1) SEEK_SET st))
    | Inr q' \<Rightarrow> Option.bind (radare_read env True st) (\<lambda>(st', _). seek_loop env kw e 0 q' (bytes + word_of_int (c_block_size (r_cfg st'))) st'))"
    using less blk lw Suc.prems(2,4) by (subst seek_loop.simps) (cases "scan_block kw q 0 ?w"; cases "radare_read env True st"; auto simp: seek_limit_def Let_def)
  show ?case
  proof (cases "scan_block kw q 0 ?w")
    case (Inl h)
    let ?x = "?a + word_of_nat h - word_of_nat (length kw) + 1"
    have "fst (radare_seek env ?x SEEK_SET st) = (if ?x = UT64_MAX then st else st\<lparr>r_cfg := (r_cfg st)\<lparr>c_seek := ?x\<rparr>\<rparr>)"
      by (rule malloc_seek [OF Suc.prems(1)])
    then have "fst (radare_seek env ?x SEEK_SET st) = st\<lparr>r_cfg := (r_cfg st)\<lparr>c_seek := if ?x = UT64_MAX then ?a else ?x, c_block := c_block (r_cfg st)\<rparr>\<rparr>"
      using core_self [of st] core_self [of "st\<lparr>r_cfg := (r_cfg st)\<lparr>c_seek := ?x\<rparr>\<rparr>"] by auto
    then show ?thesis using loop Inl
      by (intro exI [of _ True] exI [of _ "if ?x = UT64_MAX then ?a else ?x"] exI [of _ "c_block (r_cfg st)"]) (simp add: seek_text_Suc scan_append)
  next
    case (Inr q')
    have u: "unat (?a + word_of_nat bs) = unat ?a + bs" using Suc.prems(6) by (simp add: unat_word_ariths unat_of_nat)
    have "unat UT64_MAX = 2 ^ 64 - 1" by (simp add: unsigned_minus_1_eq_mask mask_eq_exp_minus_1)
    then have nm: "?a \<noteq> UT64_MAX" "?a + word_of_nat bs \<noteq> UT64_MAX" using u Suc.prems(3,6) by auto
    let ?s1 = "st\<lparr>r_cfg := (r_cfg st)\<lparr>c_seek := ?a + word_of_nat bs\<rparr>\<rparr>"
    have "malloc_session env ba dst alloc fresh m ?s1" using Suc.prems(1) by simp
    from malloc_block_read [OF this] obtain r where "radare_read env False ?s1 =
        Some (?s1\<lparr>r_cfg := (r_cfg ?s1)\<lparr>c_block := malloc_window m (?a + word_of_nat bs) bs\<rparr>\<rparr>, r)"
      using nm u Suc.prems(2,6) by auto
    moreover have "radare_read env True st = radare_read env False ?s1" using malloc_read_next [OF Suc.prems(1) nm(1)] nm(2) Suc.prems(2) by simp
    ultimately have rd: "radare_read env True st = Some (st\<lparr>r_cfg := (r_cfg st)\<lparr>c_seek := ?a + word_of_nat bs, c_block := malloc_window m (?a + word_of_nat bs) bs\<rparr>\<rparr>, r)"
      by simp
    let ?s2 = "st\<lparr>r_cfg := (r_cfg st)\<lparr>c_seek := ?a + word_of_nat bs, c_block := malloc_window m (?a + word_of_nat bs) bs\<rparr>\<rparr>"
    have "\<exists>hit s b. seek_loop env kw e 0 q' (bytes + word_of_nat bs) ?s2 = Some (hit, ?s2\<lparr>r_cfg := (r_cfg ?s2)\<lparr>c_seek := s, c_block := b\<rparr>\<rparr>) \<and>
        (case scan_block kw q' 0 (seek_text m (c_seek (r_cfg ?s2)) bs n) of
           Inl h \<Rightarrow> hit \<and> (c_seek (r_cfg ?s2) + word_of_nat h - word_of_nat (length kw) + 1 \<noteq> UT64_MAX \<longrightarrow>
             s = c_seek (r_cfg ?s2) + word_of_nat h - word_of_nat (length kw) + 1)
         | Inr _ \<Rightarrow> \<not> hit)"
    proof (rule Suc.IH)
      show "\<forall>j < n. unat (c_seek (r_cfg ?s2)) + j * bs < unat e"
      proof (intro allI impI)
        fix j
        assume "j < n"
        then show "unat (c_seek (r_cfg ?s2)) + j * bs < unat e" using Suc.prems(7) [rule_format, of "Suc j"] u by simp
      qed
    qed (use Suc.prems u in simp_all)
    then obtain hit s b where r: "seek_loop env kw e 0 q' (bytes + word_of_nat bs) ?s2 = Some (hit, ?s2\<lparr>r_cfg := (r_cfg ?s2)\<lparr>c_seek := s, c_block := b\<rparr>\<rparr>)"
      and c0: "case scan_block kw q' 0 (seek_text m (c_seek (r_cfg ?s2)) bs n) of
           Inl h \<Rightarrow> hit \<and> (c_seek (r_cfg ?s2) + word_of_nat h - word_of_nat (length kw) + 1 \<noteq> UT64_MAX \<longrightarrow>
             s = c_seek (r_cfg ?s2) + word_of_nat h - word_of_nat (length kw) + 1)
         | Inr _ \<Rightarrow> \<not> hit" by (elim exE conjE) (rule that)
    have s2: "c_seek (r_cfg ?s2) = ?a + word_of_nat bs" by simp
    note c = c0 [unfolded s2]
    have "seek_loop env kw e 0 q bytes st = Some (hit, st\<lparr>r_cfg := (r_cfg st)\<lparr>c_seek := s, c_block := b\<rparr>\<rparr>)"
      using loop Inr rd r Suc.prems(2) by simp
    moreover have "scan_block kw q 0 (seek_text m ?a bs (Suc n)) =
        (case scan_block kw q' 0 (seek_text m (?a + word_of_nat bs) bs n) of Inl h \<Rightarrow> Inl (h + bs) | Inr q'' \<Rightarrow> Inr q'')"
      using scan_shift [of kw q' 0 bs] Inr lw by (simp add: seek_text_Suc scan_append)
    ultimately show ?thesis using c
      by (intro exI [of _ hit] exI [of _ s] exI [of _ b]) (auto split: sum.splits simp: algebra_simps)
  qed
qed

lemma malloc_session_small: "malloc_session env ba dst alloc fresh m st \<Longrightarrow> length m < 2 ^ 32"
proof -
  assume "malloc_session env ba dst alloc fresh m st"
  then have "length m = unat (malloc_bufsz (r_dev st))" by (auto simp: malloc_session_def malloc_valid_def malloc_contents_def)
  then show "length m < 2 ^ 32" using unsigned_less [of "malloc_bufsz (r_dev st)", where ?'a = nat] by simp
qed

text \<open>An occurrence of the keyword in the bytes from \<open>lo\<close> to \<open>hi\<close>, at the start or after a byte that the keyword does not have.\<close>

definition stands_at :: "u8 list \<Rightarrow> u8 list \<Rightarrow> nat \<Rightarrow> nat \<Rightarrow> nat \<Rightarrow> bool" where
  "stands_at m kw lo hi p \<longleftrightarrow> lo \<le> p \<and> p + length kw \<le> hi \<and> take (length kw) (drop p m) = kw \<and> (p = lo \<or> m ! (p - 1) \<notin> set kw)"

lemma stands_fresh:
  assumes "stands_at m kw (unat a) (unat a + n) p" and "unat a + n \<le> length m"
  shows "fresh_at kw (read_mem m a n) (p - unat a)"
proof -
  let ?q = "p - unat a"
  have q: "p = unat a + ?q" "?q + length kw \<le> n" using assms(1) by (auto simp: stands_at_def)
  have "take (length kw) (drop ?q (read_mem m a n)) = take (length kw) (drop p m)"
    using q by (simp add: read_mem_def drop_take min_def add.commute)
  moreover have "read_mem m a n ! (?q - 1) = m ! (p - 1)" if "?q \<noteq> 0"
    using that q assms(2) by (simp add: read_mem_def)
  ultimately show ?thesis using assms(1) q by (auto simp: fresh_at_def stands_at_def)
qed

lemma blocks_to:
  assumes "n = (e - a + bs - 1) div bs" and "0 < bs"
  shows "\<forall>j < n. a + j * bs < e" and "e \<le> a + n * (bs :: nat)"
proof -
  show "\<forall>j < n. a + j * bs < e"
  proof (intro allI impI)
    fix j
    assume "j < n"
    then have "Suc j * bs \<le> e - a + bs - 1" using assms(1) by (metis Suc_leI div_times_less_eq_dividend le_trans mult_le_mono1)
    then show "a + j * bs < e" using assms(2) by simp
  qed
  have "e - a + bs - 1 < (n + 1) * bs" using assms by (metis dividend_less_div_times mult.commute Suc_eq_plus1 mult_Suc add.commute)
  then show "e \<le> a + n * bs" by simp
qed

text \<open>The command as a run of the automaton over the bytes of the blocks.\<close>

lemma seek_search_runs:
  fixes st :: "malloc_state core"
  assumes "a = c_seek (r_cfg st) + 1" and "e = (if cfg_get_i env ''search.to'' \<noteq> 0 then cfg_get_i env ''search.to'' else c_size (r_cfg st))"
    and "malloc_session env ba dst alloc fresh m st" and "c_seek (r_cfg st) < UT64_MAX" and "c_block_size (r_cfg st) = int bs" and "0 < bs" and "bs < 2 ^ 31"
    and "seek_keyword env str = Some (Some kw)" and "kw \<noteq> []" and "cfg_get_i env ''search.limit'' = 0"
    and "n = (unat e - unat a + bs - 1) div bs" and "unat a + n * bs \<le> length m"
  shows "\<exists>hit s b. radare_seek_search env str st = Some (if hit then st\<lparr>r_cfg := (r_cfg st)\<lparr>c_interrupted := False, c_seek := s, c_block := b\<rparr>\<rparr>
      else fst (radare_seek env (c_seek (r_cfg st)) SEEK_SET (st\<lparr>r_cfg := (r_cfg st)\<lparr>c_interrupted := False, c_seek := s, c_block := b\<rparr>\<rparr>)), 0) \<and>
    (case scan_block kw 0 0 (read_mem m a (n * bs)) of
       Inl h \<Rightarrow> hit \<and> (a + word_of_nat h - word_of_nat (length kw) + 1 \<noteq> UT64_MAX \<longrightarrow> s = a + word_of_nat h - word_of_nat (length kw) + 1)
     | Inr _ \<Rightarrow> \<not> hit)"
proof -
  let ?st1 = "st\<lparr>r_cfg := (r_cfg st)\<lparr>c_seek := a, c_block := malloc_window m a bs\<rparr>\<rparr>"
  have lm: "length m < 2 ^ 32" by (rule malloc_session_small [OF assms(3)])
  have ua: "unat a < 2 ^ 32" using assms(12) lm by linarith
  have am: "a \<noteq> UT64_MAX" using ua by (auto simp: unsigned_minus_1_eq_mask mask_eq_exp_minus_1)
  have sum: "unat a + n * bs + bs < 2 ^ 64" using assms(7,12) lm by simp
  have "malloc_session env ba dst alloc fresh m (add_seek 1 st)" using assms(3) by (simp add: add_seek_def)
  from malloc_block_read [OF this] obtain r where "radare_read env False (add_seek 1 st) = Some (?st1, r)"
    using am sum assms(1,5) by (auto simp: add_seek_def)
  then have rd: "radare_read env False (add_seek 1 st) = Some (?st1, r)" .
  have s2: "malloc_session env ba dst alloc fresh m (radare_controlc ?st1)"
    using assms(3) by (simp add: radare_controlc_def malloc_session_def malloc_valid_def)
  have blocks: "\<forall>j < n. unat a + j * bs < unat e" "unat e \<le> unat a + n * bs"
    using blocks_to [OF assms(11,6)] by simp_all
  obtain hit s b where r: "seek_loop env kw e 0 0 0 (radare_controlc ?st1) = Some (hit, (radare_controlc ?st1)\<lparr>r_cfg := (r_cfg (radare_controlc ?st1))\<lparr>c_seek := s, c_block := b\<rparr>\<rparr>)"
    and c0: "case scan_block kw 0 0 (seek_text m (c_seek (r_cfg (radare_controlc ?st1))) bs n) of
       Inl h \<Rightarrow> hit \<and> (c_seek (r_cfg (radare_controlc ?st1)) + word_of_nat h - word_of_nat (length kw) + 1 \<noteq> UT64_MAX \<longrightarrow>
         s = c_seek (r_cfg (radare_controlc ?st1)) + word_of_nat h - word_of_nat (length kw) + 1)
     | Inr _ \<Rightarrow> \<not> hit"
    using seek_loop_text [OF s2, of bs n e kw 0 0] assms(5,6) sum blocks by (auto simp: radare_controlc_def)
  have ca: "c_seek (r_cfg (radare_controlc ?st1)) = a" by (simp add: radare_controlc_def)
  note c = c0 [unfolded ca]
  have searched: "seek_text m a bs n = read_mem m a (n * bs)" using assms(12) lm by (intro seek_text_inside) auto
  let ?fin = "\<lambda>s b. st\<lparr>r_cfg := (r_cfg st)\<lparr>c_interrupted := False, c_seek := s, c_block := b\<rparr>\<rparr>"
  have ri: "(radare_controlc ?st1)\<lparr>r_cfg := (r_cfg (radare_controlc ?st1))\<lparr>c_seek := s, c_block := b\<rparr>\<rparr> = ?fin s b"
    by (cases "r_cfg st") (simp add: radare_controlc_def)
  have body: "radare_seek_search env str st = Some (if hit then ?fin s b else fst (radare_seek env (c_seek (r_cfg st)) SEEK_SET (?fin s b)), 0)"
    using rd r ri assms(8-10) unfolding radare_seek_search_def assms(2) by (simp add: Let_def)
  show ?thesis using body c [unfolded searched] by blast
qed

lemma scan_hit_address:
  assumes "scan_block kw 0 0 (read_mem m a n) = Inl h" and "kw \<noteq> []" and "unat a + n \<le> length m" and "length m < 2 ^ 32"
  defines "s \<equiv> a + word_of_nat h - word_of_nat (length kw) + 1"
  shows "s \<noteq> UT64_MAX \<and> a \<le> s \<and> take (length kw) (drop (unat s) m) = kw \<and> (\<forall>p. stands_at m kw (unat a) (unat a + n) p \<longrightarrow> unat s \<le> p)"
proof -
  let ?tx = "read_mem m a n"
  obtain k where k: "h + 1 = k + length kw" "take (length kw) (drop k ?tx) = kw" "k + length kw \<le> n"
    using scan_sound [of kw "[]" 0 ?tx h] assms(1-3) by (auto simp: read_mem_def)
  have "(word_of_nat h :: ut64) + 1 = word_of_nat k + word_of_nat (length kw)" using arg_cong [OF k(1), of "word_of_nat :: nat \<Rightarrow> ut64"] by (simp add: add.commute)
  then have w: "s = a + word_of_nat k" by (simp add: s_def algebra_simps)
  have uk: "unat s = unat a + k" using k(3) assms(3,4) unfolding w by (simp add: unat_word_ariths unat_of_nat)
  have "s \<noteq> UT64_MAX"
  proof
    assume "s = UT64_MAX"
    then have "unat a + k = 2 ^ 64 - 1" using uk by (simp add: unsigned_minus_1_eq_mask mask_eq_exp_minus_1)
    then show False using k(3) assms(3,4) by simp
  qed
  moreover have "take (length kw) (drop (unat s) m) = kw"
    using k(2,3) uk min_absorb1 [of "length kw" "n - k"] by (simp add: read_mem_def drop_take add.commute)
  moreover have "unat s \<le> p" if "stands_at m kw (unat a) (unat a + n) p" for p
  proof -
    have "h + 1 \<le> p - unat a + length kw" using scan_complete [OF assms(2) stands_fresh [OF that assms(3)]] assms(1) by auto
    moreover have "unat a \<le> p" using that by (simp add: stands_at_def)
    ultimately show ?thesis using k(1) uk by linarith
  qed
  ultimately show ?thesis using uk by (simp add: word_le_nat_alt)
qed

text \<open>
  C39 The search for the next occurrence, on a memory buffer, with whole blocks up to the limit inside the buffer: the command returns, and changes
  only the seek, the block and the flag of interrupts. Either the new seek is an address after the old one where the bytes of the buffer are the keyword, and no
  earlier address has an occurrence at the start or after a byte that is not in the keyword; or the seek is the old one and there is none up to the limit.
\<close>

theorem seek_search_next:
  fixes st :: "malloc_state core"
  assumes "a = c_seek (r_cfg st) + 1" and "e = (if cfg_get_i env ''search.to'' \<noteq> 0 then cfg_get_i env ''search.to'' else c_size (r_cfg st))"
    and "malloc_session env ba dst alloc fresh m st" and "c_seek (r_cfg st) < UT64_MAX" and "c_block_size (r_cfg st) = int bs" and "0 < bs" and "bs < 2 ^ 31"
    and "seek_keyword env str = Some (Some kw)" and "kw \<noteq> []" and "cfg_get_i env ''search.limit'' = 0"
    and "n = (unat e - unat a + bs - 1) div bs" and "unat a + n * bs \<le> length m"
  shows "\<exists>s b. radare_seek_search env str st =
      Some (st\<lparr>r_cfg := (r_cfg st)\<lparr>c_interrupted := False, c_seek := s, c_block := b\<rparr>\<rparr>, 0) \<and>
    (a \<le> s \<and> take (length kw) (drop (unat s) m) = kw \<and> (\<forall>p. stands_at m kw (unat a) (unat a + n * bs) p \<longrightarrow> unat s \<le> p) \<or>
     s = c_seek (r_cfg st) \<and> (\<forall>p. \<not> stands_at m kw (unat a) (unat a + n * bs) p))"
proof -
  let ?tx = "read_mem m a (n * bs)" and ?fin = "\<lambda>s b. st\<lparr>r_cfg := (r_cfg st)\<lparr>c_interrupted := False, c_seek := s, c_block := b\<rparr>\<rparr>"
  have lm: "length m < 2 ^ 32" by (rule malloc_session_small [OF assms(3)])
  obtain hit s b where body: "radare_seek_search env str st = Some (if hit then ?fin s b else fst (radare_seek env (c_seek (r_cfg st)) SEEK_SET (?fin s b)), 0)"
    and c: "case scan_block kw 0 0 ?tx of
       Inl h \<Rightarrow> hit \<and> (a + word_of_nat h - word_of_nat (length kw) + 1 \<noteq> UT64_MAX \<longrightarrow> s = a + word_of_nat h - word_of_nat (length kw) + 1)
     | Inr _ \<Rightarrow> \<not> hit"
    using seek_search_runs [OF assms] by blast
  show ?thesis
  proof (cases "scan_block kw 0 0 ?tx")
    case (Inl h)
    from scan_hit_address [OF Inl assms(9,12) lm] c Inl body show ?thesis by (intro exI [of _ s] exI [of _ b]) simp
  next
    case (Inr q)
    have "\<not> stands_at m kw (unat a) (unat a + n * bs) p" for p
      using stands_fresh [OF _ assms(12), of kw p] scan_complete [OF assms(9), of ?tx "p - unat a"] Inr by auto
    moreover have "malloc_session env ba dst alloc fresh m (?fin s b)" using assms(3) by (simp add: malloc_session_def malloc_valid_def)
    from malloc_seek [OF this, of "c_seek (r_cfg st)"] assms(4)
    have "fst (radare_seek env (c_seek (r_cfg st)) SEEK_SET (?fin s b)) = ?fin (c_seek (r_cfg st)) b" by simp
    then have "radare_seek_search env str st = Some (?fin (c_seek (r_cfg st)) b, 0)" using body c Inr by simp
    ultimately show ?thesis by blast
  qed
qed

text \<open>
  The blocks of the search for the previous occurrence overlap in one byte, which is compared twice: in a buffer with a single byte 7 it finds
  the keyword of two.
\<close>

definition seek_demo :: "u8 list \<Rightarrow> ut64 \<Rightarrow> malloc_state core" where
  "seek_demo m a = (malloc_core m)\<lparr>r_cfg := (r_cfg (malloc_core m))\<lparr>c_block_size := 4, c_seek := a\<rparr>\<rparr>"

lemma seek_back_counts_twice:
  "map_option (\<lambda>(st, r). (c_seek (r_cfg st), r)) (radare_seek_search_backward (malloc_env 0) ''x0707'' (seek_demo [0, 0, 0, 0, 0, 0, 7, 0, 0, 0, 0, 0] 9)) = Some (6, 0)"
  by code_simp

text \<open>A byte that ends a partial match is not tried as the first of the next, so this occurrence is missed; nothing is found and the seek stays.\<close>

lemma seek_search_misses:
  "map_option (\<lambda>(st, r). (c_seek (r_cfg st), r)) (radare_seek_search (malloc_env 0) ''x0102'' (seek_demo [0, 1, 1, 2, 0, 0, 0, 0, 0] 0)) = Some (0, 0)"
  by code_simp

lemma seek_demo_session:
  assumes "length m < 2 ^ 31"
  shows "malloc_session (malloc_env u) 4096 8192 (\<lambda>_. True) (\<lambda>_. None) m (seek_demo m a)"
  using malloc_core_session [OF assms, of u]
  by (simp add: plain_session_def malloc_session_def malloc_valid_def seek_demo_def malloc_core_def malloc_contents_def)

theorem seek_search_next_witness:
  "\<exists>st'. radare_seek_search (malloc_env 0) ''x0102'' (seek_demo [0, 1, 0, 0, 0, 1, 2, 0, 0] 0) = Some (st', 0) \<and>
     take 2 (drop (unat (c_seek (r_cfg st'))) [0, 1, 0, 0, 0, 1, 2, 0, 0]) = [1, 2 :: u8]"
proof -
  let ?m = "[0, 1, 0, 0, 0, 1, 2, 0, 0] :: u8 list"
  let ?st = "seek_demo ?m 0"
  have kw: "seek_keyword (malloc_env 0) ''x0102'' = Some (Some [1, 2])" by code_simp
  have size: "c_size (r_cfg ?st) = 9" "c_seek (r_cfg ?st) = 0" "c_block_size (r_cfg ?st) = int 4" by (simp_all add: seek_demo_def malloc_core_def)
  have "\<exists>s b. radare_seek_search (malloc_env 0) ''x0102'' ?st =
      Some (?st\<lparr>r_cfg := (r_cfg ?st)\<lparr>c_interrupted := False, c_seek := s, c_block := b\<rparr>\<rparr>, 0) \<and>
    (1 \<le> s \<and> take (length [1, 2 :: u8]) (drop (unat s) ?m) = [1, 2] \<and> (\<forall>p. stands_at ?m [1, 2] (unat (1 :: ut64)) (unat (1 :: ut64) + 2 * 4) p \<longrightarrow> unat s \<le> p) \<or>
     s = c_seek (r_cfg ?st) \<and> (\<forall>p. \<not> stands_at ?m [1, 2] (unat (1 :: ut64)) (unat (1 :: ut64) + 2 * 4) p))"
    by (rule seek_search_next [OF _ _ seek_demo_session _ _ _ _ kw, where e = 9 and bs = 4]) (simp_all add: size malloc_env_def word_less_nat_alt unsigned_minus_1_eq_mask mask_eq_exp_minus_1)
  then obtain s b where s: "radare_seek_search (malloc_env 0) ''x0102'' ?st =
      Some (?st\<lparr>r_cfg := (r_cfg ?st)\<lparr>c_interrupted := False, c_seek := s, c_block := b\<rparr>\<rparr>, 0)"
    and r: "take (length [1, 2 :: u8]) (drop (unat s) ?m) = [1, 2] \<or> (\<forall>p. \<not> stands_at ?m [1, 2] (unat (1 :: ut64)) (unat (1 :: ut64) + 2 * 4) p)" by blast
  have "stands_at ?m [1, 2] (unat (1 :: ut64)) (unat (1 :: ut64) + 2 * 4) 5" by (simp add: stands_at_def)
  then have "take (length [1, 2 :: u8]) (drop (unat s) ?m) = [1, 2]" using r by blast
  then show ?thesis using s by (intro exI [of _ "?st\<lparr>r_cfg := (r_cfg ?st)\<lparr>c_interrupted := False, c_seek := s, c_block := b\<rparr>\<rparr>"]) (simp add: numeral_2_eq_2)
qed

section \<open>The copy\<close>

lemma plain_malloc:
  "plain_session (malloc_plugin ba dst alloc fresh) MALLOC_FD malloc_valid env st \<longleftrightarrow>
    malloc_session env ba dst alloc fresh (malloc_contents (r_dev st)) st \<and> c_seek (r_cfg st) \<noteq> UT64_MAX"
  by (auto simp: plain_session_def malloc_session_def)

text \<open>Bytes are read before any is written, so the intervals may overlap.\<close>

lemma move_copies:
  fixes st :: "malloc_state core"
  assumes "malloc_session env ba dst alloc fresh m st" and "cfg_get env ''file.write''" and "write_mask st = None"
    and "strchr_split (CHR '' '') (dropWhile (\<lambda>c. c = CHR '' '') arg) = Some (x, y)" and "env_math env x \<noteq> 0"
    and "\<forall>s. section_get (env_math env y) (r_sec st) = Some s \<longrightarrow> srwx s AND SECTION_W = 0"
    and "unat (c_seek (r_cfg st)) + unat (env_math env x) \<le> length m" and "unat (env_math env y) + unat (env_math env x) \<le> length m"
    and "nat (c_block_size (r_cfg st)) < 2 ^ 31"
  shows "\<exists>st'. radare_move env arg st = Some (st', 0) \<and> c_seek (r_cfg st') = c_seek (r_cfg st) \<and>
    malloc_contents (r_dev st') = write_mem m (env_math env y) (read_mem m (c_seek (r_cfg st)) (unat (env_math env x)))"
proof -
  let ?src = "c_seek (r_cfg st)" and ?pos = "env_math env y" and ?n = "unat (env_math env x)"
  have lm: "length m < 2 ^ 32" by (rule malloc_session_small [OF assms(1)])
  have big: "unat UT64_MAX = 2 ^ 64 - 1" by (simp add: unsigned_minus_1_eq_mask mask_eq_exp_minus_1)
  have ne: "?src \<noteq> UT64_MAX" "?pos \<noteq> UT64_MAX" using assms(7,8) lm big by auto
  have mc: "malloc_contents (r_dev st) = m" using assms(1) by (simp add: malloc_session_def)
  have pl: "plain_session (malloc_plugin ba dst alloc fresh) MALLOC_FD malloc_valid env st" using assms(1) ne by (simp add: plain_malloc mc)
  obtain w r where rd: "radare_read_at env ?src ?n st = Some (st\<lparr>r_dev := w\<rparr>, read_mem m ?src ?n, r)" "malloc_contents w = m"
    "plain_session (malloc_plugin ba dst alloc fresh) MALLOC_FD malloc_valid env (st\<lparr>r_dev := w\<rparr>)"
    using malloc_dev.session_read_at [OF pl ne(1), of ?n] assms(7) mc by auto
  let ?bs = "read_mem m ?src ?n" and ?st1 = "st\<lparr>r_dev := w\<rparr>"
  have lb: "length ?bs = ?n" using assms(7) by (simp add: read_mem_def)
  obtain w2 r2 where wr: "radare_write_at env ?pos ?bs ?st1 = Some (?st1\<lparr>r_dev := w2, undo_w_init := fst (undo_record env ?pos ?bs m ?st1),
      undo_w_list := snd (undo_record env ?pos ?bs m ?st1), io_write_last := int (length ?bs)\<rparr>, r2)"
    "malloc_contents w2 = write_mem m ?pos ?bs" "plain_session (malloc_plugin ba dst alloc fresh) MALLOC_FD malloc_valid env (?st1\<lparr>r_dev := w2\<rparr>)"
    using malloc_dev.session_write_at [OF rd(3) ne(2), of ?bs] assms(2,3,6,8) rd(2) lb by auto
  let ?st2 = "?st1\<lparr>r_dev := w2, undo_w_init := fst (undo_record env ?pos ?bs m ?st1),
      undo_w_list := snd (undo_record env ?pos ?bs m ?st1), io_write_last := int (length ?bs)\<rparr>"
  have "malloc_session env ba dst alloc fresh (write_mem m ?pos ?bs) ?st2" using wr(2,3) by (simp add: plain_malloc malloc_session_def)
  from malloc_block_read [OF this] obtain r3 b where "radare_read env False ?st2 = Some (?st2\<lparr>r_cfg := (r_cfg ?st2)\<lparr>c_block := b\<rparr>\<rparr>, r3)"
    using ne(1) assms(7,9) lm by auto
  moreover have "?st2\<lparr>r_cfg := (r_cfg ?st2)\<lparr>c_seek := ?src\<rparr>\<rparr> = ?st2" by simp
  moreover have "take ?n (?bs @ replicate ?n (junk env)) = ?bs" using lb by simp
  ultimately have "radare_move env arg st = Some (?st2\<lparr>r_cfg := (r_cfg ?st2)\<lparr>c_block := b\<rparr>\<rparr>, 0)"
    using assms(2,4,5) ne(2) rd(1) wr(1) unfolding radare_move_def by (simp add: Let_def)
  then show ?thesis using wr(2) by simp
qed

lemma memcmpdiff_count: "length a = length b \<Longrightarrow> memcmpdiff a b = int (length (filter (\<lambda>i. a ! i \<noteq> b ! i) [0..<length a]))"
proof (induction a b rule: list_induct2)
  case (Cons x xs y ys)
  have "[0..<length (x # xs)] = 0 # map Suc [0..<length xs]" by (simp add: upt_conv_Cons map_Suc_upt del: upt_Suc)
  then show ?case using Cons.IH by (simp add: filter_map comp_def del: upt_Suc)
qed simp

lemma compare_counts:
  "length f = n \<Longrightarrow> length d = n \<Longrightarrow> map_option snd (radare_compare f d n st) = Some (memcmpdiff f d)"
  using length_filter_le [of "\<lambda>i. f ! i \<noteq> d ! i" "[0..<n]"] by (auto simp: radare_compare_def memcmpdiff_count Let_def)

end
