(* ===== verification/Search.thy ===== *)
theory Search
  imports Binparse Ranges Seek
begin

text \<open>
  The drivers of the search of \<^verbatim>\<open>src/src/search.c\<close>: the keywords of a range of numbers are searched block by block from an
  address, each hit moves to its address, reads the block there, sets a flag and may run a command. They join the automaton of \<open>Binparse\<close>,
  the core of \<open>Rio\<close> and the tables of \<open>Flags\<close> and \<open>Ranges\<close>. The configuration does not change during a search, and an interrupt comes from
  the program itself only; the progress bar and the environment variable of a hit are left out. \<open>None\<close> is an access out of bounds, a
  conversion without its argument, or a call that does not return.
\<close>

section \<open>Model\<close>

record 'w srch =
  h_core :: "'w core"
  h_flags :: flags_state
  h_ranges :: ranges_state
  nhit :: int
  hit_idx :: int
  search_cmdhit :: "string option"
  search_count :: int
  search_flag :: bool
  search_verbose :: bool
  align :: int
  search_last_keyword :: "string option"

text \<open>What surrounds the drivers: the core, the texts of the configuration, the interpreter of commands, the keywords in the environment and the memory that is not initialised.\<close>

record 'w search_env =
  se_io :: "'w io_env"
  cfg_text :: "string \<Rightarrow> string option"
  run_cmd :: "string \<Rightarrow> 'w srch \<Rightarrow> 'w srch option"
  kw_env :: "string \<Rightarrow> string option"
  se_uninit :: uninit
  se_nocase :: bool

definition say :: "out_event list \<Rightarrow> 'w srch \<Rightarrow> 'w srch" where
  "say es st = st\<lparr>h_core := emit es (h_core st)\<rparr>"

definition put_seek :: "ut64 \<Rightarrow> 'w core \<Rightarrow> 'w core" where
  "put_seek a st = st\<lparr>r_cfg := (r_cfg st)\<lparr>c_seek := a\<rparr>\<rparr>"

definition interrupt :: "'w core \<Rightarrow> 'w core" where
  "interrupt st = st\<lparr>r_cfg := (r_cfg st)\<lparr>c_interrupted := True\<rparr>\<rparr>"

text \<open>\<^verbatim>\<open>sprintf\<close> with two integers: conversions \<^verbatim>\<open>%d\<close> and \<^verbatim>\<open>%%\<close>.\<close>

fun format_ints :: "string \<Rightarrow> int list \<Rightarrow> string option" where
  "format_ints [] vs = Some []"
| "format_ints (c # cs) vs =
     (if c \<noteq> CHR ''%'' then map_option ((#) c) (format_ints cs vs)
      else
        (case (cs, vs) of
           (d # ds, v # vs') \<Rightarrow>
             if d = CHR ''d'' then map_option ((@) (fmt_d v)) (format_ints ds vs')
             else if d = CHR ''%'' then map_option ((#) d) (format_ints ds vs)
             else None
         | (d # ds, []) \<Rightarrow> if d = CHR ''%'' then map_option ((#) d) (format_ints ds vs) else None
         | ([], _) \<Rightarrow> None))"

text \<open>The format is used when it has two \<^verbatim>\<open>%d\<close> and no further percent sign behind them; \<open>cap\<close> is the size of the buffer.\<close>

definition flagname_valid :: "string \<Rightarrow> bool" where
  "flagname_valid f \<longleftrightarrow>
     (case strstr f ''%d'' of
        None \<Rightarrow> False
      | Some a \<Rightarrow>
          (case strstr (drop 2 a) ''%d'' of
             None \<Rightarrow> False
           | Some b \<Rightarrow> strstr (drop 2 b) ''%'' = None))"

definition radare_flag_name :: "'w search_env \<Rightarrow> nat \<Rightarrow> int \<Rightarrow> int \<Rightarrow> (string \<times> bool) option" where
  "radare_flag_name env cap kw hn =
     (let usef = (case cfg_text env ''search.flagname'' of None \<Rightarrow> False | Some f \<Rightarrow> f \<noteq> [] \<and> flagname_valid f);
          out = (if usef then format_ints (the (cfg_text env ''search.flagname'')) [kw, hn] else format_ints ''hit%d_%d'' [kw, hn])
      in Option.bind out (\<lambda>s. if length s < cap then Some (s, usef) else None))"

definition radare_search_seek_hit :: "'w search_env \<Rightarrow> int \<Rightarrow> 'w srch \<Rightarrow> 'w srch option" where
  "radare_search_seek_hit env idx st =
     Option.bind (radare_flag_name env 64 0 (hit_idx st)) (\<lambda>(buf, _).
       let st' = (case flag_get (Some buf) (h_flags st) of
             None \<Rightarrow> if 0 < idx then st\<lparr>hit_idx := hit_idx st - idx\<rparr> else st
           | Some f \<Rightarrow> st\<lparr>h_core := fst (radare_seek (se_io env) (foffset f) SEEK_SET (h_core st))\<rparr>);
           h = hit_idx st' + idx
       in Some (st'\<lparr>hit_idx := if h < 1 then 1 else h\<rparr>))"

text \<open>The line of a hit shows 20 bytes of the block.\<close>

definition hit_line :: "int \<Rightarrow> ut64 \<Rightarrow> string \<Rightarrow> u8 list \<Rightarrow> out_event list" where
  "hit_line n wh name block =
     [ConsOut (pad0 3 (fmt_d n) @ ''  '' @ hex_0x wh @ '' '' @ name @ '' ''),
      ConsOut (filter is_printable (map (\<lambda>b. char_of (unat b)) (take 20 block))), ConsOut nl]"

text \<open>The callback of a hit of the keyword \<open>i\<close>; the result says whether the search of the byte goes on.\<close>

definition radare_tsearch_callback :: "'w search_env \<Rightarrow> nat \<Rightarrow> ut64 \<Rightarrow> 'w srch \<Rightarrow> ('w srch \<times> bool) option" where
  "radare_tsearch_callback env i wh st =
     (let io = se_io env; off = c_seek (r_cfg (h_core st)) in
      if align st \<noteq> 0 \<and> wh mod word_of_int (align st) \<noteq> 0 then Some (st, True)
      else if search_count st \<noteq> 0 \<and> search_count st \<le> nhit st then Some (st, True)
      else
        let st1 = st\<lparr>nhit := nhit st + 1\<rparr> in
        Option.bind (radare_flag_name env 128 (int i) (nhit st1)) (\<lambda>(name, _).
        Option.bind (radare_read io False (fst (radare_seek io wh SEEK_SET (h_core st1)))) (\<lambda>(c2, _).
          let (fl, _, es) = (if search_flag st then flag_set (r_cfg c2) name wh False (h_flags st1) else (h_flags st1, 0, []));
              st3 = say es (st1\<lparr>h_core := c2, h_flags := fl\<rparr>)
          in Option.bind
               (case search_cmdhit st3 of
                  None \<Rightarrow> Some st3
                | Some cmd \<Rightarrow>
                    if cmd = [] then Some st3
                    else Option.bind (run_cmd env cmd (st3\<lparr>h_core := fst (radare_seek io wh SEEK_SET (h_core st3))\<rparr>)) (\<lambda>s. Some (s\<lparr>h_core := radare_controlc (h_core s)\<rparr>))) (\<lambda>st4.
             if search_verbose st4 \<and> length (c_block (r_cfg (h_core st4))) < 20 then None
             else
               let st5 = (if search_verbose st4 then say (hit_line (nhit st4) wh name (c_block (r_cfg (h_core st4)))) st4 else st4)
               in Some (st5\<lparr>h_core := put_seek off (h_core st5)\<rparr>, False)))))"

definition tsearch_cb :: "'w search_env \<Rightarrow> 'w srch option search_cb" where
  "tsearch_cb env i wh c =
     (case Option.bind c (radare_tsearch_callback env i wh) of
        None \<Rightarrow> (None, True)
      | Some (st, go) \<Rightarrow> (Some st, go))"

text \<open>One byte of the block through all keywords; the last component is the value of \<^verbatim>\<open>update_tlist\<close>.\<close>

definition search_byte :: "'w search_env \<Rightarrow> int \<Rightarrow> tokenlist list \<Rightarrow> 'w srch \<Rightarrow> (tokenlist list \<times> 'w srch \<times> int) option" where
  "search_byte env i t st =
     (let cfg = r_cfg (h_core st) in
      if length (c_block cfg) \<le> nat i then None
      else
        Option.bind (update_tlist (se_nocase env) (Some (tsearch_cb env)) (c_block cfg ! nat i) (c_seek cfg + word_of_int i) t (Some st)) (\<lambda>(t', c, ret, es).
        Option.bind c (\<lambda>st'.
          let st2 = say es st' in Some (t', if ret = - 1 then st2\<lparr>h_core := interrupt (h_core st2)\<rparr> else st2, ret))))"

section \<open>The search over ranges of keywords\<close>

text \<open>
  The loop over the text of the argument: \<open>s\<close> is the token read so far, \<open>num\<close> and \<open>f0\<close> the lower bound of a range and whether there is one. A
  token has 127 characters at most.
\<close>

definition add_numbers :: "'w search_env \<Rightarrow> int list \<Rightarrow> tokenlist list \<Rightarrow> tokenlist list option" where
  "add_numbers env ns t =
     foldr (\<lambda>n k t. Option.bind (binparse_add_search (se_uninit env) (se_nocase env) (kw_env env) t n) (\<lambda>(t', _). k t')) ns Some t"

function (sequential) parse_range ::
  "'w search_env \<Rightarrow> string \<Rightarrow> string \<Rightarrow> int \<Rightarrow> bool \<Rightarrow> tokenlist list \<Rightarrow> out_event list \<Rightarrow>
     (tokenlist list \<times> int \<times> bool \<times> out_event list) option" where
  "parse_range env [] s num f0 t es = Some (t, num, f0, es)"
| "parse_range env (c # cs) s num f0 t es =
     (let s' = s @ [c] in
      if 127 < length s' then None
      else if cs \<noteq> [] \<and> hd cs = CHR ''-'' then parse_range env (drop 1 cs) [] (atoi s') True t es
      else if cs = [] \<or> hd cs = CHR '','' then
        (if f0 then
           (if num = - 1 then parse_range env cs s' num False t (es @ [ConsOut (''syntax error'' @ nl)])
            else Option.bind (add_numbers env [num..atoi s'] t) (\<lambda>t'. parse_range env (drop 1 cs) [] num False t' es))
         else Option.bind (add_numbers env [atoi s'] t) (\<lambda>t'. parse_range env (drop 1 cs) [] num False t' es))
      else parse_range env cs s' num f0 t es)"
  by pat_completeness auto
termination by (relation "measure (\<lambda>(env, cs, _). length cs)") auto

partial_function (option) search_inner :: "'w search_env \<Rightarrow> ut64 \<Rightarrow> int \<Rightarrow> tokenlist list \<Rightarrow> 'w srch \<Rightarrow> (tokenlist list \<times> 'w srch) option" where
  "search_inner env s i t st =
     (if c_interrupted (r_cfg (h_core st)) \<or> \<not> i < c_block_size (r_cfg (h_core st)) then Some (t, st)
      else
        Option.bind (search_byte env i t st) (\<lambda>(t', st', ret).
          if ret \<noteq> 0 then
            Option.bind (radare_read (se_io env) False (put_seek s (h_core st'))) (\<lambda>(c, _). search_inner env s (i + 1) t' (st'\<lparr>h_core := c\<rparr>))
          else search_inner env s (i + 1) t' st'))"

declare search_inner.simps [code]

partial_function (option) search_outer :: "'w search_env \<Rightarrow> ut64 \<Rightarrow> int \<Rightarrow> tokenlist list \<Rightarrow> 'w srch \<Rightarrow> (tokenlist list \<times> 'w srch) option" where
  "search_outer env limit i t st =
     (let cfg = r_cfg (h_core st); s = c_seek cfg in
      if c_interrupted cfg \<or> i = 0 \<or> limit \<noteq> 0 \<and> limit \<le> s \<or> c_debug cfg \<and> s = 0xFFFFFFFF then Some (t, st)
      else
        Option.bind (search_inner env s 0 t st) (\<lambda>(t', st').
        Option.bind (radare_read (se_io env) True (put_seek s (h_core st'))) (\<lambda>(c, r). search_outer env limit r t' (st'\<lparr>h_core := c\<rparr>))))"

declare search_outer.simps [code]

text \<open>The search from one address to the limit, with the keywords added anew; the bound of a range of numbers is kept from one pass to the next.\<close>

definition search_pass :: "'w search_env \<Rightarrow> string \<Rightarrow> ut64 \<Rightarrow> ut64 \<Rightarrow> int \<Rightarrow> bool \<Rightarrow> 'w srch \<Rightarrow> ('w srch \<times> int \<times> bool) option" where
  "search_pass env keys from to num0 f0 st0 =
     (let st1 = st0\<lparr>nhit := 0, align := sint (ucast (cfg_get_i (se_io env) ''search.align'') :: ut32)\<rparr>
      in Option.bind (parse_range env keys [] num0 f0 binparse_new []) (\<lambda>(t, num, f, es).
         let st2 = say es st1; c = put_seek from (radare_controlc (h_core st2));
             limit = (if to \<noteq> 0 then to else c_limit (r_cfg c))
         in Option.bind (radare_read (se_io env) False c) (\<lambda>(c', _).
            map_option (\<lambda>(_, st). (st, num, f)) (search_outer env limit 1 t (st2\<lparr>h_core := c'\<rparr>)))))"

partial_function (option) search_passes :: "'w search_env \<Rightarrow> string \<Rightarrow> int \<Rightarrow> ut64 \<Rightarrow> ut64 \<Rightarrow> int \<Rightarrow> bool \<Rightarrow> 'w srch \<Rightarrow> 'w srch option" where
  "search_passes env keys n from to num f0 st =
     Option.bind (search_pass env keys from to num f0 st) (\<lambda>(st', num', f').
       if \<not> cfg_get (se_io env) ''search.inar'' then Some st'
       else
         Option.bind (ranges_get_n n (h_ranges st')) (\<lambda>(rs, r).
           let st2 = st'\<lparr>h_ranges := rs\<rparr>
           in case r of None \<Rightarrow> Some st2 | Some (from', to') \<Rightarrow> search_passes env keys (n + 1) from' to' num' f' st2))"

declare search_passes.simps [code]

definition search_init :: "'w search_env \<Rightarrow> string \<Rightarrow> 'w srch \<Rightarrow> 'w srch" where
  "search_init env keys st =
     st\<lparr>search_last_keyword := Some keys, search_cmdhit := cfg_text env ''cmd.hit'',
        search_count := sint (ucast (cfg_get_i (se_io env) ''cfg.count'') :: ut32), search_flag := cfg_get (se_io env) ''search.flag'',
        search_verbose := cfg_get (se_io env) ''search.verbose''\<rparr>"

definition search_finish :: "'w search_env \<Rightarrow> ut64 \<Rightarrow> 'w srch \<Rightarrow> 'w srch" where
  "search_finish env tmp st =
     (let c = h_core st;
          st1 = (if c_interrupted (r_cfg c) then
              (case flag_set (r_cfg c) ''search_stop'' (c_seek (r_cfg c)) False (h_flags st) of
                 (fl, _, es) \<Rightarrow> say (ConsOut (nl @ ''Stopped at '' @ hex_0x (c_seek (r_cfg c)) @ '' (flag search_stop)'' @ nl) # es) (st\<lparr>h_flags := fl\<rparr>))
            else st);
          st2 = st1\<lparr>h_core := fst (radare_seek (se_io env) tmp SEEK_SET (h_core st1))\<rparr>
      in if search_verbose st2 then st2 else say [ConsOut nl] st2)"

definition search_range :: "'w search_env \<Rightarrow> string option \<Rightarrow> 'w srch \<Rightarrow> ('w srch \<times> int) option" where
  "search_range env arg st0 =
     (case arg of
        None \<Rightarrow> Some (st0, 0)
      | Some keys \<Rightarrow>
          let tmp = c_seek (r_cfg (h_core st0)); st1 = search_init env keys st0; io = se_io env;
              from = cfg_get_i io ''search.from''; to = cfg_get_i io ''search.to''; inar = cfg_get io ''search.inar''
          in Option.bind (if inar then ranges_get_n 0 (h_ranges st1) else Some (h_ranges st1, Some (from, to))) (\<lambda>(rs, r).
             let st2 = st1\<lparr>h_ranges := rs\<rparr> in
             case r of
               None \<Rightarrow> Some (say [ErrOut (''No ranges defined'' @ nl)] st2, 0)
             | Some (from', to') \<Rightarrow>
                 let st3 = (if inar then say [ConsOut (''Searching using ranges...'' @ nl)] st2 else st2)\<lparr>hit_idx := 1\<rparr>
                 in Option.bind (run_cmd env ''f -hit0_*'' st3) (\<lambda>st4.
                    Option.bind (run_cmd env ''f -hit0_*'' st4) (\<lambda>st5.
                    Option.bind (run_cmd env ''fs search'' st5) (\<lambda>st6.
                    Option.bind (search_passes env keys (if inar then 1 else 0) from' to' (- 1) False st6) (\<lambda>st7. Some (search_finish env tmp st7, 1)))))))"

section \<open>The search with the keywords of a file, and for similar blocks\<close>

text \<open>\<^verbatim>\<open>search_from_file\<close> does not read the block again after a hit. The file is the list of its lines, if it can be opened.\<close>

partial_function (option) file_inner :: "'w search_env \<Rightarrow> int \<Rightarrow> tokenlist list \<Rightarrow> 'w srch \<Rightarrow> (tokenlist list \<times> 'w srch) option" where
  "file_inner env i t st =
     (if \<not> i < c_block_size (r_cfg (h_core st)) then Some (t, st)
      else Option.bind (search_byte env i t st) (\<lambda>(t', st', ret). if ret = - 1 then Some (t', st') else file_inner env (i + 1) t' st'))"

declare file_inner.simps [code]

partial_function (option) file_outer :: "'w search_env \<Rightarrow> tokenlist list \<Rightarrow> 'w srch \<Rightarrow> (tokenlist list \<times> 'w srch) option" where
  "file_outer env t st =
     (let cfg = r_cfg (h_core st) in
      if c_interrupted cfg \<or> \<not> c_seek cfg < c_size cfg then Some (t, st)
      else
        Option.bind (file_inner env 0 t st) (\<lambda>(t', st').
        Option.bind (radare_read (se_io env) True (h_core st')) (\<lambda>(c, _). file_outer env t' (st'\<lparr>h_core := c\<rparr>))))"

declare file_outer.simps [code]

definition search_file_usage :: "out_event list" where
  "search_file_usage = [ConsOut (''Usage: /. file'' @ nl), ConsOut (''File format:'' @ nl), ConsOut ('' token: keywordname'' @ nl),
     ConsOut ('' string: keyword'' @ nl), ConsOut ('' mask: binarymask'' @ nl)]"

definition search_from_file :: "'w search_env \<Rightarrow> string \<Rightarrow> string list option \<Rightarrow> 'w srch \<Rightarrow> ('w srch \<times> int) option" where
  "search_from_file env file content st =
     (let tmp = c_seek (r_cfg (h_core st)) in
      if CHR ''?'' \<in> set file then Some (say search_file_usage st, 0)
      else
        Option.bind (binparse_new_from_file (se_uninit env) (se_nocase env) file content) (\<lambda>(t, es).
          case t of
            None \<Rightarrow> Some (say es st, 0)
          | Some ts \<Rightarrow>
              (let st1 = (say es st)\<lparr>nhit := 0\<rparr>; st2 = st1\<lparr>h_core := radare_controlc (h_core st1)\<rparr>
               in Option.bind (run_cmd env ''fs search'' st2) (\<lambda>st3.
                  Option.bind (radare_read (se_io env) False (h_core st3)) (\<lambda>(c, _).
                  Option.bind (file_outer env ts (st3\<lparr>h_core := c\<rparr>)) (\<lambda>(_, st4).
                    Some (st4\<lparr>h_core := fst (radare_seek (se_io env) tmp SEEK_SET (h_core st4))\<rparr>, 1)))))))"

partial_function (option) similar_loop :: "'w io_env \<Rightarrow> u8 list \<Rightarrow> int \<Rightarrow> 'w core \<Rightarrow> 'w core option" where
  "similar_loop io block cnt st =
     (let cfg = r_cfg st; bs = nat (c_block_size cfg) in
      if c_interrupted cfg \<or> \<not> c_seek cfg < c_size cfg then Some st
      else if length (c_block cfg) < bs \<or> length block < bs then None
      else
        (let equal = c_block_size cfg - memcmpdiff (take bs (c_block cfg)) (take bs block)
         in if cnt \<le> equal then
              Option.bind (radare_read io True (emit [ConsOut (hex_0x (c_seek cfg) @ '' '' @ fmt_d equal @ ''/'' @ fmt_d (c_block_size cfg) @ nl)] st)) (\<lambda>(st', _).
                similar_loop io block cnt st')
            else
              Option.bind (radare_read io False (put_seek (c_seek cfg + 1) st)) (\<lambda>(st', r).
                if r < c_block_size (r_cfg st') then Some st' else similar_loop io block cnt st')))"

declare similar_loop.simps [code]

definition search_similar_pattern :: "'w io_env \<Rightarrow> int \<Rightarrow> 'w core \<Rightarrow> 'w core option" where
  "search_similar_pattern io cnt st =
     Option.bind (radare_read io False st) (\<lambda>(st1, _).
       let bs = nat (c_block_size (r_cfg st1)); block = take bs (c_block (r_cfg st1))
       in if length block < bs then None
          else Option.bind (radare_read io True (radare_controlc st1)) (\<lambda>(st2, _). similar_loop io block cnt st2))"

section \<open>Examples\<close>

text \<open>A session over a buffer with blocks of eight bytes that searches one keyword up to an address; commands work on the flags as \<^verbatim>\<open>cmds.c\<close> calls them.\<close>

definition demo_uninit :: "token \<Rightarrow> uninit" where
  "demo_uninit j = \<lparr>junk_tail = [], junk_int = 0, junk_tok = (\<lambda>_. j), junk_actp = (\<lambda>_. 0), junk_mask = (\<lambda>_. 0)\<rparr>"

definition demo_cmd :: "string \<Rightarrow> 'w srch \<Rightarrow> 'w srch option" where
  "demo_cmd cmd st =
     (if cmd = ''fs search'' then Some (st\<lparr>h_flags := flag_space_set (Some ''search'') (h_flags st)\<rparr>)
      else if cmd = ''f -hit0_*'' then Some (st\<lparr>h_flags := flag_remove (\<lambda>_. 0) (r_cfg (h_core st)) (Some ''hit0_*'') (h_flags st)\<rparr>)
      else None)"

definition demo_env :: "token \<Rightarrow> string \<Rightarrow> ut64 \<Rightarrow> malloc_state search_env" where
  "demo_env j kw to =
     \<lparr>se_io = (malloc_env 0)\<lparr>cfg_get := (\<lambda>s. s = ''search.flag''), cfg_get_i := (\<lambda>s. if s = ''search.to'' then to else 0)\<rparr>,
      cfg_text = (\<lambda>_. None), run_cmd = demo_cmd, kw_env = (\<lambda>s. if s = ''SEARCH[0]'' then Some kw else None),
      se_uninit = demo_uninit j, se_nocase = False\<rparr>"

definition demo_srch :: "u8 list \<Rightarrow> nat \<Rightarrow> malloc_state srch" where
  "demo_srch m bs =
     \<lparr>h_core = (malloc_core m)\<lparr>r_cfg := (r_cfg (malloc_core m))\<lparr>c_block_size := int bs\<rparr>\<rparr>, h_flags = flags_zero, h_ranges = \<lparr>ranges = [], ranges_is_init = False, ranges_changed = False\<rparr>,
      nhit = 0, hit_idx = 1, search_cmdhit = None, search_count = 0, search_flag = True, search_verbose = False, align = 0,
      search_last_keyword = None\<rparr>"

section \<open>The automaton of one keyword of bytes\<close>




























section \<open>The flags of the hits\<close>

definition hit_name :: "nat \<Rightarrow> string" where
  "hit_name n = ''hit0_'' @ fmt_d (int n)"


lemma digit_chars_valid: "list_all (\<lambda>d. flag_is_valid_char (digit_char d)) [0..<10]"
  by code_simp

lemma hit_name_key:
  assumes "n < 10 ^ 10"
  shows "flag_key (hit_name n)" and "length (hit_name n) < 64"
proof -
  have l: "length (digits_base 10 n) \<le> 10" by (rule digits_length) (use assms in simp_all)
  have "\<forall>c \<in> set (digits_base 10 n). flag_is_valid_char c"
    using digits_base_all [of 10 n] digit_chars_valid by (fastforce simp: list_all_iff)
  moreover have "list_all flag_is_valid_char ''hit0_''" by code_simp
  ultimately have "flag_is_valid_name (hit_name n)" by (auto simp: flag_is_valid_name_def hit_name_def fmt_d_def list_all_iff)
  moreover have "\<not> digit_start (hit_name n)" by (simp add: digit_start_def hit_name_def str_at_def)
  ultimately show "flag_key (hit_name n)" "length (hit_name n) < 64" using l by (simp_all add: flag_key_def FLAG_BSIZE_def hit_name_def fmt_d_def)
qed

lemma format_hit: "format_ints ''hit%d_%d'' [0, int n] = Some (hit_name n)"
proof -
  have "digits_base 10 0 = ''0''" by code_simp
  then show ?thesis by (simp add: hit_name_def fmt_d_def)
qed






lemma length_window [simp]: "length (malloc_window m a n) = n"
  by (simp add: malloc_window_def read_mem_def)


section \<open>The search of a buffer\<close>







section \<open>The keyword of the environment\<close>
















section \<open>What the drivers do wrong\<close>

text \<open>
  After a hit the memory behind the keyword is compared. When it is zero it matches any byte, and its successor counts a following zero byte as the first byte of the keyword:
  in the text \<^verbatim>\<open>abX\0b\<close> the keyword \<^verbatim>\<open>ab\<close> is reported at 0 and at 3.
\<close>

lemma search_false_hit:
  "map_option (\<lambda>(st, r). map (\<lambda>f. (fname f, foffset f)) (flags (h_flags st)))
     (search_range (demo_env \<lparr>mintok = 0, trange = 0, tmask = 0\<rparr> ''ab'' 5) (Some ''0'') (demo_srch [97, 98, 88, 0, 98] 5)) =
   Some [(''hit0_1'', 0), (''hit0_2'', 3)]"
  by code_simp

text \<open>When it matches nothing, the byte after a hit is lost: of two adjacent occurrences the second is missed.\<close>

lemma search_adjacent_missed:
  "map_option (\<lambda>(st, r). map (\<lambda>f. (fname f, foffset f)) (flags (h_flags st)))
     (search_range (demo_env \<lparr>mintok = 255, trange = 255, tmask = 0\<rparr> ''ab'' 4) (Some ''0'') (demo_srch [97, 98, 97, 98] 4)) =
   Some [(''hit0_1'', 0)]"
  by code_simp

text \<open>The search with the keywords of a file does not read its block again after a hit, so the bytes behind it are those of the hit: the occurrence at 5 is missed.\<close>

lemma search_file_wrong_block:
  "map_option (\<lambda>(st, r). map (\<lambda>f. (fname f, foffset f)) (flags (h_flags st)))
     (search_from_file (demo_env \<lparr>mintok = 255, trange = 255, tmask = 0\<rparr> [] 8) ''f''
        (Some [''token:'' @ [CHR 0x09] @ ''x'' @ nl, CHR 0x09 # ''string:'' @ [CHR 0x09] @ ''bc'' @ nl]) (demo_srch [97, 98, 99, 1, 2, 98, 99, 0] 8)) =
   Some [(''hit0_1'', 1)]"
  by code_simp

text \<open>A step to a hit that does not exist, from the first: the index stays at the first.\<close>

lemma seek_hit_end: "map_option hit_idx (radare_search_seek_hit (demo_env j kw to) 1 (demo_srch m bs)) = Some 1"
proof -
  have "radare_flag_name (demo_env j kw to) 64 0 1 = Some (hit_name 1, False)"
    using format_hit [of 1] hit_name_key(2) [of 1] by (simp add: radare_flag_name_def demo_env_def del: format_ints.simps)
  moreover have "flag_get (Some (hit_name 1)) flags_zero = None"
    using hit_name_key(1) [of 1] by (simp add: flag_get_key flags_zero_def Let_def)
  ultimately show ?thesis by (simp add: radare_search_seek_hit_def demo_srch_def Let_def)
qed

end
