(* ===== verification/Msil.thy ===== *)
theory Msil
  imports Aop
begin

text \<open>
  The disassembler of the .NET intermediate language (\<^verbatim>\<open>src/src/arch/msil/demsil.c\<close>, \<^verbatim>\<open>demsil.h\<close>) and the analyser that calls it
  (\<^verbatim>\<open>code.c\<close>). The memory is the list of the bytes that can be read from \<^verbatim>\<open>pMemory\<close>; \<open>None\<close> is a read behind them or an
  access outside the array of instructions. The mnemonic is extended by a \<^verbatim>\<open>snprintf\<close> that reads the buffer it writes, which C
  leaves undefined: what it reads is the argument \<open>ov\<close>, a function of the old text. Distances of pointers to \<^verbatim>\<open>unsigned long\<close>
  are those of the compilers on 64-bit machines, the number of whole eight bytes.
\<close>

section \<open>Data\<close>

datatype number_type = NUMBER_TYPE_TOKEN | NUMBER_TYPE_SMALL_BRANCH | NUMBER_TYPE_BRANCH | NUMBER_TYPE_CHAR | NUMBER_TYPE_WORD
  | NUMBER_TYPE_DWORD | NUMBER_TYPE_QWORD | NUMBER_TYPE_U8 | NUMBER_TYPE_SHORT | NUMBER_TYPE_INT | NUMBER_TYPE_INT64
  | NUMBER_TYPE_UCHAR | NUMBER_TYPE_USHORT | NUMBER_TYPE_UINT | NUMBER_TYPE_FLOAT | NUMBER_TYPE_DOUBLE

record ILOPCODE_STRUCT =
  il_offset :: ut32
  il_size :: ut32
  il_mnemonic :: string

text \<open>What a case of the switch does: a name alone, a name with a token of four bytes, a name with a number of some bytes.\<close>

datatype il_form = Plain string | Tok string | Num string nat number_type

section \<open>Numbers\<close>

definition hi_dword :: "ut64 \<Rightarrow> ut32" where "hi_dword q = ucast (drop_bit 32 q)"

definition lo_dword :: "ut64 \<Rightarrow> ut32" where "lo_dword q = ucast q"

text \<open>The conversion of an integer to a floating-point number of \<open>p\<close> bits, and its texts by \<^verbatim>\<open>%f\<close> and \<^verbatim>\<open>%g\<close>; halves go to the even neighbour.\<close>

definition div_even :: "nat \<Rightarrow> nat \<Rightarrow> nat" where
  "div_even n d = (if d < 2 * (n mod d) \<or> d = 2 * (n mod d) \<and> odd (n div d) then n div d + 1 else n div d)"

definition round_bits :: "nat \<Rightarrow> nat \<Rightarrow> nat" where
  "round_bits p n = (let e = length (digits_base 2 n) - p in div_even n (2 ^ e) * 2 ^ e)"

definition fmt_f :: "nat \<Rightarrow> string" where
  "fmt_f n = fmt_d (int n) @ ''.000000''"

definition fmt_g :: "nat \<Rightarrow> string" where
  "fmt_g n =
     (let l = length (digits_base 10 n) in
      if l \<le> 6 then digits_base 10 n
      else
        let q = div_even n (10 ^ (l - 6));
            (m, x) = (if q = 10 ^ 6 then (10 ^ 5, l) else (q, l - 1));
            ds = digits_base 10 m;
            frac = rev (dropWhile (\<lambda>c. c = CHR ''0'') (rev (drop 1 ds)))
        in take 1 ds @ (if frac = [] then [] else ''.'' @ frac) @ ''e+'' @ pad0 2 (digits_base 10 x))"

definition show_number :: "ut32 \<Rightarrow> number_type \<Rightarrow> ut64 \<Rightarrow> string" where
  "show_number base nt n =
     (case nt of
        NUMBER_TYPE_TOKEN \<Rightarrow> ''0x'' @ fmt_X 8 (unat (ucast n :: ut32))
      | NUMBER_TYPE_SMALL_BRANCH \<Rightarrow>
          (if unat (ucast n :: u8) \<le> 127 then ''0x'' @ fmt_X 8 (unat (base + 2 + ucast n))
           else ''0x'' @ fmt_X 8 (unat (base + 2 - (0 - scast (ucast n :: u8)))))
      | NUMBER_TYPE_BRANCH \<Rightarrow> ''0x'' @ fmt_X 8 (unat (base + 5 + ucast n))
      | NUMBER_TYPE_U8 \<Rightarrow> ''0x'' @ fmt_X 2 (unat (ucast n :: u8))
      | NUMBER_TYPE_WORD \<Rightarrow> ''0x'' @ fmt_X 4 (unat (ucast n :: ut16))
      | NUMBER_TYPE_DWORD \<Rightarrow> ''0x'' @ fmt_X 8 (unat (ucast n :: ut32))
      | NUMBER_TYPE_QWORD \<Rightarrow> ''0x'' @ fmt_X 8 (unat (hi_dword n)) @ fmt_X 8 (unat (lo_dword n))
      | NUMBER_TYPE_CHAR \<Rightarrow> fmt_d (uint (ucast n :: u8))
      | NUMBER_TYPE_SHORT \<Rightarrow> fmt_d (sint (ucast n :: ut16))
      | NUMBER_TYPE_INT \<Rightarrow> fmt_d (sint (ucast n :: ut32))
      | NUMBER_TYPE_INT64 \<Rightarrow> fmt_d (sint n)
      | NUMBER_TYPE_UCHAR \<Rightarrow> fmt_d (uint (ucast n :: ut16))
      | NUMBER_TYPE_USHORT \<Rightarrow> fmt_d (uint (ucast n :: ut16))
      | NUMBER_TYPE_UINT \<Rightarrow> fmt_d (uint (ucast n :: ut32))
      | NUMBER_TYPE_FLOAT \<Rightarrow> fmt_f (round_bits 24 (unat n))
      | NUMBER_TYPE_DOUBLE \<Rightarrow> fmt_g (round_bits 53 (unat n)))"

section \<open>The mnemonic\<close>

definition MAX_DISASMMSIL_MNEMONIC :: nat where "MAX_DISASMMSIL_MNEMONIC = 100"

definition demsil_addi :: "(string \<Rightarrow> string) \<Rightarrow> string \<Rightarrow> ILOPCODE_STRUCT \<Rightarrow> ILOPCODE_STRUCT" where
  "demsil_addi ov i il =
     il\<lparr>il_mnemonic := take (MAX_DISASMMSIL_MNEMONIC - 1) (if il_mnemonic il = [] then i else ov (il_mnemonic il) @ '' '' @ i)\<rparr>"

definition demsil_add_number :: "(string \<Rightarrow> string) \<Rightarrow> ut32 \<Rightarrow> number_type \<Rightarrow> ut64 \<Rightarrow> ILOPCODE_STRUCT \<Rightarrow> ILOPCODE_STRUCT" where
  "demsil_add_number ov base nt n il = demsil_addi ov (take 99 (show_number base nt n)) il"

definition demsil_addiT :: "(string \<Rightarrow> string) \<Rightarrow> string \<Rightarrow> ut64 \<Rightarrow> ILOPCODE_STRUCT \<Rightarrow> ILOPCODE_STRUCT" where
  "demsil_addiT ov i t il = demsil_addi ov (i @ '' 0x'' @ fmt_X 8 (unat (ucast t :: ut32))) il"

section \<open>Reads\<close>

fun le_value :: "u8 list \<Rightarrow> ut64" where
  "le_value [] = 0"
| "le_value (b # bs) = ucast b + push_bit 8 (le_value bs)"

definition rem_size :: "ut32 \<Rightarrow> nat \<Rightarrow> ut32" where
  "rem_size ms p = ms - word_of_nat (p div 8)"

text \<open>A read of \<open>k\<close> bytes at the distance \<open>p\<close>: where the check fails the function returns 0, else the rest goes on with the value.\<close>

definition demsil_get ::
  "u8 list \<Rightarrow> ut32 \<Rightarrow> nat \<Rightarrow> nat \<Rightarrow> ILOPCODE_STRUCT \<Rightarrow> (ut64 \<Rightarrow> (ILOPCODE_STRUCT \<times> bool) option) \<Rightarrow> (ILOPCODE_STRUCT \<times> bool) option" where
  "demsil_get mem ms p k il rest =
     (if unat (rem_size ms p) < k then Some (il, False)
      else if length mem < p + k then None
      else rest (le_value (take k (drop p mem))))"

section \<open>The switches\<close>

text \<open>The cases of one byte, without the one of the switch instruction, and those of two.\<close>

definition il_load :: "(ut16 \<times> il_form) list" where
  "il_load = [
    (0x00, Plain ''nop''), (0x01, Plain ''break''), (0x02, Plain ''ldarg.0''), (0x03, Plain ''ldarg.1''), (0x04, Plain ''ldarg.2''),
    (0x05, Plain ''ldarg.3''), (0x06, Plain ''ldloc.0''), (0x07, Plain ''ldloc.1''), (0x08, Plain ''ldloc.2''), (0x09, Plain ''ldloc.3''),
    (0x0a, Plain ''stloc.0''), (0x0b, Plain ''stloc.1''), (0x0c, Plain ''stloc.2''), (0x0d, Plain ''stloc.3''),
    (0x0e, Num ''ldarg.s'' 1 NUMBER_TYPE_UCHAR), (0x0f, Num ''ldarga.s'' 1 NUMBER_TYPE_UCHAR), (0x10, Num ''starg.s'' 1 NUMBER_TYPE_UCHAR),
    (0x11, Num ''ldloc.s'' 1 NUMBER_TYPE_UCHAR), (0x12, Num ''ldloca.s'' 1 NUMBER_TYPE_UCHAR), (0x13, Num ''stloc.s'' 1 NUMBER_TYPE_UCHAR),
    (0x14, Plain ''ldnull''), (0x15, Plain ''ldc.i4.m1''), (0x16, Plain ''ldc.i4.0''), (0x17, Plain ''ldc.i4.1''), (0x18, Plain ''ldc.i4.2''),
    (0x19, Plain ''ldc.i4.3''), (0x1a, Plain ''ldc.i4.4''), (0x1b, Plain ''ldc.i4.5''), (0x1c, Plain ''ldc.i4.6''), (0x1d, Plain ''ldc.i4.7''),
    (0x1e, Plain ''ldc.i4.8''), (0x1f, Num ''ldc.i4.s'' 1 NUMBER_TYPE_CHAR), (0x20, Num ''ldc.i4'' 4 NUMBER_TYPE_INT),
    (0x21, Num ''ldc.i8'' 8 NUMBER_TYPE_INT64), (0x22, Num ''ldc.r4'' 4 NUMBER_TYPE_FLOAT), (0x23, Num ''ldc.r8'' 8 NUMBER_TYPE_DOUBLE),
    (0x25, Plain ''dup''), (0x26, Plain ''pop'')]"

definition il_branch :: "(ut16 \<times> il_form) list" where
  "il_branch = [
    (0x27, Tok ''jmp''), (0x28, Tok ''call''), (0x29, Tok ''calli''), (0x2a, Plain ''ret''), (0x2b, Num ''br.s'' 1 NUMBER_TYPE_SMALL_BRANCH),
    (0x2e, Num ''beq.s'' 1 NUMBER_TYPE_SMALL_BRANCH), (0x2f, Num ''bge.s'' 1 NUMBER_TYPE_SMALL_BRANCH),
    (0x30, Num ''bgt.s'' 1 NUMBER_TYPE_SMALL_BRANCH), (0x31, Num ''ble.s'' 1 NUMBER_TYPE_SMALL_BRANCH),
    (0x32, Num ''blt.s'' 1 NUMBER_TYPE_SMALL_BRANCH), (0x33, Num ''bne.un.s'' 1 NUMBER_TYPE_SMALL_BRANCH),
    (0x34, Num ''bge.un.s'' 1 NUMBER_TYPE_SMALL_BRANCH), (0x35, Num ''bgt.un.s'' 1 NUMBER_TYPE_SMALL_BRANCH),
    (0x36, Num ''ble.un.s'' 1 NUMBER_TYPE_SMALL_BRANCH), (0x37, Num ''blt.un.s'' 1 NUMBER_TYPE_SMALL_BRANCH), (0x38, Num ''br'' 4 NUMBER_TYPE_BRANCH),
    (0x3b, Num ''beq'' 4 NUMBER_TYPE_BRANCH), (0x3c, Num ''bge'' 4 NUMBER_TYPE_BRANCH), (0x3d, Num ''bgt'' 4 NUMBER_TYPE_BRANCH),
    (0x3e, Num ''ble'' 4 NUMBER_TYPE_BRANCH), (0x3f, Num ''blt'' 4 NUMBER_TYPE_BRANCH)]"

definition il_branch_un :: "(ut16 \<times> il_form) list" where
  "il_branch_un = [
    (0x40, Num ''bne.un'' 4 NUMBER_TYPE_BRANCH), (0x41, Num ''bge.un'' 4 NUMBER_TYPE_BRANCH), (0x42, Num ''bgt.un'' 4 NUMBER_TYPE_BRANCH),
    (0x43, Num ''ble.un'' 4 NUMBER_TYPE_BRANCH), (0x44, Num ''blt.un'' 4 NUMBER_TYPE_BRANCH)]"

definition il_arith :: "(ut16 \<times> il_form) list" where
  "il_arith = [
    (0x46, Plain ''ldind.i1''), (0x47, Plain ''ldind.u1''), (0x48, Plain ''ldind.i2''), (0x49, Plain ''ldind.u2''), (0x4a, Plain ''ldind.i4''),
    (0x4b, Plain ''ldind.u4''), (0x4c, Plain ''ldind.i8''), (0x4d, Plain ''ldind.i''), (0x4e, Plain ''ldind.r4''), (0x4f, Plain ''ldind.r8''),
    (0x50, Plain ''ldind.ref''), (0x51, Plain ''stind.ref''), (0x52, Plain ''stind.i1''), (0x53, Plain ''stind.i2''), (0x54, Plain ''stind.i4''),
    (0x55, Plain ''stind.i8''), (0x56, Plain ''stind.r4''), (0x57, Plain ''stind.r8''), (0x58, Plain ''add''), (0x59, Plain ''sub''),
    (0x5a, Plain ''mul''), (0x5b, Plain ''div''), (0x5c, Plain ''div.un''), (0x5d, Plain ''rem''), (0x5e, Plain ''rem.un''), (0x5f, Plain ''and''),
    (0x60, Plain ''or''), (0x61, Plain ''xor''), (0x62, Plain ''shl''), (0x63, Plain ''shr''), (0x64, Plain ''shr.un''), (0x65, Plain ''neg''),
    (0x66, Plain ''not''), (0x67, Plain ''conv.i1''), (0x68, Plain ''conv.i2''), (0x69, Plain ''conv.i4''), (0x6a, Plain ''conv.i8''),
    (0x6b, Plain ''conv.r4''), (0x6c, Plain ''conv.r8''), (0x6d, Plain ''conv.u4''), (0x6e, Plain ''conv.u8''), (0x6f, Tok ''callvirt''),
    (0x70, Tok ''cpobj''), (0x71, Tok ''ldobj''), (0x72, Tok ''ldstr''), (0x73, Tok ''newobj'')]"

definition il_object :: "(ut16 \<times> il_form) list" where
  "il_object = [
    (0x74, Tok ''castclass''), (0x75, Tok ''isinst''), (0x76, Plain ''conv.r.un''), (0x79, Tok ''unbox''), (0x7a, Plain ''throw''),
    (0x7b, Tok ''ldfld''), (0x7c, Tok ''ldflda''), (0x7d, Tok ''stfld''), (0x7e, Tok ''ldsfld''), (0x7f, Tok ''ldsflda''), (0x80, Tok ''stsfld''),
    (0x81, Tok ''stobj''), (0x82, Plain ''conv.ovf.i1.un''), (0x83, Plain ''conv.ovf.i2.un''), (0x84, Plain ''conv.ovf.i4.un''),
    (0x85, Plain ''conv.ovf.i8.un''), (0x86, Plain ''conv.ovf.u1.un''), (0x87, Plain ''conv.ovf.u2.un''), (0x88, Plain ''conv.ovf.u4.un''),
    (0x89, Plain ''conv.ovf.u8.un''), (0x8a, Plain ''conv.ovf.i.un''), (0x8b, Plain ''conv.ovf.u.un''), (0x8c, Tok ''box''), (0x8d, Tok ''newarr''),
    (0x8e, Plain ''ldlen''), (0x8f, Tok ''ldelema''), (0x90, Plain ''ldelem.i1''), (0x91, Plain ''ldelem.u1''), (0x92, Plain ''ldelem.i2''),
    (0x93, Plain ''ldelem.u2''), (0x94, Plain ''ldelem.i4''), (0x95, Plain ''ldelem.u4''), (0x96, Plain ''ldelem.i1''), (0x97, Plain ''ldelem.i''),
    (0x98, Plain ''ldelem.r4''), (0x99, Plain ''ldelem.r8''), (0x9a, Plain ''ldelem.ref''), (0x9b, Plain ''stelem.i''), (0x9c, Plain ''stelem.i1''),
    (0x9d, Plain ''stelem.i2''), (0x9e, Plain ''stelem.i4'')]"

definition il_overflow :: "(ut16 \<times> il_form) list" where
  "il_overflow = [
    (0x9f, Plain ''stelem.i8''), (0xa0, Plain ''stelem.r4''), (0xa1, Plain ''stelem.r8''), (0xa2, Plain ''stelem.ref''), (0xa3, Tok ''ldelem''),
    (0xa4, Tok ''stelem''), (0xa5, Tok ''unbox.any''), (0xb3, Plain ''conv.ovf.i1''), (0xb4, Plain ''conv.ovf.u1''), (0xb5, Plain ''conv.ovf.i2''),
    (0xb6, Plain ''conv.ovf.u2''), (0xb7, Plain ''conv.ovf.i4''), (0xb8, Plain ''conv.ovf.u4''), (0xb9, Plain ''conv.ovf.i8''),
    (0xba, Plain ''conv.ovf.u8''), (0xc2, Tok ''refanyval''), (0xc3, Plain ''ckfinite''), (0xc6, Tok ''mkrefany''), (0xd0, Tok ''ldtoken''),
    (0xd1, Plain ''conv.u2''), (0xd2, Plain ''conv.u1''), (0xd3, Plain ''conv.i''), (0xd4, Plain ''conv.ovf.i''), (0xd5, Plain ''conv.ovf.u''),
    (0xd6, Plain ''add.ovf''), (0xd7, Plain ''add.ovf.un''), (0xd8, Plain ''mul.ovf''), (0xd9, Plain ''mul.ovf.un''), (0xda, Plain ''sub.ovf''),
    (0xdb, Plain ''sub.ovf.un''), (0xdc, Plain ''endfinally''), (0xdd, Num ''leave'' 4 NUMBER_TYPE_BRANCH),
    (0xde, Num ''leave.s'' 1 NUMBER_TYPE_SMALL_BRANCH), (0xdf, Plain ''stind.i''), (0xe0, Plain ''conv.u'')]"

definition il_two :: "(ut16 \<times> il_form) list" where
  "il_two = [
    (0xfe, Plain ''arglist''), (0x1fe, Plain ''ceq''), (0x2fe, Plain ''cgt''), (0x3fe, Plain ''cgt.un''), (0x4fe, Plain ''clt''),
    (0x5fe, Plain ''clt.un''), (0x6fe, Tok ''ldftn''), (0x7fe, Tok ''ldvirtftn''), (0x9fe, Num ''ldarg'' 2 NUMBER_TYPE_USHORT),
    (0xafe, Num ''ldarga'' 2 NUMBER_TYPE_USHORT), (0xbfe, Num ''starg'' 2 NUMBER_TYPE_USHORT), (0xcfe, Num ''ldloc'' 2 NUMBER_TYPE_USHORT),
    (0xdfe, Num ''ldloca'' 2 NUMBER_TYPE_USHORT), (0xefe, Num ''stloc'' 2 NUMBER_TYPE_USHORT), (0xffe, Plain ''localloc''),
    (0x11fe, Plain ''endfilter''), (0x15fe, Tok ''initobj''), (0x17fe, Plain ''cpblk''), (0x18fe, Plain ''initblk''), (0x1afe, Plain ''rethrow''),
    (0x1cfe, Tok ''sizeof''), (0x1dfe, Plain ''refanytype.v2'')]"

definition il_one :: "(ut16 \<times> il_form) list" where
  "il_one = il_load @ il_branch @ il_branch_un @ il_arith @ il_object @ il_overflow"

definition ILOPCODE_SWITCH :: ut16 where "ILOPCODE_SWITCH = 0x45"

definition il_finish :: "nat \<Rightarrow> ILOPCODE_STRUCT \<Rightarrow> (ILOPCODE_STRUCT \<times> bool) option" where
  "il_finish p il = Some (il\<lparr>il_size := word_of_nat (p div 8)\<rparr>, True)"

definition il_form_exec ::
  "(string \<Rightarrow> string) \<Rightarrow> u8 list \<Rightarrow> ut32 \<Rightarrow> ut32 \<Rightarrow> il_form option \<Rightarrow> nat \<Rightarrow> ILOPCODE_STRUCT \<Rightarrow> (ILOPCODE_STRUCT \<times> bool) option" where
  "il_form_exec ov mem ms base f p il =
     (case f of
        None \<Rightarrow> Some (il, False)
      | Some (Plain i) \<Rightarrow> il_finish p (demsil_addi ov i il)
      | Some (Tok i) \<Rightarrow> demsil_get mem ms p 4 il (\<lambda>t. il_finish (p + 4) (demsil_addiT ov i t il))
      | Some (Num i k nt) \<Rightarrow>
          (let il' = demsil_addi ov i il
           in demsil_get mem ms p k il' (\<lambda>n. il_finish (p + k) (demsil_add_number ov base nt n il'))))"

definition il_switch :: "(string \<Rightarrow> string) \<Rightarrow> u8 list \<Rightarrow> ut32 \<Rightarrow> nat \<Rightarrow> ILOPCODE_STRUCT \<Rightarrow> (ILOPCODE_STRUCT \<times> bool) option" where
  "il_switch ov mem ms p il =
     demsil_get mem ms p 4 il (\<lambda>n.
       let k = unat (ucast n + 1 :: ut32) * 4
       in if unat (rem_size ms p) < k then Some (il, False) else il_finish (p + k) (demsil_addi ov ''switch'' il))"

definition il_prefix ::
  "(string \<Rightarrow> string) \<Rightarrow> u8 list \<Rightarrow> ut32 \<Rightarrow> ut32 \<Rightarrow> ut16 \<Rightarrow> ILOPCODE_STRUCT \<Rightarrow> (nat \<Rightarrow> ILOPCODE_STRUCT \<Rightarrow> (ILOPCODE_STRUCT \<times> bool) option) \<Rightarrow>
     (ILOPCODE_STRUCT \<times> bool) option" where
  "il_prefix ov mem ms base w il rest =
     (if w = 0x16FE then demsil_get mem ms 2 4 il (\<lambda>t. rest 6 (demsil_addiT ov ''costrained'' t il))
      else if w = 0x12FE \<or> w = 0x19FE then
        demsil_get mem ms 2 1 il (\<lambda>n. rest 3 (demsil_add_number ov base NUMBER_TYPE_UCHAR n (demsil_addi ov ''unaligned'' il)))
      else if w = 0x14FE then rest 2 (demsil_addi ov ''tail.'' il)
      else if w = 0x13FE then rest 2 (demsil_addi ov ''volatile.'' il)
      else if w = 0x1EFE then rest 2 (demsil_addi ov ''readonly.'' il)
      else rest 0 il)"

definition GetSingleMSILInstr ::
  "(string \<Rightarrow> string) \<Rightarrow> u8 list \<Rightarrow> ut32 \<Rightarrow> ut32 \<Rightarrow> ILOPCODE_STRUCT \<Rightarrow> (ILOPCODE_STRUCT \<times> bool) option" where
  "GetSingleMSILInstr ov mem ms base il0 =
     (if ms = 0 then Some (il0, False)
      else
        (let il = il0\<lparr>il_offset := base, il_mnemonic := []\<rparr>
         in demsil_get mem ms 0 1 il (\<lambda>c.
              if c \<le> 0xE0 then
                (if ucast c = ILOPCODE_SWITCH then il_switch ov mem ms 1 il
                 else il_form_exec ov mem ms base (map_of il_one (ucast c)) 1 il)
              else
                demsil_get mem ms 0 2 il (\<lambda>w.
                il_prefix ov mem ms base (ucast w) il (\<lambda>p il'.
                demsil_get mem ms p 2 il' (\<lambda>w'.
                il_form_exec ov mem ms base (map_of il_two (ucast w')) (p + 2) il'))))))"

section \<open>The sequence and the analyser\<close>

fun disas_loop ::
  "(string \<Rightarrow> string) \<Rightarrow> u8 list \<Rightarrow> ut32 \<Rightarrow> ut32 \<Rightarrow> nat \<Rightarrow> nat \<Rightarrow> ILOPCODE_STRUCT list \<Rightarrow> ut32 option \<Rightarrow>
     (ILOPCODE_STRUCT list \<times> ut32 option \<times> int) option" where
  "disas_loop ov mem ms base x 0 arr nd = Some (arr, nd, 1)"
| "disas_loop ov mem ms base x (Suc k) arr nd =
     (if length arr \<le> x then None
      else
        (case GetSingleMSILInstr ov mem ms base (arr ! x) of
           None \<Rightarrow> None
         | Some (il, False) \<Rightarrow> Some (arr[x := il], nd, if x = 0 then 0 else 1)
         | Some (il, True) \<Rightarrow>
             disas_loop ov (drop (unat (il_size il)) mem) (ms - il_size il) (base + il_size il) (Suc x) k (arr[x := il])
               (map_option (\<lambda>_. word_of_nat (x + 1)) nd)))"

definition DisasMSIL ::
  "(string \<Rightarrow> string) \<Rightarrow> u8 list \<Rightarrow> ut32 \<Rightarrow> ut32 \<Rightarrow> ILOPCODE_STRUCT list option \<Rightarrow> ut32 \<Rightarrow> ut32 option \<Rightarrow>
     (ILOPCODE_STRUCT list option \<times> ut32 option \<times> int) option" where
  "DisasMSIL ov mem ms base arr nops nd =
     (case arr of
        None \<Rightarrow> Some (None, nd, 0)
      | Some a \<Rightarrow>
          if ms = 0 \<or> nops = 0 then Some (Some a, nd, 0)
          else map_option (\<lambda>(a', nd', r). (Some a', nd', r)) (disas_loop ov mem ms base 0 (unat nops) a (map_option (\<lambda>_. 0) nd)))"

text \<open>\<open>ilopar\<close> and \<open>n\<close> are the eight structs and the counter on the stack, which are not initialised.\<close>

definition arch_msil_aop :: "(string \<Rightarrow> string) \<Rightarrow> ILOPCODE_STRUCT list \<Rightarrow> ut32 \<Rightarrow> 'w aop_fun" where
  "arch_msil_aop ov ilopar n a b aop0 s =
     (case DisasMSIL ov b 16 (ucast a) (Some ilopar) 8 (Some n) of
        Some (Some (il # _), _) \<Rightarrow> Some (s, aop_unk\<lparr>a_length := sint (il_size il)\<rparr>, sint (il_size il))
      | _ \<Rightarrow> None)"

section \<open>The names of the header\<close>

definition il_codes_1 :: "(string \<times> ut16) list" where
  "il_codes_1 = [
    (''NOP'', 0x00), (''BREAK'', 0x01), (''LDARG_0'', 0x02), (''LDARG_1'', 0x03), (''LDARG_2'', 0x04), (''LDARG_3'', 0x05), (''LDLOC_0'', 0x06),
    (''LDLOC_1'', 0x07), (''LDLOC_2'', 0x08), (''LDLOC_3'', 0x09), (''STLOC_0'', 0x0a), (''STLOC_1'', 0x0b), (''STLOC_2'', 0x0c), (''STLOC_3'', 0x0d),
    (''LDARG_S'', 0x0e), (''LDARGA_S'', 0x0f), (''STARG_S'', 0x10), (''LDLOC_S'', 0x11), (''LDLOCA_S'', 0x12), (''STLOC_S'', 0x13), (''LDNULL'', 0x14),
    (''LDC_I4_M1'', 0x15), (''LDC_I4_0'', 0x16), (''LDC_I4_1'', 0x17), (''LDC_I4_2'', 0x18), (''LDC_I4_3'', 0x19), (''LDC_I4_4'', 0x1a),
    (''LDC_I4_5'', 0x1b), (''LDC_I4_6'', 0x1c), (''LDC_I4_7'', 0x1d), (''LDC_I4_8'', 0x1e), (''LDC_I4_S'', 0x1f), (''LDC_I4'', 0x20),
    (''LDC_I8'', 0x21), (''LDC_R4'', 0x22), (''LDC_R8'', 0x23), (''DUP'', 0x25), (''POP'', 0x26), (''JMP'', 0x27), (''CALL'', 0x28), (''CALLI'', 0x29),
    (''RET'', 0x2a), (''BR_S'', 0x2b), (''BRFALSE_S'', 0x2c), (''BRTRUE_S'', 0x2d), (''BEQ_S'', 0x2e), (''BGE_S'', 0x2f), (''BGT_S'', 0x30),
    (''BLE_S'', 0x31), (''BLT_S'', 0x32), (''BNE_UN_S'', 0x33), (''BGE_UN_S'', 0x34), (''BGT_UN_S'', 0x35), (''BLE_UN_S'', 0x36), (''BLT_UN_S'', 0x37),
    (''BR'', 0x38), (''BRFALSE'', 0x39), (''BRTRUE'', 0x3a), (''BEQ'', 0x3b), (''BGE'', 0x3c), (''BGT'', 0x3d), (''BLE'', 0x3e), (''BLT'', 0x3f),
    (''BNE_UN'', 0x40), (''BGE_UN'', 0x41), (''BGT_UN'', 0x42), (''BLE_UN'', 0x43), (''BLT_UN'', 0x44), (''SWITCH'', 0x45), (''LDIND_I1'', 0x46),
    (''LDIND_U1'', 0x47), (''LDIND_I2'', 0x48), (''LDIND_U2'', 0x49), (''LDIND_I4'', 0x4a), (''LDIND_U4'', 0x4b), (''LDIND_I8'', 0x4c),
    (''LDIND_I'', 0x4d), (''LDIND_R4'', 0x4e), (''LDIND_R8'', 0x4f), (''LDIND_REF'', 0x50), (''STIND_REF'', 0x51), (''STIND_I1'', 0x52),
    (''STIND_I2'', 0x53), (''STIND_I4'', 0x54), (''STIND_I8'', 0x55), (''STIND_R4'', 0x56), (''STIND_R8'', 0x57), (''ADD'', 0x58), (''SUB'', 0x59),
    (''MUL'', 0x5a), (''DIV'', 0x5b), (''DIV_UN'', 0x5c), (''REM'', 0x5d), (''REM_UN'', 0x5e), (''AND'', 0x5f), (''OR'', 0x60), (''XOR'', 0x61),
    (''SHL'', 0x62), (''SHR'', 0x63), (''SHR_UN'', 0x64), (''NEG'', 0x65), (''NOT'', 0x66), (''CONV_I1'', 0x67), (''CONV_I2'', 0x68),
    (''CONV_I4'', 0x69), (''CONV_I8'', 0x6a), (''CONV_R4'', 0x6b), (''CONV_R8'', 0x6c), (''CONV_U4'', 0x6d), (''CONV_U8'', 0x6e), (''CALLVIRT'', 0x6f),
    (''CPOBJ'', 0x70), (''LDOBJ'', 0x71), (''LDSTR'', 0x72), (''NEWOBJ'', 0x73), (''CASTCLASS'', 0x74), (''ISINST'', 0x75), (''CONV_R_UN'', 0x76),
    (''UNBOX'', 0x79), (''THROW'', 0x7a), (''LDFLD'', 0x7b), (''LDFLDA'', 0x7c), (''STFLD'', 0x7d), (''LDSFLD'', 0x7e), (''LDSFLDA'', 0x7f),
    (''STSFLD'', 0x80)]"

definition il_codes_2 :: "(string \<times> ut16) list" where
  "il_codes_2 = [
    (''STOBJ'', 0x81), (''CONV_OVF_I1_UN'', 0x82), (''CONV_OVF_I2_UN'', 0x83), (''CONV_OVF_I4_UN'', 0x84), (''CONV_OVF_I8_UN'', 0x85),
    (''CONV_OVF_U1_UN'', 0x86), (''CONV_OVF_U2_UN'', 0x87), (''CONV_OVF_U4_UN'', 0x88), (''CONV_OVF_U8_UN'', 0x89), (''CONV_OVF_I_UN'', 0x8a),
    (''CONV_OVF_U_UN'', 0x8b), (''BOX'', 0x8c), (''NEWARR'', 0x8d), (''LDLEN'', 0x8e), (''LDELEMA'', 0x8f), (''LDELEM_I1'', 0x90),
    (''LDELEM_U1'', 0x91), (''LDELEM_I2'', 0x92), (''LDELEM_U2'', 0x93), (''LDELEM_I4'', 0x94), (''LDELEM_U4'', 0x95), (''LDELEM_I8'', 0x96),
    (''LDELEM_I'', 0x97), (''LDELEM_R4'', 0x98), (''LDELEM_R8'', 0x99), (''LDELEM_REF'', 0x9a), (''STELEM_I'', 0x9b), (''STELEM_I1'', 0x9c),
    (''STELEM_I2'', 0x9d), (''STELEM_I4'', 0x9e), (''STELEM_I8'', 0x9f), (''STELEM_R4'', 0xa0), (''STELEM_R8'', 0xa1), (''STELEM_REF'', 0xa2),
    (''LDELEM'', 0xa3), (''STELEM'', 0xa4), (''UNBOX_ANY'', 0xa5), (''CONV_OVF_I1'', 0xb3), (''CONV_OVF_U1'', 0xb4), (''CONV_OVF_I2'', 0xb5),
    (''CONV_OVF_U2'', 0xb6), (''CONV_OVF_I4'', 0xb7), (''CONV_OVF_U4'', 0xb8), (''CONV_OVF_I8'', 0xb9), (''CONV_OVF_U8'', 0xba), (''REFANYVAL'', 0xc2),
    (''CKFINITE'', 0xc3), (''MKREFANY'', 0xc6), (''LDTOKEN'', 0xd0), (''CONV_U2'', 0xd1), (''CONV_U1'', 0xd2), (''CONV_I'', 0xd3),
    (''CONV_OVF_I'', 0xd4), (''CONV_OVF_U'', 0xd5), (''ADD_OVF'', 0xd6), (''ADD_OVF_UN'', 0xd7), (''MUL_OVF'', 0xd8), (''MUL_OVF_UN'', 0xd9),
    (''SUB_OVF'', 0xda), (''SUB_OVF_UN'', 0xdb), (''ENDFINALLY'', 0xdc), (''LEAVE'', 0xdd), (''LEAVE_S'', 0xde), (''STIND_I'', 0xdf),
    (''CONV_U'', 0xe0), (''ARGLIST'', 0xfe), (''CEQ'', 0x1fe), (''CGT'', 0x2fe), (''CGT_UN'', 0x3fe), (''CLT'', 0x4fe), (''CLT_UN'', 0x5fe),
    (''LDFTN'', 0x6fe), (''LDVIRTFTN'', 0x7fe), (''LDARG'', 0x9fe), (''LDARGA'', 0xafe), (''STARG'', 0xbfe), (''LDLOC'', 0xcfe), (''LDLOCA'', 0xdfe),
    (''STLOC'', 0xefe), (''LOCALLOC'', 0xffe), (''ENDFILTER'', 0x11fe), (''UNALIGNED_'', 0x12fe), (''VOLATILE_'', 0x13fe), (''TAIL_'', 0x14fe),
    (''INITOBJ'', 0x15fe), (''CONSTRAINED_'', 0x16fe), (''CPBLK'', 0x17fe), (''INITBLK'', 0x18fe), (''NO_'', 0x19fe)]"

definition il_codes_3 :: "(string \<times> ut16) list" where
  "il_codes_3 = [
    (''RETHROW'', 0x1afe), (''SIZEOF'', 0x1cfe), (''REFANYTYPE_V2'', 0x1dfe), (''READONLY_'', 0x1efe)]"

definition il_codes :: "(string \<times> ut16) list" where
  "il_codes = il_codes_1 @ il_codes_2 @ il_codes_3"

section \<open>Bounds\<close>

text \<open>A result with an instruction that fits in the bytes left.\<close>

definition fits :: "ut32 \<Rightarrow> (ILOPCODE_STRUCT \<times> bool) option \<Rightarrow> bool" where
  "fits ms r \<longleftrightarrow> (\<exists>il ok. r = Some (il, ok) \<and> (ok \<longrightarrow> unat (il_size il) \<le> unat ms))"

lemma rem_size_unat: "p div 8 \<le> unat ms \<Longrightarrow> unat (rem_size ms p) = unat ms - p div 8"
proof -
  assume p: "p div 8 \<le> unat ms"
  then have "p div 8 < 2 ^ 32" using unsigned_less [of ms, where ?'a = nat] by simp
  then have "unat (word_of_nat (p div 8) :: ut32) = p div 8" by (simp add: unat_of_nat)
  then show ?thesis using p by (simp add: rem_size_def unat_sub word_le_nat_alt)
qed

lemma get_fits:
  assumes "unat ms + 7 \<le> length mem" and "0 < unat ms" and "p \<le> 8" and "\<And>n. k \<le> unat ms \<Longrightarrow> fits ms (rest n)"
  shows "fits ms (demsil_get mem ms p k il rest)"
proof -
  have "p div 8 \<le> 1" "p \<le> 7 + p div 8" using assms(3) by presburger+
  then show ?thesis using assms rem_size_unat [of p ms] by (auto simp: demsil_get_def fits_def)
qed

lemma finish_fits: "p div 8 \<le> unat ms \<Longrightarrow> fits ms (il_finish p il)"
  using unsigned_less [of ms] by (auto simp: fits_def il_finish_def unat_of_nat intro: order_trans [OF mod_less_eq_dividend])

lemma form_fits:
  assumes "unat ms + 7 \<le> length mem" and "0 < unat ms" and "p \<le> 8" and "\<And>i k nt. f = Some (Num i k nt) \<Longrightarrow> p + k < 16"
  shows "fits ms (il_form_exec ov mem ms base f p il)"
proof (cases f)
  case None
  then show ?thesis by (auto simp: il_form_exec_def fits_def)
next
  case (Some g)
  have d: "q < 16 \<Longrightarrow> q div 8 \<le> unat ms" for q using assms(2) by linarith
  show ?thesis
    using Some assms d by (cases g) (auto simp: il_form_exec_def Let_def intro!: get_fits finish_fits)
qed

lemma switch_fits: "unat ms + 7 \<le> length mem \<Longrightarrow> 0 < unat ms \<Longrightarrow> fits ms (il_switch ov mem ms (Suc 0) il)"
  unfolding il_switch_def
proof (rule get_fits)
  fix n :: ut64
  assume z: "0 < unat ms"
  define k where "k = unat (ucast n + 1 :: ut32) * 4"
  have "k \<le> unat ms \<Longrightarrow> (Suc 0 + k) div 8 \<le> unat ms" using z by linarith
  then have "k \<le> unat ms \<Longrightarrow> fits ms (il_finish (Suc 0 + k) (demsil_addi ov ''switch'' il))" by (intro finish_fits)
  then show "fits ms (let k = unat (ucast n + 1 :: ut32) * 4
      in if unat (rem_size ms (Suc 0)) < k then Some (il, False) else il_finish (Suc 0 + k) (demsil_addi ov ''switch'' il))"
    using rem_size_unat [of "Suc 0" ms] by (auto simp: Let_def k_def [symmetric] fits_def)
qed simp_all

text \<open>The numbers of the tables have at most eight bytes, and four behind the codes of two bytes.\<close>

fun form_bytes :: "il_form \<Rightarrow> nat" where
  "form_bytes (Plain i) = 0"
| "form_bytes (Tok i) = 4"
| "form_bytes (Num i k nt) = k"

fun form_name :: "il_form \<Rightarrow> string" where
  "form_name (Plain i) = i"
| "form_name (Tok i) = i"
| "form_name (Num i k nt) = i"

lemma one_tables:
  "list_all (\<lambda>(c, f). form_name f \<noteq> [] \<and> form_bytes f \<le> 8 \<and> c \<le> 0xE0 \<and> c \<noteq> ILOPCODE_SWITCH) il_load"
  "list_all (\<lambda>(c, f). form_name f \<noteq> [] \<and> form_bytes f \<le> 8 \<and> c \<le> 0xE0 \<and> c \<noteq> ILOPCODE_SWITCH) il_branch"
  "list_all (\<lambda>(c, f). form_name f \<noteq> [] \<and> form_bytes f \<le> 8 \<and> c \<le> 0xE0 \<and> c \<noteq> ILOPCODE_SWITCH) il_branch_un"
  "list_all (\<lambda>(c, f). form_name f \<noteq> [] \<and> form_bytes f \<le> 8 \<and> c \<le> 0xE0 \<and> c \<noteq> ILOPCODE_SWITCH) il_arith"
  "list_all (\<lambda>(c, f). form_name f \<noteq> [] \<and> form_bytes f \<le> 8 \<and> c \<le> 0xE0 \<and> c \<noteq> ILOPCODE_SWITCH) il_object"
  "list_all (\<lambda>(c, f). form_name f \<noteq> [] \<and> form_bytes f \<le> 8 \<and> c \<le> 0xE0 \<and> c \<noteq> ILOPCODE_SWITCH) il_overflow"
  by (simp_all add: ILOPCODE_SWITCH_def il_load_def il_branch_def il_branch_un_def il_arith_def il_object_def il_overflow_def)

lemma one_table: "list_all (\<lambda>(c, f). form_name f \<noteq> [] \<and> form_bytes f \<le> 8 \<and> c \<le> 0xE0 \<and> c \<noteq> ILOPCODE_SWITCH) il_one"
  by (simp only: il_one_def list_all_append one_tables)

lemma two_table: "list_all (\<lambda>(c, f). form_bytes f \<le> 4 \<and> c AND 0xFF = 0xFE) il_two"
  by (simp add: il_two_def)

lemma table_lookup: "map_of t c = Some f \<Longrightarrow> list_all (\<lambda>(c, f). P c f) t \<Longrightarrow> P c f"
  by (auto dest: map_of_SomeD simp: list_all_iff)

lemmas one_lookup = table_lookup [OF _ one_table]
lemmas two_lookup = table_lookup [OF _ two_table]

lemma prefix_fits:
  assumes "unat ms + 7 \<le> length mem" and "0 < unat ms" and "\<And>p il. p \<le> 6 \<Longrightarrow> fits ms (rest p il)"
  shows "fits ms (il_prefix ov mem ms base w il rest)"
  using assms by (auto simp: il_prefix_def intro!: get_fits)

lemma single_fits:
  assumes "unat ms + 7 \<le> length mem"
  shows "fits ms (GetSingleMSILInstr ov mem ms base il)"
proof (cases "ms = 0")
  case True
  then show ?thesis by (auto simp: GetSingleMSILInstr_def fits_def)
next
  case False
  then have z: "0 < unat ms" by (simp add: unat_gt_0)
  have one: "p = 1 \<Longrightarrow> fits ms (il_form_exec ov mem ms base (map_of il_one c) p il)" for p c il
    by (rule form_fits [OF assms z]) (auto dest: one_lookup)
  have two: "p \<le> 6 \<Longrightarrow> fits ms (il_form_exec ov mem ms base (map_of il_two c) (Suc (Suc p)) il)" for p c il
    by (rule form_fits [OF assms z]) (auto dest: two_lookup)
  show ?thesis
    using False by (auto simp: GetSingleMSILInstr_def Let_def intro!: get_fits prefix_fits one two switch_fits assms z)
qed

lemma loop_fits:
  "unat ms + 7 \<le> length mem \<Longrightarrow> x + k \<le> length arr \<Longrightarrow>
    \<exists>arr' nd' r. disas_loop ov mem ms base x k arr nd = Some (arr', nd', r) \<and> length arr' = length arr"
proof (induction k arbitrary: mem ms base x arr nd)
  case (Suc k)
  obtain il ok where r: "GetSingleMSILInstr ov mem ms base (arr ! x) = Some (il, ok)" and l: "ok \<longrightarrow> unat (il_size il) \<le> unat ms"
    using single_fits [OF Suc.prems(1), of ov base "arr ! x"] unfolding fits_def by blast
  show ?case
  proof (cases ok)
    case True
    then have "unat (ms - il_size il) + 7 \<le> length (drop (unat (il_size il)) mem)"
      using l Suc.prems(1) by (simp add: unat_sub word_le_nat_alt)
    from Suc.IH [OF this, of "Suc x" "arr[x := il]"] Suc.prems(2) show ?thesis using r True by simp
  next
    case False
    then show ?thesis using r Suc.prems(2) by simp
  qed
qed simp

text \<open>
  C35 The disassembler, however its bytes are chosen, never reads more than seven bytes behind the size it is given: it returns for every
  memory of that many bytes more, every base, text and array, and the analyser for the 23 bytes its constant of 16 needs.
\<close>

theorem msil_reads_bounded:
  assumes "unat ms + 7 \<le> length mem" and "unat nops \<le> length arr" and "23 \<le> length b" and "length ilopar = 8"
  shows "(\<exists>il ok. GetSingleMSILInstr ov mem ms base il0 = Some (il, ok)) \<and>
    (\<exists>r. DisasMSIL ov mem ms base (Some arr) nops nd = Some r) \<and>
    (\<exists>aop l. arch_msil_aop ov ilopar n a b aop0 s = Some (s, aop, l))"
proof -
  have 1: "\<exists>il ok. GetSingleMSILInstr ov mem ms base il0 = Some (il, ok)"
    using single_fits [OF assms(1), of ov base il0] unfolding fits_def by blast
  have D: "\<exists>a' nd' r. DisasMSIL ov mem ms base (Some arr) nops nd = Some (Some a', nd', r) \<and> length a' = length arr"
    if "unat ms + 7 \<le> length mem" "unat nops \<le> length arr" for mem ms base arr nops nd
    using loop_fits [of ms mem 0 "unat nops" arr ov base "map_option (\<lambda>_. 0) nd"] that by (auto simp: DisasMSIL_def)
  have 2: "\<exists>r. DisasMSIL ov mem ms base (Some arr) nops nd = Some r" using D [OF assms(1,2)] by blast
  obtain a' nd' r where "DisasMSIL ov b 16 (ucast a) (Some ilopar) 8 (Some n) = Some (Some a', nd', r)" "length a' = 8"
    using D [of 16 b 8 ilopar "ucast a" "Some n"] assms(3,4) by auto
  then have "\<exists>aop l. arch_msil_aop ov ilopar n a b aop0 s = Some (s, aop, l)"
    by (cases a') (auto simp: arch_msil_aop_def)
  with 1 2 show ?thesis by blast
qed

theorem msil_reads_bounded_witness:
  "\<exists>il ok. GetSingleMSILInstr id (0x21 # replicate 14 1) 8 0 \<lparr>il_offset = 0, il_size = 0, il_mnemonic = []\<rparr> = Some (il, ok)"
proof -
  let ?z = "\<lparr>il_offset = 0, il_size = 0, il_mnemonic = []\<rparr>"
  have "unat (8 :: ut32) + 7 \<le> length ((0x21 :: u8) # replicate 14 1)" "unat (0 :: ut32) \<le> length [?z]"
    "23 \<le> length (replicate 23 (0 :: u8))" "length (replicate 8 ?z) = 8" by simp_all
  from msil_reads_bounded [OF this, of id 0 ?z] show ?thesis by blast
qed

text \<open>Seven are needed: a constrained prefix and the token behind it are read to the byte 12 where the size is 5.\<close>

lemma msil_reads_seven:
  "GetSingleMSILInstr id [0xFE, 0x16, 1, 2, 3, 4, 0xFE, 0x15, 1, 2, 3] 5 0 \<lparr>il_offset = 0, il_size = 0, il_mnemonic = []\<rparr> = None"
  by code_simp

section \<open>The cases against the header\<close>

text \<open>The codes of the header that no case of the tables decodes: the prefixes, the switch and four branches. Both sides are in ascending order.\<close>

fun codes_missing :: "(string \<times> ut16) list \<Rightarrow> ut16 list \<Rightarrow> string list" where
  "codes_missing [] ks = []"
| "codes_missing ((i, c) # cs) [] = i # codes_missing cs []"
| "codes_missing ((i, c) # cs) (k # ks) =
     (if c = k then codes_missing cs ks else if k < c then codes_missing ((i, c) # cs) ks else i # codes_missing cs (k # ks))"

lemma codes_missing_filter:
  "sorted_wrt (<) (map snd cs) \<Longrightarrow> sorted_wrt (<) ks \<Longrightarrow> codes_missing cs ks = map fst (filter (\<lambda>(i, c). c \<notin> set ks) cs)"
proof (induction cs ks rule: codes_missing.induct)
  case (3 i c cs k ks)
  consider "c = k" | "k < c" | "c < k" by (meson linorder_neqE)
  then show ?case
  proof cases
    case 1
    then have "filter (\<lambda>(i, c). c \<notin> set (k # ks)) cs = filter (\<lambda>(i, c). c \<notin> set ks) cs"
      using 3(4) by (intro filter_cong) auto
    then show ?thesis using 1 3 by simp
  next
    case 2
    then have "filter (\<lambda>(i, c). c \<notin> set (k # ks)) ((i, c) # cs) = filter (\<lambda>(i, c). c \<notin> set ks) ((i, c) # cs)"
      using 3(4) by (intro filter_cong) auto
    then show ?thesis using 2 3(2) [OF _ 2 3(4)] 3(5) by auto
  next
    case less: 3
    then have "c \<notin> set (k # ks)" using 3(5) by auto
    then show ?thesis using less 3(3) [OF _ _ _ 3(5)] 3(4) by auto
  qed
qed auto

lemma ascending: "successively (<) (xs :: ut16 list) \<Longrightarrow> sorted_wrt (<) xs"
  by (simp add: successively_conv_sorted_wrt transp_def)

text \<open>The names of the cases, against the names of the header with dots for the underscores: one differs.\<close>

fun dot_char :: "char \<Rightarrow> char" where
  "dot_char (Char b0 b1 b2 b3 b4 b5 b6 b7) =
     (if b6 \<and> \<not> b5 \<and> b4 \<and> b3 \<and> b2 \<and> b1 \<and> b0 then CHR ''.'' else Char b0 b1 b2 b3 b4 (b5 \<or> b6) b6 b7)"

definition dotted :: "string \<Rightarrow> string" where
  "dotted = map dot_char"

lemma dotted_example: "dotted ''CONV_OVF_I4_UN'' = ''conv.ovf.i4.un''"
  by (simp add: dotted_def)




lemma il_sorted: "sorted_wrt (<) (map snd il_codes)" "sorted_wrt (<) (map fst (il_one @ il_two))"
  by (rule ascending, simp add: il_one_def il_two_def il_load_def il_branch_def il_branch_un_def il_arith_def il_object_def il_overflow_def
    il_codes_def il_codes_1_def il_codes_2_def il_codes_3_def)+


lemma msil_undecoded:
  "map fst (filter (\<lambda>(i, c). map_of il_one c = None \<and> map_of il_two c = None) il_codes) =
    [''BRFALSE_S'', ''BRTRUE_S'', ''BRFALSE'', ''BRTRUE'', ''SWITCH'', ''UNALIGNED_'', ''VOLATILE_'', ''TAIL_'', ''CONSTRAINED_'', ''NO_'', ''READONLY_'']"
proof -
  note tables = il_one_def il_two_def il_load_def il_branch_def il_branch_un_def il_arith_def il_object_def il_overflow_def
    il_codes_def il_codes_1_def il_codes_2_def il_codes_3_def
  from codes_missing_filter [OF il_sorted]
  have "codes_missing il_codes (map fst (il_one @ il_two)) = map fst (filter (\<lambda>(i, c). map_of il_one c = None \<and> map_of il_two c = None) il_codes)"
    by (simp add: map_of_eq_None_iff image_Un)
  moreover have "codes_missing il_codes (map fst (il_one @ il_two)) =
    [''BRFALSE_S'', ''BRTRUE_S'', ''BRFALSE'', ''BRTRUE'', ''SWITCH'', ''UNALIGNED_'', ''VOLATILE_'', ''TAIL_'', ''CONSTRAINED_'', ''NO_'', ''READONLY_'']"
    by (simp add: tables)
  ultimately show ?thesis by simp
qed

section \<open>Decoding\<close>


lemma get_in: "p div 8 + k \<le> unat ms \<Longrightarrow> p + k \<le> length mem \<Longrightarrow> demsil_get mem ms p k il rest = rest (le_value (take k (drop p mem)))"
  using rem_size_unat [of p ms] by (auto simp: demsil_get_def)








text \<open>Behind a prefix only the instructions of two bytes are decoded, for the first byte is not read again.\<close>

lemma prefix_one_byte_fails:
  assumes "d \<noteq> 0xFE" and "4 \<le> unat ms"
  shows "map_option snd (GetSingleMSILInstr ov (0xFE # 0x13 # d # e # bs) ms base il) = Some False"
proof -
  let ?mem = "0xFE # 0x13 # d # e # bs"
  let ?w = "ucast (le_value [d, e]) :: ut16"
  have n: "map_of il_two ?w = None"
  proof (rule ccontr)
    assume "map_of il_two ?w \<noteq> None"
    then have "?w AND 0xFF = 0xFE" using two_lookup [of ?w] by auto
    moreover have "?w AND 0xFF = ucast d"
    proof -
      have "(ucast d :: ut64) + push_bit 8 (ucast e) = ucast d OR push_bit 8 (ucast e)" by (rule disjunctive_add) (auto simp: bit_simps dest: bit_imp_le_length)
      then have "?w AND mask 8 = ucast d" by (intro bit_word_eqI) (auto simp: bit_simps dest: bit_imp_le_length)
      moreover have "(mask 8 :: ut16) = 0xFF" by (simp add: mask_eq_exp_minus_1)
      ultimately show ?thesis by simp
    qed
    ultimately have "unat (ucast d :: ut16) = unat (0xFE :: ut16)" by simp
    then have "unat d = unat (0xFE :: u8)" using unsigned_less [of d, where ?'a = nat] by (simp add: unsigned_ucast_eq take_bit_nat_eq_self)
    then have "d = 0xFE" by (rule unsigned_word_eqI)
    then show False using assms(1) by simp
  qed
  have m: "ms \<noteq> 0" using assms(2) by auto
  have v: "le_value [0xFE] = 0xFE" "le_value [0xFE, 0x13] = 0x13FE" by code_simp+
  have t: "take (Suc 0) (drop 0 ?mem) = [0xFE]" "take 2 (drop 0 ?mem) = [0xFE, 0x13]" "take 2 (drop 2 ?mem) = [d, e]" by (simp_all add: numeral_2_eq_2)
  have g: "demsil_get ?mem ms 0 (Suc 0) il rest = rest 0xFE" "demsil_get ?mem ms 0 2 il rest = rest 0x13FE" "demsil_get ?mem ms 2 2 il rest = rest (le_value [d, e])" for il rest
    using assms(2) get_in [of 0 "Suc 0" ms ?mem] get_in [of 0 2 ms ?mem] get_in [of 2 2 ms ?mem] unfolding t v by simp_all
  show ?thesis using m n by (simp add: GetSingleMSILInstr_def Let_def g il_prefix_def il_form_exec_def del: le_value.simps)
qed

end
