(* ===== verification/Mcs51.thy ===== *)
theory Mcs51
  imports Aop
begin

text \<open>
  The disassembler of the 8051 (\<^verbatim>\<open>src/src/arch/8051\<close>): the tables (\<^verbatim>\<open>global.c\<close>), the pass that follows the flow (\<^verbatim>\<open>pass1.c\<close>),
  the pass that prints (\<^verbatim>\<open>pass2.c\<close>), and the analyser and the entry of the disassembly (\<^verbatim>\<open>code.c\<close>). The memory is the list of the
  bytes that can be read from the pointer; \<open>None\<close> is a read behind them. Messages on the error stream are left out.
\<close>

section \<open>Tables\<close>

definition mnemonic_0 :: "string list" where
  "mnemonic_0 = [
    ''nop'', ''ajmp %s'', ''ljmp %s'', ''rr A'', ''inc A'', ''inc %s'', ''inc @R0'', ''inc @R1'', ''inc R0'', ''inc R1'', ''inc R2'', ''inc R3'',
    ''inc R4'', ''inc R5'', ''inc R6'', ''inc R7'', ''jbc %s, %s'', ''acall %s'', ''lcall %s'', ''rrc A'', ''dec A'', ''dec %s'', ''dec @R0'',
    ''dec @R1'', ''dec R0'', ''dec R1'', ''dec R2'', ''dec R3'', ''dec R4'', ''dec R5'', ''dec R6'', ''dec R7'', ''jb %s, %s'', ''ajmp %s'', ''ret'',
    ''rl A'', ''add A, #%s'', ''add A, %s'', ''add A, @R0'', ''add A, @R1'', ''add A, R0'', ''add A, R1'', ''add A, R2'', ''add A, R3'', ''add A, R4'',
    ''add A, R5'', ''add A, R6'', ''add A, R7'', ''jnb %s, %s'', ''acall %s'', ''reti'' @ nl, ''rlc A'', ''addc A, #%s'', ''addc A, %s'',
    ''addc A, @R0'', ''addc A, @R1'', ''addc A, R0'', ''addc A, R1'', ''addc A, R2'', ''addc A, R3'', ''addc A, R4'', ''addc A, R5'', ''addc A, R6'',
    ''addc A, R7'', ''jc %s'', ''ajmp %s'', ''orl %s, A'', ''orl %s, #%s'', ''orl A, #%s'', ''orl A, %s'', ''orl A, @R0'', ''orl A, @R1'',
    ''orl A, R0'', ''orl A, R1'', ''orl A, R2'', ''orl A, R3'', ''orl A, R4'', ''orl A, R5'', ''orl A, R6'', ''orl A, R7'', ''jnc %s'', ''acall %s'',
    ''anl %s, A'', ''anl %s, #%s'', ''anl A, #%s'', ''anl A, %s'', ''anl A, @R0'', ''anl A, @R1'', ''anl A, R0'', ''anl A, R1'', ''anl A, R2'',
    ''anl A, R3'', ''anl A, R4'', ''anl A, R5'', ''anl A, R6'', ''anl A, R7'', ''jz %s'', ''ajmp %s'', ''xrl %s, A'', ''xrl %s, #%s'', ''xrl A, #%s'',
    ''xrl A, %s'', ''xrl A, @R0'', ''xrl A, @R1'', ''xrl A, R0'', ''xrl A, R1'', ''xrl A, R2'', ''xrl A, R3'', ''xrl A, R4'', ''xrl A, R5'',
    ''xrl A, R6'', ''xrl A, R7'', ''jnz %s'', ''acall %s'', ''orl C, %s'', ''jmp @A+dptr'', ''mov A, #%s'', ''mov %s, #%s'', ''mov @R0, #%s'',
    ''mov @R1, #%s'', ''mov R0, #%s'', ''mov R1, #%s'', ''mov R2, #%s'', ''mov R3, #%s'', ''mov R4, #%s'', ''mov R5, #%s'', ''mov R6, #%s'',
    ''mov R7, #%s'']"

definition mnemonic_1 :: "string list" where
  "mnemonic_1 = [
    ''sjmp %s'', ''ajmp %s'', ''anl C, %s'', ''movc A, @A+PC'', ''div AB'', ''mov %s, %s'', ''mov %s, @R0'', ''mov %s, @R1'', ''mov %s, R0'',
    ''mov %s, R1'', ''mov %s, R2'', ''mov %s, R3'', ''mov %s, R4'', ''mov %s, R5'', ''mov %s, R6'', ''mov %s, R7'', ''mov dptr, #0%X%02Xh'',
    ''acall %s'', ''mov %s, C'', ''movC A, @A+dptr'', ''subb A, #%s'', ''subb A, %s'', ''subb A, @R0'', ''subb A, @R1'', ''subb A, R0'', ''subb A, R1'',
    ''subb A, R2'', ''subb A, R3'', ''subb A, R4'', ''subb A, R5'', ''subb A, R6'', ''subb A, R7'', ''orl C, /%s'', ''ajmp %s'', ''mov C, %s'',
    ''inc dptr'', ''mul AB'', [], ''mov @R0, %s'', ''mov @R1, %s'', ''mov R0, %s'', ''mov R1, %s'', ''mov R2, %s'', ''mov R3, %s'', ''mov R4, %s'',
    ''mov R5, %s'', ''mov R6, %s'', ''mov R7, %s'', ''anl C, /%s'', ''acall %s'', ''cpl %s'', ''cpl C'', ''cjne A, #%s, %s'', ''cjne A, %s, %s'',
    ''cjne @R0, #%s, %s'', ''cjne @R1, #%s, %s'', ''cjne R0, #%s, %s'', ''cjne R1, #%s, %s'', ''cjne R2, #%s, %s'', ''cjne R3, #%s, %s'',
    ''cjne R4, #%s, %s'', ''cjne R5, #%s, %s'', ''cjne R6, #%s, %s'', ''cjne R7, #%s, %s'', ''push %s'', ''ajmp %s'', ''clr %s'', ''clr C'', ''swap A'',
    ''xch A, %s'', ''xch A, @R0'', ''xch A, @R1'', ''xch A, R0'', ''xch A, R1'', ''xch A, R2'', ''xch A, R3'', ''xch A, R4'', ''xch A, R5'',
    ''xch A, R6'', ''xch A, R7'', ''pop %s'', ''acall %s'', ''setb %s'', ''setb C'', ''da A'', ''djnz %s, %s'', ''xchd A, @R0'', ''xchd A, @R1'',
    ''djnz R0, %s'', ''djnz R1, %s'', ''djnz R2, %s'', ''djnz R3, %s'', ''djnz R4, %s'', ''djnz R5, %s'', ''djnz R6, %s'', ''djnz R7, %s'',
    ''movx A, @dptr'', ''ajmp %s'', ''movx A, @R0'', ''movx A, @R1'', ''clr A'', ''mov A, %s'', ''mov A, @R0'', ''mov A, @R1'', ''mov A, R0'',
    ''mov A, R1'', ''mov A, R2'', ''mov A, R3'', ''mov A, R4'', ''mov A, R5'', ''mov A, R6'', ''mov A, R7'', ''movx @dptr, A'', ''acall %s'',
    ''movx @R0, A'', ''movx @R1, A'', ''cpl A'', ''mov %s, A'', ''mov @R0, A'', ''mov @R1, A'', ''mov R0, A'', ''mov R1, A'', ''mov R2, A'',
    ''mov R3, A'', ''mov R4, A'', ''mov R5, A'', ''mov R6, A'', ''mov R7, A'']"

definition mnemonic :: "string list" where
  "mnemonic = mnemonic_0 @ mnemonic_1"

definition op_format :: "nat list" where
  "op_format = [
    1, 6, 13, 1, 1, 3, 1, 1, 1, 1, 1, 1, 1, 1, 1, 1, 12, 6, 13, 1, 1, 3, 1, 1, 1, 1, 1, 1,
    1, 1, 1, 1, 12, 6, 1, 1, 2, 3, 1, 1, 1, 1, 1, 1, 1, 1, 1, 1, 12, 6, 1, 1, 2, 3, 1, 1, 1,
    1, 1, 1, 1, 1, 1, 1, 5, 6, 3, 8, 2, 3, 1, 1, 1, 1, 1, 1, 1, 1, 1, 1, 5, 6, 3, 8, 2, 3,
    1, 1, 1, 1, 1, 1, 1, 1, 1, 1, 5, 6, 3, 8, 2, 3, 1, 1, 1, 1, 1, 1, 1, 1, 1, 1, 5, 6, 4,
    1, 2, 8, 2, 2, 2, 2, 2, 2, 2, 2, 2, 2, 5, 6, 4, 1, 1, 9, 3, 3, 3, 3, 3, 3, 3, 3, 3, 3,
    7, 6, 4, 1, 2, 3, 1, 1, 1, 1, 1, 1, 1, 1, 1, 1, 4, 6, 4, 1, 1, 0, 3, 3, 3, 3, 3, 3, 3,
    3, 3, 3, 4, 6, 4, 1, 10, 11, 10, 10, 10, 10, 10, 10, 10, 10, 10, 10, 3, 6, 4, 1, 1, 3,
    1, 1, 1, 1, 1, 1, 1, 1, 1, 1, 3, 6, 4, 1, 1, 11, 1, 1, 5, 5, 5, 5, 5, 5, 5, 5, 1, 6, 1,
    1, 1, 3, 1, 1, 1, 1, 1, 1, 1, 1, 1, 1, 1, 6, 1, 1, 1, 3, 1, 1, 1, 1, 1, 1, 1, 1, 1, 1]"

definition sfbitname :: "string list" where
  "sfbitname = [
    ''P0.0'', ''P0.1'', ''P0.2'', ''P0.3'', ''P0.4'', ''P0.5'', ''P0.6'', ''P0.7'', ''IT0'', ''IE0'', ''IT1'', ''IE1'', ''TR0'', ''TF0'', ''TR1'',
    ''TF1'', ''P1.0'', ''P1.1'', ''P1.2'', ''P1.3'', ''P1.4'', ''P1.5'', ''P1.6'', ''P1.7'', ''RI'', ''TI'', ''RB8'', ''TB8'', ''REN'', ''SM2'',
    ''SM1'', ''SM0'', ''P2.0'', ''P2.1'', ''P2.2'', ''P2.3'', ''P2.4'', ''P2.5'', ''P2.6'', ''P2.7'', ''EX0'', ''ET0'', ''EX1'', ''ET1'', ''ES'',
    ''0ADh'', ''0AEh'', ''EA'', ''P3.0'', ''P3.1'', ''P3.2'', ''P3.3'', ''P3.4'', ''P3.5'', ''P3.6'', ''P3.7'', ''PX0'', ''PT0'', ''PX1'', ''PT1'',
    ''PS'', ''0BDh'', ''0BEh'', ''0BFh'', ''0C0h'', ''0C1h'', ''0C2h'', ''0C3h'', ''0C4h'', ''0C5h'', ''0C6h'', ''0C7h'', ''0C8h'', ''0C9h'', ''0CAh'',
    ''0CBh'', ''0CCh'', ''0CDh'', ''0CEh'', ''0CFh'', ''P'', ''0D1h'', ''OV'', ''RS0'', ''RS1'', ''F0'', ''AC'', ''CY'', ''0D8h'', ''0D9h'', ''0DAh'',
    ''0DBh'', ''0DCh'', ''0DDh'', ''0DEh'', ''0DFh'', ''ACC.0'', ''ACC.1'', ''ACC.2'', ''ACC.3'', ''ACC.4'', ''ACC.5'', ''ACC.6'', ''ACC.7'', ''0E8h'',
    ''0E9h'', ''0EAh'', ''0EBh'', ''0ECh'', ''0EDh'', ''0EEh'', ''0EFh'', ''B.0'', ''B.1'', ''B.2'', ''B.3'', ''B.4'', ''B.5'', ''B.6'', ''B.7'',
    ''0F8h'', ''0F9h'', ''0FAh'', ''0FBh'', ''0FCh'', ''0FDh'', ''0FEh'', ''0FFh'']"

definition sfrname :: "string list" where
  "sfrname = [
    ''P0'', ''SP'', ''DPL'', ''DPH'', ''84h'', ''85h'', ''86h'', ''PCON'', ''TCON'', ''TMOD'', ''TL0'', ''TL1'', ''TH0'', ''TH1'', ''8Eh'', ''8Fh'',
    ''P1'', ''91h'', ''92h'', ''93h'', ''94h'', ''95h'', ''96h'', ''97h'', ''SCON'', ''SBUF'', ''9Ah'', ''9Bh'', ''9Ch'', ''9Dh'', ''9Eh'', ''9Fh'',
    ''P2'', ''0A1h'', ''0A2h'', ''0A3h'', ''0A4h'', ''0A5h'', ''0A6h'', ''0A7h'', ''IE'', ''0A9h'', ''0AAh'', ''0ABh'', ''0ACh'', ''0ADh'', ''0AEh'',
    ''0AFh'', ''P3'', ''0B1h'', ''0B2h'', ''0B3h'', ''0B4h'', ''0B5h'', ''0B6h'', ''0B7h'', ''IP'', ''0B9h'', ''0BAh'', ''0BBh'', ''0BCh'', ''0BDh'',
    ''0BEh'', ''0BFh'', ''0C0h'', ''0C1h'', ''0C2h'', ''0C3h'', ''0C4h'', ''0C5h'', ''0C6h'', ''0C7h'', ''0C8h'', ''0C9h'', ''0CAh'', ''0CBh'',
    ''0CCh'', ''0CDh'', ''0CEh'', ''0CFh'', ''PSW'', ''0D1h'', ''0D2h'', ''0D3h'', ''0D4h'', ''0D5h'', ''0D6h'', ''0D7h'', ''0D8h'', ''0D9h'', ''0DAh'',
    ''0DBh'', ''0DCh'', ''0DDh'', ''0DEh'', ''0DFh'', ''ACC'', ''0E1h'', ''0E2h'', ''0E3h'', ''0E4h'', ''0E5h'', ''0E6h'', ''0E7h'', ''0E8h'', ''0E9h'',
    ''0EAh'', ''0EBh'', ''0ECh'', ''0EDh'', ''0EEh'', ''0EFh'', ''B'', ''0F1h'', ''0F2h'', ''0F3h'', ''0F4h'', ''0F5h'', ''0F6h'', ''0F7h'', ''0F8h'',
    ''0F9h'', ''0FAh'', ''0FBh'', ''0FCh'', ''0FDh'', ''0FEh'', ''0FFh'']"

section \<open>Formatting\<close>

text \<open>\<^verbatim>\<open>sprintf\<close> with the conversions of the mnemonics: \<^verbatim>\<open>%s\<close>, \<^verbatim>\<open>%X\<close> and \<^verbatim>\<open>%02X\<close>. An argument that is missing or of the
  other kind is \<open>None\<close>; arguments that no conversion asks for are ignored.\<close>

datatype c_arg = Str_Arg string | Int_Arg nat

fun c_sprintf :: "string \<Rightarrow> c_arg list \<Rightarrow> string option" where
  "c_sprintf [] as = Some []"
| "c_sprintf (c # cs) as =
     (if c \<noteq> CHR ''%'' then map_option ((#) c) (c_sprintf cs as)
      else if take 1 cs = ''s'' then
        (case as of Str_Arg s # r \<Rightarrow> map_option ((@) s) (c_sprintf (drop 1 cs) r) | _ \<Rightarrow> None)
      else if take 1 cs = ''X'' then
        (case as of Int_Arg n # r \<Rightarrow> map_option ((@) (fmt_X 1 n)) (c_sprintf (drop 1 cs) r) | _ \<Rightarrow> None)
      else if take 3 cs = ''02X'' then
        (case as of Int_Arg n # r \<Rightarrow> map_option ((@) (fmt_X 2 n)) (c_sprintf (drop 3 cs) r) | _ \<Rightarrow> None)
      else None)"

text \<open>\<^verbatim>\<open>"0x%04x"\<close> of an \<^verbatim>\<open>int\<close>, which shows the 32 bits of a negative one.\<close>

definition label_text :: "int \<Rightarrow> string" where
  "label_text a = ''0x'' @ pad0 4 (fmt_x (unat (word_of_int a :: ut32)))"

section \<open>The first pass\<close>

definition nextbyte :: "u8 list \<Rightarrow> nat \<Rightarrow> u8 option" where
  "nextbyte mem p = (if p < length mem then Some (mem ! p) else None)"

definition longaddr :: "u8 \<Rightarrow> u8 \<Rightarrow> int" where
  "longaddr op1 op2 = int (push_bit 8 (unat op1) OR unat op2)"

definition absaddr :: "u8 \<Rightarrow> u8 \<Rightarrow> nat \<Rightarrow> int" where
  "absaddr opcode operand memPtr = int ((memPtr AND 0xf800) OR push_bit 3 (unat (opcode AND 0xe0)) OR unat operand)"

definition reladdr :: "u8 \<Rightarrow> nat \<Rightarrow> int" where
  "reladdr operand memPtr = int memPtr + sint operand"

definition format_of :: "u8 \<Rightarrow> nat" where
  "format_of opcode = op_format ! unat opcode"

text \<open>The address to go on at, \<open>-1\<close> for none, and the type of the flow: a branch, a call, a jump or a blank.\<close>

definition dis51_inst1 :: "u8 list \<Rightarrow> nat \<Rightarrow> (int \<times> char) option" where
  "dis51_inst1 mem p =
     Option.bind (nextbyte mem p) (\<lambda>opcode.
       let f = format_of opcode in
       if f = 0 then Some (-1, CHR '' '')
       else if f = 1 then
         Some (if opcode AND 0xef = 0x22 then -1 else if opcode = 0x73 then -1 else int (p + 1), CHR '' '')
       else if f \<le> 4 then Option.bind (nextbyte mem (p + 1)) (\<lambda>_. Some (int (p + 2), CHR '' ''))
       else if f = 5 then
         Option.bind (nextbyte mem (p + 1)) (\<lambda>op1.
           Some (reladdr op1 (p + 2), if opcode \<noteq> 0x80 then CHR ''b'' else CHR '' ''))
       else if f = 6 then
         Option.bind (nextbyte mem (p + 1)) (\<lambda>op1.
           Some (absaddr opcode op1 (p + 2), if opcode AND 0x10 \<noteq> 0 then CHR ''c'' else CHR '' ''))
       else if f \<le> 9 then
         Option.bind (nextbyte mem (p + 1)) (\<lambda>_. Option.bind (nextbyte mem (p + 2)) (\<lambda>_. Some (int (p + 3), CHR '' '')))
       else if f \<le> 12 then
         Option.bind (nextbyte mem (p + 1)) (\<lambda>_. Option.bind (nextbyte mem (p + 2)) (\<lambda>op2.
           Some (reladdr op2 (p + 3), CHR ''j'')))
       else if f = 13 then
         Option.bind (nextbyte mem (p + 1)) (\<lambda>op1. Option.bind (nextbyte mem (p + 2)) (\<lambda>op2.
           Some (longaddr op1 op2, if opcode = 0x12 then CHR ''c'' else CHR '' '')))
       else Some (-1, CHR '' ''))"

section \<open>The second pass\<close>

definition longaddr_label :: "u8 \<Rightarrow> u8 \<Rightarrow> string" where
  "longaddr_label op1 op2 = label_text (int (push_bit 8 (unat op1) OR unat op2))"

definition absaddr_label :: "u8 \<Rightarrow> u8 \<Rightarrow> nat \<Rightarrow> string" where
  "absaddr_label opcode operand memPtr =
     label_text (int ((memPtr AND 0xf800) OR push_bit 3 (unat (opcode AND 0xe0)) OR unat operand))"

definition reladdr_label :: "u8 \<Rightarrow> nat \<Rightarrow> string" where
  "reladdr_label operand memPtr = label_text (int memPtr + sint operand)"

definition printhex :: "u8 \<Rightarrow> string" where
  "printhex num = take 4 (if 0xa0 \<le> num \<or> num \<le> 0xf \<and> 0xa \<le> num then ''0'' @ fmt_X 1 (unat num) @ ''h'' else fmt_X 1 (unat num) @ ''h'')"

definition sfrdecode :: "u8 \<Rightarrow> string" where
  "sfrdecode sfr = (if sfr AND 0x80 \<noteq> 0 then sfrname ! unat (sfr AND 0x7f) else printhex sfr)"

definition sfbitdecode :: "u8 \<Rightarrow> string" where
  "sfbitdecode sfbit = (if sfbit AND 0x80 \<noteq> 0 then sfbitname ! unat (sfbit AND 0x7f) else printhex sfbit)"

text \<open>The arguments of the mnemonic; \<open>a\<close> is the address behind the instruction.\<close>

definition operands :: "u8 \<Rightarrow> u8 \<Rightarrow> u8 \<Rightarrow> nat \<Rightarrow> c_arg list" where
  "operands opcode op1 op2 a =
     (let f = format_of opcode in
      if f = 2 then [Str_Arg (printhex op1)]
      else if f = 3 then [Str_Arg (sfrdecode op1)]
      else if f = 4 then [Str_Arg (sfbitdecode op1)]
      else if f = 5 then [Str_Arg (reladdr_label op1 a)]
      else if f = 6 then [Str_Arg (absaddr_label opcode op1 a)]
      else if f = 7 then [Int_Arg (unat op1), Int_Arg (unat op2)]
      else if f = 8 then [Str_Arg (sfrdecode op1), Str_Arg (printhex op2)]
      else if f = 9 then [Str_Arg (sfrdecode op2), Str_Arg (sfrdecode op1)]
      else if f = 10 then [Str_Arg (printhex op1), Str_Arg (reladdr_label op2 a)]
      else if f = 11 then [Str_Arg (sfrdecode op1), Str_Arg (reladdr_label op2 a)]
      else if f = 12 then [Str_Arg (sfbitdecode op1), Str_Arg (reladdr_label op2 a)]
      else if f = 13 then [Str_Arg (longaddr_label op1 op2)]
      else [])"

text \<open>The text and the address behind the instruction. The case of the illegal opcode falls through to the next, which
  overwrites the text; operands that are not fetched are not used.\<close>

definition dis51_inst2 :: "u8 list \<Rightarrow> nat \<Rightarrow> (string \<times> nat) option" where
  "dis51_inst2 mem addr =
     Option.bind (nextbyte mem addr) (\<lambda>opcode.
       let f = format_of opcode;
           a = (if f > 6 then addr + 3 else if f > 1 then addr + 2 else addr + 1)
       in Option.bind (if f > 1 then nextbyte mem (addr + 1) else Some 0) (\<lambda>op1.
          Option.bind (if f > 6 then nextbyte mem (addr + 2) else Some 0) (\<lambda>op2.
          Option.bind (if f \<le> 13 then c_sprintf (mnemonic ! unat opcode) (operands opcode op1 op2 a)
                       else c_sprintf ''DB 0%Xh  ; error in op_format table'' [Int_Arg (unat opcode)])
            (\<lambda>t. Some (t, a)))))"

definition dis51_udis :: "u8 list \<Rightarrow> (string \<times> int) option" where
  "dis51_udis bytes =
     Option.bind (dis51_inst1 bytes 0) (\<lambda>(ptr, ty).
       if ptr = -1 then Some (''(invalid instruction)'', -1)
       else map_option (\<lambda>(t, n). (t, int n)) (dis51_inst2 bytes 0))"

lemma dis51_inst2_advances [termination_simp]:
  "dis51_inst2 mem addr = Some (t, a) \<Longrightarrow> addr < a"
  by (auto simp: dis51_inst2_def Let_def bind_eq_Some_conv)

text \<open>The disassembly of the whole memory, which leaves the text of the last instruction.\<close>

function pass2_loop :: "u8 list \<Rightarrow> nat \<Rightarrow> string \<Rightarrow> string option" where
  "pass2_loop mem addr t =
     (if addr < 65536 then
        Option.bind (dis51_inst2 mem addr) (\<lambda>r. pass2_loop mem (snd r) (fst r))
      else Some t)"
  by pat_completeness auto
termination
  by (relation "measure (\<lambda>(_, addr, _). 65536 - addr)") (auto dest: dis51_inst2_advances)

declare pass2_loop.simps [simp del]

definition pass2 :: "string \<Rightarrow> u8 list \<Rightarrow> string option" where
  "pass2 ofile mem = pass2_loop mem 0 ofile"

section \<open>The analyser\<close>

definition arch_8051_aop :: "'w aop_fun" where
  "arch_8051_aop addr bytes aop0 s =
     Option.bind (dis51_inst1 bytes 0) (\<lambda>(ptr, ty).
       if ptr = -1 \<and> hd bytes \<noteq> 0x73 \<and> hd bytes AND 0xef \<noteq> 0x22 then
         Option.bind (nextbyte bytes 1) (\<lambda>_. Some (s, aop_unk\<lparr>a_type := AOP_TYPE_TRAP\<rparr>, 1))
       else
         Option.bind (dis51_inst2 bytes 0) (\<lambda>(t, n).
           let l = int n;
               aop = (if ty = CHR ''j'' then
                        aop_unk\<lparr>a_type := AOP_TYPE_JMP, a_jump := word_of_int l + addr + word_of_int ptr, a_eob := True\<rparr>
                      else if ty = CHR ''c'' then aop_unk\<lparr>a_type := AOP_TYPE_CALL, a_jump := word_of_int ptr\<rparr>
                      else if ty = CHR ''b'' then
                        aop_unk\<lparr>a_type := AOP_TYPE_CJMP, a_jump := word_of_int l + addr + word_of_int ptr,
                          a_fail := word_of_int l + addr, a_eob := True\<rparr>
                      else aop_unk)
           in Some (s, aop\<lparr>a_length := l, a_ref := 0\<rparr>, l)))"

section \<open>The text\<close>

text \<open>An upper bound of the length of a text from the kinds of the arguments; \<open>None\<close> when they do not fit.\<close>

datatype c_kind = Str_Kind nat | Byte_Kind

fun arg_fits :: "c_kind \<Rightarrow> c_arg \<Rightarrow> bool" where
  "arg_fits (Str_Kind n) (Str_Arg s) = (length s \<le> n)"
| "arg_fits Byte_Kind (Int_Arg i) = (i < 256)"
| "arg_fits _ _ = False"

fun c_bound :: "string \<Rightarrow> c_kind list \<Rightarrow> nat option" where
  "c_bound [] ks = Some 0"
| "c_bound (c # cs) ks =
     (if c \<noteq> CHR ''%'' then map_option Suc (c_bound cs ks)
      else if take 1 cs = ''s'' then
        (case ks of Str_Kind n # r \<Rightarrow> map_option ((+) n) (c_bound (drop 1 cs) r) | _ \<Rightarrow> None)
      else if take 1 cs = ''X'' then
        (case ks of Byte_Kind # r \<Rightarrow> map_option ((+) 2) (c_bound (drop 1 cs) r) | _ \<Rightarrow> None)
      else if take 3 cs = ''02X'' then
        (case ks of Byte_Kind # r \<Rightarrow> map_option ((+) 2) (c_bound (drop 3 cs) r) | _ \<Rightarrow> None)
      else None)"

lemma fmt_X_byte: "n < 256 \<Longrightarrow> length (fmt_X (Suc 0) n) \<le> 2" "n < 256 \<Longrightarrow> length (fmt_X 2 n) \<le> 2"
  using digits_length [of 16 n 2] by (auto simp: fmt_X_def fmt_x_def pad0_def)

lemma c_sprintf_bound:
  "c_bound cs ks = Some b \<Longrightarrow> list_all2 arg_fits ks as \<Longrightarrow> \<exists>t \<in> set_option (c_sprintf cs as). length t \<le> b"
proof (induction cs ks arbitrary: as b rule: c_bound.induct)
  case (2 c cs ks)
  have *: "length x + length t \<le> m + n" if "length x \<le> m" "length t \<le> n" for x t :: string and m n
    using that by simp
  from 2 show ?case
    by (auto split: if_splits list.splits c_kind.splits c_arg.splits simp: list_all2_Cons1 option.set_map elim!: arg_fits.elims)
       (fastforce dest: fmt_X_byte intro: * * [where m = 2, simplified])+
qed simp

lemma take_at_most: "length (take n xs) \<le> n"
  by simp

lemma label_text_length: "length (label_text a) \<le> 10"
proof -
  have "unat (word_of_int a :: ut32) < 16 ^ 8" using unsigned_less [of "word_of_int a :: ut32", where ?'a = nat] by simp
  from digits_length [OF _ this] show ?thesis by (simp add: label_text_def fmt_x_def pad0_def)
qed

lemma printhex_length: "length (printhex n) \<le> 4"
  unfolding printhex_def by (rule take_at_most)

lemma names_short: "list_all (\<lambda>s. length s \<le> 4) sfrname" "list_all (\<lambda>s. length s \<le> 5) sfbitname"
  "length sfrname = 128" "length sfbitname = 128"
  by (simp_all add: sfrname_def sfbitname_def)

lemma and_7f_less: "unat (b AND 0x7f :: u8) < 128"
proof -
  have "b AND 0x7f \<le> 0x7f" by (rule word_and_le1)
  then show ?thesis by (simp add: word_le_nat_alt)
qed

lemma sfrdecode_length: "length (sfrdecode b) \<le> 4"
  using names_short(1) and_7f_less [of b] printhex_length [of b]
  by (auto simp: sfrdecode_def list_all_length names_short(3))

lemma sfbitdecode_length: "length (sfbitdecode b) \<le> 5"
  using names_short(2) and_7f_less [of b] printhex_length [of b]
  by (auto simp: sfbitdecode_def list_all_length names_short(4) intro: le_trans)

section \<open>The tables fit together\<close>

definition kinds :: "nat \<Rightarrow> c_kind list" where
  "kinds f =
     (if f = 2 then [Str_Kind 4] else if f = 3 then [Str_Kind 4] else if f = 4 then [Str_Kind 5]
      else if f = 5 \<or> f = 6 \<or> f = 13 then [Str_Kind 10] else if f = 7 then [Byte_Kind, Byte_Kind]
      else if f = 8 \<or> f = 9 then [Str_Kind 4, Str_Kind 4]
      else if f = 10 \<or> f = 11 then [Str_Kind 4, Str_Kind 10]
      else if f = 12 then [Str_Kind 5, Str_Kind 10] else [])"

definition row_fits :: "string \<times> nat \<Rightarrow> bool" where
  "row_fits r = (snd r \<le> 13 \<and> (case c_bound (fst r) (kinds (snd r)) of Some b \<Rightarrow> b \<le> 27 | None \<Rightarrow> False))"


lemma rows_fit: "list_all row_fits (zip mnemonic op_format)"
  by code_simp

lemma table_lengths: "length mnemonic = 256" "length op_format = 256"
  by (simp_all add: mnemonic_def mnemonic_0_def mnemonic_1_def op_format_def)

lemma row_fits_at: "row_fits (mnemonic ! unat (c :: u8), format_of c)"
proof -
  have "unat c < 256" using unsigned_less [of c, where ?'a = nat] by simp
  with rows_fit show ?thesis by (simp add: list_all_length table_lengths format_of_def)
qed

lemma format_le: "format_of c \<le> 13"
  using row_fits_at [of c] by (simp add: row_fits_def)

lemma byte_arg: "unat (c :: u8) < 256"
  using unsigned_less [of c, where ?'a = nat] by simp

lemma operands_fit: "list_all2 arg_fits (kinds (format_of c)) (operands c op1 op2 a)"
  using format_le [of c]
  by (simp add: kinds_def operands_def Let_def printhex_length sfrdecode_length sfbitdecode_length byte_arg
      reladdr_label_def absaddr_label_def longaddr_label_def label_text_length)

lemma text_total: "\<exists>t. c_sprintf (mnemonic ! unat c) (operands c op1 op2 a) = Some t \<and> length t \<le> 27"
proof -
  obtain b where "c_bound (mnemonic ! unat c) (kinds (format_of c)) = Some b" "b \<le> 27"
    using row_fits_at [of c] by (auto simp: row_fits_def split: option.splits)
  with c_sprintf_bound [OF _ operands_fit] show ?thesis by (fastforce dest: c_sprintf_bound [OF _ operands_fit])
qed

definition ins_length :: "u8 \<Rightarrow> nat" where
  "ins_length c = (if format_of c \<le> 1 then 1 else if format_of c \<le> 6 then 2 else 3)"

section \<open>Both passes\<close>

lemma nextbyte_in [simp]: "p < length mem \<Longrightarrow> nextbyte mem p = Some (mem ! p)"
  by (simp add: nextbyte_def)

lemma inst2_total: "p + 3 \<le> length mem \<Longrightarrow> \<exists>t. dis51_inst2 mem p = Some (t, p + ins_length (mem ! p)) \<and> length t \<le> 27"
  using text_total [of "mem ! p" "if format_of (mem ! p) > 1 then mem ! (p + 1) else 0"
      "if format_of (mem ! p) > 6 then mem ! (p + 2) else 0" "p + ins_length (mem ! p)"] format_le [of "mem ! p"]
  by (auto simp: dis51_inst2_def Let_def ins_length_def split: if_splits)

text \<open>The addresses the first pass goes on at, from the format of the opcode.\<close>

definition flow :: "u8 \<Rightarrow> u8 \<Rightarrow> u8 \<Rightarrow> nat \<Rightarrow> int" where
  "flow c op1 op2 a =
     (let f = format_of c in
      if f = 0 \<or> c \<in> {0x22, 0x32, 0x73} then -1
      else if f = 5 then int a + sint op1
      else if f = 6 then absaddr c op1 a
      else if 10 \<le> f \<and> f \<le> 12 then int a + sint op2
      else if f = 13 then longaddr op1 op2
      else int a)"

definition flow_type :: "u8 \<Rightarrow> char" where
  "flow_type c =
     (let f = format_of c in
      if f = 5 \<and> c \<noteq> 0x80 then CHR ''b''
      else if f = 6 \<and> c AND 0x10 \<noteq> 0 \<or> c = 0x12 then CHR ''c''
      else if 10 \<le> f \<and> f \<le> 12 then CHR ''j'' else CHR '' '')"

lemma and_10_cases: "(c :: u8) AND 0x10 = 0 \<or> c AND 0x10 = 0x10"
proof -
  have "c AND 2 ^ 4 = of_bool (bit c 4) * 2 ^ 4"
  proof (rule bit_word_eqI)
    fix n
    have "bit (2 ^ 4 :: u8) n \<longleftrightarrow> n = 4" by (subst bit_exp_iff) auto
    then show "bit (c AND 2 ^ 4) n = bit (of_bool (bit c 4) * 2 ^ 4 :: u8) n" by (auto simp: bit_and_iff)
  qed
  then show ?thesis by (cases "bit c 4") simp_all
qed

lemma and_ef_22: "(c :: u8) AND 0xef = 0x22 \<longleftrightarrow> c = 0x22 \<or> c = 0x32"
proof
  assume *: "c AND 0xef = 0x22"
  have "c = c AND - 1" by simp
  also have "(- 1 :: u8) = 0xef OR 0x10" by simp
  also have "c AND (0xef OR 0x10) = (c AND 0xef) OR (c AND 0x10)" by (rule bit.conj_disj_distrib)
  finally show "c = 0x22 \<or> c = 0x32" using and_10_cases [of c] * by auto
qed auto

lemma illegal_row: "list_all (\<lambda>(k, f). (f = 0) = (k = 165)) (enumerate 0 op_format)"
  by (simp add: op_format_def)

lemma format_0: "format_of c = 0 \<longleftrightarrow> c = 0xa5"
proof -
  have "unat c < 256" using unsigned_less [of c, where ?'a = nat] by simp
  then have "format_of c = 0 \<longleftrightarrow> unat c = unat (0xa5 :: u8)"
    using illegal_row by (simp add: list_all_length table_lengths format_of_def nth_enumerate_eq)
  then show ?thesis by (simp only: word_unat_eq_iff)
qed

lemma format_facts: "(format_of c = 0 \<longleftrightarrow> c = 0xa5) \<and> (c AND 0xef = 0x22 \<longleftrightarrow> c = 0x22 \<or> c = 0x32) \<and>
    (c \<in> {0x22, 0x32, 0x73} \<longrightarrow> format_of c = 1) \<and> (c = 0x12 \<longrightarrow> format_of c = 13)"
  unfolding format_0 and_ef_22 by (auto simp: format_of_def op_format_def)

lemma format_cases: "format_of c \<in> {0, 1, 2, 3, 4, 5, 6, 7, 8, 9, 10, 11, 12, 13}"
  using format_le [of c] by (simp add: le_Suc_eq numeral_eq_Suc)

lemma inst1_total:
  assumes "p + 3 \<le> length mem"
  shows "dis51_inst1 mem p = Some (flow (mem ! p) (mem ! (p + 1)) (mem ! (p + 2)) (p + ins_length (mem ! p)), flow_type (mem ! p))"
proof -
  define c where "c = mem ! p"
  have n: "nextbyte mem p = Some c" "nextbyte mem (p + 1) = Some (mem ! (p + 1))" "nextbyte mem (p + 2) = Some (mem ! (p + 2))"
    using assms by (simp_all add: c_def)
  have "c = 0x12 \<longrightarrow> format_of c = 13" "c \<in> {0x22, 0x32, 0x73} \<longrightarrow> format_of c = 1" "c AND 0xef = 0x22 \<longleftrightarrow> c = 0x22 \<or> c = 0x32"
    using format_facts [of c] by blast+
  with format_cases [of c] show ?thesis unfolding c_def [symmetric] dis51_inst1_def flow_def flow_type_def ins_length_def reladdr_def n
    by (elim insertE emptyE) (simp_all del: One_nat_def, auto)
qed

text \<open>C38 The printing pass is total: at every position with three readable bytes it prints a text of at most 27 characters, for
  every opcode and all operands, and returns the address one, two or three bytes further. So every mnemonic fits the arguments its
  format passes, and the \<^verbatim>\<open>str[128]\<close> of the analyser never overflows.\<close>

theorem mcs51_text_total:
  assumes "p + 3 \<le> length mem"
  shows "\<exists>t. dis51_inst2 mem p = Some (t, p + ins_length (mem ! p)) \<and> length t \<le> 27"
  by (rule inst2_total [OF assms])

theorem mcs51_text_total_witness: "\<exists>t. dis51_inst2 [0x85, 0x90, 0x81] 0 = Some (t, 3) \<and> length t \<le> 27"
  using mcs51_text_total [of 0 "[0x85, 0x90, 0x81]"] by (simp add: ins_length_def format_of_def op_format_def)

text \<open>The two passes agree: on every instruction that is not a jump, a call, a branch, a return or the illegal opcode the first
  pass goes on exactly at the address the printing pass returns, and its type is blank.\<close>

theorem mcs51_passes_agree:
  assumes "p + 3 \<le> length mem" and "format_of (mem ! p) \<in> {1, 2, 3, 4, 7, 8, 9}" and "mem ! p \<notin> {0x22, 0x32, 0x73}"
  shows "dis51_inst1 mem p = map_option (\<lambda>(t, a). (int a, CHR '' '')) (dis51_inst2 mem p)"
proof -
  have "mem ! p \<noteq> 0x12" using assms(2) format_facts [of "mem ! p"] by auto
  then show ?thesis using inst2_total [OF assms(1)] inst1_total [OF assms(1)] assms(2,3)
    by (auto simp: flow_def flow_type_def Let_def)
qed

theorem mcs51_passes_agree_witness:
  "dis51_inst1 [0x85, 0x90, 0x81] 0 = map_option (\<lambda>(t, a). (int a, CHR '' '')) (dis51_inst2 [0x85, 0x90, 0x81] 0)"
  by (rule mcs51_passes_agree) (simp_all add: format_of_def op_format_def)

text \<open>The disassembly of a whole memory returns.\<close>

lemma pass2_loop_total: "65538 \<le> length mem \<Longrightarrow> \<exists>t. pass2_loop mem a t0 = Some t"
proof (induction "65536 - a" arbitrary: a t0 rule: less_induct)
  case less
  show ?case
  proof (cases "a < 65536")
    case True
    then obtain t where t: "dis51_inst2 mem a = Some (t, a + ins_length (mem ! a))" using inst2_total [of a mem] less.prems by auto
    have "0 < ins_length (mem ! a)" by (simp add: ins_length_def)
    then have "65536 - (a + ins_length (mem ! a)) < 65536 - a" using True by linarith
    from less.hyps [OF this less.prems] t True show ?thesis by (subst pass2_loop.simps) simp
  qed (subst pass2_loop.simps, simp)
qed

text \<open>The disassembly of a memory of 64 KB returns for every contents, though it reads up to two bytes behind the last
  instruction, so it needs 65538 bytes.\<close>

theorem mcs51_pass2_returns:
  assumes "65538 \<le> length mem"
  shows "\<exists>t. pass2 ofile mem = Some t"
  unfolding pass2_def by (rule pass2_loop_total [OF assms])

theorem mcs51_pass2_returns_witness: "\<exists>t. pass2 [] (replicate 65538 0) = Some t"
  by (rule mcs51_pass2_returns) simp

section \<open>The analyser\<close>

lemma sint_byte: "3 + sint (b :: u8) = 0 \<longleftrightarrow> b = 0xfd" "4 + sint (b :: u8) = 0 \<longleftrightarrow> b = 0xfc"
proof -
  have "b = 0xfd" if "sint b = sint (0xfd :: u8)" using that by (simp only: signed_word_eqI)
  moreover have "b = 0xfc" if "sint b = sint (0xfc :: u8)" using that by (simp only: signed_word_eqI)
  ultimately show "3 + sint b = 0 \<longleftrightarrow> b = 0xfd" "4 + sint b = 0 \<longleftrightarrow> b = 0xfc" by auto
qed

lemma flow_stops: "flow c op1 op2 (ins_length c) = - 1 \<longleftrightarrow>
    c \<in> {0xa5, 0x22, 0x32, 0x73} \<or> format_of c = 5 \<and> op1 = 0xfd \<or> format_of c \<in> {10, 11, 12} \<and> op2 = 0xfc"
  using format_cases [of c] format_facts [of c]
  by (elim insertE emptyE) (auto simp: flow_def Let_def ins_length_def absaddr_def longaddr_def sint_byte [symmetric])

text \<open>The analyser on the value of both passes.\<close>

definition aop_of :: "int \<Rightarrow> char \<Rightarrow> int \<Rightarrow> ut64 \<Rightarrow> aop_t" where
  "aop_of ptr ty l addr =
     (if ty = CHR ''j'' then aop_unk\<lparr>a_type := AOP_TYPE_JMP, a_jump := word_of_int l + addr + word_of_int ptr, a_eob := True, a_length := l\<rparr>
      else if ty = CHR ''c'' then aop_unk\<lparr>a_type := AOP_TYPE_CALL, a_jump := word_of_int ptr, a_length := l\<rparr>
      else if ty = CHR ''b'' then
        aop_unk\<lparr>a_type := AOP_TYPE_CJMP, a_jump := word_of_int l + addr + word_of_int ptr, a_fail := word_of_int l + addr,
          a_eob := True, a_length := l\<rparr>
      else aop_unk\<lparr>a_length := l\<rparr>)"

lemma aop_8051_value:
  assumes "3 \<le> length bs" and "bs ! 0 = c" and "bs ! 1 = op1" and "bs ! 2 = op2"
  shows "arch_8051_aop addr bs aop0 s =
    (if c = 0xa5 \<or> format_of c = 5 \<and> op1 = 0xfd \<or> format_of c \<in> {10, 11, 12} \<and> op2 = 0xfc
     then Some (s, aop_unk\<lparr>a_type := AOP_TYPE_TRAP\<rparr>, 1)
     else Some (s, aop_of (flow c op1 op2 (ins_length c)) (flow_type c) (int (ins_length c)) addr, int (ins_length c)))"
proof -
  have "bs \<noteq> []" using assms(1) by auto
  then have hd: "hd bs = c" using assms(2) by (simp add: hd_conv_nth)
  have n: "nextbyte bs (Suc 0) = Some op1" using assms(1,3) by (simp add: nextbyte_def)
  have 1: "dis51_inst1 bs 0 = Some (flow c op1 op2 (ins_length c), flow_type c)"
    using inst1_total [of 0 bs] assms unfolding add_0 by blast
  obtain t where 2: "dis51_inst2 bs 0 = Some (t, ins_length c)"
    using inst2_total [of 0 bs] assms(1,2) unfolding add_0 by blast
  have "flow c op1 op2 (ins_length c) = - 1 \<and> c \<noteq> 0x73 \<and> c AND 0xef \<noteq> 0x22 \<longleftrightarrow>
      c = 0xa5 \<or> format_of c = 5 \<and> op1 = 0xfd \<or> format_of c \<in> {10, 11, 12} \<and> op2 = 0xfc"
    unfolding flow_stops using format_facts [of c] by auto
  then show ?thesis
    by (simp add: arch_8051_aop_def hd n 1 2 aop_of_def aop_unk_def aop_zero_def Let_def split del: if_split cong: if_cong) simp
qed

text \<open>C37 The analyser treats an instruction as invalid, with the type of a trap, the return value 1 and the length 0, exactly for
  the illegal opcode \<^verbatim>\<open>A5\<close> and for a relative jump or branch whose target, counted from the instruction, is the byte before it. All
  other bytes give the length of the printing pass, and the type of a call, a branch, a jump or none.\<close>

theorem mcs51_errors:
  assumes "3 \<le> length bs"
  shows "\<exists>a n t l. arch_8051_aop addr bs aop0 s = Some (s, a, n) \<and> dis51_inst2 bs 0 = Some (t, l) \<and>
    (if bs ! 0 = 0xa5 \<or> format_of (bs ! 0) = 5 \<and> bs ! 1 = 0xfd \<or> format_of (bs ! 0) \<in> {10, 11, 12} \<and> bs ! 2 = 0xfc
     then a_type a = AOP_TYPE_TRAP \<and> n = 1 \<and> a_length a = 0
     else a_type a \<in> {AOP_TYPE_UNK, AOP_TYPE_CALL, AOP_TYPE_CJMP, AOP_TYPE_JMP} \<and> n = int l \<and> a_length a = n)"
proof -
  obtain t where "dis51_inst2 bs 0 = Some (t, ins_length (bs ! 0))" using inst2_total [of 0 bs] assms by auto
  with aop_8051_value [OF assms refl refl refl, of addr aop0 s] show ?thesis
    by (auto simp: aop_of_def aop_unk_def aop_zero_def)
qed

theorem mcs51_errors_witness:
  "\<forall>s :: unit an_state. \<exists>a. arch_8051_aop 0x100 [0x80, 0xfd, 0] aop_zero s = Some (s, a, 1) \<and> a_type a = AOP_TYPE_TRAP"
proof
  fix s :: "unit an_state"
  have "(3 :: nat) \<le> length [0x80 :: u8, 0xfd, 0]" by simp
  from mcs51_errors [OF this, of "0x100" aop_zero s]
  show "\<exists>a. arch_8051_aop 0x100 [0x80, 0xfd, 0] aop_zero s = Some (s, a, 1) \<and> a_type a = AOP_TYPE_TRAP"
    by (auto simp: format_of_def op_format_def)
qed

text \<open>The targets of the branches: the length is added twice, in the pass and in the analyser, and the conditional branches with
  two operands have the type of an unconditional jump, without a way on.\<close>

lemma mcs51_branch_target:
  assumes "3 \<le> length bs" and "format_of (bs ! 0) = 5" and "bs ! 0 \<noteq> 0x80" and "bs ! 1 \<noteq> 0xfd"
  shows "arch_8051_aop addr bs aop0 s = Some (s, aop_unk\<lparr>a_type := AOP_TYPE_CJMP, a_length := 2, a_eob := True,
      a_jump := addr + 4 + sx8 (bs ! 1), a_fail := addr + 2\<rparr>, 2)"
proof -
  have "bs ! 0 \<notin> {0xa5, 0x22, 0x32, 0x73, 0x12}" using assms(2) format_facts [of "bs ! 0"] by auto
  with aop_8051_value [OF assms(1) refl refl refl, of addr aop0 s] assms(2-4) show ?thesis
    by (simp add: flow_def flow_type_def ins_length_def aop_of_def aop_unk_def aop_zero_def sx8_def add.assoc)
qed

lemma mcs51_cjne_target:
  assumes "3 \<le> length bs" and "format_of (bs ! 0) \<in> {10, 11, 12}" and "bs ! 2 \<noteq> 0xfc"
  shows "arch_8051_aop addr bs aop0 s = Some (s, aop_unk\<lparr>a_type := AOP_TYPE_JMP, a_length := 3, a_eob := True,
      a_jump := addr + 6 + sx8 (bs ! 2)\<rparr>, 3)"
proof -
  have "bs ! 0 \<notin> {0xa5, 0x22, 0x32, 0x73, 0x12}" using assms(2) format_facts [of "bs ! 0"] by auto
  with aop_8051_value [OF assms(1) refl refl refl, of addr aop0 s] assms(2,3) show ?thesis
    by (auto simp: flow_def flow_type_def ins_length_def aop_of_def aop_unk_def aop_zero_def sx8_def add.assoc)
qed

text \<open>Returns and the indirect jump are refused by the disassembly, though the second pass prints them, and the text of the
  illegal opcode is lost.\<close>

lemma mcs51_ret_invalid: "dis51_udis [0x22, 0, 0] = Some (''(invalid instruction)'', -1)"
  "dis51_inst2 [0x22, 0, 0] 0 = Some (''ret'', 1)" "dis51_inst2 [0xa5, 0, 0] 0 = Some ([], 1)"
  by code_simp+

end
