(* ===== verification/Spec2Isabelle.thy ===== *)
theory Spec2Isabelle
  imports List_Head Utils Config Ranges Flags Sections Undo Crc Base64 Rahash Trace Binparse Vm_X86 Analyze Macros Btree Seek Search Msil Mcs51
begin

text \<open>
  A verification library for radare, the command-line hexadecimal editor and analyser under \<^verbatim>\<open>src/src\<close>.

  \<^bold>\<open>The program.\<close> A session opens a device through an I/O plugin and keeps one global configuration, one
  seek and one block of bytes read at the seek. Reads and writes go through the core (\<^verbatim>\<open>rio.c\<close>), which
  translates addresses through the sections, applies the write mask and records writes for undo. Names
  (flags), address ranges, data areas, comments, cross references, traces and the graph of the analysed code are tables
  keyed by address, most of them intrusive linked lists. Searching runs an automaton of keywords over
  the bytes; the virtual machine evaluates the text of opcodes over registers and a cache of memory; the analysis
  decodes opcodes into basic blocks. The tools beside the editor share the checksums and the encodings.

  \<^bold>\<open>Theories and sources.\<close>
  \<^item> \<^theory_text>\<open>Radare_Prelude\<close>: word types of \<^verbatim>\<open>types.h\<close>, rule collections, generic facts on lists.
  \<^item> \<^theory_text>\<open>C_Format\<close>: the formats of \<^verbatim>\<open>printf\<close> and \<^verbatim>\<open>sscanf\<close>, \<^verbatim>\<open>atoi\<close>, \<^verbatim>\<open>strchr\<close>, \<^verbatim>\<open>strstr\<close>, \<^verbatim>\<open>fgets\<close> that the sources use, with the
    round trip of hexadecimal addresses.
  \<^item> \<^theory_text>\<open>Radare_State\<close>: \<^verbatim>\<open>struct config_t\<close> of \<^verbatim>\<open>config.h\<close>; fields have the prefix \<open>c_\<close>.
  \<^item> \<^theory_text>\<open>List_Head\<close> (\<^verbatim>\<open>list.h\<close>): a heap of next and previous pointers; operations and iteration macros refine sequences.
  \<^item> \<^theory_text>\<open>Store_Spec\<close>: the contract of a key-value table, instantiated by the configuration and the flags.
  \<^item> \<^theory_text>\<open>Utils\<close> (\<^verbatim>\<open>utils.c\<close>), \<^theory_text>\<open>Base64\<close> (\<^verbatim>\<open>b64.c\<close>), \<^theory_text>\<open>Crc\<close> (\<^verbatim>\<open>rahash/crc16.c\<close>, \<^verbatim>\<open>crc32.c\<close>, \<^verbatim>\<open>crca.c\<close>).
  \<^item> \<^theory_text>\<open>Digest_Spec\<close>: padding, blocks and the contract of a digest in pieces; \<^theory_text>\<open>Md4\<close>, \<^theory_text>\<open>Md5\<close>, \<^theory_text>\<open>Sha1\<close>, \<^theory_text>\<open>Sha2\<close> (\<^verbatim>\<open>rahash/md4.c\<close>, \<^verbatim>\<open>md5c.c\<close>,
    \<^verbatim>\<open>sha1.c\<close>, \<^verbatim>\<open>sha2.c\<close>): the digests, each with the description of its standard; \<^theory_text>\<open>Rahash\<close> (\<^verbatim>\<open>rahash/hash.c\<close>, \<^verbatim>\<open>hamdist.c\<close>, \<^verbatim>\<open>rahash.c\<close>): the small
    checksums and the digests of the blocks of a file.
  \<^item> \<^theory_text>\<open>Config\<close> (\<^verbatim>\<open>config.c\<close>), \<^theory_text>\<open>Ranges\<close> (\<^verbatim>\<open>ranges.c\<close>), \<^theory_text>\<open>Flags\<close> (\<^verbatim>\<open>flags.c\<close>), \<^theory_text>\<open>Sections\<close> (\<^verbatim>\<open>section.c\<close>), \<^theory_text>\<open>Data\<close> (\<^verbatim>\<open>data.c\<close>),
    \<^theory_text>\<open>Trace\<close> (\<^verbatim>\<open>trace.c\<close>), \<^theory_text>\<open>Rdb\<close> (\<^verbatim>\<open>rdb.c\<close>): the tables, one record of state each.
  \<^item> \<^theory_text>\<open>Io\<close> (\<^verbatim>\<open>io.c\<close>, \<^verbatim>\<open>plugin.h\<close>), \<^theory_text>\<open>Io_Malloc\<close> (\<^verbatim>\<open>plug/io/malloc.c\<close>), \<^theory_text>\<open>Rio\<close> (\<^verbatim>\<open>rio.c\<close>), \<^theory_text>\<open>Undo\<close> (\<^verbatim>\<open>undo.c\<close>): the path of a read or a
    write, from the command to the device; the locale \<open>seek_device\<close> is what the core relies on.
  \<^item> \<^theory_text>\<open>Binparse\<close> (\<^verbatim>\<open>binparse.c\<close>): parsing of keywords with masks and ranges, and the search automaton.
  \<^item> \<^theory_text>\<open>Vm\<close>, \<^theory_text>\<open>Vm_X86\<close> (\<^verbatim>\<open>vm.c\<close>): the evaluator, its registers, cache and opcodes, and the x86 configuration.
  \<^item> \<^theory_text>\<open>Aop\<close> (\<^verbatim>\<open>code.h\<close>, \<^verbatim>\<open>arch/*/code.c\<close>), \<^theory_text>\<open>Analyze\<close> (\<^verbatim>\<open>analyze.c\<close>): opcode records of seven architectures and the recursive analysis.
  \<^item> \<^theory_text>\<open>Macros\<close> (\<^verbatim>\<open>macros.c\<close>): the table of macros, the substitution of arguments, labels and calls; the interpreter of commands is an argument.
  \<^item> \<^theory_text>\<open>Btree\<close> (\<^verbatim>\<open>btree.c\<close>): binary trees on a heap of nodes, with the orders of \<^verbatim>\<open>flags.c\<close>.
  \<^item> \<^theory_text>\<open>Seek\<close> (\<^verbatim>\<open>radare.c\<close>, \<^verbatim>\<open>search.c\<close>): the commands that search from the seek, copy and compare bytes, over the core of \<^theory_text>\<open>Rio\<close>.
  \<^item> \<^theory_text>\<open>Search\<close> (\<^verbatim>\<open>search.c\<close>): the drivers of the search, which join the automaton, the core, the flags and the ranges.
  \<^item> \<^theory_text>\<open>Msil\<close> (\<^verbatim>\<open>arch/msil\<close>): the disassembler of the .NET language and its analyser.
  \<^item> \<^theory_text>\<open>Mcs51\<close> (\<^verbatim>\<open>arch/8051\<close>): the two passes of the disassembler of the 8051, its tables and its analyser.

  \<^bold>\<open>Conventions.\<close> An operation takes the state of its component last and returns the new state with its
  result; printed text is a list of events. \<open>None\<close> is undefined behaviour of C (an access out of bounds, a division by zero, an
  unlinked node unlinked again) or the end of the process; a property that an operation returns is stated as \<open>Some\<close>.
  Integers have the width of the code where it matters (\<open>ut64\<close>, \<open>ut32\<close>, \<open>u8\<close>). What lies outside the sources is an argument:
  \<^verbatim>\<open>get_math\<close> and \<^verbatim>\<open>get_offset\<close> (the expression evaluator over flags and registers), the operating system's \<^verbatim>\<open>read\<close>, the
  allocator, the contents of uninitialised memory, the clock, the disassembler's opcode length.

  \<^bold>\<open>What the lemmas show.\<close>
  \<^item> Lists: every operation refines its sequence operation; deleting while iterating is safe.
  \<^item> Ranges: addition is union, subtraction is difference in general position and terminates, sorting terminates and sorts.
  \<^item> Tables: reads return the last write (through \<open>kv_store\<close>), invariants hold after every sequence of operations.
  \<^item> Device path: bytes written are read back, undoing all writes restores the device, seeks have a normal form.
  \<^item> Search: hits are occurrences, completeness where the automaton has it, no access leaves its arrays; through the drivers the flags of the hits are
    exactly at occurrences when the memory behind the keyword matches nothing.
  \<^item> Virtual machine: cached evaluation never touches the device; push and pop through the cache; register aliases.
  \<^item> Traces: counters equal event numbers; the listing terminates with sorted disjoint intervals.
  \<^item> Data: a new area is found at its addresses; comments added are shown.
  \<^item> Analysis: one block per address, every block reachable from the entry through recorded successors, the bytes of
    the blocks are those of the device, and the analysis of Java code always returns; splitting partitions a block.
  \<^item> Macros: a macro that was defined is executed line by line with its arguments in place, and its code is restored; calls that fail run nothing.
  \<^item> Commands over the device: the search from the seek ends at an occurrence or restores the seek; the copy moves the bytes as they were, overlapping or not.
  \<^item> .NET: decoding against the tables, how far it reads behind the memory, and the sequence that does not advance.
  \<^item> 8051: every opcode is printed within its buffer, the passes agree, and what the analyser refuses.
  \<^item> Binary tree: lookups answer like the scan of the list, removal and clearing free exactly their nodes.
  \<^item> Encodings and checksums: round trips, and equality of table-driven and bitwise computations.
  \<^item> Digests: over any sequence of updates the code computes the digest of the standard of the concatenated message, the constants are the roots of
    primes that the standard names, and rahash prints the digest of every block for the algorithms whose context is ready again.

  \<^bold>\<open>Loops.\<close> Loops over lists are structural; loops by index have a measure. The loops of \<^verbatim>\<open>ranges_sub\<close>, \<^verbatim>\<open>ranges_sort\<close>,
  \<^verbatim>\<open>trace_range\<close> and \<^verbatim>\<open>trace_show\<close>, which restart or may not end, are partial functions into \<open>option\<close>, with theorems that they return.
  The walk of the analysis is bounded by its 4096-byte buffer, the recursion by its depth argument, as in the code. No fuel is used.

  \<^bold>\<open>Not modelled.\<close> Terminal input and output, the command dispatcher and help texts, visual mode, sockets and
  processes, the debugger's platform code, third-party disassemblers and assemblers, and the separate file-format tools: they
  are interfaces to the operating system or large tables of other projects. The analysers of mips and z80 decide
  by memory that is not initialised (the upper half of the \<^verbatim>\<open>unsigned long\<close> the opcode is copied to, the type before the call that
  sets it), that of dalvik repeats a case and does not compile, and that of csr, with its decoder of prefixes, is left out. The search for the expanded keys of AES and the replacement
  of hits run foreign code or commands. The entropy of rahash is floating-point arithmetic.
\<close>

end
